(* ===== verification/Side_Eye_Prelude.thy ===== *)
theory Side_Eye_Prelude
  imports Main "HOL-Library.Word"
begin

text \<open>
  The notions every component shares.

  \<^item> Machine integers (\<open>u8\<close>, \<open>u16\<close>, \<open>u32\<close>, \<open>u64\<close>): Go's \<open>uint8\<close> .. \<open>uint64\<close>, and \<open>uintptr\<close>
    on the two supported platforms (linux/amd64, darwin/arm64), which are 64-bit.
  \<^item> \<open>fault\<close>: the ways in which a piece of the Go code stops other than by returning. They are
    values here, so that every run-time panic and every unsafe access is a branch of the model.
  \<^item> \<open>bindE\<close>: sequencing in \<open>fault + 'a\<close>; \<open>okE P m\<close>: whatever \<open>m\<close> returns satisfies \<open>P\<close>.
    The rules about them are collected in \<open>res_simps\<close> and \<open>ok_intros\<close>.
  \<^item> \<open>le_bytes\<close>, \<open>le_word\<close>: the little-endian layout of an integer (both platforms are
    little-endian).
  \<^item> \<open>blit\<close>, \<open>sub\<close>: overwriting and reading a segment of a byte array.
  \<^item> \<open>sort_search\<close>: the binary search of Go's standard library (\<open>sort.Search\<close>).
  \<^item> \<open>loopR\<close>: a Go loop without a static bound. Its result is \<open>None\<close> when it does not return. The
    locales \<open>loop_inv\<close> and \<open>loop_measure\<close> are the two ways the components reason about it.
\<close>

unbundle bit_operations_syntax

named_theorems res_simps \<open>sequencing of results\<close>
named_theorems ok_intros \<open>what a computation returns, if it returns\<close>

subsection \<open>Machine integers and faults\<close>

type_synonym u8 = "8 word"
type_synonym u16 = "16 word"
type_synonym u32 = "32 word"
type_synonym u64 = "64 word"

text \<open>
  \<open>WildAccess\<close> is an access through \<open>unsafe.Pointer\<close> outside the array it was derived from (Go does
  not check it: the effect is undefined); \<open>SegFault\<close> an unguarded read of an unmapped address. The
  other four are the run-time panics of Go.
\<close>

datatype fault = NilDeref | IndexOutOfRange | SliceOutOfRange | DivideByZero | WildAccess | SegFault

type_synonym 'a res = "fault + 'a"

subsection \<open>Sequencing\<close>

definition bindE :: "'e + 'a \<Rightarrow> ('a \<Rightarrow> 'e + 'b) \<Rightarrow> 'e + 'b" where
  "bindE m f = (case m of Inl e \<Rightarrow> Inl e | Inr x \<Rightarrow> f x)"

definition guardE :: "'e \<Rightarrow> bool \<Rightarrow> 'e + unit" where
  "guardE e c = (if c then Inr () else Inl e)"

definition ofOption :: "'e \<Rightarrow> 'a option \<Rightarrow> 'e + 'a" where
  "ofOption e x = (case x of None \<Rightarrow> Inl e | Some y \<Rightarrow> Inr y)"

lemma bindE_Inl [simp, res_simps]: "bindE (Inl e) f = Inl e"
  by (simp add: bindE_def)

lemma bindE_Inr [simp, res_simps]: "bindE (Inr x) f = f x"
  by (simp add: bindE_def)

lemma bindE_eq_Inr [res_simps]: "bindE m f = Inr y \<longleftrightarrow> (\<exists>x. m = Inr x \<and> f x = Inr y)"
  by (cases m) auto

lemma bindE_eq_Inl [res_simps]:
  "bindE m f = Inl e \<longleftrightarrow> m = Inl e \<or> (\<exists>x. m = Inr x \<and> f x = Inl e)"
  by (cases m) auto

lemma bindE_assoc: "bindE (bindE m f) g = bindE m (\<lambda>x. bindE (f x) g)"
  by (cases m) auto

lemma guardE_eq_Inr [simp, res_simps]: "guardE e c = Inr u \<longleftrightarrow> c"
  by (simp add: guardE_def)

lemma guardE_True [simp]: "guardE e True = Inr ()"
  by (simp add: guardE_def)

lemma guardE_False [simp]: "guardE e False = Inl e"
  by (simp add: guardE_def)

lemma ofOption_simps [simp, res_simps]: "ofOption e None = Inl e" "ofOption e (Some y) = Inr y"
  by (simp_all add: ofOption_def)

lemma ofOption_eq_Inr [simp, res_simps]: "ofOption e x = Inr y \<longleftrightarrow> x = Some y"
  by (cases x) auto

definition okE :: "('a \<Rightarrow> bool) \<Rightarrow> 'e + 'a \<Rightarrow> bool" where
  "okE P m = (case m of Inl _ \<Rightarrow> True | Inr x \<Rightarrow> P x)"

lemma okE_iff: "okE P m \<longleftrightarrow> (\<forall>x. m = Inr x \<longrightarrow> P x)"
  by (cases m) (auto simp: okE_def)

lemma okE_Inl [simp, ok_intros]: "okE P (Inl e)"
  by (simp add: okE_def)

lemma okE_Inr [simp]: "okE P (Inr x) \<longleftrightarrow> P x"
  by (simp add: okE_def)

lemma okE_D: "okE P m \<Longrightarrow> m = Inr x \<Longrightarrow> P x"
  by (simp add: okE_def)

lemma okE_bind: "okE P m \<Longrightarrow> (\<And>x. m = Inr x \<Longrightarrow> P x \<Longrightarrow> okE Q (f x)) \<Longrightarrow> okE Q (bindE m f)"
  by (cases m) auto

lemma okE_bindI [ok_intros]: "(\<And>x. m = Inr x \<Longrightarrow> okE Q (f x)) \<Longrightarrow> okE Q (bindE m f)"
  by (cases m) auto

lemma okE_mono: "okE P m \<Longrightarrow> (\<And>x. P x \<Longrightarrow> Q x) \<Longrightarrow> okE Q m"
  by (cases m) auto

subsection \<open>Little-endian integers\<close>

primrec le_bytes :: "nat \<Rightarrow> 'a::len word \<Rightarrow> u8 list" where
  "le_bytes 0 w = []"
| "le_bytes (Suc n) w = ucast w # le_bytes n (drop_bit 8 w)"

primrec le_word :: "u8 list \<Rightarrow> 'a::len word" where
  "le_word [] = 0"
| "le_word (b # bs) = ucast b OR push_bit 8 (le_word bs)"

lemma length_le_bytes [simp]: "length (le_bytes n w) = n"
  by (induction n arbitrary: w) auto

lemma le_word_le_bytes_take: "le_word (le_bytes n w) = take_bit (8 * n) (w :: 'a::len word)"
proof (induction n arbitrary: w)
  case (Suc n)
  show ?case
    by (rule bit_word_eqI) (auto simp: Suc bit_simps not_less)
qed simp

lemma le_word_le_bytes [simp]: "LENGTH('a) \<le> 8 * n \<Longrightarrow> le_word (le_bytes n w) = (w :: 'a::len word)"
  by (simp add: le_word_le_bytes_take take_bit_word_eq_self)

lemma le_bytes_inject:
  "LENGTH('a) \<le> 8 * n \<Longrightarrow> le_bytes n v = le_bytes n w \<longleftrightarrow> v = (w :: 'a::len word)"
  by (metis le_word_le_bytes)

subsection \<open>Words and naturals\<close>

lemma unat_of_nat_lt: "n < 2 ^ LENGTH('a) \<Longrightarrow> unat (of_nat n :: 'a::len word) = n"
  by (simp add: unsigned_of_nat take_bit_nat_eq_self)

lemma unat_of_nat_u32: "n < 2 ^ 32 \<Longrightarrow> unat (of_nat n :: u32) = n"
  by (rule unat_of_nat_lt) simp

lemma unat_add_u32: "unat a + unat b < 2 ^ 32 \<Longrightarrow> unat (a + b :: u32) = unat a + unat b"
  by (simp add: unat_word_ariths)

lemma unat_sub_u32: "b \<le> a \<Longrightarrow> unat (a - b :: u32) = unat a - unat b"
  by (simp add: unat_sub)

subsection \<open>Segments of a byte array\<close>

definition sub :: "'a list \<Rightarrow> nat \<Rightarrow> nat \<Rightarrow> 'a list" where
  "sub xs i n = take n (drop i xs)"

definition blit :: "'a list \<Rightarrow> nat \<Rightarrow> 'a list \<Rightarrow> 'a list" where
  "blit xs i ys = take i xs @ ys @ drop (i + length ys) xs"

lemma length_sub [simp]: "i + n \<le> length xs \<Longrightarrow> length (sub xs i n) = n"
  by (simp add: sub_def)

lemma length_blit [simp]: "i + length ys \<le> length xs \<Longrightarrow> length (blit xs i ys) = length xs"
  by (simp add: blit_def)

lemma sub_0 [simp]: "sub xs i 0 = []"
  by (simp add: sub_def)

lemma nth_sub: "k < n \<Longrightarrow> i + n \<le> length xs \<Longrightarrow> sub xs i n ! k = xs ! (i + k)"
  by (simp add: sub_def)

lemma nth_blit:
  assumes "i + length ys \<le> length xs" "k < length xs"
  shows "blit xs i ys ! k = (if i \<le> k \<and> k < i + length ys then ys ! (k - i) else xs ! k)"
  using assms by (auto simp: blit_def nth_append min_def not_less)

lemma sub_eqI:
  assumes "i + n \<le> length xs" "i + n \<le> length ys"
    and "\<And>k. i \<le> k \<Longrightarrow> k < i + n \<Longrightarrow> xs ! k = ys ! k"
  shows "sub xs i n = sub ys i n"
  using assms by (intro nth_equalityI) (auto simp: nth_sub)

lemma sub_blit_same: "i + length ys \<le> length xs \<Longrightarrow> sub (blit xs i ys) i (length ys) = ys"
  by (simp add: sub_def blit_def)

lemma sub_blit_sameI: "i + n \<le> length xs \<Longrightarrow> length ys = n \<Longrightarrow> sub (blit xs i ys) i n = ys"
  using sub_blit_same by blast

lemma sub_blit_other:
  assumes "i + length ys \<le> length xs" "j + n \<le> length xs" "j + n \<le> i \<or> i + length ys \<le> j"
  shows "sub (blit xs i ys) j n = sub xs j n"
  using assms by (intro sub_eqI) (auto simp: nth_blit)

lemma take_blit: "n \<le> i \<Longrightarrow> i + length ys \<le> length xs \<Longrightarrow> take n (blit xs i ys) = take n xs"
  by (simp add: blit_def min_def)

lemma sub_append_split: "sub xs i (m + n) = sub xs i m @ sub xs (i + m) n"
  by (simp add: sub_def take_add add.commute)

lemma take_eq_sub: "take n xs = sub xs 0 n"
  by (simp add: sub_def)

lemma blit_blit_disjoint:
  assumes "i + length ys \<le> j" "j + length zs \<le> length xs"
  shows "blit (blit xs i ys) j zs = blit (blit xs j zs) i ys"
  using assms by (intro nth_equalityI) (auto simp: nth_blit)

subsection \<open>Binary search: \<open>sort.Search\<close> of the standard library\<close>

function sort_search_loop :: "(nat \<Rightarrow> bool) \<Rightarrow> nat \<Rightarrow> nat \<Rightarrow> nat" where
  "sort_search_loop f i j =
     (if i < j then
        (let h = (i + j) div 2 in
         if \<not> f h then sort_search_loop f (h + 1) j else sort_search_loop f i h)
      else i)"
  by pat_completeness auto
termination
  by (relation "measure (\<lambda>(f, i, j). j - i)") auto

declare sort_search_loop.simps [simp del]

definition sort_search :: "nat \<Rightarrow> (nat \<Rightarrow> bool) \<Rightarrow> nat" where
  "sort_search n f = sort_search_loop f 0 n"

lemma sort_search_loop_stop: "\<not> i < j \<Longrightarrow> sort_search_loop f i j = i"
  by (subst sort_search_loop.simps) simp

lemma sort_search_loop_step:
  "i < j \<Longrightarrow> h = (i + j) div 2 \<Longrightarrow> sort_search_loop f i j =
    (if f h then sort_search_loop f i h else sort_search_loop f (h + 1) j)"
  by (subst sort_search_loop.simps) (simp add: Let_def)

lemma sort_search_loop_bounds:
  "i \<le> j \<Longrightarrow> i \<le> sort_search_loop f i j \<and> sort_search_loop f i j \<le> j"
proof (induction f i j rule: sort_search_loop.induct)
  case (1 f i j)
  define h where "h = (i + j) div 2"
  show ?case
  proof (cases "i < j")
    case True
    then have h: "i \<le> h" "h < j" by (auto simp: h_def)
    from h 1(1)[OF True h_def] 1(2)[OF True h_def] show ?thesis
      unfolding sort_search_loop_step [OF True h_def] by (cases "f h") auto
  next
    case False
    with 1(3) show ?thesis by (simp add: sort_search_loop_stop)
  qed
qed

definition monotone_below :: "nat \<Rightarrow> (nat \<Rightarrow> bool) \<Rightarrow> bool" where
  "monotone_below n f \<longleftrightarrow> (\<forall>a b. a \<le> b \<longrightarrow> b < n \<longrightarrow> f a \<longrightarrow> f b)"

lemma sort_search_loop_mono:
  assumes mono: "monotone_below n f"
  shows "i \<le> j \<Longrightarrow> j \<le> n \<Longrightarrow> \<forall>k < i. \<not> f k \<Longrightarrow> j < n \<longrightarrow> f j \<Longrightarrow>
    (\<forall>k < sort_search_loop f i j. \<not> f k) \<and>
    (sort_search_loop f i j < n \<longrightarrow> f (sort_search_loop f i j))"
  using mono
proof (induction f i j rule: sort_search_loop.induct)
  case (1 f i j)
  define h where "h = (i + j) div 2"
  show ?case
  proof (cases "i < j")
    case False
    then have "j = i" using 1(3) by simp
    then show ?thesis using 1(5,6) by (simp add: sort_search_loop_stop)
  next
    case True
    then have h: "i \<le> h" "h < j" by (auto simp: h_def)
    show ?thesis
    proof (cases "f h")
      case False
      have "\<forall>k < h + 1. \<not> f k"
        using False h 1(4,7) unfolding monotone_below_def
        by (metis Suc_eq_plus1 less_Suc_eq_le order_less_le_trans)
      moreover have "h + 1 \<le> j" using h by simp
      ultimately show ?thesis
        using 1(1) [OF True h_def False _ 1(4) _ 1(6,7)] False
        unfolding sort_search_loop_step [OF True h_def] by simp
    next
      case fh: True
      then have "\<not> \<not> f h" and "h \<le> n" using h 1(4) by simp_all
      from 1(2) [OF True h_def this(1) h(1) this(2) 1(5) _ 1(7)] fh show ?thesis
        unfolding sort_search_loop_step [OF True h_def] by simp
    qed
  qed
qed

lemma sort_search_le: "sort_search n f \<le> n"
  using sort_search_loop_bounds[of 0 n f] by (simp add: sort_search_def)

text \<open>On a monotone predicate the search returns the first index that satisfies it.\<close>

lemma sort_search_first:
  assumes "monotone_below n f"
  shows "k < sort_search n f \<Longrightarrow> \<not> f k"
    and "sort_search n f < n \<Longrightarrow> f (sort_search n f)"
  using sort_search_loop_mono [OF assms, of 0 n] by (simp_all add: sort_search_def)

lemma sort_search_iff:
  assumes "monotone_below n f"
  shows "sort_search n f = i \<longleftrightarrow> i \<le> n \<and> (\<forall>k < i. \<not> f k) \<and> (i < n \<longrightarrow> f i)"
proof
  assume "sort_search n f = i"
  then show "i \<le> n \<and> (\<forall>k < i. \<not> f k) \<and> (i < n \<longrightarrow> f i)"
    using sort_search_first [OF assms] sort_search_le [of n f] by auto
next
  assume i: "i \<le> n \<and> (\<forall>k < i. \<not> f k) \<and> (i < n \<longrightarrow> f i)"
  show "sort_search n f = i"
  proof (rule linorder_cases [of "sort_search n f" i])
    assume lt: "sort_search n f < i"
    with i have "sort_search n f < n" by simp
    from sort_search_first(2) [OF assms this] lt i show ?thesis by blast
  next
    assume gt: "i < sort_search n f"
    with sort_search_le [of n f] have "i < n" by simp
    with i sort_search_first(1) [OF assms gt] show ?thesis by blast
  qed
qed

subsection \<open>Loops\<close>

text \<open>
  \<open>body s = Some (Inr (again, s'))\<close>: one iteration from \<open>s\<close> ends in \<open>s'\<close>, and the loop goes on
  iff \<open>again\<close>. A fault ends the loop; an iteration that does not return (\<open>None\<close>) does not either.
\<close>

partial_function (option) loopR ::
  "('s \<Rightarrow> ((bool \<times> 's) res) option) \<Rightarrow> 's \<Rightarrow> ('s res) option" where
  "loopR body s =
     (case body s of
        None \<Rightarrow> None
      | Some r \<Rightarrow>
          (case r of
             Inl e \<Rightarrow> Some (Inl e)
           | Inr (again, s') \<Rightarrow> if again then loopR body s' else Some (Inr s')))"

text \<open>Fuel that bounds the iterations, for evaluation and for induction.\<close>

primrec loop_fuel ::
  "nat \<Rightarrow> ('s \<Rightarrow> ((bool \<times> 's) res) option) \<Rightarrow> 's \<Rightarrow> ('s res) option" where
  "loop_fuel 0 body s = None"
| "loop_fuel (Suc n) body s =
     (case body s of
        None \<Rightarrow> None
      | Some r \<Rightarrow>
          (case r of
             Inl e \<Rightarrow> Some (Inl e)
           | Inr (again, s') \<Rightarrow> if again then loop_fuel n body s' else Some (Inr s')))"

lemma loop_fuel_loopR: "loop_fuel n body s = Some r \<Longrightarrow> loopR body s = Some r"
proof (induction n arbitrary: s)
  case (Suc n)
  show ?case
  proof (cases "\<exists>s'. body s = Some (Inr (True, s'))")
    case True
    with Suc show ?thesis by (auto simp: loopR.simps [of body s])
  next
    case False
    with Suc.prems show ?thesis
      by (subst loopR.simps) (auto split: option.splits sum.splits prod.splits if_splits)
  qed
qed simp

lemma loopR_loop_fuel: "loopR body s = Some r \<Longrightarrow> \<exists>n. loop_fuel n body s = Some r"
proof (rule loopR.raw_induct [where P = "\<lambda>body s r. \<exists>n. loop_fuel n body s = Some r"])
  fix loop :: "('a \<Rightarrow> ((bool \<times> 'a) res) option) \<Rightarrow> 'a \<Rightarrow> ('a res) option"
    and body :: "'a \<Rightarrow> ((bool \<times> 'a) res) option" and s r
  assume IH: "\<And>body s r. loop body s = Some r \<Longrightarrow> \<exists>n. loop_fuel n body s = Some r"
    and eq: "(case body s of None \<Rightarrow> None
      | Some (Inl e) \<Rightarrow> Some (Inl e)
      | Some (Inr (again, s')) \<Rightarrow> if again then loop body s' else Some (Inr s')) = Some r"
  show "\<exists>n. loop_fuel n body s = Some r"
  proof (cases "\<exists>s'. body s = Some (Inr (True, s'))")
    case True
    then obtain s' where s': "body s = Some (Inr (True, s'))" by blast
    with eq have "loop body s' = Some r" by simp
    then obtain n where "loop_fuel n body s' = Some r" using IH by blast
    then have "loop_fuel (Suc n) body s = Some r" using s' by simp
    then show ?thesis by blast
  next
    case False
    with eq have "loop_fuel (Suc 0) body s = Some r"
      by (auto split: option.splits sum.splits prod.splits if_splits)
    then show ?thesis by blast
  qed
qed

lemma loop_fuel_cases:
  assumes "loop_fuel (Suc n) body s = Some (Inr t)"
  obtains (again) s' where "body s = Some (Inr (True, s'))" "loop_fuel n body s' = Some (Inr t)"
  | (exit) "body s = Some (Inr (False, t))"
  using assms by (auto split: option.splits sum.splits prod.splits if_splits)

text \<open>Sequencing of computations that may not return, and what they return.\<close>

definition bindO :: "('e + 'a) option \<Rightarrow> ('a \<Rightarrow> ('e + 'b) option) \<Rightarrow> ('e + 'b) option" where
  "bindO m f =
     (case m of None \<Rightarrow> None | Some r \<Rightarrow> (case r of Inl e \<Rightarrow> Some (Inl e) | Inr x \<Rightarrow> f x))"

definition okO :: "('a \<Rightarrow> bool) \<Rightarrow> ('e + 'a) option \<Rightarrow> bool" where
  "okO P m \<longleftrightarrow> (\<forall>r. m = Some r \<longrightarrow> okE P r)"

lemma bindO_simps [simp, res_simps]:
  "bindO None f = None" "bindO (Some (Inl e)) f = Some (Inl e)" "bindO (Some (Inr x)) f = f x"
  by (simp_all add: bindO_def)

lemma bindO_eq_Some_Inr [res_simps]:
  "bindO m f = Some (Inr y) \<longleftrightarrow> (\<exists>x. m = Some (Inr x) \<and> f x = Some (Inr y))"
  by (auto simp: bindO_def split: option.splits sum.splits)

lemma bindO_eq_None [res_simps]:
  "bindO m f = None \<longleftrightarrow> m = None \<or> (\<exists>x. m = Some (Inr x) \<and> f x = None)"
  by (auto simp: bindO_def split: option.splits sum.splits)

lemma okO_simps [simp]: "okO P None" "okO P (Some r) = okE P r"
  by (simp_all add: okO_def)

lemma okO_D: "okO P m \<Longrightarrow> m = Some (Inr x) \<Longrightarrow> P x"
  by simp

lemma okO_bind: "okO P m \<Longrightarrow> (\<And>x. P x \<Longrightarrow> okO Q (f x)) \<Longrightarrow> okO Q (bindO m f)"
  by (auto simp: bindO_def split: option.splits sum.splits)

lemma okE_via: "okE P (bindE m Inr) \<Longrightarrow> okE P m"
  by (cases m) simp_all

locale loop_inv =
  fixes body :: "'s \<Rightarrow> ((bool \<times> 's) res) option"
    and I :: "'s \<Rightarrow> bool"
    and R :: "'s \<Rightarrow> 's \<Rightarrow> bool"
  assumes R_refl: "R s s"
    and R_trans: "R s t \<Longrightarrow> R t u \<Longrightarrow> R s u"
    and body_step: "I s \<Longrightarrow> body s = Some (Inr (again, t)) \<Longrightarrow> I t \<and> R s t"
begin

lemma fuel_step: "loop_fuel n body s = Some (Inr t) \<Longrightarrow> I s \<Longrightarrow> I t \<and> R s t"
proof (induction n arbitrary: s)
  case (Suc n)
  from Suc.prems(1) show ?case
  proof (cases rule: loop_fuel_cases)
    case (again s')
    from body_step [OF Suc.prems(2) again(1)] have s': "I s'" "R s s'" by auto
    from Suc.IH [OF again(2) s'(1)] R_trans [OF s'(2)] show ?thesis by simp
  next
    case exit
    from body_step [OF Suc.prems(2) exit] show ?thesis .
  qed
qed simp

lemma loop_step: "loopR body s = Some (Inr t) \<Longrightarrow> I s \<Longrightarrow> I t \<and> R s t"
  by (drule loopR_loop_fuel) (elim exE, erule (1) fuel_step)

lemma fuel_exit:
  "loop_fuel n body s = Some (Inr t) \<Longrightarrow> I s \<Longrightarrow>
     \<exists>u. I u \<and> R s u \<and> body u = Some (Inr (False, t))"
proof (induction n arbitrary: s)
  case (Suc n)
  from Suc.prems(1) show ?case
  proof (cases rule: loop_fuel_cases)
    case (again s')
    from body_step [OF Suc.prems(2) again(1)] have s': "I s'" "R s s'" by auto
    from Suc.IH [OF again(2) s'(1)] obtain u
      where u: "I u" "R s' u" "body u = Some (Inr (False, t))" by blast
    from R_trans [OF s'(2) u(2)] u(1,3) show ?thesis by (intro exI [of _ u]) simp
  next
    case exit
    with Suc.prems(2) R_refl [of s] show ?thesis by (intro exI [of _ s]) simp
  qed
qed simp

lemma loop_exit:
  "loopR body s = Some (Inr t) \<Longrightarrow> I s \<Longrightarrow> \<exists>u. I u \<and> R s u \<and> body u = Some (Inr (False, t))"
  by (drule loopR_loop_fuel) (elim exE, erule (1) fuel_exit)

end

locale loop_measure = loop_inv +
  fixes m :: "'s \<Rightarrow> nat"
  assumes body_returns: "I s \<Longrightarrow> body s \<noteq> None"
    and body_decreases: "I s \<Longrightarrow> body s = Some (Inr (True, t)) \<Longrightarrow> m t < m s"
begin

lemma fuel_enough: "I s \<Longrightarrow> m s < n \<Longrightarrow> \<exists>r. loop_fuel n body s = Some r"
proof (induction n arbitrary: s)
  case (Suc n)
  show ?case
  proof (cases "\<exists>t. body s = Some (Inr (True, t))")
    case True
    then obtain t where t: "body s = Some (Inr (True, t))" by blast
    with Suc.prems body_decreases [of s t] have "m t < n" by simp
    with Suc.IH [of t] body_step [OF Suc.prems(1) t] have "\<exists>r. loop_fuel n body t = Some r" by simp
    with t show ?thesis by simp
  next
    case False
    from body_returns [OF Suc.prems(1)] obtain r where r: "body s = Some r" by auto
    with False have "\<not> (\<exists>t. r = Inr (True, t))" by auto
    with r show ?thesis by (auto split: sum.splits)
  qed
qed simp

lemma loop_returns: "I s \<Longrightarrow> \<exists>r. loopR body s = Some r"
  using fuel_enough [of s "Suc (m s)"] by (auto simp del: loop_fuel.simps dest: loop_fuel_loopR)

text \<open>Where no iteration can fail, the loop returns a state.\<close>

lemma fuel_total:
  assumes total: "\<And>s. I s \<Longrightarrow> \<exists>x. body s = Some (Inr x)"
  shows "I s \<Longrightarrow> loop_fuel n body s = Some r \<Longrightarrow> \<exists>t. r = Inr t"
proof (induction n arbitrary: s)
  case (Suc n)
  from total [OF Suc.prems(1)] obtain again s' where s': "body s = Some (Inr (again, s'))" by auto
  with body_step [OF Suc.prems(1)] have "I s'" by blast
  with Suc.IH [of s'] Suc.prems(2) s' show ?case by (cases again) auto
qed simp

lemma loop_total:
  assumes "\<And>s. I s \<Longrightarrow> \<exists>x. body s = Some (Inr x)" "I s"
  shows "\<exists>t. loopR body s = Some (Inr t)"
proof -
  obtain r where r: "loop_fuel (Suc (m s)) body s = Some r" using fuel_enough [OF assms(2)] by blast
  from fuel_total [OF assms this] obtain t where "r = Inr t" by blast
  with loop_fuel_loopR [OF r] show ?thesis by blast
qed

end

subsection \<open>Transition systems\<close>

text \<open>
  The concurrent parts are step relations; the states that a run reaches, and the locale in which an
  invariant is proved once for all of them.
\<close>

inductive reachable :: "'s \<Rightarrow> ('s \<Rightarrow> 's \<Rightarrow> bool) \<Rightarrow> 's \<Rightarrow> bool" for s0 R where
  reachable_init: "reachable s0 R s0"
| reachable_step: "reachable s0 R s \<Longrightarrow> R s t \<Longrightarrow> reachable s0 R t"

lemma reachable_mono: "reachable s0 R s \<Longrightarrow> (\<And>s t. R s t \<Longrightarrow> Q s t) \<Longrightarrow> reachable s0 Q s"
  by (induction rule: reachable.induct) (blast intro: reachable.intros)+

locale transition_inv =
  fixes s0 :: 's
    and R :: "'s \<Rightarrow> 's \<Rightarrow> bool"
    and inv :: "'s \<Rightarrow> bool"
  assumes inv_init: "inv s0"
    and inv_step: "inv s \<Longrightarrow> R s t \<Longrightarrow> inv t"
begin

lemma reachable_inv: "reachable s0 R s \<Longrightarrow> inv s"
  by (induction rule: reachable.induct) (blast intro: inv_init inv_step)+

end

end
