(* ===== verification/Framing.thy ===== *)
theory Framing
  imports Side_Eye_Prelude
begin

text \<open>
  The message framing (\<open>internal/framing/framing.go\<close>): the headers of the binary snapshot format
  and their memory layout. The code writes these structs into the byte buffer through
  \<open>unsafe.Pointer\<close>, so what ends up in the buffer is the layout the Go compiler gives the struct:
  fields in order, each at a multiple of its size, little-endian. \<open>X_bytes\<close> is that layout and
  \<open>X_of\<close> reads it back; \<open>sizeof_X\<close> is \<open>unsafe.Sizeof(X{})\<close>. Padding and blank fields are written
  as zero bytes.
\<close>

subsection \<open>Queue entries\<close>

record QueueEntry =
  qe_Type :: u32
  qe_Len :: u32
  qe_Addr :: u64

definition sizeof_QueueEntry :: nat where
  "sizeof_QueueEntry = 16"

definition QueueEntry_bytes :: "QueueEntry \<Rightarrow> u8 list" where
  "QueueEntry_bytes e = le_bytes 4 (qe_Type e) @ le_bytes 4 (qe_Len e) @ le_bytes 8 (qe_Addr e)"

definition QueueEntry_of :: "u8 list \<Rightarrow> QueueEntry" where
  "QueueEntry_of bs =
     \<lparr>qe_Type = le_word (sub bs 0 4), qe_Len = le_word (sub bs 4 4), qe_Addr = le_word (sub bs 8 8)\<rparr>"

definition zero_QueueEntry :: QueueEntry where
  "zero_QueueEntry = \<lparr>qe_Type = 0, qe_Len = 0, qe_Addr = 0\<rparr>"

subsection \<open>Frame headers\<close>

record FrameHeader =
  fh_DataByteLen :: u32

definition sizeof_FrameHeader :: nat where
  "sizeof_FrameHeader = 8"

definition FrameHeader_bytes :: "FrameHeader \<Rightarrow> u8 list" where
  "FrameHeader_bytes h = le_bytes 4 (fh_DataByteLen h) @ replicate 4 0"

definition FrameHeader_of :: "u8 list \<Rightarrow> FrameHeader" where
  "FrameHeader_of bs = \<lparr>fh_DataByteLen = le_word (sub bs 0 4)\<rparr>"

subsection \<open>Goroutine headers\<close>

record GoroutineHeader =
  gh_Goid :: u64
  gh_StackHash :: u64
  gh_Status :: u32
  gh_WaitReason :: u8
  gh_WaitSinceNanos :: u64
  gh_StackBytes :: u32
  gh_DataByteLen :: u32

definition sizeof_GoroutineHeader :: nat where
  "sizeof_GoroutineHeader = 40"

definition GoroutineHeader_bytes :: "GoroutineHeader \<Rightarrow> u8 list" where
  "GoroutineHeader_bytes h =
     le_bytes 8 (gh_Goid h) @ le_bytes 8 (gh_StackHash h) @ le_bytes 4 (gh_Status h) @
     [gh_WaitReason h] @ replicate 3 0 @ le_bytes 8 (gh_WaitSinceNanos h) @
     le_bytes 4 (gh_StackBytes h) @ le_bytes 4 (gh_DataByteLen h)"

definition GoroutineHeader_of :: "u8 list \<Rightarrow> GoroutineHeader" where
  "GoroutineHeader_of bs =
     \<lparr>gh_Goid = le_word (sub bs 0 8), gh_StackHash = le_word (sub bs 8 8),
      gh_Status = le_word (sub bs 16 4), gh_WaitReason = le_word (sub bs 20 1),
      gh_WaitSinceNanos = le_word (sub bs 24 8), gh_StackBytes = le_word (sub bs 32 4),
      gh_DataByteLen = le_word (sub bs 36 4)\<rparr>"

subsection \<open>The snapshot header\<close>

record Statistics =
  st_StacksDurationNs :: u64
  st_PointerDurationNs :: u64
  st_TotalDurationNs :: u64
  st_NumGoroutines :: u32
  st_NonLiveGoroutines :: u32

record SnapshotHeader =
  sh_DataByteLen :: u32
  sh_GoroutinesByteLen :: u32
  sh_Statistics :: Statistics
  sh_KTimeNS :: u64
  sh_LastGcUnix :: u64

definition sizeof_SnapshotHeader :: nat where
  "sizeof_SnapshotHeader = 56"

definition Statistics_bytes :: "Statistics \<Rightarrow> u8 list" where
  "Statistics_bytes s =
     le_bytes 8 (st_StacksDurationNs s) @ le_bytes 8 (st_PointerDurationNs s) @
     le_bytes 8 (st_TotalDurationNs s) @ le_bytes 4 (st_NumGoroutines s) @
     le_bytes 4 (st_NonLiveGoroutines s)"

definition Statistics_of :: "u8 list \<Rightarrow> Statistics" where
  "Statistics_of bs =
     \<lparr>st_StacksDurationNs = le_word (sub bs 0 8), st_PointerDurationNs = le_word (sub bs 8 8),
      st_TotalDurationNs = le_word (sub bs 16 8), st_NumGoroutines = le_word (sub bs 24 4),
      st_NonLiveGoroutines = le_word (sub bs 28 4)\<rparr>"

definition SnapshotHeader_bytes :: "SnapshotHeader \<Rightarrow> u8 list" where
  "SnapshotHeader_bytes h =
     le_bytes 4 (sh_DataByteLen h) @ le_bytes 4 (sh_GoroutinesByteLen h) @
     Statistics_bytes (sh_Statistics h) @ le_bytes 8 (sh_KTimeNS h) @ le_bytes 8 (sh_LastGcUnix h)"

definition SnapshotHeader_of :: "u8 list \<Rightarrow> SnapshotHeader" where
  "SnapshotHeader_of bs =
     \<lparr>sh_DataByteLen = le_word (sub bs 0 4), sh_GoroutinesByteLen = le_word (sub bs 4 4),
      sh_Statistics = Statistics_of (sub bs 8 32), sh_KTimeNS = le_word (sub bs 40 8),
      sh_LastGcUnix = le_word (sub bs 48 8)\<rparr>"

text \<open>The offsets of the fields that the snapshotter updates in place.\<close>

definition off_sh_DataByteLen :: nat where "off_sh_DataByteLen = 0"
definition off_sh_GoroutinesByteLen :: nat where "off_sh_GoroutinesByteLen = 4"
definition off_sh_StacksDurationNs :: nat where "off_sh_StacksDurationNs = 8"
definition off_sh_PointerDurationNs :: nat where "off_sh_PointerDurationNs = 16"
definition off_sh_TotalDurationNs :: nat where "off_sh_TotalDurationNs = 24"
definition off_sh_NumGoroutines :: nat where "off_sh_NumGoroutines = 32"
definition off_sh_NonLiveGoroutines :: nat where "off_sh_NonLiveGoroutines = 36"
definition off_sh_LastGcUnix :: nat where "off_sh_LastGcUnix = 48"

lemmas off_sh_defs =
  off_sh_DataByteLen_def off_sh_GoroutinesByteLen_def off_sh_StacksDurationNs_def
  off_sh_PointerDurationNs_def off_sh_TotalDurationNs_def off_sh_NumGoroutines_def
  off_sh_NonLiveGoroutines_def off_sh_LastGcUnix_def

subsection \<open>Sizes and round trips\<close>

lemmas sizeof_defs [simp] =
  sizeof_QueueEntry_def sizeof_FrameHeader_def sizeof_GoroutineHeader_def sizeof_SnapshotHeader_def

lemma length_QueueEntry_bytes [simp]: "length (QueueEntry_bytes e) = 16"
  by (simp add: QueueEntry_bytes_def)

lemma length_FrameHeader_bytes [simp]: "length (FrameHeader_bytes h) = 8"
  by (simp add: FrameHeader_bytes_def)

lemma length_GoroutineHeader_bytes [simp]: "length (GoroutineHeader_bytes h) = 40"
  by (simp add: GoroutineHeader_bytes_def)

lemma length_Statistics_bytes [simp]: "length (Statistics_bytes s) = 32"
  by (simp add: Statistics_bytes_def)

lemma length_SnapshotHeader_bytes [simp]: "length (SnapshotHeader_bytes h) = 56"
  by (simp add: SnapshotHeader_bytes_def)

lemma le_word_singleton [simp]: "(le_word [b] :: u8) = b"
  by (rule bit_word_eqI) (auto simp: bit_simps)

lemma sub_append_left: "i + n \<le> length xs \<Longrightarrow> sub (xs @ ys) i n = sub xs i n"
  by (simp add: sub_def)

lemma sub_append_right: "length xs \<le> i \<Longrightarrow> sub (xs @ ys) i n = sub ys (i - length xs) n"
  by (simp add: sub_def)

lemma sub_all: "length xs = n \<Longrightarrow> sub xs 0 n = xs"
  by (simp add: sub_def)

lemma QueueEntry_roundtrip [simp]: "QueueEntry_of (QueueEntry_bytes e) = e"
  by (simp add: QueueEntry_of_def QueueEntry_bytes_def sub_append_left sub_append_right sub_all)

lemma FrameHeader_roundtrip [simp]: "FrameHeader_of (FrameHeader_bytes h) = h"
  by (simp add: FrameHeader_of_def FrameHeader_bytes_def sub_append_left sub_append_right sub_all)

lemma GoroutineHeader_roundtrip [simp]: "GoroutineHeader_of (GoroutineHeader_bytes h) = h"
  by (simp add: GoroutineHeader_of_def GoroutineHeader_bytes_def sub_append_left
      sub_append_right sub_all del: append_Cons)

lemma Statistics_roundtrip [simp]: "Statistics_of (Statistics_bytes s) = s"
  by (simp add: Statistics_of_def Statistics_bytes_def sub_append_left sub_append_right sub_all)

lemma SnapshotHeader_roundtrip [simp]: "SnapshotHeader_of (SnapshotHeader_bytes h) = h"
  by (simp add: SnapshotHeader_of_def SnapshotHeader_bytes_def sub_append_left sub_append_right
      sub_all)

subsection \<open>Structs in a byte array\<close>

text \<open>
  What the writers of the output buffer rely on when they store a struct through a pointer: reading
  the struct back from where it was written gives it, and the bytes outside it are untouched.
\<close>

locale struct_layout =
  fixes enc :: "'a \<Rightarrow> u8 list" and dec :: "u8 list \<Rightarrow> 'a" and size_of :: nat
  assumes dec_enc: "dec (enc x) = x"
    and length_enc: "length (enc x) = size_of"
begin

lemma read_back: "i + size_of \<le> length xs \<Longrightarrow> dec (sub (blit xs i (enc x)) i size_of) = x"
  by (simp add: sub_blit_sameI length_enc dec_enc)

lemma read_other:
  "i + size_of \<le> length xs \<Longrightarrow> j + n \<le> length xs \<Longrightarrow> j + n \<le> i \<or> i + size_of \<le> j \<Longrightarrow>
     sub (blit xs i (enc x)) j n = sub xs j n"
  by (rule sub_blit_other) (auto simp: length_enc)

lemma length_write: "i + size_of \<le> length xs \<Longrightarrow> length (blit xs i (enc x)) = length xs"
  by (simp add: length_enc)

lemma enc_inject: "enc x = enc y \<longleftrightarrow> x = y"
  by (metis dec_enc)

end

interpretation QE: struct_layout QueueEntry_bytes QueueEntry_of sizeof_QueueEntry
  by unfold_locales simp_all

interpretation FH: struct_layout FrameHeader_bytes FrameHeader_of sizeof_FrameHeader
  by unfold_locales simp_all

interpretation GH: struct_layout GoroutineHeader_bytes GoroutineHeader_of sizeof_GoroutineHeader
  by unfold_locales simp_all

interpretation SH: struct_layout SnapshotHeader_bytes SnapshotHeader_of sizeof_SnapshotHeader
  by unfold_locales simp_all

interpretation U32: struct_layout "le_bytes 4 :: u32 \<Rightarrow> u8 list" le_word 4
  by unfold_locales simp_all

interpretation U64: struct_layout "le_bytes 8 :: u64 \<Rightarrow> u8 list" le_word 8
  by unfold_locales simp_all

end
