(* ===== verification/Fifo.thy ===== *)
theory Fifo
  imports Side_Eye_Prelude
begin

text \<open>
  The FIFO queue (\<open>internal/fifo/queue.go\<close>): a linked list of nodes, each a ring buffer of 128
  elements, with a free list of nodes that were emptied. The nodes are shared, mutable objects, so
  the model has them in an explicit heap: a node pointer is an index of \<open>q_heap\<close>, \<open>nil\<close> is \<open>None\<close>,
  and \<open>new\<close> appends a node to the heap. \<open>q_free\<close> is \<open>freeList.head\<close> (the struct is embedded in the
  Queue). Node lengths and positions are Go ints that the invariant keeps within 0..128, so they
  cannot wrap; they are modelled as \<open>int\<close>.

  The locale \<open>fifo\<close> states what a FIFO promises over an abstraction to lists; the ring-buffer queue
  is shown to be one.
\<close>

subsection \<open>Nodes: ring buffers\<close>

definition queueNodeSize :: int where
  "queueNodeSize = 128"

record 'a queueNode =
  qn_buf :: "'a list"
  qn_head :: int
  qn_len :: int
  qn_next :: "nat option"

definition new_queueNode :: "'a \<Rightarrow> 'a queueNode" where
  "new_queueNode zero =
     \<lparr>qn_buf = replicate (nat queueNodeSize) zero, qn_head = 0, qn_len = 0, qn_next = None\<rparr>"

definition IsFull :: "'a queueNode \<Rightarrow> bool" where
  "IsFull qn \<longleftrightarrow> qn_len qn = queueNodeSize"

definition buf_index_ok :: "'a queueNode \<Rightarrow> int \<Rightarrow> bool" where
  "buf_index_ok qn i \<longleftrightarrow> 0 \<le> i \<and> i < int (length (qn_buf qn))"

definition queueNode_PushBack :: "'a \<Rightarrow> 'a queueNode \<Rightarrow> (int \<times> 'a queueNode) res" where
  "queueNode_PushBack t qn =
     (let i = (qn_head qn + qn_len qn) mod queueNodeSize in
      bindE (guardE IndexOutOfRange (buf_index_ok qn i)) (\<lambda>_.
      Inr (i, qn\<lparr>qn_buf := (qn_buf qn)[nat i := t], qn_len := qn_len qn + 1\<rparr>)))"

definition queueNode_PeekFront :: "'a queueNode \<Rightarrow> 'a res" where
  "queueNode_PeekFront qn =
     bindE (guardE IndexOutOfRange (buf_index_ok qn (qn_head qn))) (\<lambda>_.
     Inr (qn_buf qn ! nat (qn_head qn)))"

definition queueNode_PopFront :: "'a \<Rightarrow> 'a queueNode \<Rightarrow> ('a \<times> 'a queueNode) res" where
  "queueNode_PopFront zero qn =
     bindE (guardE IndexOutOfRange (buf_index_ok qn (qn_head qn))) (\<lambda>_.
     let t = qn_buf qn ! nat (qn_head qn) in
     Inr (t, qn\<lparr>qn_buf := (qn_buf qn)[nat (qn_head qn) := zero],
                qn_head := (qn_head qn + 1) mod queueNodeSize,
                qn_len := qn_len qn - 1\<rparr>))"

subsection \<open>Queues\<close>

record 'a Queue =
  q_len :: int
  q_head :: "nat option"
  q_tail :: "nat option"
  q_free :: "nat option"
  q_heap :: "'a queueNode list"

definition MakeQueue :: "'a Queue" where
  "MakeQueue = \<lparr>q_len = 0, q_head = None, q_tail = None, q_free = None, q_heap = []\<rparr>"

text \<open>
  \<open>freeList.get\<close> clears \<open>qn.next\<close> before it reads it, so the free list is empty after every
  successful \<open>get\<close>, whatever its length was.
\<close>

definition freeList_get :: "'a \<Rightarrow> 'a Queue \<Rightarrow> nat \<times> 'a Queue" where
  "freeList_get zero q =
     (case q_free q of
        None \<Rightarrow> (length (q_heap q), q\<lparr>q_heap := q_heap q @ [new_queueNode zero]\<rparr>)
      | Some qn \<Rightarrow>
          let heap1 = (q_heap q)[qn := (q_heap q ! qn)\<lparr>qn_next := None\<rparr>] in
          (qn, q\<lparr>q_heap := heap1, q_free := qn_next (heap1 ! qn)\<rparr>))"

definition freeList_put :: "nat \<Rightarrow> 'a Queue \<Rightarrow> 'a Queue" where
  "freeList_put qn q =
     q\<lparr>q_heap := (q_heap q)[qn := (q_heap q ! qn)\<lparr>qn_head := 0, qn_len := 0, qn_next := q_free q\<rparr>],
       q_free := Some qn\<rparr>"

definition Queue_Len :: "'a Queue \<Rightarrow> int" where
  "Queue_Len q = q_len q"

definition Queue_PushBack :: "'a \<Rightarrow> 'a \<Rightarrow> 'a Queue \<Rightarrow> ((nat \<times> int) \<times> 'a Queue) res" where
  "Queue_PushBack zero t q =
     bindE
       (case q_head q of
          None \<Rightarrow>
            (let (n, q1) = freeList_get zero q in
             Inr (q1\<lparr>q_head := Some n, q_tail := Some n\<rparr>))
        | Some _ \<Rightarrow>
            bindE (ofOption NilDeref (q_tail q)) (\<lambda>tl0.
            if IsFull (q_heap q ! tl0) then
              (let (newTail, q1) = freeList_get zero q in
               Inr (q1\<lparr>q_heap := (q_heap q1)[tl0 := (q_heap q1 ! tl0)\<lparr>qn_next := Some newTail\<rparr>],
                       q_tail := Some newTail\<rparr>))
            else Inr q)) (\<lambda>q2.
     let q3 = q2\<lparr>q_len := q_len q2 + 1\<rparr> in
     bindE (ofOption NilDeref (q_tail q3)) (\<lambda>tl1.
     bindE (queueNode_PushBack t (q_heap q3 ! tl1)) (\<lambda>(i, qn).
     Inr ((tl1, i), q3\<lparr>q_heap := (q_heap q3)[tl1 := qn]\<rparr>))))"

definition Queue_PeekFront :: "'a Queue \<Rightarrow> ('a option) res" where
  "Queue_PeekFront q =
     (if q_len q = 0 then Inr None
      else bindE (ofOption NilDeref (q_head q)) (\<lambda>h.
           bindE (queueNode_PeekFront (q_heap q ! h)) (\<lambda>t. Inr (Some t))))"

definition Queue_PopFront :: "'a \<Rightarrow> 'a Queue \<Rightarrow> ('a Queue) res" where
  "Queue_PopFront zero q =
     bindE (ofOption NilDeref (q_head q)) (\<lambda>h.
     bindE (queueNode_PopFront zero (q_heap q ! h)) (\<lambda>(_, qn).
     let q1 = q\<lparr>q_heap := (q_heap q)[h := qn]\<rparr>;
         q2 = (if qn_len (q_heap q1 ! h) = 0
               then freeList_put h (q1\<lparr>q_head := qn_next (q_heap q1 ! h)\<rparr>)
               else q1)
     in Inr (q2\<lparr>q_len := q_len q2 - 1\<rparr>)))"

subsection \<open>The contents of a node\<close>

definition node_ok :: "'a queueNode \<Rightarrow> bool" where
  "node_ok n \<longleftrightarrow> length (qn_buf n) = 128 \<and> 0 \<le> qn_head n \<and> qn_head n < 128 \<and>
     0 \<le> qn_len n \<and> qn_len n \<le> 128"

definition node_list :: "'a queueNode \<Rightarrow> 'a list" where
  "node_list n = map (\<lambda>k. qn_buf n ! nat ((qn_head n + int k) mod 128)) [0..<nat (qn_len n)]"

lemma length_node_list [simp]: "length (node_list n) = nat (qn_len n)"
  by (simp add: node_list_def)

lemma node_list_next [simp]: "node_list (n\<lparr>qn_next := p\<rparr>) = node_list n"
  by (simp add: node_list_def)

lemma node_ok_next [simp]: "node_ok (n\<lparr>qn_next := p\<rparr>) = node_ok n"
  by (simp add: node_ok_def)

lemma node_ok_new [simp]: "node_ok (new_queueNode zero)"
  by (simp add: node_ok_def new_queueNode_def queueNodeSize_def)

lemma new_queueNode_simps [simp]:
  "qn_len (new_queueNode zero) = 0" "qn_next (new_queueNode zero) = None"
  by (simp_all add: new_queueNode_def)

lemma node_list_empty: "qn_len n = 0 \<Longrightarrow> node_list n = []"
  by (simp add: node_list_def)

lemma ring_distinct:
  fixes h :: int
  assumes "0 \<le> j" "j < l" "l < 128"
  shows "nat ((h + j) mod 128) \<noteq> nat ((h + l) mod 128)"
proof
  assume "nat ((h + j) mod 128) = nat ((h + l) mod 128)"
  then have "(h + j) mod 128 = (h + l) mod 128" by (metis nat_eq_iff2 pos_mod_sign zero_less_numeral)
  then have "(128 :: int) dvd (l - j)" by (simp add: mod_eq_dvd_iff) (metis dvd_minus_iff minus_diff_eq)
  with assms zdvd_imp_le [of 128 "l - j"] show False by simp
qed

lemma node_PushBack_ok:
  assumes "node_ok n" "\<not> IsFull n"
  obtains i n' where "queueNode_PushBack t n = Inr (i, n')" "node_ok n'"
    "node_list n' = node_list n @ [t]" "qn_next n' = qn_next n" "qn_len n' = qn_len n + 1"
proof -
  define l where "l = qn_len n"
  have l: "0 \<le> l" "l < 128"
    using assms by (auto simp: node_ok_def IsFull_def queueNodeSize_def l_def)
  define i where "i = (qn_head n + l) mod 128"
  define n' where "n' = n\<lparr>qn_buf := (qn_buf n)[nat i := t], qn_len := qn_len n + 1\<rparr>"
  have i: "0 \<le> i" "i < 128" by (simp_all add: i_def)
  have push: "queueNode_PushBack t n = Inr (i, n')"
    using assms(1) i by (simp add: queueNode_PushBack_def buf_index_ok_def node_ok_def
        queueNodeSize_def i_def l_def n'_def Let_def)
  have "nat (qn_len n') = Suc (nat l)" using l by (simp add: n'_def l_def)
  then have "node_list n' = map (\<lambda>k. (qn_buf n)[nat i := t] ! nat ((qn_head n + int k) mod 128))
      ([0..<nat l] @ [nat l])"
    by (simp add: node_list_def n'_def l_def)
  also have "\<dots> = node_list n @ [t]"
  proof -
    have "(qn_buf n)[nat i := t] ! nat ((qn_head n + int k) mod 128) =
        qn_buf n ! nat ((qn_head n + int k) mod 128)" if "k < nat l" for k
      using ring_distinct [of "int k" l "qn_head n", THEN not_sym] that l
      by (intro nth_list_update_neq) (simp add: i_def zless_nat_eq_int_zless)
    moreover have "nat i < length (qn_buf n)" using assms(1) i by (simp add: node_ok_def)
    moreover have "nat ((qn_head n + int (nat l)) mod 128) = nat i" using l by (simp add: i_def)
    ultimately show ?thesis by (simp add: node_list_def l_def [symmetric])
  qed
  finally have "node_list n' = node_list n @ [t]" .
  moreover have "node_ok n'" using assms(1) l by (auto simp: node_ok_def n'_def l_def)
  ultimately show ?thesis using push by (auto simp: n'_def intro: that)
qed

lemma node_PopFront_ok:
  assumes "node_ok n" "0 < qn_len n"
  obtains t n' where "queueNode_PopFront zero n = Inr (t, n')" "queueNode_PeekFront n = Inr t"
    "node_ok n'" "node_list n = t # node_list n'" "qn_next n' = qn_next n" "qn_len n' = qn_len n - 1"
proof -
  define h where "h = qn_head n"
  define t where "t = qn_buf n ! nat h"
  define n' where "n' = n\<lparr>qn_buf := (qn_buf n)[nat h := zero], qn_head := (h + 1) mod 128,
      qn_len := qn_len n - 1\<rparr>"
  have h: "0 \<le> h" "h < 128" using assms(1) by (simp_all add: node_ok_def h_def)
  have ops: "queueNode_PopFront zero n = Inr (t, n')" "queueNode_PeekFront n = Inr t"
    using assms(1) by (simp_all add: queueNode_PopFront_def queueNode_PeekFront_def
        buf_index_ok_def node_ok_def queueNodeSize_def h_def t_def n'_def Let_def)
  have ok: "node_ok n'" using assms by (auto simp: node_ok_def n'_def)
  define m where "m = nat (qn_len n - 1)"
  have m: "nat (qn_len n) = Suc m" "m < 128"
    using assms by (auto simp: m_def node_ok_def)
  have shift: "((h + 1) mod 128 + int k) mod 128 = (h + int (Suc k)) mod 128" for k
    by (simp add: mod_simps add.assoc)
  have "node_list n = qn_buf n ! nat (h mod 128) #
      map (\<lambda>k. qn_buf n ! nat ((h + int (Suc k)) mod 128)) [0..<m]"
    using m(1) by (simp add: node_list_def h_def map_upt_Suc del: upt_Suc)
  also have "\<dots> = t # node_list n'"
  proof -
    have "(qn_buf n)[nat h := zero] ! nat ((h + int (Suc k)) mod 128) =
        qn_buf n ! nat ((h + int (Suc k)) mod 128)" if "k < m" for k
      using ring_distinct [of 0 "int (Suc k)" h] that m(2) h by (intro nth_list_update_neq) simp
    then show ?thesis
      using h by (simp add: node_list_def n'_def t_def shift m_def [symmetric] del: of_nat_Suc)
  qed
  finally show ?thesis using ops ok by (auto simp: n'_def intro: that)
qed

subsection \<open>Chains of nodes\<close>

fun chain :: "'a queueNode list \<Rightarrow> nat option \<Rightarrow> nat list \<Rightarrow> bool" where
  "chain h p [] \<longleftrightarrow> p = None"
| "chain h p (a # as) \<longleftrightarrow> p = Some a \<and> a < length h \<and> chain h (qn_next (h ! a)) as"

primrec walk :: "nat \<Rightarrow> 'a queueNode list \<Rightarrow> nat option \<Rightarrow> nat list" where
  "walk 0 h p = []"
| "walk (Suc n) h p = (case p of None \<Rightarrow> [] | Some a \<Rightarrow> a # walk n h (qn_next (h ! a)))"

text \<open>The elements of a queue, front first.\<close>

definition Queue_list :: "'a Queue \<Rightarrow> 'a list" where
  "Queue_list q =
     concat (map (\<lambda>a. node_list (q_heap q ! a)) (walk (length (q_heap q)) (q_heap q) (q_head q)))"

lemma walk_chain: "chain h p ns \<Longrightarrow> length ns \<le> n \<Longrightarrow> walk n h p = ns"
proof (induction ns arbitrary: p n)
  case Nil
  then show ?case by (cases n) auto
next
  case (Cons a ns)
  then show ?case by (cases n) auto
qed

lemma chain_set: "chain h p ns \<Longrightarrow> a \<in> set ns \<Longrightarrow> a < length h"
  by (induction ns arbitrary: p) auto

lemma chain_length:
  assumes "chain h p ns" "distinct ns"
  shows "length ns \<le> length h"
proof -
  have "set ns \<subseteq> {..<length h}" using chain_set [OF assms(1)] by auto
  then have "card (set ns) \<le> length h" using card_mono [of "{..<length h}"] by fastforce
  then show ?thesis using assms(2) by (simp add: distinct_card)
qed

lemma chain_frame:
  assumes "chain h p ns" "length h \<le> length h'"
    and "\<And>a. a \<in> set ns \<Longrightarrow> qn_next (h' ! a) = qn_next (h ! a)"
  shows "chain h' p ns"
  using assms by (induction ns arbitrary: p) auto

lemma chain_snoc:
  assumes "chain h p ns" "ns \<noteq> []" "distinct ns" "n \<notin> set ns" "n < length h"
    and "qn_next (h ! n) = None" "h' = h[last ns := (h ! last ns)\<lparr>qn_next := Some n\<rparr>]"
  shows "chain h' p (ns @ [n])"
  using assms
proof (induction ns arbitrary: p)
  case (Cons a ns)
  show ?case
  proof (cases "ns = []")
    case True
    with Cons.prems show ?thesis by auto
  next
    case False
    with Cons.prems have "a \<noteq> last ns" by auto
    with False Cons show ?thesis by auto
  qed
qed simp

subsection \<open>The queue invariant\<close>

text \<open>\<open>ns\<close>: the nodes in use, from head to tail; \<open>fs\<close>: the nodes of the free list.\<close>

definition Queue_rep :: "'a Queue \<Rightarrow> nat list \<Rightarrow> nat list \<Rightarrow> bool" where
  "Queue_rep q ns fs \<longleftrightarrow>
     chain (q_heap q) (q_head q) ns \<and> chain (q_heap q) (q_free q) fs \<and> distinct (ns @ fs) \<and>
     (\<forall>a \<in> set ns. node_ok (q_heap q ! a) \<and> 0 < qn_len (q_heap q ! a)) \<and>
     (\<forall>a \<in> set fs. node_ok (q_heap q ! a) \<and> qn_len (q_heap q ! a) = 0) \<and>
     (ns \<noteq> [] \<longrightarrow> q_tail q = Some (last ns)) \<and>
     q_len q = int (length (concat (map (\<lambda>a. node_list (q_heap q ! a)) ns)))"

definition Queue_inv :: "'a Queue \<Rightarrow> bool" where
  "Queue_inv q \<longleftrightarrow> (\<exists>ns fs. Queue_rep q ns fs)"

lemma Queue_rep_list:
  "Queue_rep q ns fs \<Longrightarrow> Queue_list q = concat (map (\<lambda>a. node_list (q_heap q ! a)) ns)"
  unfolding Queue_rep_def Queue_list_def
  by (subst walk_chain [where ns = ns]) (auto intro: chain_length)

lemma Queue_rep_MakeQueue: "Queue_rep MakeQueue [] []"
  by (simp add: Queue_rep_def MakeQueue_def)

text \<open>\<open>get\<close> hands out a node that is not in use, empty and unlinked.\<close>

lemma freeList_get_ok:
  assumes "Queue_rep q ns fs"
  obtains n q' where "freeList_get zero q = (n, q')" "n < length (q_heap q')" "n \<notin> set ns"
    "node_ok (q_heap q' ! n)" "qn_len (q_heap q' ! n) = 0" "qn_next (q_heap q' ! n) = None"
    "length (q_heap q) \<le> length (q_heap q')" "q_free q' = None"
    "\<And>a. a \<in> set ns \<Longrightarrow> q_heap q' ! a = q_heap q ! a"
    "q_head q' = q_head q" "q_tail q' = q_tail q" "q_len q' = q_len q"
proof (cases "q_free q")
  case None
  define q' where "q' = q\<lparr>q_heap := q_heap q @ [new_queueNode zero]\<rparr>"
  have in_heap: "a < length (q_heap q)" if "a \<in> set ns" for a
    using assms that chain_set by (auto simp: Queue_rep_def)
  have "freeList_get zero q = (length (q_heap q), q')"
    using None by (simp add: freeList_get_def q'_def)
  moreover have "length (q_heap q) \<notin> set ns" using in_heap by blast
  moreover have "q_free q' = None" using None by (simp add: q'_def)
  ultimately show ?thesis
    using in_heap by (intro that [of "length (q_heap q)" q']) (auto simp: q'_def nth_append)
next
  case (Some n)
  with assms obtain fs' where fs: "fs = n # fs'"
    by (cases fs) (auto simp: Queue_rep_def)
  define q' where "q' = q\<lparr>q_heap := (q_heap q)[n := (q_heap q ! n)\<lparr>qn_next := None\<rparr>], q_free := None\<rparr>"
  have n: "n < length (q_heap q)" "n \<notin> set ns"
    using assms fs by (auto simp: Queue_rep_def)
  have "freeList_get zero q = (n, q')"
    using Some n by (simp add: freeList_get_def q'_def Let_def)
  then show ?thesis
    using assms fs n by (intro that [of n q']) (auto simp: q'_def Queue_rep_def nth_list_update)
qed

lemma Queue_PushBack_tail:
  assumes "q_tail q2 = Some n" "node_ok (q_heap q2 ! n)" "\<not> IsFull (q_heap q2 ! n)"
    and "n < length (q_heap q2)"
  obtains i qn where
    "(let q3 = q2\<lparr>q_len := q_len q2 + 1\<rparr> in
      bindE (ofOption NilDeref (q_tail q3)) (\<lambda>tl1.
      bindE (queueNode_PushBack t (q_heap q3 ! tl1)) (\<lambda>(i, qn).
      Inr ((tl1, i), q3\<lparr>q_heap := (q_heap q3)[tl1 := qn]\<rparr>)))) =
     Inr ((n, i), q2\<lparr>q_len := q_len q2 + 1, q_heap := (q_heap q2)[n := qn]\<rparr>)"
    "node_ok qn" "node_list qn = node_list (q_heap q2 ! n) @ [t]"
    "qn_next qn = qn_next (q_heap q2 ! n)" "qn_len qn = qn_len (q_heap q2 ! n) + 1"
proof -
  from node_PushBack_ok [OF assms(2,3), of t] obtain i qn where
    "queueNode_PushBack t (q_heap q2 ! n) = Inr (i, qn)" "node_ok qn"
    "node_list qn = node_list (q_heap q2 ! n) @ [t]" "qn_next qn = qn_next (q_heap q2 ! n)"
    "qn_len qn = qn_len (q_heap q2 ! n) + 1" by blast
  with assms(1) show ?thesis by (intro that) (auto simp: Let_def)
qed

text \<open>
  The three ways \<open>PushBack\<close> finds the node to write to: the queue is empty, the tail has room, the
  tail is full. In each, the node is the last of the chain \<open>ns'\<close>, and the contents are as before.
\<close>

lemma Queue_rep_push_node:
  assumes "chain (q_heap q2) (q_head q2) (ns @ [n])" "chain (q_heap q2) (q_free q2) fs"
    and "distinct (ns @ [n] @ fs)"
    and "\<forall>a \<in> set ns. node_ok (q_heap q2 ! a) \<and> 0 < qn_len (q_heap q2 ! a)"
    and "\<forall>a \<in> set fs. node_ok (q_heap q2 ! a) \<and> qn_len (q_heap q2 ! a) = 0"
    and "q_tail q2 = Some n" "node_ok (q_heap q2 ! n)"
    and len: "q_len q2 = int (length (concat (map (\<lambda>a. node_list (q_heap q2 ! a)) (ns @ [n]))))"
    and qn: "node_ok qn" "node_list qn = node_list (q_heap q2 ! n) @ [t]"
      "qn_next qn = qn_next (q_heap q2 ! n)" "qn_len qn = qn_len (q_heap q2 ! n) + 1"
    and q': "q' = q2\<lparr>q_len := q_len q2 + 1, q_heap := (q_heap q2)[n := qn]\<rparr>"
  shows "Queue_rep q' (ns @ [n]) fs \<and>
    Queue_list q' = concat (map (\<lambda>a. node_list (q_heap q2 ! a)) (ns @ [n])) @ [t]"
proof -
  have n: "n < length (q_heap q2)" using assms(1) chain_set by fastforce
  have upd: "q_heap q' ! a = (if a = n then qn else q_heap q2 ! a)" for a
    using n by (simp add: q' nth_list_update)
  have heap_len: "length (q_heap q2) \<le> length (q_heap q')" by (simp add: q')
  have "chain (q_heap q') (q_head q2) (ns @ [n])"
    by (rule chain_frame [OF assms(1) heap_len]) (simp add: upd qn(3))
  then have "chain (q_heap q') (q_head q') (ns @ [n])" by (simp add: q')
  moreover have "chain (q_heap q') (q_free q2) fs"
    by (rule chain_frame [OF assms(2) heap_len]) (simp add: upd qn(3))
  then have "chain (q_heap q') (q_free q') fs" by (simp add: q')
  moreover have conc: "concat (map (\<lambda>a. node_list (q_heap q' ! a)) (ns @ [n])) =
      concat (map (\<lambda>a. node_list (q_heap q2 ! a)) (ns @ [n])) @ [t]"
  proof -
    have "map (\<lambda>a. node_list (q_heap q' ! a)) ns = map (\<lambda>a. node_list (q_heap q2 ! a)) ns"
      using assms(3) upd by auto
    then show ?thesis by (simp only: map_append concat_append) (simp add: upd qn(2))
  qed
  moreover have "0 < qn_len qn" using assms(7) qn(4) by (auto simp: node_ok_def)
  moreover have "q_len q' = int (length (concat (map (\<lambda>a. node_list (q_heap q' ! a)) (ns @ [n]))))"
    unfolding conc using len by (simp add: q')
  moreover have "\<forall>a \<in> set fs. a \<noteq> n" using assms(3) by auto
  ultimately have "Queue_rep q' (ns @ [n]) fs"
    unfolding Queue_rep_def using assms(3-6) qn(1) upd by (auto simp: q')
  with Queue_rep_list [OF this] conc show ?thesis by simp
qed

lemma Queue_PushBack_rep:
  assumes rep: "Queue_rep q ns fs"
  obtains r q' ns' fs' where "Queue_PushBack zero t q = Inr (r, q')" "Queue_rep q' ns' fs'"
    "Queue_list q' = Queue_list q @ [t]"
proof -
  note R = rep [unfolded Queue_rep_def] and goal = that
  have result: thesis
    if pre: "Queue_PushBack zero t q =
        (let q3 = q2\<lparr>q_len := q_len q2 + 1\<rparr> in
          bindE (ofOption NilDeref (q_tail q3)) (\<lambda>tl1.
          bindE (queueNode_PushBack t (q_heap q3 ! tl1)) (\<lambda>(i, qn).
          Inr ((tl1, i), q3\<lparr>q_heap := (q_heap q3)[tl1 := qn]\<rparr>))))"
      and node: "chain (q_heap q2) (q_head q2) (ms @ [n])" "chain (q_heap q2) (q_free q2) gs"
        "distinct (ms @ [n] @ gs)"
        "\<forall>a \<in> set ms. node_ok (q_heap q2 ! a) \<and> 0 < qn_len (q_heap q2 ! a)"
        "\<forall>a \<in> set gs. node_ok (q_heap q2 ! a) \<and> qn_len (q_heap q2 ! a) = 0"
        "q_tail q2 = Some n" "node_ok (q_heap q2 ! n)" "\<not> IsFull (q_heap q2 ! n)"
      and same: "concat (map (\<lambda>a. node_list (q_heap q2 ! a)) (ms @ [n])) = Queue_list q"
        "q_len q2 = q_len q"
    for q2 ms n gs
  proof -
    have n: "n < length (q_heap q2)" using node(1) chain_set by fastforce
    have len: "q_len q2 = int (length (concat (map (\<lambda>a. node_list (q_heap q2 ! a)) (ms @ [n]))))"
      using R Queue_rep_list [OF rep] same by simp
    from Queue_PushBack_tail [OF node(6,7,8) n, of t] obtain i qn where
      eq: "Queue_PushBack zero t q =
        Inr ((n, i), q2\<lparr>q_len := q_len q2 + 1, q_heap := (q_heap q2)[n := qn]\<rparr>)"
      and qn: "node_ok qn" "node_list qn = node_list (q_heap q2 ! n) @ [t]"
        "qn_next qn = qn_next (q_heap q2 ! n)" "qn_len qn = qn_len (q_heap q2 ! n) + 1"
      unfolding pre by blast
    from Queue_rep_push_node [OF node(1-7) len qn refl] same(1) eq show ?thesis
      by (intro goal) auto
  qed
  from freeList_get_ok [OF rep, of zero] obtain n q1 where
    get: "freeList_get zero q = (n, q1)" "n < length (q_heap q1)" "n \<notin> set ns"
      "node_ok (q_heap q1 ! n)" "qn_len (q_heap q1 ! n) = 0" "qn_next (q_heap q1 ! n) = None"
      "length (q_heap q) \<le> length (q_heap q1)" "q_free q1 = None"
    and old: "\<And>a. a \<in> set ns \<Longrightarrow> q_heap q1 ! a = q_heap q ! a"
    and same: "q_head q1 = q_head q" "q_tail q1 = q_tail q" "q_len q1 = q_len q"
    by metis
  have not_full: "\<not> IsFull (q_heap q1 ! n)" using get(5) by (simp add: IsFull_def queueNodeSize_def)
  show thesis
  proof (cases "ns = []")
    case True
    then have hd: "q_head q = None" using R by simp
    show ?thesis
      using True hd get not_full same Queue_rep_list [OF rep]
      by (intro result [of "q1\<lparr>q_head := Some n, q_tail := Some n\<rparr>" "[]" n "[]"])
         (auto simp: Queue_PushBack_def node_list_empty)
  next
    case False
    define l where "l = last ns"
    have ns: "ns = butlast ns @ [l]" using False by (simp add: l_def)
    have l: "l \<in> set ns" "q_tail q = Some l" using R False by (auto simp: l_def)
    obtain h where hd: "q_head q = Some h" using R False by (cases ns) auto
    have butl: "set (butlast ns) \<subseteq> set ns" by (auto dest: in_set_butlastD)
    show ?thesis
    proof (cases "IsFull (q_heap q ! l)")
      case False
      have chn: "chain (q_heap q) (q_head q) (butlast ns @ [l])" using R ns by simp
      have dist: "distinct (butlast ns @ [l] @ fs)"
        using R arg_cong [OF ns, of "\<lambda>xs. distinct (xs @ fs)"] by simp
      have lst: "concat (map (\<lambda>a. node_list (q_heap q ! a)) (butlast ns @ [l])) = Queue_list q"
        using Queue_rep_list [OF rep] ns by simp
      have pre: "\<forall>a \<in> set (butlast ns). node_ok (q_heap q ! a) \<and> 0 < qn_len (q_heap q ! a)"
        using R butl by blast
      show ?thesis
        by (rule result [OF _ chn _ dist pre _ l(2) _ False lst refl])
           (use R hd l False in \<open>simp_all add: Queue_PushBack_def Let_def\<close>)
    next
      case True
      define h1 where "h1 = (q_heap q1)[l := (q_heap q1 ! l)\<lparr>qn_next := Some n\<rparr>]"
      define q2 where "q2 = q1\<lparr>q_heap := h1, q_tail := Some n\<rparr>"
      have ch0: "chain (q_heap q) (q_head q1) ns" using R same(1) by simp
      have ch1: "chain (q_heap q1) (q_head q1) ns"
        by (rule chain_frame [OF ch0 get(7)]) (simp add: old)
      have dns: "distinct ns" using R by simp
      have "chain h1 (q_head q1) (ns @ [n])"
        by (rule chain_snoc [OF ch1 \<open>ns \<noteq> []\<close> dns get(3,2,6)]) (simp only: h1_def l_def)
      then have c2: "chain (q_heap q2) (q_head q2) (ns @ [n])" by (simp add: q2_def)
      have "l < length (q_heap q1)" "l \<noteq> n" using ch1 l(1) chain_set get(3) by auto
      then have heap2: "q_heap q2 ! a =
          (if a = l then (q_heap q ! l)\<lparr>qn_next := Some n\<rparr> else q_heap q1 ! a)" for a
        using old [OF l(1)] by (simp add: q2_def h1_def nth_list_update)
      have nodes: "map (\<lambda>a. node_list (q_heap q2 ! a)) ns = map (\<lambda>a. node_list (q_heap q ! a)) ns"
        using old heap2 by auto
      have nheap: "q_heap q2 ! n = q_heap q1 ! n" using heap2 \<open>l \<noteq> n\<close> by simp
      show ?thesis
      proof (rule result [of q2 ns n "[]"], goal_cases)
        case 1
        show ?case using hd l(2) True get(1) by (simp add: Queue_PushBack_def q2_def h1_def)
      next
        case 5
        show ?case using R old heap2 by auto
      next
        case 10
        show ?case
          using Queue_rep_list [OF rep] nodes node_list_empty [of "q_heap q2 ! n"] nheap get(5)
          by (simp only: map_append concat_append) simp
      qed (use R c2 get same nheap not_full in \<open>simp_all add: q2_def\<close>)
    qed
  qed
qed

lemma Queue_PopFront_rep:
  assumes rep: "Queue_rep q ns fs" and "Queue_list q \<noteq> []"
  obtains t q' ns' fs' where "Queue_PeekFront q = Inr (Some t)" "Queue_PopFront zero q = Inr q'"
    "Queue_rep q' ns' fs'" "Queue_list q = t # Queue_list q'"
proof -
  note R = rep [unfolded Queue_rep_def]
  have "ns \<noteq> []" using assms Queue_rep_list [OF rep] by auto
  then obtain a as where ns: "ns = a # as" by (cases ns) auto
  define n where "n = q_heap q ! a"
  have hd: "q_head q = Some a" "a < length (q_heap q)" and n: "node_ok n" "0 < qn_len n"
    using R by (auto simp: ns n_def)
  have a: "a \<notin> set as" "a \<notin> set fs" using R by (auto simp: ns)
  from node_PopFront_ok [OF n, of zero] obtain t n' where
    pop: "queueNode_PopFront zero n = Inr (t, n')" "queueNode_PeekFront n = Inr t"
    and n': "node_ok n'" "node_list n = t # node_list n'" "qn_next n' = qn_next n"
      "qn_len n' = qn_len n - 1" by blast
  have list: "Queue_list q = t # node_list n' @ concat (map (\<lambda>a. node_list (q_heap q ! a)) as)"
    using Queue_rep_list [OF rep] n'(2) by (simp add: ns n_def)
  have len: "q_len q = int (length (Queue_list q))" using R Queue_rep_list [OF rep] by simp
  have peek: "Queue_PeekFront q = Inr (Some t)"
    using hd pop len list by (simp add: Queue_PeekFront_def n_def)
  define h1 where "h1 = (q_heap q)[a := n']"
  define h2 where "h2 = (q_heap q)[a := n'\<lparr>qn_head := 0, qn_len := 0, qn_next := q_free q\<rparr>]"
  show thesis
  proof (cases "qn_len n' = 0")
    case False
    define q' where "q' = q\<lparr>q_heap := h1, q_len := q_len q - 1\<rparr>"
    have "Queue_PopFront zero q = Inr q'"
      using hd pop False by (simp add: Queue_PopFront_def n_def q'_def h1_def Let_def)
    moreover have heap: "q_heap q' ! b = (if b = a then n' else q_heap q ! b)" for b
      using hd by (simp add: q'_def h1_def nth_list_update)
    have "chain (q_heap q') (q_head q) ns" "chain (q_heap q') (q_free q) fs"
      using R heap n'(3) by (auto intro!: chain_frame [of "q_heap q"] simp: n_def q'_def h1_def)
    moreover have nodes: "concat (map (\<lambda>b. node_list (q_heap q' ! b)) ns) = tl (Queue_list q)"
      using a heap list by (auto simp: ns intro!: arg_cong [of _ _ concat])
    moreover have "0 < qn_len n'" using False n'(1) by (simp add: node_ok_def)
    ultimately have rep': "Queue_rep q' ns fs"
      using R n'(1) heap a len list unfolding Queue_rep_def by (auto simp: q'_def ns)
    show ?thesis
      using that [OF peek \<open>Queue_PopFront zero q = Inr q'\<close> rep'] Queue_rep_list [OF rep'] nodes list
      by simp
  next
    case True
    define q' where "q' = q\<lparr>q_heap := h2, q_head := qn_next n, q_free := Some a, q_len := q_len q - 1\<rparr>"
    have "Queue_PopFront zero q = Inr q'"
      using hd pop True n'(3)
      by (simp add: Queue_PopFront_def n_def q'_def h2_def Let_def freeList_put_def)
    moreover have heap: "q_heap q' ! b =
        (if b = a then n'\<lparr>qn_head := 0, qn_len := 0, qn_next := q_free q\<rparr> else q_heap q ! b)" for b
      using hd by (simp add: q'_def h2_def nth_list_update)
    have "chain (q_heap q) (qn_next n) as" using R by (simp add: ns n_def)
    then have "chain (q_heap q') (qn_next n) as"
      using a heap by (rule_tac chain_frame) (auto simp: q'_def h2_def)
    moreover have "chain (q_heap q') (q_free q) fs"
      using R a heap by (auto intro!: chain_frame [of "q_heap q"] simp: q'_def h2_def)
    moreover have nodes: "concat (map (\<lambda>b. node_list (q_heap q' ! b)) as) = tl (Queue_list q)"
      using a heap list node_list_empty [OF True] by (auto intro!: arg_cong [of _ _ concat])
    moreover have "as \<noteq> [] \<longrightarrow> last ns = last as" by (simp add: ns)
    moreover have "chain (q_heap q') (q_free q') (a # fs)"
      using heap [of a] hd \<open>chain (q_heap q') (q_free q) fs\<close> by (simp add: q'_def h2_def)
    moreover have "distinct (as @ a # fs)" using R by (auto simp: ns)
    moreover have "\<forall>b \<in> set as. node_ok (q_heap q' ! b) \<and> 0 < qn_len (q_heap q' ! b)"
      using R heap a by (auto simp: ns)
    moreover have "\<forall>b \<in> set (a # fs). node_ok (q_heap q' ! b) \<and> qn_len (q_heap q' ! b) = 0"
      using R heap a n'(1) by (auto simp: node_ok_def)
    moreover have "q_len q' = int (length (tl (Queue_list q)))"
      using len list by (simp add: q'_def)
    moreover have "as \<noteq> [] \<longrightarrow> q_tail q' = Some (last as)" using R by (simp add: ns q'_def)
    moreover have "q_head q' = qn_next n" by (simp add: q'_def)
    ultimately have rep': "Queue_rep q' as (a # fs)"
      unfolding Queue_rep_def by (simp only: nodes)
    show ?thesis
      using that [OF peek \<open>Queue_PopFront zero q = Inr q'\<close> rep'] Queue_rep_list [OF rep'] nodes list
      by simp
  qed
qed

subsection \<open>The FIFO contract\<close>

text \<open>
  What a client of a FIFO calls, and what it may rely on, over the list of the queued elements.
  \<open>fifo_exec\<close> is an arbitrary client: it pushes and pops (a pop looks at the front first and is not
  attempted on an empty queue) and observes each popped element and the length after each step.
  \<open>list_exec\<close> is the same client on a plain list.
\<close>

datatype 'a fifo_op = Push 'a | Pop

fun fifo_exec ::
  "('a \<Rightarrow> 'q \<Rightarrow> 'q res) \<Rightarrow> ('q \<Rightarrow> 'q res) \<Rightarrow> ('q \<Rightarrow> ('a option) res) \<Rightarrow> ('q \<Rightarrow> int) \<Rightarrow>
   'a fifo_op list \<Rightarrow> 'q \<Rightarrow> (('a option \<times> int) list \<times> 'q) res" where
  "fifo_exec push pop peek len [] q = Inr ([], q)"
| "fifo_exec push pop peek len (Push x # ops) q =
     bindE (push x q) (\<lambda>q1.
     bindE (fifo_exec push pop peek len ops q1) (\<lambda>(out, q2).
     Inr ((None, len q1) # out, q2)))"
| "fifo_exec push pop peek len (Pop # ops) q =
     bindE (peek q) (\<lambda>x.
     bindE (if len q = 0 then Inr q else pop q) (\<lambda>q1.
     bindE (fifo_exec push pop peek len ops q1) (\<lambda>(out, q2).
     Inr ((x, len q1) # out, q2))))"

fun list_exec :: "'a fifo_op list \<Rightarrow> 'a list \<Rightarrow> ('a option \<times> int) list \<times> 'a list" where
  "list_exec [] xs = ([], xs)"
| "list_exec (Push x # ops) xs =
     (let (out, ys) = list_exec ops (xs @ [x]) in ((None, int (length xs) + 1) # out, ys))"
| "list_exec (Pop # ops) [] = (let (out, ys) = list_exec ops [] in ((None, 0) # out, ys))"
| "list_exec (Pop # ops) (x # xs) =
     (let (out, ys) = list_exec ops xs in ((Some x, int (length xs)) # out, ys))"

locale fifo =
  fixes empty :: 'q
    and push :: "'a \<Rightarrow> 'q \<Rightarrow> 'q res"
    and pop :: "'q \<Rightarrow> 'q res"
    and peek :: "'q \<Rightarrow> ('a option) res"
    and len :: "'q \<Rightarrow> int"
    and list :: "'q \<Rightarrow> 'a list"
    and inv :: "'q \<Rightarrow> bool"
  assumes inv_empty: "inv empty"
    and list_empty: "list empty = []"
    and push_spec: "inv q \<Longrightarrow> \<exists>q'. push x q = Inr q' \<and> inv q' \<and> list q' = list q @ [x]"
    and pop_spec:
      "inv q \<Longrightarrow> list q \<noteq> [] \<Longrightarrow> \<exists>q'. pop q = Inr q' \<and> inv q' \<and> list q' = tl (list q)"
    and peek_spec: "inv q \<Longrightarrow> peek q = Inr (case list q of [] \<Rightarrow> None | x # _ \<Rightarrow> Some x)"
    and len_spec: "inv q \<Longrightarrow> len q = int (length (list q))"
begin

lemma push_ok:
  assumes "inv q"
  obtains q' where "push x q = Inr q'" "inv q'" "list q' = list q @ [x]"
  using push_spec [OF assms] by blast

lemma pop_ok:
  assumes "inv q" "list q = x # xs"
  obtains q' where "pop q = Inr q'" "inv q'" "list q' = xs"
  using pop_spec [OF assms(1)] assms(2) by auto

lemma len_0_iff: "inv q \<Longrightarrow> len q = 0 \<longleftrightarrow> list q = []"
  by (simp add: len_spec)

text \<open>Every client sees exactly the list: no element is lost, duplicated or reordered.\<close>

lemma exec_refines:
  "inv q \<Longrightarrow> \<exists>q'. fifo_exec push pop peek len ops q = Inr (fst (list_exec ops (list q)), q') \<and>
     inv q' \<and> list q' = snd (list_exec ops (list q))"
proof (induction ops arbitrary: q)
  case (Cons op ops)
  show ?case
  proof (cases op)
    case (Push x)
    from push_ok [OF Cons.prems] obtain q1 where
      q1: "push x q = Inr q1" "inv q1" "list q1 = list q @ [x]" by blast
    with Cons.IH [OF q1(2)] show ?thesis
      by (auto simp: Push len_spec split: prod.splits)
  next
    case Pop
    show ?thesis
    proof (cases "list q")
      case Nil
      with Cons.IH [OF Cons.prems] show ?thesis
        using Cons.prems by (auto simp: Pop peek_spec len_spec split: prod.splits)
    next
      case (Cons x xs)
      from pop_ok [OF Cons.prems Cons] obtain q1 where
        q1: "pop q = Inr q1" "inv q1" "list q1 = xs" by blast
      with Cons.IH [OF q1(2)] Cons show ?thesis
        using Cons.prems by (auto simp: Pop peek_spec len_spec split: prod.splits)
    qed
  qed
qed simp

end

text \<open>The ring-buffer queue, as its clients call it: the pointer \<open>PushBack\<close> returns is not used.\<close>

definition Queue_push :: "'a \<Rightarrow> 'a \<Rightarrow> 'a Queue \<Rightarrow> ('a Queue) res" where
  "Queue_push zero t q = bindE (Queue_PushBack zero t q) (\<lambda>(_, q'). Inr q')"

interpretation RQ: fifo MakeQueue "Queue_push zero" "Queue_PopFront zero" Queue_PeekFront
    Queue_Len Queue_list Queue_inv
proof unfold_locales
  show "Queue_inv (MakeQueue :: 'a Queue)" "Queue_list (MakeQueue :: 'a Queue) = []"
    using Queue_rep_MakeQueue Queue_rep_list by (fastforce simp: Queue_inv_def)+
next
  fix q :: "'a Queue" and x
  assume "Queue_inv q"
  then obtain ns fs where "Queue_rep q ns fs" by (auto simp: Queue_inv_def)
  from Queue_PushBack_rep [OF this, of zero x]
  show "\<exists>q'. Queue_push zero x q = Inr q' \<and> Queue_inv q' \<and> Queue_list q' = Queue_list q @ [x]"
    by (fastforce simp: Queue_push_def Queue_inv_def)
next
  fix q :: "'a Queue"
  assume "Queue_inv q" and ne: "Queue_list q \<noteq> []"
  then obtain ns fs where "Queue_rep q ns fs" by (auto simp: Queue_inv_def)
  from Queue_PopFront_rep [OF this ne, of zero]
  show "\<exists>q'. Queue_PopFront zero q = Inr q' \<and> Queue_inv q' \<and> Queue_list q' = tl (Queue_list q)"
    by (fastforce simp: Queue_inv_def)
next
  fix q :: "'a Queue"
  assume "Queue_inv q"
  then obtain ns fs where rep: "Queue_rep q ns fs" by (auto simp: Queue_inv_def)
  then show len: "Queue_Len q = int (length (Queue_list q))"
    by (subst Queue_rep_list [OF rep]) (simp add: Queue_rep_def Queue_Len_def)
  show "Queue_PeekFront q = Inr (case Queue_list q of [] \<Rightarrow> None | x # _ \<Rightarrow> Some x)"
  proof (cases "Queue_list q = []")
    case True
    with len show ?thesis by (simp add: Queue_PeekFront_def Queue_Len_def)
  next
    case False
    from Queue_PopFront_rep [OF rep this] show ?thesis by fastforce
  qed
qed

text \<open>
  C15. The ring-buffer queue is a FIFO: a client that starts from \<open>MakeQueue\<close> and runs any sequence
  of pushes and pops never faults, and sees the popped elements, the lengths and the final contents
  that it would see on a list.
\<close>

theorem fifo_queue_refines_list:
  "\<exists>q. fifo_exec (Queue_push zero) (Queue_PopFront zero) Queue_PeekFront Queue_Len ops MakeQueue =
         Inr (fst (list_exec ops []), q) \<and>
       Queue_list q = snd (list_exec ops [])"
  using RQ.exec_refines [OF RQ.inv_empty, where ops = ops and zero = zero] by (auto simp: RQ.list_empty)

text \<open>
  \<open>freeList.get\<close> forgets the rest of the free list: whatever nodes were put back before, after
  one \<open>get\<close> from a non-empty free list the list is empty.
\<close>

theorem freeList_get_drops_rest:
  assumes "n < length (q_heap q)"
  shows "q_free (snd (freeList_get zero (freeList_put n q))) = None \<and>
    fst (freeList_get zero (freeList_put n q)) = n"
  using assms by (simp add: freeList_get_def freeList_put_def Let_def)

theorem freeList_get_drops_rest_witness:
  "let q = MakeQueue\<lparr>q_heap := [new_queueNode (0 :: nat), new_queueNode 0]\<rparr> in
   q_free (freeList_put 0 q) = Some 0 \<and>
   q_free (snd (freeList_get 0 (freeList_put 1 (freeList_put 0 q)))) = None"
  using freeList_get_drops_rest [of 1 "freeList_put 0 (MakeQueue\<lparr>q_heap := [new_queueNode (0 :: nat),
      new_queueNode 0]\<rparr>)" 0]
  by (simp add: freeList_put_def MakeQueue_def Let_def)

end
