(* ===== verification/Snapshot_Program.thy ===== *)
theory Snapshot_Program
  imports Side_Eye_Prelude
begin

text \<open>
  The snapshot program: the message that the Side-Eye service sends to this library
  (\<open>internal/snapshotpb/snapshot_program.pb.go\<close>). One record per message, with the fields the
  generated struct has, less the bookkeeping of the protobuf runtime (\<open>state\<close>, \<open>sizeCache\<close>,
  \<open>unknownFields\<close>). Pointers to sub-messages and optional scalars are \<open>option\<close> (\<open>None\<close> is nil);
  maps are partial functions.
\<close>

record StaticVariable =
  sv_Type :: u32
  sv_Address :: u64

record RuntimeConfig =
  rc_GSchedOffset :: u32
  rc_GGoBufPcOffset :: u32
  rc_GGoBufBpOffset :: u32
  rc_GSyscallPcOffset :: u32
  rc_GSyscallSpOffset :: u32
  rc_GGoidOffset :: u32
  rc_GAtomicstatusOffset :: u32
  rc_GStktopspOffset :: u32
  rc_MPreemptOffOffset :: u32
  rc_VariableRuntimeDotFirstmoduledata :: u64
  rc_VariableRuntimeDotAllgs :: u64
  rc_ModuledataTypesOffset :: u32
  rc_ModuledataEtypesOffset :: u32
  rc_ModuledataTextOffset :: u32
  rc_ModuledataBssOffset :: u32
  rc_VariableRuntimeDotMemstats :: u64
  rc_MstatsLastGcUnixOffset :: u32
  rc_GoRuntimeBssAddress :: u64
  rc_StaticVariables :: "StaticVariable list"
  rc_DereferenceStartPc :: u64
  rc_DereferenceEndPc :: u64
  rc_StartTheWorldStartAddr :: u64
  rc_StopTheWorldStartAddr :: u64

record PcClassifier =
  pcc_TargetPc :: "u64 list"
  pcc_ProgPc :: "u32 list"

record SubroutineClassifier =
  sc_UnresolvedSubroutineType :: u32
  sc_EntryPc :: "u64 list"
  sc_Type :: "u32 list"

record GoContextImpl =
  gci_ContextOffset :: "u32 option"
  gci_KeyOffset :: "u32 option"
  gci_ValueOffset :: "u32 option"

record GoContextValueType =
  gcv_Index :: u32
  gcv_Offset :: u32
  gcv_Type :: u32

record TypeInfo =
  ti_EnqueuePc :: u32
  ti_ByteLen :: u32
  ti_SerializeBeforeEnqueue :: bool
  ti_GoContextImpl :: "GoContextImpl option"
  ti_GoContextKey :: "GoContextValueType option"
  ti_GoContextKeyValueType :: "u32 option"
  ti_GoContextValue :: "GoContextValueType option"

record SnapshotProgram =
  sp_RuntimeConfig :: "RuntimeConfig option"
  sp_PcClassifier :: "PcClassifier option"
  sp_SubroutineClassifier :: "SubroutineClassifier option"
  sp_GoRuntimeTypeToTypeId :: "u64 \<rightharpoonup> u32"
  sp_TypeInfo :: "u32 \<rightharpoonup> TypeInfo"
  sp_Prog :: "u8 list"

text \<open>The zero values, from which examples are built.\<close>

definition zero_RuntimeConfig :: RuntimeConfig where
  "zero_RuntimeConfig =
     \<lparr>rc_GSchedOffset = 0, rc_GGoBufPcOffset = 0, rc_GGoBufBpOffset = 0, rc_GSyscallPcOffset = 0,
      rc_GSyscallSpOffset = 0, rc_GGoidOffset = 0, rc_GAtomicstatusOffset = 0,
      rc_GStktopspOffset = 0, rc_MPreemptOffOffset = 0, rc_VariableRuntimeDotFirstmoduledata = 0,
      rc_VariableRuntimeDotAllgs = 0, rc_ModuledataTypesOffset = 0, rc_ModuledataEtypesOffset = 0,
      rc_ModuledataTextOffset = 0, rc_ModuledataBssOffset = 0, rc_VariableRuntimeDotMemstats = 0,
      rc_MstatsLastGcUnixOffset = 0, rc_GoRuntimeBssAddress = 0, rc_StaticVariables = [],
      rc_DereferenceStartPc = 0, rc_DereferenceEndPc = 0, rc_StartTheWorldStartAddr = 0,
      rc_StopTheWorldStartAddr = 0\<rparr>"

definition zero_TypeInfo :: TypeInfo where
  "zero_TypeInfo =
     \<lparr>ti_EnqueuePc = 0, ti_ByteLen = 0, ti_SerializeBeforeEnqueue = False, ti_GoContextImpl = None,
      ti_GoContextKey = None, ti_GoContextKeyValueType = None, ti_GoContextValue = None\<rparr>"

definition zero_SnapshotProgram :: SnapshotProgram where
  "zero_SnapshotProgram =
     \<lparr>sp_RuntimeConfig = None, sp_PcClassifier = None, sp_SubroutineClassifier = None,
      sp_GoRuntimeTypeToTypeId = Map.empty, sp_TypeInfo = Map.empty, sp_Prog = []\<rparr>"

end
