(* ===== verification/Stop_The_World.thy ===== *)
theory Stop_The_World
  imports Snapshot_Program
begin

text \<open>
  Stopping the world and reading memory (\<open>internal/stoptheworld\<close>).

  \<^item> \<open>memory\<close>: the address space of the process while the world is stopped, a partial function from
    addresses to bytes. No other goroutine runs, so it does not change during a snapshot; the
    snapshotter's own buffers are modelled apart from it.
  \<^item> \<open>Dereference\<close>: \<open>memmove\<close> under the SIGSEGV handler that makes a faulting copy return false.
  \<^item> \<open>StopTheWorld\<close>: the set-up, the call of \<open>f\<close> and the deferred clean-up, over the process state
    they change (\<open>process\<close>). The assembly routines \<open>setHandler\<close>, \<open>resetHandler\<close> and
    \<open>setRecoveryState\<close> are represented by their effect on that state.
\<close>

subsection \<open>Reading memory\<close>

type_synonym memory = "u64 \<Rightarrow> u8 option"

fun read_bytes :: "memory \<Rightarrow> u64 \<Rightarrow> nat \<Rightarrow> u8 list option" where
  "read_bytes mem a 0 = Some []"
| "read_bytes mem a (Suc n) =
     (case mem a of
        None \<Rightarrow> None
      | Some b \<Rightarrow> (case read_bytes mem (a + 1) n of None \<Rightarrow> None | Some bs \<Rightarrow> Some (b # bs)))"

text \<open>\<open>Some bs\<close>: true, with \<open>bs\<close> copied to the destination; \<open>None\<close>: false.\<close>

definition Dereference :: "memory \<Rightarrow> u64 \<Rightarrow> nat \<Rightarrow> u8 list option" where
  "Dereference mem src byteLen = read_bytes mem src byteLen"

text \<open>A plain load \<open>*(*uint64)(p)\<close> from process memory, not guarded by \<open>Dereference\<close>.\<close>

definition load_u64 :: "memory \<Rightarrow> u64 \<Rightarrow> u64 res" where
  "load_u64 mem a = bindE (ofOption SegFault (read_bytes mem a 8)) (\<lambda>bs. Inr (le_word bs))"

definition load_u32 :: "memory \<Rightarrow> u64 \<Rightarrow> u32 res" where
  "load_u32 mem a = bindE (ofOption SegFault (read_bytes mem a 4)) (\<lambda>bs. Inr (le_word bs))"

lemma read_bytes_length: "read_bytes mem a n = Some bs \<Longrightarrow> length bs = n"
  by (induction n arbitrary: a bs) (auto split: option.splits)

lemma Dereference_length: "Dereference mem a n = Some bs \<Longrightarrow> length bs = n"
  by (simp add: Dereference_def read_bytes_length)

lemma read_bytes_nth:
  "read_bytes mem a n = Some bs \<longleftrightarrow> length bs = n \<and> (\<forall>i < n. mem (a + of_nat i) = Some (bs ! i))"
proof (induction n arbitrary: a bs)
  case (Suc n)
  have all: "(\<forall>i < Suc n. P i) \<longleftrightarrow> P 0 \<and> (\<forall>i < n. P (Suc i))" for P :: "nat \<Rightarrow> bool"
    by (metis Suc_less_eq not0_implies_Suc zero_less_Suc)
  have "read_bytes mem a (Suc n) = Some bs \<longleftrightarrow>
      (\<exists>b bs'. mem a = Some b \<and> read_bytes mem (a + 1) n = Some bs' \<and> bs = b # bs')"
    by (auto split: option.splits)
  also have "\<dots> \<longleftrightarrow> length bs = Suc n \<and> (\<forall>i < Suc n. mem (a + of_nat i) = Some (bs ! i))"
    unfolding Suc by (cases bs) (auto simp: all add.assoc)
  finally show ?case .
qed auto

lemma Dereference_mapped:
  "(\<exists>bs. Dereference mem a n = Some bs) \<longleftrightarrow> (\<forall>i < n. mem (a + of_nat i) \<noteq> None)"
proof
  assume "\<exists>bs. Dereference mem a n = Some bs"
  then show "\<forall>i < n. mem (a + of_nat i) \<noteq> None"
    by (auto simp: Dereference_def read_bytes_nth)
next
  assume "\<forall>i < n. mem (a + of_nat i) \<noteq> None"
  then have "read_bytes mem a n = Some (map (\<lambda>i. the (mem (a + of_nat i))) [0..<n])"
    by (auto simp: read_bytes_nth)
  then show "\<exists>bs. Dereference mem a n = Some bs" by (auto simp: Dereference_def)
qed

subsection \<open>The supported platforms\<close>

datatype go_version = Go_1_20_to_1_21 | Go_1_22_to_1_24 | Go_1_25_up

datatype os_arch = Linux_amd64 | Darwin_arm64 | Other_arch

datatype platform_error = GoVersionNotSupported | OsArchNotSupported

fun GoVersionSupported :: "go_version \<Rightarrow> bool" where
  "GoVersionSupported Go_1_20_to_1_21 = True"
| "GoVersionSupported Go_1_22_to_1_24 = True"
| "GoVersionSupported Go_1_25_up = False"

fun OsArchSupported :: "os_arch \<Rightarrow> bool" where
  "OsArchSupported Linux_amd64 = True"
| "OsArchSupported Darwin_arm64 = True"
| "OsArchSupported Other_arch = False"

definition PlatformSupported :: "go_version \<Rightarrow> os_arch \<Rightarrow> platform_error option" where
  "PlatformSupported v a =
     (if \<not> GoVersionSupported v then Some GoVersionNotSupported
      else if \<not> OsArchSupported a then Some OsArchNotSupported
      else None)"

subsection \<open>The signal state\<close>

record signalState =
  ss_mu_locked :: bool
  ss_dereferenceStart :: u64
  ss_dereferenceEnd :: u64
  ss_snapshotTid :: u32
  ss_gPtr :: u64
  ss_recoveryFrameBaseOffset :: u64
  ss_config :: "RuntimeConfig option"
  ss_stopTheWorldAddr :: u64
  ss_startTheWorldAddr :: u64

definition ComputeTextSectionBaseOffset :: "u64 \<Rightarrow> RuntimeConfig \<Rightarrow> u64" where
  "ComputeTextSectionBaseOffset dereferenceAddr config =
     dereferenceAddr - rc_DereferenceStartPc config"

definition setConfig :: "RuntimeConfig \<Rightarrow> u64 \<Rightarrow> signalState \<Rightarrow> signalState" where
  "setConfig config base s =
     s\<lparr>ss_config := Some config,
       ss_dereferenceStart := rc_DereferenceStartPc config + base,
       ss_dereferenceEnd := rc_DereferenceEndPc config + base,
       ss_stopTheWorldAddr := rc_StopTheWorldStartAddr config + base,
       ss_startTheWorldAddr := rc_StartTheWorldStartAddr config + base\<rparr>"

definition clearConfig :: "signalState \<Rightarrow> signalState" where
  "clearConfig s =
     s\<lparr>ss_config := None, ss_dereferenceStart := 0, ss_dereferenceEnd := 0,
       ss_stopTheWorldAddr := 0, ss_startTheWorldAddr := 0\<rparr>"

definition clearRecoveryState :: "signalState \<Rightarrow> signalState" where
  "clearRecoveryState s = s\<lparr>ss_recoveryFrameBaseOffset := 0, ss_gPtr := 0\<rparr>"

subsection \<open>The process around a snapshot\<close>

datatype handler = AppHandler | SnapshotHandler

record process =
  pr_state :: signalState
  pr_osThreadLocks :: nat
  pr_handler :: handler
  pr_worldStopped :: bool

text \<open>
  What happened to \<open>f\<close>: it returned; the signal handler cut it short and made the wrapper return
  false; it panicked; or it wrote behind an array, after which nothing is known.
\<close>

datatype body_end = Returned | Recovered | Panicked fault | Corrupted

text \<open>
  What is left of the process afterwards: it goes on; the runtime has stopped it, with the fault that was its
  reason; or nothing is known.
\<close>

datatype aftermath = Runs process | Dies fault | Undefined

definition upd_state :: "(signalState \<Rightarrow> signalState) \<Rightarrow> process \<Rightarrow> process" where
  "upd_state h pr = pr\<lparr>pr_state := h (pr_state pr)\<rparr>"

text \<open>
  The assembly of each platform: on linux the thread is stored and cleared again, on darwin it is not. Where the
  package has no assembly there is nothing.
\<close>

fun setHandler :: "os_arch \<Rightarrow> u32 \<Rightarrow> process \<Rightarrow> process" where
  "setHandler Linux_amd64 tid pr =
     (upd_state (\<lambda>s. s\<lparr>ss_snapshotTid := tid\<rparr>) pr)\<lparr>pr_handler := SnapshotHandler\<rparr>"
| "setHandler Darwin_arm64 tid pr = pr\<lparr>pr_handler := SnapshotHandler\<rparr>"
| "setHandler Other_arch tid pr = pr"

fun resetHandler :: "os_arch \<Rightarrow> process \<Rightarrow> process" where
  "resetHandler Linux_amd64 pr = (upd_state (\<lambda>s. s\<lparr>ss_snapshotTid := 0\<rparr>) pr)\<lparr>pr_handler := AppHandler\<rparr>"
| "resetHandler Darwin_arm64 pr = pr\<lparr>pr_handler := AppHandler\<rparr>"
| "resetHandler Other_arch pr = pr"

fun stopTheWorld :: "go_version \<Rightarrow> process \<Rightarrow> process" where
  "stopTheWorld Go_1_25_up pr = pr"
| "stopTheWorld _ pr = pr\<lparr>pr_worldStopped := True\<rparr>"

fun startTheWorld :: "go_version \<Rightarrow> process \<Rightarrow> process" where
  "startTheWorld Go_1_25_up pr = pr"
| "startTheWorld _ pr = pr\<lparr>pr_worldStopped := False\<rparr>"

definition setRecoveryState :: "u64 \<Rightarrow> u64 \<Rightarrow> process \<Rightarrow> process" where
  "setRecoveryState g off =
     upd_state (\<lambda>s. s\<lparr>ss_gPtr := g, ss_recoveryFrameBaseOffset := off\<rparr>)"

text \<open>The body sees the process it runs in and transforms its own state \<open>'s\<close>.\<close>

definition stopTheWorldWrapper ::
  "u64 \<Rightarrow> u64 \<Rightarrow> (process \<Rightarrow> 's \<Rightarrow> body_end \<times> 's) \<Rightarrow> process \<Rightarrow> 's \<Rightarrow> body_end \<times> process \<times> 's" where
  "stopTheWorldWrapper g off f pr s =
     (let pr1 = setRecoveryState g off pr;
          (fin, s') = f pr1 s
      in (fin, pr1, s'))"

definition stw_enter :: "os_arch \<Rightarrow> go_version \<Rightarrow> u64 \<Rightarrow> u32 \<Rightarrow> RuntimeConfig \<Rightarrow> process \<Rightarrow> process" where
  "stw_enter pl v dereferenceAddr tid config pr =
     (let base = ComputeTextSectionBaseOffset dereferenceAddr config;
          pr1 = pr\<lparr>pr_osThreadLocks := pr_osThreadLocks pr + 1\<rparr>;
          pr2 = upd_state (\<lambda>s. s\<lparr>ss_mu_locked := True\<rparr>) pr1;
          pr3 = upd_state (setConfig config base) pr2;
          pr4 = setHandler pl tid pr3
      in stopTheWorld v pr4)"

text \<open>The deferred calls, last deferred first.\<close>

definition stw_leave :: "os_arch \<Rightarrow> go_version \<Rightarrow> process \<Rightarrow> process" where
  "stw_leave pl v pr =
     (let pr1 = upd_state clearRecoveryState pr;
          pr2 = startTheWorld v pr1;
          pr3 = resetHandler pl pr2;
          pr4 = upd_state clearConfig pr3;
          pr5 = upd_state (\<lambda>s. s\<lparr>ss_mu_locked := False\<rparr>) pr4
      in pr5\<lparr>pr_osThreadLocks := pr_osThreadLocks pr5 - 1\<rparr>)"

text \<open>
  The first component of the result is \<open>ok\<close>, \<open>None\<close> when \<open>StopTheWorld\<close> does not return. A panic runs the
  deferred calls and goes on to the caller, but not while the world is stopped: then preemption is off, and the
  runtime throws instead, which ends the process without a deferred call.
\<close>

definition StopTheWorld ::
  "os_arch \<Rightarrow> go_version \<Rightarrow> u64 \<Rightarrow> u32 \<Rightarrow> u64 \<Rightarrow> u64 \<Rightarrow> RuntimeConfig \<Rightarrow>
   (process \<Rightarrow> 's \<Rightarrow> body_end \<times> 's) \<Rightarrow> process \<Rightarrow> 's \<Rightarrow> bool option \<times> aftermath \<times> 's" where
  "StopTheWorld pl v dereferenceAddr tid g off config f pr s =
     (let (fin, pr1, s') = stopTheWorldWrapper g off f (stw_enter pl v dereferenceAddr tid config pr) s
      in case fin of
           Returned \<Rightarrow> (Some True, Runs (stw_leave pl v pr1), s')
         | Recovered \<Rightarrow> (Some False, Runs (stw_leave pl v pr1), s')
         | Panicked e \<Rightarrow> (None, if pr_worldStopped pr1 then Dies e else Runs (stw_leave pl v pr1), s')
         | Corrupted \<Rightarrow> (None, Undefined, s'))"

definition quiescent :: "process \<Rightarrow> bool" where
  "quiescent pr \<longleftrightarrow>
     \<not> ss_mu_locked (pr_state pr) \<and> ss_config (pr_state pr) = None \<and>
     ss_dereferenceStart (pr_state pr) = 0 \<and> ss_dereferenceEnd (pr_state pr) = 0 \<and>
     ss_stopTheWorldAddr (pr_state pr) = 0 \<and> ss_startTheWorldAddr (pr_state pr) = 0 \<and>
     ss_snapshotTid (pr_state pr) = 0 \<and> ss_gPtr (pr_state pr) = 0 \<and>
     ss_recoveryFrameBaseOffset (pr_state pr) = 0 \<and> pr_handler pr = AppHandler \<and>
     \<not> pr_worldStopped pr"

lemmas stw_defs =
  StopTheWorld_def stopTheWorldWrapper_def stw_enter_def stw_leave_def upd_state_def
  setRecoveryState_def setConfig_def clearConfig_def clearRecoveryState_def

lemma stw_leave_enter:
  "quiescent pr \<Longrightarrow> stw_leave pl v (setRecoveryState g off (stw_enter pl v addr tid config pr)) = pr"
  by (cases v; cases pl) (simp_all add: stw_defs quiescent_def Let_def)

lemma stw_stopped:
  "pr_worldStopped (setRecoveryState g off (stw_enter pl v addr tid config pr)) \<longleftrightarrow>
     v \<noteq> Go_1_25_up \<or> pr_worldStopped pr"
  by (cases v; cases pl) (simp_all add: stw_defs Let_def)

text \<open>What is left of a quiescent process, by the way in which the body ended.\<close>

fun body_aftermath :: "go_version \<Rightarrow> process \<Rightarrow> body_end \<Rightarrow> aftermath" where
  "body_aftermath v pr (Panicked e) = (if v = Go_1_25_up then Runs pr else Dies e)"
| "body_aftermath v pr Corrupted = Undefined"
| "body_aftermath v pr _ = Runs pr"

fun body_ok :: "body_end \<Rightarrow> bool option" where
  "body_ok Returned = Some True"
| "body_ok Recovered = Some False"
| "body_ok _ = None"

lemma StopTheWorld_quiescent:
  assumes "quiescent pr"
  shows "StopTheWorld pl v addr tid g off config f pr s =
    (case f (setRecoveryState g off (stw_enter pl v addr tid config pr)) s of
       (fin, s') \<Rightarrow> (body_ok fin, body_aftermath v pr fin, s'))"
  using assms
  by (auto simp: StopTheWorld_def stopTheWorldWrapper_def Let_def stw_leave_enter stw_stopped quiescent_def
      split: prod.splits body_end.splits)

text \<open>
  When the body returns or the signal handler cuts it short, \<open>StopTheWorld\<close> leaves the process as it found it:
  the world runs, the application's SIGSEGV handler is back, the mutex is free, the OS thread is unlocked and
  the recovery state is cleared.
\<close>

theorem StopTheWorld_restores:
  assumes "quiescent pr"
    and "fst (f (setRecoveryState g off (stw_enter pl v addr tid config pr)) s) \<in> {Returned, Recovered}"
  shows "fst (snd (StopTheWorld pl v addr tid g off config f pr s)) = Runs pr"
  using assms by (auto simp: StopTheWorld_quiescent split: prod.splits)

definition example_process :: process where
  "example_process =
     \<lparr>pr_state = \<lparr>ss_mu_locked = False, ss_dereferenceStart = 0, ss_dereferenceEnd = 0,
        ss_snapshotTid = 0, ss_gPtr = 0, ss_recoveryFrameBaseOffset = 0, ss_config = None,
        ss_stopTheWorldAddr = 0, ss_startTheWorldAddr = 0\<rparr>,
      pr_osThreadLocks = 2, pr_handler = AppHandler, pr_worldStopped = False\<rparr>"

theorem StopTheWorld_restores_witness:
  "quiescent example_process \<and>
   fst (snd (StopTheWorld Linux_amd64 Go_1_22_to_1_24 4096 7 1 2 zero_RuntimeConfig
     (\<lambda>pr n. (Recovered, n + 1)) example_process (0 :: nat))) = Runs example_process"
proof -
  have q: "quiescent example_process" by (simp add: quiescent_def example_process_def)
  from StopTheWorld_restores [OF q, of "\<lambda>pr n. (Recovered, n + 1)" 1 2 Linux_amd64 Go_1_22_to_1_24 4096 7
      zero_RuntimeConfig "0 :: nat"] q
  show ?thesis by simp
qed

text \<open>
  The body runs with the world stopped, under the lock, with the snapshot's signal handler
  installed and the text range of \<open>Dereference\<close> relocated by the base of the text section, on every
  platform and Go version that \<open>PlatformSupported\<close> accepts.
\<close>

theorem StopTheWorld_body_environment:
  assumes "PlatformSupported v a = None"
  shows "\<exists>pr1. StopTheWorld a v addr tid g off config f pr s =
      (case f pr1 s of (fin, s') \<Rightarrow>
        (body_ok fin, case fin of Panicked e \<Rightarrow> Dies e | Corrupted \<Rightarrow> Undefined | _ \<Rightarrow> Runs (stw_leave a v pr1), s')) \<and>
      pr_worldStopped pr1 \<and> pr_handler pr1 = SnapshotHandler \<and> ss_mu_locked (pr_state pr1) \<and>
      ss_dereferenceStart (pr_state pr1) = addr \<and>
      ss_dereferenceEnd (pr_state pr1) = addr + (rc_DereferenceEndPc config - rc_DereferenceStartPc config)"
proof -
  define pr1 where "pr1 = setRecoveryState g off (stw_enter a v addr tid config pr)"
  have v: "v \<noteq> Go_1_25_up" "a \<noteq> Other_arch"
    using assms by (auto simp: PlatformSupported_def split: if_splits)
  then have stopped: "pr_worldStopped pr1" by (simp add: pr1_def stw_stopped)
  show ?thesis
  proof (intro exI [of _ pr1] conjI)
    show "StopTheWorld a v addr tid g off config f pr s =
      (case f pr1 s of (fin, s') \<Rightarrow>
        (body_ok fin, case fin of Panicked e \<Rightarrow> Dies e | Corrupted \<Rightarrow> Undefined | _ \<Rightarrow> Runs (stw_leave a v pr1), s'))"
      using stopped
      by (auto simp: StopTheWorld_def stopTheWorldWrapper_def pr1_def Let_def split: prod.splits body_end.splits)
  qed (use v in \<open>cases v; cases a; simp add: pr1_def stw_defs Let_def ComputeTextSectionBaseOffset_def\<close>)+
qed

theorem StopTheWorld_body_environment_witness:
  "PlatformSupported Go_1_20_to_1_21 Linux_amd64 = None \<and>
   (\<exists>pr1. StopTheWorld Linux_amd64 Go_1_20_to_1_21 4096 7 1 2 zero_RuntimeConfig
        (\<lambda>pr n. (if pr_worldStopped pr then Returned else Recovered, n)) example_process (0 :: nat) =
      (Some True, Runs (stw_leave Linux_amd64 Go_1_20_to_1_21 pr1), 0))"
proof -
  have p: "PlatformSupported Go_1_20_to_1_21 Linux_amd64 = None" by (simp add: PlatformSupported_def)
  from StopTheWorld_body_environment [OF p, of 4096 7 1 2 zero_RuntimeConfig
      "\<lambda>pr n. (if pr_worldStopped pr then Returned else Recovered, n)" example_process "0 :: nat"]
  show ?thesis using p by auto
qed

end
