(* ===== verification/Signal_Handler.thy ===== *)
theory Signal_Handler
  imports Stop_The_World
begin

text \<open>
  The SIGSEGV handler that is installed while the world is stopped (\<open>signal_linux_amd64.s\<close> and
  \<open>signal_darwin_arm64.s\<close> in \<open>internal/stoptheworld\<close>): it looks for \<open>Dereference\<close> on the stack of the fault
  and makes it return false, or else makes the wrapper of \<open>StopTheWorld\<close> return false, or else passes the
  signal on. The handler reads memory with plain loads, which can fault themselves (\<open>Inl SegFault\<close>).
\<close>

subsection \<open>The registers of the fault\<close>

text \<open>The integer registers that the kernel saved, on linux/amd64 and on darwin/arm64.\<close>

record sigcontext =
  r8 :: u64
  r9 :: u64
  r10 :: u64
  r11 :: u64
  r12 :: u64
  r13 :: u64
  r14 :: u64
  r15 :: u64
  rdi :: u64
  rsi :: u64
  rbp :: u64
  rbx :: u64
  rdx :: u64
  rax :: u64
  rcx :: u64
  rsp :: u64
  rip :: u64
  eflags :: u64
  cs :: u16
  gs :: u16
  fs :: u16
  pad0 :: u16
  err :: u64
  trapno :: u64
  oldmask :: u64
  cr2 :: u64

record regs64 =
  rg_x :: "u64 list"
  rg_fp :: u64
  rg_lr :: u64
  rg_sp :: u64
  rg_pc :: u64
  rg_cpsr :: u32

datatype 'c sig_result = Resumed 'c | Passthrough

definition FRAMES_TO_CHECK :: nat where
  "FRAMES_TO_CHECK = 4"

subsection \<open>The flags of the handler\<close>

definition SA_ONSTACK :: u64 where "SA_ONSTACK = 0x8000000"

definition SA_RESTORER :: u64 where "SA_RESTORER = 0x4000000"

definition SA_NODEFER :: u64 where "SA_NODEFER = 0x40000000"

definition SA_SIGINFO :: u64 where "SA_SIGINFO = 0x4"

definition saFlags_linux :: u64 where
  "saFlags_linux = or (or (or SA_ONSTACK SA_SIGINFO) SA_NODEFER) SA_RESTORER"

definition saFlags_darwin :: u32 where
  "saFlags_darwin = or (or 0x40 0x1) 0x2"

record sigactiont =
  sa_handler :: u64
  sa_flags :: u64
  sa_restorer :: u64
  sa_mask :: u64

definition snapshot_sigaction :: "u64 \<Rightarrow> u64 \<Rightarrow> sigactiont" where
  "snapshot_sigaction sigsegvHandler sigreturn =
     \<lparr>sa_handler = sigsegvHandler, sa_flags = saFlags_linux, sa_restorer = sigreturn, sa_mask = not 0\<rparr>"

subsection \<open>The handlers\<close>

text \<open>
  The loop over the frames: the frame pointer, the frame pointer of the caller and the return address of
  the first of \<open>n\<close> frames whose program counter is in \<open>Dereference\<close>. The comparisons are signed.
\<close>

fun find_dereference ::
  "memory \<Rightarrow> signalState \<Rightarrow> nat \<Rightarrow> u64 \<Rightarrow> u64 \<Rightarrow> ((u64 \<times> u64 \<times> u64) option) res" where
  "find_dereference mem s 0 pc fp = Inr None"
| "find_dereference mem s (Suc n) pc fp =
     (if fp = 0 then Inr None
      else
        bindE (load_u64 mem fp) (\<lambda>next_fp.
        bindE (load_u64 mem (fp + 8)) (\<lambda>next_pc.
        if sint pc < sint (ss_dereferenceStart s) then find_dereference mem s n next_pc next_fp
        else if sint pc \<ge> sint (ss_dereferenceEnd s) then find_dereference mem s n next_pc next_fp
        else Inr (Some (fp, next_fp, next_pc)))))"

text \<open>
  The offset of the top of the stack, 32 bits wide, in a register: \<open>MOVL\<close> of amd64 clears the upper half, \<open>MOVW\<close> of
  arm64 extends the sign.
\<close>

definition stktopsp_offset :: "os_arch \<Rightarrow> RuntimeConfig \<Rightarrow> u64" where
  "stktopsp_offset pl cfg =
     (if pl = Darwin_arm64 then scast (rc_GStktopspOffset cfg) else ucast (rc_GStktopspOffset cfg))"

text \<open>The frame of the wrapper: \<open>None\<close> when there is no recovery state.\<close>

definition recovery_frame :: "os_arch \<Rightarrow> memory \<Rightarrow> signalState \<Rightarrow> (u64 option) res" where
  "recovery_frame pl mem s =
     (case ss_config s of
        None \<Rightarrow> Inr None
      | Some cfg \<Rightarrow>
          if ss_gPtr s = 0 then Inr None
          else
            bindE (load_u64 mem (ss_gPtr s + stktopsp_offset pl cfg)) (\<lambda>stackTop.
            Inr (Some (stackTop - ss_recoveryFrameBaseOffset s))))"

definition sigsegvHandler_amd64 :: "memory \<Rightarrow> u32 \<Rightarrow> signalState \<Rightarrow> sigcontext \<Rightarrow> (sigcontext sig_result) res" where
  "sigsegvHandler_amd64 mem tid s ctx =
     (if tid \<noteq> ss_snapshotTid s then Inr Passthrough
      else
        bindE (find_dereference mem s FRAMES_TO_CHECK (rip ctx) (rbp ctx)) (\<lambda>found.
        case found of
          Some (fp, next_fp, next_pc) \<Rightarrow>
            Inr (Resumed (ctx\<lparr>rbp := next_fp, rip := next_pc, rsp := fp + 16, rax := 0\<rparr>))
        | None \<Rightarrow>
            bindE (recovery_frame Linux_amd64 mem s) (\<lambda>frame.
            case frame of
              None \<Rightarrow> Inr Passthrough
            | Some ufp \<Rightarrow>
                bindE (load_u64 mem ufp) (\<lambda>next_fp.
                bindE (load_u64 mem (ufp + 8)) (\<lambda>next_pc.
                Inr (Resumed (ctx\<lparr>rbp := next_fp, rip := next_pc, rsp := ufp + 16, rax := 0\<rparr>)))))))"

text \<open>\<open>tid\<close> is the thread that got the signal; this handler does not ask.\<close>

definition sigsegvHandler_arm64 :: "memory \<Rightarrow> u32 \<Rightarrow> signalState \<Rightarrow> regs64 \<Rightarrow> (regs64 sig_result) res" where
  "sigsegvHandler_arm64 mem tid s ctx =
     bindE (find_dereference mem s FRAMES_TO_CHECK (rg_pc ctx) (rg_fp ctx)) (\<lambda>found.
     case found of
       Some (fp, next_fp, next_pc) \<Rightarrow>
         bindE (load_u64 mem (next_fp + 8)) (\<lambda>lr.
         Inr (Resumed (ctx\<lparr>rg_pc := next_pc, rg_lr := lr, rg_sp := next_fp + 8, rg_fp := next_fp,
                           rg_x := (rg_x ctx)[0 := 0]\<rparr>)))
     | None \<Rightarrow>
         bindE (recovery_frame Darwin_arm64 mem s) (\<lambda>frame.
         case frame of
           None \<Rightarrow> Inr Passthrough
         | Some ufp \<Rightarrow>
             bindE (load_u64 mem (ufp + 8)) (\<lambda>next_pc.
             bindE (load_u64 mem ufp) (\<lambda>next_fp.
             bindE (load_u64 mem (next_fp + 8)) (\<lambda>lr.
             Inr (Resumed (ctx\<lparr>rg_pc := next_pc, rg_fp := next_fp, rg_sp := next_fp + 8, rg_lr := lr,
                               rg_x := (rg_x ctx)[0 := 0]\<rparr>)))))))"

text \<open>What \<open>setRecoveryState\<close> stores, for the frame pointer \<open>bp\<close> of the wrapper.\<close>

definition recovery_offset :: "os_arch \<Rightarrow> memory \<Rightarrow> RuntimeConfig \<Rightarrow> u64 \<Rightarrow> u64 \<Rightarrow> u64 res" where
  "recovery_offset pl mem cfg g bp =
     bindE (load_u64 mem (g + stktopsp_offset pl cfg)) (\<lambda>stackTop. Inr (stackTop - bp))"

subsection \<open>A fault in \<open>Dereference\<close>\<close>

text \<open>The program counter and the frame pointer \<open>k\<close> frames above the fault.\<close>

fun frame_at :: "memory \<Rightarrow> nat \<Rightarrow> u64 \<times> u64 \<Rightarrow> (u64 \<times> u64) option" where
  "frame_at mem 0 f = Some f"
| "frame_at mem (Suc k) (pc, fp) =
     (case (load_u64 mem (fp + 8), load_u64 mem fp) of
        (Inr next_pc, Inr next_fp) \<Rightarrow> frame_at mem k (next_pc, next_fp)
      | _ \<Rightarrow> None)"

definition in_Dereference :: "signalState \<Rightarrow> u64 \<Rightarrow> bool" where
  "in_Dereference s pc \<longleftrightarrow> sint (ss_dereferenceStart s) \<le> sint pc \<and> sint pc < sint (ss_dereferenceEnd s)"

text \<open>\<open>Dereference\<close> is the \<open>k\<close>-th frame, and the frames below have frame pointers.\<close>

definition Dereference_at :: "memory \<Rightarrow> signalState \<Rightarrow> nat \<Rightarrow> u64 \<times> u64 \<Rightarrow> u64 \<Rightarrow> bool" where
  "Dereference_at mem s k f fp \<longleftrightarrow>
     (\<forall>j \<le> k. case frame_at mem j f of
        None \<Rightarrow> False
      | Some (pc, fpj) \<Rightarrow> fpj \<noteq> 0 \<and> (in_Dereference s pc \<longleftrightarrow> j = k) \<and> (j = k \<longrightarrow> fpj = fp))"

lemma Dereference_at_Suc:
  assumes "Dereference_at mem s (Suc k) (pc, fp0) fp"
  obtains next_fp next_pc where "fp0 \<noteq> 0" "\<not> in_Dereference s pc" "load_u64 mem fp0 = Inr next_fp"
    "load_u64 mem (fp0 + 8) = Inr next_pc" "Dereference_at mem s k (next_pc, next_fp) fp"
proof -
  have 0: "fp0 \<noteq> 0" "\<not> in_Dereference s pc"
    using assms unfolding Dereference_at_def by (force dest: spec [of _ 0])+
  have "frame_at mem (Suc 0) (pc, fp0) \<noteq> None"
    using assms unfolding Dereference_at_def by (metis (no_types, lifting) Suc_le_mono le0 option.simps(4))
  then obtain next_fp next_pc where l: "load_u64 mem fp0 = Inr next_fp" "load_u64 mem (fp0 + 8) = Inr next_pc"
    by (auto split: sum.splits)
  have "Dereference_at mem s k (next_pc, next_fp) fp"
    unfolding Dereference_at_def
  proof (intro allI impI)
    fix j
    assume "j \<le> k"
    with assms [unfolded Dereference_at_def, rule_format, of "Suc j"]
    show "case frame_at mem j (next_pc, next_fp) of None \<Rightarrow> False
        | Some (pc, fpj) \<Rightarrow> fpj \<noteq> 0 \<and> (in_Dereference s pc \<longleftrightarrow> j = k) \<and> (j = k \<longrightarrow> fpj = fp)"
      by (auto simp: l split: option.splits)
  qed
  with 0 l that show thesis by blast
qed

lemma find_dereference_at:
  "Dereference_at mem s k (pc, fp0) fp \<Longrightarrow> k < n \<Longrightarrow>
    find_dereference mem s n pc fp0 =
      bindE (load_u64 mem fp) (\<lambda>next_fp. bindE (load_u64 mem (fp + 8)) (\<lambda>next_pc. Inr (Some (fp, next_fp, next_pc))))"
proof (induction n arbitrary: k pc fp0)
  case (Suc n)
  show ?case
  proof (cases k)
    case 0
    with Suc.prems(1) have "fp0 = fp" "fp \<noteq> 0" "in_Dereference s pc" by (auto simp: Dereference_at_def)
    then show ?thesis by (simp add: in_Dereference_def)
  next
    case (Suc m)
    with Suc.prems(1) obtain next_fp next_pc where "fp0 \<noteq> 0" "\<not> in_Dereference s pc" "load_u64 mem fp0 = Inr next_fp"
        "load_u64 mem (fp0 + 8) = Inr next_pc" "Dereference_at mem s m (next_pc, next_fp) fp"
      by (auto elim: Dereference_at_Suc)
    with Suc.IH [of m next_pc next_fp] Suc Suc.prems(2) show ?thesis by (auto simp: in_Dereference_def)
  qed
qed simp

text \<open>
  C17. A fault below \<open>Dereference\<close>, when that is one of the four frames the handler looks at, makes
  \<open>Dereference\<close> return false: the thread goes on behind the call of \<open>Dereference\<close> with the stack and the
  frame pointer of its caller and false in the result register; on darwin also with the caller's link
  register. All other registers are as at the fault.
\<close>

theorem sigsegvHandler_Dereference:
  assumes "k < FRAMES_TO_CHECK"
    and "load_u64 mem fp = Inr caller_fp" "load_u64 mem (fp + 8) = Inr ret"
  shows "(Dereference_at mem s k (rip ctx, rbp ctx) fp \<longrightarrow>
      sigsegvHandler_amd64 mem (ss_snapshotTid s) s ctx =
        Inr (Resumed (ctx\<lparr>rbp := caller_fp, rip := ret, rsp := fp + 16, rax := 0\<rparr>))) \<and>
    (Dereference_at mem s k (rg_pc rg, rg_fp rg) fp \<and> load_u64 mem (caller_fp + 8) = Inr lr \<longrightarrow>
      sigsegvHandler_arm64 mem tid s rg =
        Inr (Resumed (rg\<lparr>rg_pc := ret, rg_lr := lr, rg_sp := caller_fp + 8, rg_fp := caller_fp,
          rg_x := (rg_x rg)[0 := 0]\<rparr>)))"
  using assms(2,3) find_dereference_at [OF _ assms(1), of mem s _ _ fp]
  by (auto simp: sigsegvHandler_amd64_def sigsegvHandler_arm64_def)

text \<open>
  Memory in which a fault at 8192 with the frame pointer 4096 was in the function that \<open>Dereference\<close>, at
  [4096, 4352), calls: every other byte is 0.
\<close>

definition fault_memory :: memory where
  "fault_memory a = Some (if a = 4097 then 0x20 else if a = 4105 then 0x10 else 0)"

definition fault_state :: signalState where
  "fault_state =
     \<lparr>ss_mu_locked = True, ss_dereferenceStart = 4096, ss_dereferenceEnd = 4352, ss_snapshotTid = 7, ss_gPtr = 0,
      ss_recoveryFrameBaseOffset = 0, ss_config = None, ss_stopTheWorldAddr = 0, ss_startTheWorldAddr = 0\<rparr>"

definition zero_sigcontext :: sigcontext where
  "zero_sigcontext =
     \<lparr>r8 = 0, r9 = 0, r10 = 0, r11 = 0, r12 = 0, r13 = 0, r14 = 0, r15 = 0, rdi = 0, rsi = 0, rbp = 0, rbx = 0,
      rdx = 0, rax = 0, rcx = 0, rsp = 0, rip = 0, eflags = 0, cs = 0, gs = 0, fs = 0, pad0 = 0, err = 0, trapno = 0,
      oldmask = 0, cr2 = 0\<rparr>"

lemma fault_loads:
  "load_u64 fault_memory 4096 = Inr 8192" "load_u64 fault_memory 4104 = Inr 4096"
  "load_u64 fault_memory 8192 = Inr 0" "load_u64 fault_memory 8200 = Inr 0"
  by code_simp+

lemma fault_Dereference_at: "Dereference_at fault_memory fault_state 1 (8192, 4096) 8192"
  by (auto simp: Dereference_at_def fault_loads fault_state_def in_Dereference_def le_Suc_eq)

theorem sigsegvHandler_Dereference_witness:
  "sigsegvHandler_amd64 fault_memory 7 fault_state (zero_sigcontext\<lparr>rip := 8192, rbp := 4096, rax := 5\<rparr>) =
     Inr (Resumed (zero_sigcontext\<lparr>rip := 0, rbp := 0, rsp := 8208, rax := 0\<rparr>))"
  using sigsegvHandler_Dereference [of 1 fault_memory 8192 0 0 fault_state
      "zero_sigcontext\<lparr>rip := 8192, rbp := 4096, rax := 5\<rparr>"] fault_Dereference_at fault_loads
  by (simp add: FRAMES_TO_CHECK_def fault_state_def)

subsection \<open>Any other fault of the snapshot\<close>

lemma recovery_frame_moved:
  assumes "recovery_offset pl mem cfg g bp = Inr off" "g \<noteq> 0" "ss_config s = Some cfg" "ss_gPtr s = g"
    and "ss_recoveryFrameBaseOffset s = off"
    and "load_u64 mem (g + stktopsp_offset pl cfg) = Inr t"
    and "load_u64 mem' (g + stktopsp_offset pl cfg) = Inr (t + d)"
  shows "recovery_frame pl mem' s = Inr (Some (bp + d))"
  using assms by (auto simp: recovery_offset_def recovery_frame_def)

text \<open>The signal state in which the body of \<open>StopTheWorld\<close> runs.\<close>

definition world_state ::
  "os_arch \<Rightarrow> go_version \<Rightarrow> u64 \<Rightarrow> u32 \<Rightarrow> RuntimeConfig \<Rightarrow> u64 \<Rightarrow> u64 \<Rightarrow> process \<Rightarrow> signalState" where
  "world_state pl v addr tid cfg g off pr = pr_state (setRecoveryState g off (stw_enter pl v addr tid cfg pr))"

lemma recovery_state:
  "ss_snapshotTid (world_state pl v addr tid cfg g off pr) =
     (if pl = Linux_amd64 then tid else ss_snapshotTid (pr_state pr))"
  "ss_config (world_state pl v addr tid cfg g off pr) = Some cfg"
  "ss_gPtr (world_state pl v addr tid cfg g off pr) = g"
  "ss_recoveryFrameBaseOffset (world_state pl v addr tid cfg g off pr) = off"
  by (cases v; cases pl; simp add: world_state_def setRecoveryState_def stw_enter_def upd_state_def setConfig_def Let_def)+

text \<open>
  The stack of the goroutine that takes the snapshot, possibly moved by \<open>d\<close> since \<open>f\<close> was called: \<open>off\<close> is what
  \<open>setRecoveryState\<close> stored for the frame pointer \<open>bp\<close> of the wrapper, in the memory of then (\<open>mem\<close>); now (\<open>mem'\<close>)
  the frame is at \<open>bp + d\<close> and holds \<open>caller_fp\<close> and \<open>ret\<close>.
\<close>

definition wrapper_frame ::
  "os_arch \<Rightarrow> memory \<Rightarrow> memory \<Rightarrow> RuntimeConfig \<Rightarrow> u64 \<Rightarrow> u64 \<Rightarrow> u64 \<Rightarrow> u64 \<Rightarrow> u64 \<Rightarrow> u64 \<Rightarrow> u64 \<Rightarrow> bool" where
  "wrapper_frame pl mem mem' cfg g bp off t d caller_fp ret \<longleftrightarrow>
     recovery_offset pl mem cfg g bp = Inr off \<and> g \<noteq> 0 \<and>
     load_u64 mem (g + stktopsp_offset pl cfg) = Inr t \<and> load_u64 mem' (g + stktopsp_offset pl cfg) = Inr (t + d) \<and>
     load_u64 mem' (bp + d) = Inr caller_fp \<and> load_u64 mem' (bp + d + 8) = Inr ret"

lemma recovery_frame_wrapper:
  assumes "wrapper_frame pl mem mem' cfg g bp off t d caller_fp ret"
  shows "recovery_frame pl mem' (world_state pl v addr tid cfg g off pr) = Inr (Some (bp + d))"
  using assms recovery_frame_moved [of pl mem cfg g bp off _ t mem' d]
  by (simp add: wrapper_frame_def recovery_state)

lemma amd64_recovers:
  assumes "wrapper_frame Linux_amd64 mem mem' cfg g bp off t d caller_fp ret"
    and "s = world_state Linux_amd64 v addr tid cfg g off pr"
    and "find_dereference mem' s FRAMES_TO_CHECK (rip ctx) (rbp ctx) = Inr None"
  shows "sigsegvHandler_amd64 mem' tid s ctx =
    Inr (Resumed (ctx\<lparr>rbp := caller_fp, rip := ret, rsp := bp + d + 16, rax := 0\<rparr>))"
  using assms recovery_frame_wrapper [OF assms(1)]
  by (simp add: sigsegvHandler_amd64_def wrapper_frame_def recovery_state)

lemma arm64_recovers:
  assumes "wrapper_frame Darwin_arm64 mem mem' cfg g bp off t d caller_fp ret"
    and "s = world_state Darwin_arm64 v addr tid cfg g off pr"
    and "find_dereference mem' s FRAMES_TO_CHECK (rg_pc rg) (rg_fp rg) = Inr None"
    and "load_u64 mem' (caller_fp + 8) = Inr lr"
  shows "sigsegvHandler_arm64 mem' tid' s rg =
    Inr (Resumed (rg\<lparr>rg_pc := ret, rg_fp := caller_fp, rg_sp := caller_fp + 8, rg_lr := lr, rg_x := (rg_x rg)[0 := 0]\<rparr>))"
  using assms recovery_frame_wrapper [OF assms(1)]
  by (simp add: sigsegvHandler_arm64_def wrapper_frame_def)

text \<open>
  C18. Any other fault of the thread that takes the snapshot, with the stack of the goroutine possibly moved
  by \<open>d\<close> since \<open>f\<close> was called, resumes at the return of the wrapper: with the return address that its
  frame holds, in the moved stack, and false in the result register, on both platforms, so that \<open>StopTheWorld\<close> runs its
  deferred calls and returns false.
\<close>

theorem sigsegvHandler_recovers:
  assumes "wrapper_frame pl mem mem' cfg g bp off t d caller_fp ret"
    and "s = world_state pl v addr tid cfg g off pr"
  shows "(pl = Linux_amd64 \<and> find_dereference mem' s FRAMES_TO_CHECK (rip ctx) (rbp ctx) = Inr None \<longrightarrow>
      sigsegvHandler_amd64 mem' tid s ctx =
        Inr (Resumed (ctx\<lparr>rbp := caller_fp, rip := ret, rsp := bp + d + 16, rax := 0\<rparr>))) \<and>
    (pl = Darwin_arm64 \<and> find_dereference mem' s FRAMES_TO_CHECK (rg_pc rg) (rg_fp rg) = Inr None \<and>
        load_u64 mem' (caller_fp + 8) = Inr lr \<longrightarrow>
      sigsegvHandler_arm64 mem' tid' s rg =
        Inr (Resumed (rg\<lparr>rg_pc := ret, rg_fp := caller_fp, rg_sp := caller_fp + 8, rg_lr := lr,
          rg_x := (rg_x rg)[0 := 0]\<rparr>)))"
proof (intro conjI impI)
  assume "pl = Linux_amd64 \<and> find_dereference mem' s FRAMES_TO_CHECK (rip ctx) (rbp ctx) = Inr None"
  then show "sigsegvHandler_amd64 mem' tid s ctx =
      Inr (Resumed (ctx\<lparr>rbp := caller_fp, rip := ret, rsp := bp + d + 16, rax := 0\<rparr>))"
    using amd64_recovers [of mem mem' cfg g bp off t d caller_fp ret] assms by blast
next
  assume "pl = Darwin_arm64 \<and> find_dereference mem' s FRAMES_TO_CHECK (rg_pc rg) (rg_fp rg) = Inr None \<and>
      load_u64 mem' (caller_fp + 8) = Inr lr"
  then show "sigsegvHandler_arm64 mem' tid' s rg =
      Inr (Resumed (rg\<lparr>rg_pc := ret, rg_fp := caller_fp, rg_sp := caller_fp + 8, rg_lr := lr, rg_x := (rg_x rg)[0 := 0]\<rparr>))"
    using arm64_recovers [of mem mem' cfg g bp off t d caller_fp ret] assms by blast
qed

lemma find_dereference_nil [simp]: "find_dereference mem s n pc 0 = Inr None"
  by (cases n) simp_all

lemma zero_stktopsp [simp]: "stktopsp_offset pl zero_RuntimeConfig = 0"
  by (simp add: stktopsp_offset_def zero_RuntimeConfig_def)

definition unmoved_memory :: memory where
  "unmoved_memory a = Some (if a = 4097 then 0x40 else 0)"

lemma unmoved_load: "load_u64 unmoved_memory 4096 = Inr 16384"
  by code_simp

lemma moved_frame: "wrapper_frame pl unmoved_memory fault_memory zero_RuntimeConfig 4096 12288 4096 16384 (-8192) 8192 4096"
  by (simp add: wrapper_frame_def recovery_offset_def unmoved_load fault_loads)

theorem sigsegvHandler_recovers_witness:
  "sigsegvHandler_amd64 fault_memory 7
     (world_state Linux_amd64 Go_1_20_to_1_21 4096 7 zero_RuntimeConfig 4096 4096 example_process)
     (zero_sigcontext\<lparr>rax := 5\<rparr>) =
   Inr (Resumed (zero_sigcontext\<lparr>rbp := 8192, rip := 4096, rsp := 4112\<rparr>))"
  using sigsegvHandler_recovers [OF moved_frame [of Linux_amd64] refl, of Go_1_20_to_1_21 4096 7 example_process
      "zero_sigcontext\<lparr>rax := 5\<rparr>"]
  by (simp add: zero_sigcontext_def)

subsection \<open>Faults of other threads\<close>

text \<open>
  C40. On linux a fault of any thread other than the one that takes the snapshot goes to the handler of the
  program, whatever the memory, the registers and the signal state are. On darwin it does not, since the handler has no
  test of the thread: in the state in which the body of \<open>StopTheWorld\<close> runs, every thread that faults outside of
  \<open>Dereference\<close>, a foreign one too, is resumed in the frame of the wrapper, at its return address and on the stack of the goroutine that
  takes the snapshot, while on linux the same thread is passed on in the corresponding state.
\<close>

theorem sigsegvHandler_foreign_thread:
  assumes "wrapper_frame Darwin_arm64 mem mem' cfg g bp off t d caller_fp ret"
    and "load_u64 mem' (caller_fp + 8) = Inr lr"
    and "s = world_state Darwin_arm64 v addr tid cfg g off pr"
  shows "(\<forall>m tid' st ctx. tid' \<noteq> ss_snapshotTid st \<longrightarrow> sigsegvHandler_amd64 m tid' st ctx = Inr Passthrough) \<and>
    (\<forall>tid' rg ctx. tid' \<noteq> tid \<and> find_dereference mem' s FRAMES_TO_CHECK (rg_pc rg) (rg_fp rg) = Inr None \<longrightarrow>
       sigsegvHandler_arm64 mem' tid' s rg =
         Inr (Resumed (rg\<lparr>rg_pc := ret, rg_fp := caller_fp, rg_sp := caller_fp + 8, rg_lr := lr,
           rg_x := (rg_x rg)[0 := 0]\<rparr>)) \<and>
       sigsegvHandler_amd64 mem' tid' (world_state Linux_amd64 v addr tid cfg g off pr) ctx = Inr Passthrough)"
proof (intro conjI allI impI)
  fix tid' and rg :: regs64
  assume "tid' \<noteq> tid \<and> find_dereference mem' s FRAMES_TO_CHECK (rg_pc rg) (rg_fp rg) = Inr None"
  then show "sigsegvHandler_arm64 mem' tid' s rg =
      Inr (Resumed (rg\<lparr>rg_pc := ret, rg_fp := caller_fp, rg_sp := caller_fp + 8, rg_lr := lr, rg_x := (rg_x rg)[0 := 0]\<rparr>))"
    using arm64_recovers [OF assms(1,3) _ assms(2)] by blast
qed (auto simp: sigsegvHandler_amd64_def recovery_state)

text \<open>A thread 8, with the stack pointer 512, while thread 7 takes the snapshot.\<close>

theorem sigsegvHandler_foreign_thread_witness:
  "sigsegvHandler_arm64 fault_memory 8
     (world_state Darwin_arm64 Go_1_20_to_1_21 4096 7 zero_RuntimeConfig 4096 4096 example_process)
     \<lparr>rg_x = [5], rg_fp = 0, rg_lr = 0, rg_sp = 512, rg_pc = 256, rg_cpsr = 0\<rparr> =
   Inr (Resumed \<lparr>rg_x = [0], rg_fp = 8192, rg_lr = 0, rg_sp = 8200, rg_pc = 4096, rg_cpsr = 0\<rparr>)"
  using sigsegvHandler_foreign_thread [where v = Go_1_20_to_1_21 and addr = 4096 and tid = 7 and pr = example_process,
      OF moved_frame _ refl]
  by (simp add: fault_loads)

end
