(* ===== verification/Out_Buf.thy ===== *)
theory Out_Buf
  imports Framing Stop_The_World
begin

text \<open>
  The output buffer (\<open>internal/snapshot/out_buf.go\<close>).

  A Go slice is a window on a backing array: \<open>ob_arr\<close> is the whole array, so its length is \<open>cap(o.out)\<close>
  (the buffer is never reallocated), and \<open>ob_len\<close> is \<open>len(o.out)\<close>. The bytes between \<open>ob_len\<close> and the
  capacity exist: the code reads and writes them through \<open>Ptr\<close>, which is not bounds-checked. An access
  through \<open>Ptr\<close> outside the backing array is the fault \<open>WildAccess\<close>.

  Pointers into the buffer (the frame header, the goroutine header) are offsets; they stay valid since
  the array never moves. Lengths and offsets are 32-bit and wrap, as in the code.

  Every operation returns its results and the new buffer. \<open>ob_wf\<close> is the invariant and \<open>ob_rel\<close> what
  every operation keeps; the functional lemmas say what each writes.
\<close>

record outBuf =
  ob_arr :: "u8 list"
  ob_len :: nat
  ob_isFull :: bool

definition ob_cap :: "outBuf \<Rightarrow> nat" where
  "ob_cap o' = length (ob_arr o')"

definition makeOutBuf :: "u32 \<Rightarrow> outBuf" where
  "makeOutBuf sz = \<lparr>ob_arr = replicate (unat sz) 0, ob_len = 0, ob_isFull = False\<rparr>"

subsection \<open>Loads and stores through \<open>Ptr\<close>\<close>

definition Ptr :: "u32 \<Rightarrow> nat" where
  "Ptr offset = unat offset"

definition ob_load :: "nat \<Rightarrow> nat \<Rightarrow> outBuf \<Rightarrow> (u8 list) res" where
  "ob_load p n b = (if p + n \<le> ob_cap b then Inr (sub (ob_arr b) p n) else Inl WildAccess)"

definition ob_store :: "nat \<Rightarrow> u8 list \<Rightarrow> outBuf \<Rightarrow> outBuf res" where
  "ob_store p bs b =
     (if p + length bs \<le> ob_cap b then Inr (b\<lparr>ob_arr := blit (ob_arr b) p bs\<rparr>) else Inl WildAccess)"

definition ob_load8 :: "nat \<Rightarrow> outBuf \<Rightarrow> u8 res" where
  "ob_load8 p b = bindE (ob_load p 1 b) (\<lambda>bs. Inr (le_word bs))"

definition ob_load32 :: "nat \<Rightarrow> outBuf \<Rightarrow> u32 res" where
  "ob_load32 p b = bindE (ob_load p 4 b) (\<lambda>bs. Inr (le_word bs))"

definition ob_load64 :: "nat \<Rightarrow> outBuf \<Rightarrow> u64 res" where
  "ob_load64 p b = bindE (ob_load p 8 b) (\<lambda>bs. Inr (le_word bs))"

definition ob_store32 :: "nat \<Rightarrow> u32 \<Rightarrow> outBuf \<Rightarrow> outBuf res" where
  "ob_store32 p w b = ob_store p (le_bytes 4 w) b"

definition ob_store64 :: "nat \<Rightarrow> u64 \<Rightarrow> outBuf \<Rightarrow> outBuf res" where
  "ob_store64 p w b = ob_store p (le_bytes 8 w) b"

subsection \<open>The operations\<close>

definition Len :: "outBuf \<Rightarrow> u32" where
  "Len b = of_nat (ob_len b)"

definition ob_cap32 :: "outBuf \<Rightarrow> u32" where
  "ob_cap32 b = of_nat (ob_cap b)"

definition GetEntryLen :: "u32 \<Rightarrow> outBuf \<Rightarrow> u32 res" where
  "GetEntryLen entryOffset b =
     ob_load32 (Ptr (entryOffset - of_nat sizeof_QueueEntry) + 4) b"

text \<open>The padding to a multiple of 8 that \<open>PrepareFrameData\<close> and \<open>reserveQueueEntry\<close> compute.\<close>

definition padded :: "u32 \<Rightarrow> u32" where
  "padded l = (let rem = l mod 8 in if rem \<noteq> 0 then l + (8 - rem) else l)"

definition PrepareFrameData ::
  "u32 \<Rightarrow> u32 \<Rightarrow> u32 \<Rightarrow> u32 \<Rightarrow> outBuf \<Rightarrow> ((nat option \<times> u32 \<times> bool) \<times> outBuf) res" where
  "PrepareFrameData typeID progID dataLen depth b =
     (let paddedLen = padded dataLen;
          frameHeaderOffset = Len b;
          newLen = ob_len b + sizeof_FrameHeader + sizeof_QueueEntry + unat paddedLen + 8
      in
      if newLen > ob_cap b then Inr ((None, 0, False), b\<lparr>ob_isFull := True\<rparr>)
      else
        (let b1 = b\<lparr>ob_len := newLen\<rparr>;
             queueEntryOffset = frameHeaderOffset + of_nat sizeof_FrameHeader;
             frameHeader = Ptr frameHeaderOffset;
             offset = queueEntryOffset + of_nat sizeof_QueueEntry
         in
         bindE (ob_store frameHeader (FrameHeader_bytes \<lparr>fh_DataByteLen = queueEntryOffset\<rparr>) b1) (\<lambda>b2.
         bindE (ob_store (Ptr queueEntryOffset)
                  (QueueEntry_bytes \<lparr>qe_Type = typeID, qe_Len = dataLen + 8, qe_Addr = 0\<rparr>) b2) (\<lambda>b3.
         bindE (ob_store32 (Ptr (offset + dataLen)) progID b3) (\<lambda>b4.
         bindE (ob_store32 (Ptr (offset + dataLen + 4)) depth b4) (\<lambda>b5.
         Inr ((Some frameHeader, offset, True), b5)))))))"

definition ConcludeFrameData :: "nat option \<Rightarrow> outBuf \<Rightarrow> outBuf res" where
  "ConcludeFrameData frameHeader b =
     bindE (ofOption NilDeref frameHeader) (\<lambda>p.
     bindE (ob_load32 p b) (\<lambda>start.
     ob_store32 p (Len b - start) b))"

definition Zero :: "u32 \<Rightarrow> u32 \<Rightarrow> outBuf \<Rightarrow> outBuf res" where
  "Zero offset zeroLen b =
     (if offset + zeroLen > ob_cap32 b then Inr b
      else if offset > offset + zeroLen \<or> unat (offset + zeroLen) > ob_cap b
      then Inl SliceOutOfRange
      else Inr (b\<lparr>ob_arr := blit (ob_arr b) (unat offset)
                    (replicate (unat (offset + zeroLen) - unat offset) 0)\<rparr>))"

primrec Copy_loop :: "nat \<Rightarrow> u32 \<Rightarrow> u32 \<Rightarrow> u32 \<Rightarrow> outBuf \<Rightarrow> outBuf res" where
  "Copy_loop 0 src dst i b = Inr b"
| "Copy_loop (Suc n) src dst i b =
     bindE (guardE IndexOutOfRange (unat (src + i) < ob_len b \<and> unat (dst + i) < ob_len b)) (\<lambda>_.
     Copy_loop n src dst (i + 1)
       (b\<lparr>ob_arr := (ob_arr b)[unat (dst + i) := ob_arr b ! unat (src + i)]\<rparr>))"

definition Copy :: "u32 \<Rightarrow> u32 \<Rightarrow> u32 \<Rightarrow> outBuf \<Rightarrow> outBuf res" where
  "Copy src dst len b =
     (if src + len > ob_cap32 b then Inr b
      else if dst + len > ob_cap32 b then Inr b
      else Copy_loop (unat len) src dst 0 b)"

definition ob_Dereference :: "memory \<Rightarrow> u32 \<Rightarrow> u64 \<Rightarrow> u32 \<Rightarrow> outBuf \<Rightarrow> (bool \<times> outBuf) res" where
  "ob_Dereference mem offset ptr dereferenceLen b =
     (if offset + dereferenceLen > ob_cap32 b then Inr (False, b)
      else
        (case Dereference mem ptr (unat dereferenceLen) of
           None \<Rightarrow> bindE (Zero offset dereferenceLen b) (\<lambda>b'. Inr (False, b'))
         | Some bs \<Rightarrow> bindE (ob_store (Ptr offset) bs b) (\<lambda>b'. Inr (True, b'))))"

definition EnsureLen :: "u32 \<Rightarrow> outBuf \<Rightarrow> bool \<times> outBuf" where
  "EnsureLen minLen b =
     (if minLen < Len b then (True, b)
      else if minLen > ob_cap32 b then (False, b\<lparr>ob_isFull := True\<rparr>)
      else (True, b\<lparr>ob_len := unat minLen\<rparr>))"

definition ob_data :: "outBuf \<Rightarrow> u8 list" where
  "ob_data b = take (ob_len b) (ob_arr b)"

definition writeSnapshotHeader :: "outBuf \<Rightarrow> nat option \<times> outBuf" where
  "writeSnapshotHeader b =
     (let offset = Len b; newLen = ob_len b + sizeof_SnapshotHeader in
      if newLen > ob_cap b then (None, b\<lparr>ob_isFull := True\<rparr>)
      else (Some (Ptr offset), b\<lparr>ob_len := newLen\<rparr>))"

definition writeGoroutineHeader :: "outBuf \<Rightarrow> nat option \<times> outBuf" where
  "writeGoroutineHeader b =
     (let offset = Len b; newLen = offset + of_nat sizeof_GoroutineHeader; (ok, b1) = EnsureLen newLen b in
      if \<not> ok then (None, b1) else (Some (Ptr offset), b1))"

definition full :: "outBuf \<Rightarrow> bool" where
  "full b = ob_isFull b"

definition truncate :: "u32 \<Rightarrow> outBuf \<Rightarrow> outBuf res" where
  "truncate offset b =
     (if unat offset \<le> ob_cap b then Inr (b\<lparr>ob_len := unat offset\<rparr>) else Inl SliceOutOfRange)"

definition reserveQueueEntry :: "QueueEntry \<Rightarrow> outBuf \<Rightarrow> ((u32 \<times> bool) \<times> outBuf) res" where
  "reserveQueueEntry entry b =
     (let origLen = Len b;
          headerOffset = origLen;
          paddedLen = padded (qe_Len entry);
          newLen = headerOffset + paddedLen + of_nat sizeof_QueueEntry;
          (ok, b1) = EnsureLen newLen b
      in
      if \<not> ok then Inr ((0, False), b1)
      else
        bindE (ob_store (Ptr headerOffset) (QueueEntry_bytes entry) b1) (\<lambda>b2.
        let dataOffset = headerOffset + of_nat sizeof_QueueEntry in
        Inr ((dataOffset, True), b2)))"

text \<open>
  \<open>writeQueueEntry\<close> assigns the \<open>ok\<close> of \<open>reserveQueueEntry\<close> and does not test it: the dereference
  goes on with the returned offset, which is 0 when there was no room.
\<close>

definition writeQueueEntry :: "memory \<Rightarrow> QueueEntry \<Rightarrow> outBuf \<Rightarrow> ((u32 \<times> bool) \<times> outBuf) res" where
  "writeQueueEntry mem entry b =
     bindE (reserveQueueEntry entry b) (\<lambda>((dataOffset, ok), b1).
     bindE (ob_Dereference mem dataOffset (qe_Addr entry) (qe_Len entry) b1) (\<lambda>(dok, b2).
     if \<not> dok then
       (let headerOffset = dataOffset - of_nat sizeof_QueueEntry in
        bindE (ob_load32 (Ptr headerOffset) b2) (\<lambda>ty.
        bindE (ob_store32 (Ptr headerOffset) (ty OR push_bit 31 1) b2) (\<lambda>b3.
        Inr ((0, False), b3))))
     else Inr ((dataOffset, True), b2)))"

definition writeStack :: "u64 list \<Rightarrow> outBuf \<Rightarrow> ((u32 \<times> bool) \<times> outBuf) res" where
  "writeStack stack b =
     (let offset = Len b;
          byteLen = of_nat (length stack) * 8;
          newLen = offset + byteLen;
          (ok, b1) = EnsureLen newLen b
      in
      if \<not> ok then Inr ((0, False), b1)
      else
        bindE (guardE SliceOutOfRange (unat offset \<le> ob_len b1)) (\<lambda>_.
        bindE (guardE IndexOutOfRange (stack \<noteq> [])) (\<lambda>_.
        let src = take (unat byteLen) (concat (map (le_bytes 8) stack));
            n = min (ob_len b1 - unat offset) (length src)
        in Inr ((byteLen, True), b1\<lparr>ob_arr := blit (ob_arr b1) (unat offset) (take n src)\<rparr>))))"

text \<open>Sequencing after a load, which changes nothing.\<close>

lemmas load_bind =
  okE_bindI [of "ob_load32 p b" for p b] okE_bindI [of "ob_load64 p b" for p b]
  okE_bindI [of "ob_load8 p b" for p b] okE_bindI [of "GetEntryLen p b" for p b]
  okE_bindI [of "guardE e c" for e c] okE_bindI [of "ofOption e c" for e c]

subsection \<open>The invariant\<close>

text \<open>
  The capacity fits in 32 bits with room to spare, so that no offset computed from a length in the
  buffer wraps by accident: the snapshotter's buffer has 2^20 bytes.
\<close>

definition ob_wf :: "outBuf \<Rightarrow> bool" where
  "ob_wf b \<longleftrightarrow> ob_len b \<le> ob_cap b \<and> ob_cap b \<le> 2 ^ 31"

definition ob_rel :: "outBuf \<Rightarrow> outBuf \<Rightarrow> bool" where
  "ob_rel b b' \<longleftrightarrow> ob_wf b' \<and> ob_cap b' = ob_cap b \<and> (ob_isFull b \<longrightarrow> ob_isFull b')"

named_theorems ob_ok \<open>every buffer operation keeps \<open>ob_rel\<close>\<close>

lemma ob_wf_makeOutBuf: "unat sz \<le> 2 ^ 31 \<Longrightarrow> ob_wf (makeOutBuf sz)"
  by (simp add: ob_wf_def makeOutBuf_def ob_cap_def)

lemma ob_rel_refl [simp]: "ob_wf b \<Longrightarrow> ob_rel b b"
  by (simp add: ob_rel_def)

lemma ob_rel_trans: "ob_rel a b \<Longrightarrow> ob_rel b c \<Longrightarrow> ob_rel a c"
  by (auto simp: ob_rel_def)

lemma ob_rel_wf: "ob_rel a b \<Longrightarrow> ob_wf b"
  by (simp add: ob_rel_def)

lemma unat_Len [simp]: "ob_wf b \<Longrightarrow> unat (Len b) = ob_len b"
  by (simp add: Len_def ob_wf_def unat_of_nat_u32)

lemma unat_ob_cap32 [simp]: "ob_wf b \<Longrightarrow> unat (ob_cap32 b) = ob_cap b"
  by (simp add: ob_cap32_def ob_wf_def unat_of_nat_u32)

lemma ob_cap_upd [simp]:
  "ob_cap (b\<lparr>ob_len := n\<rparr>) = ob_cap b" "ob_cap (b\<lparr>ob_isFull := f\<rparr>) = ob_cap b"
  by (simp_all add: ob_cap_def)

lemma ob_cap_arr [simp]: "ob_cap (b\<lparr>ob_arr := xs\<rparr>) = length xs"
  by (simp add: ob_cap_def)

lemma ob_store_ok [ob_ok]: "ob_wf b \<Longrightarrow> okE (ob_rel b) (ob_store p bs b)"
  by (simp add: ob_store_def ob_rel_def ob_wf_def ob_cap_def)

lemma ob_store32_ok [ob_ok]: "ob_wf b \<Longrightarrow> okE (ob_rel b) (ob_store32 p w b)"
  by (simp add: ob_store32_def ob_store_ok)

lemma ob_store64_ok [ob_ok]: "ob_wf b \<Longrightarrow> okE (ob_rel b) (ob_store64 p w b)"
  by (simp add: ob_store64_def ob_store_ok)

lemma Zero_ok [ob_ok]: "ob_wf b \<Longrightarrow> okE (ob_rel b) (Zero offset n b)"
  by (auto simp: Zero_def ob_rel_def ob_wf_def ob_cap_def word_le_nat_alt word_less_nat_alt not_less)

lemma Copy_loop_ok: "ob_wf b \<Longrightarrow> okE (ob_rel b) (Copy_loop n src dst i b)"
proof (induction n arbitrary: i b)
  case (Suc n)
  define b' where "b' = b\<lparr>ob_arr := (ob_arr b)[unat (dst + i) := ob_arr b ! unat (src + i)]\<rparr>"
  have "ob_rel b b'" using Suc.prems by (simp add: b'_def ob_rel_def ob_wf_def ob_cap_def)
  with Suc.IH [of b' "i + 1"] show ?case
    by (auto simp: b'_def [symmetric] okE_iff res_simps dest: ob_rel_wf intro: ob_rel_trans)
qed simp

lemma Copy_ok [ob_ok]: "ob_wf b \<Longrightarrow> okE (ob_rel b) (Copy src dst n b)"
  by (simp add: Copy_def Copy_loop_ok)

lemma EnsureLen_ok [ob_ok]: "ob_wf b \<Longrightarrow> ob_rel b (snd (EnsureLen n b))"
  using unat_ob_cap32 [of b]
  by (auto simp: EnsureLen_def ob_rel_def ob_wf_def word_less_nat_alt not_less)

lemma truncate_ok [ob_ok]: "ob_wf b \<Longrightarrow> okE (ob_rel b) (truncate n b)"
  by (simp add: truncate_def ob_rel_def ob_wf_def)

lemma ConcludeFrameData_ok [ob_ok]: "ob_wf b \<Longrightarrow> okE (ob_rel b) (ConcludeFrameData p b)"
  unfolding ConcludeFrameData_def by (intro ok_intros ob_ok)

lemma ob_Dereference_ok [ob_ok]:
  "ob_wf b \<Longrightarrow> okE (\<lambda>(_, b'). ob_rel b b') (ob_Dereference mem off a n b)"
  unfolding ob_Dereference_def
  by (auto split: option.splits intro!: okE_bind [OF Zero_ok] okE_bind [OF ob_store_ok])

lemma writeSnapshotHeader_ok [ob_ok]: "ob_wf b \<Longrightarrow> ob_rel b (snd (writeSnapshotHeader b))"
  by (simp add: writeSnapshotHeader_def ob_rel_def ob_wf_def Let_def)

lemma writeGoroutineHeader_ok [ob_ok]: "ob_wf b \<Longrightarrow> ob_rel b (snd (writeGoroutineHeader b))"
  using EnsureLen_ok [of b "Len b + 40"]
  by (auto simp: writeGoroutineHeader_def Let_def split: prod.splits)

text \<open>The same facts relative to an earlier buffer, to chain operations.\<close>

lemma ob_from: "(ob_wf b \<Longrightarrow> okE (ob_rel b) m) \<Longrightarrow> ob_rel a b \<Longrightarrow> okE (ob_rel a) m"
  by (auto simp: okE_iff dest: ob_rel_wf intro: ob_rel_trans)

lemma ob_from2:
  "(ob_wf b \<Longrightarrow> okE (\<lambda>(_, b'). ob_rel b b') m) \<Longrightarrow> ob_rel a b \<Longrightarrow> okE (\<lambda>(_, b'). ob_rel a b') m"
  by (cases m) (auto dest: ob_rel_wf intro: ob_rel_trans)

named_theorems ob_chain \<open>buffer operations, relative to an earlier buffer\<close>

lemmas [ob_chain] =
  ob_from [OF ob_store_ok] ob_from [OF ob_store32_ok] ob_from [OF ob_store64_ok]
  ob_from [OF Zero_ok] ob_from [OF Copy_ok] ob_from [OF truncate_ok]
  ob_from [OF ConcludeFrameData_ok] ob_from2 [OF ob_Dereference_ok]

lemma reserveQueueEntry_ok [ob_ok]:
  assumes "ob_wf b"
  shows "okE (\<lambda>(_, b'). ob_rel b b') (reserveQueueEntry e b)"
proof -
  define nl where "nl = Len b + padded (qe_Len e) + of_nat sizeof_QueueEntry"
  obtain ok b1 where e: "EnsureLen nl b = (ok, b1)" by fastforce
  then have r: "ob_rel b b1" using EnsureLen_ok [OF assms, of nl] by simp
  then show ?thesis
    unfolding reserveQueueEntry_def Let_def nl_def [symmetric] e
    by (auto intro!: okE_bind [OF ob_store_ok] dest: ob_rel_wf intro: ob_rel_trans)
qed

lemma writeQueueEntry_ok [ob_ok]:
  assumes "ob_wf b"
  shows "okE (\<lambda>(_, b'). ob_rel b b') (writeQueueEntry mem e b)"
  unfolding writeQueueEntry_def
proof (rule okE_bind [OF reserveQueueEntry_ok [OF assms]], clarify)
  fix d ok b1
  assume b1: "ob_rel b b1"
  show "okE (\<lambda>(_, b'). ob_rel b b')
    (bindE (ob_Dereference mem d (qe_Addr e) (qe_Len e) b1) (\<lambda>(dok, b2).
     if \<not> dok then
       (let headerOffset = d - of_nat sizeof_QueueEntry in
        bindE (ob_load32 (Ptr headerOffset) b2) (\<lambda>ty.
        bindE (ob_store32 (Ptr headerOffset) (ty OR push_bit 31 1) b2) (\<lambda>b3.
        Inr ((0, False), b3))))
     else Inr ((d, True), b2)))"
    using b1 by (auto simp: Let_def intro!: load_bind okE_bind [OF ob_from2 [OF ob_Dereference_ok]]
        okE_bind [OF ob_from [OF ob_store32_ok]])
qed

lemma writeStack_ok [ob_ok]:
  assumes "ob_wf b"
  shows "okE (\<lambda>(_, b'). ob_rel b b') (writeStack stack b)"
proof -
  define nl where "nl = Len b + of_nat (length stack) * 8"
  obtain ok b1 where e: "EnsureLen nl b = (ok, b1)" by fastforce
  then have r: "ob_rel b b1" using EnsureLen_ok [OF assms, of nl] by simp
  then have "ob_len b1 \<le> ob_cap b1" by (simp add: ob_rel_def ob_wf_def)
  with r show ?thesis
    unfolding writeStack_def Let_def nl_def [symmetric] e
    by (auto intro!: okE_bindI simp: ob_rel_def ob_wf_def ob_cap_def min_def)
qed

lemma PrepareFrameData_ok [ob_ok]:
  assumes "ob_wf b"
  shows "okE (\<lambda>(_, b'). ob_rel b b') (PrepareFrameData t p n d b)"
proof -
  define nl where "nl = ob_len b + sizeof_FrameHeader + sizeof_QueueEntry + unat (padded n) + 8"
  have r: "ob_rel b (b\<lparr>ob_len := nl\<rparr>)" if "nl \<le> ob_cap b"
    using that assms by (simp add: ob_rel_def ob_wf_def)
  have f: "ob_rel b (b\<lparr>ob_isFull := True\<rparr>)"
    using assms by (simp add: ob_rel_def ob_wf_def)
  show ?thesis
    unfolding PrepareFrameData_def Let_def nl_def [symmetric] if_distrib [of "okE _"]
    by (auto intro!: okE_bind [OF ob_from [OF ob_store_ok]] okE_bind [OF ob_from [OF ob_store32_ok]]
        intro: f r simp: not_less)
qed

lemmas [ob_chain] =
  ob_from2 [OF reserveQueueEntry_ok] ob_from2 [OF writeQueueEntry_ok]
  ob_from2 [OF writeStack_ok] ob_from2 [OF PrepareFrameData_ok]

subsection \<open>What the writers write\<close>

text \<open>
  \<open>entry_at b p e bs\<close>: at offset \<open>p\<close> of the buffer stands the header of the entry \<open>e\<close>, followed by the
  bytes \<open>bs\<close>. \<open>room e b\<close>: there is room for the entry with its padding. \<open>unwrapped e b\<close>: its length is
  small enough for the 32-bit sums that place it not to wrap.
\<close>

definition entry_at :: "outBuf \<Rightarrow> nat \<Rightarrow> QueueEntry \<Rightarrow> u8 list \<Rightarrow> bool" where
  "entry_at b p e bs \<longleftrightarrow>
     p + 16 + length bs \<le> ob_cap b \<and> QueueEntry_of (sub (ob_arr b) p 16) = e \<and>
     sub (ob_arr b) (p + 16) (length bs) = bs"

definition entry_len :: "QueueEntry \<Rightarrow> nat" where
  "entry_len e = 16 + unat (padded (qe_Len e))"

definition room :: "QueueEntry \<Rightarrow> outBuf \<Rightarrow> bool" where
  "room e b \<longleftrightarrow> ob_len b + entry_len e \<le> ob_cap b"

definition unwrapped :: "QueueEntry \<Rightarrow> bool" where
  "unwrapped e \<longleftrightarrow> unat (qe_Len e) \<le> 2 ^ 30"

lemma round_up:
  fixes n :: nat
  assumes "n mod 8 \<noteq> 0"
  shows "n + (8 - n mod 8) = (n + 7) div 8 * 8"
proof -
  define q r where "q = n div 8" and "r = n mod 8"
  have n: "n = 8 * q + r" "r < 8" "0 < r" using assms by (simp_all add: q_def r_def)
  then have "(n + 7) div 8 = q + 1" by (simp add: div_nat_eqI)
  then show ?thesis using n by (simp add: r_def [symmetric])
qed

lemma unat_padded:
  assumes "unat l + 7 < 2 ^ 32"
  shows "unat (padded l) = (unat l + 7) div 8 * 8"
proof -
  have r: "unat (l mod 8) = unat l mod 8" by (simp add: unat_mod)
  show ?thesis
  proof (cases "l mod 8 = 0")
    case True
    with r have "unat l mod 8 = 0" by simp
    then have "unat l = (unat l + 7) div 8 * 8" by presburger
    with True show ?thesis by (simp add: padded_def)
  next
    case False
    with r have nz: "unat l mod 8 \<noteq> 0" by (metis unat_eq_zero)
    have "l mod 8 \<le> 8" by (simp add: word_le_nat_alt r)
    then have s: "unat (8 - l mod 8) = 8 - unat l mod 8" by (simp add: unat_sub_u32 r)
    have "unat (l + (8 - l mod 8)) = unat l + (8 - unat l mod 8)"
      using assms nz s by (subst unat_add_u32) auto
    also have "\<dots> = (unat l + 7) div 8 * 8" using nz by (rule round_up)
    finally show ?thesis using False by (simp add: padded_def Let_def)
  qed
qed

lemma entry_len_bounds:
  assumes "unwrapped e"
  shows "16 + unat (qe_Len e) \<le> entry_len e" and "entry_len e \<le> 16 + unat (qe_Len e) + 7"
    and "8 dvd entry_len e"
proof -
  have p: "unat (padded (qe_Len e)) = (unat (qe_Len e) + 7) div 8 * 8"
    using assms by (intro unat_padded) (simp add: unwrapped_def)
  have el: "entry_len e = 16 + (unat (qe_Len e) + 7) div 8 * 8" by (simp add: entry_len_def p)
  have round: "n \<le> (n + 7) div 8 * 8" "(n + 7) div 8 * 8 \<le> n + 7" for n :: nat by presburger+
  show "16 + unat (qe_Len e) \<le> entry_len e" "entry_len e \<le> 16 + unat (qe_Len e) + 7"
    using round [of "unat (qe_Len e)"] by (simp_all add: el)
  show "8 dvd entry_len e" unfolding el by presburger
qed

lemma unat_newLen:
  assumes "ob_wf b" "unwrapped e"
  shows "unat (Len b + padded (qe_Len e) + 16) = ob_len b + entry_len e"
proof -
  have "entry_len e \<le> 2 ^ 30 + 23" using entry_len_bounds(2) [OF assms(2)] assms(2)
    by (simp add: unwrapped_def)
  moreover have "ob_len b \<le> 2 ^ 31" using assms(1) by (simp add: ob_wf_def)
  ultimately show ?thesis
    using assms(1) by (subst unat_add_u32, subst unat_add_u32) (auto simp: entry_len_def unat_add_u32)
qed

lemma reserveQueueEntry_room:
  assumes "ob_wf b" "unwrapped e" "room e b"
  shows "reserveQueueEntry e b = Inr ((Len b + 16, True),
    b\<lparr>ob_arr := blit (ob_arr b) (ob_len b) (QueueEntry_bytes e), ob_len := ob_len b + entry_len e\<rparr>)"
proof -
  have u: "unat (Len b + padded (qe_Len e) + 16) = ob_len b + entry_len e"
    by (rule unat_newLen [OF assms(1,2)])
  have e: "EnsureLen (Len b + padded (qe_Len e) + 16) b = (True, b\<lparr>ob_len := ob_len b + entry_len e\<rparr>)"
    using assms u by (simp add: EnsureLen_def word_less_nat_alt room_def)
  have "ob_len b + 16 \<le> ob_cap b" using assms(3) entry_len_bounds(1) [OF assms(2)] by (simp add: room_def)
  then show ?thesis
    using assms(1) by (simp add: reserveQueueEntry_def Let_def e ob_store_def Ptr_def)
qed

lemma reserveQueueEntry_no_room:
  assumes "ob_wf b" "unwrapped e" "\<not> room e b"
  shows "reserveQueueEntry e b = Inr ((0, False), b\<lparr>ob_isFull := True\<rparr>)"
proof -
  have u: "unat (Len b + padded (qe_Len e) + 16) = ob_len b + entry_len e"
    by (rule unat_newLen [OF assms(1,2)])
  have "EnsureLen (Len b + padded (qe_Len e) + 16) b = (False, b\<lparr>ob_isFull := True\<rparr>)"
    using assms u by (simp add: EnsureLen_def word_less_nat_alt room_def)
  then show ?thesis by (simp add: reserveQueueEntry_def Let_def)
qed

text \<open>The data area of a reserved entry starts 16 bytes after the old end.\<close>

lemma data_offset:
  assumes "ob_wf b" "unwrapped e" "room e b"
  shows "unat (Len b + 16) = ob_len b + 16"
    and "unat (Len b + 16 + qe_Len e) = ob_len b + 16 + unat (qe_Len e)"
proof -
  have *: "ob_len b + 16 + unat (qe_Len e) < 2 ^ 32"
    using assms entry_len_bounds(1) [OF assms(2)] by (simp add: room_def ob_wf_def)
  then show a: "unat (Len b + 16) = ob_len b + 16"
    using assms(1) by (subst unat_add_u32) auto
  show "unat (Len b + 16 + qe_Len e) = ob_len b + 16 + unat (qe_Len e)"
    using * by (subst unat_add_u32) (simp_all add: a)
qed

definition written :: "QueueEntry \<Rightarrow> u8 list \<Rightarrow> outBuf \<Rightarrow> outBuf" where
  "written e bs b =
     b\<lparr>ob_arr := blit (blit (ob_arr b) (ob_len b) (QueueEntry_bytes e)) (ob_len b + 16) bs,
       ob_len := ob_len b + entry_len e\<rparr>"

lemma written_entry_at:
  assumes "unwrapped e" "room e b" "length bs = unat (qe_Len e)"
  shows "entry_at (written e bs b) (ob_len b) e bs"
    and "take (ob_len b) (ob_arr (written e bs b)) = take (ob_len b) (ob_arr b)"
    and "ob_cap (written e bs b) = ob_cap b"
proof -
  have fit: "ob_len b + 16 + length bs \<le> length (ob_arr b)"
    using assms entry_len_bounds(1) [OF assms(1)] by (simp add: room_def ob_cap_def)
  have "QueueEntry_of (sub (blit (blit (ob_arr b) (ob_len b) (QueueEntry_bytes e)) (ob_len b + 16) bs)
      (ob_len b) 16) = e"
    using fit QE.read_back [of "ob_len b" "ob_arr b" e] by (subst sub_blit_other) auto
  then show "entry_at (written e bs b) (ob_len b) e bs"
    using fit by (simp add: entry_at_def written_def ob_cap_def sub_blit_same)
  show "take (ob_len b) (ob_arr (written e bs b)) = take (ob_len b) (ob_arr b)"
    using fit by (simp add: written_def take_blit)
  show "ob_cap (written e bs b) = ob_cap b"
    using fit by (simp add: written_def ob_cap_def)
qed

lemma writeQueueEntry_mapped:
  assumes "ob_wf b" "unwrapped e" "room e b"
    and "Dereference mem (qe_Addr e) (unat (qe_Len e)) = Some bs"
  shows "writeQueueEntry mem e b = Inr ((Len b + 16, True), written e bs b)"
proof -
  have fit: "ob_len b + 16 + unat (qe_Len e) \<le> ob_cap b"
    using assms entry_len_bounds(1) [OF assms(2)] by (simp add: room_def)
  note len = Dereference_length [OF assms(4)]
  have "ob_cap32 (b\<lparr>ob_arr := blit (ob_arr b) (ob_len b) (QueueEntry_bytes e),
      ob_len := ob_len b + entry_len e\<rparr>) = ob_cap32 b"
    using fit by (simp add: ob_cap32_def ob_cap_def)
  then show ?thesis
    using fit assms(1) len data_offset [OF assms(1-3)]
    by (simp add: writeQueueEntry_def reserveQueueEntry_room [OF assms(1-3)] ob_Dereference_def
        word_less_nat_alt assms(4) ob_store_def Ptr_def written_def ob_cap_def)
qed

definition unreadable :: "QueueEntry \<Rightarrow> QueueEntry" where
  "unreadable e = e\<lparr>qe_Type := qe_Type e OR push_bit 31 1\<rparr>"

lemma QueueEntry_bytes_Type:
  "blit (QueueEntry_bytes e) 0 (le_bytes 4 ty) = QueueEntry_bytes (e\<lparr>qe_Type := ty\<rparr>)"
  by (simp add: blit_def QueueEntry_bytes_def)

lemma blit_within:
  assumes "p + length ys \<le> length xs" "length zs \<le> length ys"
  shows "blit (blit xs p ys) p zs = blit xs p (blit ys 0 zs)"
  using assms by (intro nth_equalityI) (auto simp: nth_blit not_less)

lemma QueueEntry_bytes_Type_read: "le_word (sub (QueueEntry_bytes e) 0 4) = qe_Type e"
  by (simp add: QueueEntry_bytes_def sub_append_left sub_all)

lemma sub_blit_inside:
  assumes "p + length ys \<le> length xs" "n \<le> length ys"
  shows "sub (blit xs p ys) p n = sub ys 0 n"
  using assms by (intro nth_equalityI) (auto simp: nth_sub nth_blit)

lemma writeQueueEntry_unmapped:
  assumes "ob_wf b" "unwrapped e" "room e b"
    and "Dereference mem (qe_Addr e) (unat (qe_Len e)) = None"
  shows "writeQueueEntry mem e b =
    Inr ((0, False), written (unreadable e) (replicate (unat (qe_Len e)) 0) b)"
proof -
  define n where "n = unat (qe_Len e)"
  define a1 where "a1 = blit (ob_arr b) (ob_len b) (QueueEntry_bytes e)"
  define b1 where "b1 = b\<lparr>ob_arr := a1, ob_len := ob_len b + entry_len e\<rparr>"
  define b2 where "b2 = b1\<lparr>ob_arr := blit a1 (ob_len b + 16) (replicate n 0)\<rparr>"
  have fit: "ob_len b + 16 + n \<le> length (ob_arr b)"
    using assms entry_len_bounds(1) [OF assms(2)] by (simp add: room_def n_def ob_cap_def)
  have cap: "ob_cap b1 = ob_cap b" "ob_cap32 b1 = ob_cap32 b" "ob_cap b2 = ob_cap b"
    using fit by (simp_all add: b1_def b2_def a1_def ob_cap_def ob_cap32_def)
  note off = data_offset [OF assms(1-3)]
  have le: "\<not> Len b + 16 + qe_Len e < Len b + 16"
    using off by (simp add: word_less_nat_alt)
  have zero: "Zero (Len b + 16) (qe_Len e) b1 = Inr b2"
    using fit off cap assms(1) le
    by (simp add: Zero_def word_less_nat_alt ob_cap_def [symmetric] b2_def n_def)
       (simp add: b1_def)
  have deref: "ob_Dereference mem (Len b + 16) (qe_Addr e) (qe_Len e) b1 = Inr (False, b2)"
    using fit off cap assms(1,4)
    by (simp add: ob_Dereference_def word_less_nat_alt ob_cap_def [symmetric] zero n_def)
  have ty: "ob_load32 (ob_len b) b2 = Inr (qe_Type e)"
    using fit cap(3)
    by (simp add: ob_load32_def ob_load_def ob_cap_def)
       (simp add: b2_def b1_def a1_def sub_blit_other sub_blit_inside QueueEntry_bytes_Type_read)
  have store: "ob_store32 (ob_len b) w b2 = Inr (written (e\<lparr>qe_Type := w\<rparr>) (replicate n 0) b)" for w
  proof -
    have "blit (blit a1 (ob_len b + 16) (replicate n 0)) (ob_len b) (le_bytes 4 w) =
        blit (blit a1 (ob_len b) (le_bytes 4 w)) (ob_len b + 16) (replicate n 0)"
      using fit by (intro blit_blit_disjoint [symmetric]) (auto simp: a1_def)
    also have "blit a1 (ob_len b) (le_bytes 4 w) =
        blit (ob_arr b) (ob_len b) (QueueEntry_bytes (e\<lparr>qe_Type := w\<rparr>))"
      using fit unfolding a1_def QueueEntry_bytes_Type [symmetric] by (intro blit_within) auto
    finally show ?thesis
      using fit cap(3) by (simp add: ob_store32_def ob_store_def ob_cap_def)
        (simp add: b2_def b1_def written_def entry_len_def)
  qed
  show ?thesis
    using assms(1) store [of "qe_Type e OR push_bit 31 1"]
    by (simp add: writeQueueEntry_def reserveQueueEntry_room [OF assms(1-3)] a1_def [symmetric]
        b1_def [symmetric] deref Ptr_def ty unreadable_def n_def Let_def)
qed

lemma writeQueueEntry_no_room_mapped:
  assumes "ob_wf b" "unwrapped e" "\<not> room e b" "unat (qe_Len e) \<le> ob_cap b"
    and "Dereference mem (qe_Addr e) (unat (qe_Len e)) = Some bs"
  shows "writeQueueEntry mem e b =
    Inr ((0, True), b\<lparr>ob_isFull := True, ob_arr := blit (ob_arr b) 0 bs\<rparr>)"
  using assms Dereference_length [OF assms(5)] unat_ob_cap32 [OF assms(1)]
  by (simp add: writeQueueEntry_def reserveQueueEntry_no_room ob_Dereference_def word_less_nat_alt
      ob_cap32_def ob_cap_def ob_store_def Ptr_def)

lemma writeQueueEntry_no_room_unmapped:
  assumes "ob_wf b" "unwrapped e" "\<not> room e b" "unat (qe_Len e) \<le> ob_cap b"
    and "Dereference mem (qe_Addr e) (unat (qe_Len e)) = None"
  shows "writeQueueEntry mem e b = Inl WildAccess"
proof -
  define b1 where "b1 = b\<lparr>ob_isFull := True\<rparr>"
  have b1: "ob_wf b1" "ob_cap b1 = ob_cap b" using assms(1) by (simp_all add: b1_def ob_wf_def)
  have "\<not> qe_Len e > ob_cap32 b1" using b1 assms(4) by (simp add: word_less_nat_alt)
  then obtain b2 where b2: "Zero 0 (qe_Len e) b1 = Inr b2"
    using b1 assms(4) by (simp add: Zero_def)
  have "ob_rel b1 b2" using okE_D [OF Zero_ok [OF b1(1)] b2] by simp
  then have "ob_cap b2 \<le> 2 ^ 31" using b1 assms(1) by (simp add: ob_rel_def ob_wf_def)
  then have "ob_load32 (Ptr (0 - 16)) b2 = Inl WildAccess"
    by (simp add: ob_load32_def ob_load_def Ptr_def)
  then show ?thesis
    using \<open>\<not> qe_Len e > ob_cap32 b1\<close> assms(5) b2
    by (simp add: writeQueueEntry_def reserveQueueEntry_no_room [OF assms(1-3)] b1_def [symmetric]
        ob_Dereference_def Let_def)
qed

subsection \<open>Frames\<close>

definition frame_len :: "u32 \<Rightarrow> nat" where
  "frame_len dataLen = 8 + 16 + unat (padded dataLen) + 8"

definition frame_written :: "u32 \<Rightarrow> u32 \<Rightarrow> u32 \<Rightarrow> u32 \<Rightarrow> outBuf \<Rightarrow> outBuf" where
  "frame_written typeID progID dataLen depth b =
     (let p = ob_len b; n = unat dataLen;
          a1 = blit (ob_arr b) p (FrameHeader_bytes \<lparr>fh_DataByteLen = of_nat (p + 8)\<rparr>);
          a2 = blit a1 (p + 8) (QueueEntry_bytes \<lparr>qe_Type = typeID, qe_Len = dataLen + 8, qe_Addr = 0\<rparr>);
          a3 = blit a2 (p + 24 + n) (le_bytes 4 progID);
          a4 = blit a3 (p + 28 + n) (le_bytes 4 depth)
      in b\<lparr>ob_arr := a4, ob_len := p + frame_len dataLen\<rparr>)"

lemma padded_ge: "unat n \<le> 2 ^ 30 \<Longrightarrow> unat n \<le> unat (padded n)"
  using unat_padded [of n] by simp

lemma PrepareFrameData_room:
  assumes "ob_wf b" "unat dataLen \<le> 2 ^ 30" "ob_len b + frame_len dataLen \<le> ob_cap b"
  shows "PrepareFrameData typeID progID dataLen depth b =
    Inr ((Some (ob_len b), of_nat (ob_len b + 24), True), frame_written typeID progID dataLen depth b)"
proof -
  have fit: "ob_len b + 32 + unat dataLen \<le> length (ob_arr b)"
    using assms padded_ge [OF assms(2)] by (simp add: frame_len_def ob_cap_def)
  have lim: "ob_len b + 32 + unat dataLen < 2 ^ 32"
    using fit assms(1) by (simp add: ob_wf_def ob_cap_def)
  have L: "Len b = of_nat (ob_len b)" by (simp add: Len_def)
  have u: "unat (of_nat (ob_len b) :: u32) = ob_len b"
    "unat (8 + of_nat (ob_len b) :: u32) = ob_len b + 8"
    "unat (of_nat (ob_len b) + 8 :: u32) = ob_len b + 8"
    "unat (24 + of_nat (ob_len b) + dataLen :: u32) = ob_len b + 24 + unat dataLen"
    "unat (28 + (of_nat (ob_len b) + dataLen) :: u32) = ob_len b + 28 + unat dataLen"
    using lim by (simp_all add: unat_of_nat_u32 unat_add_u32 del: unat_of_nat)
  show ?thesis
    using fit assms(3) u
    by (simp add: PrepareFrameData_def Let_def L ob_store_def ob_store32_def Ptr_def ob_cap_def
        frame_written_def frame_len_def)
qed

lemma frame_written_parts:
  fixes b :: outBuf and typeID progID dataLen depth :: u32
  assumes "ob_wf b" "unat dataLen \<le> 2 ^ 30" "ob_len b + frame_len dataLen \<le> ob_cap b"
  defines "p \<equiv> ob_len b" and "n \<equiv> unat dataLen" and "b1 \<equiv> frame_written typeID progID dataLen depth b"
  shows "FrameHeader_of (sub (ob_arr b1) p 8) = \<lparr>fh_DataByteLen = of_nat (p + 8)\<rparr>"
    and "QueueEntry_of (sub (ob_arr b1) (p + 8) 16) = \<lparr>qe_Type = typeID, qe_Len = dataLen + 8, qe_Addr = 0\<rparr>"
    and "le_word (sub (ob_arr b1) (p + 24 + n) 4) = progID"
    and "le_word (sub (ob_arr b1) (p + 28 + n) 4) = depth"
    and "take p (ob_arr b1) = ob_data b"
    and "ob_len b1 = p + frame_len dataLen" "ob_cap b1 = ob_cap b" "p + 32 + n \<le> ob_cap b"
proof -
  have fit: "p + 32 + n \<le> length (ob_arr b)"
    using assms(1-3) padded_ge [OF assms(2)] by (simp add: frame_len_def ob_cap_def p_def n_def)
  have arr: "b1 = b\<lparr>ob_arr := blit (blit (blit (blit (ob_arr b) p
        (FrameHeader_bytes \<lparr>fh_DataByteLen = of_nat (p + 8)\<rparr>)) (p + 8)
        (QueueEntry_bytes \<lparr>qe_Type = typeID, qe_Len = dataLen + 8, qe_Addr = 0\<rparr>)) (p + 24 + n)
        (le_bytes 4 progID)) (p + 28 + n) (le_bytes 4 depth), ob_len := p + frame_len dataLen\<rparr>"
    by (simp add: b1_def frame_written_def Let_def p_def n_def)
  show "FrameHeader_of (sub (ob_arr b1) p 8) = \<lparr>fh_DataByteLen = of_nat (p + 8)\<rparr>"
    using fit FH.read_back [of p "ob_arr b"] by (simp add: arr sub_blit_other)
  show "QueueEntry_of (sub (ob_arr b1) (p + 8) 16) = \<lparr>qe_Type = typeID, qe_Len = dataLen + 8, qe_Addr = 0\<rparr>"
    using fit QE.read_back [of "p + 8" "blit (ob_arr b) p (FrameHeader_bytes \<lparr>fh_DataByteLen = of_nat (p + 8)\<rparr>)"]
    by (simp add: arr sub_blit_other)
  show "le_word (sub (ob_arr b1) (p + 24 + n) 4) = progID" "le_word (sub (ob_arr b1) (p + 28 + n) 4) = depth"
    using fit by (simp_all add: arr sub_blit_other U32.read_back)
  show "take p (ob_arr b1) = ob_data b"
    using fit by (simp add: arr take_blit ob_data_def p_def)
  show "ob_len b1 = p + frame_len dataLen" "ob_cap b1 = ob_cap b" "p + 32 + n \<le> ob_cap b"
    using fit by (simp_all add: arr ob_cap_def)
qed

lemma ConcludeFrameData_len:
  assumes "ob_wf b" "p + 8 \<le> ob_len b" "FrameHeader_of (sub (ob_arr b) p 8) = \<lparr>fh_DataByteLen = of_nat (p + 8)\<rparr>"
  obtains b' where "ConcludeFrameData (Some p) b = Inr b'"
    "FrameHeader_of (sub (ob_arr b') p 8) = \<lparr>fh_DataByteLen = of_nat (ob_len b - (p + 8))\<rparr>"
    "ob_len b' = ob_len b"
    "\<And>q n. q + n \<le> ob_cap b \<Longrightarrow> q + n \<le> p \<or> p + 8 \<le> q \<Longrightarrow> sub (ob_arr b') q n = sub (ob_arr b) q n"
proof -
  have fit: "p + 8 \<le> length (ob_arr b)" using assms by (simp add: ob_wf_def ob_cap_def)
  have ss: "sub (sub (ob_arr b) p 8) 0 4 = sub (ob_arr b) p 4"
    using fit by (intro nth_equalityI) (auto simp: nth_sub)
  have start: "le_word (sub (ob_arr b) p 4) = (of_nat (p + 8) :: u32)"
    using assms(3) by (simp add: FrameHeader_of_def ss)
  define w where "w = (of_nat (ob_len b - (p + 8)) :: u32)"
  have w: "Len b - of_nat (p + 8) = w"
    using assms(2) by (simp add: Len_def w_def)
  define b' where "b' = b\<lparr>ob_arr := blit (ob_arr b) p (le_bytes 4 w)\<rparr>"
  have ss': "sub (sub (ob_arr b') p 8) 0 4 = sub (ob_arr b') p 4"
    using fit by (intro nth_equalityI) (auto simp: nth_sub b'_def)
  have "ConcludeFrameData (Some p) b = Inr b'"
    using fit w by (simp add: ConcludeFrameData_def ob_load32_def ob_load_def ob_store32_def
        ob_store_def ob_cap_def start b'_def)
  moreover have "FrameHeader_of (sub (ob_arr b') p 8) = \<lparr>fh_DataByteLen = w\<rparr>"
    unfolding FrameHeader_of_def ss' using fit by (simp add: b'_def U32.read_back)
  moreover have "sub (ob_arr b') q n = sub (ob_arr b) q n"
    if "q + n \<le> ob_cap b" "q + n \<le> p \<or> p + 8 \<le> q" for q n
    using that fit unfolding b'_def by (auto simp: ob_cap_def intro: U32.read_other)
  ultimately show ?thesis using that by (simp add: w_def b'_def)
qed

subsection \<open>Properties\<close>

text \<open>
  C13. When there is room and the memory can be read, \<open>writeQueueEntry\<close> returns true with the data
  offset; the buffer grows by the 16-byte header and the data padded to 8, the header decodes to the
  entry, the data is the bytes of memory at the entry's address, and nothing written before changes.
\<close>

theorem writeQueueEntry_copies_memory:
  assumes "ob_wf b" "unwrapped e" "room e b"
    and "Dereference mem (qe_Addr e) (unat (qe_Len e)) = Some bs"
  shows "\<exists>b'. writeQueueEntry mem e b = Inr ((of_nat (ob_len b + 16), True), b') \<and>
    entry_at b' (ob_len b) e bs \<and> take (ob_len b) (ob_arr b') = ob_data b \<and>
    ob_len b' = ob_len b + entry_len e \<and> 8 dvd entry_len e \<and> ob_isFull b' = ob_isFull b"
  using writeQueueEntry_mapped [OF assms] written_entry_at [OF assms(2,3) Dereference_length [OF assms(4)]]
    entry_len_bounds(3) [OF assms(2)]
  by (intro exI [of _ "written e bs b"]) (simp add: Len_def ob_data_def written_def)

definition example_buf :: outBuf where
  "example_buf = \<lparr>ob_arr = replicate 64 7, ob_len = 8, ob_isFull = False\<rparr>"

definition example_entry :: QueueEntry where
  "example_entry = \<lparr>qe_Type = 5, qe_Len = 3, qe_Addr = 4096\<rparr>"

definition example_mem :: memory where
  "example_mem a = (if 4096 \<le> a \<and> a < 8192 then Some (ucast a + 1) else None)"

lemma example_len: "unat (qe_Len example_entry) = 3"
  by (simp add: example_entry_def)

lemma example_unmapped: "Dereference (\<lambda>_. None) (qe_Addr example_entry) (unat (qe_Len example_entry)) = None"
  unfolding example_len by (simp add: Dereference_def numeral_3_eq_3)

lemma example_mapped:
  "Dereference example_mem (qe_Addr example_entry) (unat (qe_Len example_entry)) = Some [1, 2, 3]"
  unfolding example_len by (simp add: Dereference_def example_entry_def example_mem_def numeral_3_eq_3)

lemma example_ok:
  "ob_wf example_buf" "unwrapped example_entry" "room example_entry example_buf"
  by (simp_all add: ob_wf_def example_buf_def ob_cap_def unwrapped_def example_entry_def room_def
      entry_len_def padded_def Let_def)

theorem writeQueueEntry_copies_memory_witness:
  "\<exists>b'. writeQueueEntry example_mem example_entry example_buf = Inr ((24, True), b') \<and>
    entry_at b' 8 example_entry [1, 2, 3] \<and> ob_len b' = 32"
proof -
  have "ob_len example_buf = 8" "entry_len example_entry = 24"
    by (simp_all add: example_buf_def entry_len_def example_entry_def padded_def)
  with writeQueueEntry_copies_memory [OF example_ok example_mapped] show ?thesis by auto
qed

text \<open>
  When there is room but the memory cannot be read, \<open>writeQueueEntry\<close> returns false, yet the
  buffer is not unmodified, as its comment says: it has grown by the whole entry, whose header has the
  top bit of the type set and whose data is zero. Consumers of the format see it as a failed read.
\<close>

theorem writeQueueEntry_marks_unreadable:
  assumes "ob_wf b" "unwrapped e" "room e b"
    and "Dereference mem (qe_Addr e) (unat (qe_Len e)) = None"
  shows "\<exists>b'. writeQueueEntry mem e b = Inr ((0, False), b') \<and>
    entry_at b' (ob_len b) (e\<lparr>qe_Type := qe_Type e OR push_bit 31 1\<rparr>) (replicate (unat (qe_Len e)) 0) \<and>
    take (ob_len b) (ob_arr b') = ob_data b \<and>
    ob_len b' = ob_len b + entry_len e \<and> ob_len b < ob_len b'"
proof -
  have u: "unwrapped (unreadable e)" "room (unreadable e) b" "entry_len (unreadable e) = entry_len e"
    using assms by (simp_all add: unreadable_def unwrapped_def room_def entry_len_def)
  have l: "length (replicate (unat (qe_Len e)) (0 :: u8)) = unat (qe_Len (unreadable e))"
    by (simp add: unreadable_def)
  show ?thesis
    using writeQueueEntry_unmapped [OF assms] written_entry_at [OF u(1,2) l] u(3)
      entry_len_bounds(1) [OF assms(2)]
    by (intro exI [of _ "written (unreadable e) (replicate (unat (qe_Len e)) 0) b"])
       (simp add: written_def ob_data_def unreadable_def)
qed

theorem writeQueueEntry_marks_unreadable_witness:
  "\<exists>b'. writeQueueEntry (\<lambda>_. None) example_entry example_buf = Inr ((0, False), b') \<and>
    entry_at b' 8 (example_entry\<lparr>qe_Type := 0x80000005\<rparr>) [0, 0, 0] \<and> ob_len b' = 32"
proof -
  have "ob_len example_buf = 8" "entry_len example_entry = 24" "unat (qe_Len example_entry) = 3"
    "qe_Type example_entry OR push_bit 31 1 = 0x80000005"
    by (simp_all add: example_buf_def entry_len_def example_entry_def padded_def)
  with writeQueueEntry_marks_unreadable [OF example_ok example_unmapped] show ?thesis
    by (auto simp: numeral_3_eq_3)
qed

text \<open>
  When there is no room, \<open>writeQueueEntry\<close> does not return false. If the memory can be read, it
  returns true with offset 0 and has overwritten the start of the buffer, where the snapshot header
  stands, with the data of the entry.
\<close>

theorem writeQueueEntry_full_overwrites_start:
  assumes "ob_wf b" "unwrapped e" "\<not> room e b" "unat (qe_Len e) \<le> ob_cap b"
    and "Dereference mem (qe_Addr e) (unat (qe_Len e)) = Some bs"
  shows "\<exists>b'. writeQueueEntry mem e b = Inr ((0, True), b') \<and>
    sub (ob_arr b') 0 (length bs) = bs \<and> ob_len b' = ob_len b \<and> ob_isFull b'"
  using writeQueueEntry_no_room_mapped [OF assms] assms(4) Dereference_length [OF assms(5)]
    sub_blit_same [of 0 bs "ob_arr b"]
  by (simp add: ob_cap_def)

theorem writeQueueEntry_full_overwrites_start_witness:
  "\<exists>b'. writeQueueEntry example_mem example_entry (example_buf\<lparr>ob_len := 60\<rparr>) = Inr ((0, True), b') \<and>
    sub (ob_arr b') 0 3 = [1, 2, 3] \<and> sub (ob_arr example_buf) 0 3 = [7, 7, 7]"
proof -
  have h: "ob_wf (example_buf\<lparr>ob_len := 60\<rparr>)" "\<not> room example_entry (example_buf\<lparr>ob_len := 60\<rparr>)"
    "unat (qe_Len example_entry) \<le> ob_cap (example_buf\<lparr>ob_len := 60\<rparr>)"
    by (simp_all add: ob_wf_def example_buf_def ob_cap_def room_def entry_len_def example_entry_def
        padded_def)
  have "sub (ob_arr example_buf) 0 3 = [7, 7, 7]"
    by (simp add: example_buf_def sub_def numeral_3_eq_3)
  with writeQueueEntry_full_overwrites_start [OF h(1) example_ok(2) h(2,3) example_mapped]
  show ?thesis by (auto simp: numeral_3_eq_3)
qed

text \<open>
  When there is no room and the memory cannot be read, \<open>writeQueueEntry\<close> marks the header of an
  entry it has not reserved, 16 bytes before offset 0: a store about 4 GiB past the buffer.
\<close>

theorem writeQueueEntry_full_unreadable_wild_store:
  assumes "ob_wf b" "unwrapped e" "\<not> room e b" "unat (qe_Len e) \<le> ob_cap b"
    and "Dereference mem (qe_Addr e) (unat (qe_Len e)) = None"
  shows "writeQueueEntry mem e b = Inl WildAccess"
  using assms by (rule writeQueueEntry_no_room_unmapped)

theorem writeQueueEntry_full_unreadable_wild_store_witness:
  "writeQueueEntry (\<lambda>_. None) example_entry (example_buf\<lparr>ob_len := 60\<rparr>) = Inl WildAccess"
proof -
  have h: "ob_wf (example_buf\<lparr>ob_len := 60\<rparr>)" "\<not> room example_entry (example_buf\<lparr>ob_len := 60\<rparr>)"
    "unat (qe_Len example_entry) \<le> ob_cap (example_buf\<lparr>ob_len := 60\<rparr>)"
    by (simp_all add: ob_wf_def example_buf_def ob_cap_def room_def entry_len_def example_entry_def
        padded_def)
  show ?thesis
    by (rule writeQueueEntry_full_unreadable_wild_store [OF h(1) example_ok(2) h(2,3) example_unmapped])
qed

text \<open>
  A frame: when there is room, \<open>PrepareFrameData\<close> lays out the frame header, an entry header for
  the frame's type with length \<open>dataLen + 8\<close>, the data area it returns the offset of, and the program
  ID and depth behind it; \<open>ConcludeFrameData\<close>, run on any later buffer that has kept that header, sets
  the frame's length to the number of bytes that follow the frame header.
\<close>

theorem frame_layout:
  assumes "ob_wf b" "unat dataLen \<le> 2 ^ 30" "ob_len b + frame_len dataLen \<le> ob_cap b"
  shows "\<exists>b1. PrepareFrameData typeID progID dataLen depth b =
      Inr ((Some (ob_len b), of_nat (ob_len b + 24), True), b1) \<and>
    ob_data b = take (ob_len b) (ob_arr b1) \<and>
    QueueEntry_of (sub (ob_arr b1) (ob_len b + 8) 16) = \<lparr>qe_Type = typeID, qe_Len = dataLen + 8, qe_Addr = 0\<rparr> \<and>
    le_word (sub (ob_arr b1) (ob_len b + 24 + unat dataLen) 4) = progID \<and>
    le_word (sub (ob_arr b1) (ob_len b + 28 + unat dataLen) 4) = depth \<and>
    (\<forall>b2. ob_rel b1 b2 \<and> ob_len b + 8 \<le> ob_len b2 \<and>
       sub (ob_arr b2) (ob_len b) 8 = sub (ob_arr b1) (ob_len b) 8 \<longrightarrow>
       (\<exists>b3. ConcludeFrameData (Some (ob_len b)) b2 = Inr b3 \<and> ob_len b3 = ob_len b2 \<and>
         FrameHeader_of (sub (ob_arr b3) (ob_len b) 8) = \<lparr>fh_DataByteLen = of_nat (ob_len b2 - (ob_len b + 8))\<rparr>))"
proof -
  define p n where "p = ob_len b" and "n = unat dataLen"
  define b1 where "b1 = frame_written typeID progID dataLen depth b"
  note defs = p_def [symmetric] n_def [symmetric] b1_def [symmetric]
  note parts = frame_written_parts [OF assms]
  note fh = parts(1) [of typeID progID depth, unfolded defs]
    and qe = parts(2) [of typeID progID depth, unfolded defs]
    and pd = parts(3,4) [of typeID progID depth, unfolded defs]
    and pre = parts(5) [of typeID progID depth, unfolded defs]
  have conc: "\<exists>b3. ConcludeFrameData (Some p) b2 = Inr b3 \<and> ob_len b3 = ob_len b2 \<and>
      FrameHeader_of (sub (ob_arr b3) p 8) = \<lparr>fh_DataByteLen = of_nat (ob_len b2 - (p + 8))\<rparr>"
    if "ob_rel b1 b2" "p + 8 \<le> ob_len b2" "sub (ob_arr b2) p 8 = sub (ob_arr b1) p 8" for b2
    using ConcludeFrameData_len [OF ob_rel_wf [OF that(1)] that(2)] fh that(3) by metis
  show ?thesis
    using PrepareFrameData_room [OF assms, of typeID progID depth] qe pd pre conc
    by (intro exI [of _ b1]) (simp add: b1_def [symmetric] p_def [symmetric] n_def [symmetric])
qed

theorem frame_layout_witness:
  "\<exists>b1 b3. PrepareFrameData 9 2 4 0 example_buf = Inr ((Some 8, 32, True), b1) \<and>
     ConcludeFrameData (Some 8) b1 = Inr b3 \<and>
     FrameHeader_of (sub (ob_arr b3) 8 8) = \<lparr>fh_DataByteLen = 32\<rparr>"
proof -
  have h: "ob_wf example_buf" "unat (4 :: u32) \<le> 2 ^ 30" "ob_len example_buf + frame_len 4 \<le> ob_cap example_buf"
    by (simp_all add: ob_wf_def example_buf_def ob_cap_def frame_len_def padded_def)
  have l: "ob_len example_buf = 8" by (simp add: example_buf_def)
  from frame_layout [OF h, of 9 2 0] obtain b1 where
    b1: "PrepareFrameData 9 2 4 0 example_buf = Inr ((Some 8, 32, True), b1)"
    and conc: "\<forall>b2. ob_rel b1 b2 \<and> 16 \<le> ob_len b2 \<and> sub (ob_arr b2) 8 8 = sub (ob_arr b1) 8 8 \<longrightarrow>
       (\<exists>b3. ConcludeFrameData (Some 8) b2 = Inr b3 \<and> ob_len b3 = ob_len b2 \<and>
         FrameHeader_of (sub (ob_arr b3) 8 8) = \<lparr>fh_DataByteLen = of_nat (ob_len b2 - 16)\<rparr>)"
    unfolding l by auto
  have len: "ob_len b1 = 48" "ob_wf b1"
    using PrepareFrameData_room [OF h, of 9 2 0] b1 okE_D [OF PrepareFrameData_ok [OF h(1)] b1]
    by (auto simp: l frame_written_def Let_def frame_len_def padded_def dest: ob_rel_wf)
  with conc [rule_format, of b1] b1 show ?thesis by auto
qed

end
