(* ===== verification/Snap_Queue.thy ===== *)
theory Snap_Queue
  imports Framing Fifo
begin

text \<open>
  The work queue of a snapshot (\<open>internal/snapshot/queue.go\<close>): the objects still to be captured. It is
  a FIFO of queue entries with the set of all (address, type) pairs that were ever recorded, so that
  every object is captured once. \<open>seen\<close> is a Go map used as a set.

  The locale \<open>dedup_queue\<close> states what the traversal relies on; it is interpreted on the code's queue,
  whose FIFO part is the contract \<open>fifo\<close> of the theory Fifo.
\<close>

subsection \<open>The queue\<close>

record queueEntryKey =
  k_addr :: u64
  k_t :: u32

record queue =
  qu_seen :: "queueEntryKey set"
  qu_q :: "QueueEntry Queue"

definition makeQueue :: queue where
  "makeQueue = \<lparr>qu_seen = {}, qu_q = MakeQueue\<rparr>"

definition queue_Len :: "queue \<Rightarrow> int" where
  "queue_Len q = Queue_Len (qu_q q)"

definition queue_Pop :: "queue \<Rightarrow> (QueueEntry option \<times> queue) res" where
  "queue_Pop q =
     (if queue_Len q = 0 then Inr (None, q)
      else
        bindE (Queue_PeekFront (qu_q q)) (\<lambda>p.
        bindE (ofOption NilDeref p) (\<lambda>r.
        bindE (Queue_PopFront zero_QueueEntry (qu_q q)) (\<lambda>q1.
        Inr (Some r, q\<lparr>qu_q := q1\<rparr>)))))"

definition ShouldRecord :: "u64 \<Rightarrow> u32 \<Rightarrow> queue \<Rightarrow> bool \<times> queue" where
  "ShouldRecord addr t q =
     (if addr = 0 then (False, q)
      else if \<lparr>k_addr = addr, k_t = t\<rparr> \<in> qu_seen q then (False, q)
      else (True, q\<lparr>qu_seen := insert \<lparr>k_addr = addr, k_t = t\<rparr> (qu_seen q)\<rparr>))"

definition queue_Push :: "u64 \<Rightarrow> u32 \<Rightarrow> u32 \<Rightarrow> queue \<Rightarrow> (bool \<times> queue) res" where
  "queue_Push addr t dataLen q =
     (let (should, q1) = ShouldRecord addr t q in
      if should then
        bindE (Queue_push zero_QueueEntry \<lparr>qe_Type = t, qe_Len = dataLen, qe_Addr = addr\<rparr> (qu_q q1)) (\<lambda>q2.
        Inr (True, q1\<lparr>qu_q := q2\<rparr>))
      else Inr (True, q1))"

subsection \<open>Contents and invariant\<close>

definition key_of :: "QueueEntry \<Rightarrow> queueEntryKey" where
  "key_of e = \<lparr>k_addr = qe_Addr e, k_t = qe_Type e\<rparr>"

definition queue_list :: "queue \<Rightarrow> QueueEntry list" where
  "queue_list q = Queue_list (qu_q q)"

definition queue_wf :: "queue \<Rightarrow> bool" where
  "queue_wf q \<longleftrightarrow> Queue_inv (qu_q q) \<and> distinct (map key_of (queue_list q)) \<and>
     key_of ` set (queue_list q) \<subseteq> qu_seen q \<and> (\<forall>k \<in> qu_seen q. k_addr k \<noteq> 0)"

lemma key_of_simps [simp]:
  "key_of \<lparr>qe_Type = t, qe_Len = n, qe_Addr = a\<rparr> = \<lparr>k_addr = a, k_t = t\<rparr>"
  by (simp add: key_of_def)

lemma queue_wf_make: "queue_wf makeQueue"
  by (simp add: queue_wf_def makeQueue_def queue_list_def RQ.inv_empty RQ.list_empty)

lemma queue_list_make: "queue_list makeQueue = []"
  by (simp add: makeQueue_def queue_list_def RQ.list_empty)

lemma qu_seen_make: "qu_seen makeQueue = {}"
  by (simp add: makeQueue_def)

lemma queue_Push_seen:
  "a = 0 \<or> \<lparr>k_addr = a, k_t = t\<rparr> \<in> qu_seen q \<Longrightarrow> queue_Push a t n q = Inr (True, q)"
  by (auto simp: queue_Push_def ShouldRecord_def)

lemma queue_Push_new:
  assumes "queue_wf q" "a \<noteq> 0" "\<lparr>k_addr = a, k_t = t\<rparr> \<notin> qu_seen q"
  obtains q' where "queue_Push a t n q = Inr (True, q')" "queue_wf q'"
    "queue_list q' = queue_list q @ [\<lparr>qe_Type = t, qe_Len = n, qe_Addr = a\<rparr>]"
    "qu_seen q' = insert \<lparr>k_addr = a, k_t = t\<rparr> (qu_seen q)"
proof -
  have "Queue_inv (qu_q q)" using assms(1) by (simp add: queue_wf_def)
  from RQ.push_ok [OF this, of zero_QueueEntry "\<lparr>qe_Type = t, qe_Len = n, qe_Addr = a\<rparr>"]
  obtain fq where fq: "Queue_push zero_QueueEntry \<lparr>qe_Type = t, qe_Len = n, qe_Addr = a\<rparr> (qu_q q) = Inr fq"
    "Queue_inv fq" "Queue_list fq = Queue_list (qu_q q) @ [\<lparr>qe_Type = t, qe_Len = n, qe_Addr = a\<rparr>]"
    by blast
  define q' where "q' = q\<lparr>qu_seen := insert \<lparr>k_addr = a, k_t = t\<rparr> (qu_seen q), qu_q := fq\<rparr>"
  have "queue_Push a t n q = Inr (True, q')"
    using assms fq by (simp add: queue_Push_def ShouldRecord_def q'_def)
  moreover have "queue_wf q'"
    using assms fq by (auto simp: queue_wf_def queue_list_def q'_def)
  ultimately show ?thesis
    using fq(3) by (intro that) (auto simp: q'_def queue_list_def)
qed

lemma queue_Pop_empty: "queue_wf q \<Longrightarrow> queue_list q = [] \<Longrightarrow> queue_Pop q = Inr (None, q)"
  by (simp add: queue_Pop_def queue_Len_def queue_wf_def queue_list_def RQ.len_0_iff)

lemma queue_Pop_front:
  assumes "queue_wf q" "queue_list q = e # es"
  obtains q' where "queue_Pop q = Inr (Some e, q')" "queue_wf q'" "queue_list q' = es"
    "qu_seen q' = qu_seen q"
proof -
  have inv: "Queue_inv (qu_q q)" using assms(1) by (simp add: queue_wf_def)
  have list: "Queue_list (qu_q q) = e # es" using assms(2) by (simp add: queue_list_def)
  from RQ.pop_ok [OF inv list, of zero_QueueEntry] obtain fq where
    fq: "Queue_PopFront zero_QueueEntry (qu_q q) = Inr fq" "Queue_inv fq" "Queue_list fq = es" by blast
  have "queue_Pop q = Inr (Some e, q\<lparr>qu_q := fq\<rparr>)"
    using fq inv list by (simp add: queue_Pop_def queue_Len_def RQ.len_0_iff RQ.peek_spec)
  moreover have "queue_wf (q\<lparr>qu_q := fq\<rparr>)"
    using assms fq by (auto simp: queue_wf_def queue_list_def)
  ultimately show ?thesis
    using fq(3) that [of "q\<lparr>qu_q := fq\<rparr>"] by (simp add: queue_list_def)
qed

subsection \<open>The contract of the work queue\<close>

datatype wl_op = WPush u64 u32 u32 | WPop

fun wl_run ::
  "(u64 \<Rightarrow> u32 \<Rightarrow> u32 \<Rightarrow> 'q \<Rightarrow> (bool \<times> 'q) res) \<Rightarrow> ('q \<Rightarrow> (QueueEntry option \<times> 'q) res) \<Rightarrow>
   wl_op list \<Rightarrow> 'q \<Rightarrow> (QueueEntry list \<times> 'q) res" where
  "wl_run push pop [] q = Inr ([], q)"
| "wl_run push pop (WPush a t n # ops) q =
     bindE (push a t n q) (\<lambda>(_, q1). wl_run push pop ops q1)"
| "wl_run push pop (WPop # ops) q =
     bindE (pop q) (\<lambda>(r, q1).
     bindE (wl_run push pop ops q1) (\<lambda>(rs, q2).
     Inr ((case r of None \<Rightarrow> rs | Some e \<Rightarrow> e # rs), q2)))"

fun requested :: "wl_op list \<Rightarrow> queueEntryKey set" where
  "requested [] = {}"
| "requested (WPush a t n # ops) =
     (if a = 0 then requested ops else insert \<lparr>k_addr = a, k_t = t\<rparr> (requested ops))"
| "requested (WPop # ops) = requested ops"

locale dedup_queue =
  fixes push :: "u64 \<Rightarrow> u32 \<Rightarrow> u32 \<Rightarrow> 'q \<Rightarrow> (bool \<times> 'q) res"
    and pop :: "'q \<Rightarrow> (QueueEntry option \<times> 'q) res"
    and list :: "'q \<Rightarrow> QueueEntry list"
    and seen :: "'q \<Rightarrow> queueEntryKey set"
    and inv :: "'q \<Rightarrow> bool"
  assumes inv_distinct: "inv q \<Longrightarrow> distinct (map key_of (list q))"
    and inv_seen: "inv q \<Longrightarrow> key_of ` set (list q) \<subseteq> seen q"
    and push_old: "inv q \<Longrightarrow> a = 0 \<or> \<lparr>k_addr = a, k_t = t\<rparr> \<in> seen q \<Longrightarrow> push a t n q = Inr (True, q)"
    and push_new: "inv q \<Longrightarrow> a \<noteq> 0 \<Longrightarrow> \<lparr>k_addr = a, k_t = t\<rparr> \<notin> seen q \<Longrightarrow>
      \<exists>q'. push a t n q = Inr (True, q') \<and> inv q' \<and>
        list q' = list q @ [\<lparr>qe_Type = t, qe_Len = n, qe_Addr = a\<rparr>] \<and>
        seen q' = insert \<lparr>k_addr = a, k_t = t\<rparr> (seen q)"
    and pop_nil: "inv q \<Longrightarrow> list q = [] \<Longrightarrow> pop q = Inr (None, q)"
    and pop_cons: "inv q \<Longrightarrow> list q = e # es \<Longrightarrow>
      \<exists>q'. pop q = Inr (Some e, q') \<and> inv q' \<and> list q' = es \<and> seen q' = seen q"
begin

lemma push_total:
  assumes "inv q"
  obtains q' where "push a t n q = Inr (True, q')" "inv q'" "seen q \<subseteq> seen q'"
    "\<exists>new. list q' = list q @ new \<and> key_of ` set new = seen q' - seen q \<and> length new \<le> 1"
    "seen q' = (if a = 0 then seen q else insert \<lparr>k_addr = a, k_t = t\<rparr> (seen q))"
proof (cases "a = 0 \<or> \<lparr>k_addr = a, k_t = t\<rparr> \<in> seen q")
  case True
  have seen: "seen q = (if a = 0 then seen q else insert \<lparr>k_addr = a, k_t = t\<rparr> (seen q))"
    using True by (auto simp: insert_absorb)
  have new: "\<exists>new. list q = list q @ new \<and> key_of ` set new = seen q - seen q \<and> length new \<le> 1"
    by (rule exI [of _ "[]"]) simp
  show ?thesis by (rule that [OF push_old [OF assms True] assms subset_refl new seen])
next
  case False
  with push_new [OF assms] obtain q' where "push a t n q = Inr (True, q')" "inv q'"
    "list q' = list q @ [\<lparr>qe_Type = t, qe_Len = n, qe_Addr = a\<rparr>]"
    "seen q' = insert \<lparr>k_addr = a, k_t = t\<rparr> (seen q)" by blast
  with False show ?thesis by (intro that [of q']) auto
qed

text \<open>
  Whatever is pushed and popped, no key is handed out twice, and the keys handed out or still queued
  are those queued at the start and those requested and not seen before.
\<close>

lemma run_spec:
  "inv q \<Longrightarrow> \<exists>rs q'. wl_run push pop ops q = Inr (rs, q') \<and> inv q' \<and>
     distinct (map key_of (rs @ list q')) \<and>
     key_of ` set (rs @ list q') = key_of ` set (list q) \<union> (requested ops - seen q) \<and>
     seen q' = seen q \<union> requested ops"
proof (induction ops arbitrary: q)
  case Nil
  then show ?case by (simp add: inv_distinct)
next
  case (Cons op ops)
  show ?case
  proof (cases op)
    case (WPush a t n)
    from push_total [OF Cons.prems, of a t n] obtain q1 new where
      q1: "push a t n q = Inr (True, q1)" "inv q1" "seen q \<subseteq> seen q1"
        "list q1 = list q @ new" "key_of ` set new = seen q1 - seen q"
        "seen q1 = (if a = 0 then seen q else insert \<lparr>k_addr = a, k_t = t\<rparr> (seen q))" by metis
    from Cons.IH [OF q1(2)] obtain rs q' where
      ih: "wl_run push pop ops q1 = Inr (rs, q')" "inv q'" "distinct (map key_of (rs @ list q'))"
        "key_of ` set (rs @ list q') = key_of ` set (list q1) \<union> (requested ops - seen q1)"
        "seen q' = seen q1 \<union> requested ops" by blast
    have req: "requested (op # ops) \<union> seen q = requested ops \<union> seen q1" using q1(6) WPush by auto
    have q1_keys: "key_of ` set (list q1) = key_of ` set (list q) \<union> (seen q1 - seen q)"
      by (simp add: q1(4) image_Un q1(5))
    have "requested (op # ops) - seen q = (seen q1 - seen q) \<union> (requested ops - seen q1)"
      using req q1(3) by blast
    then have "key_of ` set (rs @ list q') = key_of ` set (list q) \<union> (requested (op # ops) - seen q)"
      unfolding ih(4) q1_keys by (simp add: Un_assoc)
    moreover have "wl_run push pop (op # ops) q = Inr (rs, q')" using q1(1) ih(1) WPush by simp
    moreover have "seen q' = seen q \<union> requested (op # ops)" using ih(5) req by blast
    ultimately show ?thesis using ih(2,3) by blast
  next
    case WPop
    show ?thesis
    proof (cases "list q")
      case Nil
      with pop_nil [OF Cons.prems] Cons.IH [OF Cons.prems] show ?thesis by (auto simp: WPop)
    next
      case (Cons e es)
      with pop_cons [OF Cons.prems] obtain q1 where
        q1: "pop q = Inr (Some e, q1)" "inv q1" "list q1 = es" "seen q1 = seen q" by blast
      from Cons.IH [OF q1(2)] obtain rs q' where
        ih: "wl_run push pop ops q1 = Inr (rs, q')" "inv q'" "distinct (map key_of (rs @ list q'))"
          "key_of ` set (rs @ list q') = key_of ` set es \<union> (requested ops - seen q)"
          "seen q' = seen q \<union> requested ops" unfolding q1 by blast
      have "key_of e \<notin> key_of ` set es" "key_of e \<in> seen q"
        using inv_distinct [OF Cons.prems] inv_seen [OF Cons.prems] Cons by auto
      then have "key_of e \<notin> key_of ` set (rs @ list q')" unfolding ih(4) by blast
      then show ?thesis
        using q1(1) ih Cons by (auto simp: WPop)
    qed
  qed
qed

end

interpretation DQ: dedup_queue queue_Push queue_Pop queue_list qu_seen queue_wf
proof unfold_locales
  fix q :: queue and a t n
  assume "queue_wf q"
  then show "distinct (map key_of (queue_list q))" "key_of ` set (queue_list q) \<subseteq> qu_seen q"
    by (simp_all add: queue_wf_def)
next
  fix q :: queue and a t n
  assume "a = 0 \<or> \<lparr>k_addr = a, k_t = t\<rparr> \<in> qu_seen q"
  then show "queue_Push a t n q = Inr (True, q)" by (rule queue_Push_seen)
next
  fix q :: queue and a :: u64 and t n
  assume "queue_wf q" "a \<noteq> 0" "\<lparr>k_addr = a, k_t = t\<rparr> \<notin> qu_seen q"
  then show "\<exists>q'. queue_Push a t n q = Inr (True, q') \<and> queue_wf q' \<and>
        queue_list q' = queue_list q @ [\<lparr>qe_Type = t, qe_Len = n, qe_Addr = a\<rparr>] \<and>
        qu_seen q' = insert \<lparr>k_addr = a, k_t = t\<rparr> (qu_seen q)"
    by (rule queue_Push_new) blast
next
  fix q :: queue
  assume "queue_wf q" "queue_list q = []"
  then show "queue_Pop q = Inr (None, q)" by (rule queue_Pop_empty)
next
  fix q :: queue and e es
  assume "queue_wf q" "queue_list q = e # es"
  then show "\<exists>q'. queue_Pop q = Inr (Some e, q') \<and> queue_wf q' \<and> queue_list q' = es \<and>
      qu_seen q' = qu_seen q"
    by (rule queue_Pop_front) blast
qed

subsection \<open>What a run of pushes does to the queue\<close>

text \<open>
  \<open>qu_rel q q'\<close>: the queue has only been pushed to (or had keys recorded) on the way from \<open>q\<close> to \<open>q'\<close>.
  \<open>backlog\<close> is what the traversal still has ahead of it: keys never seen, counted twice, and entries
  queued. It shrinks with every pop and every push that adds an entry.
\<close>

definition qu_rel :: "queue \<Rightarrow> queue \<Rightarrow> bool" where
  "qu_rel q q' \<longleftrightarrow> queue_wf q' \<and> qu_seen q \<subseteq> qu_seen q' \<and>
     (\<exists>new. queue_list q' = queue_list q @ new \<and> distinct new \<and>
       key_of ` set new \<subseteq> qu_seen q' - qu_seen q \<and> inj_on key_of (set new))"

lemma qu_rel_refl [simp]: "queue_wf q \<Longrightarrow> qu_rel q q"
  by (simp add: qu_rel_def)

lemma qu_rel_wf: "qu_rel p q \<Longrightarrow> queue_wf q"
  by (simp add: qu_rel_def)

lemma qu_rel_trans:
  assumes "qu_rel p q" "qu_rel q r"
  shows "qu_rel p r"
proof -
  from assms obtain n1 n2 where
    n1: "queue_list q = queue_list p @ n1" "distinct n1" "key_of ` set n1 \<subseteq> qu_seen q - qu_seen p"
      "inj_on key_of (set n1)" "qu_seen p \<subseteq> qu_seen q"
    and n2: "queue_list r = queue_list q @ n2" "distinct n2" "key_of ` set n2 \<subseteq> qu_seen r - qu_seen q"
      "inj_on key_of (set n2)" "qu_seen q \<subseteq> qu_seen r" "queue_wf r"
    by (auto simp: qu_rel_def)
  have "key_of ` set n1 \<inter> key_of ` set n2 = {}" using n1(3) n2(3) by blast
  then have "distinct (n1 @ n2)" "inj_on key_of (set (n1 @ n2))"
    using n1(2,4) n2(2,4) by (auto simp: inj_on_Un)
  moreover have "key_of ` set (n1 @ n2) \<subseteq> qu_seen r - qu_seen p" using n1(3,5) n2(3,5) by auto
  moreover have "queue_list r = queue_list p @ (n1 @ n2)" using n1(1) n2(1) by simp
  ultimately show ?thesis unfolding qu_rel_def using n1(5) n2(5,6) by blast
qed

lemma queue_Push_rel: "queue_wf q \<Longrightarrow> okE (\<lambda>(_, q'). qu_rel q q') (queue_Push a t n q)"
proof (cases "a = 0 \<or> \<lparr>k_addr = a, k_t = t\<rparr> \<in> qu_seen q")
  case True
  then show "queue_wf q \<Longrightarrow> ?thesis" by (simp add: queue_Push_seen)
next
  case False
  assume wf: "queue_wf q"
  from False queue_Push_new [OF wf, of a t n] obtain q' where
    "queue_Push a t n q = Inr (True, q')" "queue_wf q'"
    "queue_list q' = queue_list q @ [\<lparr>qe_Type = t, qe_Len = n, qe_Addr = a\<rparr>]"
    "qu_seen q' = insert \<lparr>k_addr = a, k_t = t\<rparr> (qu_seen q)" by blast
  with False show ?thesis by (auto simp: qu_rel_def)
qed

lemma ShouldRecord_rel: "queue_wf q \<Longrightarrow> qu_rel q (snd (ShouldRecord a t q))"
  by (auto simp: ShouldRecord_def qu_rel_def queue_wf_def queue_list_def)

instantiation queueEntryKey_ext :: (finite) finite
begin

instance
proof
  define f :: "'a queueEntryKey_scheme \<Rightarrow> u64 \<times> u32 \<times> 'a" where
    "f k = (k_addr k, k_t k, queueEntryKey.more k)" for k
  have "inj f" by (rule injI) (simp add: f_def)
  moreover have "finite (range f)" by (rule finite_subset [OF subset_UNIV]) simp
  ultimately show "finite (UNIV :: 'a queueEntryKey_scheme set)"
    by (rule finite_imageD [rotated])
qed

end

definition backlog :: "queue \<Rightarrow> nat" where
  "backlog q = 2 * card (- qu_seen q) + length (queue_list q)"

lemma backlog_rel:
  assumes "qu_rel q q'"
  shows "backlog q' \<le> backlog q"
proof -
  from assms obtain new where
    n: "queue_list q' = queue_list q @ new" "distinct new" "key_of ` set new \<subseteq> qu_seen q' - qu_seen q"
      "inj_on key_of (set new)" "qu_seen q \<subseteq> qu_seen q'"
    by (auto simp: qu_rel_def)
  have "length new = card (key_of ` set new)"
    using n(2,4) by (simp add: distinct_card card_image)
  also have "\<dots> \<le> card (qu_seen q' - qu_seen q)" by (rule card_mono) (use n(3) in auto)
  also have "\<dots> + card (- qu_seen q') = card (- qu_seen q)"
    using n(5) by (subst card_Un_disjoint [symmetric]) (auto intro!: arg_cong [of _ _ card])
  finally show ?thesis using n(1) by (simp add: backlog_def)
qed

lemma backlog_pop:
  assumes "queue_wf q" "queue_Pop q = Inr (Some e, q')"
  shows "backlog q' < backlog q" and "queue_wf q'" and "qu_seen q' = qu_seen q"
    and "queue_list q = e # queue_list q'"
proof -
  obtain e1 es where es: "queue_list q = e1 # es"
    using assms(2) queue_Pop_empty [OF assms(1)] by (cases "queue_list q") auto
  obtain q1 where q1: "queue_Pop q = Inr (Some e1, q1)" "queue_wf q1" "queue_list q1 = es"
    "qu_seen q1 = qu_seen q"
    by (rule queue_Pop_front [OF assms(1) es])
  have [simp]: "e1 = e" "q1 = q'" using assms(2) q1(1) by simp_all
  show "backlog q' < backlog q" "queue_wf q'" "qu_seen q' = qu_seen q" "queue_list q = e # queue_list q'"
    using q1(2-4) es by (simp_all add: backlog_def)
qed

text \<open>
  C14. No object is captured twice and none is lost: whatever sequence of pushes and pops is run on a
  fresh queue, it does not fault; the (address, type) pairs of the popped entries and of those still
  queued are pairwise distinct, and together they are exactly the pairs pushed with a non-nil address.
\<close>

theorem queue_records_each_object_once:
  "\<exists>rs q. wl_run queue_Push queue_Pop ops makeQueue = Inr (rs, q) \<and>
     distinct (map key_of (rs @ queue_list q)) \<and>
     key_of ` set (rs @ queue_list q) = requested ops"
  using DQ.run_spec [OF queue_wf_make, of ops] unfolding queue_list_make qu_seen_make by auto

end
