(* ===== verification/Op_Decoder.thy ===== *)
theory Op_Decoder
  imports Side_Eye_Prelude
begin

text \<open>
  The decoder of the byte code of a snapshot program (\<open>internal/stackmachine/op_decoder.go\<close>): the op
  codes with their numbers, the operands of each operation as a record, and one \<open>Decode\<close> function per
  operation. A read past the end of the program is a panic: an index or a slice out of range.
  \<open>OpCodeOther\<close> stands for the bytes that no constant of \<open>OpCode\<close> names. A field of type \<open>int32\<close> holds
  the 32 bits it was read from; the interpreter sign-extends it where it uses it.

  The specification is an assembler, \<open>op_bytes\<close>: decoding what it wrote gives the operation back and
  moves the program counter past it.
\<close>

subsection \<open>The decoder\<close>

record OpDecoder =
  dec_pc :: u32
  dec_opBuf :: "u8 list"

definition MakeOpDecoder :: "u8 list \<Rightarrow> OpDecoder" where
  "MakeOpDecoder opBuf = \<lparr>dec_pc = 0, dec_opBuf = opBuf\<rparr>"

definition SetPC :: "u32 \<Rightarrow> OpDecoder \<Rightarrow> bool \<times> OpDecoder" where
  "SetPC pc d =
     (if pc \<ge> of_nat (length (dec_opBuf d)) then (False, d) else (True, d\<lparr>dec_pc := pc\<rparr>))"

definition PC :: "OpDecoder \<Rightarrow> u32" where
  "PC d = dec_pc d"

text \<open>
  \<open>d.opBuf[i]\<close>; \<open>binary.LittleEndian.Uint16(d.opBuf[i:])\<close> and \<open>Uint32\<close>: the slice expression panics
  when \<open>i\<close> is past the end, the read when fewer bytes are left than the integer has.
\<close>

definition dec_u8 :: "u32 \<Rightarrow> OpDecoder \<Rightarrow> u8 res" where
  "dec_u8 i d =
     (if unat i < length (dec_opBuf d) then Inr (dec_opBuf d ! unat i) else Inl IndexOutOfRange)"

definition dec_word :: "nat \<Rightarrow> u32 \<Rightarrow> OpDecoder \<Rightarrow> ('a::len word) res" where
  "dec_word n i d =
     (if unat i > length (dec_opBuf d) then Inl SliceOutOfRange
      else if length (dec_opBuf d) - unat i < n then Inl IndexOutOfRange
      else Inr (le_word (sub (dec_opBuf d) (unat i) n)))"

definition dec_u16 :: "u32 \<Rightarrow> OpDecoder \<Rightarrow> u16 res" where
  "dec_u16 = dec_word 2"

definition dec_u32 :: "u32 \<Rightarrow> OpDecoder \<Rightarrow> u32 res" where
  "dec_u32 = dec_word 4"

definition dec_first :: "u32 \<Rightarrow> OpDecoder \<Rightarrow> u8 res" where
  "dec_first i d =
     (if unat i > length (dec_opBuf d) then Inl SliceOutOfRange else dec_u8 i d)"

definition advance :: "u32 \<Rightarrow> OpDecoder \<Rightarrow> OpDecoder" where
  "advance n d = d\<lparr>dec_pc := dec_pc d + n\<rparr>"

subsection \<open>Op codes\<close>

datatype OpCode =
    OpCodeInvalid
  | OpCodeChasePointers
  | OpCodeCall
  | OpCodeCondJump
  | OpCodeDecrement
  | OpCodeEnqueueEmptyInterface
  | OpCodeEnqueueInterface
  | OpCodeEnqueuePointer
  | OpCodeEnqueueSliceHeader
  | OpCodeEnqueueStringHeader
  | OpCodeEnqueueHMapHeader
  | OpCodeEnqueueSwissMap
  | OpCodeEnqueueSwissMapGroups
  | OpCodeEnqueueSubroutine
  | OpCodeJump
  | OpCodePop
  | OpCodePushImm
  | OpCodePushOffset
  | OpCodePushSliceLen
  | OpCodeReturn
  | OpCodeSetOffset
  | OpCodeAdvanceOffset
  | OpCodeDereferenceCFAOffset
  | OpCodeCopyFromRegister
  | OpCodePrepareExprEval
  | OpCodeSaveExprResult
  | OpCodeDereferencePtr
  | OpCodeZeroFill
  | OpCodeSetPresenceBit
  | OpCodePreparePointeeData
  | OpCodePrepareFrameData
  | OpCodeConcludeFrameData
  | PrepareEventData
  | OpCodePrepareGoContext
  | OpCodeTraverseGoContext
  | OpCodeConcludeGoContext
  | OpCodeIllegal
  | OpCodeOther u8

fun opcode_num :: "OpCode \<Rightarrow> u8" where
  "opcode_num OpCodeInvalid = 0"
| "opcode_num OpCodeChasePointers = 26"
| "opcode_num OpCodeCall = 1"
| "opcode_num OpCodeCondJump = 2"
| "opcode_num OpCodeDecrement = 3"
| "opcode_num OpCodeEnqueueEmptyInterface = 4"
| "opcode_num OpCodeEnqueueInterface = 5"
| "opcode_num OpCodeEnqueuePointer = 6"
| "opcode_num OpCodeEnqueueSliceHeader = 7"
| "opcode_num OpCodeEnqueueStringHeader = 8"
| "opcode_num OpCodeEnqueueHMapHeader = 9"
| "opcode_num OpCodeEnqueueSwissMap = 31"
| "opcode_num OpCodeEnqueueSwissMapGroups = 32"
| "opcode_num OpCodeEnqueueSubroutine = 33"
| "opcode_num OpCodeJump = 10"
| "opcode_num OpCodePop = 11"
| "opcode_num OpCodePushImm = 12"
| "opcode_num OpCodePushOffset = 13"
| "opcode_num OpCodePushSliceLen = 14"
| "opcode_num OpCodeReturn = 15"
| "opcode_num OpCodeSetOffset = 16"
| "opcode_num OpCodeAdvanceOffset = 17"
| "opcode_num OpCodeDereferenceCFAOffset = 19"
| "opcode_num OpCodeCopyFromRegister = 20"
| "opcode_num OpCodePrepareExprEval = 36"
| "opcode_num OpCodeSaveExprResult = 34"
| "opcode_num OpCodeDereferencePtr = 35"
| "opcode_num OpCodeZeroFill = 21"
| "opcode_num OpCodeSetPresenceBit = 30"
| "opcode_num OpCodePreparePointeeData = 37"
| "opcode_num OpCodePrepareFrameData = 22"
| "opcode_num OpCodeConcludeFrameData = 25"
| "opcode_num PrepareEventData = 24"
| "opcode_num OpCodePrepareGoContext = 27"
| "opcode_num OpCodeTraverseGoContext = 28"
| "opcode_num OpCodeConcludeGoContext = 29"
| "opcode_num OpCodeIllegal = 23"
| "opcode_num (OpCodeOther b) = b"

definition opcode_table :: "(u8 \<times> OpCode) list" where
  "opcode_table =
    [(0, OpCodeInvalid),
     (26, OpCodeChasePointers),
     (1, OpCodeCall),
     (2, OpCodeCondJump),
     (3, OpCodeDecrement),
     (4, OpCodeEnqueueEmptyInterface),
     (5, OpCodeEnqueueInterface),
     (6, OpCodeEnqueuePointer),
     (7, OpCodeEnqueueSliceHeader),
     (8, OpCodeEnqueueStringHeader),
     (9, OpCodeEnqueueHMapHeader),
     (31, OpCodeEnqueueSwissMap),
     (32, OpCodeEnqueueSwissMapGroups),
     (33, OpCodeEnqueueSubroutine),
     (10, OpCodeJump),
     (11, OpCodePop),
     (12, OpCodePushImm),
     (13, OpCodePushOffset),
     (14, OpCodePushSliceLen),
     (15, OpCodeReturn),
     (16, OpCodeSetOffset),
     (17, OpCodeAdvanceOffset),
     (19, OpCodeDereferenceCFAOffset),
     (20, OpCodeCopyFromRegister),
     (36, OpCodePrepareExprEval),
     (34, OpCodeSaveExprResult),
     (35, OpCodeDereferencePtr),
     (21, OpCodeZeroFill),
     (30, OpCodeSetPresenceBit),
     (37, OpCodePreparePointeeData),
     (22, OpCodePrepareFrameData),
     (25, OpCodeConcludeFrameData),
     (24, PrepareEventData),
     (27, OpCodePrepareGoContext),
     (28, OpCodeTraverseGoContext),
     (29, OpCodeConcludeGoContext),
     (23, OpCodeIllegal)]"

definition opcode_of :: "u8 \<Rightarrow> OpCode" where
  "opcode_of b = (case map_of opcode_table b of Some c \<Rightarrow> c | None \<Rightarrow> OpCodeOther b)"

definition PopOpCode :: "OpDecoder \<Rightarrow> (OpCode \<times> OpDecoder) res" where
  "PopOpCode d = bindE (dec_u8 (dec_pc d) d) (\<lambda>b. Inr (opcode_of b, advance 1 d))"

subsection \<open>Operations and their operands\<close>

record OpCall =
  call_Pc :: u32

record OpCondJump =
  condJump_Pc :: u32

type_synonym OpDecrement = unit

type_synonym OpEnqueueEmptyInterface = unit

type_synonym OpEnqueueInterface = unit

record OpEnqueuePointer =
  enqPtr_ElemType :: u32

record OpEnqueueSliceHeader =
  enqSlice_ArrayType :: u32
  enqSlice_ElemByteLen :: u32

record OpEnqueueStringHeader =
  enqStr_StringDataType :: u32

record OpEnqueueHMapHeader =
  hmap_BucketsArrayType :: u32
  hmap_BucketByteLen :: u32
  hmap_FlagsOffset :: u8
  hmap_BOffset :: u8
  hmap_BucketsOffset :: u8
  hmap_OldBucketsOffset :: u8

record OpEnqueueSwissMap =
  swiss_TablePtrSliceType :: u32
  swiss_GroupType :: u32
  swiss_DirPtrOffset :: u8
  swiss_DirLenOffset :: u8

record OpEnqueueSwissMapGroups =
  groups_GroupSliceType :: u32
  groups_GroupByteLen :: u32
  groups_DataOffset :: u8
  groups_LengthMaskOffset :: u8

type_synonym OpEnqueueSubroutine = unit

record OpJump =
  jump_Pc :: u32

type_synonym OpPop = unit

record OpPushImm =
  pushImm_Value :: u32

type_synonym OpPushOffset = unit

record OpPushSliceLen =
  pushLen_ElemByteLen :: u32

type_synonym OpReturn = unit

type_synonym OpSetOffset = unit

record OpAdvanceOffset =
  adv_Increment :: u32

record OpDereferenceCFAOffset =
  derefCfa_Offset :: u32
  derefCfa_ByteLen :: u32
  derefCfa_PointerBias :: u32

record OpCopyFromRegister =
  copyReg_Register :: u16
  copyReg_ByteSize :: u8

record OpSaveExprResult =
  saveExpr_ResultOffset :: u32
  saveExpr_ByteLen :: u32

record OpDereferencePtr =
  derefPtr_Bias :: u32
  derefPtr_ByteLen :: u32

record OpZeroFill =
  zeroFill_ByteLen :: u32

record OpSetPresenceBit =
  presence_BitOffset :: u32

record OpPrepareFrameData =
  prepFrame_ProgID :: u32
  prepFrame_DataByteLen :: u32
  prepFrame_TypeID :: u32

record OpPrepareGoContext =
  prepCtx_DataByteLen :: u32
  prepCtx_TypeID :: u32
  prepCtx_CaptureCount :: u8

type_synonym OpTraverseGoContext = unit

type_synonym OpConcludeGoContext = unit

type_synonym OpIllegal = unit

subsection \<open>Decoding the operands\<close>

definition DecodeCall :: "OpDecoder \<Rightarrow> (OpCall \<times> OpDecoder) res" where
  "DecodeCall d =
     bindE (dec_u32 (dec_pc d) d) (\<lambda>pc.
     Inr (\<lparr>call_Pc = pc\<rparr>,
       advance 4 d))"

definition DecodeCondJump :: "OpDecoder \<Rightarrow> (OpCondJump \<times> OpDecoder) res" where
  "DecodeCondJump d =
     bindE (dec_u32 (dec_pc d) d) (\<lambda>pc.
     Inr (\<lparr>condJump_Pc = pc\<rparr>,
       advance 4 d))"

definition DecodeDecrement :: "OpDecoder \<Rightarrow> (OpDecrement \<times> OpDecoder) res" where
  "DecodeDecrement d = Inr ((), d)"

definition DecodeEnqueueEmptyInterface :: "OpDecoder \<Rightarrow> (OpEnqueueEmptyInterface \<times> OpDecoder) res" where
  "DecodeEnqueueEmptyInterface d = Inr ((), d)"

definition DecodeEnqueueInterface :: "OpDecoder \<Rightarrow> (OpEnqueueInterface \<times> OpDecoder) res" where
  "DecodeEnqueueInterface d = Inr ((), d)"

definition DecodeEnqueuePointer :: "OpDecoder \<Rightarrow> (OpEnqueuePointer \<times> OpDecoder) res" where
  "DecodeEnqueuePointer d =
     bindE (dec_u32 (dec_pc d) d) (\<lambda>elemType.
     Inr (\<lparr>enqPtr_ElemType = elemType\<rparr>,
       advance 4 d))"

definition DecodeEnqueueSliceHeader :: "OpDecoder \<Rightarrow> (OpEnqueueSliceHeader \<times> OpDecoder) res" where
  "DecodeEnqueueSliceHeader d =
     bindE (dec_u32 (dec_pc d) d) (\<lambda>arrayType.
     bindE (dec_u32 (dec_pc d + 4) d) (\<lambda>elemByteLen.
     Inr (\<lparr>enqSlice_ArrayType = arrayType, enqSlice_ElemByteLen = elemByteLen\<rparr>,
       advance 8 d)))"

definition DecodeEnqueueStringHeader :: "OpDecoder \<Rightarrow> (OpEnqueueStringHeader \<times> OpDecoder) res" where
  "DecodeEnqueueStringHeader d =
     bindE (dec_u32 (dec_pc d) d) (\<lambda>stringDataType.
     Inr (\<lparr>enqStr_StringDataType = stringDataType\<rparr>,
       advance 4 d))"

definition DecodeEnqueueHMapHeader :: "OpDecoder \<Rightarrow> (OpEnqueueHMapHeader \<times> OpDecoder) res" where
  "DecodeEnqueueHMapHeader d =
     bindE (dec_u32 (dec_pc d) d) (\<lambda>bucketsArrayType.
     bindE (dec_u32 (dec_pc d + 4) d) (\<lambda>bucketByteLen.
     bindE (dec_u8 (dec_pc d + 8) d) (\<lambda>flagsOffset.
     bindE (dec_u8 (dec_pc d + 9) d) (\<lambda>bOffset.
     bindE (dec_u8 (dec_pc d + 10) d) (\<lambda>bucketsOffset.
     bindE (dec_u8 (dec_pc d + 11) d) (\<lambda>oldBucketsOffset.
     Inr (\<lparr>hmap_BucketsArrayType = bucketsArrayType, hmap_BucketByteLen = bucketByteLen, hmap_FlagsOffset = flagsOffset, hmap_BOffset = bOffset, hmap_BucketsOffset = bucketsOffset, hmap_OldBucketsOffset = oldBucketsOffset\<rparr>,
       advance 12 d)))))))"

definition DecodeEnqueueSwissMap :: "OpDecoder \<Rightarrow> (OpEnqueueSwissMap \<times> OpDecoder) res" where
  "DecodeEnqueueSwissMap d =
     bindE (dec_u32 (dec_pc d) d) (\<lambda>tablePtrSliceType.
     bindE (dec_u32 (dec_pc d + 4) d) (\<lambda>groupType.
     bindE (dec_u8 (dec_pc d + 8) d) (\<lambda>dirPtrOffset.
     bindE (dec_u8 (dec_pc d + 9) d) (\<lambda>dirLenOffset.
     Inr (\<lparr>swiss_TablePtrSliceType = tablePtrSliceType, swiss_GroupType = groupType, swiss_DirPtrOffset = dirPtrOffset, swiss_DirLenOffset = dirLenOffset\<rparr>,
       advance 10 d)))))"

definition DecodeEnqueueSwissMapGroups :: "OpDecoder \<Rightarrow> (OpEnqueueSwissMapGroups \<times> OpDecoder) res" where
  "DecodeEnqueueSwissMapGroups d =
     bindE (dec_u32 (dec_pc d) d) (\<lambda>groupSliceType.
     bindE (dec_u32 (dec_pc d + 4) d) (\<lambda>groupByteLen.
     bindE (dec_u8 (dec_pc d + 8) d) (\<lambda>dataOffset.
     bindE (dec_u8 (dec_pc d + 9) d) (\<lambda>lengthMaskOffset.
     Inr (\<lparr>groups_GroupSliceType = groupSliceType, groups_GroupByteLen = groupByteLen, groups_DataOffset = dataOffset, groups_LengthMaskOffset = lengthMaskOffset\<rparr>,
       advance 10 d)))))"

definition DecodeEnqueueSubroutine :: "OpDecoder \<Rightarrow> (OpEnqueueSubroutine \<times> OpDecoder) res" where
  "DecodeEnqueueSubroutine d = Inr ((), d)"

definition DecodeJump :: "OpDecoder \<Rightarrow> (OpJump \<times> OpDecoder) res" where
  "DecodeJump d =
     bindE (dec_u32 (dec_pc d) d) (\<lambda>pc.
     Inr (\<lparr>jump_Pc = pc\<rparr>,
       advance 4 d))"

definition DecodePop :: "OpDecoder \<Rightarrow> (OpPop \<times> OpDecoder) res" where
  "DecodePop d = Inr ((), d)"

definition DecodePushImm :: "OpDecoder \<Rightarrow> (OpPushImm \<times> OpDecoder) res" where
  "DecodePushImm d =
     bindE (dec_u32 (dec_pc d) d) (\<lambda>v.
     Inr (\<lparr>pushImm_Value = v\<rparr>,
       advance 4 d))"

definition DecodePushOffset :: "OpDecoder \<Rightarrow> (OpPushOffset \<times> OpDecoder) res" where
  "DecodePushOffset d = Inr ((), d)"

definition DecodePushSliceLen :: "OpDecoder \<Rightarrow> (OpPushSliceLen \<times> OpDecoder) res" where
  "DecodePushSliceLen d =
     bindE (dec_u32 (dec_pc d) d) (\<lambda>elemByteLen.
     Inr (\<lparr>pushLen_ElemByteLen = elemByteLen\<rparr>,
       advance 4 d))"

definition DecodeReturn :: "OpDecoder \<Rightarrow> (OpReturn \<times> OpDecoder) res" where
  "DecodeReturn d = Inr ((), d)"

definition DecodeSetOffset :: "OpDecoder \<Rightarrow> (OpSetOffset \<times> OpDecoder) res" where
  "DecodeSetOffset d = Inr ((), d)"

definition DecodeAdvanceOffset :: "OpDecoder \<Rightarrow> (OpAdvanceOffset \<times> OpDecoder) res" where
  "DecodeAdvanceOffset d =
     bindE (dec_u32 (dec_pc d) d) (\<lambda>increment.
     Inr (\<lparr>adv_Increment = increment\<rparr>,
       advance 4 d))"

definition DecodeDereferenceCFAOffset :: "OpDecoder \<Rightarrow> (OpDereferenceCFAOffset \<times> OpDecoder) res" where
  "DecodeDereferenceCFAOffset d =
     bindE (dec_u32 (dec_pc d) d) (\<lambda>offset.
     bindE (dec_u32 (dec_pc d + 4) d) (\<lambda>byteLen.
     bindE (dec_u32 (dec_pc d + 8) d) (\<lambda>pointerBias.
     Inr (\<lparr>derefCfa_Offset = offset, derefCfa_ByteLen = byteLen, derefCfa_PointerBias = pointerBias\<rparr>,
       advance 12 d))))"

definition DecodeCopyFromRegister :: "OpDecoder \<Rightarrow> (OpCopyFromRegister \<times> OpDecoder) res" where
  "DecodeCopyFromRegister d =
     bindE (dec_u16 (dec_pc d) d) (\<lambda>register.
     bindE (dec_u8 (dec_pc d + 2) d) (\<lambda>byteSize.
     Inr (\<lparr>copyReg_Register = register, copyReg_ByteSize = byteSize\<rparr>,
       advance 3 d)))"

definition DecodeSaveExprResult :: "OpDecoder \<Rightarrow> (OpSaveExprResult \<times> OpDecoder) res" where
  "DecodeSaveExprResult d =
     bindE (dec_u32 (dec_pc d) d) (\<lambda>resultOffset.
     bindE (dec_u32 (dec_pc d + 4) d) (\<lambda>byteLen.
     Inr (\<lparr>saveExpr_ResultOffset = resultOffset, saveExpr_ByteLen = byteLen\<rparr>,
       advance 8 d)))"

definition DecodeDereferencePtr :: "OpDecoder \<Rightarrow> (OpDereferencePtr \<times> OpDecoder) res" where
  "DecodeDereferencePtr d =
     bindE (dec_u32 (dec_pc d) d) (\<lambda>bias.
     bindE (dec_u32 (dec_pc d + 4) d) (\<lambda>byteLen.
     Inr (\<lparr>derefPtr_Bias = bias, derefPtr_ByteLen = byteLen\<rparr>,
       advance 8 d)))"

definition DecodeZeroFill :: "OpDecoder \<Rightarrow> (OpZeroFill \<times> OpDecoder) res" where
  "DecodeZeroFill d =
     bindE (dec_u32 (dec_pc d) d) (\<lambda>byteLen.
     Inr (\<lparr>zeroFill_ByteLen = byteLen\<rparr>,
       advance 4 d))"

definition DecodeSetPresenceBit :: "OpDecoder \<Rightarrow> (OpSetPresenceBit \<times> OpDecoder) res" where
  "DecodeSetPresenceBit d =
     bindE (dec_u32 (dec_pc d) d) (\<lambda>bitOffset.
     Inr (\<lparr>presence_BitOffset = bitOffset\<rparr>,
       advance 4 d))"

definition DecodePrepareFrameData :: "OpDecoder \<Rightarrow> (OpPrepareFrameData \<times> OpDecoder) res" where
  "DecodePrepareFrameData d =
     bindE (dec_u32 (dec_pc d) d) (\<lambda>progID.
     bindE (dec_u32 (dec_pc d + 4) d) (\<lambda>dataByteLen.
     bindE (dec_u32 (dec_pc d + 8) d) (\<lambda>typeID.
     Inr (\<lparr>prepFrame_ProgID = progID, prepFrame_DataByteLen = dataByteLen, prepFrame_TypeID = typeID\<rparr>,
       advance 12 d))))"

definition DecodePrepareGoContext :: "OpDecoder \<Rightarrow> (OpPrepareGoContext \<times> OpDecoder) res" where
  "DecodePrepareGoContext d =
     bindE (dec_u32 (dec_pc d) d) (\<lambda>dataByteLen.
     bindE (dec_u32 (dec_pc d + 4) d) (\<lambda>typeID.
     bindE (dec_first (dec_pc d + 8) d) (\<lambda>captureCount.
     Inr (\<lparr>prepCtx_DataByteLen = dataByteLen, prepCtx_TypeID = typeID, prepCtx_CaptureCount = captureCount\<rparr>,
       advance 9 d))))"

definition DecodeTraverseGoContext :: "OpDecoder \<Rightarrow> (OpTraverseGoContext \<times> OpDecoder) res" where
  "DecodeTraverseGoContext d = Inr ((), d)"

definition DecodeConcludeGoContext :: "OpDecoder \<Rightarrow> (OpConcludeGoContext \<times> OpDecoder) res" where
  "DecodeConcludeGoContext d = Inr ((), d)"

definition DecodeIllegal :: "OpDecoder \<Rightarrow> (OpIllegal \<times> OpDecoder) res" where
  "DecodeIllegal d = Inr ((), d)"

subsection \<open>The decoded operations\<close>

datatype AnyOp =
    ACall OpCall
  | ACondJump OpCondJump
  | ADecrement
  | AEnqueueEmptyInterface
  | AEnqueueInterface
  | AEnqueuePointer OpEnqueuePointer
  | AEnqueueSliceHeader OpEnqueueSliceHeader
  | AEnqueueStringHeader OpEnqueueStringHeader
  | AEnqueueHMapHeader OpEnqueueHMapHeader
  | AEnqueueSwissMap OpEnqueueSwissMap
  | AEnqueueSwissMapGroups OpEnqueueSwissMapGroups
  | AEnqueueSubroutine
  | AJump OpJump
  | APop
  | APushImm OpPushImm
  | APushOffset
  | APushSliceLen OpPushSliceLen
  | AReturn
  | ASetOffset
  | AAdvanceOffset OpAdvanceOffset
  | ADereferenceCFAOffset OpDereferenceCFAOffset
  | ACopyFromRegister OpCopyFromRegister
  | ASaveExprResult OpSaveExprResult
  | ADereferencePtr OpDereferencePtr
  | AZeroFill OpZeroFill
  | ASetPresenceBit OpSetPresenceBit
  | APrepareFrameData OpPrepareFrameData
  | APrepareGoContext OpPrepareGoContext
  | ATraverseGoContext
  | AConcludeGoContext
  | AIllegal
  | AInvalid
  | APrepareExprEval
  | APreparePointeeData
  | AConcludeFrameData
  | AChasePointers
  | APrepareEventData

fun code_of :: "AnyOp \<Rightarrow> OpCode" where
  "code_of (ACall r) = OpCodeCall"
| "code_of (ACondJump r) = OpCodeCondJump"
| "code_of ADecrement = OpCodeDecrement"
| "code_of AEnqueueEmptyInterface = OpCodeEnqueueEmptyInterface"
| "code_of AEnqueueInterface = OpCodeEnqueueInterface"
| "code_of (AEnqueuePointer r) = OpCodeEnqueuePointer"
| "code_of (AEnqueueSliceHeader r) = OpCodeEnqueueSliceHeader"
| "code_of (AEnqueueStringHeader r) = OpCodeEnqueueStringHeader"
| "code_of (AEnqueueHMapHeader r) = OpCodeEnqueueHMapHeader"
| "code_of (AEnqueueSwissMap r) = OpCodeEnqueueSwissMap"
| "code_of (AEnqueueSwissMapGroups r) = OpCodeEnqueueSwissMapGroups"
| "code_of AEnqueueSubroutine = OpCodeEnqueueSubroutine"
| "code_of (AJump r) = OpCodeJump"
| "code_of APop = OpCodePop"
| "code_of (APushImm r) = OpCodePushImm"
| "code_of APushOffset = OpCodePushOffset"
| "code_of (APushSliceLen r) = OpCodePushSliceLen"
| "code_of AReturn = OpCodeReturn"
| "code_of ASetOffset = OpCodeSetOffset"
| "code_of (AAdvanceOffset r) = OpCodeAdvanceOffset"
| "code_of (ADereferenceCFAOffset r) = OpCodeDereferenceCFAOffset"
| "code_of (ACopyFromRegister r) = OpCodeCopyFromRegister"
| "code_of (ASaveExprResult r) = OpCodeSaveExprResult"
| "code_of (ADereferencePtr r) = OpCodeDereferencePtr"
| "code_of (AZeroFill r) = OpCodeZeroFill"
| "code_of (ASetPresenceBit r) = OpCodeSetPresenceBit"
| "code_of (APrepareFrameData r) = OpCodePrepareFrameData"
| "code_of (APrepareGoContext r) = OpCodePrepareGoContext"
| "code_of ATraverseGoContext = OpCodeTraverseGoContext"
| "code_of AConcludeGoContext = OpCodeConcludeGoContext"
| "code_of AIllegal = OpCodeIllegal"
| "code_of AInvalid = OpCodeInvalid"
| "code_of APrepareExprEval = OpCodePrepareExprEval"
| "code_of APreparePointeeData = OpCodePreparePointeeData"
| "code_of AConcludeFrameData = OpCodeConcludeFrameData"
| "code_of AChasePointers = OpCodeChasePointers"
| "code_of APrepareEventData = PrepareEventData"

fun operand_bytes :: "AnyOp \<Rightarrow> u8 list" where
  "operand_bytes (ACall r) =
     le_bytes 4 (call_Pc r)"
| "operand_bytes (ACondJump r) =
     le_bytes 4 (condJump_Pc r)"
| "operand_bytes (AEnqueuePointer r) =
     le_bytes 4 (enqPtr_ElemType r)"
| "operand_bytes (AEnqueueSliceHeader r) =
     le_bytes 4 (enqSlice_ArrayType r) @ le_bytes 4 (enqSlice_ElemByteLen r)"
| "operand_bytes (AEnqueueStringHeader r) =
     le_bytes 4 (enqStr_StringDataType r)"
| "operand_bytes (AEnqueueHMapHeader r) =
     le_bytes 4 (hmap_BucketsArrayType r) @ le_bytes 4 (hmap_BucketByteLen r) @ [hmap_FlagsOffset r] @ [hmap_BOffset r] @ [hmap_BucketsOffset r] @ [hmap_OldBucketsOffset r]"
| "operand_bytes (AEnqueueSwissMap r) =
     le_bytes 4 (swiss_TablePtrSliceType r) @ le_bytes 4 (swiss_GroupType r) @ [swiss_DirPtrOffset r] @ [swiss_DirLenOffset r]"
| "operand_bytes (AEnqueueSwissMapGroups r) =
     le_bytes 4 (groups_GroupSliceType r) @ le_bytes 4 (groups_GroupByteLen r) @ [groups_DataOffset r] @ [groups_LengthMaskOffset r]"
| "operand_bytes (AJump r) =
     le_bytes 4 (jump_Pc r)"
| "operand_bytes (APushImm r) =
     le_bytes 4 (pushImm_Value r)"
| "operand_bytes (APushSliceLen r) =
     le_bytes 4 (pushLen_ElemByteLen r)"
| "operand_bytes (AAdvanceOffset r) =
     le_bytes 4 (adv_Increment r)"
| "operand_bytes (ADereferenceCFAOffset r) =
     le_bytes 4 (derefCfa_Offset r) @ le_bytes 4 (derefCfa_ByteLen r) @ le_bytes 4 (derefCfa_PointerBias r)"
| "operand_bytes (ACopyFromRegister r) =
     le_bytes 2 (copyReg_Register r) @ [copyReg_ByteSize r]"
| "operand_bytes (ASaveExprResult r) =
     le_bytes 4 (saveExpr_ResultOffset r) @ le_bytes 4 (saveExpr_ByteLen r)"
| "operand_bytes (ADereferencePtr r) =
     le_bytes 4 (derefPtr_Bias r) @ le_bytes 4 (derefPtr_ByteLen r)"
| "operand_bytes (AZeroFill r) =
     le_bytes 4 (zeroFill_ByteLen r)"
| "operand_bytes (ASetPresenceBit r) =
     le_bytes 4 (presence_BitOffset r)"
| "operand_bytes (APrepareFrameData r) =
     le_bytes 4 (prepFrame_ProgID r) @ le_bytes 4 (prepFrame_DataByteLen r) @ le_bytes 4 (prepFrame_TypeID r)"
| "operand_bytes (APrepareGoContext r) =
     le_bytes 4 (prepCtx_DataByteLen r) @ le_bytes 4 (prepCtx_TypeID r) @ [prepCtx_CaptureCount r]"
| "operand_bytes _ = []"

definition op_bytes :: "AnyOp \<Rightarrow> u8 list" where
  "op_bytes a = opcode_num (code_of a) # operand_bytes a"

text \<open>The operands of an operation, by its code, as the cases of the interpreter decode them.\<close>

fun decode_operands :: "OpCode \<Rightarrow> OpDecoder \<Rightarrow> (AnyOp option \<times> OpDecoder) res" where
  "decode_operands OpCodeCall d = bindE (DecodeCall d) (\<lambda>(r, d1). Inr (Some (ACall r), d1))"
| "decode_operands OpCodeCondJump d = bindE (DecodeCondJump d) (\<lambda>(r, d1). Inr (Some (ACondJump r), d1))"
| "decode_operands OpCodeDecrement d = bindE (DecodeDecrement d) (\<lambda>(_, d1). Inr (Some ADecrement, d1))"
| "decode_operands OpCodeEnqueueEmptyInterface d = bindE (DecodeEnqueueEmptyInterface d) (\<lambda>(_, d1). Inr (Some AEnqueueEmptyInterface, d1))"
| "decode_operands OpCodeEnqueueInterface d = bindE (DecodeEnqueueInterface d) (\<lambda>(_, d1). Inr (Some AEnqueueInterface, d1))"
| "decode_operands OpCodeEnqueuePointer d = bindE (DecodeEnqueuePointer d) (\<lambda>(r, d1). Inr (Some (AEnqueuePointer r), d1))"
| "decode_operands OpCodeEnqueueSliceHeader d = bindE (DecodeEnqueueSliceHeader d) (\<lambda>(r, d1). Inr (Some (AEnqueueSliceHeader r), d1))"
| "decode_operands OpCodeEnqueueStringHeader d = bindE (DecodeEnqueueStringHeader d) (\<lambda>(r, d1). Inr (Some (AEnqueueStringHeader r), d1))"
| "decode_operands OpCodeEnqueueHMapHeader d = bindE (DecodeEnqueueHMapHeader d) (\<lambda>(r, d1). Inr (Some (AEnqueueHMapHeader r), d1))"
| "decode_operands OpCodeEnqueueSwissMap d = bindE (DecodeEnqueueSwissMap d) (\<lambda>(r, d1). Inr (Some (AEnqueueSwissMap r), d1))"
| "decode_operands OpCodeEnqueueSwissMapGroups d = bindE (DecodeEnqueueSwissMapGroups d) (\<lambda>(r, d1). Inr (Some (AEnqueueSwissMapGroups r), d1))"
| "decode_operands OpCodeEnqueueSubroutine d = bindE (DecodeEnqueueSubroutine d) (\<lambda>(_, d1). Inr (Some AEnqueueSubroutine, d1))"
| "decode_operands OpCodeJump d = bindE (DecodeJump d) (\<lambda>(r, d1). Inr (Some (AJump r), d1))"
| "decode_operands OpCodePop d = bindE (DecodePop d) (\<lambda>(_, d1). Inr (Some APop, d1))"
| "decode_operands OpCodePushImm d = bindE (DecodePushImm d) (\<lambda>(r, d1). Inr (Some (APushImm r), d1))"
| "decode_operands OpCodePushOffset d = bindE (DecodePushOffset d) (\<lambda>(_, d1). Inr (Some APushOffset, d1))"
| "decode_operands OpCodePushSliceLen d = bindE (DecodePushSliceLen d) (\<lambda>(r, d1). Inr (Some (APushSliceLen r), d1))"
| "decode_operands OpCodeReturn d = bindE (DecodeReturn d) (\<lambda>(_, d1). Inr (Some AReturn, d1))"
| "decode_operands OpCodeSetOffset d = bindE (DecodeSetOffset d) (\<lambda>(_, d1). Inr (Some ASetOffset, d1))"
| "decode_operands OpCodeAdvanceOffset d = bindE (DecodeAdvanceOffset d) (\<lambda>(r, d1). Inr (Some (AAdvanceOffset r), d1))"
| "decode_operands OpCodeDereferenceCFAOffset d = bindE (DecodeDereferenceCFAOffset d) (\<lambda>(r, d1). Inr (Some (ADereferenceCFAOffset r), d1))"
| "decode_operands OpCodeCopyFromRegister d = bindE (DecodeCopyFromRegister d) (\<lambda>(r, d1). Inr (Some (ACopyFromRegister r), d1))"
| "decode_operands OpCodeSaveExprResult d = bindE (DecodeSaveExprResult d) (\<lambda>(r, d1). Inr (Some (ASaveExprResult r), d1))"
| "decode_operands OpCodeDereferencePtr d = bindE (DecodeDereferencePtr d) (\<lambda>(r, d1). Inr (Some (ADereferencePtr r), d1))"
| "decode_operands OpCodeZeroFill d = bindE (DecodeZeroFill d) (\<lambda>(r, d1). Inr (Some (AZeroFill r), d1))"
| "decode_operands OpCodeSetPresenceBit d = bindE (DecodeSetPresenceBit d) (\<lambda>(r, d1). Inr (Some (ASetPresenceBit r), d1))"
| "decode_operands OpCodePrepareFrameData d = bindE (DecodePrepareFrameData d) (\<lambda>(r, d1). Inr (Some (APrepareFrameData r), d1))"
| "decode_operands OpCodePrepareGoContext d = bindE (DecodePrepareGoContext d) (\<lambda>(r, d1). Inr (Some (APrepareGoContext r), d1))"
| "decode_operands OpCodeTraverseGoContext d = bindE (DecodeTraverseGoContext d) (\<lambda>(_, d1). Inr (Some ATraverseGoContext, d1))"
| "decode_operands OpCodeConcludeGoContext d = bindE (DecodeConcludeGoContext d) (\<lambda>(_, d1). Inr (Some AConcludeGoContext, d1))"
| "decode_operands OpCodeIllegal d = bindE (DecodeIllegal d) (\<lambda>(_, d1). Inr (Some AIllegal, d1))"
| "decode_operands OpCodeInvalid d = Inr (Some AInvalid, d)"
| "decode_operands OpCodePrepareExprEval d = Inr (Some APrepareExprEval, d)"
| "decode_operands OpCodePreparePointeeData d = Inr (Some APreparePointeeData, d)"
| "decode_operands OpCodeConcludeFrameData d = Inr (Some AConcludeFrameData, d)"
| "decode_operands OpCodeChasePointers d = Inr (Some AChasePointers, d)"
| "decode_operands PrepareEventData d = Inr (Some APrepareEventData, d)"
| "decode_operands (OpCodeOther b) d = Inr (None, d)"

subsection \<open>Facts about the op codes\<close>

lemma opcode_num_of: "opcode_num (opcode_of b) = b"
  by (simp add: opcode_of_def opcode_table_def)

lemma opcode_of_num: "(\<And>b. c \<noteq> OpCodeOther b) \<Longrightarrow> opcode_of (opcode_num c) = c"
  by (cases c) (simp_all add: opcode_of_def opcode_table_def)

lemma opcode_of_code_of [simp]: "opcode_of (opcode_num (code_of a)) = code_of a"
  by (rule opcode_of_num) (cases a; simp)

subsection \<open>Reading back what was written\<close>

definition at_pc :: "OpDecoder \<Rightarrow> u8 list \<Rightarrow> bool" where
  "at_pc d bs \<longleftrightarrow> length (dec_opBuf d) < 2 ^ 32 \<and>
     (\<exists>pre post. dec_opBuf d = pre @ bs @ post \<and> unat (dec_pc d) = length pre)"

lemma at_pc_prefix: "at_pc d (bs @ cs) \<Longrightarrow> at_pc d bs"
  by (auto simp: at_pc_def)

lemma at_pc_offset:
  assumes "at_pc d (xs @ bs)"
  shows "\<exists>pre post. dec_opBuf d = pre @ bs @ post \<and>
    unat (dec_pc d + of_nat (length xs)) = length pre \<and> length (dec_opBuf d) < 2 ^ 32"
proof -
  from assms obtain pre post where d: "length (dec_opBuf d) < 2 ^ 32"
    "dec_opBuf d = pre @ (xs @ bs) @ post" "unat (dec_pc d) = length pre"
    unfolding at_pc_def by blast
  have xs: "unat (of_nat (length xs) :: u32) = length xs" using d by (intro unat_of_nat_u32) simp
  have "unat (dec_pc d + of_nat (length xs)) = length (pre @ xs)"
    using d xs by (subst unat_add_u32) simp_all
  then show ?thesis using d by (intro exI [of _ "pre @ xs"] exI [of _ post]) simp
qed

lemma at_pc_advance:
  assumes "at_pc d (xs @ bs)"
  shows "at_pc (advance (of_nat (length xs)) d) bs"
  using at_pc_offset [OF assms] by (auto simp: at_pc_def advance_def)

lemma dec_word_at:
  assumes "at_pc d (xs @ le_bytes n w @ ys)" "LENGTH('a) \<le> 8 * n"
  shows "dec_word n (dec_pc d + of_nat (length xs)) d = Inr (w :: 'a::len word)"
proof -
  from at_pc_offset [OF assms(1)] obtain pre post where
    d: "dec_opBuf d = pre @ (le_bytes n w @ ys) @ post"
      "unat (dec_pc d + of_nat (length xs)) = length pre" by blast
  show ?thesis unfolding dec_word_def d(2) using assms(2) by (simp add: d(1) sub_def)
qed

lemma dec_u8_at:
  assumes "at_pc d (xs @ b # ys)"
  shows "dec_u8 (dec_pc d + of_nat (length xs)) d = Inr b"
    and "dec_first (dec_pc d + of_nat (length xs)) d = Inr b"
proof -
  from at_pc_offset [OF assms] obtain pre post where
    d: "dec_opBuf d = pre @ (b # ys) @ post"
      "unat (dec_pc d + of_nat (length xs)) = length pre" by blast
  show "dec_u8 (dec_pc d + of_nat (length xs)) d = Inr b" unfolding dec_u8_def d(2) by (simp add: d(1))
  then show "dec_first (dec_pc d + of_nat (length xs)) d = Inr b"
    unfolding dec_first_def d(2) by (simp add: d(1))
qed

text \<open>The offsets at which the operands of an operation lie.\<close>

lemma dec_at_0:
  "at_pc d (le_bytes 4 w @ ys) \<Longrightarrow> dec_u32 (dec_pc d) d = Inr w"
  "at_pc d (le_bytes 2 v @ ys) \<Longrightarrow> dec_u16 (dec_pc d) d = Inr v"
  using dec_word_at [of d "[]" 4 w ys] dec_word_at [of d "[]" 2 v ys]
  by (simp_all add: dec_u32_def dec_u16_def)

lemma dec_at_4:
  "at_pc d (le_bytes 4 v @ le_bytes 4 w @ ys) \<Longrightarrow> dec_u32 (dec_pc d + 4) d = Inr (w :: u32)"
  using dec_word_at [of d "le_bytes 4 v" 4 w ys] by (simp add: dec_u32_def)

lemma dec_at_8:
  "at_pc d (le_bytes 4 u @ le_bytes 4 v @ le_bytes 4 w @ ys) \<Longrightarrow> dec_u32 (dec_pc d + 8) d = Inr (w :: u32)"
  using dec_word_at [of d "le_bytes 4 u @ le_bytes 4 v" 4 w ys] by (simp add: dec_u32_def)

lemma dec_u8_at_2: "at_pc d (le_bytes 2 v @ b # ys) \<Longrightarrow> dec_u8 (dec_pc d + 2) d = Inr b"
  using dec_u8_at [of d "le_bytes 2 v" b ys] by simp

lemma dec_u8_at_8:
  assumes "at_pc d (le_bytes 4 u @ le_bytes 4 v @ b # ys)"
  shows "dec_u8 (dec_pc d + 8) d = Inr b" "dec_first (dec_pc d + 8) d = Inr b"
  using dec_u8_at [of d "le_bytes 4 u @ le_bytes 4 v" b ys] assms by simp_all

lemma dec_u8_at_9: "at_pc d (le_bytes 4 u @ le_bytes 4 v @ a # b # ys) \<Longrightarrow> dec_u8 (dec_pc d + 9) d = Inr b"
  using dec_u8_at [of d "le_bytes 4 u @ le_bytes 4 v @ [a]" b ys] by simp

lemma dec_u8_at_10:
  "at_pc d (le_bytes 4 u @ le_bytes 4 v @ a # a' # b # ys) \<Longrightarrow> dec_u8 (dec_pc d + 10) d = Inr b"
  using dec_u8_at [of d "le_bytes 4 u @ le_bytes 4 v @ [a, a']" b ys] by simp

lemma dec_u8_at_11:
  "at_pc d (le_bytes 4 u @ le_bytes 4 v @ a # a' # a'' # b # ys) \<Longrightarrow> dec_u8 (dec_pc d + 11) d = Inr b"
  using dec_u8_at [of d "le_bytes 4 u @ le_bytes 4 v @ [a, a', a'']" b ys] by simp

lemmas dec_at =
  dec_at_0 dec_at_4 dec_at_8 dec_u8_at_2 dec_u8_at_8 dec_u8_at_9 dec_u8_at_10 dec_u8_at_11

lemmas Decode_defs =
  DecodeCall_def DecodeCondJump_def DecodeDecrement_def
  DecodeEnqueueEmptyInterface_def DecodeEnqueueInterface_def DecodeEnqueuePointer_def
  DecodeEnqueueSliceHeader_def DecodeEnqueueStringHeader_def DecodeEnqueueHMapHeader_def
  DecodeEnqueueSwissMap_def DecodeEnqueueSwissMapGroups_def DecodeEnqueueSubroutine_def
  DecodeJump_def DecodePop_def DecodePushImm_def
  DecodePushOffset_def DecodePushSliceLen_def DecodeReturn_def
  DecodeSetOffset_def DecodeAdvanceOffset_def DecodeDereferenceCFAOffset_def
  DecodeCopyFromRegister_def DecodeSaveExprResult_def DecodeDereferencePtr_def
  DecodeZeroFill_def DecodeSetPresenceBit_def DecodePrepareFrameData_def
  DecodePrepareGoContext_def DecodeTraverseGoContext_def DecodeConcludeGoContext_def
  DecodeIllegal_def

lemma decode_operands_bytes:
  "at_pc d (operand_bytes a) \<Longrightarrow>
   decode_operands (code_of a) d = Inr (Some a, advance (of_nat (length (operand_bytes a))) d)"
  by (cases a) (simp_all add: Decode_defs dec_at dec_at [where ys = "[]", simplified] advance_def)

lemma PopOpCode_bytes:
  assumes "at_pc d (op_bytes a)"
  shows "PopOpCode d = Inr (code_of a, advance 1 d)" "at_pc (advance 1 d) (operand_bytes a)"
proof -
  show "PopOpCode d = Inr (code_of a, advance 1 d)"
    using dec_u8_at(1) [of d "[]"] assms by (simp add: PopOpCode_def op_bytes_def)
  show "at_pc (advance 1 d) (operand_bytes a)"
    using at_pc_advance [of d "[opcode_num (code_of a)]" "operand_bytes a"] assms
    by (simp add: op_bytes_def)
qed

lemma length_op_bytes: "length (op_bytes a) = Suc (length (operand_bytes a))"
  by (simp add: op_bytes_def)

fun decode_all :: "nat \<Rightarrow> OpDecoder \<Rightarrow> (AnyOp option list \<times> OpDecoder) res" where
  "decode_all 0 d = Inr ([], d)"
| "decode_all (Suc n) d =
     bindE (PopOpCode d) (\<lambda>(c, d1).
     bindE (decode_operands c d1) (\<lambda>(a, d2).
     bindE (decode_all n d2) (\<lambda>(as, d3).
     Inr (a # as, d3))))"

lemma advance_advance [simp]: "advance m (advance n d) = advance (n + m) d"
  by (simp add: advance_def add.assoc)

lemma decode_all_bytes:
  "at_pc d (concat (map op_bytes as)) \<Longrightarrow>
   decode_all (length as) d = Inr (map Some as, advance (of_nat (length (concat (map op_bytes as)))) d)"
proof (induction as arbitrary: d)
  case Nil
  then show ?case by (simp add: advance_def)
next
  case (Cons a as)
  have at: "at_pc d (op_bytes a @ concat (map op_bytes as))" using Cons.prems by simp
  note pop = PopOpCode_bytes [OF at_pc_prefix [OF at]]
  note ops = decode_operands_bytes [OF pop(2)]
  have "at_pc (advance (of_nat (length (op_bytes a))) d) (concat (map op_bytes as))"
    by (rule at_pc_advance [OF at])
  from Cons.IH [OF this] show ?case by (simp add: pop(1) ops length_op_bytes add.assoc)
qed

lemma SetPC_PopOpCode:
  assumes "SetPC pc d = (True, d1)" "length (dec_opBuf d) < 2 ^ 32"
  shows "\<exists>c d2. PopOpCode d1 = Inr (c, d2)"
proof -
  have "pc < of_nat (length (dec_opBuf d))" "d1 = d\<lparr>dec_pc := pc\<rparr>"
    using assms(1) by (auto simp: SetPC_def not_le split: if_splits)
  then have "unat pc < length (dec_opBuf d1)"
    using assms(2) by (simp add: word_less_nat_alt unat_of_nat_u32)
  then show ?thesis by (simp add: PopOpCode_def dec_u8_def \<open>d1 = _\<close>)
qed

subsection \<open>Properties\<close>

text \<open>
  C16. The byte code round trips: for every sequence of operations whose encoding fits a 32-bit program
  counter, popping the op code and decoding the operands with the \<open>Decode\<close> function of its case gives
  the operations back in order, and the program counter ends exactly past the last one.
\<close>

theorem decode_encode_round_trip:
  assumes "length (concat (map op_bytes as)) < 2 ^ 32"
  shows "decode_all (length as) (MakeOpDecoder (concat (map op_bytes as))) =
    Inr (map Some as,
      \<lparr>dec_pc = of_nat (length (concat (map op_bytes as))), dec_opBuf = concat (map op_bytes as)\<rparr>)"
proof -
  have "at_pc (MakeOpDecoder (concat (map op_bytes as))) (concat (map op_bytes as))"
    using assms by (auto simp: at_pc_def MakeOpDecoder_def intro!: exI [of _ "[]"])
  from decode_all_bytes [OF this] show ?thesis by (simp add: MakeOpDecoder_def advance_def)
qed

definition example_ops :: "AnyOp list" where
  "example_ops =
     [APushImm \<lparr>pushImm_Value = 258\<rparr>, ADecrement,
      ACopyFromRegister \<lparr>copyReg_Register = 513, copyReg_ByteSize = 8\<rparr>, AReturn]"

lemma le_bytes_step: "0 < n \<Longrightarrow> le_bytes n w = ucast w # le_bytes (n - 1) (drop_bit 8 w)"
  by (cases n) simp_all

lemma example_ops_bytes: "concat (map op_bytes example_ops) = [12, 2, 1, 0, 0, 3, 20, 1, 2, 8, 15]"
  by (simp add: example_ops_def op_bytes_def le_bytes_step)

theorem decode_encode_round_trip_witness:
  "decode_all 4 (MakeOpDecoder [12, 2, 1, 0, 0, 3, 20, 1, 2, 8, 15]) =
   Inr (map Some example_ops, \<lparr>dec_pc = 11, dec_opBuf = [12, 2, 1, 0, 0, 3, 20, 1, 2, 8, 15]\<rparr>)"
proof -
  have "length example_ops = 4" by (simp add: example_ops_def)
  then show ?thesis
    using decode_encode_round_trip [of example_ops] unfolding example_ops_bytes by simp
qed

end
