(* ===== verification/Opcode_String.thy ===== *)
theory Opcode_String
  imports Op_Decoder
begin

text \<open>
  The printed names of the op codes (\<open>internal/stackmachine/opcode_string.go\<close>, written by stringer): two
  strings that hold all the names one after the other, two tables of offsets into them, and \<open>String\<close>,
  which slices them. \<open>opcode_checks\<close> is the list of compile-time assertions of the file, that the
  constants still have the values they had when it was generated.

  The specification is \<open>const_name\<close>, the identifier of each constant in \<open>op_decoder.go\<close>.
\<close>

definition opcode_checks :: "(OpCode \<times> u8) list" where
  "opcode_checks =
    [(OpCodeInvalid, 0),
     (OpCodeChasePointers, 26),
     (OpCodeCall, 1),
     (OpCodeCondJump, 2),
     (OpCodeDecrement, 3),
     (OpCodeEnqueueEmptyInterface, 4),
     (OpCodeEnqueueInterface, 5),
     (OpCodeEnqueuePointer, 6),
     (OpCodeEnqueueSliceHeader, 7),
     (OpCodeEnqueueStringHeader, 8),
     (OpCodeEnqueueHMapHeader, 9),
     (OpCodeEnqueueSwissMap, 31),
     (OpCodeEnqueueSwissMapGroups, 32),
     (OpCodeEnqueueSubroutine, 33),
     (OpCodeJump, 10),
     (OpCodePop, 11),
     (OpCodePushImm, 12),
     (OpCodePushOffset, 13),
     (OpCodePushSliceLen, 14),
     (OpCodeReturn, 15),
     (OpCodeSetOffset, 16),
     (OpCodeAdvanceOffset, 17),
     (OpCodeDereferenceCFAOffset, 19),
     (OpCodeCopyFromRegister, 20),
     (OpCodePrepareExprEval, 36),
     (OpCodeSaveExprResult, 34),
     (OpCodeDereferencePtr, 35),
     (OpCodeZeroFill, 21),
     (OpCodeSetPresenceBit, 30),
     (OpCodePreparePointeeData, 37),
     (OpCodePrepareFrameData, 22),
     (OpCodeConcludeFrameData, 25),
     (PrepareEventData, 24),
     (OpCodePrepareGoContext, 27),
     (OpCodeTraverseGoContext, 28),
     (OpCodeConcludeGoContext, 29),
     (OpCodeIllegal, 23)]"

definition OpCode_name_0 :: string where
  "OpCode_name_0 =
     ''OpCodeInvalidOpCodeCallOpCodeCondJumpOpCodeDecrementOpCodeEnqueueEmptyInterfaceO'' @
     ''pCodeEnqueueInterfaceOpCodeEnqueuePointerOpCodeEnqueueSliceHeaderOpCodeEnqueueSt'' @
     ''ringHeaderOpCodeEnqueueHMapHeaderOpCodeJumpOpCodePopOpCodePushImmOpCodePushOffse'' @
     ''tOpCodePushSliceLenOpCodeReturnOpCodeSetOffsetOpCodeAdvanceOffset''"

definition OpCode_name_1 :: string where
  "OpCode_name_1 =
     ''OpCodeDereferenceCFAOffsetOpCodeCopyFromRegisterOpCodeZeroFillOpCodePrepareFrame'' @
     ''DataOpCodeIllegalPrepareEventDataOpCodeConcludeFrameDataOpCodeChasePointersOpCod'' @
     ''ePrepareGoContextOpCodeTraverseGoContextOpCodeConcludeGoContextOpCodeSetPresence'' @
     ''BitOpCodeEnqueueSwissMapOpCodeEnqueueSwissMapGroupsOpCodeEnqueueSubroutineOpCode'' @
     ''SaveExprResultOpCodeDereferencePtrOpCodePrepareExprEvalOpCodePreparePointeeData''"

definition OpCode_index_0 :: "nat list" where
  "OpCode_index_0 = [0, 13, 23, 37, 52, 79, 101, 121, 145, 170, 193, 203, 212, 225, 241, 259, 271, 286, 305]"

definition OpCode_index_1 :: "nat list" where
  "OpCode_index_1 = [0, 26, 48, 62, 84, 97, 113, 136, 155, 177, 200, 223, 243, 264, 291, 314, 334, 354, 375, 399]"

text \<open>\<open>s[a:b]\<close>, and \<open>strconv.FormatInt(n, 10)\<close> of a number that is not negative.\<close>

definition slice_str :: "string \<Rightarrow> nat \<Rightarrow> nat \<Rightarrow> string res" where
  "slice_str s a b = (if a \<le> b \<and> b \<le> length s then Inr (sub s a (b - a)) else Inl SliceOutOfRange)"

definition digit_char :: "nat \<Rightarrow> char" where
  "digit_char n = char_of (48 + n)"

fun FormatInt :: "nat \<Rightarrow> string" where
  "FormatInt n = (if n < 10 then [digit_char n] else FormatInt (n div 10) @ [digit_char (n mod 10)])"

declare FormatInt.simps [simp del]

definition index_at :: "nat list \<Rightarrow> nat \<Rightarrow> nat res" where
  "index_at xs i = (if i < length xs then Inr (xs ! i) else Inl IndexOutOfRange)"

definition OpCode_String :: "u8 \<Rightarrow> string res" where
  "OpCode_String i =
     (if i \<le> 17 then
        bindE (index_at OpCode_index_0 (unat i)) (\<lambda>a.
        bindE (index_at OpCode_index_0 (unat i + 1)) (\<lambda>b.
        slice_str OpCode_name_0 a b))
      else if 19 \<le> i \<and> i \<le> 37 then
        (let i = i - 19 in
        bindE (index_at OpCode_index_1 (unat i)) (\<lambda>a.
        bindE (index_at OpCode_index_1 (unat i + 1)) (\<lambda>b.
        slice_str OpCode_name_1 a b)))
      else Inr (''OpCode('' @ FormatInt (unat i) @ '')''))"

fun const_name :: "OpCode \<Rightarrow> string" where
  "const_name OpCodeInvalid = ''OpCodeInvalid''"
| "const_name OpCodeChasePointers = ''OpCodeChasePointers''"
| "const_name OpCodeCall = ''OpCodeCall''"
| "const_name OpCodeCondJump = ''OpCodeCondJump''"
| "const_name OpCodeDecrement = ''OpCodeDecrement''"
| "const_name OpCodeEnqueueEmptyInterface = ''OpCodeEnqueueEmptyInterface''"
| "const_name OpCodeEnqueueInterface = ''OpCodeEnqueueInterface''"
| "const_name OpCodeEnqueuePointer = ''OpCodeEnqueuePointer''"
| "const_name OpCodeEnqueueSliceHeader = ''OpCodeEnqueueSliceHeader''"
| "const_name OpCodeEnqueueStringHeader = ''OpCodeEnqueueStringHeader''"
| "const_name OpCodeEnqueueHMapHeader = ''OpCodeEnqueueHMapHeader''"
| "const_name OpCodeEnqueueSwissMap = ''OpCodeEnqueueSwissMap''"
| "const_name OpCodeEnqueueSwissMapGroups = ''OpCodeEnqueueSwissMapGroups''"
| "const_name OpCodeEnqueueSubroutine = ''OpCodeEnqueueSubroutine''"
| "const_name OpCodeJump = ''OpCodeJump''"
| "const_name OpCodePop = ''OpCodePop''"
| "const_name OpCodePushImm = ''OpCodePushImm''"
| "const_name OpCodePushOffset = ''OpCodePushOffset''"
| "const_name OpCodePushSliceLen = ''OpCodePushSliceLen''"
| "const_name OpCodeReturn = ''OpCodeReturn''"
| "const_name OpCodeSetOffset = ''OpCodeSetOffset''"
| "const_name OpCodeAdvanceOffset = ''OpCodeAdvanceOffset''"
| "const_name OpCodeDereferenceCFAOffset = ''OpCodeDereferenceCFAOffset''"
| "const_name OpCodeCopyFromRegister = ''OpCodeCopyFromRegister''"
| "const_name OpCodePrepareExprEval = ''OpCodePrepareExprEval''"
| "const_name OpCodeSaveExprResult = ''OpCodeSaveExprResult''"
| "const_name OpCodeDereferencePtr = ''OpCodeDereferencePtr''"
| "const_name OpCodeZeroFill = ''OpCodeZeroFill''"
| "const_name OpCodeSetPresenceBit = ''OpCodeSetPresenceBit''"
| "const_name OpCodePreparePointeeData = ''OpCodePreparePointeeData''"
| "const_name OpCodePrepareFrameData = ''OpCodePrepareFrameData''"
| "const_name OpCodeConcludeFrameData = ''OpCodeConcludeFrameData''"
| "const_name PrepareEventData = ''PrepareEventData''"
| "const_name OpCodePrepareGoContext = ''OpCodePrepareGoContext''"
| "const_name OpCodeTraverseGoContext = ''OpCodeTraverseGoContext''"
| "const_name OpCodeConcludeGoContext = ''OpCodeConcludeGoContext''"
| "const_name OpCodeIllegal = ''OpCodeIllegal''"
| "const_name (OpCodeOther b) = ''OpCode('' @ FormatInt (unat b) @ '')''"

subsection \<open>The tables\<close>

lemma checks_hold: "list_all (\<lambda>(c, n). opcode_num c = n \<and> opcode_of n = c) opcode_checks"
  by code_simp

lemma checks_complete: "c \<in> fst ` set opcode_checks \<or> (\<exists>b. c = OpCodeOther b)"
  by (cases c) (simp_all add: opcode_checks_def)

fun offsets :: "nat \<Rightarrow> string list \<Rightarrow> nat list" where
  "offsets a [] = [a]"
| "offsets a (x # xs) = a # offsets (a + length x) xs"

lemma length_offsets [simp]: "length (offsets a xs) = Suc (length xs)"
  by (induction xs arbitrary: a) auto

lemma slice_offsets:
  "i < length xs \<Longrightarrow>
   offsets (length ys) xs ! i \<le> offsets (length ys) xs ! Suc i \<and>
   offsets (length ys) xs ! Suc i \<le> length (ys @ concat xs) \<and>
   sub (ys @ concat xs) (offsets (length ys) xs ! i)
     (offsets (length ys) xs ! Suc i - offsets (length ys) xs ! i) = xs ! i"
proof (induction xs arbitrary: i ys)
  case (Cons x xs)
  show ?case
  proof (cases i)
    case 0
    then show ?thesis by (cases xs) (simp_all add: sub_def)
  next
    case (Suc k)
    with Cons.IH [of k "ys @ x"] Cons.prems show ?thesis by simp
  qed
qed simp

lemma slice_str_offsets:
  assumes "i < length xs"
  shows "bindE (index_at (offsets 0 xs) i) (\<lambda>a. bindE (index_at (offsets 0 xs) (i + 1)) (\<lambda>b.
    slice_str (concat xs) a b)) = Inr (xs ! i)"
  using slice_offsets [OF assms, of "[]"] assms by (simp add: index_at_def slice_str_def)

definition codes_0 :: "OpCode list" where
  "codes_0 =
    [OpCodeInvalid,
     OpCodeCall,
     OpCodeCondJump,
     OpCodeDecrement,
     OpCodeEnqueueEmptyInterface,
     OpCodeEnqueueInterface,
     OpCodeEnqueuePointer,
     OpCodeEnqueueSliceHeader,
     OpCodeEnqueueStringHeader,
     OpCodeEnqueueHMapHeader,
     OpCodeJump,
     OpCodePop,
     OpCodePushImm,
     OpCodePushOffset,
     OpCodePushSliceLen,
     OpCodeReturn,
     OpCodeSetOffset,
     OpCodeAdvanceOffset]"

definition codes_1 :: "OpCode list" where
  "codes_1 =
    [OpCodeDereferenceCFAOffset,
     OpCodeCopyFromRegister,
     OpCodeZeroFill,
     OpCodePrepareFrameData,
     OpCodeIllegal,
     PrepareEventData,
     OpCodeConcludeFrameData,
     OpCodeChasePointers,
     OpCodePrepareGoContext,
     OpCodeTraverseGoContext,
     OpCodeConcludeGoContext,
     OpCodeSetPresenceBit,
     OpCodeEnqueueSwissMap,
     OpCodeEnqueueSwissMapGroups,
     OpCodeEnqueueSubroutine,
     OpCodeSaveExprResult,
     OpCodeDereferencePtr,
     OpCodePrepareExprEval,
     OpCodePreparePointeeData]"

lemma tables_0:
  "OpCode_name_0 = concat (map const_name codes_0)" "OpCode_index_0 = offsets 0 (map const_name codes_0)"
  by (simp_all add: OpCode_name_0_def OpCode_index_0_def codes_0_def)

lemma tables_1:
  "OpCode_name_1 = concat (map const_name codes_1)" "OpCode_index_1 = offsets 0 (map const_name codes_1)"
  by (simp_all add: OpCode_name_1_def OpCode_index_1_def codes_1_def)

lemma codes_nums: "map opcode_num codes_0 = map of_nat [0..<18]" "map opcode_num codes_1 = map of_nat [19..<38]"
  by (simp_all add: codes_0_def codes_1_def upt_rec)

lemma length_codes: "length codes_0 = 18" "length codes_1 = 19"
  by (simp_all add: codes_0_def codes_1_def)

lemma codes_not_other: "c \<in> set codes_0 \<union> set codes_1 \<Longrightarrow> c \<noteq> OpCodeOther b"
  by (auto simp: codes_0_def codes_1_def)

lemma codes_nth:
  "k < 18 \<Longrightarrow> codes_0 ! k = opcode_of (of_nat k)"
  "k < 19 \<Longrightarrow> codes_1 ! k = opcode_of (of_nat (19 + k))"
proof -
  assume k: "k < 18"
  have "opcode_num (codes_0 ! k) = of_nat k"
    using arg_cong [OF codes_nums(1), of "\<lambda>xs. xs ! k"] k by (simp add: length_codes)
  moreover have "codes_0 ! k \<noteq> OpCodeOther b" for b using codes_not_other k by (simp add: length_codes)
  ultimately show "codes_0 ! k = opcode_of (of_nat k)" using opcode_of_num [of "codes_0 ! k"] by simp
next
  assume k: "k < 19"
  have "opcode_num (codes_1 ! k) = (map of_nat [19..<38] ! k :: u8)"
    unfolding codes_nums(2) [symmetric] using k by (simp add: length_codes)
  also have "\<dots> = of_nat ([19..<38] ! k)" by (rule nth_map) (use k in simp)
  also have "[19..<38] ! k = 19 + k" by (rule nth_upt) (use k in simp)
  finally have "opcode_num (codes_1 ! k) = of_nat (19 + k)" .
  moreover have "codes_1 ! k \<noteq> OpCodeOther b" for b using codes_not_other k by (simp add: length_codes)
  ultimately show "codes_1 ! k = opcode_of (of_nat (19 + k))"
    using opcode_of_num [of "codes_1 ! k"] by simp
qed

lemma opcode_of_above: "37 < b \<Longrightarrow> opcode_of b = OpCodeOther b"
  by (auto simp: opcode_of_def opcode_table_def)

lemma String_0: "b \<le> 17 \<Longrightarrow> OpCode_String b = Inr (const_name (opcode_of b))"
proof -
  assume b: "b \<le> 17"
  then have "unat b < 18" by (simp add: word_le_nat_alt)
  with b show ?thesis
    using slice_str_offsets [of "unat b" "map const_name codes_0"]
    by (simp add: OpCode_String_def tables_0 codes_nth(1) length_codes)
qed

lemma String_1: "19 \<le> b \<Longrightarrow> b \<le> 37 \<Longrightarrow> OpCode_String b = Inr (const_name (opcode_of b))"
proof -
  assume b: "19 \<le> b" "b \<le> 37"
  then have k: "unat (b - 19) < 19" "unat b = 19 + unat (b - 19)"
    by (simp_all add: word_le_nat_alt unat_sub)
  then have "of_nat (19 + unat (b - 19)) = b" unfolding k(2) [symmetric] by simp
  moreover have "\<not> b \<le> 17" using b(1) by (auto dest: order_trans [of 19 b 17])
  ultimately show ?thesis
    using slice_str_offsets [of "unat (b - 19)" "map const_name codes_1"] b k(1)
    by (simp add: OpCode_String_def tables_1 codes_nth(2) length_codes)
qed

lemma String_other:
  assumes "\<not> b \<le> 17" "\<not> (19 \<le> b \<and> b \<le> 37)"
  shows "OpCode_String b = Inr (const_name (opcode_of b))"
proof -
  have "b = 18 \<or> 37 < b"
    using assms by (auto simp: word_le_nat_alt word_less_nat_alt word_unat_eq_iff)
  then have "opcode_of b = OpCodeOther b" by (auto simp: opcode_of_above) (simp add: opcode_of_def opcode_table_def)
  then show ?thesis using assms by (auto simp: OpCode_String_def)
qed

subsection \<open>Properties\<close>

text \<open>
  The printed name of every op code is right: for all 256 values, \<open>String\<close> slices the tables within
  their bounds and gives the identifier of the constant with that value, or \<open>OpCode(n)\<close> when there is
  none; and the compile-time assertions of the generated file hold and name every constant.
\<close>

theorem String_is_const_name:
  "OpCode_String b = Inr (const_name (opcode_of b)) \<and>
   fst ` set opcode_checks = {c. c \<noteq> OpCodeOther (opcode_num c)} \<and>
   list_all (\<lambda>(c, n). opcode_num c = n) opcode_checks"
proof (intro conjI)
  show "OpCode_String b = Inr (const_name (opcode_of b))"
    using String_0 String_1 String_other by blast
  have "list_all (\<lambda>(c, n). c \<noteq> OpCodeOther (opcode_num c)) opcode_checks"
    by (simp add: opcode_checks_def)
  then have named: "c \<noteq> OpCodeOther (opcode_num c)" if "c \<in> fst ` set opcode_checks" for c
    using that by (auto simp: list_all_iff)
  show "fst ` set opcode_checks = {c. c \<noteq> OpCodeOther (opcode_num c)}"
  proof (rule set_eqI)
    show "c \<in> fst ` set opcode_checks \<longleftrightarrow> c \<in> {c. c \<noteq> OpCodeOther (opcode_num c)}" for c
      using named [of c] checks_complete [of c] by (elim disjE exE) auto
  qed
  show "list_all (\<lambda>(c, n). opcode_num c = n) opcode_checks"
    using checks_hold by (auto simp: list_all_iff)
qed

end
