(* ===== verification/Type_Resolver.thy ===== *)
theory Type_Resolver
  imports Stop_The_World
begin

text \<open>
  From the address of a run-time type to the type id of the snapshot program: the resolver over the
  range of the first module's type section, read from memory once
  (\<open>goRuntimeTypeResolver\<close>, \<open>typeIdResolver\<close> of \<open>internal/snapshot/snapshot.go\<close>), and the search for
  the first module itself (\<open>internal/moduledata/moduledata.go\<close>). \<open>runtime.Caller\<close> and
  \<open>runtime.findfunc\<close> are parameters.
\<close>

subsection \<open>The first module\<close>

record funcInfo =
  fi_datap :: u64

definition GetFirstmoduledata :: "u64 option \<Rightarrow> (u64 \<Rightarrow> funcInfo) \<Rightarrow> u64" where
  "GetFirstmoduledata caller findfunc =
     (case caller of None \<Rightarrow> 0 | Some pc \<Rightarrow> fi_datap (findfunc pc))"

subsection \<open>The resolvers\<close>

record moduledataTypeRange =
  mtr_start :: u64
  mtr_end :: u64

record moduledataConfig =
  mc_runtimeDotFirstmoduledata :: u64
  mc_typesOffset :: u64
  mc_etypesOffset :: u64

record goRuntimeTypeResolver =
  gr_cfg :: moduledataConfig
  gr_cachedFirstmoduledataRange :: moduledataTypeRange

definition makeGoRuntimeTypeResolver :: "RuntimeConfig \<Rightarrow> u64 \<Rightarrow> goRuntimeTypeResolver" where
  "makeGoRuntimeTypeResolver p firstModuledata =
     \<lparr>gr_cfg = \<lparr>mc_runtimeDotFirstmoduledata = firstModuledata,
        mc_typesOffset = ucast (rc_ModuledataTypesOffset p),
        mc_etypesOffset = ucast (rc_ModuledataEtypesOffset p)\<rparr>,
      gr_cachedFirstmoduledataRange = \<lparr>mtr_start = 0, mtr_end = 0\<rparr>\<rparr>"

text \<open>
  \<open>md\<close> is what \<open>moduledata.GetFirstmoduledata()\<close> returns, which the code calls again here instead of
  using the pointer of its configuration.
\<close>

definition maybeResolveFirstmoduledataRange ::
  "memory \<Rightarrow> u64 \<Rightarrow> goRuntimeTypeResolver \<Rightarrow> goRuntimeTypeResolver res" where
  "maybeResolveFirstmoduledataRange mem md m =
     (if mtr_start (gr_cachedFirstmoduledataRange m) \<noteq> 0 then Inr m
      else
        bindE (load_u64 mem (md + mc_typesOffset (gr_cfg m))) (\<lambda>types.
        bindE (load_u64 mem (md + mc_etypesOffset (gr_cfg m))) (\<lambda>etypes.
        Inr (m\<lparr>gr_cachedFirstmoduledataRange := \<lparr>mtr_start = types, mtr_end = etypes\<rparr>\<rparr>))))"

definition ResolveTypeAddressToGoRuntimeTypeId ::
  "memory \<Rightarrow> u64 \<Rightarrow> u64 \<Rightarrow> goRuntimeTypeResolver \<Rightarrow> (u64 \<times> goRuntimeTypeResolver) res" where
  "ResolveTypeAddressToGoRuntimeTypeId mem md addr m =
     bindE (maybeResolveFirstmoduledataRange mem md m) (\<lambda>m1.
     let r = gr_cachedFirstmoduledataRange m1 in
     if addr < mtr_start r \<or> addr \<ge> mtr_end r then Inr (0, m1)
     else Inr (addr - mtr_start r, m1))"

text \<open>A Go map read gives the zero value for a key that is not there.\<close>

definition ResolveGoRuntimeTypeToTypeId :: "(u64 \<rightharpoonup> u32) \<Rightarrow> u64 \<Rightarrow> u32" where
  "ResolveGoRuntimeTypeToTypeId types addr = (case types addr of None \<Rightarrow> 0 | Some t \<Rightarrow> t)"

subsection \<open>What the resolver returns\<close>

definition resolver_for :: "u64 \<Rightarrow> u64 \<Rightarrow> goRuntimeTypeResolver \<Rightarrow> bool" where
  "resolver_for types etypes m \<longleftrightarrow>
     gr_cachedFirstmoduledataRange m = \<lparr>mtr_start = types, mtr_end = etypes\<rparr> \<or>
     mtr_start (gr_cachedFirstmoduledataRange m) = 0"

lemma maybeResolve_range:
  assumes "load_u64 mem (md + mc_typesOffset (gr_cfg m)) = Inr types"
    and "load_u64 mem (md + mc_etypesOffset (gr_cfg m)) = Inr etypes"
    and "resolver_for types etypes m"
  shows "maybeResolveFirstmoduledataRange mem md m =
    Inr (m\<lparr>gr_cachedFirstmoduledataRange := \<lparr>mtr_start = types, mtr_end = etypes\<rparr>\<rparr>)"
proof (cases "mtr_start (gr_cachedFirstmoduledataRange m) = 0")
  case True
  with assms show ?thesis by (simp add: maybeResolveFirstmoduledataRange_def)
next
  case False
  with assms(3) have "gr_cachedFirstmoduledataRange m = \<lparr>mtr_start = types, mtr_end = etypes\<rparr>"
    by (simp add: resolver_for_def)
  moreover from this have "m\<lparr>gr_cachedFirstmoduledataRange := \<lparr>mtr_start = types, mtr_end = etypes\<rparr>\<rparr> = m"
    by (cases m) simp
  ultimately show ?thesis using False by (simp add: maybeResolveFirstmoduledataRange_def)
qed

text \<open>
  The resolver is transparent: whether it has read the type section's bounds already or not, it maps
  an address in the section to its offset from the start of the section, every other address to 0, and
  stays a resolver for that section; so two addresses of the section never get the same id.
\<close>

theorem ResolveTypeAddress_offset:
  assumes "load_u64 mem (md + mc_typesOffset (gr_cfg m)) = Inr types"
    and "load_u64 mem (md + mc_etypesOffset (gr_cfg m)) = Inr etypes"
    and "resolver_for types etypes m"
  shows "\<exists>m'. ResolveTypeAddressToGoRuntimeTypeId mem md addr m =
      Inr (if types \<le> addr \<and> addr < etypes then addr - types else 0, m') \<and>
    resolver_for types etypes m' \<and> gr_cfg m' = gr_cfg m"
  using maybeResolve_range [OF assms]
  by (auto simp: ResolveTypeAddressToGoRuntimeTypeId_def Let_def resolver_for_def not_less not_le)

lemma read_bytes_step:
  "0 < n \<Longrightarrow> read_bytes mem a n =
     (case mem a of
        None \<Rightarrow> None
      | Some b \<Rightarrow> (case read_bytes mem (a + 1) (n - 1) of None \<Rightarrow> None | Some bs \<Rightarrow> Some (b # bs)))"
  by (cases n) (auto split: option.split)

definition example_types_mem :: memory where
  "example_types_mem a =
     (if a = 4096 then Some 80 else if a = 4104 then Some 96
      else if 4096 \<le> a \<and> a < 4112 then Some 0 else None)"

definition example_resolver :: goRuntimeTypeResolver where
  "example_resolver =
     makeGoRuntimeTypeResolver (zero_RuntimeConfig\<lparr>rc_ModuledataEtypesOffset := 8\<rparr>) 4096"

theorem ResolveTypeAddress_offset_witness:
  "\<exists>m'. ResolveTypeAddressToGoRuntimeTypeId example_types_mem 4096 83 example_resolver = Inr (3, m') \<and>
     resolver_for 80 96 m' \<and> gr_cfg m' = gr_cfg example_resolver"
proof -
  have off: "mc_typesOffset (gr_cfg example_resolver) = 0" "mc_etypesOffset (gr_cfg example_resolver) = 8"
    by (simp_all add: example_resolver_def makeGoRuntimeTypeResolver_def zero_RuntimeConfig_def)
  have l: "load_u64 example_types_mem (4096 + mc_typesOffset (gr_cfg example_resolver)) = Inr 80"
    "load_u64 example_types_mem (4096 + mc_etypesOffset (gr_cfg example_resolver)) = Inr 96"
    unfolding off load_u64_def by (simp_all add: read_bytes_step example_types_mem_def)
  have "resolver_for 80 96 example_resolver"
    by (simp add: resolver_for_def example_resolver_def makeGoRuntimeTypeResolver_def)
  from ResolveTypeAddress_offset [OF l this, of 83] show ?thesis by simp
qed

end
