(* ===== verification/Stack_Machine.thy ===== *)
theory Stack_Machine
  imports Op_Decoder Out_Buf Snap_Queue Type_Resolver
begin

text \<open>
  The interpreter of the byte code of a snapshot program (\<open>internal/snapshot/stack_machine.go\<close>).

  \<open>machine\<close> is \<open>stackMachine\<close> with what its pointers \<open>q\<close>, \<open>b\<close> and \<open>g\<close> point to (the snapshotter reaches
  the same objects through the machine); \<open>run_env\<close> is what it only reads: the program, the map of
  type ids, the memory of the stopped process and what \<open>moduledata.GetFirstmoduledata\<close> returns. The
  stack is a list with its top first.

  Every case of the switch in \<open>Run\<close> is a definition \<open>exec_\<dots>\<close> of its own. It returns \<open>Next\<close> when the
  loop goes on (the end of the case, a \<open>break\<close> or a \<open>continue\<close>) and \<open>Ret ok\<close> when \<open>Run\<close> returns.
\<close>

subsection \<open>State\<close>

datatype ExprType = Frame | Pointer

record machine =
  sm_stack :: "u32 list"
  sm_offset :: u32
  sm_cfa :: u64
  sm_decoder :: OpDecoder
  sm_frameHeader :: "nat option"
  sm_exprResultsOffset :: u32
  sm_exprResultsEndOffset :: u32
  sm_exprType :: ExprType
  sm_rootAddr :: u64
  sm_chasedEntry :: QueueEntry
  sm_goContextOffset :: u32
  sm_goContextCaptureBitmask :: u64
  sm_bssAddrShift :: "u64 option"
  sm_q :: queue
  sm_b :: outBuf
  sm_g :: goRuntimeTypeResolver

record run_env =
  en_p :: SnapshotProgram
  en_t :: "u64 \<rightharpoonup> u32"
  en_mem :: memory
  en_md :: u64

definition newStackMachine :: "SnapshotProgram \<Rightarrow> queue \<Rightarrow> outBuf \<Rightarrow> goRuntimeTypeResolver \<Rightarrow> machine" where
  "newStackMachine p q b g =
     \<lparr>sm_stack = [], sm_offset = 0, sm_cfa = 0, sm_decoder = MakeOpDecoder (sp_Prog p),
      sm_frameHeader = None, sm_exprResultsOffset = 0, sm_exprResultsEndOffset = 0,
      sm_exprType = Frame, sm_rootAddr = 0, sm_chasedEntry = zero_QueueEntry,
      sm_goContextOffset = 0, sm_goContextCaptureBitmask = 0, sm_bssAddrShift = None,
      sm_q = q, sm_b = b, sm_g = g\<rparr>"

datatype ctl = Next | Ret bool

type_synonym step_res = "(ctl \<times> machine) res"

subsection \<open>Access to the parts of the machine\<close>

definition m_decode :: "(OpDecoder \<Rightarrow> ('a \<times> OpDecoder) res) \<Rightarrow> machine \<Rightarrow> ('a \<times> machine) res" where
  "m_decode dec m = bindE (dec (sm_decoder m)) (\<lambda>(r, d). Inr (r, m\<lparr>sm_decoder := d\<rparr>))"

definition m_SetPC :: "u32 \<Rightarrow> machine \<Rightarrow> bool \<times> machine" where
  "m_SetPC pc m = (let (ok, d) = SetPC pc (sm_decoder m) in (ok, m\<lparr>sm_decoder := d\<rparr>))"

definition m_buf :: "(outBuf \<Rightarrow> outBuf res) \<Rightarrow> machine \<Rightarrow> machine res" where
  "m_buf f m = bindE (f (sm_b m)) (\<lambda>b. Inr (m\<lparr>sm_b := b\<rparr>))"

definition m_bufr :: "(outBuf \<Rightarrow> ('a \<times> outBuf) res) \<Rightarrow> machine \<Rightarrow> ('a \<times> machine) res" where
  "m_bufr f m = bindE (f (sm_b m)) (\<lambda>(r, b). Inr (r, m\<lparr>sm_b := b\<rparr>))"

definition m_push :: "u64 \<Rightarrow> u32 \<Rightarrow> u32 \<Rightarrow> machine \<Rightarrow> machine res" where
  "m_push a t n m = bindE (queue_Push a t n (sm_q m)) (\<lambda>(_, q). Inr (m\<lparr>sm_q := q\<rparr>))"

definition m_resolve :: "run_env \<Rightarrow> u64 \<Rightarrow> machine \<Rightarrow> (u64 \<times> machine) res" where
  "m_resolve en a m =
     bindE (ResolveTypeAddressToGoRuntimeTypeId (en_mem en) (en_md en) a (sm_g m)) (\<lambda>(r, g).
     Inr (r, m\<lparr>sm_g := g\<rparr>))"

definition m_top :: "machine \<Rightarrow> u32 res" where
  "m_top m = (case sm_stack m of [] \<Rightarrow> Inl IndexOutOfRange | x # _ \<Rightarrow> Inr x)"

definition m_set_top :: "u32 \<Rightarrow> machine \<Rightarrow> machine res" where
  "m_set_top v m =
     (case sm_stack m of [] \<Rightarrow> Inl IndexOutOfRange | _ # s \<Rightarrow> Inr (m\<lparr>sm_stack := v # s\<rparr>))"

definition m_append :: "u32 \<Rightarrow> machine \<Rightarrow> machine" where
  "m_append v m = m\<lparr>sm_stack := v # sm_stack m\<rparr>"

abbreviation next_op :: "machine \<Rightarrow> step_res" where
  "next_op m \<equiv> Inr (Next, m)"

abbreviation ret_op :: "bool \<Rightarrow> machine \<Rightarrow> step_res" where
  "ret_op ok m \<equiv> Inr (Ret ok, m)"

subsection \<open>Interfaces behind the data\<close>

record ResolvedEmptyInterface =
  rei_addr :: u64
  rei_goRuntimeType :: u64

record ResolvedAnyType =
  rat_e :: ResolvedEmptyInterface
  rat_typeId :: u32
  rat_typeInfo :: TypeInfo

definition resolveEmptyInterface ::
  "run_env \<Rightarrow> machine \<Rightarrow> (ResolvedEmptyInterface option \<times> machine) res" where
  "resolveEmptyInterface en m =
     (let ptr = Ptr (sm_offset m) in
      bindE (ob_load64 ptr (sm_b m)) (\<lambda>ty.
      bindE (ob_load64 (ptr + 8) (sm_b m)) (\<lambda>data.
      if ty = 0 then Inr (None, m)
      else
        bindE (m_resolve en ty m) (\<lambda>(goRuntimeType, m1).
        Inr (Some \<lparr>rei_addr = data, rei_goRuntimeType = goRuntimeType\<rparr>, m1)))))"

definition resolveAnyType :: "run_env \<Rightarrow> machine \<Rightarrow> (ResolvedAnyType option \<times> machine) res" where
  "resolveAnyType en m =
     bindE (resolveEmptyInterface en m) (\<lambda>(eo, m1).
     case eo of
       None \<Rightarrow> Inr (None, m1)
     | Some e \<Rightarrow>
         if rei_goRuntimeType e = 0 then Inr (None, m1)
         else
           (let typeId = ResolveGoRuntimeTypeToTypeId (en_t en) (rei_goRuntimeType e) in
            if typeId = 0 then Inr (None, m1)
            else
              (case sp_TypeInfo (en_p en) typeId of
                 None \<Rightarrow> Inr (None, m1)
               | Some ti \<Rightarrow> Inr (Some \<lparr>rat_e = e, rat_typeId = typeId, rat_typeInfo = ti\<rparr>, m1))))"

definition recordGoContextValue ::
  "GoContextValueType \<Rightarrow> ResolvedAnyType \<Rightarrow> u32 \<Rightarrow> machine \<Rightarrow> machine res" where
  "recordGoContextValue spec value expectedType m =
     (let bitv = push_bit (unat (gcv_Index spec)) 1 in
      if sm_goContextCaptureBitmask m AND bitv = 0 then Inr m
      else
        (let m1 = m\<lparr>sm_goContextCaptureBitmask := sm_goContextCaptureBitmask m AND NOT bitv\<rparr> in
         bindE (m_buf (ob_store64 (Ptr (sm_goContextOffset m1 + gcv_Offset spec + 0))
                         (rei_addr (rat_e value))) m1) (\<lambda>m2.
         bindE (m_buf (ob_store64 (Ptr (sm_goContextOffset m1 + gcv_Offset spec + 8))
                         (rei_goRuntimeType (rat_e value))) m2) (\<lambda>m3.
         if expectedType \<noteq> 0 \<and> expectedType \<noteq> rat_typeId value then Inr m3
         else
           m_push (rei_addr (rat_e value))
             (if gcv_Type spec = 0 then rat_typeId value else gcv_Type spec) 0 m3))))"

subsection \<open>Control\<close>

text \<open>\<open>ExecuteReturn\<close>: \<open>None\<close> is its nil result (go on), \<open>Some ok\<close> the value \<open>Run\<close> returns.\<close>

definition ExecuteReturn :: "machine \<Rightarrow> bool option \<times> machine" where
  "ExecuteReturn m =
     (case sm_stack m of
        [] \<Rightarrow> (Some True, m)
      | r # s \<Rightarrow>
          (let (ok, m1) = m_SetPC r m in
           if \<not> ok then (Some False, m1) else (None, m1\<lparr>sm_stack := s\<rparr>)))"

definition exec_return :: "machine \<Rightarrow> step_res" where
  "exec_return m = (case ExecuteReturn m of (None, m1) \<Rightarrow> next_op m1 | (Some ok, m1) \<Rightarrow> ret_op ok m1)"

definition jump_to :: "u32 \<Rightarrow> machine \<Rightarrow> step_res" where
  "jump_to pc m = (let (ok, m1) = m_SetPC pc m in if \<not> ok then ret_op False m1 else next_op m1)"

definition exec_Call :: "machine \<Rightarrow> step_res" where
  "exec_Call m =
     bindE (m_decode DecodeCall m) (\<lambda>(c, m1).
     jump_to (call_Pc c) (m_append (PC (sm_decoder m1)) m1))"

definition exec_CondJump :: "machine \<Rightarrow> step_res" where
  "exec_CondJump m =
     bindE (m_decode DecodeCondJump m) (\<lambda>(c, m1).
     bindE (m_top m1) (\<lambda>x.
     if x \<noteq> 0 then jump_to (condJump_Pc c) m1 else next_op m1))"

definition exec_Decrement :: "machine \<Rightarrow> step_res" where
  "exec_Decrement m =
     bindE (m_decode DecodeDecrement m) (\<lambda>(_, m1).
     bindE (m_top m1) (\<lambda>x.
     bindE (m_set_top (x - 1) m1) next_op))"

definition exec_Jump :: "machine \<Rightarrow> step_res" where
  "exec_Jump m = bindE (m_decode DecodeJump m) (\<lambda>(j, m1). jump_to (jump_Pc j) m1)"

definition exec_Pop :: "machine \<Rightarrow> step_res" where
  "exec_Pop m =
     bindE (m_decode DecodePop m) (\<lambda>(_, m1).
     case sm_stack m1 of [] \<Rightarrow> Inl SliceOutOfRange | _ # s \<Rightarrow> next_op (m1\<lparr>sm_stack := s\<rparr>))"

definition exec_PushImm :: "machine \<Rightarrow> step_res" where
  "exec_PushImm m =
     bindE (m_decode DecodePushImm m) (\<lambda>(i, m1). next_op (m_append (pushImm_Value i) m1))"

definition exec_PushOffset :: "machine \<Rightarrow> step_res" where
  "exec_PushOffset m =
     bindE (m_decode DecodePushOffset m) (\<lambda>(_, m1). next_op (m_append (sm_offset m1) m1))"

definition exec_PushSliceLen :: "machine \<Rightarrow> step_res" where
  "exec_PushSliceLen m =
     bindE (m_decode DecodePushSliceLen m) (\<lambda>(c, m1).
     bindE (GetEntryLen (sm_offset m1) (sm_b m1)) (\<lambda>entryLen.
     bindE (guardE DivideByZero (pushLen_ElemByteLen c \<noteq> 0)) (\<lambda>_.
     next_op (m_append (entryLen div pushLen_ElemByteLen c) m1))))"

definition exec_SetOffset :: "machine \<Rightarrow> step_res" where
  "exec_SetOffset m =
     bindE (m_decode DecodeSetOffset m) (\<lambda>(_, m1).
     bindE (m_top m1) (\<lambda>x. next_op (m1\<lparr>sm_offset := x\<rparr>)))"

definition exec_AdvanceOffset :: "machine \<Rightarrow> step_res" where
  "exec_AdvanceOffset m =
     bindE (m_decode DecodeAdvanceOffset m) (\<lambda>(c, m1).
     next_op (m1\<lparr>sm_offset := sm_offset m1 + adv_Increment c\<rparr>))"

text \<open>The \<open>Illegal\<close> operation reads the address that its program counter happens to be, unguarded.\<close>

definition exec_Illegal :: "run_env \<Rightarrow> u32 \<Rightarrow> machine \<Rightarrow> step_res" where
  "exec_Illegal en pc m =
     bindE (load_u64 (en_mem en) (ucast pc)) (\<lambda>v. if v > 0 then ret_op False m else next_op m)"

subsection \<open>Enqueueing\<close>

definition exec_EnqueueEmptyInterface :: "run_env \<Rightarrow> machine \<Rightarrow> step_res" where
  "exec_EnqueueEmptyInterface en m =
     bindE (m_decode DecodeEnqueueEmptyInterface m) (\<lambda>(_, m1).
     bindE (resolveEmptyInterface en m1) (\<lambda>(eo, m2).
     case eo of
       None \<Rightarrow> next_op m2
     | Some e \<Rightarrow>
         bindE (m_buf (ob_store64 (Ptr (sm_offset m2)) (rei_goRuntimeType e)) m2) (\<lambda>m3.
         let typeId = ResolveGoRuntimeTypeToTypeId (en_t en) (rei_goRuntimeType e) in
         if typeId = 0 then next_op m3
         else bindE (m_push (rei_addr e) typeId 0 m3) next_op)))"

definition exec_EnqueueInterface :: "run_env \<Rightarrow> machine \<Rightarrow> step_res" where
  "exec_EnqueueInterface en m =
     bindE (m_decode DecodeEnqueueEmptyInterface m) (\<lambda>(_, m1).
     let ptr = Ptr (sm_offset m1) in
     bindE (ob_load64 ptr (sm_b m1)) (\<lambda>itab.
     if itab = 0 then next_op m1
     else
       bindE (m_bufr (ob_Dereference (en_mem en) (sm_offset m1) (itab + 8) 8) m1) (\<lambda>(ok, m2).
       if \<not> ok then next_op m2
       else
         bindE (ob_load64 ptr (sm_b m2)) (\<lambda>itab'.
         bindE (m_resolve en itab' m2) (\<lambda>(goRuntimeType, m3).
         bindE (m_buf (ob_store64 ptr goRuntimeType) m3) (\<lambda>m4.
         let typeId = ResolveGoRuntimeTypeToTypeId (en_t en) goRuntimeType in
         if typeId = 0 then next_op m4
         else
           bindE (ob_load64 (ptr + 8) (sm_b m4)) (\<lambda>data.
           bindE (m_push data typeId 0 m4) next_op)))))))"

definition exec_EnqueuePointer :: "machine \<Rightarrow> step_res" where
  "exec_EnqueuePointer m =
     bindE (m_decode DecodeEnqueuePointer m) (\<lambda>(c, m1).
     if enqPtr_ElemType c = 0 then ret_op False m1
     else
       bindE (ob_load64 (Ptr (sm_offset m1)) (sm_b m1)) (\<lambda>addr.
       bindE (m_push addr (enqPtr_ElemType c) 0 m1) next_op))"

definition exec_EnqueueSliceHeader :: "machine \<Rightarrow> step_res" where
  "exec_EnqueueSliceHeader m =
     bindE (m_decode DecodeEnqueueSliceHeader m) (\<lambda>(c, m1).
     bindE (ob_load64 (Ptr (sm_offset m1 + 8)) (sm_b m1)) (\<lambda>len.
     if sint len > 0 \<and> enqSlice_ElemByteLen c > 0 then
       bindE (ob_load64 (Ptr (sm_offset m1)) (sm_b m1)) (\<lambda>addr.
       bindE (m_push addr (enqSlice_ArrayType c) (ucast (len * ucast (enqSlice_ElemByteLen c))) m1) next_op)
     else next_op m1))"

definition exec_EnqueueStringHeader :: "machine \<Rightarrow> step_res" where
  "exec_EnqueueStringHeader m =
     bindE (m_decode DecodeEnqueueStringHeader m) (\<lambda>(c, m1).
     bindE (ob_load64 (Ptr (sm_offset m1 + 8)) (sm_b m1)) (\<lambda>len.
     if sint len > 0 then
       bindE (ob_load64 (Ptr (sm_offset m1)) (sm_b m1)) (\<lambda>addr.
       bindE (m_push addr (enqStr_StringDataType c) (ucast len) m1) next_op)
     else next_op m1))"

definition sameSizeGrow :: u8 where
  "sameSizeGrow = 8"

definition exec_EnqueueHMapHeader :: "machine \<Rightarrow> step_res" where
  "exec_EnqueueHMapHeader m =
     bindE (m_set_top 0 m) (\<lambda>m0.
     bindE (m_decode DecodeEnqueueHMapHeader m0) (\<lambda>(c, m1).
     bindE (ob_load8 (Ptr (sm_offset m1 + ucast (hmap_FlagsOffset c))) (sm_b m1)) (\<lambda>flags.
     bindE (ob_load8 (Ptr (sm_offset m1 + ucast (hmap_BOffset c))) (sm_b m1)) (\<lambda>b.
     bindE (ob_load64 (Ptr (sm_offset m1 + ucast (hmap_BucketsOffset c))) (sm_b m1)) (\<lambda>bucketsAddr.
     bindE (if bucketsAddr \<noteq> 0 then
              (let numBuckets = push_bit (unat b) 1;
                   bucketsSize = numBuckets * hmap_BucketByteLen c
               in m_push bucketsAddr (hmap_BucketsArrayType c) bucketsSize m1)
            else Inr m1) (\<lambda>m2.
     bindE (ob_load64 (Ptr (sm_offset m2 + ucast (hmap_OldBucketsOffset c))) (sm_b m2)) (\<lambda>oldBucketsAddr.
     if oldBucketsAddr \<noteq> 0 then
       (let numBuckets = push_bit (unat b) 1;
            numBuckets' = (if flags AND sameSizeGrow = 0 then drop_bit 1 numBuckets else numBuckets);
            oldBucketsSize = numBuckets' * hmap_BucketByteLen c
        in bindE (m_push oldBucketsAddr (hmap_BucketsArrayType c) oldBucketsSize m2) next_op)
     else next_op m2)))))))"

definition exec_EnqueueSwissMap :: "machine \<Rightarrow> step_res" where
  "exec_EnqueueSwissMap m =
     bindE (m_decode DecodeEnqueueSwissMap m) (\<lambda>(p, m1).
     bindE (ob_load64 (Ptr (sm_offset m1 + ucast (swiss_DirPtrOffset p))) (sm_b m1)) (\<lambda>dirPtr.
     bindE (ob_load64 (Ptr (sm_offset m1 + ucast (swiss_DirLenOffset p))) (sm_b m1)) (\<lambda>dirLen.
     if sint dirLen > 0 then
       bindE (m_push dirPtr (swiss_TablePtrSliceType p) (ucast (8 * dirLen)) m1) next_op
     else bindE (m_push dirPtr (swiss_GroupType p) 0 m1) next_op)))"

definition exec_EnqueueSwissMapGroups :: "machine \<Rightarrow> step_res" where
  "exec_EnqueueSwissMapGroups m =
     bindE (m_decode DecodeEnqueueSwissMapGroups m) (\<lambda>(p, m1).
     bindE (ob_load64 (Ptr (sm_offset m1 + ucast (groups_DataOffset p))) (sm_b m1)) (\<lambda>data.
     bindE (ob_load64 (Ptr (sm_offset m1 + ucast (groups_LengthMaskOffset p))) (sm_b m1)) (\<lambda>lengthMask.
     bindE (m_push data (groups_GroupSliceType p) (groups_GroupByteLen p * (ucast lengthMask + 1)) m1)
       next_op)))"

text \<open>
  The binary search of the entry pc among the known subroutines: the type to enqueue, if it is one of
  them. The two lists of the classifier are parallel; a missing type is an index out of range.
\<close>

definition classifySubroutine :: "SubroutineClassifier \<Rightarrow> u64 \<Rightarrow> nat option" where
  "classifySubroutine sc entry_pc =
     (let i = sort_search (length (sc_EntryPc sc)) (\<lambda>i. entry_pc \<le> sc_EntryPc sc ! i) in
      if i < length (sc_EntryPc sc) \<and> sc_EntryPc sc ! i = entry_pc then Some i else None)"

definition exec_EnqueueSubroutine :: "run_env \<Rightarrow> machine \<Rightarrow> step_res" where
  "exec_EnqueueSubroutine en m =
     bindE (m_decode DecodeEnqueueSubroutine m) (\<lambda>(_, m1).
     let truncateTarget = Len (sm_b m1) in
     bindE (ob_load64 (Ptr (sm_offset m1)) (sm_b m1)) (\<lambda>addr.
     bindE (ofOption NilDeref (sp_SubroutineClassifier (en_p en))) (\<lambda>sc.
     let entry = \<lparr>qe_Type = sc_UnresolvedSubroutineType sc, qe_Len = 8, qe_Addr = addr\<rparr> in
     bindE (m_bufr (writeQueueEntry (en_mem en) entry) m1) (\<lambda>((offset, ok), m2).
     if \<not> ok then next_op m2
     else
       bindE (ob_load64 (Ptr offset) (sm_b m2)) (\<lambda>v.
       bindE (ofOption NilDeref (sm_bssAddrShift m2)) (\<lambda>shift.
       bindE (m_buf (ob_store64 (Ptr offset) (v - shift)) m2) (\<lambda>m3.
       bindE (ob_load64 (Ptr offset) (sm_b m3)) (\<lambda>entry_pc.
       case classifySubroutine sc entry_pc of
         None \<Rightarrow> next_op m3
       | Some i \<Rightarrow>
           bindE (m_buf (Out_Buf.truncate truncateTarget) m3) (\<lambda>m4.
           bindE (guardE IndexOutOfRange (i < length (sc_Type sc))) (\<lambda>_.
           bindE (m_push addr (sc_Type sc ! i) 0 m4) next_op))))))))))"

subsection \<open>Expressions and frames\<close>

definition exec_DereferenceCFAOffset :: "run_env \<Rightarrow> machine \<Rightarrow> step_res" where
  "exec_DereferenceCFAOffset en m =
     bindE (m_decode DecodeDereferenceCFAOffset m) (\<lambda>(c, m1).
     let srcAddr = sm_cfa m1 + scast (derefCfa_Offset c) + ucast (derefCfa_PointerBias c);
         (ok, b1) = EnsureLen (sm_offset m1 + derefCfa_ByteLen c) (sm_b m1);
         m2 = m1\<lparr>sm_b := b1\<rparr>
     in
     if \<not> ok then ret_op False m2
     else
       bindE (m_bufr (ob_Dereference (en_mem en) (sm_offset m2) srcAddr (derefCfa_ByteLen c)) m2) (\<lambda>(_, m3).
       next_op m3))"

definition exec_CopyFromRegister :: "machine \<Rightarrow> step_res" where
  "exec_CopyFromRegister m =
     bindE (m_decode DecodeCopyFromRegister m) (\<lambda>(c, m1).
     let (ok, b1) = EnsureLen (sm_offset m1 + ucast (copyReg_ByteSize c)) (sm_b m1);
         m2 = m1\<lparr>sm_b := b1\<rparr>
     in
     if \<not> ok then ret_op False m2
     else bindE (m_buf (Zero (sm_offset m2) (ucast (copyReg_ByteSize c))) m2) next_op)"

definition exec_PrepareExprEval :: "machine \<Rightarrow> step_res" where
  "exec_PrepareExprEval m =
     (let m1 = m\<lparr>sm_exprResultsEndOffset := Len (sm_b m), sm_offset := Len (sm_b m)\<rparr> in
      if sm_exprType m1 = Pointer then
        bindE (m_buf (ob_store64 (Ptr (sm_offset m1)) (sm_rootAddr m1)) m1) next_op
      else next_op m1)"

definition exec_SaveExprResult :: "machine \<Rightarrow> step_res" where
  "exec_SaveExprResult m =
     bindE (m_decode DecodeSaveExprResult m) (\<lambda>(c, m1).
     let dst = sm_exprResultsOffset m1 + saveExpr_ResultOffset c in
     bindE (m_buf (Copy (sm_offset m1) dst (saveExpr_ByteLen c)) m1) (\<lambda>m2.
     let m3 = m2\<lparr>sm_offset := dst\<rparr> in
     bindE (m_buf (Out_Buf.truncate (sm_exprResultsEndOffset m3)) m3) next_op))"

definition exec_DereferencePtr :: "run_env \<Rightarrow> machine \<Rightarrow> step_res" where
  "exec_DereferencePtr en m =
     bindE (m_decode DecodeDereferencePtr m) (\<lambda>(c, m1).
     bindE (ob_load64 (Ptr (sm_offset m1)) (sm_b m1)) (\<lambda>v.
     let addr = v + ucast (derefPtr_Bias c) in
     bindE (if addr \<noteq> 0 then
              m_bufr (writeQueueEntry (en_mem en)
                        \<lparr>qe_Type = 0, qe_Len = derefPtr_ByteLen c, qe_Addr = addr\<rparr>) m1
            else Inr ((0, False), m1)) (\<lambda>((offset, ok), m2).
     if \<not> ok then
       bindE (m_buf (Out_Buf.truncate (sm_exprResultsEndOffset m2)) m2) exec_return
     else next_op (m2\<lparr>sm_offset := offset\<rparr>))))"

definition exec_ZeroFill :: "machine \<Rightarrow> step_res" where
  "exec_ZeroFill m =
     bindE (m_decode DecodeZeroFill m) (\<lambda>(c, m1).
     bindE (m_buf (Zero (sm_offset m1) (zeroFill_ByteLen c)) m1) next_op)"

definition exec_SetPresenceBit :: "machine \<Rightarrow> step_res" where
  "exec_SetPresenceBit m =
     bindE (m_decode DecodeSetPresenceBit m) (\<lambda>(c, m1).
     let ptr = Ptr (sm_exprResultsOffset m1 + presence_BitOffset c div 8) in
     bindE (ob_load8 ptr (sm_b m1)) (\<lambda>v.
     bindE (m_buf (ob_store ptr [v OR push_bit (unat (presence_BitOffset c mod 8)) 1]) m1) next_op))"

definition exec_PreparePointeeData :: "machine \<Rightarrow> step_res" where
  "exec_PreparePointeeData m =
     bindE (m_bufr (reserveQueueEntry (sm_chasedEntry m)) m) (\<lambda>((offset, ok), m1).
     if \<not> ok then ret_op False m1
     else
       (let m2 = m1\<lparr>sm_exprType := Pointer, sm_exprResultsOffset := offset,
                     sm_rootAddr := qe_Addr (sm_chasedEntry m1), sm_offset := offset\<rparr>
        in bindE (m_buf (Zero (sm_offset m2) (qe_Len (sm_chasedEntry m2))) m2) next_op))"

definition exec_PrepareFrameData :: "u32 \<Rightarrow> machine \<Rightarrow> step_res" where
  "exec_PrepareFrameData depth m =
     bindE (m_decode DecodePrepareFrameData m) (\<lambda>(c, m1).
     bindE (m_bufr (PrepareFrameData (prepFrame_TypeID c) (prepFrame_ProgID c)
                      (prepFrame_DataByteLen c) depth) m1) (\<lambda>((frameHeader, offset, ok), m2).
     if \<not> ok then ret_op False m2
     else
       next_op (m2\<lparr>sm_frameHeader := frameHeader, sm_exprType := Frame,
                   sm_exprResultsOffset := offset, sm_offset := offset\<rparr>)))"

definition exec_ConcludeFrameData :: "machine \<Rightarrow> step_res" where
  "exec_ConcludeFrameData m = bindE (m_buf (ConcludeFrameData (sm_frameHeader m)) m) next_op"

subsection \<open>Go contexts\<close>

text \<open>
  What one implementation of \<open>context.Context\<close> contributes: its value, recorded under the value's type
  and under the key's. The machine's offset is that of the implementation's data.
\<close>

definition goContextValue :: "run_env \<Rightarrow> GoContextImpl \<Rightarrow> machine \<Rightarrow> machine res" where
  "goContextValue en impl m =
     (case gci_ValueOffset impl of
        None \<Rightarrow> Inr m
      | Some vo \<Rightarrow>
          bindE (resolveAnyType en (m\<lparr>sm_offset := sm_offset m + vo\<rparr>)) (\<lambda>(v, m1).
          let m2 = m1\<lparr>sm_offset := sm_offset m1 - vo\<rparr> in
          case v of
            None \<Rightarrow> Inr m2
          | Some value \<Rightarrow>
              bindE (case ti_GoContextValue (rat_typeInfo value) of
                       None \<Rightarrow> Inr m2
                     | Some spec \<Rightarrow> recordGoContextValue spec value 0 m2) (\<lambda>m3.
              case gci_KeyOffset impl of
                None \<Rightarrow> Inr m3
              | Some ko \<Rightarrow>
                  bindE (resolveAnyType en (m3\<lparr>sm_offset := sm_offset m3 + ko\<rparr>)) (\<lambda>(k, m4).
                  let m5 = m4\<lparr>sm_offset := sm_offset m4 - ko\<rparr> in
                  case k of
                    None \<Rightarrow> Inr m5
                  | Some key \<Rightarrow>
                      (case ti_GoContextKey (rat_typeInfo key) of
                         None \<Rightarrow> Inr m5
                       | Some spec \<Rightarrow>
                           bindE (ofOption NilDeref (ti_GoContextKeyValueType (rat_typeInfo key))) (\<lambda>t.
                           recordGoContextValue spec value t m5))))))"

text \<open>One iteration over the chain of contexts; the flag says whether the loop goes on.\<close>

definition goContextStep :: "run_env \<Rightarrow> machine \<Rightarrow> (bool \<times> machine) res" where
  "goContextStep en m =
     (if sm_goContextCaptureBitmask m = 0 then Inr (False, m)
      else
        (let ptr = Ptr (sm_offset m) in
         bindE (ob_load64 ptr (sm_b m)) (\<lambda>itab.
         if itab = 0 then Inr (False, m)
         else
           bindE (m_bufr (ob_Dereference (en_mem en) (sm_offset m) (itab + 8) 8) m) (\<lambda>(ok, m1).
           if \<not> ok then Inr (False, m1)
           else
             bindE (ob_load64 ptr (sm_b m1)) (\<lambda>itab'.
             bindE (m_resolve en itab' m1) (\<lambda>(goRuntimeType, m2).
             let typeId = ResolveGoRuntimeTypeToTypeId (en_t en) goRuntimeType in
             if typeId = 0 then Inr (False, m2)
             else
               (case sp_TypeInfo (en_p en) typeId of
                  None \<Rightarrow> Inr (False, m2)
                | Some cti \<Rightarrow>
                    (case ti_GoContextImpl cti of
                       None \<Rightarrow> Inr (False, m2)
                     | Some impl \<Rightarrow>
                         bindE (ob_load64 (ptr + 8) (sm_b m2)) (\<lambda>data.
                         bindE (m_bufr (writeQueueEntry (en_mem en)
                             \<lparr>qe_Type = typeId, qe_Len = ti_ByteLen cti, qe_Addr = data\<rparr>) m2)
                           (\<lambda>((offset, ok), m3).
                         let m4 = m3\<lparr>sm_offset := offset\<rparr> in
                         if \<not> ok then Inr (False, m4)
                         else
                           bindE (goContextValue en impl m4) (\<lambda>m5.
                           case gci_ContextOffset impl of
                             None \<Rightarrow> Inr (False, m5)
                           | Some co \<Rightarrow> Inr (True, m5\<lparr>sm_offset := sm_offset m5 + co\<rparr>))))))))))))"

definition goContextLoop :: "run_env \<Rightarrow> machine \<Rightarrow> (machine res) option" where
  "goContextLoop en = loopR (\<lambda>m. Some (goContextStep en m))"

definition exec_PrepareGoContext :: "run_env \<Rightarrow> machine \<Rightarrow> step_res option" where
  "exec_PrepareGoContext en m =
     bindO (Some (m_decode DecodePrepareGoContext m)) (\<lambda>(c, m1).
     bindO (Some (ob_load64 (Ptr (sm_offset m1) + 8) (sm_b m1))) (\<lambda>data.
     let (should, q1) = ShouldRecord data (prepCtx_TypeID c) (sm_q m1);
         m2 = m1\<lparr>sm_q := q1\<rparr>
     in
     if \<not> should then Some (next_op m2)
     else
       bindO (Some (m_bufr (writeQueueEntry (en_mem en)
           \<lparr>qe_Type = prepCtx_TypeID c, qe_Len = prepCtx_DataByteLen c, qe_Addr = data\<rparr>) m2))
         (\<lambda>((off, ok), m3).
       if \<not> ok then Some (next_op m3)
       else
         bindO (Some (m_buf (Zero off (prepCtx_DataByteLen c)) m3)) (\<lambda>m4.
         let m5 = m4\<lparr>sm_goContextOffset := off,
               sm_goContextCaptureBitmask := push_bit (unat (prepCtx_CaptureCount c)) 1 - 1\<rparr>;
             truncateTarget = Len (sm_b m5)
         in
         bindO (goContextLoop en m5) (\<lambda>m6.
         Some (bindE (m_buf (Out_Buf.truncate truncateTarget) m6) next_op))))))"

subsection \<open>The interpreter\<close>

text \<open>
  The switch. The op codes without a case (\<open>ChasePointers\<close>, \<open>PrepareEventData\<close> and the bytes that are
  no op code) do nothing, like the two that have an empty case.
\<close>

fun exec_op :: "run_env \<Rightarrow> u32 \<Rightarrow> u32 \<Rightarrow> OpCode \<Rightarrow> machine \<Rightarrow> step_res option" where
  "exec_op en pc depth OpCodeInvalid m = Some (ret_op False m)"
| "exec_op en pc depth OpCodeCall m = Some (exec_Call m)"
| "exec_op en pc depth OpCodeCondJump m = Some (exec_CondJump m)"
| "exec_op en pc depth OpCodeDecrement m = Some (exec_Decrement m)"
| "exec_op en pc depth OpCodeEnqueueEmptyInterface m = Some (exec_EnqueueEmptyInterface en m)"
| "exec_op en pc depth OpCodeEnqueueInterface m = Some (exec_EnqueueInterface en m)"
| "exec_op en pc depth OpCodeEnqueuePointer m = Some (exec_EnqueuePointer m)"
| "exec_op en pc depth OpCodeEnqueueSliceHeader m = Some (exec_EnqueueSliceHeader m)"
| "exec_op en pc depth OpCodeEnqueueStringHeader m = Some (exec_EnqueueStringHeader m)"
| "exec_op en pc depth OpCodeEnqueueHMapHeader m = Some (exec_EnqueueHMapHeader m)"
| "exec_op en pc depth OpCodeEnqueueSwissMap m = Some (exec_EnqueueSwissMap m)"
| "exec_op en pc depth OpCodeEnqueueSwissMapGroups m = Some (exec_EnqueueSwissMapGroups m)"
| "exec_op en pc depth OpCodeEnqueueSubroutine m = Some (exec_EnqueueSubroutine en m)"
| "exec_op en pc depth OpCodeJump m = Some (exec_Jump m)"
| "exec_op en pc depth OpCodePop m = Some (exec_Pop m)"
| "exec_op en pc depth OpCodePushImm m = Some (exec_PushImm m)"
| "exec_op en pc depth OpCodePushOffset m = Some (exec_PushOffset m)"
| "exec_op en pc depth OpCodePushSliceLen m = Some (exec_PushSliceLen m)"
| "exec_op en pc depth OpCodeReturn m = Some (exec_return m)"
| "exec_op en pc depth OpCodeSetOffset m = Some (exec_SetOffset m)"
| "exec_op en pc depth OpCodeAdvanceOffset m = Some (exec_AdvanceOffset m)"
| "exec_op en pc depth OpCodeDereferenceCFAOffset m = Some (exec_DereferenceCFAOffset en m)"
| "exec_op en pc depth OpCodeCopyFromRegister m = Some (exec_CopyFromRegister m)"
| "exec_op en pc depth OpCodePrepareExprEval m = Some (exec_PrepareExprEval m)"
| "exec_op en pc depth OpCodeSaveExprResult m = Some (exec_SaveExprResult m)"
| "exec_op en pc depth OpCodeDereferencePtr m = Some (exec_DereferencePtr en m)"
| "exec_op en pc depth OpCodeZeroFill m = Some (exec_ZeroFill m)"
| "exec_op en pc depth OpCodeSetPresenceBit m = Some (exec_SetPresenceBit m)"
| "exec_op en pc depth OpCodePreparePointeeData m = Some (exec_PreparePointeeData m)"
| "exec_op en pc depth OpCodePrepareFrameData m = Some (exec_PrepareFrameData depth m)"
| "exec_op en pc depth OpCodeConcludeFrameData m = Some (exec_ConcludeFrameData m)"
| "exec_op en pc depth OpCodePrepareGoContext m = exec_PrepareGoContext en m"
| "exec_op en pc depth OpCodeTraverseGoContext m = Some (next_op m)"
| "exec_op en pc depth OpCodeConcludeGoContext m = Some (next_op m)"
| "exec_op en pc depth OpCodeIllegal m = Some (exec_Illegal en pc m)"
| "exec_op en pc depth OpCodeChasePointers m = Some (next_op m)"
| "exec_op en pc depth PrepareEventData m = Some (next_op m)"
| "exec_op en pc depth (OpCodeOther b) m = Some (next_op m)"

definition step :: "run_env \<Rightarrow> u32 \<Rightarrow> u32 \<Rightarrow> machine \<Rightarrow> step_res option" where
  "step en pc depth m =
     bindO (Some (m_decode PopOpCode m)) (\<lambda>(op, m1). exec_op en pc depth op m1)"

primrec run_steps :: "nat \<Rightarrow> run_env \<Rightarrow> u32 \<Rightarrow> u32 \<Rightarrow> machine \<Rightarrow> ((bool \<times> machine) res) option" where
  "run_steps 0 en pc depth m = Some (Inr (False, m))"
| "run_steps (Suc n) en pc depth m =
     bindO (step en pc depth m) (\<lambda>(c, m1).
     case c of Next \<Rightarrow> run_steps n en pc depth m1 | Ret ok \<Rightarrow> Some (Inr (ok, m1)))"

definition max_steps :: nat where
  "max_steps = 100000"

definition Run :: "run_env \<Rightarrow> u32 \<Rightarrow> u64 \<Rightarrow> u32 \<Rightarrow> u32 \<Rightarrow> machine \<Rightarrow> ((bool \<times> machine) res) option" where
  "Run en pc cfa depth offset m =
     (let (ok, m1) = m_SetPC pc m in
      if \<not> ok then Some (Inr (False, m1))
      else run_steps max_steps en pc depth (m1\<lparr>sm_cfa := cfa, sm_offset := offset\<rparr>))"

end
