(* ===== verification/Machine_Inv.thy ===== *)
theory Machine_Inv
  imports Stack_Machine
begin

text \<open>
  What every operation of the stack machine keeps. \<open>machine_rel m m'\<close>: from \<open>m\<close> to \<open>m'\<close> the buffer has
  kept its capacity and its well-formedness (\<open>ob_rel\<close>), the queue has only been added to (\<open>qu_rel\<close>),
  and the byte code and the inputs of the run are untouched.

  The facts about the parts of an operation are collected in \<open>mach_bind\<close>, as rules that go through a
  \<open>bindE\<close>; the fact about each operation follows by applying them.
\<close>

definition machine_wf :: "machine \<Rightarrow> bool" where
  "machine_wf m \<longleftrightarrow> ob_wf (sm_b m) \<and> queue_wf (sm_q m)"

definition machine_rel :: "machine \<Rightarrow> machine \<Rightarrow> bool" where
  "machine_rel m m' \<longleftrightarrow>
     ob_rel (sm_b m) (sm_b m') \<and> qu_rel (sm_q m) (sm_q m') \<and>
     dec_opBuf (sm_decoder m') = dec_opBuf (sm_decoder m) \<and>
     sm_bssAddrShift m' = sm_bssAddrShift m \<and> sm_chasedEntry m' = sm_chasedEntry m \<and>
     gr_cfg (sm_g m') = gr_cfg (sm_g m)"

named_theorems mach_bind \<open>parts of an operation keep \<open>machine_rel\<close>\<close>

lemma machine_rel_refl: "machine_wf m \<Longrightarrow> machine_rel m m"
  by (simp add: machine_rel_def machine_wf_def)

lemma machine_rel_trans: "machine_rel a b \<Longrightarrow> machine_rel b c \<Longrightarrow> machine_rel a c"
  by (auto simp: machine_rel_def intro: ob_rel_trans qu_rel_trans)

lemma machine_rel_wf: "machine_rel a m \<Longrightarrow> machine_wf m"
  by (auto simp: machine_rel_def machine_wf_def dest: ob_rel_wf qu_rel_wf)

lemma machine_rel_upd [simp]:
  "machine_rel a (m\<lparr>sm_stack := s\<rparr>) = machine_rel a m"
  "machine_rel a (m\<lparr>sm_offset := x\<rparr>) = machine_rel a m"
  "machine_rel a (m\<lparr>sm_cfa := c\<rparr>) = machine_rel a m"
  "machine_rel a (m\<lparr>sm_frameHeader := f\<rparr>) = machine_rel a m"
  "machine_rel a (m\<lparr>sm_exprResultsOffset := x\<rparr>) = machine_rel a m"
  "machine_rel a (m\<lparr>sm_exprResultsEndOffset := x\<rparr>) = machine_rel a m"
  "machine_rel a (m\<lparr>sm_exprType := t\<rparr>) = machine_rel a m"
  "machine_rel a (m\<lparr>sm_rootAddr := r\<rparr>) = machine_rel a m"
  "machine_rel a (m\<lparr>sm_goContextOffset := x\<rparr>) = machine_rel a m"
  "machine_rel a (m\<lparr>sm_goContextCaptureBitmask := r\<rparr>) = machine_rel a m"
  by (simp_all add: machine_rel_def)

lemma machine_rel_append [simp]: "machine_rel a (m_append v m) = machine_rel a m"
  by (simp add: m_append_def)

lemma machine_rel_decoder:
  "machine_rel a m \<Longrightarrow> dec_opBuf d = dec_opBuf (sm_decoder m) \<Longrightarrow> machine_rel a (m\<lparr>sm_decoder := d\<rparr>)"
  by (simp add: machine_rel_def)

lemma machine_rel_b: "machine_rel a m \<Longrightarrow> ob_rel (sm_b m) b \<Longrightarrow> machine_rel a (m\<lparr>sm_b := b\<rparr>)"
  by (auto simp: machine_rel_def intro: ob_rel_trans)

lemma machine_rel_q: "machine_rel a m \<Longrightarrow> qu_rel (sm_q m) q \<Longrightarrow> machine_rel a (m\<lparr>sm_q := q\<rparr>)"
  by (auto simp: machine_rel_def intro: qu_rel_trans)

lemma machine_rel_ob_wf: "machine_rel a m \<Longrightarrow> ob_wf (sm_b m)"
  by (drule machine_rel_wf) (simp add: machine_wf_def)

lemma machine_rel_queue_wf: "machine_rel a m \<Longrightarrow> queue_wf (sm_q m)"
  by (drule machine_rel_wf) (simp add: machine_wf_def)

subsection \<open>The decoder\<close>

text \<open>A decoding function moves the program counter and nothing else.\<close>

definition decodes :: "(OpDecoder \<Rightarrow> ('a \<times> OpDecoder) res) \<Rightarrow> bool" where
  "decodes dec \<longleftrightarrow> (\<forall>d. okE (\<lambda>(_, d'). dec_opBuf d' = dec_opBuf d) (dec d))"

lemma advance_opBuf [simp]: "dec_opBuf (advance n d) = dec_opBuf d"
  by (simp add: advance_def)

lemma decodes_intros [intro!]:
  "decodes PopOpCode" "decodes DecodeCall" "decodes DecodeCondJump" "decodes DecodeDecrement"
  "decodes DecodeEnqueueEmptyInterface" "decodes DecodeEnqueuePointer" "decodes DecodeEnqueueSliceHeader"
  "decodes DecodeEnqueueStringHeader" "decodes DecodeEnqueueHMapHeader" "decodes DecodeEnqueueSwissMap"
  "decodes DecodeEnqueueSwissMapGroups" "decodes DecodeEnqueueSubroutine" "decodes DecodeJump"
  "decodes DecodePop" "decodes DecodePushImm" "decodes DecodePushOffset" "decodes DecodePushSliceLen"
  "decodes DecodeSetOffset" "decodes DecodeAdvanceOffset" "decodes DecodeDereferenceCFAOffset"
  "decodes DecodeCopyFromRegister" "decodes DecodeSaveExprResult" "decodes DecodeDereferencePtr"
  "decodes DecodeZeroFill" "decodes DecodeSetPresenceBit" "decodes DecodePrepareFrameData"
  "decodes DecodePrepareGoContext"
  by (auto simp: decodes_def Decode_defs PopOpCode_def intro!: okE_bindI)

lemma m_decode_bind [mach_bind]:
  assumes "decodes dec" "machine_rel a m"
    and "\<And>r m'. machine_rel a m' \<Longrightarrow> okE Q (f (r, m'))"
  shows "okE Q (bindE (m_decode dec m) f)"
proof (cases "dec (sm_decoder m)")
  case (Inr x)
  with assms(1) have "dec_opBuf (snd x) = dec_opBuf (sm_decoder m)"
    by (auto simp: decodes_def dest!: spec [of _ "sm_decoder m"] split: prod.splits)
  with machine_rel_decoder [OF assms(2) this] assms(3) Inr show ?thesis
    by (simp add: m_decode_def case_prod_beta)
qed (simp add: m_decode_def)

lemma m_SetPC_rel:
  assumes "machine_rel a m" "m_SetPC pc m = (ok, m')"
  shows "machine_rel a m'"
proof -
  obtain d where d: "SetPC pc (sm_decoder m) = (ok, d)" "m' = m\<lparr>sm_decoder := d\<rparr>"
    using assms(2) by (auto simp: m_SetPC_def split: prod.splits)
  then have "dec_opBuf d = dec_opBuf (sm_decoder m)" by (auto simp: SetPC_def split: if_splits)
  then show ?thesis using machine_rel_decoder [OF assms(1)] d(2) by simp
qed

subsection \<open>The buffer, the queue, the resolver and the stack\<close>

lemma m_buf_bind:
  assumes "machine_rel a m" "\<And>b. ob_wf b \<Longrightarrow> okE (ob_rel b) (h b)"
    and "\<And>m'. machine_rel a m' \<Longrightarrow> okE Q (f m')"
  shows "okE Q (bindE (m_buf h m) f)"
proof (cases "h (sm_b m)")
  case (Inr b)
  with assms(2) [OF machine_rel_ob_wf [OF assms(1)]] have "ob_rel (sm_b m) b" by simp
  with machine_rel_b [OF assms(1) this] assms(3) Inr show ?thesis by (simp add: m_buf_def)
qed (simp add: m_buf_def)

lemma m_bufr_bind:
  assumes "machine_rel a m" "\<And>b. ob_wf b \<Longrightarrow> okE (\<lambda>(_, b'). ob_rel b b') (h b)"
    and "\<And>r m'. machine_rel a m' \<Longrightarrow> okE Q (f (r, m'))"
  shows "okE Q (bindE (m_bufr h m) f)"
proof (cases "h (sm_b m)")
  case (Inr x)
  with assms(2) [OF machine_rel_ob_wf [OF assms(1)]] have "ob_rel (sm_b m) (snd x)"
    by (auto split: prod.splits)
  with machine_rel_b [OF assms(1) this] assms(3) Inr show ?thesis
    by (simp add: m_bufr_def case_prod_beta)
qed (simp add: m_bufr_def)

lemmas [mach_bind] =
  m_buf_bind [OF _ ob_store_ok] m_buf_bind [OF _ ob_store64_ok] m_buf_bind [OF _ Zero_ok]
  m_buf_bind [OF _ Copy_ok] m_buf_bind [OF _ truncate_ok] m_buf_bind [OF _ ConcludeFrameData_ok]
  m_bufr_bind [OF _ ob_Dereference_ok] m_bufr_bind [OF _ reserveQueueEntry_ok]
  m_bufr_bind [OF _ writeQueueEntry_ok] m_bufr_bind [OF _ PrepareFrameData_ok]

lemma m_push_ok:
  assumes "machine_rel a m"
  shows "okE (machine_rel a) (m_push addr t n m)"
  using queue_Push_rel [OF machine_rel_queue_wf [OF assms], of addr t n] machine_rel_q [OF assms]
  by (auto simp: m_push_def okE_iff res_simps split: prod.splits)

lemma m_push_bind [mach_bind]:
  assumes "machine_rel a m" "\<And>m'. machine_rel a m' \<Longrightarrow> okE Q (f m')"
  shows "okE Q (bindE (m_push addr t n m) f)"
  using okE_bind [OF m_push_ok [OF assms(1)] assms(2)] .

lemma Resolve_cfg:
  "okE (\<lambda>(_, g'). gr_cfg g' = gr_cfg g) (ResolveTypeAddressToGoRuntimeTypeId mem md a g)"
  by (auto simp: ResolveTypeAddressToGoRuntimeTypeId_def maybeResolveFirstmoduledataRange_def Let_def
      bindE_assoc intro!: okE_bindI)

lemma m_resolve_bind [mach_bind]:
  assumes "machine_rel a m" "\<And>r m'. machine_rel a m' \<Longrightarrow> okE Q (f (r, m'))"
  shows "okE Q (bindE (m_resolve en ty m) f)"
proof (cases "ResolveTypeAddressToGoRuntimeTypeId (en_mem en) (en_md en) ty (sm_g m)")
  case (Inr x)
  with Resolve_cfg [of "sm_g m" "en_mem en" "en_md en" ty] have "gr_cfg (snd x) = gr_cfg (sm_g m)"
    by (auto split: prod.splits)
  with assms(1) have "machine_rel a (m\<lparr>sm_g := snd x\<rparr>)" by (simp add: machine_rel_def)
  with assms(2) Inr show ?thesis by (simp add: m_resolve_def case_prod_beta)
qed (simp add: m_resolve_def)

lemma m_set_top_bind [mach_bind]:
  "machine_rel a m \<Longrightarrow> (\<And>m'. machine_rel a m' \<Longrightarrow> okE Q (f m')) \<Longrightarrow> okE Q (bindE (m_set_top v m) f)"
  by (auto simp: m_set_top_def split: list.splits)

lemma m_top_bind [mach_bind]: "(\<And>x. okE Q (f x)) \<Longrightarrow> okE Q (bindE (m_top m) f)"
  by (auto simp: m_top_def split: list.splits)

lemma loads_bind [mach_bind]:
  "(\<And>x. okE Q (f x)) \<Longrightarrow> okE Q (bindE (ob_load64 p b) f)"
  "(\<And>x. okE Q (g x)) \<Longrightarrow> okE Q (bindE (ob_load8 p b) g)"
  "(\<And>x. okE Q (h x)) \<Longrightarrow> okE Q (bindE (GetEntryLen o' b) h)"
  "(\<And>x. okE Q (h' x)) \<Longrightarrow> okE Q (bindE (load_u64 mem ad) h')"
  "okE Q (k ()) \<Longrightarrow> okE Q (bindE (guardE e c) k)"
  "(\<And>y. x = Some y \<Longrightarrow> okE Q (l y)) \<Longrightarrow> okE Q (bindE (ofOption e x) l)"
  by (auto intro!: okE_bindI)

subsection \<open>The operations\<close>

named_theorems op_ok \<open>every operation keeps \<open>machine_rel\<close>\<close>

lemma jump_to_ok [op_ok]: "machine_rel a m \<Longrightarrow> okE (\<lambda>(_, m'). machine_rel a m') (jump_to pc m)"
  by (auto simp: jump_to_def Let_def split: prod.splits intro: m_SetPC_rel)

lemma exec_return_ok [op_ok]: "machine_rel a m \<Longrightarrow> okE (\<lambda>(_, m'). machine_rel a m') (exec_return m)"
  by (auto simp: exec_return_def ExecuteReturn_def Let_def split: list.splits prod.splits option.splits
      if_splits dest: m_SetPC_rel)

lemma resolveEmptyInterface_bind [mach_bind]:
  assumes "machine_rel a m" "\<And>r m'. machine_rel a m' \<Longrightarrow> okE Q (f (r, m'))"
  shows "okE Q (bindE (resolveEmptyInterface en m) f)"
proof -
  have "okE (\<lambda>(_, m'). machine_rel a m') (resolveEmptyInterface en m)"
    using assms(1) unfolding resolveEmptyInterface_def Let_def by (auto intro!: mach_bind)
  from okE_bind [OF this] show ?thesis using assms(2) by auto
qed

lemma resolveAnyType_bind [mach_bind]:
  assumes "machine_rel a m" "\<And>r m'. machine_rel a m' \<Longrightarrow> okE Q (f (r, m'))"
  shows "okE Q (bindE (resolveAnyType en m) f)"
proof -
  have "okE (\<lambda>(_, m'). machine_rel a m') (resolveAnyType en m)"
    using assms(1) unfolding resolveAnyType_def Let_def
    by (auto intro!: mach_bind split: option.splits)
  from okE_bind [OF this] show ?thesis using assms(2) by auto
qed

lemma recordGoContextValue_ok:
  "machine_rel a m \<Longrightarrow> okE (machine_rel a) (recordGoContextValue spec v t m)"
  unfolding recordGoContextValue_def Let_def by (auto intro!: mach_bind m_push_ok)

lemma recordGoContextValue_bind [mach_bind]:
  "machine_rel a m \<Longrightarrow> (\<And>m'. machine_rel a m' \<Longrightarrow> okE Q (f m')) \<Longrightarrow>
   okE Q (bindE (recordGoContextValue spec v t m) f)"
  by (rule okE_bind [OF recordGoContextValue_ok])

lemma if_bind [mach_bind]:
  "(c \<Longrightarrow> okE Q (bindE m1 f)) \<Longrightarrow> (\<not> c \<Longrightarrow> okE Q (bindE m2 f)) \<Longrightarrow>
   okE Q (bindE (if c then m1 else m2) f)"
  by simp

lemma option_bind [mach_bind]:
  "(x = None \<Longrightarrow> okE Q (bindE m1 f)) \<Longrightarrow> (\<And>y. x = Some y \<Longrightarrow> okE Q (bindE (m2 y) f)) \<Longrightarrow>
   okE Q (bindE (case x of None \<Rightarrow> m1 | Some y \<Rightarrow> m2 y) f)"
  by (cases x) simp_all

lemma EnsureLen_rel:
  assumes "machine_rel a m" "EnsureLen n (sm_b m) = (ok, b)"
  shows "machine_rel a (m\<lparr>sm_b := b\<rparr>)"
  using machine_rel_b [OF assms(1)] EnsureLen_ok [OF machine_rel_ob_wf [OF assms(1)], of n] assms(2)
  by simp

lemma exec_Call_ok [op_ok]:
  "machine_rel a m \<Longrightarrow> okE (\<lambda>(_, m'). machine_rel a m') (exec_Call m)"
  unfolding exec_Call_def Let_def
  by (auto intro!: mach_bind op_ok split: list.splits option.splits prod.splits)

lemma exec_CondJump_ok [op_ok]:
  "machine_rel a m \<Longrightarrow> okE (\<lambda>(_, m'). machine_rel a m') (exec_CondJump m)"
  unfolding exec_CondJump_def Let_def
  by (auto intro!: mach_bind op_ok split: list.splits option.splits prod.splits)

lemma exec_Decrement_ok [op_ok]:
  "machine_rel a m \<Longrightarrow> okE (\<lambda>(_, m'). machine_rel a m') (exec_Decrement m)"
  unfolding exec_Decrement_def Let_def
  by (auto intro!: mach_bind op_ok split: list.splits option.splits prod.splits)

lemma exec_Jump_ok [op_ok]:
  "machine_rel a m \<Longrightarrow> okE (\<lambda>(_, m'). machine_rel a m') (exec_Jump m)"
  unfolding exec_Jump_def Let_def
  by (auto intro!: mach_bind op_ok split: list.splits option.splits prod.splits)

lemma exec_Pop_ok [op_ok]:
  "machine_rel a m \<Longrightarrow> okE (\<lambda>(_, m'). machine_rel a m') (exec_Pop m)"
  unfolding exec_Pop_def Let_def
  by (auto intro!: mach_bind op_ok split: list.splits option.splits prod.splits)

lemma exec_PushImm_ok [op_ok]:
  "machine_rel a m \<Longrightarrow> okE (\<lambda>(_, m'). machine_rel a m') (exec_PushImm m)"
  unfolding exec_PushImm_def Let_def
  by (auto intro!: mach_bind op_ok split: list.splits option.splits prod.splits)

lemma exec_PushOffset_ok [op_ok]:
  "machine_rel a m \<Longrightarrow> okE (\<lambda>(_, m'). machine_rel a m') (exec_PushOffset m)"
  unfolding exec_PushOffset_def Let_def
  by (auto intro!: mach_bind op_ok split: list.splits option.splits prod.splits)

lemma exec_PushSliceLen_ok [op_ok]:
  "machine_rel a m \<Longrightarrow> okE (\<lambda>(_, m'). machine_rel a m') (exec_PushSliceLen m)"
  unfolding exec_PushSliceLen_def Let_def
  by (auto intro!: mach_bind op_ok split: list.splits option.splits prod.splits)

lemma exec_SetOffset_ok [op_ok]:
  "machine_rel a m \<Longrightarrow> okE (\<lambda>(_, m'). machine_rel a m') (exec_SetOffset m)"
  unfolding exec_SetOffset_def Let_def
  by (auto intro!: mach_bind op_ok split: list.splits option.splits prod.splits)

lemma exec_AdvanceOffset_ok [op_ok]:
  "machine_rel a m \<Longrightarrow> okE (\<lambda>(_, m'). machine_rel a m') (exec_AdvanceOffset m)"
  unfolding exec_AdvanceOffset_def Let_def
  by (auto intro!: mach_bind op_ok split: list.splits option.splits prod.splits)

lemma exec_Illegal_ok [op_ok]:
  "machine_rel a m \<Longrightarrow> okE (\<lambda>(_, m'). machine_rel a m') (exec_Illegal en pc m)"
  unfolding exec_Illegal_def Let_def
  by (auto intro!: mach_bind op_ok split: list.splits option.splits prod.splits)

lemma exec_EnqueueEmptyInterface_ok [op_ok]:
  "machine_rel a m \<Longrightarrow> okE (\<lambda>(_, m'). machine_rel a m') (exec_EnqueueEmptyInterface en m)"
  unfolding exec_EnqueueEmptyInterface_def Let_def
  by (auto intro!: mach_bind op_ok split: list.splits option.splits prod.splits)

lemma exec_EnqueueInterface_ok [op_ok]:
  "machine_rel a m \<Longrightarrow> okE (\<lambda>(_, m'). machine_rel a m') (exec_EnqueueInterface en m)"
  unfolding exec_EnqueueInterface_def Let_def
  by (auto intro!: mach_bind op_ok split: list.splits option.splits prod.splits)

lemma exec_EnqueuePointer_ok [op_ok]:
  "machine_rel a m \<Longrightarrow> okE (\<lambda>(_, m'). machine_rel a m') (exec_EnqueuePointer m)"
  unfolding exec_EnqueuePointer_def Let_def
  by (auto intro!: mach_bind op_ok split: list.splits option.splits prod.splits)

lemma exec_EnqueueSliceHeader_ok [op_ok]:
  "machine_rel a m \<Longrightarrow> okE (\<lambda>(_, m'). machine_rel a m') (exec_EnqueueSliceHeader m)"
  unfolding exec_EnqueueSliceHeader_def Let_def
  by (auto intro!: mach_bind op_ok split: list.splits option.splits prod.splits)

lemma exec_EnqueueStringHeader_ok [op_ok]:
  "machine_rel a m \<Longrightarrow> okE (\<lambda>(_, m'). machine_rel a m') (exec_EnqueueStringHeader m)"
  unfolding exec_EnqueueStringHeader_def Let_def
  by (auto intro!: mach_bind op_ok split: list.splits option.splits prod.splits)

lemma exec_EnqueueSwissMap_ok [op_ok]:
  "machine_rel a m \<Longrightarrow> okE (\<lambda>(_, m'). machine_rel a m') (exec_EnqueueSwissMap m)"
  unfolding exec_EnqueueSwissMap_def Let_def
  by (auto intro!: mach_bind op_ok split: list.splits option.splits prod.splits)

lemma exec_EnqueueSwissMapGroups_ok [op_ok]:
  "machine_rel a m \<Longrightarrow> okE (\<lambda>(_, m'). machine_rel a m') (exec_EnqueueSwissMapGroups m)"
  unfolding exec_EnqueueSwissMapGroups_def Let_def
  by (auto intro!: mach_bind op_ok split: list.splits option.splits prod.splits)

lemma exec_CopyFromRegister_ok [op_ok]:
  "machine_rel a m \<Longrightarrow> okE (\<lambda>(_, m'). machine_rel a m') (exec_CopyFromRegister m)"
  unfolding exec_CopyFromRegister_def Let_def
  by (auto intro!: mach_bind op_ok split: list.splits option.splits prod.splits dest: EnsureLen_rel)

lemma exec_PrepareExprEval_ok [op_ok]:
  "machine_rel a m \<Longrightarrow> okE (\<lambda>(_, m'). machine_rel a m') (exec_PrepareExprEval m)"
  unfolding exec_PrepareExprEval_def Let_def
  by (auto intro!: mach_bind op_ok split: list.splits option.splits prod.splits)

lemma exec_SaveExprResult_ok [op_ok]:
  "machine_rel a m \<Longrightarrow> okE (\<lambda>(_, m'). machine_rel a m') (exec_SaveExprResult m)"
  unfolding exec_SaveExprResult_def Let_def
  by (auto intro!: mach_bind op_ok split: list.splits option.splits prod.splits)

lemma exec_ZeroFill_ok [op_ok]:
  "machine_rel a m \<Longrightarrow> okE (\<lambda>(_, m'). machine_rel a m') (exec_ZeroFill m)"
  unfolding exec_ZeroFill_def Let_def
  by (auto intro!: mach_bind op_ok split: list.splits option.splits prod.splits)

lemma exec_SetPresenceBit_ok [op_ok]:
  "machine_rel a m \<Longrightarrow> okE (\<lambda>(_, m'). machine_rel a m') (exec_SetPresenceBit m)"
  unfolding exec_SetPresenceBit_def Let_def
  by (auto intro!: mach_bind op_ok split: list.splits option.splits prod.splits)

lemma exec_PreparePointeeData_ok [op_ok]:
  "machine_rel a m \<Longrightarrow> okE (\<lambda>(_, m'). machine_rel a m') (exec_PreparePointeeData m)"
  unfolding exec_PreparePointeeData_def Let_def
  by (auto intro!: mach_bind op_ok split: list.splits option.splits prod.splits)

lemma exec_PrepareFrameData_ok [op_ok]:
  "machine_rel a m \<Longrightarrow> okE (\<lambda>(_, m'). machine_rel a m') (exec_PrepareFrameData depth m)"
  unfolding exec_PrepareFrameData_def Let_def
  by (auto intro!: mach_bind op_ok split: list.splits option.splits prod.splits)

lemma exec_ConcludeFrameData_ok [op_ok]:
  "machine_rel a m \<Longrightarrow> okE (\<lambda>(_, m'). machine_rel a m') (exec_ConcludeFrameData m)"
  unfolding exec_ConcludeFrameData_def Let_def
  by (auto intro!: mach_bind op_ok split: list.splits option.splits prod.splits)

lemma exec_EnqueueHMapHeader_ok [op_ok]:
  "machine_rel a m \<Longrightarrow> okE (\<lambda>(_, m'). machine_rel a m') (exec_EnqueueHMapHeader m)"
  unfolding exec_EnqueueHMapHeader_def Let_def
  by (auto intro!: mach_bind op_ok split: list.splits option.splits prod.splits)

lemma exec_EnqueueSubroutine_ok [op_ok]:
  "machine_rel a m \<Longrightarrow> okE (\<lambda>(_, m'). machine_rel a m') (exec_EnqueueSubroutine en m)"
  unfolding exec_EnqueueSubroutine_def Let_def
  by (auto intro!: mach_bind op_ok split: list.splits option.splits prod.splits)

lemma exec_DereferenceCFAOffset_ok [op_ok]:
  "machine_rel a m \<Longrightarrow> okE (\<lambda>(_, m'). machine_rel a m') (exec_DereferenceCFAOffset en m)"
  unfolding exec_DereferenceCFAOffset_def Let_def
  by (auto intro!: mach_bind op_ok split: list.splits option.splits prod.splits dest: EnsureLen_rel)

lemma exec_DereferencePtr_ok [op_ok]:
  "machine_rel a m \<Longrightarrow> okE (\<lambda>(_, m'). machine_rel a m') (exec_DereferencePtr en m)"
  unfolding exec_DereferencePtr_def Let_def
  by (auto intro!: mach_bind op_ok split: list.splits option.splits prod.splits)



subsection \<open>Go contexts\<close>

lemma goContextValue_ok:
  assumes "machine_rel a m"
  shows "okE (machine_rel a) (goContextValue en impl m)"
  using assms unfolding goContextValue_def Let_def
  by (auto intro!: mach_bind recordGoContextValue_ok split: option.splits)

lemma goContextValue_bind [mach_bind]:
  "machine_rel a m \<Longrightarrow> (\<And>m'. machine_rel a m' \<Longrightarrow> okE Q (f m')) \<Longrightarrow>
   okE Q (bindE (goContextValue en impl m) f)"
  by (rule okE_bind [OF goContextValue_ok])

lemma goContextStep_ok:
  "machine_rel a m \<Longrightarrow> okE (\<lambda>(_, m'). machine_rel a m') (goContextStep en m)"
  unfolding goContextStep_def Let_def
  by (auto intro!: mach_bind split: option.splits prod.splits)

definition machine_kept :: "machine \<Rightarrow> machine \<Rightarrow> bool" where
  "machine_kept m m' \<longleftrightarrow> machine_wf m \<longrightarrow> machine_rel m m'"

interpretation GC: loop_inv "\<lambda>m. Some (goContextStep en m)" machine_wf machine_kept for en
proof unfold_locales
  show "machine_kept s s" for s by (simp add: machine_kept_def machine_rel_refl)
  show "machine_kept s u" if "machine_kept s t" "machine_kept t u" for s t u
    using that by (auto simp: machine_kept_def dest: machine_rel_wf intro: machine_rel_trans)
  show "machine_wf t \<and> machine_kept s t"
    if "machine_wf s" "Some (goContextStep en s) = Some (Inr (again, t))" for s again t
    using goContextStep_ok [OF machine_rel_refl [OF that(1)], of en] that(2)
    by (auto simp: machine_kept_def dest: machine_rel_wf)
qed

lemma goContextLoop_ok:
  assumes "machine_rel a m"
  shows "okO (machine_rel a) (goContextLoop en m)"
  unfolding okO_def
proof (intro allI impI)
  fix r
  assume "goContextLoop en m = Some r"
  with GC.loop_step [of en m] assms machine_rel_wf [OF assms] show "okE (machine_rel a) r"
    by (cases r) (auto simp: goContextLoop_def machine_kept_def intro: machine_rel_trans)
qed

lemma okO_Some_bind:
  "okE (\<lambda>x. okO Q (f x)) (bindE m Inr) \<Longrightarrow> okO Q (bindO (Some m) f)"
  by (cases m) simp_all

lemma ShouldRecord_machine:
  assumes "machine_rel a m" "ShouldRecord d t (sm_q m) = (s, q)"
  shows "machine_rel a (m\<lparr>sm_q := q\<rparr>)"
  using machine_rel_q [OF assms(1)] ShouldRecord_rel [OF machine_rel_queue_wf [OF assms(1)], of d t]
    assms(2) by simp

lemma exec_PrepareGoContext_ok:
  assumes "machine_rel a m"
  shows "okO (\<lambda>(_, m'). machine_rel a m') (exec_PrepareGoContext en m)"
  using assms unfolding exec_PrepareGoContext_def Let_def
  by (auto intro!: okO_Some_bind mach_bind okO_bind [OF goContextLoop_ok] ShouldRecord_machine
      split: prod.splits)

subsection \<open>The interpreter\<close>

lemma exec_op_ok:
  assumes "machine_rel a m"
  shows "okO (\<lambda>(_, m'). machine_rel a m') (exec_op en pc depth op m)"
  using assms by (cases op) (auto intro: op_ok exec_PrepareGoContext_ok)

lemma step_ok:
  assumes "machine_rel a m"
  shows "okO (\<lambda>(_, m'). machine_rel a m') (step en pc depth m)"
  using assms unfolding step_def by (auto intro!: okO_Some_bind mach_bind exec_op_ok)

lemma run_steps_ok:
  "machine_rel a m \<Longrightarrow> okO (\<lambda>(_, m'). machine_rel a m') (run_steps n en pc depth m)"
  by (induction n arbitrary: m) (auto intro!: okO_bind [OF step_ok] split: ctl.split)

lemma Run_ok:
  assumes "machine_rel a m"
  shows "okO (\<lambda>(_, m'). machine_rel a m') (Run en pc cfa depth offset m)"
  using assms m_SetPC_rel [OF assms]
  by (auto simp: Run_def Let_def split: prod.splits intro!: run_steps_ok)

text \<open>
  C7. Whatever byte code is run, on whatever memory: if \<open>Run\<close> returns, the output buffer is still
  well-formed with the capacity it had and is not taken for not full after it was full; every entry
  that was queued is still queued, in its place, and every key recorded is still recorded; the entries
  added are pairwise distinct and new; and the byte code, the ASLR shift, the chased entry and the
  configuration of the type resolver are untouched.
\<close>

theorem Run_keeps_machine:
  assumes "machine_wf m" "Run en pc cfa depth offset m = Some (Inr (ok, m'))"
  shows "machine_wf m' \<and> ob_cap (sm_b m') = ob_cap (sm_b m) \<and>
    (ob_isFull (sm_b m) \<longrightarrow> ob_isFull (sm_b m')) \<and>
    (\<exists>new. queue_list (sm_q m') = queue_list (sm_q m) @ new \<and> distinct (map key_of new) \<and>
       key_of ` set new \<subseteq> qu_seen (sm_q m') - qu_seen (sm_q m)) \<and>
    qu_seen (sm_q m) \<subseteq> qu_seen (sm_q m') \<and>
    dec_opBuf (sm_decoder m') = dec_opBuf (sm_decoder m) \<and>
    sm_bssAddrShift m' = sm_bssAddrShift m \<and> sm_chasedEntry m' = sm_chasedEntry m \<and>
    gr_cfg (sm_g m') = gr_cfg (sm_g m)"
proof -
  have r: "machine_rel m m'" 
    using Run_ok [OF machine_rel_refl [OF assms(1)], of en pc cfa depth offset] assms(2) by simp
  then have "qu_rel (sm_q m) (sm_q m')" by (simp add: machine_rel_def)
  then obtain new where new: "queue_list (sm_q m') = queue_list (sm_q m) @ new" "distinct new"
    "key_of ` set new \<subseteq> qu_seen (sm_q m') - qu_seen (sm_q m)" "inj_on key_of (set new)"
    "qu_seen (sm_q m) \<subseteq> qu_seen (sm_q m')" by (auto simp: qu_rel_def)
  then have "distinct (map key_of new)" by (simp add: distinct_map)
  with new r machine_rel_wf [OF r] show ?thesis
    by (intro conjI exI [of _ new]) (simp_all add: machine_rel_def ob_rel_def)
qed

text \<open>The program of one byte, the op code of a return.\<close>

definition return_machine :: machine where
  "return_machine =
     newStackMachine (zero_SnapshotProgram\<lparr>sp_Prog := [15]\<rparr>) makeQueue
       \<lparr>ob_arr = replicate 8 0, ob_len = 0, ob_isFull = False\<rparr>
       (makeGoRuntimeTypeResolver zero_RuntimeConfig 0)"

theorem Run_keeps_machine_witness:
  "\<exists>m'. Run \<lparr>en_p = zero_SnapshotProgram, en_t = Map.empty, en_mem = (\<lambda>_. None), en_md = 0\<rparr> 0 0 0 0 return_machine =
      Some (Inr (True, m')) \<and> machine_wf m' \<and> ob_cap (sm_b m') = 8"
proof -
  let ?en = "\<lparr>en_p = zero_SnapshotProgram, en_t = Map.empty, en_mem = (\<lambda>_. None), en_md = 0\<rparr>"
  have wf: "machine_wf return_machine"
    by (simp add: machine_wf_def return_machine_def newStackMachine_def ob_wf_def ob_cap_def queue_wf_make)
  obtain k where k: "max_steps = Suc k" using that [of 99999] by (simp add: max_steps_def)
  have "\<exists>m'. Run ?en 0 0 0 0 return_machine = Some (Inr (True, m'))"
    by (simp add: Run_def m_SetPC_def SetPC_def k step_def m_decode_def PopOpCode_def dec_u8_def opcode_of_def
        opcode_table_def advance_def exec_return_def ExecuteReturn_def return_machine_def newStackMachine_def
        MakeOpDecoder_def)
  then obtain m' where m': "Run ?en 0 0 0 0 return_machine = Some (Inr (True, m'))" ..
  moreover have "ob_cap (sm_b return_machine) = 8"
    by (simp add: return_machine_def newStackMachine_def ob_cap_def)
  ultimately show ?thesis using Run_keeps_machine [OF wf m'] by auto
qed

end
