(* ===== verification/Machine_Exprs.thy ===== *)
theory Machine_Exprs
  imports Machine_Props
begin

text \<open>
  Expressions and closures: where the result of an expression goes (\<open>PrepareExprEval\<close>,
  \<open>SaveExprResult\<close>), how a closure is classified by its entry pc (\<open>EnqueueSubroutine\<close>), and what a
  failed run leaves behind for the next one.
\<close>

subsection \<open>Copying inside the buffer\<close>

lemma Copy_loop_disjoint:
  assumes "ob_wf b" "unat dst + unat i + n \<le> unat src" "unat src + unat i + n \<le> ob_len b"
  shows "Copy_loop n src dst i b =
    Inr (b\<lparr>ob_arr := blit (ob_arr b) (unat dst + unat i) (sub (ob_arr b) (unat src + unat i) n)\<rparr>)"
  using assms
proof (induction n arbitrary: i b)
  case 0
  then show ?case by (simp add: blit_def)
next
  case (Suc n)
  have cap: "ob_len b \<le> length (ob_arr b)" "length (ob_arr b) \<le> 2 ^ 31"
    using Suc.prems(1) by (simp_all add: ob_wf_def ob_cap_def)
  have u: "unat (src + i) = unat src + unat i" "unat (dst + i) = unat dst + unat i" "unat (i + 1) = unat i + 1"
    using Suc.prems cap by (simp_all add: unat_add_u32)
  define b' where "b' = b\<lparr>ob_arr := (ob_arr b)[unat dst + unat i := ob_arr b ! (unat src + unat i)]\<rparr>"
  have "ob_wf b'" using Suc.prems(1) by (simp add: b'_def ob_wf_def ob_cap_def)
  moreover have "ob_len b' = ob_len b" by (simp add: b'_def)
  ultimately have ih: "Copy_loop n src dst (i + 1) b' = Inr (b'\<lparr>ob_arr :=
      blit (ob_arr b') (unat dst + (unat i + 1)) (sub (ob_arr b') (unat src + (unat i + 1)) n)\<rparr>)"
    using Suc.IH [of b' "i + 1"] Suc.prems by (simp add: u)
  have "blit (ob_arr b') (unat dst + (unat i + 1)) (sub (ob_arr b') (unat src + (unat i + 1)) n) =
      blit (ob_arr b) (unat dst + unat i) (sub (ob_arr b) (unat src + unat i) (Suc n))"
    using Suc.prems cap
    by (intro nth_equalityI) (auto simp: b'_def nth_blit nth_sub nth_list_update Suc_diff_Suc)
  with ih show ?case
    using Suc.prems by (simp add: u b'_def [symmetric]) (simp add: b'_def)
qed

lemma Copy_disjoint:
  assumes "ob_wf b" "unat dst + unat n \<le> unat src" "unat src + unat n \<le> ob_len b"
  shows "Copy src dst n b =
    Inr (b\<lparr>ob_arr := blit (ob_arr b) (unat dst) (sub (ob_arr b) (unat src) (unat n))\<rparr>)"
proof -
  have "ob_len b \<le> ob_cap b" "ob_cap b \<le> 2 ^ 31" using assms(1) by (simp_all add: ob_wf_def)
  then have "\<not> src + n > ob_cap32 b" "\<not> dst + n > ob_cap32 b"
    using assms by (simp_all add: word_less_nat_alt unat_add_u32)
  then show ?thesis using Copy_loop_disjoint [of b dst 0 "unat n" src] assms by (simp add: Copy_def)
qed

text \<open>
  Saving the result of an expression moves exactly its bytes: \<open>SaveExprResult\<close> copies them from the
  scratch area to their place in the data being captured, changes no other byte, drops the scratch area
  and leaves the offset at the result, so that an enqueueing operation that follows sees it.
\<close>

theorem SaveExprResult_moves_result:
  assumes "ob_wf (sm_b m)" "at_pc (sm_decoder m) (op_bytes (ASaveExprResult c) @ bs)"
    and "dst = sm_exprResultsOffset m + saveExpr_ResultOffset c" "n = unat (saveExpr_ByteLen c)"
    and "unat dst + n \<le> unat (sm_exprResultsEndOffset m)"
    and "sm_exprResultsEndOffset m \<le> sm_offset m" "unat (sm_offset m) + n \<le> ob_len (sm_b m)"
  shows "\<exists>m'. step en pc depth m = Some (Inr (Next, m')) \<and> sm_offset m' = dst \<and>
    ob_len (sm_b m') = unat (sm_exprResultsEndOffset m) \<and>
    sub (ob_arr (sm_b m')) (unat dst) n = sub (ob_arr (sm_b m)) (unat (sm_offset m)) n \<and>
    (\<forall>k. k < ob_cap (sm_b m) \<and> (k < unat dst \<or> unat dst + n \<le> k) \<longrightarrow>
      ob_arr (sm_b m') ! k = ob_arr (sm_b m) ! k)"
proof -
  define b where "b = sm_b m"
  define src where "src = sm_offset m"
  define b' where "b' = b\<lparr>ob_arr := blit (ob_arr b) (unat dst) (sub (ob_arr b) (unat src) n)\<rparr>"
  have le: "unat (sm_exprResultsEndOffset m) \<le> unat src"
    using assms(6) by (simp add: word_le_nat_alt src_def)
  have cap: "ob_len b \<le> length (ob_arr b)" using assms(1) by (simp add: ob_wf_def ob_cap_def b_def)
  have bounds: "unat dst + n \<le> unat src" "unat src + n \<le> length (ob_arr b)"
    using le assms(5,7) cap by (simp_all add: src_def b_def)
  have copy: "Copy src dst (saveExpr_ByteLen c) b = Inr b'"
    using Copy_disjoint [OF assms(1), of dst "saveExpr_ByteLen c" src] bounds(1) assms(4,7)
    by (simp add: b'_def b_def src_def)
  have "ob_cap b' = ob_cap b" using bounds by (simp add: b'_def ob_cap_def)
  then have trunc: "Out_Buf.truncate (sm_exprResultsEndOffset m) b' =
      Inr (b'\<lparr>ob_len := unat (sm_exprResultsEndOffset m)\<rparr>)"
    using le bounds(2) by (simp add: Out_Buf.truncate_def ob_cap_def)
  define m' where "m' = m\<lparr>sm_decoder := advance 9 (sm_decoder m), sm_offset := dst,
    sm_b := b'\<lparr>ob_len := unat (sm_exprResultsEndOffset m)\<rparr>\<rparr>"
  note s = step_op [OF assms(2)]
  have dec: "DecodeSaveExprResult (advance 1 (sm_decoder m)) = Inr (c, advance 9 (sm_decoder m))"
    using s(2) by (simp add: Decode_defs dec_at)
  have "step en pc depth m = Some (Inr (Next, m'))"
    unfolding s(1) using dec copy trunc
    by (simp add: exec_SaveExprResult_def m_decode_def m_buf_def m'_def b_def src_def assms(3) Let_def)
  moreover have "sub (ob_arr b') (unat dst) n = sub (ob_arr b) (unat src) n"
    using bounds by (simp add: b'_def sub_blit_sameI)
  moreover have "ob_arr b' ! k = ob_arr b ! k"
    if "k < ob_cap b" "k < unat dst \<or> unat dst + n \<le> k" for k
    using that bounds by (auto simp: b'_def nth_blit ob_cap_def)
  ultimately show ?thesis
    by (intro exI [of _ m']) (simp add: m'_def b_def [symmetric] src_def)
qed

definition example_save :: OpSaveExprResult where
  "example_save = \<lparr>saveExpr_ResultOffset = 4, saveExpr_ByteLen = 2\<rparr>"

definition example_save_machine :: machine where
  "example_save_machine =
     (example_machine (op_bytes (ASaveExprResult example_save)) 16)
       \<lparr>sm_exprResultsOffset := 0, sm_exprResultsEndOffset := 8, sm_offset := 12,
        sm_b := \<lparr>ob_arr = [0, 0, 0, 0, 0, 0, 0, 0, 1, 2, 3, 4, 5, 6, 7, 8], ob_len = 16, ob_isFull = False\<rparr>\<rparr>"

theorem SaveExprResult_moves_result_witness:
  "\<exists>m'. step (example_env example_stack_mem) 0 0 example_save_machine = Some (Inr (Next, m')) \<and>
     ob_len (sm_b m') = 8 \<and> sub (ob_arr (sm_b m')) 4 2 = [5, 6]"
proof -
  have h: "ob_wf (sm_b example_save_machine)"
    "at_pc (sm_decoder example_save_machine) (op_bytes (ASaveExprResult example_save) @ [])"
    "4 = sm_exprResultsOffset example_save_machine + saveExpr_ResultOffset example_save"
    "2 = unat (saveExpr_ByteLen example_save)"
    "unat (4 :: u32) + 2 \<le> unat (sm_exprResultsEndOffset example_save_machine)"
    "sm_exprResultsEndOffset example_save_machine \<le> sm_offset example_save_machine"
    "unat (sm_offset example_save_machine) + 2 \<le> ob_len (sm_b example_save_machine)"
    by (auto simp: example_save_machine_def example_machine_def newStackMachine_def MakeOpDecoder_def
        zero_SnapshotProgram_def at_pc_def example_save_def op_bytes_def ob_wf_def ob_cap_def
        intro!: exI [of _ "[]"])
  have v: "sub (ob_arr (sm_b example_save_machine)) (unat (sm_offset example_save_machine)) 2 = [5, 6]"
    "unat (sm_exprResultsEndOffset example_save_machine) = 8"
    by (simp_all add: example_save_machine_def sub_def)
  from SaveExprResult_moves_result [OF h, of "example_env example_stack_mem" 0 0] show ?thesis
    unfolding v by auto
qed

text \<open>
  \<open>PrepareExprEval\<close> does not reserve the eight bytes it writes: for a pointer expression on a buffer
  with fewer than eight bytes left it stores outside the buffer.
\<close>

theorem PrepareExprEval_wild_store:
  assumes "ob_wf (sm_b m)" "sm_exprType m = Pointer" "ob_cap (sm_b m) < ob_len (sm_b m) + 8"
  shows "exec_PrepareExprEval m = Inl WildAccess"
  using assms by (simp add: exec_PrepareExprEval_def m_buf_def ob_store64_def ob_store_def Ptr_def Let_def)

theorem PrepareExprEval_wild_store_witness:
  "exec_PrepareExprEval
     ((example_machine [] 4)\<lparr>sm_exprType := Pointer, sm_rootAddr := 4096\<rparr>) = Inl WildAccess"
  by (rule PrepareExprEval_wild_store)
    (simp_all add: example_machine_def newStackMachine_def ob_wf_def ob_cap_def)

subsection \<open>Closures\<close>

lemma classifySubroutine_iff:
  assumes "sorted (sc_EntryPc sc)"
  shows "(case classifySubroutine sc entry_pc of
      None \<Rightarrow> entry_pc \<notin> set (sc_EntryPc sc)
    | Some i \<Rightarrow> i < length (sc_EntryPc sc) \<and> sc_EntryPc sc ! i = entry_pc)"
proof -
  define xs where "xs = sc_EntryPc sc"
  define i where "i = sort_search (length xs) (\<lambda>i. entry_pc \<le> xs ! i)"
  have mono: "monotone_below (length xs) (\<lambda>i. entry_pc \<le> xs ! i)"
    using assms by (auto simp: monotone_below_def xs_def intro: order_trans sorted_nth_mono)
  note first = sort_search_first [OF mono, folded i_def]
  have "entry_pc \<notin> set xs" if no: "\<not> (i < length xs \<and> xs ! i = entry_pc)"
  proof
    assume "entry_pc \<in> set xs"
    then obtain k where k: "k < length xs" "xs ! k = entry_pc" by (auto simp: in_set_conv_nth)
    then have "i \<le> k" using first(1) [of k] by (auto simp: not_less [symmetric])
    then have "i < length xs" "xs ! i \<le> xs ! k" using k assms by (auto simp: xs_def intro: sorted_nth_mono)
    with first(2) k no show False by auto
  qed
  then show ?thesis
    by (auto simp: classifySubroutine_def Let_def xs_def [symmetric] i_def [symmetric])
qed

definition subroutine_entry :: "SubroutineClassifier \<Rightarrow> u64 \<Rightarrow> QueueEntry" where
  "subroutine_entry sc addr = \<lparr>qe_Type = sc_UnresolvedSubroutineType sc, qe_Len = 8, qe_Addr = addr\<rparr>"

lemma subroutine_entry_facts:
  "unwrapped (subroutine_entry sc addr)" "entry_len (subroutine_entry sc addr) = 24"
  "qe_Len (subroutine_entry sc addr) = 8" "qe_Addr (subroutine_entry sc addr) = addr"
  by (simp_all add: subroutine_entry_def unwrapped_def entry_len_def padded_def)

lemma written_load_store:
  assumes "ob_wf b" "unwrapped e" "room e b" "length bs = 8" "unat (qe_Len e) = 8"
  defines "p \<equiv> unat (Len b + 16)"
  shows "ob_load64 p (written e bs b) = Inr (le_word bs)"
    and "ob_store64 p w (written e bs b) = Inr (written e (le_bytes 8 w) b)"
    and "Out_Buf.truncate (Len b) (written e bs b) = Inr ((written e bs b)\<lparr>ob_len := ob_len b\<rparr>)"
proof -
  have p: "p = ob_len b + 16" using data_offset [OF assms(1-3)] by (simp add: p_def)
  have len: "ob_len b + 24 \<le> length (ob_arr b)"
    using entry_len_bounds(1) [OF assms(2)] assms(3,5) by (simp add: room_def ob_cap_def)
  note at = written_entry_at [OF assms(2,3), of bs]
  show "ob_load64 p (written e bs b) = Inr (le_word bs)"
    using at assms(4,5) by (simp add: p ob_load64_def ob_load_def entry_at_def)
  show "ob_store64 p w (written e bs b) = Inr (written e (le_bytes 8 w) b)"
    using len assms(4) by (simp add: p ob_store64_def ob_store_def written_def ob_cap_def blit_def min_def)
  show "Out_Buf.truncate (Len b) (written e bs b) = Inr ((written e bs b)\<lparr>ob_len := ob_len b\<rparr>)"
    using at(3) assms(1,4,5) by (simp add: Out_Buf.truncate_def ob_wf_def)
qed

text \<open>
  A closure is classified by its entry pc, corrected for address space layout randomization: if the
  sorted classifier knows the pc, nothing stays in the buffer and the closure object is queued with the
  type of that subroutine; if not, an entry of the unresolved type is appended that holds the corrected
  pc, and nothing is queued. What the buffer held before is untouched either way.
\<close>

theorem EnqueueSubroutine_classifies:
  assumes "machine_wf m" "unat (sm_offset m) + 8 \<le> ob_cap (sm_b m)" "ob_len (sm_b m) + 24 \<le> ob_cap (sm_b m)"
    and "addr = le_word (sub (ob_arr (sm_b m)) (unat (sm_offset m)) 8)"
    and "sp_SubroutineClassifier (en_p en) = Some sc" "sorted (sc_EntryPc sc)"
    and "length (sc_Type sc) = length (sc_EntryPc sc)" "sm_bssAddrShift m = Some shift"
    and "Dereference (en_mem en) addr 8 = Some bs" "entry_pc = le_word bs - shift"
  shows "\<exists>m'. exec_EnqueueSubroutine en m = Inr (Next, m') \<and>
    take (ob_len (sm_b m)) (ob_arr (sm_b m')) = ob_data (sm_b m) \<and>
    (if entry_pc \<in> set (sc_EntryPc sc) then
       ob_len (sm_b m') = ob_len (sm_b m) \<and>
       (\<exists>i < length (sc_EntryPc sc). sc_EntryPc sc ! i = entry_pc \<and>
         queue_Push addr (sc_Type sc ! i) 0 (sm_q m) = Inr (True, sm_q m'))
     else
       sm_q m' = sm_q m \<and> ob_len (sm_b m') = ob_len (sm_b m) + 24 \<and>
       entry_at (sm_b m') (ob_len (sm_b m)) (subroutine_entry sc addr) (le_bytes 8 entry_pc))"
proof -
  define b e where "b = sm_b m" and "e = subroutine_entry sc addr"
  have wf: "ob_wf b" "queue_wf (sm_q m)" using assms(1) by (simp_all add: machine_wf_def b_def)
  have e: "unwrapped e" "entry_len e = 24" "qe_Len e = 8" "qe_Addr e = addr"
    by (simp_all add: e_def subroutine_entry_facts)
  have room: "room e b" using assms(3) e(2) by (simp add: room_def b_def)
  have lenbs: "length bs = 8" by (rule Dereference_length [OF assms(9)])
  have wr: "writeQueueEntry (en_mem en) e b = Inr ((Len b + 16, True), written e bs b)"
    using writeQueueEntry_mapped [OF wf(1) e(1) room, of "en_mem en" bs] assms(9) e by simp
  have load: "ob_load64 (Ptr (sm_offset m)) b = Inr addr"
    using assms(2,4) by (simp add: ob_load64_def ob_load_def Ptr_def b_def)
  note ls = written_load_store [OF wf(1) e(1) room _ _]
  have l8: "unat (qe_Len e) = 8" by (simp add: e(3))
  note ls1 = ls(1,2) [OF lenbs l8] and ls2 = ls [of "le_bytes 8 entry_pc"]
  define m3 where "m3 = m\<lparr>sm_b := written e (le_bytes 8 entry_pc) b\<rparr>"
  have at: "entry_at (sm_b m3) (ob_len b) e (le_bytes 8 entry_pc)"
    "take (ob_len b) (ob_arr (sm_b m3)) = ob_data b"
    using written_entry_at [OF e(1) room, of "le_bytes 8 entry_pc"] l8 by (simp_all add: m3_def ob_data_def)
  have run: "exec_EnqueueSubroutine en m =
    (case classifySubroutine sc entry_pc of
       None \<Rightarrow> Inr (Next, m3)
     | Some i \<Rightarrow>
         bindE (m_buf (Out_Buf.truncate (Len b)) m3) (\<lambda>m4.
         bindE (guardE IndexOutOfRange (i < length (sc_Type sc))) (\<lambda>_.
         bindE (m_push addr (sc_Type sc ! i) 0 m4) (\<lambda>m. Inr (Next, m)))))"
    using load wr ls1 ls2 l8 assms(5,8,10)
    by (simp add: exec_EnqueueSubroutine_def m_decode_def DecodeEnqueueSubroutine_def m_bufr_def m_buf_def
        b_def [symmetric] e_def subroutine_entry_def [symmetric] Ptr_def m3_def Let_def split: option.split)
  show ?thesis
  proof (cases "classifySubroutine sc entry_pc")
    case None
    with classifySubroutine_iff [OF assms(6), of entry_pc] run at e(2) show ?thesis
      by (intro exI [of _ m3]) (simp add: m3_def b_def e_def written_def)
  next
    case (Some i)
    with classifySubroutine_iff [OF assms(6), of entry_pc]
    have i: "i < length (sc_EntryPc sc)" "sc_EntryPc sc ! i = entry_pc" by simp_all
    then have mem: "entry_pc \<in> set (sc_EntryPc sc)" by auto
    obtain q' where q': "queue_Push addr (sc_Type sc ! i) 0 (sm_q m) = Inr (True, q')"
      using DQ.push_total [OF wf(2), of addr "sc_Type sc ! i" 0] by metis
    define m5 where "m5 = m3\<lparr>sm_b := (sm_b m3)\<lparr>ob_len := ob_len b\<rparr>, sm_q := q'\<rparr>"
    have "exec_EnqueueSubroutine en m = Inr (Next, m5)"
      using run Some i(1) assms(7) q' ls2(3) l8
      by (simp add: m_buf_def m_push_def m5_def m3_def)
    with mem i q' at show ?thesis
      by (intro exI [of _ m5]) (auto simp: m5_def b_def)
  qed
qed

definition example_classifier :: SubroutineClassifier where
  "example_classifier =
     \<lparr>sc_UnresolvedSubroutineType = 7, sc_EntryPc = [4096, 8192], sc_Type = [3, 4]\<rparr>"

definition example_closure_mem :: memory where
  "example_closure_mem a =
     (if a = 256 \<or> a = 257 then Some 16 else if 256 \<le> a \<and> a < 264 then Some 0 else None)"

definition example_closure_env :: run_env where
  "example_closure_env =
     \<lparr>en_p = zero_SnapshotProgram\<lparr>sp_SubroutineClassifier := Some example_classifier\<rparr>,
      en_t = Map.empty, en_mem = example_closure_mem, en_md = 0\<rparr>"

definition example_closure_machine :: machine where
  "example_closure_machine =
     (example_machine [] 0)\<lparr>sm_bssAddrShift := Some 16,
       sm_b := \<lparr>ob_arr = [0, 1] @ replicate 38 0, ob_len = 8, ob_isFull = False\<rparr>\<rparr>"

theorem EnqueueSubroutine_classifies_witness:
  "\<exists>m'. exec_EnqueueSubroutine example_closure_env example_closure_machine = Inr (Next, m') \<and>
     ob_len (sm_b m') = 8 \<and> queue_Push 256 3 0 makeQueue = Inr (True, sm_q m')"
proof -
  define m where "m = example_closure_machine"
  have q: "sm_q m = makeQueue" and off: "sm_offset m = 0" and len: "ob_len (sm_b m) = 8"
    and cap: "ob_cap (sm_b m) = 40"
    by (simp_all add: m_def example_closure_machine_def example_machine_def newStackMachine_def ob_cap_def)
  have h1: "machine_wf m" using queue_wf_make len cap by (simp add: machine_wf_def q ob_wf_def)
  have h2: "unat (sm_offset m) + 8 \<le> ob_cap (sm_b m)" "ob_len (sm_b m) + 24 \<le> ob_cap (sm_b m)"
    by (simp_all add: off len cap)
  have a: "(256 :: u64) = le_word (sub (ob_arr (sm_b m)) (unat (sm_offset m)) 8)"
    by (simp add: off) (simp add: m_def example_closure_machine_def sub_def eval_nat_numeral)
  have h3: "sp_SubroutineClassifier (en_p example_closure_env) = Some example_classifier"
    "sorted (sc_EntryPc example_classifier)"
    "length (sc_Type example_classifier) = length (sc_EntryPc example_classifier)"
    "sm_bssAddrShift m = Some 16"
    by (simp_all add: example_closure_env_def zero_SnapshotProgram_def example_classifier_def m_def
        example_closure_machine_def)
  have d: "Dereference (en_mem example_closure_env) 256 8 = Some [16, 16, 0, 0, 0, 0, 0, 0]"
    by (simp add: example_closure_env_def Dereference_def read_bytes_step example_closure_mem_def)
  have w: "4096 = le_word [16, 16, 0, 0, 0, 0, 0, 0] - (16 :: u64)" by simp
  have mem: "4096 \<in> set (sc_EntryPc example_classifier)"
    and ty: "\<And>i. i < length (sc_EntryPc example_classifier) \<Longrightarrow>
      sc_EntryPc example_classifier ! i = 4096 \<Longrightarrow> sc_Type example_classifier ! i = 3"
    by (auto simp: example_classifier_def less_Suc_eq)
  from EnqueueSubroutine_classifies [OF h1 h2 a h3 d w] mem ty show ?thesis
    by (auto simp: m_def [symmetric] q len)
qed

subsection \<open>What a failed run leaves behind\<close>

text \<open>
  A program whose first operation calls a subroutine that is no operation, with a second entry at 6 that
  just returns.
\<close>

definition stale_program :: "u8 list" where
  "stale_program = op_bytes (ACall \<lparr>call_Pc = 7\<rparr>) @ [0] @ op_bytes AReturn @ [0]"

text \<open>
  \<open>Run\<close> does not clear the stack it starts on: a run that fails inside a subroutine leaves its return
  address there, and the next run, which on a fresh machine returns true at once, goes on at that address
  when it returns, and fails in turn.
\<close>

theorem Run_stale_stack:
  "\<forall>en cfa depth offset m. \<exists>m1 m2.
     let m0 = m\<lparr>sm_stack := [], sm_decoder := MakeOpDecoder stale_program\<rparr> in
     Run en 0 cfa depth offset m0 = Some (Inr (False, m1)) \<and> sm_stack m1 = [5] \<and>
     Run en 6 cfa depth offset m1 = Some (Inr (False, m2)) \<and>
     (\<exists>m3. Run en 6 cfa depth offset m0 = Some (Inr (True, m3)))"
proof (intro allI)
  fix en cfa depth offset and m :: machine
  have bytes: "stale_program = [1, 7, 0, 0, 0, 0, 15, 0]"
    by (simp add: stale_program_def op_bytes_def le_bytes_step)
  obtain k where k: "max_steps = Suc (Suc k)" using that [of 99998] by (simp add: max_steps_def)
  note defs = Run_def m_SetPC_def SetPC_def k step_def m_decode_def PopOpCode_def dec_u8_def
    opcode_of_def opcode_table_def advance_def exec_Call_def DecodeCall_def dec_u32_def dec_word_def
    sub_def jump_to_def m_append_def PC_def exec_return_def ExecuteReturn_def bytes MakeOpDecoder_def
  define m0 where "m0 = m\<lparr>sm_stack := [], sm_decoder := MakeOpDecoder stale_program\<rparr>"
  define at where "at pc = \<lparr>dec_pc = pc, dec_opBuf = stale_program\<rparr>" for pc
  define m1 where "m1 = m0\<lparr>sm_stack := [5], sm_decoder := at 8, sm_cfa := cfa, sm_offset := offset\<rparr>"
  have st: "sm_stack m1 = [5]" by (simp add: m1_def)
  have r1: "Run en 0 cfa depth offset m0 = Some (Inr (False, m1))"
    by (simp add: defs m0_def m1_def at_def Let_def)
  have r2: "Run en 6 cfa depth offset m1 = Some (Inr (False, m1\<lparr>sm_stack := [], sm_decoder := at 6\<rparr>))"
    by (simp add: defs m0_def m1_def at_def Let_def)
  have r3: "Run en 6 cfa depth offset m0 =
      Some (Inr (True, m0\<lparr>sm_decoder := at 7, sm_cfa := cfa, sm_offset := offset\<rparr>))"
    by (simp add: defs m0_def m1_def at_def Let_def)
  show "\<exists>m1 m2.
     let m0 = m\<lparr>sm_stack := [], sm_decoder := MakeOpDecoder stale_program\<rparr> in
     Run en 0 cfa depth offset m0 = Some (Inr (False, m1)) \<and> sm_stack m1 = [5] \<and>
     Run en 6 cfa depth offset m1 = Some (Inr (False, m2)) \<and>
     (\<exists>m3. Run en 6 cfa depth offset m0 = Some (Inr (True, m3)))"
    unfolding Let_def m0_def [symmetric] using r1 r2 r3 st by blast
qed

end
