(* ===== verification/Op_Outcomes.thy ===== *)
theory Op_Outcomes
  imports Machine_Inv
begin

text \<open>
  How an operation of the interpreter can end: the faults it may raise, and what it leaves when it does not.
  \<open>outE F Q m\<close>: \<open>m\<close> either raises a fault of \<open>F\<close> or returns something that satisfies \<open>Q\<close>. The rules for the
  parts of an operation are collected in \<open>out_bind\<close>; \<open>op_faults\<close> and \<open>may_stop\<close> state the outcomes of each operation,
  and \<open>straight_on_out\<close> and \<open>exec_PrepareGoContext_out\<close> prove them for the operations that
  leave the stack alone.
\<close>

subsection \<open>Results with their faults\<close>

definition outE :: "fault set \<Rightarrow> ('a \<Rightarrow> bool) \<Rightarrow> 'a res \<Rightarrow> bool" where
  "outE F Q m = (case m of Inl e \<Rightarrow> e \<in> F | Inr x \<Rightarrow> Q x)"

named_theorems out_bind \<open>the parts of an operation, with their faults\<close>

lemma outE_simps [simp]: "outE F Q (Inl e) \<longleftrightarrow> e \<in> F" "outE F Q (Inr x) \<longleftrightarrow> Q x"
  by (simp_all add: outE_def)

lemma outE_bind: "outE F P m \<Longrightarrow> (\<And>x. P x \<Longrightarrow> outE F Q (f x)) \<Longrightarrow> outE F Q (bindE m f)"
  by (cases m) simp_all

lemma outE_okE: "okE P m \<Longrightarrow> (\<And>e. m = Inl e \<Longrightarrow> e \<in> F) \<Longrightarrow> outE F P m"
  by (cases m) simp_all

lemma outE_read [out_bind]:
  "WildAccess \<in> F \<Longrightarrow> (\<And>x. outE F Q (f x)) \<Longrightarrow> outE F Q (bindE (ob_load64 p b) f)"
  "WildAccess \<in> F \<Longrightarrow> (\<And>x. outE F Q (g x)) \<Longrightarrow> outE F Q (bindE (ob_load8 p b) g)"
  "WildAccess \<in> F \<Longrightarrow> (\<And>x. outE F Q (h x)) \<Longrightarrow> outE F Q (bindE (GetEntryLen o' b) h)"
  "SegFault \<in> F \<Longrightarrow> (\<And>x. outE F Q (h' x)) \<Longrightarrow> outE F Q (bindE (load_u64 mem ad) h')"
  "e \<in> F \<Longrightarrow> (c \<Longrightarrow> outE F Q (k ())) \<Longrightarrow> outE F Q (bindE (guardE e c) k)"
  "e \<in> F \<Longrightarrow> (\<And>y. x = Some y \<Longrightarrow> outE F Q (l y)) \<Longrightarrow> outE F Q (bindE (ofOption e x) l)"
  by (simp_all add: ob_load64_def ob_load8_def GetEntryLen_def ob_load32_def ob_load_def load_u64_def guardE_def ofOption_def
      split: option.splits)

lemma outE_branch [out_bind]:
  "(c \<Longrightarrow> outE F Q (bindE m1 f)) \<Longrightarrow> (\<not> c \<Longrightarrow> outE F Q (bindE m2 f)) \<Longrightarrow> outE F Q (bindE (if c then m1 else m2) f)"
  "(x = None \<Longrightarrow> outE F Q (bindE m1 f)) \<Longrightarrow> (\<And>y. x = Some y \<Longrightarrow> outE F Q (bindE (m3 y) f)) \<Longrightarrow>
   outE F Q (bindE (case x of None \<Rightarrow> m1 | Some y \<Rightarrow> m3 y) f)"
  by (simp_all split: option.splits)

subsection \<open>The buffer\<close>

named_theorems buf_out \<open>the faults of the buffer's operations\<close>

lemma ob_store_out [buf_out]: "ob_wf b \<Longrightarrow> WildAccess \<in> F \<Longrightarrow> outE F (ob_rel b) (ob_store p bs b)"
  by (rule outE_okE [OF ob_store_ok]) (auto simp: ob_store_def split: if_splits)

lemma ob_store64_out [buf_out]: "ob_wf b \<Longrightarrow> WildAccess \<in> F \<Longrightarrow> outE F (ob_rel b) (ob_store64 p w b)"
  by (simp add: ob_store64_def ob_store_out)

lemma ob_store32_out [buf_out]: "ob_wf b \<Longrightarrow> WildAccess \<in> F \<Longrightarrow> outE F (ob_rel b) (ob_store32 p w b)"
  by (simp add: ob_store32_def ob_store_out)

lemma Zero_out [buf_out]: "ob_wf b \<Longrightarrow> SliceOutOfRange \<in> F \<Longrightarrow> outE F (ob_rel b) (Zero p n b)"
  by (rule outE_okE [OF Zero_ok]) (auto simp: Zero_def split: if_splits)

lemma truncate_out [buf_out]: "ob_wf b \<Longrightarrow> SliceOutOfRange \<in> F \<Longrightarrow> outE F (ob_rel b) (Out_Buf.truncate n b)"
  by (rule outE_okE [OF truncate_ok]) (auto simp: Out_Buf.truncate_def split: if_splits)

lemma Copy_loop_fault: "Copy_loop n src dst i b = Inl e \<Longrightarrow> e = IndexOutOfRange"
  by (induction n arbitrary: i b) (auto simp: res_simps guardE_def split: if_splits)

lemma Copy_out [buf_out]: "ob_wf b \<Longrightarrow> IndexOutOfRange \<in> F \<Longrightarrow> outE F (ob_rel b) (Copy src dst n b)"
  by (rule outE_okE [OF Copy_ok]) (auto simp: Copy_def split: if_splits dest: Copy_loop_fault)

lemma ConcludeFrameData_out [buf_out]:
  "ob_wf b \<Longrightarrow> NilDeref \<in> F \<Longrightarrow> WildAccess \<in> F \<Longrightarrow> outE F (ob_rel b) (ConcludeFrameData p b)"
  by (rule outE_okE [OF ConcludeFrameData_ok])
    (auto simp: ConcludeFrameData_def res_simps ofOption_def ob_load32_def ob_load_def ob_store32_def ob_store_def split: option.splits if_splits)

lemma ob_Dereference_out [buf_out]:
  "ob_wf b \<Longrightarrow> {SliceOutOfRange, WildAccess} \<subseteq> F \<Longrightarrow> outE F (\<lambda>(_, b'). ob_rel b b') (ob_Dereference mem off a n b)"
  by (rule outE_okE [OF ob_Dereference_ok])
    (auto simp: ob_Dereference_def res_simps Zero_def ob_store_def split: option.splits if_splits)

lemma reserveQueueEntry_out [buf_out]:
  "ob_wf b \<Longrightarrow> WildAccess \<in> F \<Longrightarrow> outE F (\<lambda>(_, b'). ob_rel b b') (reserveQueueEntry e b)"
  by (rule outE_okE [OF reserveQueueEntry_ok])
    (auto simp: reserveQueueEntry_def res_simps ob_store_def Let_def split: prod.splits if_splits)

lemma writeQueueEntry_out [buf_out]:
  "ob_wf b \<Longrightarrow> {SliceOutOfRange, WildAccess} \<subseteq> F \<Longrightarrow> outE F (\<lambda>(_, b'). ob_rel b b') (writeQueueEntry mem e b)"
  by (rule outE_okE [OF writeQueueEntry_ok])
    (auto simp: writeQueueEntry_def reserveQueueEntry_def ob_Dereference_def Zero_def res_simps ob_store_def ob_load32_def
      ob_store32_def ob_load_def Let_def split: prod.splits if_splits option.splits)

lemma PrepareFrameData_out [buf_out]:
  "ob_wf b \<Longrightarrow> WildAccess \<in> F \<Longrightarrow> outE F (\<lambda>(_, b'). ob_rel b b') (PrepareFrameData t p n d b)"
  by (rule outE_okE [OF PrepareFrameData_ok])
    (auto simp: PrepareFrameData_def res_simps ob_store_def ob_store32_def Let_def split: if_splits)

subsection \<open>The parts of an operation\<close>

text \<open>The resolver of types reads the range of the first module at most once, and then has the range in memory.\<close>

definition range_current :: "run_env \<Rightarrow> goRuntimeTypeResolver \<Rightarrow> bool" where
  "range_current en g \<longleftrightarrow>
     (let r = gr_cachedFirstmoduledataRange g in mtr_start r = 0 \<or>
       load_u64 (en_mem en) (en_md en + mc_typesOffset (gr_cfg g)) = Inr (mtr_start r) \<and>
       load_u64 (en_mem en) (en_md en + mc_etypesOffset (gr_cfg g)) = Inr (mtr_end r))"

definition resolver_kept :: "run_env \<Rightarrow> goRuntimeTypeResolver \<Rightarrow> goRuntimeTypeResolver \<Rightarrow> bool" where
  "resolver_kept en g g' \<longleftrightarrow> gr_cfg g' = gr_cfg g \<and> (range_current en g \<longrightarrow> range_current en g')"

lemma resolver_kept_refl [simp]: "resolver_kept en g g"
  by (simp add: resolver_kept_def)

lemma resolver_kept_trans: "resolver_kept en f g \<Longrightarrow> resolver_kept en g h \<Longrightarrow> resolver_kept en f h"
  by (simp add: resolver_kept_def)

lemma Resolve_kept:
  "outE {SegFault} (\<lambda>(_, g'). resolver_kept en g g') (ResolveTypeAddressToGoRuntimeTypeId (en_mem en) (en_md en) a g)"
  by (auto simp: ResolveTypeAddressToGoRuntimeTypeId_def maybeResolveFirstmoduledataRange_def Let_def bindE_assoc outE_def
      resolver_kept_def range_current_def res_simps load_u64_def ofOption_def split: sum.splits if_splits option.splits)

text \<open>A well-formed machine whose decoder and stack are known, and whose resolver was \<open>g\<close>.\<close>

definition at_point :: "run_env \<Rightarrow> goRuntimeTypeResolver \<Rightarrow> OpDecoder \<Rightarrow> u32 list \<Rightarrow> machine \<Rightarrow> bool" where
  "at_point en g d s m \<longleftrightarrow> machine_wf m \<and> sm_decoder m = d \<and> sm_stack m = s \<and> resolver_kept en g (sm_g m)"

lemma at_point_upd [simp]:
  "at_point en g d s (m\<lparr>sm_offset := x\<rparr>) = at_point en g d s m"
  "at_point en g d s (m\<lparr>sm_frameHeader := f\<rparr>) = at_point en g d s m"
  "at_point en g d s (m\<lparr>sm_exprResultsOffset := x\<rparr>) = at_point en g d s m"
  "at_point en g d s (m\<lparr>sm_exprResultsEndOffset := x\<rparr>) = at_point en g d s m"
  "at_point en g d s (m\<lparr>sm_exprType := t\<rparr>) = at_point en g d s m"
  "at_point en g d s (m\<lparr>sm_rootAddr := r\<rparr>) = at_point en g d s m"
  "at_point en g d s (m\<lparr>sm_goContextOffset := x\<rparr>) = at_point en g d s m"
  "at_point en g d s (m\<lparr>sm_goContextCaptureBitmask := r\<rparr>) = at_point en g d s m"
  by (simp_all add: at_point_def machine_wf_def)

lemma at_point_move:
  "at_point en g d s m \<Longrightarrow> at_point en g d' s (m\<lparr>sm_decoder := d'\<rparr>)"
  "at_point en g d s m \<Longrightarrow> at_point en g d s' (m\<lparr>sm_stack := s'\<rparr>)"
  "at_point en g d s m \<Longrightarrow> at_point en g d (v # s) (m_append v m)"
  by (simp_all add: at_point_def machine_wf_def m_append_def)

lemma at_pointD:
  "at_point en g d s m \<Longrightarrow> machine_wf m" "at_point en g d s m \<Longrightarrow> sm_decoder m = d" "at_point en g d s m \<Longrightarrow> sm_stack m = s"
  "at_point en g d s m \<Longrightarrow> ob_wf (sm_b m)" "at_point en g d s m \<Longrightarrow> queue_wf (sm_q m)"
  by (simp_all add: at_point_def machine_wf_def)

lemma at_point_b: "at_point en g d s m \<Longrightarrow> ob_rel (sm_b m) b \<Longrightarrow> at_point en g d s (m\<lparr>sm_b := b\<rparr>)"
  by (auto simp: at_point_def machine_wf_def dest: ob_rel_wf)

lemma at_point_q: "at_point en g d s m \<Longrightarrow> qu_rel (sm_q m) q \<Longrightarrow> at_point en g d s (m\<lparr>sm_q := q\<rparr>)"
  by (auto simp: at_point_def machine_wf_def dest: qu_rel_wf)

lemma at_point_EnsureLen: "at_point en g d s m \<Longrightarrow> EnsureLen n (sm_b m) = (ok, b) \<Longrightarrow> at_point en g d s (m\<lparr>sm_b := b\<rparr>)"
  using at_point_b [of en g d s m b] EnsureLen_ok [of "sm_b m" n] by (auto dest: at_pointD)

lemma m_buf_out:
  assumes "at_point en g d s m" "\<And>b. ob_wf b \<Longrightarrow> outE F (ob_rel b) (h b)"
    and "\<And>m'. at_point en g d s m' \<Longrightarrow> outE F Q (f m')"
  shows "outE F Q (bindE (m_buf h m) f)"
  using assms(2) [OF at_pointD(4) [OF assms(1)]] assms(3) at_point_b [OF assms(1)]
  by (cases "h (sm_b m)") (simp_all add: m_buf_def)

lemma m_bufr_out:
  assumes "at_point en g d s m" "\<And>b. ob_wf b \<Longrightarrow> outE F (\<lambda>(_, b'). ob_rel b b') (h b)"
    and "\<And>r m'. at_point en g d s m' \<Longrightarrow> outE F Q (f (r, m'))"
  shows "outE F Q (bindE (m_bufr h m) f)"
  using assms(2) [OF at_pointD(4) [OF assms(1)]] assms(3) at_point_b [OF assms(1)]
  by (cases "h (sm_b m)") (auto simp: m_bufr_def split: prod.splits)

lemmas [out_bind] =
  m_buf_out [OF _ ob_store_out] m_buf_out [OF _ ob_store64_out] m_buf_out [OF _ Zero_out] m_buf_out [OF _ Copy_out]
  m_buf_out [OF _ truncate_out] m_buf_out [OF _ ConcludeFrameData_out] m_bufr_out [OF _ ob_Dereference_out]
  m_bufr_out [OF _ reserveQueueEntry_out] m_bufr_out [OF _ writeQueueEntry_out] m_bufr_out [OF _ PrepareFrameData_out]

lemma m_push_out:
  assumes "at_point en g d s m"
  shows "outE F (at_point en g d s) (m_push a t n m)"
proof -
  note wf = at_pointD(5) [OF assms]
  have "\<exists>q. queue_Push a t n (sm_q m) = Inr (True, q)"
    using queue_Push_seen [of a t "sm_q m" n] queue_Push_new [OF wf, of a t n] by blast
  then obtain q where q: "queue_Push a t n (sm_q m) = Inr (True, q)" ..
  with queue_Push_rel [OF wf, of a t n] have "qu_rel (sm_q m) q" by simp
  with q at_point_q [OF assms] show ?thesis by (simp add: m_push_def)
qed

lemma m_push_out_bind [out_bind]:
  "at_point en g d s m \<Longrightarrow> (\<And>m'. at_point en g d s m' \<Longrightarrow> outE F Q (f m')) \<Longrightarrow> outE F Q (bindE (m_push a t n m) f)"
  by (rule outE_bind [OF m_push_out])

lemma m_resolve_out [out_bind]:
  assumes "at_point en g d s m" "SegFault \<in> F" "\<And>r m'. at_point en g d s m' \<Longrightarrow> outE F Q (f (r, m'))"
  shows "outE F Q (bindE (m_resolve en ty m) f)"
proof -
  have "outE F (\<lambda>(_, m'). at_point en g d s m') (m_resolve en ty m)"
    using assms(1,2) Resolve_kept [of en "sm_g m" ty]
    by (auto simp: m_resolve_def outE_def at_point_def machine_wf_def res_simps elim: resolver_kept_trans split: sum.splits)
  from outE_bind [OF this] show ?thesis using assms(3) by auto
qed

lemma resolveEmptyInterface_out [out_bind]:
  assumes "at_point en g d s m" "{WildAccess, SegFault} \<subseteq> F" "\<And>r m'. at_point en g d s m' \<Longrightarrow> outE F Q (f (r, m'))"
  shows "outE F Q (bindE (resolveEmptyInterface en m) f)"
proof -
  have "outE F (\<lambda>(_, m'). at_point en g d s m') (resolveEmptyInterface en m)"
    using assms(1,2) unfolding resolveEmptyInterface_def Let_def by (auto intro!: out_bind)
  from outE_bind [OF this] show ?thesis using assms(3) by auto
qed

lemma resolveAnyType_out [out_bind]:
  assumes "at_point en g d s m" "{WildAccess, SegFault} \<subseteq> F" "\<And>r m'. at_point en g d s m' \<Longrightarrow> outE F Q (f (r, m'))"
  shows "outE F Q (bindE (resolveAnyType en m) f)"
proof -
  have "outE F (\<lambda>(_, m'). at_point en g d s m') (resolveAnyType en m)"
    using assms(1,2) unfolding resolveAnyType_def Let_def by (auto intro!: out_bind split: option.splits)
  from outE_bind [OF this] show ?thesis using assms(3) by auto
qed

subsection \<open>The operations that leave the stack alone\<close>

text \<open>
  What an operation may fail with when the stack is as it expects: an access through a pointer outside of the
  buffer, an unmapped address, and the panics over lengths and indices that the operands give.
\<close>

fun op_faults :: "AnyOp \<Rightarrow> fault set" where
  "op_faults (APushSliceLen r) = {WildAccess, DivideByZero}"
| "op_faults AEnqueueEmptyInterface = {WildAccess, SegFault}"
| "op_faults AEnqueueInterface = {WildAccess, SegFault, SliceOutOfRange}"
| "op_faults (AEnqueuePointer r) = {WildAccess}"
| "op_faults (AEnqueueSliceHeader r) = {WildAccess}"
| "op_faults (AEnqueueStringHeader r) = {WildAccess}"
| "op_faults (AEnqueueHMapHeader r) = {WildAccess}"
| "op_faults (AEnqueueSwissMap r) = {WildAccess}"
| "op_faults (AEnqueueSwissMapGroups r) = {WildAccess}"
| "op_faults AEnqueueSubroutine = {WildAccess, NilDeref, SliceOutOfRange, IndexOutOfRange}"
| "op_faults (ADereferenceCFAOffset r) = {WildAccess, SliceOutOfRange}"
| "op_faults (ACopyFromRegister r) = {SliceOutOfRange}"
| "op_faults APrepareExprEval = {WildAccess}"
| "op_faults (ASaveExprResult r) = {IndexOutOfRange, SliceOutOfRange}"
| "op_faults (ADereferencePtr r) = {WildAccess, SliceOutOfRange}"
| "op_faults (AZeroFill r) = {SliceOutOfRange}"
| "op_faults (ASetPresenceBit r) = {WildAccess}"
| "op_faults APreparePointeeData = {WildAccess, SliceOutOfRange}"
| "op_faults (APrepareFrameData r) = {WildAccess}"
| "op_faults AConcludeFrameData = {WildAccess, NilDeref}"
| "op_faults (APrepareGoContext r) = {WildAccess, SegFault, NilDeref, SliceOutOfRange}"
| "op_faults AIllegal = {SegFault}"
| "op_faults _ = {}"

text \<open>
  When \<open>Run\<close> may return false after an operation: it is invalid or has no type, or the buffer is full, which it
  then is for good.
\<close>

fun may_stop :: "AnyOp \<Rightarrow> machine \<Rightarrow> bool" where
  "may_stop AInvalid m = True"
| "may_stop AIllegal m = True"
| "may_stop (AEnqueuePointer r) m = (enqPtr_ElemType r = 0)"
| "may_stop (ADereferenceCFAOffset r) m = ob_isFull (sm_b m)"
| "may_stop (ACopyFromRegister r) m = ob_isFull (sm_b m)"
| "may_stop APreparePointeeData m = ob_isFull (sm_b m)"
| "may_stop (APrepareFrameData r) m = ob_isFull (sm_b m)"
| "may_stop _ m = False"

text \<open>The operations that only move on.\<close>

fun straight_on :: "AnyOp \<Rightarrow> bool" where
  "straight_on (ACall r) = False"
| "straight_on (ACondJump r) = False"
| "straight_on ADecrement = False"
| "straight_on (AEnqueueHMapHeader r) = False"
| "straight_on (AJump r) = False"
| "straight_on APop = False"
| "straight_on (APushImm r) = False"
| "straight_on APushOffset = False"
| "straight_on (APushSliceLen r) = False"
| "straight_on AReturn = False"
| "straight_on ASetOffset = False"
| "straight_on (ADereferencePtr r) = False"
| "straight_on (APrepareGoContext r) = False"
| "straight_on _ = True"

definition moves_on :: "run_env \<Rightarrow> goRuntimeTypeResolver \<Rightarrow> AnyOp \<Rightarrow> OpDecoder \<Rightarrow> u32 list \<Rightarrow> ctl \<times> machine \<Rightarrow> bool" where
  "moves_on en g a d s r \<longleftrightarrow>
     (case r of
        (Next, m) \<Rightarrow> at_point en g d s m
      | (Ret ok, m) \<Rightarrow> \<not> ok \<and> at_point en g d s m \<and> may_stop a m)"

lemma moves_on_simps [simp]:
  "moves_on en g a d s (Next, m) = at_point en g d s m"
  "moves_on en g a d s (Ret ok, m) = (\<not> ok \<and> at_point en g d s m \<and> may_stop a m)"
  by (simp_all add: moves_on_def)

lemma EnsureLen_full: "EnsureLen n b = (False, b') \<Longrightarrow> ob_isFull b'"
  by (auto simp: EnsureLen_def split: if_splits)

lemma reserveQueueEntry_full: "reserveQueueEntry e b = Inr ((p, False), b') \<Longrightarrow> ob_isFull b'"
  by (auto simp: reserveQueueEntry_def Let_def res_simps split: prod.splits if_splits dest: EnsureLen_full)

lemma PrepareFrameData_full: "PrepareFrameData t p n d b = Inr ((h, q, False), b') \<Longrightarrow> ob_isFull b'"
  by (auto simp: PrepareFrameData_def Let_def res_simps split: if_splits)

text \<open>The two operations that end the run after a call that returns a result.\<close>

lemma m_bufr_full:
  assumes "at_point en g d s m" "\<And>b. ob_wf b \<Longrightarrow> outE F (\<lambda>(_, b'). ob_rel b b') (h b)"
    and "\<And>b r b'. h b = Inr (r, b') \<Longrightarrow> \<not> ok r \<Longrightarrow> ob_isFull b'"
    and "\<And>r m'. at_point en g d s m' \<Longrightarrow> \<not> ok r \<longrightarrow> ob_isFull (sm_b m') \<Longrightarrow> outE F Q (f (r, m'))"
  shows "outE F Q (bindE (m_bufr h m) f)"
  using assms(2) [OF at_pointD(4) [OF assms(1)]] assms(3) [of "sm_b m"] assms(4) at_point_b [OF assms(1)]
  by (cases "h (sm_b m)") (auto simp: m_bufr_def split: prod.splits)

lemma exec_PreparePointeeData_out:
  assumes "at_point en g d s m"
  shows "outE (op_faults APreparePointeeData) (moves_on en g APreparePointeeData d s) (exec_PreparePointeeData m)"
  unfolding exec_PreparePointeeData_def
  by (rule m_bufr_full [OF assms reserveQueueEntry_out, where ok = snd])
    (auto simp: Let_def dest: reserveQueueEntry_full intro!: out_bind)

lemma exec_PrepareFrameData_out:
  assumes "at_point en g d0 s m" "DecodePrepareFrameData d0 = Inr (r, d)"
  shows "outE (op_faults (APrepareFrameData r)) (moves_on en g (APrepareFrameData r) d s) (exec_PrepareFrameData depth m)"
proof -
  have m: "m_decode DecodePrepareFrameData m = Inr (r, m\<lparr>sm_decoder := d\<rparr>)"
    using assms by (simp add: m_decode_def at_point_def)
  show ?thesis
    unfolding exec_PrepareFrameData_def m bindE_Inr split
    by (rule m_bufr_full [OF at_point_move(1) [OF assms(1)] PrepareFrameData_out, where ok = "\<lambda>(_, _, ok). ok"])
      (auto dest: PrepareFrameData_full)
qed

lemmas exec_data_defs =
  exec_EnqueueEmptyInterface_def exec_EnqueueInterface_def exec_EnqueuePointer_def exec_EnqueueSliceHeader_def
  exec_EnqueueStringHeader_def exec_EnqueueSwissMap_def exec_EnqueueSwissMapGroups_def exec_EnqueueSubroutine_def
  exec_AdvanceOffset_def exec_Illegal_def exec_DereferenceCFAOffset_def exec_CopyFromRegister_def
  exec_PrepareExprEval_def exec_SaveExprResult_def exec_ZeroFill_def exec_SetPresenceBit_def
  exec_ConcludeFrameData_def

lemma straight_on_out:
  assumes "at_point en g d0 s m" "decode_operands (code_of a) d0 = Inr (Some a, d)" "straight_on a"
  shows "\<exists>r. exec_op en pc depth (code_of a) m = Some r \<and> outE (op_faults a) (moves_on en g a d s) r"
proof -
  have dec: "sm_decoder m = d0" "sm_stack m = s" using assms(1) by (simp_all add: at_point_def)
  have len: "EnsureLen n (sm_b m) = (ok, b) \<Longrightarrow> at_point en g d s (m\<lparr>sm_decoder := d, sm_b := b\<rparr>)" for n ok b
    by (rule at_point_EnsureLen [OF at_point_move(1) [OF assms(1)]]) simp
  show ?thesis
    using assms(2,3) at_point_move(1) [OF assms(1)] assms(1) exec_PreparePointeeData_out [OF assms(1)]
      exec_PrepareFrameData_out [OF assms(1)]
    by (cases a)
      (auto simp: res_simps exec_data_defs m_decode_def dec Let_def DecodeEnqueueInterface_def DecodeEnqueueEmptyInterface_def
        DecodeTraverseGoContext_def DecodeConcludeGoContext_def DecodeIllegal_def
        intro!: out_bind dest: len EnsureLen_full split: option.splits prod.splits)
qed

subsection \<open>Go contexts\<close>

definition outO :: "fault set \<Rightarrow> ('a \<Rightarrow> bool) \<Rightarrow> ('a res) option \<Rightarrow> bool" where
  "outO F Q m \<longleftrightarrow> (\<forall>r. m = Some r \<longrightarrow> outE F Q r)"

lemma outO_simps [simp]: "outO F Q None" "outO F Q (Some r) \<longleftrightarrow> outE F Q r"
  by (simp_all add: outO_def)

lemma outO_bind: "outO F P m \<Longrightarrow> (\<And>x. P x \<Longrightarrow> outO F Q (f x)) \<Longrightarrow> outO F Q (bindO m f)"
  by (cases m; cases "the m") (auto simp: outO_def)

lemma outO_mono: "outO F P m \<Longrightarrow> (\<And>x. P x \<Longrightarrow> Q x) \<Longrightarrow> outO F Q m"
  by (cases m; cases "the m") (auto simp: outO_def)

lemma outO_lift: "outE F (\<lambda>x. outO F Q (f x)) (bindE m Inr) \<Longrightarrow> outO F Q (bindO (Some m) f)"
  by (cases m) simp_all

lemma loop_fuel_out:
  assumes "\<And>s. I s \<Longrightarrow> outO F (\<lambda>(_, t). I t) (body s)"
  shows "I s \<Longrightarrow> outO F I (loop_fuel n body s)"
proof (induction n arbitrary: s)
  case (Suc n)
  from assms [OF Suc.prems] Suc.IH show ?case by (auto split: option.splits sum.splits)
qed simp

lemma loopR_out:
  assumes "\<And>s. I s \<Longrightarrow> outO F (\<lambda>(_, t). I t) (body s)" "I s"
  shows "outO F I (loopR body s)"
  using loop_fuel_out [OF assms] by (auto simp: outO_def dest: loopR_loop_fuel)

lemma recordGoContextValue_out:
  "at_point en g d s m \<Longrightarrow> WildAccess \<in> F \<Longrightarrow> outE F (at_point en g d s) (recordGoContextValue spec v t m)"
  unfolding recordGoContextValue_def Let_def by (auto intro!: out_bind m_push_out)

lemmas recordGoContextValue_bind_out [out_bind] = outE_bind [OF recordGoContextValue_out]

lemma goContextValue_out:
  "at_point en g d s m \<Longrightarrow> {WildAccess, SegFault, NilDeref} \<subseteq> F \<Longrightarrow> outE F (at_point en g d s) (goContextValue en impl m)"
  unfolding goContextValue_def Let_def by (auto intro!: out_bind recordGoContextValue_out split: option.splits)

lemma goContextStep_out:
  "at_point en g d s m \<Longrightarrow> {WildAccess, SegFault, NilDeref, SliceOutOfRange} \<subseteq> F \<Longrightarrow>
   outE F (\<lambda>(_, m'). at_point en g d s m') (goContextStep en m)"
  unfolding goContextStep_def Let_def
  by (auto intro!: out_bind outE_bind [OF goContextValue_out] split: option.splits prod.splits)

lemma exec_PrepareGoContext_out:
  assumes "at_point en g d0 s m" "DecodePrepareGoContext d0 = Inr (r, d)"
  shows "outO (op_faults (APrepareGoContext r)) (moves_on en g (APrepareGoContext r) d s) (exec_PrepareGoContext en m)"
proof -
  have p: "at_point en g d s (m\<lparr>sm_decoder := d\<rparr>)" by (rule at_point_move(1) [OF assms(1)])
  have dec: "m_decode DecodePrepareGoContext m = Inr (r, m\<lparr>sm_decoder := d\<rparr>)"
    using assms by (simp add: m_decode_def at_point_def)
  have q: "at_point en g d s (m\<lparr>sm_decoder := d, sm_q := q\<rparr>)"
    if "ShouldRecord a t (sm_q m) = (b, q)" for a t b q
    using at_point_q [OF p, of q] ShouldRecord_rel [of "sm_q m" a t] that at_pointD(5) [OF p] by simp
  have l: "outO F (at_point en g d s) (goContextLoop en m')"
    if "at_point en g d s m'" "{WildAccess, SegFault, NilDeref, SliceOutOfRange} \<subseteq> F" for F d s m'
    unfolding goContextLoop_def using that by (intro loopR_out) (simp_all add: goContextStep_out)
  have rest: "outO {WildAccess, SegFault, NilDeref, SliceOutOfRange} (moves_on en g (APrepareGoContext r) d s)
      (bindO (Some (m_bufr (writeQueueEntry mem e) m2)) (\<lambda>((off, ok), m3).
       if \<not> ok then Some (next_op m3)
       else
         bindO (Some (m_buf (Zero off n) m3)) (\<lambda>m4.
         bindO (goContextLoop en (upd off m4)) (\<lambda>m6. Some (bindE (m_buf (Out_Buf.truncate (h off m4)) m6) next_op)))))"
    if "at_point en g d s m2" "\<And>off m4. at_point en g d s (upd off m4) = at_point en g d s m4"
    for mem e m2 n upd h
    using that by (auto intro!: outO_lift outO_bind [OF l [where d = d and s = s]] out_bind)
  have "outO (op_faults (APrepareGoContext r)) (moves_on en g (APrepareGoContext r) d s) (exec_PrepareGoContext en m)"
    if "ob_load64 (Ptr (sm_offset m) + 8) (sm_b m) = Inr a" for a
  proof -
    obtain b q' where sr: "ShouldRecord a (prepCtx_TypeID r) (sm_q m) = (b, q')" by fastforce
    show ?thesis
      using that q [OF sr] unfolding exec_PrepareGoContext_def Let_def
      by (auto simp: dec sr
          intro!: rest [where upd = "\<lambda>off m4. m4\<lparr>sm_goContextOffset := off, sm_goContextCaptureBitmask := push_bit (unat (prepCtx_CaptureCount r)) 1 - 1\<rparr>"
            and h = "\<lambda>off m4. Len (sm_b (m4\<lparr>sm_goContextOffset := off, sm_goContextCaptureBitmask := push_bit (unat (prepCtx_CaptureCount r)) 1 - 1\<rparr>))"])
  qed
  moreover have "e = WildAccess" if "ob_load64 (Ptr (sm_offset m) + 8) (sm_b m) = Inl e" for e
    using that by (auto simp: ob_load64_def ob_load_def res_simps split: if_splits)
  ultimately show ?thesis
    by (cases "ob_load64 (Ptr (sm_offset m) + 8) (sm_b m)")
      (auto simp: exec_PrepareGoContext_def dec)
qed

end
