(* ===== verification/Byte_Code_Typing.thy ===== *)
theory Byte_Code_Typing
  imports Op_Outcomes Machine_Props
begin

text \<open>
  Byte code that cannot go wrong on its stack. The interpreter keeps operands and return addresses on one
  stack and checks neither the depth nor what it takes for a return address. Here a program is typed: a
  typing gives, for the program counters that are used, how many words the current subroutine has on the
  stack. \<open>well_typed\<close> is checked instruction by instruction, by evaluation.

  \<open>conforms\<close> is the invariant: the program counter is at a typed instruction, and the stack consists of the words
  of the current subroutine, a return address that is typed as well, the words of its subroutine, and so on.
  It is kept by every operation, and where it holds an operation can only fail in the ways that \<open>op_faults\<close>
  lists: no operation of a typed program takes from an empty stack or decodes behind the program. The interpreter's
  control then follows an abstract machine that has return addresses only, \<open>control\<close>; the number of steps is bounded
  on it.
\<close>

subsection \<open>Typings\<close>

text \<open>The operation at a program counter, and where the next one begins.\<close>

definition instr :: "u8 list \<Rightarrow> u32 \<Rightarrow> (AnyOp \<times> u32) option" where
  "instr prog pc =
     (case PopOpCode \<lparr>dec_pc = pc, dec_opBuf = prog\<rparr> of
        Inl _ \<Rightarrow> None
      | Inr (c, d) \<Rightarrow>
          (case decode_operands c d of
             Inl _ \<Rightarrow> None
           | Inr (None, d') \<Rightarrow> None
           | Inr (Some a, d') \<Rightarrow> Some (a, dec_pc d')))"

text \<open>
  What an operation needs: a word on the stack of the current subroutine, or that there is none, where it may return
  (\<open>DereferencePtr\<close> returns when the pointer cannot be read).
\<close>

fun applicable :: "AnyOp \<Rightarrow> nat \<Rightarrow> bool" where
  "applicable (ACondJump r) n = (0 < n)"
| "applicable ADecrement n = (0 < n)"
| "applicable (AEnqueueHMapHeader r) n = (0 < n)"
| "applicable APop n = (0 < n)"
| "applicable ASetOffset n = (0 < n)"
| "applicable AReturn n = (n = 0)"
| "applicable (ADereferencePtr r) n = (n = 0)"
| "applicable _ n = True"

text \<open>Where control may go, and how many words the subroutine then has.\<close>

fun successors :: "AnyOp \<Rightarrow> u32 \<Rightarrow> nat \<Rightarrow> (u32 \<times> nat) list" where
  "successors AInvalid nxt n = []"
| "successors (ACall r) nxt n = [(call_Pc r, 0), (nxt, n)]"
| "successors (ACondJump r) nxt n = [(condJump_Pc r, n), (nxt, n)]"
| "successors (AJump r) nxt n = [(jump_Pc r, n)]"
| "successors APop nxt n = [(nxt, n - 1)]"
| "successors (APushImm r) nxt n = [(nxt, n + 1)]"
| "successors APushOffset nxt n = [(nxt, n + 1)]"
| "successors (APushSliceLen r) nxt n = [(nxt, n + 1)]"
| "successors AReturn nxt n = []"
| "successors _ nxt n = [(nxt, n)]"

text \<open>The same as a machine of its own, on the program counter and the return addresses.\<close>

fun control :: "AnyOp \<Rightarrow> u32 \<Rightarrow> u32 list \<Rightarrow> u32 list list" where
  "control AInvalid nxt ras = []"
| "control (ACall r) nxt ras = [call_Pc r # nxt # ras]"
| "control (ACondJump r) nxt ras = [condJump_Pc r # ras, nxt # ras]"
| "control (AJump r) nxt ras = [jump_Pc r # ras]"
| "control AReturn nxt ras = (if ras = [] then [] else [ras])"
| "control (ADereferencePtr r) nxt ras = (if ras = [] then [nxt # ras] else [nxt # ras, ras])"
| "control _ nxt ras = [nxt # ras]"

definition typed_at :: "u8 list \<Rightarrow> (u32 \<rightharpoonup> nat) \<Rightarrow> u32 \<Rightarrow> nat \<Rightarrow> bool" where
  "typed_at prog ty pc n \<longleftrightarrow>
     (case instr prog pc of
        None \<Rightarrow> False
      | Some (a, nxt) \<Rightarrow> applicable a n \<and> list_all (\<lambda>(p, k). ty p = Some k) (successors a nxt n))"

definition well_typed :: "u8 list \<Rightarrow> (u32 \<times> nat) list \<Rightarrow> bool" where
  "well_typed prog tys \<longleftrightarrow> length prog < 2 ^ 32 \<and> list_all (\<lambda>(pc, n). typed_at prog (map_of tys) pc n) tys"

text \<open>The stack below the words of the current subroutine: return addresses, each with the words of its subroutine.\<close>

inductive frames :: "(u32 \<rightharpoonup> nat) \<Rightarrow> u32 list \<Rightarrow> u32 list \<Rightarrow> bool" for ty :: "u32 \<rightharpoonup> nat" where
  frames_base: "frames ty [] []"
| frames_call: "ty ra = Some (length ws) \<Longrightarrow> frames ty rest ras \<Longrightarrow> frames ty (ra # ws @ rest) (ra # ras)"

inductive_cases frames_consE: "frames ty (ra # s) ras"
inductive_cases frames_nilE: "frames ty [] ras"

definition conforms :: "(u32 \<times> nat) list \<Rightarrow> OpDecoder \<Rightarrow> u32 list \<Rightarrow> u32 list \<Rightarrow> bool" where
  "conforms tys d s ras \<longleftrightarrow>
     (\<exists>ws rest. map_of tys (dec_pc d) = Some (length ws) \<and> s = ws @ rest \<and> frames (map_of tys) rest ras)"

lemma conformsI:
  "map_of tys (dec_pc d) = Some (length ws) \<Longrightarrow> frames (map_of tys) rest ras \<Longrightarrow> conforms tys d (ws @ rest) ras"
  by (auto simp: conforms_def)

subsection \<open>What the decoder does at a typed program counter\<close>

lemma decode_operands_code: "decode_operands c d = Inr (Some a, d') \<Longrightarrow> c = code_of a"
  by (cases c) (auto simp: res_simps)

lemma decode_operands_opBuf: "decode_operands c d = Inr (x, d') \<Longrightarrow> dec_opBuf d' = dec_opBuf d"
  by (cases c) (auto simp: res_simps Decode_defs)

lemma instrE:
  assumes "instr (dec_opBuf d) (dec_pc d) = Some (a, nxt)"
  obtains d1 d2 where "PopOpCode d = Inr (code_of a, d1)" "decode_operands (code_of a) d1 = Inr (Some a, d2)"
    "dec_pc d2 = nxt" "dec_opBuf d1 = dec_opBuf d" "dec_opBuf d2 = dec_opBuf d" "unat (dec_pc d) < length (dec_opBuf d)"
proof -
  have d: "\<lparr>dec_pc = dec_pc d, dec_opBuf = dec_opBuf d\<rparr> = d" by simp
  obtain c d1 d2 where i: "PopOpCode d = Inr (c, d1)" "decode_operands c d1 = Inr (Some a, d2)" "dec_pc d2 = nxt"
    using assms by (auto simp: instr_def d split: sum.splits option.splits)
  moreover have "dec_opBuf d1 = dec_opBuf d" "unat (dec_pc d) < length (dec_opBuf d)"
    using i(1) by (auto simp: PopOpCode_def dec_u8_def res_simps split: if_splits)
  ultimately show thesis
    using that decode_operands_code [OF i(2)] decode_operands_opBuf [OF i(2)] by simp
qed

text \<open>The operations of an assembled program.\<close>

lemma instr_op:
  assumes "prog = pre @ op_bytes a @ post" "length prog < 2 ^ 32" "unat pc = length pre"
  shows "instr prog pc = Some (a, pc + 1 + of_nat (length (operand_bytes a)))"
proof -
  define d where "d = \<lparr>dec_pc = pc, dec_opBuf = prog\<rparr>"
  have "at_pc d (op_bytes a)" using assms by (auto simp: at_pc_def d_def)
  note p = PopOpCode_bytes [OF this]
  from p(1) decode_operands_bytes [OF p(2)] show ?thesis
    by (simp add: instr_def d_def [symmetric]) (simp add: d_def advance_def)
qed

lemma instr_assembled:
  assumes "i < length as" "unat pc = length (concat (map op_bytes (take i as)))" "length (concat (map op_bytes as)) < 2 ^ 32"
  shows "instr (concat (map op_bytes as)) pc = Some (as ! i, pc + 1 + of_nat (length (operand_bytes (as ! i))))"
proof (rule instr_op [OF _ assms(3,2)])
  show "concat (map op_bytes as) =
      concat (map op_bytes (take i as)) @ op_bytes (as ! i) @ concat (map op_bytes (drop (Suc i) as))"
    by (subst id_take_nth_drop [OF assms(1)]) simp
qed

lemma typed_pc:
  assumes "well_typed prog tys" "map_of tys pc = Some n"
  obtains a nxt where "instr prog pc = Some (a, nxt)" "applicable a n"
    "list_all (\<lambda>(p, k). map_of tys p = Some k) (successors a nxt n)"
  using assms map_of_SomeD [OF assms(2)]
  by (fastforce simp: well_typed_def typed_at_def list_all_iff split: option.splits)

lemma typed_SetPC:
  assumes "well_typed prog tys" "map_of tys pc = Some n" "dec_opBuf d = prog"
  shows "SetPC pc d = (True, d\<lparr>dec_pc := pc\<rparr>)"
proof -
  obtain a nxt where i: "instr prog pc = Some (a, nxt)" by (rule typed_pc [OF assms(1,2)])
  have "instr (dec_opBuf \<lparr>dec_pc = pc, dec_opBuf = prog\<rparr>) (dec_pc \<lparr>dec_pc = pc, dec_opBuf = prog\<rparr>) = Some (a, nxt)"
    using i by simp
  then have "unat pc < length prog" by (rule instrE) simp
  moreover have "length prog < 2 ^ 32" using assms(1) by (simp add: well_typed_def)
  ultimately show ?thesis using assms(3) by (auto simp: SetPC_def not_le word_less_nat_alt unat_of_nat_u32)
qed

subsection \<open>Type safety\<close>

text \<open>
  A machine that runs a typed program, with the return addresses \<open>ras\<close> on its stack; and what an operation makes
  of it, when control goes to one of \<open>cs\<close>.
\<close>

definition running :: "run_env \<Rightarrow> goRuntimeTypeResolver \<Rightarrow> u8 list \<Rightarrow> (u32 \<times> nat) list \<Rightarrow> u32 list \<Rightarrow> machine \<Rightarrow> bool" where
  "running en g prog tys ras m \<longleftrightarrow>
     machine_wf m \<and> resolver_kept en g (sm_g m) \<and> dec_opBuf (sm_decoder m) = prog \<and>
     conforms tys (sm_decoder m) (sm_stack m) ras"

definition stopped :: "run_env \<Rightarrow> goRuntimeTypeResolver \<Rightarrow> u8 list \<Rightarrow> machine \<Rightarrow> bool" where
  "stopped en g prog m \<longleftrightarrow> machine_wf m \<and> resolver_kept en g (sm_g m) \<and> dec_opBuf (sm_decoder m) = prog"

definition proceeds ::
  "run_env \<Rightarrow> goRuntimeTypeResolver \<Rightarrow> u8 list \<Rightarrow> (u32 \<times> nat) list \<Rightarrow> AnyOp \<Rightarrow> u32 list list \<Rightarrow> ctl \<times> machine \<Rightarrow> bool" where
  "proceeds en g prog tys a cs r \<longleftrightarrow>
     (case r of
        (Next, m) \<Rightarrow> (\<exists>ras. running en g prog tys ras m \<and> dec_pc (sm_decoder m) # ras \<in> set cs)
      | (Ret ok, m) \<Rightarrow> stopped en g prog m \<and> (if ok then sm_stack m = [] else may_stop a m))"

lemma proceeds_Next:
  "running en g prog tys ras m \<Longrightarrow> dec_pc (sm_decoder m) # ras \<in> set cs \<Longrightarrow> proceeds en g prog tys a cs (Next, m)"
  by (auto simp: proceeds_def)

lemma proceeds_Ret [simp]:
  "proceeds en g prog tys a cs (Ret ok, m) \<longleftrightarrow> stopped en g prog m \<and> (if ok then sm_stack m = [] else may_stop a m)"
  by (simp add: proceeds_def)

lemma at_point_running:
  "at_point en g d s m \<Longrightarrow> dec_opBuf d = prog \<Longrightarrow> conforms tys d s ras \<Longrightarrow> running en g prog tys ras m"
  by (simp add: at_point_def running_def)

lemma at_point_next:
  "at_point en g d s m \<Longrightarrow> dec_opBuf d = prog \<Longrightarrow> conforms tys d s ras \<Longrightarrow> dec_pc d # ras \<in> set cs \<Longrightarrow>
   proceeds en g prog tys a cs (Next, m)"
  by (rule proceeds_Next [OF at_point_running]) (auto dest: at_pointD)

lemma at_point_stopped: "at_point en g d s m \<Longrightarrow> dec_opBuf d = prog \<Longrightarrow> stopped en g prog m"
  by (simp add: at_point_def stopped_def)

lemma moves_on_proceeds:
  "moves_on en g a d s r \<Longrightarrow> dec_opBuf d = prog \<Longrightarrow> conforms tys d s ras \<Longrightarrow> dec_pc d # ras \<in> set cs \<Longrightarrow>
   proceeds en g prog tys a cs r"
  by (auto simp: moves_on_def split: prod.splits ctl.splits intro: at_point_next at_point_stopped)

lemma jump_to_typed:
  assumes "well_typed prog tys" "map_of tys pc = Some (length ws)" "frames (map_of tys) rest ras"
    and "at_point en g d (ws @ rest) m" "dec_opBuf d = prog" "pc # ras \<in> set cs"
  shows "outE F (proceeds en g prog tys a cs) (jump_to pc m)"
proof -
  have "SetPC pc (sm_decoder m) = (True, (sm_decoder m)\<lparr>dec_pc := pc\<rparr>)"
    using typed_SetPC [OF assms(1,2)] assms(4,5) by (simp add: at_point_def)
  moreover have "proceeds en g prog tys a cs (Next, m\<lparr>sm_decoder := d\<lparr>dec_pc := pc\<rparr>\<rparr>)"
    by (rule at_point_next [OF at_point_move(1) [OF assms(4)] _ conformsI [OF _ assms(3)]]) (use assms(2,5,6) in simp_all)
  ultimately show ?thesis
    using assms(4) by (simp add: jump_to_def m_SetPC_def at_point_def)
qed

lemma exec_return_typed:
  assumes "well_typed prog tys" "at_point en g d s m" "dec_opBuf d = prog" "frames (map_of tys) s ras"
    and "ras \<noteq> [] \<Longrightarrow> ras \<in> set cs"
  shows "outE F (proceeds en g prog tys a cs) (exec_return m)"
proof (cases s)
  case Nil
  with at_point_stopped [OF assms(2,3)] assms(2) show ?thesis by (simp add: exec_return_def ExecuteReturn_def at_point_def)
next
  case (Cons ra s')
  from assms(4) [unfolded Cons] obtain ws rest ras' where
    r: "s' = ws @ rest" "map_of tys ra = Some (length ws)" "frames (map_of tys) rest ras'" "ras = ra # ras'"
    by (rule frames_consE)
  have "SetPC ra (sm_decoder m) = (True, (sm_decoder m)\<lparr>dec_pc := ra\<rparr>)"
    using typed_SetPC [OF assms(1) r(2)] assms(2,3) by (simp add: at_point_def)
  moreover have "proceeds en g prog tys a cs (Next, m\<lparr>sm_decoder := d\<lparr>dec_pc := ra\<rparr>, sm_stack := s'\<rparr>)"
    unfolding r(1)
    by (rule at_point_next [OF at_point_move(2) [OF at_point_move(1) [OF assms(2)]] _ conformsI [OF _ r(3)]])
      (use assms(3,5) r(2,4) in simp_all)
  ultimately show ?thesis
    using assms(2) Cons by (simp add: exec_return_def ExecuteReturn_def m_SetPC_def at_point_def)
qed

text \<open>An operation at a typed program counter, by the kinds of operations: its operands have been decoded up to \<open>d\<close>.\<close>

lemma straight_on_successors:
  "straight_on a \<Longrightarrow> a = AInvalid \<or> successors a nxt n = [(nxt, n)] \<and> control a nxt ras = [nxt # ras]"
  by (cases a) simp_all

lemma straight_on_typed:
  assumes "at_point en g d0 (ws @ rest) m" "decode_operands (code_of a) d0 = Inr (Some a, d)" "dec_opBuf d = prog"
    and "frames (map_of tys) rest ras" "straight_on a"
    and "list_all (\<lambda>(p, k). map_of tys p = Some k) (successors a (dec_pc d) (length ws))"
  shows "outO (op_faults a) (proceeds en g prog tys a (control a (dec_pc d) ras)) (exec_op en pc depth (code_of a) m)"
proof (cases "a = AInvalid")
  case False
  obtain r where r: "exec_op en pc depth (code_of a) m = Some r" "outE (op_faults a) (moves_on en g a d (ws @ rest)) r"
    using straight_on_out [OF assms(1,2,5)] by blast
  note so = straight_on_successors [OF assms(5), of "dec_pc d" "length ws" ras]
  have "conforms tys d (ws @ rest) ras" using assms(4,6) so False by (auto intro: conformsI)
  then show ?thesis
    using r so False by (auto simp: outE_def intro: moves_on_proceeds [OF _ assms(3)] split: sum.splits)
next
  case True
  then have "at_point en g d (ws @ rest) m" using assms(1,2) by (auto simp: at_point_def)
  with True at_point_stopped [OF this assms(3)] show ?thesis by simp
qed

lemma branch_typed:
  assumes "well_typed prog tys"
    and "at_point en g d0 (ws @ rest) m" "decode_operands (code_of a) d0 = Inr (Some a, d)" "dec_opBuf d = prog"
    and "frames (map_of tys) rest ras" "applicable a (length ws)"
    and "list_all (\<lambda>(p, k). map_of tys p = Some k) (successors a (dec_pc d) (length ws))"
    and "a \<in> {AReturn} \<union> range ACall \<union> range ACondJump \<union> range AJump \<union> range ADereferencePtr"
  shows "outO (op_faults a) (proceeds en g prog tys a (control a (dec_pc d) ras)) (exec_op en pc depth (code_of a) m)"
proof -
  note p = at_point_move(1) [OF assms(2), of d]
  have dec: "sm_decoder m = d0" "sm_stack m = ws @ rest" using assms(2) by (simp_all add: at_point_def)
  from assms(8) consider "a = AReturn" | r where "a = ACall r" | r where "a = ACondJump r" | r where "a = AJump r"
    | r where "a = ADereferencePtr r" by blast
  then show ?thesis
  proof cases
    case 1
    then have d: "d0 = d" "ws = []" using assms(3,6) by (auto simp: res_simps DecodeReturn_def)
    show ?thesis
      using 1 exec_return_typed [OF assms(1) _ assms(4,5), of en g m "control a (dec_pc d) ras" "op_faults a" a] assms(2) d
      by (auto split: if_splits)
  next
    case 2
    then have "frames (map_of tys) (dec_pc d # ws @ rest) (dec_pc d # ras)" "map_of tys (call_Pc r) = Some (length [])"
      using assms(5,7) by (auto intro: frames_call)
    moreover have "at_point en g d ([] @ dec_pc d # ws @ rest) (m_append (dec_pc d) (m\<lparr>sm_decoder := d\<rparr>))"
      using at_point_move(3) [OF p] by simp
    ultimately show ?thesis
      using 2 assms(3) jump_to_typed [OF assms(1) _ _ _ assms(4)]
      by (simp add: res_simps exec_Call_def m_decode_def PC_def dec)
  next
    case 3
    then obtain w ws' where ws: "ws = w # ws'" using assms(6) by (cases ws) auto
    have "conforms tys d (ws @ rest) ras" using 3 assms(5,7) by (intro conformsI) simp_all
    then show ?thesis
      using 3 assms(3,7) jump_to_typed [OF assms(1) _ assms(5) p assms(4), of "condJump_Pc r"]
        at_point_next [OF p assms(4), of tys ras]
      by (auto simp: res_simps exec_CondJump_def m_decode_def m_top_def dec ws)
  next
    case 4
    then show ?thesis
      using assms(3,7) jump_to_typed [OF assms(1) _ assms(5) p assms(4), of "jump_Pc r"]
      by (simp add: res_simps exec_Jump_def m_decode_def dec)
  next
    case 5
    then have ws: "ws = []" using assms(6) by simp
    let ?cs = "control a (dec_pc d) ras"
    have ret: "outE F (proceeds en g prog tys a ?cs) (exec_return m')" if "at_point en g d rest m'" for F m'
      by (rule exec_return_typed [OF assms(1) that assms(4,5)]) (simp add: 5)
    have "conforms tys d rest ras" using 5 assms(5,7) conformsI [of tys d "[]" rest ras] by (simp add: ws)
    then have on: "proceeds en g prog tys a ?cs (Next, m')" if "at_point en g d rest m'" for m'
      by (rule at_point_next [OF that assms(4)]) (simp add: 5)
    have q: "at_point en g d rest (m\<lparr>sm_decoder := d\<rparr>)" using p by (simp add: ws)
    show ?thesis
      using 5 assms(3) q ret on unfolding exec_DereferencePtr_def
      by (auto simp: res_simps exec_DereferencePtr_def m_decode_def dec Let_def intro!: out_bind)
  qed
qed

lemma stack_op_typed:
  assumes "at_point en g d0 (ws @ rest) m" "decode_operands (code_of a) d0 = Inr (Some a, d)" "dec_opBuf d = prog"
    and "frames (map_of tys) rest ras" "applicable a (length ws)"
    and "list_all (\<lambda>(p, k). map_of tys p = Some k) (successors a (dec_pc d) (length ws))"
    and "a \<in> {ADecrement, APop, APushOffset, ASetOffset} \<union> range APushImm \<union> range APushSliceLen"
  shows "outO (op_faults a) (proceeds en g prog tys a (control a (dec_pc d) ras)) (exec_op en pc depth (code_of a) m)"
proof -
  have c: "conforms tys d (vs @ rest) ras" if "map_of tys (dec_pc d) = Some (length vs)" for vs
    by (rule conformsI [OF that assms(4)])
  have dec: "sm_decoder m = d0" "sm_stack m = ws @ rest" "resolver_kept en g (sm_g m)" "machine_wf m"
    using assms(1) by (simp_all add: at_point_def)
  have on: "proceeds en g prog tys a' [dec_pc d # ras] (Next, m')"
    if "sm_b m' = sm_b m \<and> sm_q m' = sm_q m \<and> sm_g m' = sm_g m \<and> sm_decoder m' = d \<and> conforms tys d (sm_stack m') ras" for m' a'
    by (rule at_point_next [OF _ assms(3), where s = "sm_stack m'"])
      (use that dec in \<open>simp_all add: at_point_def machine_wf_def\<close>)
  show ?thesis
    using assms(2,5-7) c [of ws] c [of "x # ws" for x] c [of "tl ws"] c [of "x # tl ws" for x]
    by (cases ws)
      (auto simp: res_simps exec_Decrement_def exec_Pop_def exec_PushOffset_def exec_SetOffset_def exec_PushImm_def
        exec_PushSliceLen_def m_decode_def m_top_def m_set_top_def DecodeDecrement_def DecodePop_def DecodePushOffset_def
        DecodeSetOffset_def dec m_append_def
        intro!: out_bind on)
qed

lemma EnqueueHMapHeader_typed:
  assumes "at_point en g d0 (w # s) m" "DecodeEnqueueHMapHeader d0 = Inr (c, d)" "dec_opBuf d = prog"
    and "conforms tys d (0 # s) ras" "dec_pc d # ras \<in> set cs"
  shows "outE {WildAccess} (proceeds en g prog tys a cs) (exec_EnqueueHMapHeader m)"
proof -
  have p: "at_point en g d (0 # s) (m\<lparr>sm_stack := 0 # s, sm_decoder := d\<rparr>)"
    using assms(1) by (simp add: at_point_def machine_wf_def)
  have on: "proceeds en g prog tys a cs (Next, m')" if "at_point en g d (0 # s) m'" for m'
    by (rule at_point_next [OF that assms(3-5)])
  have dec: "m_decode DecodeEnqueueHMapHeader (m\<lparr>sm_stack := 0 # s\<rparr>) = Inr (c, m\<lparr>sm_stack := 0 # s, sm_decoder := d\<rparr>)"
    "m_set_top 0 m = Inr (m\<lparr>sm_stack := 0 # s\<rparr>)"
    using assms(1,2) by (simp_all add: m_decode_def m_set_top_def at_point_def)
  show ?thesis
    using p on unfolding exec_EnqueueHMapHeader_def Let_def
    by (auto simp: dec intro!: out_bind)
qed

lemma op_typed:
  assumes "well_typed prog tys"
    and "at_point en g d0 (ws @ rest) m" "decode_operands (code_of a) d0 = Inr (Some a, d)" "dec_opBuf d = prog"
    and "frames (map_of tys) rest ras" "applicable a (length ws)"
    and "list_all (\<lambda>(p, k). map_of tys p = Some k) (successors a (dec_pc d) (length ws))"
  shows "outO (op_faults a) (proceeds en g prog tys a (control a (dec_pc d) ras)) (exec_op en pc depth (code_of a) m)"
proof -
  consider "straight_on a" | r where "a = AEnqueueHMapHeader r" | r where "a = APrepareGoContext r"
    | "a \<in> {AReturn} \<union> range ACall \<union> range ACondJump \<union> range AJump \<union> range ADereferencePtr"
    | "a \<in> {ADecrement, APop, APushOffset, ASetOffset} \<union> range APushImm \<union> range APushSliceLen"
    by (cases a) auto
  then show ?thesis
  proof cases
    case 1
    show ?thesis by (rule straight_on_typed [OF assms(2-5) 1 assms(7)])
  next
    case 2
    then obtain w ws' where ws: "ws = w # ws'" using assms(6) by (cases ws) auto
    have "conforms tys d ((0 # ws') @ rest) ras" using 2 assms(7) by (intro conformsI [OF _ assms(5)]) (simp add: ws)
    then show ?thesis
      using 2 assms(2,3) EnqueueHMapHeader_typed [of en g d0 w "ws' @ rest" m r d prog tys ras] assms(4)
      by (simp add: res_simps ws)
  next
    case 3
    then have "conforms tys d (ws @ rest) ras" using assms(5,7) by (auto intro: conformsI)
    moreover have "DecodePrepareGoContext d0 = Inr (r, d)" using 3 assms(3) by (auto simp: res_simps)
    ultimately show ?thesis
      using 3 outO_mono [OF exec_PrepareGoContext_out [OF assms(2), of r d] moves_on_proceeds [OF _ assms(4)]] by simp
  next
    case 4
    then show ?thesis by (rule branch_typed [OF assms])
  next
    case 5
    then show ?thesis by (rule stack_op_typed [OF assms(2-7)])
  qed
qed

text \<open>Every operation of a typed program is applicable, keeps the invariant, and fails only as \<open>op_faults\<close> says.\<close>

lemma step_typed:
  assumes "well_typed prog tys" "running en g prog tys ras m"
  obtains n a nxt where "map_of tys (dec_pc (sm_decoder m)) = Some n" "instr prog (dec_pc (sm_decoder m)) = Some (a, nxt)"
    "outO (op_faults a) (proceeds en g prog tys a (control a nxt ras)) (step en pc depth m)"
    "step en pc depth m = None \<longrightarrow> a \<in> range APrepareGoContext"
proof -
  have m: "machine_wf m" "dec_opBuf (sm_decoder m) = prog" "resolver_kept en g (sm_g m)"
    using assms(2) by (simp_all add: running_def)
  obtain ws rest where s: "map_of tys (dec_pc (sm_decoder m)) = Some (length ws)" "sm_stack m = ws @ rest"
    "frames (map_of tys) rest ras"
    using assms(2) unfolding running_def conforms_def by blast
  obtain a nxt where i: "instr prog (dec_pc (sm_decoder m)) = Some (a, nxt)" "applicable a (length ws)"
    "list_all (\<lambda>(p, k). map_of tys p = Some k) (successors a nxt (length ws))" by (rule typed_pc [OF assms(1) s(1)])
  obtain d1 d2 where d: "PopOpCode (sm_decoder m) = Inr (code_of a, d1)" "decode_operands (code_of a) d1 = Inr (Some a, d2)"
    "dec_pc d2 = nxt" "dec_opBuf d2 = prog"
    using m(2) i(1) by (auto elim: instrE [of "sm_decoder m" a nxt])
  define m1 where "m1 = m\<lparr>sm_decoder := d1\<rparr>"
  have st: "step en pc depth m = exec_op en pc depth (code_of a) m1" by (simp add: step_def m_decode_def d(1) m1_def)
  have m1: "at_point en g d1 (ws @ rest) m1" using m s(2) by (simp add: m1_def at_point_def machine_wf_def)
  have "step en pc depth m = None \<longrightarrow> a \<in> range APrepareGoContext" unfolding st by (cases a) simp_all
  moreover have "outO (op_faults a) (proceeds en g prog tys a (control a nxt ras)) (step en pc depth m)"
    unfolding st d(3) [symmetric] by (rule op_typed [OF assms(1) m1 d(2,4) s(3) i(2)]) (simp add: d(3) i(3))
  ultimately show thesis using that [OF s(1) i(1)] by simp
qed

subsection \<open>The number of steps\<close>

text \<open>
  A bound on the steps from a program counter to the return, subroutines included; and that the steps
  respect it. It exists for code without loops.
\<close>

definition cost_of :: "(u32 \<times> nat) list \<Rightarrow> u32 \<Rightarrow> nat" where
  "cost_of cs pc = (case map_of cs pc of None \<Rightarrow> 0 | Some k \<Rightarrow> k)"

definition bounded_code :: "u8 list \<Rightarrow> (u32 \<times> nat) list \<Rightarrow> (u32 \<times> nat) list \<Rightarrow> bool" where
  "bounded_code prog tys cs \<longleftrightarrow>
     list_all (\<lambda>(pc, _).
       case instr prog pc of
         None \<Rightarrow> False
       | Some (a, nxt) \<Rightarrow>
           0 < cost_of cs pc \<and> list_all (\<lambda>c. sum_list (map (cost_of cs) c) < cost_of cs pc) (control a nxt [])) tys"

lemma control_split: "c \<in> set (control a nxt ras) \<Longrightarrow> c = ras \<or> (\<exists>c0 \<in> set (control a nxt []). c = c0 @ ras)"
  by (cases a) (auto split: if_splits)

lemma control_cost:
  assumes "bounded_code prog tys cs" "map_of tys pc = Some n" "instr prog pc = Some (a, nxt)" "c \<in> set (control a nxt ras)"
  shows "sum_list (map (cost_of cs) c) < cost_of cs pc + sum_list (map (cost_of cs) ras)"
proof -
  have b: "0 < cost_of cs pc" "\<forall>c \<in> set (control a nxt []). sum_list (map (cost_of cs) c) < cost_of cs pc"
    using assms(1,3) map_of_SomeD [OF assms(2)] by (auto simp: bounded_code_def list_all_iff)
  from control_split [OF assms(4)] b show ?thesis by auto
qed

subsection \<open>Runs\<close>

definition typed_ops :: "u8 list \<Rightarrow> (u32 \<times> nat) list \<Rightarrow> AnyOp list" where
  "typed_ops prog tys = List.map_filter (\<lambda>(pc, n). map_option fst (instr prog pc)) tys"

lemma typed_opsI:
  "map_of tys pc = Some n \<Longrightarrow> instr prog pc = Some (a, nxt) \<Longrightarrow> a \<in> set (typed_ops prog tys)"
  by (force simp: typed_ops_def List.map_filter_def image_iff dest!: map_of_SomeD)

definition run_outcome ::
  "run_env \<Rightarrow> goRuntimeTypeResolver \<Rightarrow> u8 list \<Rightarrow> (u32 \<times> nat) list \<Rightarrow> bool \<Rightarrow> ((bool \<times> machine) res) option \<Rightarrow> bool" where
  "run_outcome en g prog tys cutoff r \<longleftrightarrow>
     (case r of
        None \<Rightarrow> \<exists>c. APrepareGoContext c \<in> set (typed_ops prog tys)
      | Some (Inl e) \<Rightarrow> \<exists>a. a \<in> set (typed_ops prog tys) \<and> e \<in> op_faults a
      | Some (Inr (ok, m)) \<Rightarrow> stopped en g prog m \<and>
          (if ok then sm_stack m = []
           else (\<exists>a. a \<in> set (typed_ops prog tys) \<and> may_stop a m) \<or> cutoff \<and> (\<exists>ras. running en g prog tys ras m)))"

lemma run_steps_typed:
  assumes "well_typed prog tys" "running en g prog tys ras m"
  shows "run_outcome en g prog tys
    (\<not> (bounded_code prog tys cs \<and> cost_of cs (dec_pc (sm_decoder m)) + sum_list (map (cost_of cs) ras) \<le> n))
    (run_steps n en pc depth m)"
  using assms(2)
proof (induction n arbitrary: m ras)
  case 0
  obtain k where k: "map_of tys (dec_pc (sm_decoder m)) = Some k"
    using 0 by (auto simp: running_def conforms_def)
  obtain a nxt where "instr prog (dec_pc (sm_decoder m)) = Some (a, nxt)" by (rule typed_pc [OF assms(1) k])
  then have "bounded_code prog tys cs \<Longrightarrow> 0 < cost_of cs (dec_pc (sm_decoder m))"
    using map_of_SomeD [OF k] by (auto simp: bounded_code_def list_all_iff)
  with 0 show ?case by (auto simp: run_outcome_def running_def stopped_def)
next
  case (Suc n)
  obtain k a nxt where s: "map_of tys (dec_pc (sm_decoder m)) = Some k" "instr prog (dec_pc (sm_decoder m)) = Some (a, nxt)"
    "outO (op_faults a) (proceeds en g prog tys a (control a nxt ras)) (step en pc depth m)"
    "step en pc depth m = None \<longrightarrow> a \<in> range APrepareGoContext"
    using step_typed [OF assms(1) Suc.prems, where pc = pc and depth = depth] by blast
  note a = typed_opsI [OF s(1,2)]
  show ?case
  proof (cases "step en pc depth m")
    case None
    with s(4) a show ?thesis by (auto simp: run_outcome_def)
  next
    case (Some r)
    show ?thesis
    proof (cases r)
      case (Inl e)
      with Some s(3) a show ?thesis by (auto simp: run_outcome_def)
    next
      case (Inr cm)
      obtain c m1 where cm: "cm = (c, m1)" by (cases cm)
      with Some Inr s(3) have p: "proceeds en g prog tys a (control a nxt ras) (c, m1)" by simp
      show ?thesis
      proof (cases c)
        case Next
        with p obtain ras1 where r1: "running en g prog tys ras1 m1" "dec_pc (sm_decoder m1) # ras1 \<in> set (control a nxt ras)"
          by (auto simp: proceeds_def)
        let ?k = "\<lambda>m ras. cost_of cs (dec_pc (sm_decoder m)) + sum_list (map (cost_of cs) ras)"
        have less: "?k m1 ras1 < ?k m ras" if "bounded_code prog tys cs"
          using control_cost [OF that s(1,2) r1(2)] by simp
        have eq: "run_steps (Suc n) en pc depth m = run_steps n en pc depth m1" using Some Inr cm Next by simp
        have "\<not> (bounded_code prog tys cs \<and> ?k m1 ras1 \<le> n) \<longrightarrow> \<not> (bounded_code prog tys cs \<and> ?k m ras \<le> Suc n)"
          using less by auto
        with Suc.IH [OF r1(1)] show ?thesis
          unfolding eq run_outcome_def by (auto split: option.splits sum.splits)
      next
        case (Ret ok)
        with Some Inr cm p a show ?thesis by (auto simp: run_outcome_def)
      qed
    qed
  qed
qed

lemma start_running:
  assumes "well_typed prog tys" "machine_wf m" "dec_opBuf (sm_decoder m) = prog" "sm_stack m = []" "map_of tys pc = Some 0"
  obtains d where "SetPC pc (sm_decoder m) = (True, d)" "dec_pc d = pc"
    "running en (sm_g m) prog tys [] (m\<lparr>sm_decoder := d, sm_cfa := cfa, sm_offset := offset\<rparr>)"
proof (rule that [of "(sm_decoder m)\<lparr>dec_pc := pc\<rparr>"])
  show "running en (sm_g m) prog tys [] (m\<lparr>sm_decoder := (sm_decoder m)\<lparr>dec_pc := pc\<rparr>, sm_cfa := cfa, sm_offset := offset\<rparr>)"
    using conformsI [of tys "(sm_decoder m)\<lparr>dec_pc := pc\<rparr>" "[]" "[]" "[]"] assms(2-5)
    by (simp add: running_def machine_wf_def frames_base)
qed (simp_all add: typed_SetPC [OF assms(1,5,3)])

lemma Run_typed:
  assumes "well_typed prog tys" "machine_wf m" "dec_opBuf (sm_decoder m) = prog" "sm_stack m = []" "map_of tys pc = Some 0"
  shows "run_outcome en (sm_g m) prog tys (\<not> (bounded_code prog tys cs \<and> cost_of cs pc \<le> max_steps))
    (Run en pc cfa depth offset m)"
proof -
  obtain d where d: "SetPC pc (sm_decoder m) = (True, d)" "dec_pc d = pc"
    "running en (sm_g m) prog tys [] (m\<lparr>sm_decoder := d, sm_cfa := cfa, sm_offset := offset\<rparr>)"
    by (rule start_running [OF assms])
  show ?thesis using run_steps_typed [OF assms(1) d(3), of cs max_steps pc depth] by (simp add: Run_def m_SetPC_def d(1,2))
qed

subsection \<open>The states of a run\<close>

text \<open>
  The states that a run passes, with the return addresses that its calls have pushed and that no return has taken
  yet, the latest first. They are kept apart from the stack: a call adds the address behind it, and an operation that may
  return takes one away when the stack has become shorter.
\<close>

fun takes_word :: "AnyOp \<Rightarrow> bool" where
  "takes_word (ACondJump r) = True"
| "takes_word ADecrement = True"
| "takes_word (AEnqueueHMapHeader r) = True"
| "takes_word APop = True"
| "takes_word ASetOffset = True"
| "takes_word _ = False"

fun may_return :: "AnyOp \<Rightarrow> bool" where
  "may_return AReturn = True"
| "may_return (ADereferencePtr r) = True"
| "may_return _ = False"

definition pending :: "u8 list \<Rightarrow> machine \<Rightarrow> machine \<Rightarrow> u32 list \<Rightarrow> u32 list" where
  "pending prog m m' gs =
     (case instr prog (dec_pc (sm_decoder m)) of
        Some (ACall r, nxt) \<Rightarrow> nxt # gs
      | Some (a, nxt) \<Rightarrow> if may_return a \<and> length (sm_stack m') < length (sm_stack m) then tl gs else gs
      | None \<Rightarrow> gs)"

inductive traced :: "run_env \<Rightarrow> u32 \<Rightarrow> u32 \<Rightarrow> u8 list \<Rightarrow> machine \<Rightarrow> machine \<Rightarrow> u32 list \<Rightarrow> bool"
  for en pc depth prog m0 where
  traced_start: "traced en pc depth prog m0 m0 []"
| traced_next: "traced en pc depth prog m0 m gs \<Longrightarrow> step en pc depth m = Some (Inr (Next, m')) \<Longrightarrow>
    traced en pc depth prog m0 m' (pending prog m m' gs)"

definition run_start :: "u32 \<Rightarrow> u64 \<Rightarrow> u32 \<Rightarrow> machine \<Rightarrow> machine" where
  "run_start pc cfa offset m = m\<lparr>sm_decoder := (sm_decoder m)\<lparr>dec_pc := pc\<rparr>, sm_cfa := cfa, sm_offset := offset\<rparr>"

lemma run_steps_fault:
  "run_steps n en pc depth m = Some (Inl e) \<Longrightarrow> traced en pc depth prog m0 m gs \<Longrightarrow>
   \<exists>m' gs'. traced en pc depth prog m0 m' gs' \<and> step en pc depth m' = Some (Inl e)"
proof (induction n arbitrary: m gs)
  case (Suc n)
  show ?case
  proof (cases "step en pc depth m")
    case None
    with Suc.prems(1) show ?thesis by simp
  next
    case (Some x)
    show ?thesis
    proof (cases x)
      case (Inl e')
      with Some Suc.prems show ?thesis by auto
    next
      case (Inr cm)
      then obtain c m1 where cm: "x = Inr (c, m1)" by (cases cm) simp
      with Some Suc.prems(1) have "c = Next" "run_steps n en pc depth m1 = Some (Inl e)"
        by (auto split: ctl.splits)
      with Suc.IH traced_next [OF Suc.prems(2)] Some cm show ?thesis by blast
    qed
  qed
qed simp

text \<open>
  At such a state the operation decodes; the words of the current subroutine are on the stack, and behind them those
  return addresses; an operation that takes a word finds one of the subroutine, one that may return finds the latest of those
  return addresses on top, which is a typed program counter, or, when all calls have returned, an empty stack; and if it
  fails it is with a fault of its own.
\<close>

definition safe_at :: "run_env \<Rightarrow> u32 \<Rightarrow> u32 \<Rightarrow> u8 list \<Rightarrow> (u32 \<times> nat) list \<Rightarrow> machine \<Rightarrow> u32 list \<Rightarrow> bool" where
  "safe_at en pc depth prog tys m gs \<longleftrightarrow>
     (\<exists>a nxt ws rest. instr prog (dec_pc (sm_decoder m)) = Some (a, nxt) \<and> a \<in> set (typed_ops prog tys) \<and>
        sm_stack m = ws @ rest \<and> frames (map_of tys) rest gs \<and>
        (takes_word a \<longrightarrow> ws \<noteq> []) \<and>
        (may_return a \<longrightarrow>
          (case gs of [] \<Rightarrow> sm_stack m = [] | ra # _ \<Rightarrow> \<exists>s. sm_stack m = ra # s \<and> map_of tys ra \<noteq> None)) \<and>
        (\<forall>e. step en pc depth m = Some (Inl e) \<longrightarrow> e \<in> op_faults a))"

lemma applicable_words: "applicable a n \<Longrightarrow> takes_word a \<Longrightarrow> 0 < n" "applicable a n \<Longrightarrow> may_return a \<Longrightarrow> n = 0"
  by (cases a; simp)+

lemma frames_latest:
  "frames ty rest gs \<Longrightarrow> case gs of [] \<Rightarrow> rest = [] | ra # _ \<Rightarrow> \<exists>s. rest = ra # s \<and> ty ra \<noteq> None"
  by (cases rule: frames.cases) auto

lemma running_safe:
  assumes "well_typed prog tys" "running en g prog tys gs m"
  shows "safe_at en pc depth prog tys m gs"
proof -
  obtain ws rest where s: "map_of tys (dec_pc (sm_decoder m)) = Some (length ws)" "sm_stack m = ws @ rest"
    "frames (map_of tys) rest gs"
    using assms(2) unfolding running_def conforms_def by blast
  obtain a nxt where i: "instr prog (dec_pc (sm_decoder m)) = Some (a, nxt)" "applicable a (length ws)"
    by (rule typed_pc [OF assms(1) s(1)])
  obtain n a' nxt' where t: "instr prog (dec_pc (sm_decoder m)) = Some (a', nxt')"
    "outO (op_faults a') (proceeds en g prog tys a' (control a' nxt' gs)) (step en pc depth m)"
    by (rule step_typed [OF assms, of pc depth])
  have "e \<in> op_faults a" if "step en pc depth m = Some (Inl e)" for e
    using t i(1) that by simp
  moreover have "may_return a \<Longrightarrow> ws = []" "takes_word a \<Longrightarrow> ws \<noteq> []" using applicable_words [OF i(2)] by auto
  ultimately show ?thesis
    using i(1) typed_opsI [OF s(1) i(1)] s(2,3) frames_latest [OF s(3)] unfolding safe_at_def
    by (intro exI [of _ a] exI [of _ nxt] exI [of _ ws] exI [of _ rest]) auto
qed

text \<open>The height of the stack is that of the program counter and the return addresses, so that it tells a return.\<close>

definition height :: "(u32 \<times> nat) list \<Rightarrow> u32 list \<Rightarrow> nat" where
  "height tys ras = sum_list (map (\<lambda>ra. Suc (the (map_of tys ra))) ras)"

lemma frames_height: "frames (map_of tys) s ras \<Longrightarrow> length s = height tys ras"
  by (induction rule: frames.induct) (simp_all add: height_def)

lemma running_height:
  assumes "running en g prog tys ras m"
  shows "Suc (length (sm_stack m)) = height tys (dec_pc (sm_decoder m) # ras)"
proof -
  obtain ws rest where "map_of tys (dec_pc (sm_decoder m)) = Some (length ws)" "sm_stack m = ws @ rest"
    "frames (map_of tys) rest ras"
    using assms unfolding running_def conforms_def by blast
  with frames_height show ?thesis by (fastforce simp: height_def)
qed

lemma running_pending:
  assumes "well_typed prog tys" "running en g prog tys gs m" "step en pc depth m = Some (Inr (Next, m'))"
  shows "running en g prog tys (pending prog m m' gs) m'"
proof -
  obtain ws rest where s: "map_of tys (dec_pc (sm_decoder m)) = Some (length ws)" "sm_stack m = ws @ rest"
    "frames (map_of tys) rest gs"
    using assms(2) unfolding running_def conforms_def by blast
  obtain a nxt where i: "instr prog (dec_pc (sm_decoder m)) = Some (a, nxt)" "applicable a (length ws)"
    "list_all (\<lambda>(p, k). map_of tys p = Some k) (successors a nxt (length ws))" by (rule typed_pc [OF assms(1) s(1)])
  obtain n a' nxt' where t: "instr prog (dec_pc (sm_decoder m)) = Some (a', nxt')"
    "outO (op_faults a') (proceeds en g prog tys a' (control a' nxt' gs)) (step en pc depth m)"
    by (rule step_typed [OF assms(1,2), of pc depth])
  obtain ras where ras: "running en g prog tys ras m'" "dec_pc (sm_decoder m') # ras \<in> set (control a nxt gs)"
    using t i(1) assms(3) by (auto simp: proceeds_def)
  have h: "Suc (length (sm_stack m')) = height tys (dec_pc (sm_decoder m') # ras)"
    "length (sm_stack m) = length ws + height tys gs"
    using running_height [OF ras(1)] s(2) frames_height [OF s(3)] by simp_all
  have "ras = pending prog m m' gs"
  proof (cases "may_return a")
    case False
    with ras(2) show ?thesis by (cases a) (auto simp: pending_def i(1))
  next
    case True
    with i(2) have ws: "ws = []" using applicable_words(2) by blast
    from True consider (ret) "dec_pc (sm_decoder m') # ras = gs"
      | (on) "dec_pc (sm_decoder m') = nxt" "ras = gs" "map_of tys nxt = Some 0"
      using ras(2) i(3) ws by (cases a) (auto split: if_splits)
    then show ?thesis
    proof cases
      case ret
      then have "length (sm_stack m') < length (sm_stack m)" using h ws by simp
      with True ret show ?thesis by (cases a) (auto simp: pending_def i(1))
    next
      case on
      then have "length (sm_stack m') = length (sm_stack m)" using h ws by (simp add: height_def)
      with True on show ?thesis by (cases a) (auto simp: pending_def i(1))
    qed
  qed
  with ras(1) show ?thesis by simp
qed

lemma traced_running:
  "traced en pc depth prog m0 m gs \<Longrightarrow> well_typed prog tys \<Longrightarrow> running en g prog tys [] m0 \<Longrightarrow> running en g prog tys gs m"
  by (induction rule: traced.induct) (auto intro: running_pending)

lemma Run_start:
  assumes "well_typed prog tys" "machine_wf m" "dec_opBuf (sm_decoder m) = prog" "sm_stack m = []" "map_of tys pc = Some 0"
  shows "Run en pc cfa depth offset m = run_steps max_steps en pc depth (run_start pc cfa offset m)"
    and "running en (sm_g m) prog tys [] (run_start pc cfa offset m)"
proof -
  obtain d where d: "SetPC pc (sm_decoder m) = (True, d)" "dec_pc d = pc"
    "running en (sm_g m) prog tys [] (m\<lparr>sm_decoder := d, sm_cfa := cfa, sm_offset := offset\<rparr>)"
    by (rule start_running [OF assms])
  moreover have "d = (sm_decoder m)\<lparr>dec_pc := pc\<rparr>"
    using d(1) typed_SetPC [OF assms(1,5,3)] by simp
  ultimately show "Run en pc cfa depth offset m = run_steps max_steps en pc depth (run_start pc cfa offset m)"
    "running en (sm_g m) prog tys [] (run_start pc cfa offset m)"
    by (simp_all add: Run_def m_SetPC_def run_start_def)
qed

lemma traced_safe:
  assumes "well_typed prog tys" "machine_wf m" "dec_opBuf (sm_decoder m) = prog" "sm_stack m = []" "map_of tys pc = Some 0"
    and "traced en pc depth prog (run_start pc cfa offset m) m' gs"
  shows "safe_at en pc depth prog tys m' gs"
  by (rule running_safe [OF assms(1) traced_running [OF assms(6,1) Run_start(2) [OF assms(1-5)]]])

lemma Run_fault:
  assumes "well_typed prog tys" "machine_wf m" "dec_opBuf (sm_decoder m) = prog" "sm_stack m = []" "map_of tys pc = Some 0"
    and "Run en pc cfa depth offset m = Some (Inl e)"
  shows "\<exists>m' gs. traced en pc depth prog (run_start pc cfa offset m) m' gs \<and> step en pc depth m' = Some (Inl e) \<and>
    safe_at en pc depth prog tys m' gs"
proof -
  have "run_steps max_steps en pc depth (run_start pc cfa offset m) = Some (Inl e)"
    using assms(6) Run_start(1) [OF assms(1-5)] by simp
  from run_steps_fault [OF this traced_start] traced_safe [OF assms(1-5)] show ?thesis by blast
qed

text \<open>
  C8. Typed byte code is safe. Let a program be well typed for its operand stack and started on an empty stack at a typed
  entry. Whatever the memory, the buffer and the queue are, at every state that the run passes (\<open>safe_at\<close>): the
  operation decodes; an operation that takes a word from the stack finds a word of its own subroutine there; an operation that returns
  finds the return address that the latest call without a return has pushed, or an empty stack when there is none, which
  ends the run; and if it panics it is with one of its own faults, which for the operations that take a word or
  return are never those of an empty stack. A panic of \<open>Run\<close> is that of such a state; the only loop that may not end is that over Go contexts; when \<open>Run\<close>
  returns true the stack is empty again; it returns false only after an operation that may stop the run, which
  for most of them means that the buffer is full, or when the interpreter's bound on the steps cuts it off, which does not
  happen to code whose own bound is below it.
\<close>

theorem Run_type_safe:
  assumes "well_typed prog tys" "machine_wf m" "dec_opBuf (sm_decoder m) = prog" "sm_stack m = []" "map_of tys pc = Some 0"
  shows "Run en pc cfa depth offset m = run_steps max_steps en pc depth (run_start pc cfa offset m) \<and>
    (\<forall>m' gs. traced en pc depth prog (run_start pc cfa offset m) m' gs \<longrightarrow> safe_at en pc depth prog tys m' gs) \<and>
    (case Run en pc cfa depth offset m of
      None \<Rightarrow> \<exists>c. APrepareGoContext c \<in> set (typed_ops prog tys)
    | Some (Inl e) \<Rightarrow> \<exists>m' gs. traced en pc depth prog (run_start pc cfa offset m) m' gs \<and>
        step en pc depth m' = Some (Inl e) \<and> safe_at en pc depth prog tys m' gs
    | Some (Inr (ok, m')) \<Rightarrow>
        if ok then sm_stack m' = []
        else (\<exists>a. a \<in> set (typed_ops prog tys) \<and> may_stop a m') \<or>
          \<not> (bounded_code prog tys cs \<and> cost_of cs pc \<le> max_steps) \<and> (\<exists>ras. conforms tys (sm_decoder m') (sm_stack m') ras))"
proof (intro conjI)
  show "Run en pc cfa depth offset m = run_steps max_steps en pc depth (run_start pc cfa offset m)"
    by (rule Run_start(1) [OF assms])
  show "\<forall>m' gs. traced en pc depth prog (run_start pc cfa offset m) m' gs \<longrightarrow> safe_at en pc depth prog tys m' gs"
    using traced_safe [OF assms] by blast
  show "case Run en pc cfa depth offset m of
      None \<Rightarrow> \<exists>c. APrepareGoContext c \<in> set (typed_ops prog tys)
    | Some (Inl e) \<Rightarrow> \<exists>m' gs. traced en pc depth prog (run_start pc cfa offset m) m' gs \<and>
        step en pc depth m' = Some (Inl e) \<and> safe_at en pc depth prog tys m' gs
    | Some (Inr (ok, m')) \<Rightarrow>
        if ok then sm_stack m' = []
        else (\<exists>a. a \<in> set (typed_ops prog tys) \<and> may_stop a m') \<or>
          \<not> (bounded_code prog tys cs \<and> cost_of cs pc \<le> max_steps) \<and> (\<exists>ras. conforms tys (sm_decoder m') (sm_stack m') ras)"
    using Run_typed [OF assms, of en cs cfa depth offset] Run_fault [OF assms] unfolding run_outcome_def
    by (auto simp: running_def split: option.splits sum.splits)
qed

text \<open>The program of an array of pointers: a loop over its elements, with a subroutine for one.\<close>

definition loop_ops :: "AnyOp list" where
  "loop_ops =
       [APushSliceLen \<lparr>pushLen_ElemByteLen = 8\<rparr>, ACall \<lparr>call_Pc = 23\<rparr>, AAdvanceOffset \<lparr>adv_Increment = 8\<rparr>,
        ADecrement, ACondJump \<lparr>condJump_Pc = 5\<rparr>, APop, AReturn,
        AEnqueuePointer \<lparr>enqPtr_ElemType = 7\<rparr>, AReturn]"

definition loop_program :: "u8 list" where
  "loop_program = concat (map op_bytes loop_ops)"

definition loop_typing :: "(u32 \<times> nat) list" where
  "loop_typing = [(0, 0), (5, 1), (10, 1), (15, 1), (16, 1), (21, 1), (22, 0), (23, 0), (28, 0)]"

lemma loop_instr:
  "instr loop_program 0 = Some (APushSliceLen \<lparr>pushLen_ElemByteLen = 8\<rparr>, 5)"
  "instr loop_program 5 = Some (ACall \<lparr>call_Pc = 23\<rparr>, 10)"
  "instr loop_program 10 = Some (AAdvanceOffset \<lparr>adv_Increment = 8\<rparr>, 15)"
  "instr loop_program 15 = Some (ADecrement, 16)"
  "instr loop_program 16 = Some (ACondJump \<lparr>condJump_Pc = 5\<rparr>, 21)"
  "instr loop_program 21 = Some (APop, 22)"
  "instr loop_program 22 = Some (AReturn, 23)"
  "instr loop_program 23 = Some (AEnqueuePointer \<lparr>enqPtr_ElemType = 7\<rparr>, 28)"
  "instr loop_program 28 = Some (AReturn, 29)"
  using instr_assembled [of 0 loop_ops 0] instr_assembled [of 1 loop_ops 5] instr_assembled [of 2 loop_ops 10]
    instr_assembled [of 3 loop_ops 15] instr_assembled [of 4 loop_ops 16] instr_assembled [of 5 loop_ops 21]
    instr_assembled [of 6 loop_ops 22] instr_assembled [of 7 loop_ops 23] instr_assembled [of 8 loop_ops 28]
  by (simp_all add: loop_program_def loop_ops_def op_bytes_def)

lemma loop_typed: "well_typed loop_program loop_typing"
  by (simp add: well_typed_def typed_at_def loop_typing_def loop_instr)
    (simp add: loop_program_def loop_ops_def op_bytes_def)

lemma loop_typed_ops: "typed_ops loop_program loop_typing = loop_ops"
  by (simp add: typed_ops_def loop_typing_def loop_instr loop_ops_def)

text \<open>The run neither fails to end nor panics over its stack, and its first state is safe.\<close>

theorem Run_type_safe_witness:
  "Run (example_env example_stack_mem) 0 0 0 16 (example_machine loop_program 64) \<noteq> None \<and>
   Run (example_env example_stack_mem) 0 0 0 16 (example_machine loop_program 64) \<noteq> Some (Inl IndexOutOfRange) \<and>
   Run (example_env example_stack_mem) 0 0 0 16 (example_machine loop_program 64) \<noteq> Some (Inl SliceOutOfRange) \<and>
   safe_at (example_env example_stack_mem) 0 0 loop_program loop_typing (run_start 0 0 16 (example_machine loop_program 64)) []"
proof -
  define m where "m = example_machine loop_program 64"
  define en where "en = example_env example_stack_mem"
  have "machine_wf m" "dec_opBuf (sm_decoder m) = loop_program" "sm_stack m = []"
    by (simp_all add: m_def example_machine_def newStackMachine_def machine_wf_def ob_wf_def ob_cap_def queue_wf_make MakeOpDecoder_def
        zero_SnapshotProgram_def)
  moreover have "map_of loop_typing 0 = Some 0" by (simp add: loop_typing_def)
  ultimately have safe: "\<And>m' gs. traced en 0 0 loop_program (run_start 0 0 16 m) m' gs \<Longrightarrow> safe_at en 0 0 loop_program loop_typing m' gs"
    and run: "case Run en 0 0 0 16 m of
        None \<Rightarrow> \<exists>c. APrepareGoContext c \<in> set loop_ops
      | Some (Inl e) \<Rightarrow> \<exists>m' gs. traced en 0 0 loop_program (run_start 0 0 16 m) m' gs \<and> step en 0 0 m' = Some (Inl e) \<and>
          safe_at en 0 0 loop_program loop_typing m' gs
      | Some (Inr x) \<Rightarrow> True"
    using Run_type_safe [OF loop_typed, where cs = "[]" and m = m and pc = 0 and en = en and cfa = 0 and depth = 0 and offset = 16]
    by (auto simp: loop_typed_ops split: option.splits sum.splits)
  have "e \<notin> {IndexOutOfRange, SliceOutOfRange}" if "safe_at en 0 0 loop_program loop_typing m' gs" "step en 0 0 m' = Some (Inl e)" for m' gs e
    using that by (auto simp: safe_at_def loop_typed_ops loop_ops_def)
  with run have "Run en 0 0 0 16 m \<noteq> None" "Run en 0 0 0 16 m \<noteq> Some (Inl IndexOutOfRange)"
    "Run en 0 0 0 16 m \<noteq> Some (Inl SliceOutOfRange)"
    by (fastforce simp: loop_ops_def split: option.splits sum.splits)+
  moreover have "safe_at en 0 0 loop_program loop_typing (run_start 0 0 16 m) []"
    by (rule safe) (rule traced_start)
  ultimately show ?thesis unfolding m_def en_def by blast
qed

subsection \<open>What a failed run leaves behind\<close>

text \<open>A loop that the bound of the interpreter cuts off, with a word of its own on the stack; and a return.\<close>

definition spin_ops :: "AnyOp list" where
  "spin_ops = [APushImm \<lparr>pushImm_Value = 11\<rparr>, AJump \<lparr>jump_Pc = 5\<rparr>, AReturn, AInvalid]"

definition spin_program :: "u8 list" where
  "spin_program = concat (map op_bytes spin_ops)"

definition spin_typing :: "(u32 \<times> nat) list" where
  "spin_typing = [(0, 0), (5, 1), (10, 0)]"

lemma spin_instr:
  "instr spin_program 0 = Some (APushImm \<lparr>pushImm_Value = 11\<rparr>, 5)"
  "instr spin_program 5 = Some (AJump \<lparr>jump_Pc = 5\<rparr>, 10)"
  "instr spin_program 10 = Some (AReturn, 11)"
  "instr spin_program 11 = Some (AInvalid, 12)"
  using instr_assembled [of 0 spin_ops 0] instr_assembled [of 1 spin_ops 5] instr_assembled [of 2 spin_ops 10]
    instr_assembled [of 3 spin_ops 11]
  by (simp_all add: spin_program_def spin_ops_def op_bytes_def)

lemma spin_typed: "well_typed spin_program spin_typing"
  by (simp add: well_typed_def typed_at_def spin_typing_def spin_instr)
    (simp add: spin_program_def spin_ops_def op_bytes_def)

lemma step_instr:
  assumes "instr (dec_opBuf (sm_decoder m)) (dec_pc (sm_decoder m)) = Some (a, nxt)"
  obtains d1 d2 where "step en pc depth m = exec_op en pc depth (code_of a) (m\<lparr>sm_decoder := d1\<rparr>)"
    "decode_operands (code_of a) d1 = Inr (Some a, d2)" "dec_pc d2 = nxt" "dec_opBuf d1 = dec_opBuf (sm_decoder m)"
    "dec_opBuf d2 = dec_opBuf (sm_decoder m)"
  using assms by (rule instrE) (simp add: that step_def m_decode_def)

lemma SetPC_spin: "dec_opBuf d = spin_program \<Longrightarrow> unat pc < 12 \<Longrightarrow> SetPC pc d = (True, d\<lparr>dec_pc := pc\<rparr>)"
  by (auto simp: SetPC_def spin_program_def spin_ops_def op_bytes_def word_le_nat_alt)

definition at_spin :: "u32 \<Rightarrow> u32 list \<Rightarrow> machine \<Rightarrow> bool" where
  "at_spin pc s m \<longleftrightarrow> sm_decoder m = \<lparr>dec_pc = pc, dec_opBuf = spin_program\<rparr> \<and> sm_stack m = s"

lemma spin_steps:
  assumes "at_spin 5 s m"
  shows "\<exists>m'. run_steps n en pc depth m = Some (Inr (False, m')) \<and> at_spin 5 s m'"
  using assms
proof (induction n arbitrary: m)
  case (Suc n)
  then have "instr (dec_opBuf (sm_decoder m)) (dec_pc (sm_decoder m)) = Some (AJump \<lparr>jump_Pc = 5\<rparr>, 10)"
    by (simp add: at_spin_def spin_instr)
  from step_instr [OF this, where en = en and pc = pc and depth = depth] obtain d1 d2 where
    d: "step en pc depth m = exec_op en pc depth (code_of (AJump \<lparr>jump_Pc = 5\<rparr>)) (m\<lparr>sm_decoder := d1\<rparr>)"
      "decode_operands (code_of (AJump \<lparr>jump_Pc = 5\<rparr>)) d1 = Inr (Some (AJump \<lparr>jump_Pc = 5\<rparr>), d2)"
      "dec_opBuf d2 = dec_opBuf (sm_decoder m)" .
  have buf: "dec_opBuf d2 = spin_program" using d(3) Suc.prems by (simp add: at_spin_def)
  with d(1,2) have "step en pc depth m = Some (Inr (Next, m\<lparr>sm_decoder := d2\<lparr>dec_pc := 5\<rparr>\<rparr>))"
    by (auto simp: res_simps exec_Jump_def m_decode_def jump_to_def m_SetPC_def SetPC_spin)
  moreover have "at_spin 5 s (m\<lparr>sm_decoder := d2\<lparr>dec_pc := 5\<rparr>\<rparr>)" using Suc.prems buf by (simp add: at_spin_def)
  ultimately show ?case using Suc.IH by simp
qed simp

lemma spin_end:
  assumes "at_spin 10 s m" "s = [] \<or> s = [11]"
  shows "\<exists>m'. run_steps (Suc (Suc n)) en pc depth m = Some (Inr (s = [], m'))"
proof -
  have "instr (dec_opBuf (sm_decoder m)) (dec_pc (sm_decoder m)) = Some (AReturn, 11)"
    using assms(1) by (simp add: at_spin_def spin_instr)
  from step_instr [OF this, where en = en and pc = pc and depth = depth] obtain d1 where
    d: "step en pc depth m = exec_op en pc depth (code_of AReturn) (m\<lparr>sm_decoder := d1\<rparr>)"
      "dec_opBuf d1 = dec_opBuf (sm_decoder m)" .
  have buf: "dec_opBuf d1 = spin_program" using d(2) assms(1) by (simp add: at_spin_def)
  from assms(2) show ?thesis
  proof
    assume "s = []"
    then show ?thesis
      using assms(1) d(1) by (simp add: exec_return_def ExecuteReturn_def at_spin_def)
  next
    assume s: "s = [11]"
    define m1 where "m1 = m\<lparr>sm_decoder := d1\<lparr>dec_pc := 11\<rparr>, sm_stack := []\<rparr>"
    have "step en pc depth m = Some (Inr (Next, m1))"
      using assms(1) s d(1) SetPC_spin [OF buf, of 11]
      by (simp add: exec_return_def ExecuteReturn_def m_SetPC_def at_spin_def m1_def)
    moreover have "instr (dec_opBuf (sm_decoder m1)) (dec_pc (sm_decoder m1)) = Some (AInvalid, 12)"
      using buf by (simp add: m1_def spin_instr)
    from step_instr [OF this, where en = en and pc = pc and depth = depth] obtain d3 where
      "step en pc depth m1 = exec_op en pc depth (code_of AInvalid) (m1\<lparr>sm_decoder := d3\<rparr>)" .
    ultimately show ?thesis using s by simp
  qed
qed

text \<open>
  C38. A run that fails spoils the next one. The program is well typed; its loop is cut off by the bound of the
  interpreter, and \<open>Run\<close> returns false with a word on the stack that nothing removes. The program at 10 is a single
  return: on the stack that it expects it ends and \<open>Run\<close> returns true; after the failed run it takes the word for
  a return address, goes on in bytes that no program has there, and \<open>Run\<close> returns false.
\<close>

theorem Run_after_failure:
  "well_typed spin_program spin_typing \<and> map_of spin_typing 0 = Some 0 \<and> map_of spin_typing 10 = Some 0 \<and>
   map_of spin_typing 11 = None \<and>
   (\<exists>m1. Run en 0 cfa depth offset (example_machine spin_program n) = Some (Inr (False, m1)) \<and> sm_stack m1 = [11] \<and>
      (\<exists>m2. Run en 10 cfa depth offset m1 = Some (Inr (False, m2)))) \<and>
   (\<exists>m3. Run en 10 cfa depth offset (example_machine spin_program n) = Some (Inr (True, m3)))"
proof -
  define m where "m = example_machine spin_program n"
  define m0 where "m0 = m\<lparr>sm_decoder := \<lparr>dec_pc = 5, dec_opBuf = spin_program\<rparr>, sm_stack := [11], sm_cfa := cfa, sm_offset := offset\<rparr>"
  have m: "sm_decoder m = \<lparr>dec_pc = 0, dec_opBuf = spin_program\<rparr>" "sm_stack m = []"
    by (simp_all add: m_def example_machine_def newStackMachine_def MakeOpDecoder_def zero_SnapshotProgram_def)
  obtain k where k: "max_steps = Suc (Suc k)" using that [of 99998] by (simp add: max_steps_def)
  have push: "step en 0 depth (m\<lparr>sm_decoder := \<lparr>dec_pc = 0, dec_opBuf = spin_program\<rparr>, sm_cfa := cfa, sm_offset := offset\<rparr>) = Some (Inr (Next, m0))"
  proof -
    let ?m = "m\<lparr>sm_decoder := \<lparr>dec_pc = 0, dec_opBuf = spin_program\<rparr>, sm_cfa := cfa, sm_offset := offset\<rparr>"
    have "instr (dec_opBuf (sm_decoder ?m)) (dec_pc (sm_decoder ?m)) = Some (APushImm \<lparr>pushImm_Value = 11\<rparr>, 5)"
      by (simp add: spin_instr)
    from step_instr [OF this, where en = en and pc = 0 and depth = depth] obtain d1 d2 where
      d: "step en 0 depth ?m = exec_op en 0 depth (code_of (APushImm \<lparr>pushImm_Value = 11\<rparr>)) (?m\<lparr>sm_decoder := d1\<rparr>)"
        "decode_operands (code_of (APushImm \<lparr>pushImm_Value = 11\<rparr>)) d1 = Inr (Some (APushImm \<lparr>pushImm_Value = 11\<rparr>), d2)"
        "dec_pc d2 = 5" "dec_opBuf d2 = dec_opBuf (sm_decoder ?m)" .
    have "d2 = \<lparr>dec_pc = 5, dec_opBuf = spin_program\<rparr>" using d(3,4) by simp
    then show ?thesis
      using d(1,2) m(2) by (auto simp: res_simps exec_PushImm_def m_decode_def m_append_def m0_def)
  qed
  have "at_spin 5 [11] m0" by (simp add: at_spin_def m0_def)
  from spin_steps [OF this, of "Suc k" en 0 depth] obtain m1 where
    m1: "run_steps (Suc k) en 0 depth m0 = Some (Inr (False, m1))" "at_spin 5 [11] m1" by blast
  have "Run en 0 cfa depth offset m = Some (Inr (False, m1))"
    using push m1(1) SetPC_spin [of "sm_decoder m" 0] m
    by (simp add: Run_def m_SetPC_def k run_steps.simps(2) [where n = "Suc k"] del: run_steps.simps(2))
  moreover have "\<exists>m2. Run en 10 cfa depth offset m' = Some (Inr (s = [], m2))"
    if "dec_opBuf (sm_decoder m') = spin_program" "sm_stack m' = s" "s = [] \<or> s = [11]" for m' s
  proof -
    have "at_spin 10 s (m'\<lparr>sm_decoder := (sm_decoder m')\<lparr>dec_pc := 10\<rparr>, sm_cfa := cfa, sm_offset := offset\<rparr>)"
      using that(1,2) by (simp add: at_spin_def)
    from spin_end [OF this that(3), of k en 10 depth] show ?thesis
      using SetPC_spin [OF that(1), of 10] by (simp add: Run_def m_SetPC_def k del: run_steps.simps(2))
  qed
  note this [of m1 "[11]"] this [of m "[]"]
  ultimately show ?thesis
    using spin_typed m1(2) m unfolding m_def [symmetric] by (auto simp: spin_typing_def at_spin_def)
qed

end
