(* ===== verification/Go_Context.thy ===== *)
theory Go_Context
  imports Machine_Inv
begin

text \<open>
  The loop of \<open>PrepareGoContext\<close> over a chain of contexts. It appends every implementation it meets to
  the buffer, so it ends or fills the buffer; once the buffer is full it no longer advances, and on a
  cyclic chain it does not end.
\<close>

subsection \<open>The loop ends or fills the buffer\<close>

text \<open>Operations that change neither the length and capacity of the buffer nor whether it is full.\<close>

definition ob_same :: "outBuf \<Rightarrow> outBuf \<Rightarrow> bool" where
  "ob_same b b' \<longleftrightarrow> ob_len b' = ob_len b \<and> ob_isFull b' = ob_isFull b \<and> ob_cap b' = ob_cap b"

lemma ob_same_refl [simp]: "ob_same b b"
  by (simp add: ob_same_def)

lemma ob_same_trans: "ob_same a b \<Longrightarrow> ob_same b c \<Longrightarrow> ob_same a c"
  by (simp add: ob_same_def)

lemma ob_store_same: "okE (ob_same b) (ob_store p bs b)"
  by (simp add: ob_store_def ob_same_def ob_cap_def)

lemma ob_store64_same: "okE (ob_same b) (ob_store64 p w b)"
  by (simp add: ob_store64_def ob_store_same)

lemma ob_store32_same: "okE (ob_same b) (ob_store32 p w b)"
  by (simp add: ob_store32_def ob_store_same)

lemma Zero_same: "okE (ob_same b) (Zero off n b)"
  by (auto simp: Zero_def ob_same_def ob_cap_def word_le_nat_alt not_less)

lemma ob_Dereference_same: "okE (\<lambda>(_, b'). ob_same b b') (ob_Dereference mem off a n b)"
  unfolding ob_Dereference_def
  by (auto split: option.splits intro!: okE_bind [OF Zero_same] okE_bind [OF ob_store_same])

text \<open>An entry is appended, or the buffer is full.\<close>

lemma writeQueueEntry_grows:
  assumes "ob_wf b" "unwrapped e"
  shows "okE (\<lambda>(_, b'). ob_isFull b' \<or> ob_len b' = ob_len b + entry_len e \<and> ob_isFull b' = ob_isFull b)
    (writeQueueEntry mem e b)"
proof -
  obtain d ok b1 where r: "reserveQueueEntry e b = Inr ((d, ok), b1)"
    and b1: "ob_isFull b1 \<or> ob_len b1 = ob_len b + entry_len e \<and> ob_isFull b1 = ob_isFull b"
    using reserveQueueEntry_room [OF assms] reserveQueueEntry_no_room [OF assms]
    by (cases "room e b") auto
  have rest: "okE (\<lambda>(_, b'). ob_same b1 b') (bindE (ob_Dereference mem d (qe_Addr e) (qe_Len e) b1) (\<lambda>(dok, b2).
     if \<not> dok then
       (let headerOffset = d - of_nat sizeof_QueueEntry in
        bindE (ob_load32 (Ptr headerOffset) b2) (\<lambda>ty.
        bindE (ob_store32 (Ptr headerOffset) (ty OR push_bit 31 1) b2) (\<lambda>b3.
        Inr ((0, False), b3))))
     else Inr ((d, True), b2)))"
    by (auto simp: Let_def ob_same_def intro!: load_bind okE_bind [OF ob_Dereference_same]
        okE_bind [OF ob_store32_same])
  show ?thesis
    unfolding writeQueueEntry_def r
    by (simp, rule okE_mono [OF rest]) (use b1 in \<open>auto simp: ob_same_def\<close>)
qed

definition machine_same :: "machine \<Rightarrow> machine \<Rightarrow> bool" where
  "machine_same a m \<longleftrightarrow> ob_same (sm_b a) (sm_b m)"

lemma machine_same_upd [simp]:
  "machine_same a (m\<lparr>sm_offset := x\<rparr>) = machine_same a m"
  "machine_same a (m\<lparr>sm_q := q\<rparr>) = machine_same a m"
  "machine_same a (m\<lparr>sm_g := g\<rparr>) = machine_same a m"
  "machine_same a (m\<lparr>sm_goContextCaptureBitmask := w\<rparr>) = machine_same a m"
  "machine_same m m"
  by (simp_all add: machine_same_def)

lemma m_buf_store64_same:
  "machine_same a m \<Longrightarrow> (\<And>m'. machine_same a m' \<Longrightarrow> okE Q (f m')) \<Longrightarrow>
   okE Q (bindE (m_buf (ob_store64 p w) m) f)"
  using ob_store64_same [of "sm_b m" p w]
  by (cases "ob_store64 p w (sm_b m)") (auto simp: m_buf_def machine_same_def ob_same_def)

lemma m_bufr_Dereference_same:
  "machine_same a m \<Longrightarrow> (\<And>r m'. machine_same a m' \<Longrightarrow> okE Q (f (r, m'))) \<Longrightarrow>
   okE Q (bindE (m_bufr (ob_Dereference mem off ad n) m) f)"
  using ob_Dereference_same [of "sm_b m" mem off ad n]
  by (cases "ob_Dereference mem off ad n (sm_b m)")
    (auto simp: m_bufr_def machine_same_def ob_same_def)

lemma m_push_same: "machine_same a m \<Longrightarrow> okE (machine_same a) (m_push ad t n m)"
  by (auto simp: m_push_def intro!: okE_bindI)

lemma m_resolve_same:
  "machine_same a m \<Longrightarrow> (\<And>r m'. machine_same a m' \<Longrightarrow> okE Q (f (r, m'))) \<Longrightarrow>
   okE Q (bindE (m_resolve en ty m) f)"
  by (auto simp: m_resolve_def bindE_assoc intro!: okE_bindI)

lemmas same_bind = m_buf_store64_same m_bufr_Dereference_same m_resolve_same loads_bind if_bind option_bind

lemma resolveEmptyInterface_same:
  assumes "machine_same a m" "\<And>r m'. machine_same a m' \<Longrightarrow> okE Q (f (r, m'))"
  shows "okE Q (bindE (resolveEmptyInterface en m) f)"
proof -
  have "okE (\<lambda>(_, m'). machine_same a m') (resolveEmptyInterface en m)"
    using assms(1) unfolding resolveEmptyInterface_def Let_def by (auto intro!: same_bind)
  from okE_bind [OF this] show ?thesis using assms(2) by auto
qed

lemma resolveAnyType_same:
  assumes "machine_same a m" "\<And>r m'. machine_same a m' \<Longrightarrow> okE Q (f (r, m'))"
  shows "okE Q (bindE (resolveAnyType en m) f)"
proof -
  have "okE (\<lambda>(_, m'). machine_same a m') (resolveAnyType en m)"
    using assms(1) unfolding resolveAnyType_def Let_def
    by (auto intro!: resolveEmptyInterface_same split: option.splits)
  from okE_bind [OF this] show ?thesis using assms(2) by auto
qed

lemma recordGoContextValue_same:
  "machine_same a m \<Longrightarrow> okE (machine_same a) (recordGoContextValue spec v t m)"
  unfolding recordGoContextValue_def Let_def by (auto intro!: same_bind m_push_same)

lemma goContextValue_same:
  assumes "machine_same a m"
  shows "okE (machine_same a) (goContextValue en impl m)"
  using assms unfolding goContextValue_def Let_def
  by (auto intro!: same_bind resolveAnyType_same recordGoContextValue_same
      okE_bind [OF recordGoContextValue_same] split: option.splits)

definition small_types :: "run_env \<Rightarrow> bool" where
  "small_types en \<longleftrightarrow> (\<forall>t ti. sp_TypeInfo (en_p en) t = Some ti \<longrightarrow> unat (ti_ByteLen ti) \<le> 2 ^ 30)"

lemma goContextStep_grows:
  assumes "ob_wf (sm_b m)" "small_types en" "goContextStep en m = Inr (True, t)"
  shows "ob_isFull (sm_b t) \<or> ob_len (sm_b m) + 16 \<le> ob_len (sm_b t)"
proof -
  define G where "G m' \<longleftrightarrow> ob_isFull (sm_b m') \<or> ob_len (sm_b m) + 16 \<le> ob_len (sm_b m')" for m' :: machine
  have G_upd: "G (m'\<lparr>sm_offset := x\<rparr>) = G m'" for m' x by (simp add: G_def)
  have wf: "ob_wf (sm_b m2)" if "machine_same m m2" for m2 :: machine
    using that assms(1) by (simp add: machine_same_def ob_same_def ob_wf_def)
  have small: "unat (ti_ByteLen ti) \<le> 1073741824" if "sp_TypeInfo (en_p en) t = Some ti" for t ti
    using assms(2) that by (simp add: small_types_def)
  have kept: "G m'" if "G m1" "machine_same m1 m'" for m1 m'
    using that by (auto simp: G_def machine_same_def ob_same_def)
  have wr: "okE (\<lambda>(_, m3). G m3) (m_bufr (writeQueueEntry mem e) m2)"
    if "machine_same m m2" "ob_wf (sm_b m2)" "unwrapped e" for mem e m2
    using writeQueueEntry_grows [OF that(2,3), of mem] entry_len_bounds(1) [OF that(3)] that(1)
    by (auto simp: m_bufr_def okE_iff res_simps machine_same_def ob_same_def G_def split: prod.splits)
  have val: "okE G (goContextValue en impl m4)" if "G m4" for impl m4
    by (rule okE_mono [OF goContextValue_same [of m4 m4]]) (use kept [OF that] in simp_all)
  have step: "okE (\<lambda>(go, m'). go \<longrightarrow> G m') (goContextStep en m)"
    unfolding goContextStep_def Let_def
    by (auto intro!: m_bufr_Dereference_same [where a = m] m_resolve_same [where a = m] loads_bind
        okE_bind [OF wr] okE_bind [OF val] simp: unwrapped_def G_upd wf small
        split: option.splits prod.splits)
  with assms(3) show ?thesis by (simp add: G_def)
qed


text \<open>
  The loop with a test of \<open>full\<close> before each iteration, which the code does not have. It is a loop with
  a measure: the room left in the buffer.
\<close>

definition guardedStep :: "run_env \<Rightarrow> machine \<Rightarrow> ((bool \<times> machine) res) option" where
  "guardedStep en m =
     (if full (sm_b m) then Some (Inr (False, m)) else Some (goContextStep en m))"

definition guarded_inv :: "run_env \<Rightarrow> machine \<Rightarrow> bool" where
  "guarded_inv en m \<longleftrightarrow> machine_wf m \<and> small_types en"

definition room_left :: "machine \<Rightarrow> nat" where
  "room_left m = (if full (sm_b m) then 0 else ob_cap (sm_b m) - ob_len (sm_b m) + 1)"

lemma room_left_decreases:
  assumes "guarded_inv en s" "guardedStep en s = Some (Inr (True, t))"
  shows "room_left t < room_left s"
proof -
  have s: "machine_wf s" "small_types en" "\<not> ob_isFull (sm_b s)" "goContextStep en s = Inr (True, t)"
    using assms by (auto simp: guarded_inv_def guardedStep_def full_def split: if_splits)
  have wf: "ob_wf (sm_b s)" using s(1) by (simp add: machine_wf_def)
  have "machine_rel s t" using goContextStep_ok [OF machine_rel_refl [OF s(1)], of en] s(4) by simp
  then have "ob_cap (sm_b t) = ob_cap (sm_b s)" "ob_len (sm_b t) \<le> ob_cap (sm_b t)"
    by (auto simp: machine_rel_def ob_rel_def ob_wf_def)
  with goContextStep_grows [OF wf s(2,4)] s(3) show ?thesis
    by (auto simp: room_left_def full_def)
qed

interpretation GF: loop_measure "guardedStep en" "guarded_inv en" machine_kept room_left for en
proof unfold_locales
  show "machine_kept s s" for s by (rule GC.R_refl)
  show "machine_kept s u" if "machine_kept s t" "machine_kept t u" for s t u
    using that by (rule GC.R_trans)
  show "guarded_inv en t \<and> machine_kept s t"
    if "guarded_inv en s" "guardedStep en s = Some (Inr (again, t))" for s again t
    using that GC.body_step [of s en again t] GC.R_refl [of s]
    by (auto simp: guarded_inv_def guardedStep_def split: if_splits)
  show "guardedStep en s \<noteq> None" for s by (simp add: guardedStep_def)
  show "room_left t < room_left s"
    if "guarded_inv en s" "guardedStep en s = Some (Inr (True, t))" for s t
    using that by (rule room_left_decreases)
qed

lemma guarded_fuel:
  "loop_fuel n (guardedStep en) m = Some r \<Longrightarrow>
   loop_fuel n (\<lambda>m. Some (goContextStep en m)) m = Some r \<or> (\<exists>m'. r = Inr m' \<and> full (sm_b m'))"
proof (induction n arbitrary: m)
  case (Suc n)
  show ?case
  proof (cases "full (sm_b m)")
    case True
    with Suc.prems have "r = Inr m" by (simp add: guardedStep_def)
    with True show ?thesis by blast
  next
    case False
    with Suc.prems Suc.IH show ?thesis
      by (cases "goContextStep en m") (auto simp: guardedStep_def split: if_splits)
  qed
qed simp

text \<open>
  The loop over Go contexts ends unless it fills the buffer: with type sizes up to 2^30, from every
  well-formed machine, the loop of the code ends (with a result or a fault), or the loop that also tests
  for a full buffer ends with one, after at most as many iterations as there are free bytes plus two.
\<close>

theorem goContextLoop_ends_or_fills:
  assumes "machine_wf m" "small_types en"
  shows "\<exists>r. loop_fuel (ob_cap (sm_b m) - ob_len (sm_b m) + 2) (guardedStep en) m = Some r \<and>
    (goContextLoop en m = Some r \<or> (\<exists>m'. r = Inr m' \<and> full (sm_b m')))"
proof -
  have "guarded_inv en m" using assms by (simp add: guarded_inv_def)
  moreover have "room_left m < ob_cap (sm_b m) - ob_len (sm_b m) + 2" by (simp add: room_left_def)
  ultimately obtain r where r: "loop_fuel (ob_cap (sm_b m) - ob_len (sm_b m) + 2) (guardedStep en) m = Some r"
    using GF.fuel_enough by blast
  from guarded_fuel [OF r] have "goContextLoop en m = Some r \<or> (\<exists>m'. r = Inr m' \<and> full (sm_b m'))"
    unfolding goContextLoop_def by (rule disj_forward) (rule loop_fuel_loopR, assumption+)
  with r show ?thesis by blast
qed

subsection \<open>A loop that does not end\<close>

lemma loopR_stuck: "body s = Some (Inr (True, s)) \<Longrightarrow> loopR body s = None"
proof (rule ccontr)
  assume stuck: "body s = Some (Inr (True, s))" and "loopR body s \<noteq> None"
  then obtain r where "loopR body s = Some r" by blast
  from loopR_loop_fuel [OF this] obtain n where "loop_fuel n body s = Some r" ..
  moreover have "loop_fuel n body s = None" for n by (induction n) (simp_all add: stuck)
  ultimately show False by simp
qed

text \<open>
  A context whose wrapped context is itself: an interface value (type table 64, data 128) whose data, at
  128, is that same interface value; the type table names a type at 80, which the resolver maps to type
  id 1, a context implementation of 16 bytes with the wrapped context at offset 0.
\<close>

definition cyclic_mem :: memory where
  "cyclic_mem a =
     (if a = 72 then Some 80 else if a = 128 then Some 64 else if a = 136 then Some 128
      else if a < 256 then Some 0 else None)"

definition cyclic_type :: TypeInfo where
  "cyclic_type = zero_TypeInfo\<lparr>ti_ByteLen := 16,
     ti_GoContextImpl := Some \<lparr>gci_ContextOffset = Some 0, gci_KeyOffset = None, gci_ValueOffset = None\<rparr>\<rparr>"

definition cyclic_env :: run_env where
  "cyclic_env = \<lparr>en_p = zero_SnapshotProgram\<lparr>sp_TypeInfo := [1 \<mapsto> cyclic_type]\<rparr>,
     en_t = [64 \<mapsto> 1], en_mem = cyclic_mem, en_md = 0\<rparr>"

definition cyclic_ctx :: OpPrepareGoContext where
  "cyclic_ctx = \<lparr>prepCtx_DataByteLen = 8, prepCtx_TypeID = 5, prepCtx_CaptureCount = 1\<rparr>"

definition cyclic_iface :: "u8 list" where
  "cyclic_iface = le_bytes 8 (64 :: u64) @ le_bytes 8 (128 :: u64)"

definition cyclic_machine :: machine where
  "cyclic_machine =
     (newStackMachine (zero_SnapshotProgram\<lparr>sp_Prog := op_bytes (APrepareGoContext cyclic_ctx)\<rparr>) makeQueue
       \<lparr>ob_arr = cyclic_iface @ replicate 24 0, ob_len = 16, ob_isFull = False\<rparr>
       (makeGoRuntimeTypeResolver zero_RuntimeConfig 0))
     \<lparr>sm_g := \<lparr>gr_cfg = \<lparr>mc_runtimeDotFirstmoduledata = 0, mc_typesOffset = 0, mc_etypesOffset = 0\<rparr>,
        gr_cachedFirstmoduledataRange = \<lparr>mtr_start = 16, mtr_end = 256\<rparr>\<rparr>\<rparr>"

definition cyclic_buf :: "bool \<Rightarrow> outBuf" where
  "cyclic_buf f = \<lparr>ob_arr = cyclic_iface @ le_bytes 4 (5 :: u32) @ le_bytes 4 (8 :: u32) @
      le_bytes 8 (128 :: u64) @ replicate 8 0, ob_len = 40, ob_isFull = f\<rparr>"

lemma cyclic_step:
  assumes "sm_b m = cyclic_buf f" "sm_offset m = 0" "sm_goContextCaptureBitmask m \<noteq> 0"
    and "gr_cachedFirstmoduledataRange (sm_g m) = \<lparr>mtr_start = 16, mtr_end = 256\<rparr>"
  shows "goContextStep cyclic_env m = Inr (True, m\<lparr>sm_b := cyclic_buf True\<rparr>)"
proof -
  define b1 where "b1 = (cyclic_buf f)\<lparr>ob_arr := blit (ob_arr (cyclic_buf f)) 0 (le_bytes 8 (80 :: u64))\<rparr>"
  define e where "e = \<lparr>qe_Type = 1, qe_Len = 16, qe_Addr = 128\<rparr>"
  have len: "length (ob_arr (cyclic_buf f)) = 40" by (simp add: cyclic_buf_def cyclic_iface_def)
  have l1: "ob_load64 (Ptr 0) (cyclic_buf f) = Inr 64"
    using len by (simp add: ob_load64_def ob_load_def Ptr_def ob_cap_def)
      (simp add: cyclic_buf_def cyclic_iface_def sub_def)
  have d1: "Dereference cyclic_mem 72 8 = Some (le_bytes 8 (80 :: u64))"
    by (simp add: Dereference_def read_bytes_step cyclic_mem_def le_bytes_step)
  have d2: "Dereference cyclic_mem 128 16 = Some cyclic_iface"
    by (simp add: Dereference_def read_bytes_step cyclic_mem_def le_bytes_step cyclic_iface_def)
  have deref: "ob_Dereference cyclic_mem 0 72 8 (cyclic_buf f) = Inr (True, b1)"
    using len d1 by (simp add: ob_Dereference_def ob_cap32_def ob_cap_def ob_store_def Ptr_def b1_def)
  have l2: "ob_load64 (Ptr 0) b1 = Inr 80" "ob_load64 (Ptr 0 + 8) b1 = Inr 128"
    using len by (simp_all add: ob_load64_def ob_load_def Ptr_def ob_cap_def b1_def)
      (simp_all add: cyclic_buf_def cyclic_iface_def sub_def blit_def)
  have b1: "ob_wf b1" "unwrapped e" "\<not> room e b1" "unat (qe_Len e) \<le> ob_cap b1"
    using len by (simp_all add: b1_def ob_wf_def ob_cap_def e_def unwrapped_def room_def entry_len_def padded_def)
      (simp_all add: cyclic_buf_def)
  have "b1\<lparr>ob_isFull := True, ob_arr := blit (ob_arr b1) 0 cyclic_iface\<rparr> = cyclic_buf True"
    by (simp add: b1_def cyclic_buf_def cyclic_iface_def blit_def)
  then have wr: "writeQueueEntry cyclic_mem e b1 = Inr ((0, True), cyclic_buf True)"
    using writeQueueEntry_no_room_mapped [OF b1, of cyclic_mem cyclic_iface] d2 by (simp add: e_def)
  have res: "ResolveTypeAddressToGoRuntimeTypeId cyclic_mem 0 80 (sm_g m) = Inr (64, sm_g m)"
    using assms(4) by (simp add: ResolveTypeAddressToGoRuntimeTypeId_def maybeResolveFirstmoduledataRange_def)
  show ?thesis
    using assms l1 deref l2 wr res
    by (simp add: goContextStep_def cyclic_env_def m_bufr_def m_resolve_def e_def
        ResolveGoRuntimeTypeToTypeId_def cyclic_type_def zero_TypeInfo_def goContextValue_def Let_def)
qed


lemma cyclic_loop:
  assumes "sm_b m = cyclic_buf f" "sm_offset m = 0" "sm_goContextCaptureBitmask m \<noteq> 0"
    and "gr_cachedFirstmoduledataRange (sm_g m) = \<lparr>mtr_start = 16, mtr_end = 256\<rparr>"
  shows "goContextLoop cyclic_env m = None"
proof -
  define m1 where "m1 = m\<lparr>sm_b := cyclic_buf True\<rparr>"
  have s0: "Some (goContextStep cyclic_env m) = Some (Inr (True, m1))"
    using cyclic_step [OF assms] by (simp add: m1_def)
  have "goContextStep cyclic_env m1 = Inr (True, m1\<lparr>sm_b := cyclic_buf True\<rparr>)"
    by (rule cyclic_step) (use assms in \<open>simp_all add: m1_def\<close>)
  then have "Some (goContextStep cyclic_env m1) = Some (Inr (True, m1))" by (simp add: m1_def)
  then have "goContextLoop cyclic_env m1 = None"
    unfolding goContextLoop_def by (rule loopR_stuck)
  with s0 show ?thesis
    unfolding goContextLoop_def by (subst loopR.simps) simp
qed

lemma cyclic_machine_facts:
  "machine_wf cyclic_machine" "sm_offset cyclic_machine = 0" "sm_q cyclic_machine = makeQueue"
  "sm_b cyclic_machine = \<lparr>ob_arr = cyclic_iface @ replicate 24 0, ob_len = 16, ob_isFull = False\<rparr>"
  "gr_cachedFirstmoduledataRange (sm_g cyclic_machine) = \<lparr>mtr_start = 16, mtr_end = 256\<rparr>"
  "sm_decoder cyclic_machine = \<lparr>dec_pc = 0, dec_opBuf = op_bytes (APrepareGoContext cyclic_ctx)\<rparr>"
  using queue_wf_make
  by (simp_all add: cyclic_machine_def newStackMachine_def MakeOpDecoder_def machine_wf_def ob_wf_def
      ob_cap_def cyclic_iface_def)

theorem goContextLoop_ends_or_fills_witness:
  "\<exists>r. loop_fuel 26 (guardedStep cyclic_env) cyclic_machine = Some r \<and>
    (goContextLoop cyclic_env cyclic_machine = Some r \<or> (\<exists>m'. r = Inr m' \<and> full (sm_b m')))"
proof -
  have small: "small_types cyclic_env"
    by (simp add: small_types_def cyclic_env_def cyclic_type_def zero_TypeInfo_def zero_SnapshotProgram_def)
  have "ob_cap (sm_b cyclic_machine) - ob_len (sm_b cyclic_machine) + 2 = 26"
    by (simp add: cyclic_machine_facts ob_cap_def cyclic_iface_def)
  with goContextLoop_ends_or_fills [OF cyclic_machine_facts(1) small] show ?thesis by metis
qed

text \<open>The operation up to its loop: an entry of eight zero bytes is appended and fills the buffer.\<close>

lemma cyclic_prefix:
  defines "b0 \<equiv> \<lparr>ob_arr = cyclic_iface @ replicate 24 0, ob_len = 16, ob_isFull = False\<rparr>"
    and "e \<equiv> \<lparr>qe_Type = 5, qe_Len = 8, qe_Addr = 128\<rparr>"
  shows "ob_load64 (Ptr 0 + 8) b0 = Inr 128"
    and "\<exists>b1. writeQueueEntry cyclic_mem e b0 = Inr ((32, True), b1) \<and> Zero 32 8 b1 = Inr (cyclic_buf False)"
proof -
  have len: "length cyclic_iface = 16" by (simp add: cyclic_iface_def)
  show "ob_load64 (Ptr 0 + 8) b0 = Inr 128"
    using len by (simp add: ob_load64_def ob_load_def Ptr_def ob_cap_def b0_def)
      (simp add: cyclic_iface_def sub_def)
  have h: "ob_wf b0" "unwrapped e" "room e b0"
    using len by (simp_all add: b0_def e_def ob_wf_def ob_cap_def unwrapped_def room_def entry_len_def padded_def)
  have d: "Dereference cyclic_mem (qe_Addr e) (unat (qe_Len e)) = Some (le_bytes 8 (64 :: u64))"
    by (simp add: e_def Dereference_def read_bytes_step cyclic_mem_def le_bytes_step)
  have "Len b0 + 16 = 32" by (simp add: b0_def Len_def)
  with writeQueueEntry_mapped [OF h d]
  have w: "writeQueueEntry cyclic_mem e b0 = Inr ((32, True), written e (le_bytes 8 (64 :: u64)) b0)" by simp
  have "ob_cap (written e (le_bytes 8 (64 :: u64)) b0) = 40"
    using written_entry_at(3) [OF h(2,3), of "le_bytes 8 (64 :: u64)"] len
    by (simp add: e_def) (simp add: b0_def ob_cap_def)
  then have "Zero 32 8 (written e (le_bytes 8 (64 :: u64)) b0) = Inr (cyclic_buf False)"
    by (simp add: Zero_def ob_cap32_def)
      (simp add: written_def b0_def e_def QueueEntry_bytes_def cyclic_buf_def blit_def len entry_len_def padded_def)
  with w show "\<exists>b1. writeQueueEntry cyclic_mem e b0 = Inr ((32, True), b1) \<and> Zero 32 8 b1 = Inr (cyclic_buf False)"
    by blast
qed

text \<open>
  The loop over Go contexts can run forever: on a context that wraps itself, from a well-formed
  machine with 24 free bytes, \<open>Run\<close> of the one operation \<open>PrepareGoContext\<close> does not return. The world
  is stopped meanwhile.
\<close>

theorem Run_goContext_diverges:
  "machine_wf cyclic_machine \<and> Run cyclic_env 0 0 0 0 cyclic_machine = None"
proof
  note facts = cyclic_machine_facts
  show "machine_wf cyclic_machine" by (rule facts(1))
  define d0 where "d0 = \<lparr>dec_pc = 0, dec_opBuf = op_bytes (APrepareGoContext cyclic_ctx)\<rparr>"
  define m0 where "m0 = cyclic_machine\<lparr>sm_cfa := 0, sm_offset := 0, sm_decoder := advance 1 d0\<rparr>"
  have at0: "at_pc d0 (op_bytes (APrepareGoContext cyclic_ctx))"
    by (auto simp: at_pc_def d0_def op_bytes_def intro!: exI [of _ "[]"])
  note pop = PopOpCode_bytes [OF at0]
  have dec: "DecodePrepareGoContext (advance 1 d0) = Inr (cyclic_ctx, advance 10 d0)"
    using pop(2) by (simp add: Decode_defs dec_at)
  obtain b1 where b1: "writeQueueEntry cyclic_mem \<lparr>qe_Type = 5, qe_Len = 8, qe_Addr = 128\<rparr>
      \<lparr>ob_arr = cyclic_iface @ replicate 24 0, ob_len = 16, ob_isFull = False\<rparr> = Inr ((32, True), b1)"
    "Zero 32 8 b1 = Inr (cyclic_buf False)"
    using cyclic_prefix(2) by blast
  have mem: "en_mem cyclic_env = cyclic_mem" by (simp add: cyclic_env_def)
  have "exec_PrepareGoContext cyclic_env m0 = None"
    using dec cyclic_prefix(1) b1
    by (simp add: exec_PrepareGoContext_def m_decode_def m0_def facts cyclic_ctx_def ShouldRecord_def
        makeQueue_def m_bufr_def m_buf_def mem cyclic_loop [where f = False])
  moreover have "SetPC 0 d0 = (True, d0)" by (simp add: SetPC_def d0_def op_bytes_def)
  moreover obtain k where k: "max_steps = Suc k" using that [of 99999] by (simp add: max_steps_def)
  ultimately show "Run cyclic_env 0 0 0 0 cyclic_machine = None"
    using pop(1) by (simp add: k Run_def m_SetPC_def facts d0_def [symmetric] step_def m_decode_def m0_def)
qed

end
