(* ===== verification/Unwinder.thy ===== *)
theory Unwinder
  imports Type_Resolver
begin

text \<open>
  The frame-pointer unwinder (\<open>internal/snapshot/unwinder.go\<close>, \<open>unwinder_amd64.go\<close>,
  \<open>unwinder_arm64.go\<close>). Its two arrays of 512 words live as long as the unwinder and the returned slices
  are prefixes of them, so a walk overwrites what an earlier one returned.

  The specification is the chain of frame records in memory, \<open>frames\<close>.
\<close>

definition maxStackFrames :: nat where
  "maxStackFrames = 512"

record callFrame =
  cf_fp :: u64
  cf_pc :: u64

record unwinder =
  uw_base :: u64
  uw_numFrames :: nat
  uw_pcBuf :: "u64 list"
  uw_fpBuf :: "u64 list"
  uw_frameBuf :: callFrame

definition newUnwinder :: "u64 \<Rightarrow> unwinder" where
  "newUnwinder base =
     \<lparr>uw_base = base, uw_numFrames = 0, uw_pcBuf = replicate maxStackFrames 0,
      uw_fpBuf = replicate maxStackFrames 0, uw_frameBuf = \<lparr>cf_fp = 0, cf_pc = 0\<rparr>\<rparr>"

definition sizeof_callFrame :: nat where
  "sizeof_callFrame = 16"

definition callFrame_of :: "u8 list \<Rightarrow> callFrame" where
  "callFrame_of bs = \<lparr>cf_fp = le_word (sub bs 0 8), cf_pc = le_word (sub bs 8 8)\<rparr>"

subsection \<open>The canonical frame address\<close>

definition adjustCFA_amd64 :: "u64 list \<Rightarrow> u64 \<Rightarrow> u64 list" where
  "adjustCFA_amd64 fps stackTopSp = map (\<lambda>fp. fp + 16) fps"

definition adjustCFA_arm64 :: "u64 list \<Rightarrow> u64 \<Rightarrow> u64 list" where
  "adjustCFA_arm64 fps stackTopSp =
     (foldl (\<lambda>xs i. xs[i := xs ! (i + 1) + 8]) fps [0..<length fps - 1])[length fps - 1 := stackTopSp]"

text \<open>The build tags choose between the two files by the architecture; other architectures do not build.\<close>

datatype goarch = Amd64 | Arm64

fun adjustCFA :: "goarch \<Rightarrow> u64 list \<Rightarrow> u64 \<Rightarrow> u64 list" where
  "adjustCFA Amd64 = adjustCFA_amd64"
| "adjustCFA Arm64 = adjustCFA_arm64"

subsection \<open>Walking the stack\<close>

text \<open>The loop; \<open>next\<close> is \<open>nextCallFrame\<close>. It ends because there are at most 512 frames.\<close>

function walk_loop :: "memory \<Rightarrow> u64 \<Rightarrow> unwinder \<Rightarrow> unwinder" where
  "walk_loop mem next' b =
     (if uw_numFrames b < maxStackFrames then
        if next' = 0 then b
        else
          (case Dereference mem next' sizeof_callFrame of
             None \<Rightarrow> b\<lparr>uw_frameBuf := (uw_frameBuf b)\<lparr>cf_fp := 0\<rparr>\<rparr>
           | Some bs \<Rightarrow>
               (let fr = callFrame_of bs in
                walk_loop mem (cf_fp fr)
                  (b\<lparr>uw_frameBuf := fr,
                     uw_fpBuf := (uw_fpBuf b)[uw_numFrames b := cf_fp fr],
                     uw_pcBuf := (uw_pcBuf b)[uw_numFrames b := cf_pc fr],
                     uw_numFrames := uw_numFrames b + 1\<rparr>)))
      else b)"
  by pat_completeness auto
termination
  by (relation "measure (\<lambda>(mem, next', b). maxStackFrames - uw_numFrames b)") auto

declare walk_loop.simps [simp del]

definition walkStack ::
  "goarch \<Rightarrow> memory \<Rightarrow> u64 \<Rightarrow> u64 \<Rightarrow> u64 \<Rightarrow> unwinder \<Rightarrow> (u64 list \<times> u64 list) \<times> unwinder" where
  "walkStack arch mem pc fp stackTopSP b =
     (let b1 = b\<lparr>uw_pcBuf := (uw_pcBuf b)[0 := pc], uw_fpBuf := (uw_fpBuf b)[0 := fp], uw_numFrames := 1\<rparr> in
      if fp = 0 then
        ((take (uw_numFrames b1) (uw_pcBuf b1), take (uw_numFrames b1) (uw_fpBuf b1)), b1)
      else
        (let b2 = walk_loop mem fp b1;
             n = uw_numFrames b2;
             pcBuf = foldl (\<lambda>xs i. xs[i := xs ! i - uw_base b2]) (uw_pcBuf b2) [0..<n];
             fps = adjustCFA arch (take n (uw_fpBuf b2)) stackTopSP;
             b3 = b2\<lparr>uw_pcBuf := pcBuf, uw_fpBuf := fps @ drop n (uw_fpBuf b2)\<rparr>
         in ((take n pcBuf, fps), b3)))"

subsection \<open>The specification\<close>

fun frames :: "memory \<Rightarrow> u64 \<Rightarrow> nat \<Rightarrow> callFrame list" where
  "frames mem fp 0 = []"
| "frames mem fp (Suc n) =
     (if fp = 0 then []
      else
        (case Dereference mem fp sizeof_callFrame of
           None \<Rightarrow> []
         | Some bs \<Rightarrow> callFrame_of bs # frames mem (cf_fp (callFrame_of bs)) n))"

definition cfa_spec :: "goarch \<Rightarrow> u64 list \<Rightarrow> u64 \<Rightarrow> u64 list" where
  "cfa_spec arch fps stackTopSp =
     (if arch = Arm64 then map (\<lambda>fp. fp + 8) (tl fps) @ [stackTopSp] else map (\<lambda>fp. fp + 16) fps)"

definition uw_ok :: "unwinder \<Rightarrow> bool" where
  "uw_ok b \<longleftrightarrow> length (uw_pcBuf b) = maxStackFrames \<and> length (uw_fpBuf b) = maxStackFrames"

lemma uw_ok_new: "uw_ok (newUnwinder base)"
  by (simp add: uw_ok_def newUnwinder_def)

lemma length_frames: "length (frames mem fp n) \<le> n"
  by (induction n arbitrary: fp) (auto split: option.split)

lemma walk_loop_frames:
  "uw_ok b \<Longrightarrow> uw_numFrames b \<le> maxStackFrames \<Longrightarrow>
   (let fs = frames mem next' (maxStackFrames - uw_numFrames b); b' = walk_loop mem next' b;
        n = uw_numFrames b + length fs
    in uw_ok b' \<and> uw_base b' = uw_base b \<and> uw_numFrames b' = n \<and> n \<le> maxStackFrames \<and>
       take n (uw_pcBuf b') = take (uw_numFrames b) (uw_pcBuf b) @ map cf_pc fs \<and>
       take n (uw_fpBuf b') = take (uw_numFrames b) (uw_fpBuf b) @ map cf_fp fs)"
proof (induction mem next' b rule: walk_loop.induct)
  case (1 mem next' b)
  show ?case
  proof (cases "uw_numFrames b < maxStackFrames \<and> next' \<noteq> 0")
    case False
    then have "frames mem next' (maxStackFrames - uw_numFrames b) = []"
      by (cases "maxStackFrames - uw_numFrames b") auto
    moreover have "walk_loop mem next' b = b" using False by (subst walk_loop.simps) auto
    ultimately show ?thesis using 1(2,3) by (simp add: Let_def)
  next
    case True
    then obtain k where k: "maxStackFrames - uw_numFrames b = Suc k" by (metis Suc_diff_Suc)
    show ?thesis
    proof (cases "Dereference mem next' sizeof_callFrame")
      case None
      then have "frames mem next' (maxStackFrames - uw_numFrames b) = []" by (simp add: k)
      moreover have "walk_loop mem next' b = b\<lparr>uw_frameBuf := (uw_frameBuf b)\<lparr>cf_fp := 0\<rparr>\<rparr>"
        using True None by (subst walk_loop.simps) simp
      ultimately show ?thesis using 1(2,3) by (simp add: Let_def uw_ok_def)
    next
      case (Some bs)
      define fr where "fr = callFrame_of bs"
      define b1 where "b1 = b\<lparr>uw_frameBuf := fr,
                     uw_fpBuf := (uw_fpBuf b)[uw_numFrames b := cf_fp fr],
                     uw_pcBuf := (uw_pcBuf b)[uw_numFrames b := cf_pc fr],
                     uw_numFrames := uw_numFrames b + 1\<rparr>"
      have loop: "walk_loop mem next' b = walk_loop mem (cf_fp fr) b1"
        using True Some by (subst walk_loop.simps) (simp add: fr_def b1_def Let_def)
      have fs: "frames mem next' (maxStackFrames - uw_numFrames b) = fr # frames mem (cf_fp fr) k"
        using True Some by (simp add: k fr_def)
      have b1: "uw_ok b1" "uw_numFrames b1 = uw_numFrames b + 1" "uw_numFrames b1 \<le> maxStackFrames"
        "uw_base b1 = uw_base b" "maxStackFrames - uw_numFrames b1 = k"
        using 1(2) True k by (simp_all add: b1_def uw_ok_def)
      have tk: "take (uw_numFrames b1) (uw_pcBuf b1) = take (uw_numFrames b) (uw_pcBuf b) @ [cf_pc fr]"
        "take (uw_numFrames b1) (uw_fpBuf b1) = take (uw_numFrames b) (uw_fpBuf b) @ [cf_fp fr]"
        using 1(2) True by (simp_all add: b1_def uw_ok_def take_Suc_conv_app_nth)
      have ih: "let fs = frames mem (cf_fp fr) (maxStackFrames - uw_numFrames b1); b' = walk_loop mem (cf_fp fr) b1;
          n = uw_numFrames b1 + length fs
        in uw_ok b' \<and> uw_base b' = uw_base b1 \<and> uw_numFrames b' = n \<and> n \<le> maxStackFrames \<and>
           take n (uw_pcBuf b') = take (uw_numFrames b1) (uw_pcBuf b1) @ map cf_pc fs \<and>
           take n (uw_fpBuf b') = take (uw_numFrames b1) (uw_fpBuf b1) @ map cf_fp fs"
        by (rule 1(1) [of bs fr, folded b1_def]) (use True Some b1 in \<open>simp_all add: fr_def\<close>)
      then show ?thesis
        unfolding loop fs b1(5) tk by (simp add: Let_def b1(2,4))
    qed
  qed
qed

lemma foldl_update_map:
  "n \<le> length xs \<Longrightarrow> foldl (\<lambda>xs i. xs[i := f (xs ! i)]) xs [0..<n] = map f (take n xs) @ drop n xs"
proof (induction n)
  case (Suc n)
  then have "drop n xs = xs ! n # drop (Suc n) xs" by (simp add: Cons_nth_drop_Suc)
  with Suc show ?case
    by (simp add: nth_append take_Suc_conv_app_nth list_update_append)
qed simp

lemma foldl_update_next:
  "n < length xs \<Longrightarrow>
   foldl (\<lambda>xs i. xs[i := xs ! (i + 1) + 8]) xs [0..<n] = map (\<lambda>x. x + 8) (take n (tl xs)) @ drop n (xs :: u64 list)"
proof (induction n)
  case (Suc n)
  then have "drop n xs = xs ! n # xs ! Suc n # drop (Suc (Suc n)) xs" "drop (Suc n) xs = xs ! Suc n # drop (Suc (Suc n)) xs"
    by (simp_all add: Cons_nth_drop_Suc)
  moreover have "take (Suc n) (tl xs) = take n (tl xs) @ [xs ! Suc n]"
    using Suc.prems by (simp add: take_Suc_conv_app_nth nth_tl)
  ultimately show ?case
    using Suc by (simp add: nth_append list_update_append)
qed simp

lemma adjustCFA_spec: "fps \<noteq> [] \<Longrightarrow> adjustCFA arch fps stktop = cfa_spec arch fps stktop"
proof (cases arch)
  case Arm64
  assume ne: "fps \<noteq> []"
  then have "foldl (\<lambda>xs i. xs[i := xs ! (i + 1) + 8]) fps [0..<length fps - 1] =
      map (\<lambda>x. x + 8) (tl fps) @ drop (length fps - 1) fps"
    using foldl_update_next [of "length fps - 1" fps] by simp
  moreover have "drop (length fps - 1) fps = [last fps]"
    using ne by (metis append_butlast_last_id append_eq_conv_conj length_butlast)
  ultimately show ?thesis
    using ne Arm64 by (simp add: adjustCFA_arm64_def cfa_spec_def list_update_append)
qed (simp_all add: adjustCFA_amd64_def cfa_spec_def)

text \<open>
  C22. The unwinder returns the chain of frame records: for a frame pointer that is not nil, the program
  counters are the given one and those of the records that can be read along the chain, leaf to root,
  relative to the text base, and the frame addresses are adjusted to the platform's convention. It ends
  on every memory, cyclic chains included, with between 1 and 512 frames and one address per counter, and
  its result does not depend on what earlier walks left in the buffers.
\<close>

theorem walkStack_frames:
  assumes "uw_ok b" "fp \<noteq> 0"
  shows "\<exists>b'. walkStack arch mem pc fp stktop b =
      ((map (\<lambda>p. p - uw_base b) (pc # map cf_pc (frames mem fp 511)),
        cfa_spec arch (fp # map cf_fp (frames mem fp 511)) stktop), b') \<and>
    uw_ok b' \<and> uw_base b' = uw_base b \<and> length (frames mem fp 511) \<le> 511"
proof -
  define b1 where "b1 = b\<lparr>uw_pcBuf := (uw_pcBuf b)[0 := pc], uw_fpBuf := (uw_fpBuf b)[0 := fp],
    uw_numFrames := Suc 0\<rparr>"
  define fs where "fs = frames mem fp 511"
  define b2 where "b2 = walk_loop mem fp b1"
  define n where "n = 1 + length fs"
  have b1: "uw_ok b1" "uw_numFrames b1 = 1" "uw_base b1 = uw_base b" "maxStackFrames - 1 = 511" "1 \<le> maxStackFrames"
    using assms(1) by (simp_all add: b1_def uw_ok_def maxStackFrames_def)
  have t1: "take 1 (uw_pcBuf b1) = [pc]" "take 1 (uw_fpBuf b1) = [fp]"
    using assms(1) by (cases "uw_pcBuf b"; cases "uw_fpBuf b"; simp add: b1_def uw_ok_def maxStackFrames_def)+
  have loop: "uw_ok b2" "uw_base b2 = uw_base b" "uw_numFrames b2 = n" "n \<le> maxStackFrames"
    "take n (uw_pcBuf b2) = pc # map cf_pc fs" "take n (uw_fpBuf b2) = fp # map cf_fp fs"
    using walk_loop_frames [OF b1(1), of mem fp] b1 t1
    by (simp_all add: Let_def b2_def fs_def n_def)
  define pcBuf where "pcBuf = foldl (\<lambda>xs i. xs[i := xs ! i - uw_base b2]) (uw_pcBuf b2) [0..<n]"
  have n: "n \<le> length (uw_pcBuf b2)" "n \<le> length (uw_fpBuf b2)" using loop(1,4) by (simp_all add: uw_ok_def)
  have pcb: "pcBuf = map (\<lambda>p. p - uw_base b2) (take n (uw_pcBuf b2)) @ drop n (uw_pcBuf b2)"
    unfolding pcBuf_def using n(1) by (rule foldl_update_map)
  then have pcs: "take n pcBuf = map (\<lambda>p. p - uw_base b) (pc # map cf_pc fs)"
    using n(1) loop(2) unfolding pcb loop(5) [symmetric] by simp
  define fps where "fps = adjustCFA arch (take n (uw_fpBuf b2)) stktop"
  have fps: "fps = cfa_spec arch (fp # map cf_fp fs) stktop"
    unfolding fps_def loop(6) by (rule adjustCFA_spec) simp
  define b3 where "b3 = b2\<lparr>uw_pcBuf := pcBuf, uw_fpBuf := fps @ drop n (uw_fpBuf b2)\<rparr>"
  have "length fps = n" by (simp add: fps cfa_spec_def n_def)
  then have ok: "uw_ok b3" using loop(1) n by (simp add: b3_def pcb uw_ok_def)
  have "walkStack arch mem pc fp stktop b = ((take n pcBuf, fps), b3)"
    using assms(2) by (simp add: walkStack_def Let_def b1_def [symmetric] b2_def [symmetric] loop(3)
        pcBuf_def fps_def b3_def)
  then show ?thesis
    using pcs fps ok loop(2) length_frames [of mem fp 511]
    by (intro exI [of _ b3]) (simp add: b3_def fs_def)
qed

text \<open>One record at 4096, of a root frame.\<close>

definition example_frames_mem :: memory where
  "example_frames_mem a =
     (if a = 4105 then Some 64 else if 4096 \<le> a \<and> a < 4112 then Some 0 else None)"

lemma frames_step:
  "0 < n \<Longrightarrow> frames mem fp n =
     (if fp = 0 then []
      else
        (case Dereference mem fp sizeof_callFrame of
           None \<Rightarrow> []
         | Some bs \<Rightarrow> callFrame_of bs # frames mem (cf_fp (callFrame_of bs)) (n - 1)))"
  by (cases n) (auto split: option.split)

theorem walkStack_frames_witness:
  "\<exists>b'. walkStack Amd64 example_frames_mem 20496 4096 0 (newUnwinder 4096) =
      (([16400, 12288], [4112, 16]), b')"
proof -
  have "Dereference example_frames_mem 4096 16 = Some [0, 0, 0, 0, 0, 0, 0, 0, 0, 64, 0, 0, 0, 0, 0, 0]"
    by (simp add: Dereference_def read_bytes_step example_frames_mem_def)
  then have "frames example_frames_mem 4096 511 = [\<lparr>cf_fp = 0, cf_pc = 16384\<rparr>]"
    by (simp add: frames_step sizeof_callFrame_def callFrame_of_def sub_def)
  with walkStack_frames [OF uw_ok_new [of 4096], of 4096 Amd64 example_frames_mem 20496 0]
  show ?thesis by (auto simp: newUnwinder_def cfa_spec_def)
qed

text \<open>
  A goroutine without a frame pointer is reported differently: \<open>walkStack\<close> then returns the program
  counter as it is, not relative to the text base, and the frame address without the adjustment of the
  platform.
\<close>

theorem walkStack_nil_not_rebased:
  assumes "uw_ok b"
  shows "fst (walkStack arch mem pc 0 stktop b) = ([pc], [0])"
  using assms
  by (cases "uw_pcBuf b"; cases "uw_fpBuf b"; simp add: walkStack_def uw_ok_def maxStackFrames_def Let_def)

theorem walkStack_nil_not_rebased_witness:
  "fst (walkStack Amd64 example_frames_mem 20496 0 0 (newUnwinder 4096)) = ([20496], [0])"
  by (rule walkStack_nil_not_rebased [OF uw_ok_new])

end
