(* ===== verification/Murmur.thy ===== *)
theory Murmur
  imports Side_Eye_Prelude
begin

text \<open>
  The hash of a stack (\<open>murmur2\<close> of \<open>internal/snapshot/snapshot.go\<close>), by which the snapshot recognizes a
  stack it has already written. Every round is a bijection of the 64-bit words, in the hash and in the
  program counter; so two stacks that differ in one program counter never collide.
\<close>

definition murmur_m :: u64 where
  "murmur_m = 0xc6a4a7935bd1e995"

definition murmur_mix :: "u64 \<Rightarrow> u64" where
  "murmur_mix k0 =
     (let k1 = k0 * murmur_m;
          k2 = k1 XOR drop_bit 47 k1
      in k2 * murmur_m)"

definition murmur_round :: "u64 \<Rightarrow> u64 \<Rightarrow> u64" where
  "murmur_round h pc = (h XOR murmur_mix pc) * murmur_m"

definition murmur2 :: "u64 list \<Rightarrow> u64 \<Rightarrow> u64" where
  "murmur2 stack seed = foldl murmur_round (seed XOR (of_nat (length stack) * murmur_m)) stack"

subsection \<open>Every round is invertible\<close>

definition murmur_m_inv :: u64 where
  "murmur_m_inv = 0x5f7a0ea7e59b19bd"

lemma murmur_m_inv: "murmur_m * murmur_m_inv = 1"
  by (simp add: murmur_m_def murmur_m_inv_def)

lemma mult_m_inject: "a * murmur_m = b * murmur_m \<longleftrightarrow> a = b"
proof
  assume "a * murmur_m = b * murmur_m"
  then have "a * murmur_m * murmur_m_inv = b * murmur_m * murmur_m_inv" by simp
  then show "a = b" by (simp add: mult.assoc murmur_m_inv)
qed simp

lemma xorshift_involution:
  fixes k :: u64
  defines "s \<equiv> (\<lambda>k :: u64. k XOR drop_bit 47 k)"
  shows "s (s k) = k"
  unfolding s_def by (rule bit_word_eqI) (auto simp: bit_simps)

lemma xorshift_inject: "k XOR drop_bit 47 k = l XOR drop_bit 47 l \<longleftrightarrow> k = (l :: u64)"
  using xorshift_involution [of k] xorshift_involution [of l] by metis

lemma murmur_mix_inject: "murmur_mix k = murmur_mix l \<longleftrightarrow> k = l"
  by (simp add: murmur_mix_def Let_def mult_m_inject xorshift_inject)

lemma xor_cancel: "h XOR a = h XOR b \<longleftrightarrow> a = (b :: u64)"
proof
  assume "h XOR a = h XOR b"
  then have "h XOR (h XOR a) = h XOR (h XOR b)" by simp
  then show "a = b" by (simp flip: xor.assoc)
qed simp

lemma murmur_round_inject_pc: "murmur_round h k = murmur_round h l \<longleftrightarrow> k = l"
  by (simp add: murmur_round_def mult_m_inject xor_cancel murmur_mix_inject)

lemma murmur_round_inject_hash: "murmur_round g k = murmur_round h k \<longleftrightarrow> g = h"
  by (simp add: murmur_round_def mult_m_inject xor.commute [of _ "murmur_mix k"] xor_cancel)

lemma murmur_rounds_inject: "foldl murmur_round g xs = foldl murmur_round h xs \<longleftrightarrow> g = h"
  by (induction xs arbitrary: g h) (simp_all add: murmur_round_inject_hash)

text \<open>
  Two stacks of the same depth that agree in all but one program counter have the same hash only if
  they are equal; and for every stack the hash is a bijection of the seed.
\<close>

theorem murmur2_separates:
  "(murmur2 (xs @ a # ys) seed = murmur2 (xs @ b # ys) seed \<longleftrightarrow> a = b) \<and>
   (murmur2 zs seed = murmur2 zs seed' \<longleftrightarrow> seed = seed')"
proof
  show "murmur2 (xs @ a # ys) seed = murmur2 (xs @ b # ys) seed \<longleftrightarrow> a = b"
    by (simp add: murmur2_def murmur_rounds_inject murmur_round_inject_pc)
  show "murmur2 zs seed = murmur2 zs seed' \<longleftrightarrow> seed = seed'"
    by (simp add: murmur2_def murmur_rounds_inject xor.commute [of _ "of_nat (length zs) * murmur_m"] xor_cancel)
qed

end
