(* ===== verification/Allgs.thy ===== *)
theory Allgs
  imports Type_Resolver
begin

text \<open>
  Reading the runtime's goroutines out of memory (\<open>internal/allgs\<close>): the accessors of a \<open>g\<close> at the offsets
  the configuration gives, the iteration over \<open>runtime.allgs\<close>, and the names of the statuses. The reads
  are plain loads: a bad address is a segmentation fault.
\<close>

subsection \<open>Statuses\<close>

type_synonym Status = u32

definition Status_Gidle :: Status where "Status_Gidle = 0"
definition Status_Grunnable :: Status where "Status_Grunnable = 1"
definition Status_Grunning :: Status where "Status_Grunning = 2"
definition Status_Gsyscall :: Status where "Status_Gsyscall = 3"
definition Status_Gwaiting :: Status where "Status_Gwaiting = 4"
definition Status_Gmoribund_unused :: Status where "Status_Gmoribund_unused = 5"
definition Status_Gdead :: Status where "Status_Gdead = 6"
definition Genqueue_unused :: Status where "Genqueue_unused = 7"
definition Status_Gcopystack :: Status where "Status_Gcopystack = 8"
definition Status_Gpreempted :: Status where "Status_Gpreempted = 9"
definition Status_Gscan :: Status where "Status_Gscan = 0x1000"
definition Status_Gscanrunnable :: Status where "Status_Gscanrunnable = Status_Gscan + Status_Grunnable"
definition Status_Gscanrunning :: Status where "Status_Gscanrunning = Status_Gscan + Status_Grunning"
definition Status_Gscansyscall :: Status where "Status_Gscansyscall = Status_Gscan + Status_Gsyscall"
definition Status_Gscanwaiting :: Status where "Status_Gscanwaiting = Status_Gscan + Status_Gwaiting"
definition Status_Gscanpreempted :: Status where "Status_Gscanpreempted = Status_Gscan + Status_Gpreempted"

lemmas Status_defs =
  Status_Gidle_def Status_Grunnable_def Status_Grunning_def Status_Gsyscall_def Status_Gwaiting_def
  Status_Gdead_def Status_Gcopystack_def Status_Gpreempted_def Status_Gscan_def

text \<open>An array literal with keys: ten strings, those without a key empty.\<close>

definition gStatusStrings :: "string list" where
  "gStatusStrings =
     [''idle'', ''runnable'', ''running'', ''syscall'', ''waiting'', '''', ''dead'', '''', ''copystack'',
      ''preempted'']"

definition Status_String :: "Status \<Rightarrow> string res" where
  "Status_String s =
     (if unat s < length gStatusStrings then Inr (gStatusStrings ! unat s) else Inl IndexOutOfRange)"

subsection \<open>Goroutines\<close>

record Goroutine =
  g_gPtr :: u64
  g_config :: RuntimeConfig

definition g_PC :: "memory \<Rightarrow> Goroutine \<Rightarrow> u64 res" where
  "g_PC mem g = load_u64 mem (g_gPtr g + ucast (rc_GGoBufPcOffset (g_config g)))"

definition g_BP :: "memory \<Rightarrow> Goroutine \<Rightarrow> u64 res" where
  "g_BP mem g = load_u64 mem (g_gPtr g + ucast (rc_GGoBufBpOffset (g_config g)))"

definition g_SyscallPC :: "memory \<Rightarrow> Goroutine \<Rightarrow> u64 res" where
  "g_SyscallPC mem g = load_u64 mem (g_gPtr g + ucast (rc_GSyscallPcOffset (g_config g)))"

definition g_Goid :: "memory \<Rightarrow> Goroutine \<Rightarrow> u64 res" where
  "g_Goid mem g = load_u64 mem (g_gPtr g + ucast (rc_GGoidOffset (g_config g)))"

definition g_Status :: "memory \<Rightarrow> Goroutine \<Rightarrow> Status res" where
  "g_Status mem g = load_u32 mem (g_gPtr g + ucast (rc_GAtomicstatusOffset (g_config g)))"

definition g_Stktopsp :: "memory \<Rightarrow> Goroutine \<Rightarrow> u64 res" where
  "g_Stktopsp mem g = load_u64 mem (g_gPtr g + ucast (rc_GStktopspOffset (g_config g)))"

text \<open>The arguments that \<open>String\<close> gives to \<open>Sprintf\<close>.\<close>

definition g_String :: "memory \<Rightarrow> Goroutine \<Rightarrow> (u64 \<times> string) res" where
  "g_String mem g =
     bindE (g_Goid mem g) (\<lambda>goid.
     bindE (g_Status mem g) (\<lambda>status.
     bindE (Status_String status) (\<lambda>name.
     Inr (goid, name))))"

subsection \<open>The iteration\<close>

record GoroutineIterator =
  it_allGs :: u64
  it_cfg :: RuntimeConfig

datatype iterator_error = InvalidRuntimeConfig

definition NewGoroutineIterator :: "RuntimeConfig \<Rightarrow> u64 \<Rightarrow> iterator_error + GoroutineIterator" where
  "NewGoroutineIterator cfg bssAddrShift =
     (if rc_VariableRuntimeDotAllgs cfg = 0 \<or> rc_GoRuntimeBssAddress cfg = 0 \<or>
         rc_VariableRuntimeDotAllgs cfg < rc_GoRuntimeBssAddress cfg
      then Inl InvalidRuntimeConfig
      else Inr \<lparr>it_allGs = rc_VariableRuntimeDotAllgs cfg + bssAddrShift, it_cfg = cfg\<rparr>)"

text \<open>
  \<open>allGs := *(*[]uintptr)(it.allGs)\<close> copies the slice header: pointer, length and capacity. The length is a
  signed integer: a negative one gives no iteration. The loop
  reads one element per iteration. \<open>f\<close> transforms the state of the closure.
\<close>

primrec iterate_from ::
  "memory \<Rightarrow> RuntimeConfig \<Rightarrow> (Goroutine \<Rightarrow> 's \<Rightarrow> ('s res) option) \<Rightarrow> u64 \<Rightarrow> nat \<Rightarrow> 's \<Rightarrow> ('s res) option" where
  "iterate_from mem cfg f p 0 s = Some (Inr s)"
| "iterate_from mem cfg f p (Suc n) s =
     bindO (Some (load_u64 mem p)) (\<lambda>gPtr.
     bindO (f \<lparr>g_gPtr = gPtr, g_config = cfg\<rparr> s) (\<lambda>s1.
     iterate_from mem cfg f (p + 8) n s1))"

definition Iterate ::
  "memory \<Rightarrow> GoroutineIterator \<Rightarrow> (Goroutine \<Rightarrow> 's \<Rightarrow> ('s res) option) \<Rightarrow> 's \<Rightarrow> ('s res) option" where
  "Iterate mem it f s =
     bindO (Some (load_u64 mem (it_allGs it))) (\<lambda>p.
     bindO (Some (load_u64 mem (it_allGs it + 8))) (\<lambda>len.
     bindO (Some (load_u64 mem (it_allGs it + 16))) (\<lambda>_.
     iterate_from mem (it_cfg it) f p (nat (sint len)) s)))"

subsection \<open>Properties\<close>

lemma iterate_from_ok:
  assumes "\<And>g s. P s \<Longrightarrow> okO P (f g s)"
  shows "P s \<Longrightarrow> okO P (iterate_from mem cfg f p n s)"
proof (induction n arbitrary: p s)
  case (Suc n)
  show ?case
    by (cases "load_u64 mem p") (auto intro!: okO_bind [OF assms] Suc)
qed simp

lemma Iterate_ok:
  assumes "\<And>g s. P s \<Longrightarrow> okO P (f g s)" "P s"
  shows "okO P (Iterate mem it f s)"
proof -
  have "okO P (bindO (Some m) h)" if "\<And>x. okO P (h x)" for m :: "u64 res" and h
    using that by (cases m) simp_all
  moreover have "okO P (iterate_from mem (it_cfg it) f p n s)" for p n
    by (rule iterate_from_ok) (use assms in blast)+
  ultimately show ?thesis unfolding Iterate_def by simp
qed

text \<open>The goroutines of a slice of pointers in memory, in order.\<close>

definition slice_at :: "memory \<Rightarrow> u64 \<Rightarrow> u64 list \<Rightarrow> bool" where
  "slice_at mem p gs \<longleftrightarrow> (\<forall>i < length gs. load_u64 mem (p + 8 * of_nat i) = Inr (gs ! i))"

lemma slice_at_Cons: "slice_at mem p (g # gs) \<longleftrightarrow> load_u64 mem p = Inr g \<and> slice_at mem (p + 8) gs"
proof -
  have all: "(\<forall>i < Suc n. P i) \<longleftrightarrow> P 0 \<and> (\<forall>i < n. P (Suc i))" for P :: "nat \<Rightarrow> bool" and n
    by (metis Suc_less_eq not0_implies_Suc zero_less_Suc)
  show ?thesis by (simp add: slice_at_def all distrib_left add.assoc)
qed

lemma iterate_from_slice:
  "slice_at mem p gs \<Longrightarrow> iterate_from mem cfg f p (length gs) s =
    fold (\<lambda>g r. bindO r (f \<lparr>g_gPtr = g, g_config = cfg\<rparr>)) gs (Some (Inr s))"
proof (induction gs arbitrary: p s)
  case (Cons g gs)
  have err: "fold (\<lambda>g r. bindO r (f \<lparr>g_gPtr = g, g_config = cfg\<rparr>)) gs (Some (Inl e)) = Some (Inl e)"
    "fold (\<lambda>g r. bindO r (f \<lparr>g_gPtr = g, g_config = cfg\<rparr>)) gs None = None" for e
    by (induction gs) simp_all
  show ?case
  proof (cases "f \<lparr>g_gPtr = g, g_config = cfg\<rparr> s")
    case (Some r)
    with Cons err show ?thesis by (cases r) (simp_all add: slice_at_Cons)
  qed (use Cons err in \<open>simp add: slice_at_Cons\<close>)
qed simp

text \<open>
  The iterator visits every goroutine once, in the order of \<open>runtime.allgs\<close>: for a configuration that
  \<open>NewGoroutineIterator\<close> accepts, if the slice header at the shifted address of \<open>allgs\<close> and the pointers
  it spans can be read, \<open>Iterate\<close> runs the function on exactly these pointers, one after the other, until
  one of them faults or does not return.
\<close>

theorem Iterate_visits_allgs:
  assumes "NewGoroutineIterator cfg shift = Inr it"
    and "load_u64 mem (rc_VariableRuntimeDotAllgs cfg + shift) = Inr p"
    and "load_u64 mem (rc_VariableRuntimeDotAllgs cfg + shift + 8) = Inr (of_nat (length gs))"
    and "load_u64 mem (rc_VariableRuntimeDotAllgs cfg + shift + 16) = Inr cap"
    and "slice_at mem p gs" "length gs < 2 ^ 63"
  shows "Iterate mem it f s =
    fold (\<lambda>g r. bindO r (f \<lparr>g_gPtr = g, g_config = cfg\<rparr>)) gs (Some (Inr s))"
proof -
  have it: "it = \<lparr>it_allGs = rc_VariableRuntimeDotAllgs cfg + shift, it_cfg = cfg\<rparr>"
    using assms(1) by (auto simp: NewGoroutineIterator_def split: if_splits)
  have "sint (of_nat (length gs) :: u64) = int (length gs)"
    using assms(6) by (simp add: signed_of_nat signed_take_bit_int_eq_self)
  then show ?thesis
    using assms(2-4) iterate_from_slice [OF assms(5)] by (simp add: it Iterate_def)
qed

definition example_allgs_mem :: memory where
  "example_allgs_mem a =
     (if a = 256 then Some 128 else if a = 264 then Some 2 else if a = 272 then Some 4
      else if a = 128 then Some 1 else if a = 136 then Some 2
      else if a < 512 then Some 0 else None)"

definition example_cfg :: RuntimeConfig where
  "example_cfg = zero_RuntimeConfig\<lparr>rc_VariableRuntimeDotAllgs := 240, rc_GoRuntimeBssAddress := 16\<rparr>"

theorem Iterate_visits_allgs_witness:
  "\<exists>it. NewGoroutineIterator example_cfg 16 = Inr it \<and>
     Iterate example_allgs_mem it (\<lambda>g s. Some (Inr (s @ [g_gPtr g]))) [] = Some (Inr [1, 2])"
proof -
  have h1: "NewGoroutineIterator example_cfg 16 = Inr \<lparr>it_allGs = 256, it_cfg = example_cfg\<rparr>"
    by (simp add: NewGoroutineIterator_def example_cfg_def)
  have v: "rc_VariableRuntimeDotAllgs example_cfg + 16 = 256" by (simp add: example_cfg_def)
  have l: "load_u64 example_allgs_mem a = Inr w" if "read_bytes example_allgs_mem a 8 = Some bs" "le_word bs = w" for a bs w
    using that by (simp add: load_u64_def)
  have h2: "load_u64 example_allgs_mem 256 = Inr 128"
    "load_u64 example_allgs_mem (256 + 8) = Inr (of_nat (length [1 :: u64, 2]))"
    "load_u64 example_allgs_mem (256 + 16) = Inr 4" "slice_at example_allgs_mem 128 [1, 2]"
    by (simp_all add: load_u64_def read_bytes_step example_allgs_mem_def slice_at_Cons)
      (simp add: slice_at_def)
  from Iterate_visits_allgs [OF h1, unfolded v, OF h2, of "\<lambda>g s. Some (Inr (s @ [g_gPtr g]))" "[]"] h1
  show ?thesis by simp
qed

lemma scan_bit_large: "\<not> unat (s OR Status_Gscan) < 10"
proof -
  have "bit (s OR Status_Gscan) 12" by (simp add: Status_Gscan_def bit_simps)
  then have "bit (unat (s OR Status_Gscan)) 12" by (simp add: bit_unsigned_iff)
  then have "odd (unat (s OR Status_Gscan) div 2 ^ 12)" by (simp add: bit_iff_odd)
  then show ?thesis by (intro notI) (simp add: div_less)
qed

text \<open>
  Printing a goroutine can panic: \<open>Status.String\<close> gives a name for the statuses below 10, and is an
  index out of range for every status with the scan bit, which a goroutine has while the garbage
  collector scans its stack.
\<close>

theorem Status_String_panics:
  "((\<exists>name. Status_String s = Inr name) \<longleftrightarrow> s < 10) \<and>
   Status_String (s OR Status_Gscan) = Inl IndexOutOfRange"
  using scan_bit_large [of s]
  by (simp add: Status_String_def gStatusStrings_def word_less_nat_alt)

lemma status_names:
  "map Status_String
     [Status_Gidle, Status_Grunnable, Status_Grunning, Status_Gsyscall, Status_Gwaiting, Status_Gmoribund_unused,
      Status_Gdead, Genqueue_unused, Status_Gcopystack, Status_Gpreempted] =
   map Inr [''idle'', ''runnable'', ''running'', ''syscall'', ''waiting'', '''', ''dead'', '''', ''copystack'', ''preempted'']"
  by code_simp

lemma scan_statuses:
  "s \<in> {Status_Gscanrunnable, Status_Gscanrunning, Status_Gscansyscall, Status_Gscanwaiting, Status_Gscanpreempted} \<Longrightarrow>
     s AND NOT Status_Gscan \<in> {Status_Grunnable, Status_Grunning, Status_Gsyscall, Status_Gwaiting, Status_Gpreempted} \<and>
     Status_String s = Inl IndexOutOfRange"
  by (auto simp: Status_Gscanrunnable_def Status_Gscanrunning_def Status_Gscansyscall_def Status_Gscanwaiting_def
      Status_Gscanpreempted_def Status_defs Status_String_def gStatusStrings_def)

end
