(* ===== verification/Boot_Time.thy ===== *)
theory Boot_Time
  imports Main
begin

text \<open>
  The approximate boot time (\<open>internal/boottime\<close>). \<open>CLOCK_REALTIME\<close>, \<open>CLOCK_MONOTONIC\<close>, \<open>time.Now\<close> and
  \<open>runtime.nanotime\<close> are inputs. A \<open>time.Time\<close> is its number of nanoseconds since the epoch.
\<close>

datatype boot_error = ErrNotImplemented

record Timespec =
  ts_Sec :: int
  ts_Nsec :: int

definition time_Unix :: "int \<Rightarrow> int \<Rightarrow> int" where
  "time_Unix sec nsec = sec * 1000000000 + nsec"

definition bootTime_linux :: "Timespec \<Rightarrow> Timespec \<Rightarrow> boot_error + int" where
  "bootTime_linux monotonic wallTime =
     (let nanos = ts_Nsec wallTime - ts_Nsec monotonic;
          secs = ts_Sec wallTime - ts_Sec monotonic
      in Inr (time_Unix secs nanos))"

definition bootTime_darwin :: "int \<Rightarrow> int \<Rightarrow> boot_error + int" where
  "bootTime_darwin now nanotime = Inr (now - nanotime)"

definition bootTime_other :: "boot_error + int" where
  "bootTime_other = Inl ErrNotImplemented"

datatype clocks = LinuxClocks Timespec Timespec | DarwinClocks int int | OtherClocks

fun BootTime :: "clocks \<Rightarrow> boot_error + int" where
  "BootTime (LinuxClocks monotonic wallTime) = bootTime_linux monotonic wallTime"
| "BootTime (DarwinClocks now nanotime) = bootTime_darwin now nanotime"
| "BootTime OtherClocks = bootTime_other"

text \<open>What a reading of the monotonic clock and of the wall clock at the same moment say.\<close>

fun monotonic_ns :: "clocks \<Rightarrow> int" where
  "monotonic_ns (LinuxClocks m w) = time_Unix (ts_Sec m) (ts_Nsec m)"
| "monotonic_ns (DarwinClocks now nanotime) = nanotime"
| "monotonic_ns OtherClocks = 0"

fun wall_ns :: "clocks \<Rightarrow> int" where
  "wall_ns (LinuxClocks m w) = time_Unix (ts_Sec w) (ts_Nsec w)"
| "wall_ns (DarwinClocks now nanotime) = now"
| "wall_ns OtherClocks = 0"

lemma BootTime_plus_monotonic: "BootTime c = Inr t \<Longrightarrow> t + monotonic_ns c = wall_ns c"
  by (cases c) (auto simp: bootTime_linux_def bootTime_darwin_def bootTime_other_def time_Unix_def algebra_simps)

lemma BootTime_error: "BootTime c = Inl e \<longleftrightarrow> c = OtherClocks \<and> e = ErrNotImplemented"
  by (cases c) (auto simp: bootTime_linux_def bootTime_darwin_def bootTime_other_def)

end
