(* ===== verification/Snapshot.thy ===== *)
theory Snapshot
  imports Go_Context Unwinder Murmur Allgs Boot_Time
begin

text \<open>
  Taking a snapshot (\<open>internal/snapshot/snapshot.go\<close>): the goroutines with their stacks, then the objects
  reachable from the frames of interest, in the order of the work queue.

  \<open>snapshotter\<close> has the machine in it, and the machine the buffer, the queue and the type resolver that
  both work on. \<open>run_env\<close> (theory Stack_Machine) holds what is read only: the program, the type ids, the
  memory and the address of the first module. A computation that may not return (the loop over Go
  contexts) has an option around its result.
\<close>

subsection \<open>The snapshotter\<close>

record frameOfInterest =
  foi_idx :: u32
  foi_pc :: u32

record snapshotter =
  sn_stacks :: "u64 \<rightharpoonup> frameOfInterest list"
  sn_unwinder :: unwinder
  sn_sm :: machine

definition sn_out :: "snapshotter \<Rightarrow> outBuf" where
  "sn_out s = sm_b (sn_sm s)"

definition sn_set_sm :: "machine \<Rightarrow> snapshotter \<Rightarrow> snapshotter" where
  "sn_set_sm m s = s\<lparr>sn_sm := m\<rparr>"

definition sn_set_out :: "outBuf \<Rightarrow> snapshotter \<Rightarrow> snapshotter" where
  "sn_set_out b s = s\<lparr>sn_sm := (sn_sm s)\<lparr>sm_b := b\<rparr>\<rparr>"

definition sn_buf :: "(outBuf \<Rightarrow> outBuf res) \<Rightarrow> snapshotter \<Rightarrow> snapshotter res" where
  "sn_buf f s = bindE (f (sn_out s)) (\<lambda>b. Inr (sn_set_out b s))"

definition newSnapshotter :: "SnapshotProgram \<Rightarrow> u64 \<Rightarrow> u64 \<Rightarrow> snapshotter res" where
  "newSnapshotter p dereferenceAddr md =
     bindE (ofOption NilDeref (sp_RuntimeConfig p)) (\<lambda>cfg.
     let out = makeOutBuf (push_bit 20 1);
         base = ComputeTextSectionBaseOffset dereferenceAddr cfg;
         g = makeGoRuntimeTypeResolver cfg md
     in Inr \<lparr>sn_stacks = Map.empty, sn_unwinder = newUnwinder base,
             sn_sm = newStackMachine p makeQueue out g\<rparr>)"

definition snapshot_env :: "SnapshotProgram \<Rightarrow> memory \<Rightarrow> u64 \<Rightarrow> run_env" where
  "snapshot_env p mem md =
     \<lparr>en_p = p, en_t = sp_GoRuntimeTypeToTypeId p, en_mem = mem, en_md = md\<rparr>"

subsection \<open>Classifying the frames of a stack\<close>

text \<open>
  The program counters of a stack, from index \<open>i\<close> on: those whose range has a program, with the program.
  \<open>TargetPc\<close> holds the ends of the ranges, \<open>ProgPc\<close> the programs, 0 for none.
\<close>

fun classifyFrames :: "PcClassifier \<Rightarrow> nat \<Rightarrow> u64 list \<Rightarrow> (frameOfInterest list) res" where
  "classifyFrames pcc i [] = Inr []"
| "classifyFrames pcc i (pc # pcs) =
     (let j = sort_search (length (pcc_TargetPc pcc)) (\<lambda>j. pc \<le> pcc_TargetPc pcc ! j) in
      if j < length (pcc_TargetPc pcc) then
        bindE (guardE IndexOutOfRange (j < length (pcc_ProgPc pcc))) (\<lambda>_.
        bindE (classifyFrames pcc (i + 1) pcs) (\<lambda>fs.
        Inr (if pcc_ProgPc pcc ! j \<noteq> 0 then \<lparr>foi_idx = of_nat i, foi_pc = pcc_ProgPc pcc ! j\<rparr> # fs else fs)))
      else classifyFrames pcc (i + 1) pcs)"

text \<open>The programs of the frames, root first as they are taken from the end; a failure ends them.\<close>

fun runFrames :: "run_env \<Rightarrow> u64 list \<Rightarrow> frameOfInterest list \<Rightarrow> machine \<Rightarrow> (machine res) option" where
  "runFrames en fps [] m = Some (Inr m)"
| "runFrames en fps (foi # fois) m =
     bindO (Some (guardE IndexOutOfRange (unat (foi_idx foi) < length fps))) (\<lambda>_.
     bindO (Run en (foi_pc foi) (fps ! unat (foi_idx foi)) (foi_idx foi) (Len (sm_b m)) m) (\<lambda>(ok, m1).
     if ok then runFrames en fps fois m1 else Some (Inr m1)))"

subsection \<open>One goroutine\<close>

definition incr32 :: "nat \<Rightarrow> snapshotter \<Rightarrow> snapshotter res" where
  "incr32 p s =
     bindE (ob_load32 p (sn_out s)) (\<lambda>v. sn_buf (ob_store32 p (v + 1)) s)"

text \<open>
  The stack of a goroutine whose hash is new is written and classified; that of a known hash is not.
  \<open>None\<close>: there was no room, and \<open>snapshotGoroutine\<close> returns.
\<close>

definition recordStack ::
  "SnapshotProgram \<Rightarrow> u64 \<Rightarrow> u64 list \<Rightarrow> snapshotter \<Rightarrow> ((u32 \<times> frameOfInterest list) option \<times> snapshotter) res" where
  "recordStack p stackHash pcs s =
     (case sn_stacks s stackHash of
        Some fois \<Rightarrow> Inr (Some (0, fois), s)
      | None \<Rightarrow>
          bindE (writeStack pcs (sn_out s)) (\<lambda>((stackBytes, ok), b).
          let s1 = sn_set_out b s in
          if \<not> ok then Inr (None, s1)
          else
            bindE (if pcs = [] then Inr []
                   else bindE (ofOption NilDeref (sp_PcClassifier p)) (\<lambda>pcc. classifyFrames pcc 0 pcs))
              (\<lambda>fois.
            Inr (Some (stackBytes, fois), s1\<lparr>sn_stacks := (sn_stacks s1)(stackHash \<mapsto> fois)\<rparr>))))"

definition snapshotGoroutine ::
  "run_env \<Rightarrow> goarch \<Rightarrow> nat \<Rightarrow> Goroutine \<Rightarrow> snapshotter \<Rightarrow> (snapshotter res) option" where
  "snapshotGoroutine en arch hdr g s =
     (if full (sn_out s) then Some (Inr s)
      else
        bindO (Some (g_Status (en_mem en) g)) (\<lambda>st.
        let status = st AND NOT Status_Gscan in
        if status = Status_Gdead then Some (incr32 (hdr + off_sh_NonLiveGoroutines) s)
        else if status = Status_Grunning then Some (Inr s)
        else
          bindO (Some (incr32 (hdr + off_sh_NumGoroutines) s)) (\<lambda>s1.
          bindO (Some (g_PC (en_mem en) g)) (\<lambda>pc.
          bindO (Some (g_BP (en_mem en) g)) (\<lambda>bp.
          bindO (Some (g_Stktopsp (en_mem en) g)) (\<lambda>stktopsp.
          let ((pcs, fps), uw) = walkStack arch (en_mem en) pc bp stktopsp (sn_unwinder s1);
              s2 = s1\<lparr>sn_unwinder := uw\<rparr>;
              stackHash = murmur2 pcs 0;
              (gh, b3) = writeGoroutineHeader (sn_out s2);
              s3 = sn_set_out b3 s2
          in
          case gh of
            None \<Rightarrow> Some (Inr s3)
          | Some ghp \<Rightarrow>
              (let afterHeader = Len (sn_out s3) in
               bindO (Some (recordStack (en_p en) stackHash pcs s3)) (\<lambda>(rec, s4).
               case rec of
                 None \<Rightarrow> Some (Inr s4)
               | Some (stackBytes, fois) \<Rightarrow>
                   bindO (runFrames en fps (rev fois) (sn_sm s4)) (\<lambda>m.
                   let s5 = sn_set_sm m s4 in
                   bindO (Some (g_Goid (en_mem en) g)) (\<lambda>goid.
                   Some (sn_buf (ob_store ghp (GoroutineHeader_bytes
                     \<lparr>gh_Goid = goid, gh_StackHash = stackHash, gh_Status = status, gh_WaitReason = 0,
                      gh_WaitSinceNanos = 0, gh_StackBytes = stackBytes,
                      gh_DataByteLen = Len (sn_out s5) - afterHeader\<rparr>)) s5)))))))))))"

text \<open>The closure that \<open>Snapshot\<close> gives to \<open>Iterate\<close>: what a goroutine wrote into a full buffer is dropped.\<close>

definition visitGoroutine ::
  "run_env \<Rightarrow> goarch \<Rightarrow> nat \<Rightarrow> Goroutine \<Rightarrow> snapshotter \<Rightarrow> (snapshotter res) option" where
  "visitGoroutine en arch hdr g s =
     (let before = Len (sn_out s) in
      bindO (snapshotGoroutine en arch hdr g s) (\<lambda>s1.
      if full (sn_out s1) then Some (sn_buf (Out_Buf.truncate before) s1) else Some (Inr s1)))"

subsection \<open>The queue\<close>

text \<open>The length to capture: that of the entry if it has one, at most that of the type.\<close>

definition clampLen :: "u32 \<Rightarrow> u32 \<Rightarrow> u32" where
  "clampLen entryLen typeLen =
     (let l = (if entryLen = 0 then typeLen else entryLen) in if l > typeLen then typeLen else l)"

definition captureEntry :: "run_env \<Rightarrow> QueueEntry \<Rightarrow> machine \<Rightarrow> (machine res) option" where
  "captureEntry en entry0 m =
     (case sp_TypeInfo (en_p en) (qe_Type entry0) of
        None \<Rightarrow> Some (Inr m)
      | Some ti \<Rightarrow>
          (let entry = entry0\<lparr>qe_Len := clampLen (qe_Len entry0) (ti_ByteLen ti)\<rparr> in
           if qe_Len entry = 0 then Some (Inr m)
           else
             bindO (Some (if ti_SerializeBeforeEnqueue ti then m_bufr (writeQueueEntry (en_mem en) entry) m
                          else Inr ((0, True), m))) (\<lambda>((offset, ok), m1).
             if \<not> ok then Some (Inr m1)
             else if ti_EnqueuePc ti = 0 then Some (Inr m1)
             else
               bindO (Run en (ti_EnqueuePc ti) 0 0 offset (m1\<lparr>sm_chasedEntry := entry\<rparr>)) (\<lambda>(_, m2).
               Some (Inr m2)))))"

definition processStep :: "run_env \<Rightarrow> machine \<Rightarrow> ((bool \<times> machine) res) option" where
  "processStep en m =
     (if full (sm_b m) then Some (Inr (False, m))
      else
        bindO (Some (queue_Pop (sm_q m))) (\<lambda>(r, q).
        let m1 = m\<lparr>sm_q := q\<rparr> in
        case r of
          None \<Rightarrow> Some (Inr (False, m1))
        | Some entry \<Rightarrow> bindO (captureEntry en entry m1) (\<lambda>m2. Some (Inr (True, m2)))))"

definition processQueue :: "run_env \<Rightarrow> machine \<Rightarrow> (machine res) option" where
  "processQueue en = loopR (processStep en)"

subsection \<open>The snapshot\<close>

record SnapshotResponse =
  sr_Data :: "u8 list"
  sr_Timestamp :: int
  sr_PauseDurationNs :: u64
  sr_ApproximateBootTime :: "int option"
  sr_BssAddrShift :: u64

datatype snapshot_error =
    PlatformUnsupported platform_error
  | InvalidStopTheWorldConfig
  | FailedToWriteHeader
  | FailedToExecute
  | FailedIterator iterator_error
  | FailedBootTime boot_error

text \<open>
  The clock readings: the start, and the durations \<open>afterStacks - start\<close>, \<open>Since(afterStacks)\<close> and
  \<open>Since(start)\<close> in nanoseconds; and the clocks behind the boot time.
\<close>

record readings =
  rd_start :: int
  rd_stacks :: u64
  rd_pointer :: u64
  rd_total :: u64
  rd_boot :: clocks

record process_env =
  pe_version :: go_version
  pe_platform :: os_arch
  pe_arch :: goarch
  pe_dereferenceAddr :: u64
  pe_tid :: u32
  pe_g :: u64
  pe_recoveryOffset :: u64
  pe_md :: u64
  pe_mem :: memory
  pe_readings :: readings

fun pushStatics :: "StaticVariable list \<Rightarrow> u64 \<Rightarrow> machine \<Rightarrow> machine res" where
  "pushStatics [] shift m = Inr m"
| "pushStatics (v # vs) shift m =
     bindE (m_push (sv_Address v + shift) (sv_Type v) 0 m) (pushStatics vs shift)"

text \<open>
  The function that runs with the world stopped. Its state is the snapshotter with the two variables it
  assigns, \<open>bssAddrShift\<close> and \<open>iteratorErr\<close>.
\<close>

record body_state =
  bo_sn :: snapshotter
  bo_bssAddrShift :: u64
  bo_iteratorErr :: "iterator_error option"

definition snapshotBody ::
  "process_env \<Rightarrow> SnapshotProgram \<Rightarrow> RuntimeConfig \<Rightarrow> nat \<Rightarrow> body_state \<Rightarrow> (body_state res) option" where
  "snapshotBody pe p cfg hdr st =
     (let mem = pe_mem pe; en = snapshot_env p mem (pe_md pe); rd = pe_readings pe in
      bindO (Some (load_u64 mem (pe_md pe + ucast (rc_ModuledataBssOffset cfg)))) (\<lambda>bssAddr.
      let shift = bssAddr - rc_GoRuntimeBssAddress cfg;
          s0 = bo_sn st;
          m0 = (sn_sm s0)\<lparr>sm_bssAddrShift := Some shift\<rparr>
      in
      bindO (Some (pushStatics (rc_StaticVariables cfg) shift m0)) (\<lambda>m1.
      let s1 = sn_set_sm m1 s0 in
      case NewGoroutineIterator cfg shift of
        Inl err \<Rightarrow>
          Some (Inr (st\<lparr>bo_sn := s1, bo_bssAddrShift := shift, bo_iteratorErr := Some err\<rparr>))
      | Inr it \<Rightarrow>
          bindO (Iterate mem it (visitGoroutine en (pe_arch pe) hdr) s1) (\<lambda>s2.
          bindO (Some (sn_buf (ob_store64 (hdr + off_sh_StacksDurationNs) (rd_stacks rd)) s2)) (\<lambda>s3.
          bindO (Some (sn_buf (ob_store32 (hdr + off_sh_GoroutinesByteLen)
                   (Len (sn_out s3) - of_nat sizeof_SnapshotHeader)) s3)) (\<lambda>s4.
          bindO (processQueue en (sn_sm s4)) (\<lambda>m5.
          let s5 = sn_set_sm m5 s4 in
          bindO (Some (load_u64 mem (bssAddr
                   + (rc_VariableRuntimeDotMemstats cfg - rc_GoRuntimeBssAddress cfg)
                   + ucast (rc_MstatsLastGcUnixOffset cfg)))) (\<lambda>lastGc.
          bindO (Some (sn_buf (ob_store64 (hdr + off_sh_LastGcUnix) lastGc) s5)) (\<lambda>s6.
          bindO (Some (sn_buf (ob_store64 (hdr + off_sh_PointerDurationNs) (rd_pointer rd)) s6)) (\<lambda>s7.
          Some (Inr (st\<lparr>bo_sn := s7, bo_bssAddrShift := shift\<rparr>))))))))))))"

text \<open>What is done with the header and the buffer once the world runs again.\<close>

definition finishSnapshot ::
  "readings \<Rightarrow> nat \<Rightarrow> body_state \<Rightarrow> (snapshot_error + SnapshotResponse) res" where
  "finishSnapshot rd hdr st =
     (let s = bo_sn st in
      bindE (sn_buf (ob_store32 (hdr + off_sh_DataByteLen) (Len (sn_out s))) s) (\<lambda>s1.
      bindE (sn_buf (ob_store64 (hdr + off_sh_TotalDurationNs) (rd_total rd)) s1) (\<lambda>s2.
      bindE (ob_load64 (hdr + off_sh_TotalDurationNs) (sn_out s2)) (\<lambda>pause.
      let response = (\<lambda>boot. Inr (Inr \<lparr>sr_Data = ob_data (sn_out s2), sr_Timestamp = rd_start rd,
            sr_PauseDurationNs = pause, sr_ApproximateBootTime = boot,
            sr_BssAddrShift = bo_bssAddrShift st\<rparr>))
      in
      case BootTime (rd_boot rd) of
        Inr t \<Rightarrow> response (Some t)
      | Inl e \<Rightarrow> if e = ErrNotImplemented then response None else Inr (Inl (FailedBootTime e))))))"

text \<open>
  How a fault of the function ends it: a segmentation fault on the snapshot's thread outside
  \<open>Dereference\<close>, which includes the dereference of nil, makes the signal handler return from the wrapper
  with false; after an access behind an array nothing is known; the others are panics, which end the process
  since the world is stopped (\<open>StopTheWorld\<close>).
\<close>

fun fault_end :: "fault \<Rightarrow> body_end" where
  "fault_end NilDeref = Recovered"
| "fault_end SegFault = Recovered"
| "fault_end WildAccess = Corrupted"
| "fault_end e = Panicked e"

text \<open>
  The result: an answer, an error, or the fault that ended it, which is a panic of the caller when the process goes on; and what
  is left of the process.
\<close>

definition Snapshot ::
  "process_env \<Rightarrow> SnapshotProgram \<Rightarrow> process \<Rightarrow>
     (((snapshot_error + SnapshotResponse) res) \<times> aftermath) option" where
  "Snapshot pe p pr =
     (case PlatformSupported (pe_version pe) (pe_platform pe) of
        Some e \<Rightarrow> Some (Inr (Inl (PlatformUnsupported e)), Runs pr)
      | None \<Rightarrow>
          (case sp_RuntimeConfig p of
             None \<Rightarrow> Some (Inl NilDeref, Runs pr)
           | Some cfg \<Rightarrow>
               if rc_StopTheWorldStartAddr cfg = 0 \<or> rc_StartTheWorldStartAddr cfg = 0
               then Some (Inr (Inl InvalidStopTheWorldConfig), Runs pr)
               else
                 (case newSnapshotter p (pe_dereferenceAddr pe) (pe_md pe) of
                    Inl e \<Rightarrow> Some (Inl e, Runs pr)
                  | Inr s \<Rightarrow>
                      (let (hdr, b) = writeSnapshotHeader (sn_out s) in
                       case hdr of
                         None \<Rightarrow> Some (Inr (Inl FailedToWriteHeader), Runs pr)
                       | Some hp \<Rightarrow>
                           (let st0 = \<lparr>bo_sn = sn_set_out b s, bo_bssAddrShift = 0, bo_iteratorErr = None\<rparr> in
                            case snapshotBody pe p cfg hp st0 of
                              None \<Rightarrow> None
                            | Some r \<Rightarrow>
                                (let f = (\<lambda>_ st. (case r of Inr st' \<Rightarrow> (Returned, st') | Inl e \<Rightarrow> (fault_end e, st)));
                                     (ok, after, st) = StopTheWorld (pe_platform pe) (pe_version pe) (pe_dereferenceAddr pe)
                                       (pe_tid pe) (pe_g pe) (pe_recoveryOffset pe) cfg f pr st0
                                 in
                                 case ok of
                                   None \<Rightarrow> Some (bindE r (\<lambda>_. Inr (Inl FailedToExecute)), after)
                                 | Some False \<Rightarrow> Some (Inr (Inl FailedToExecute), after)
                                 | Some True \<Rightarrow>
                                     (case bo_iteratorErr st of
                                        Some e \<Rightarrow> Some (Inr (Inl (FailedIterator e)), after)
                                      | None \<Rightarrow> Some (finishSnapshot (pe_readings pe) hp st, after))))))))"

end
