(* ===== verification/Snapshot_Inv.thy ===== *)
theory Snapshot_Inv
  imports Snapshot Machine_Props
begin

text \<open>
  What the snapshotter keeps, and that the traversal of the queue ends: \<open>cap_rel\<close> is \<open>machine_rel\<close> without
  the chased entry, which the traversal sets; \<open>snap_ok\<close> the invariant of the snapshotter.
\<close>

subsection \<open>Termination of a run\<close>

text \<open>No type chains contexts, so that the loop over Go contexts stops after one.\<close>

definition no_context_chain :: "run_env \<Rightarrow> bool" where
  "no_context_chain en \<longleftrightarrow> (\<forall>t ti impl. sp_TypeInfo (en_p en) t = Some ti \<longrightarrow>
     ti_GoContextImpl ti = Some impl \<longrightarrow> gci_ContextOffset impl = None)"

lemma goContextStep_stops:
  assumes "no_context_chain en" "goContextStep en m = Inr (again, t)"
  shows "\<not> again"
proof -
  have none: "gci_ContextOffset impl = None"
    if "sp_TypeInfo (en_p en) ty = Some ti" "ti_GoContextImpl ti = Some impl" for ty ti impl
    using assms(1) that by (auto simp: no_context_chain_def)
  have "okE (\<lambda>(again, _). \<not> again) (goContextStep en m)"
    unfolding goContextStep_def Let_def
    by (auto intro!: okE_bindI split: option.splits)
      (rule none, assumption+)
  with assms(2) show ?thesis by simp
qed

lemma goContextLoop_returns:
  assumes "no_context_chain en"
  shows "\<exists>r. goContextLoop en m = Some r"
proof (cases "goContextStep en m")
  case (Inl e)
  then show ?thesis by (simp add: goContextLoop_def loopR.simps)
next
  case (Inr x)
  then obtain again t where x: "goContextStep en m = Inr (again, t)" by (cases x) auto
  with goContextStep_stops [OF assms x] show ?thesis by (simp add: goContextLoop_def loopR.simps)
qed

text \<open>\<open>returns m\<close>: the computation ends, with a result or with a fault.\<close>

definition returns :: "'a option \<Rightarrow> bool" where
  "returns m \<longleftrightarrow> m \<noteq> None"

lemma returns_Some [simp]: "returns (Some r)"
  by (simp add: returns_def)

lemma returns_bind [intro]: "returns m \<Longrightarrow> (\<And>x. returns (f x)) \<Longrightarrow> returns (bindO m f)"
  by (auto simp: returns_def bindO_eq_None)

lemma exec_op_returns:
  assumes "no_context_chain en"
  shows "returns (exec_op en pc depth op m)"
proof -
  have loop: "returns (goContextLoop en m')" for m'
    using goContextLoop_returns [OF assms, of m'] by (auto simp: returns_def)
  have "returns (exec_PrepareGoContext en m)"
    unfolding exec_PrepareGoContext_def Let_def
    by (auto intro!: returns_bind loop split: prod.splits)
  then show ?thesis by (cases op) simp_all
qed

lemma run_steps_returns: "no_context_chain en \<Longrightarrow> returns (run_steps n en pc depth m)"
  by (induction n arbitrary: m)
    (auto simp: step_def intro!: returns_bind exec_op_returns split: ctl.split)

lemma Run_returns: "no_context_chain en \<Longrightarrow> returns (Run en pc cfa depth offset m)"
  by (simp add: Run_def Let_def run_steps_returns split: prod.split)

subsection \<open>The traversal\<close>

definition cap_rel :: "machine \<Rightarrow> machine \<Rightarrow> bool" where
  "cap_rel m m' \<longleftrightarrow> ob_rel (sm_b m) (sm_b m') \<and> qu_rel (sm_q m) (sm_q m')"

lemma cap_rel_refl: "machine_wf m \<Longrightarrow> cap_rel m m"
  by (simp add: cap_rel_def machine_wf_def)

lemma cap_rel_trans: "cap_rel a b \<Longrightarrow> cap_rel b c \<Longrightarrow> cap_rel a c"
  by (auto simp: cap_rel_def intro: ob_rel_trans qu_rel_trans)

lemma machine_cap_rel: "machine_rel a b \<Longrightarrow> cap_rel a b"
  by (simp add: machine_rel_def cap_rel_def)

lemma cap_rel_wf: "cap_rel a m \<Longrightarrow> machine_wf m"
  by (auto simp: cap_rel_def machine_wf_def dest: ob_rel_wf qu_rel_wf)

lemma cap_rel_upd [simp]:
  "cap_rel a (m\<lparr>sm_chasedEntry := e\<rparr>) = cap_rel a m"
  "cap_rel a (m\<lparr>sm_bssAddrShift := x\<rparr>) = cap_rel a m"
  by (simp_all add: cap_rel_def)

lemma Run_cap:
  assumes "cap_rel a m"
  shows "okO (\<lambda>(_, m'). cap_rel a m') (Run en pc cfa depth offset m)"
  using Run_ok [OF machine_rel_refl [OF cap_rel_wf [OF assms]], of en pc cfa depth offset]
  by (auto simp: okO_def okE_iff intro: cap_rel_trans [OF assms] dest!: machine_cap_rel)

lemma m_bufr_write_cap:
  assumes "cap_rel a m"
  shows "okE (\<lambda>(_, m'). cap_rel a m') (m_bufr (writeQueueEntry mem e) m)"
proof -
  have "ob_wf (sm_b m)" using cap_rel_wf [OF assms] by (simp add: machine_wf_def)
  from writeQueueEntry_ok [OF this, of mem e] show ?thesis
    using assms by (auto simp: m_bufr_def okE_iff res_simps cap_rel_def intro: ob_rel_trans)
qed

lemma captureEntry_cap:
  assumes "cap_rel a m"
  shows "okO (cap_rel a) (captureEntry en e m)"
proof -
  have wr: "okO (\<lambda>(_, m'). cap_rel a m') (Some (if c then m_bufr (writeQueueEntry mem e') m else Inr (r, m)))"
    for c mem e' r using m_bufr_write_cap [OF assms, of mem e'] assms by simp
  have if_okO: "okO P x \<Longrightarrow> okO P y \<Longrightarrow> okO P (if c then x else y)" for P c and x y :: "(machine res) option"
    by simp
  show ?thesis
    unfolding captureEntry_def Let_def
    by (split option.split, intro conjI allI impI if_okO okO_bind [OF wr])
      (use assms in \<open>auto intro!: okO_bind [OF Run_cap]\<close>)
qed

lemma captureEntry_returns: "no_context_chain en \<Longrightarrow> returns (captureEntry en e m)"
  unfolding captureEntry_def Let_def
  by (auto intro!: returns_bind Run_returns split: option.splits)

text \<open>One step of the traversal, seen from outside.\<close>

definition pq_rel :: "machine \<Rightarrow> machine \<Rightarrow> bool" where
  "pq_rel m m' \<longleftrightarrow> (machine_wf m \<longrightarrow> machine_wf m' \<and> ob_rel (sm_b m) (sm_b m') \<and>
     qu_seen (sm_q m) \<subseteq> qu_seen (sm_q m'))"

lemma pq_rel_refl: "pq_rel m m"
  by (simp add: pq_rel_def machine_wf_def)

lemma pq_rel_trans: "pq_rel a b \<Longrightarrow> pq_rel b c \<Longrightarrow> pq_rel a c"
  unfolding pq_rel_def by (blast intro: ob_rel_trans)

lemma queue_Pop_total:
  assumes "queue_wf q"
  obtains (empty) "queue_Pop q = Inr (None, q)" "queue_list q = []"
  | (front) e q' where "queue_Pop q = Inr (Some e, q')" "queue_wf q'" "backlog q' < backlog q"
      "qu_seen q' = qu_seen q"
proof (cases "queue_list q")
  case Nil
  with queue_Pop_empty [OF assms] that(1) show thesis by blast
next
  case (Cons e es)
  obtain q' where q': "queue_Pop q = Inr (Some e, q')"
    by (rule queue_Pop_front [OF assms Cons])
  from that(2) [OF q'] backlog_pop [OF assms q'] show thesis by blast
qed

lemma processStep_spec:
  assumes "machine_wf m" "processStep en m = Some (Inr (again, t))"
  shows "pq_rel m t \<and> machine_wf t \<and> (again \<longrightarrow> backlog (sm_q t) < backlog (sm_q m)) \<and>
    (\<not> again \<longrightarrow> t = m \<and> (full (sm_b m) \<or> queue_list (sm_q m) = []))"
proof (cases "full (sm_b m)")
  case True
  with assms show ?thesis by (simp add: processStep_def pq_rel_refl)
next
  case False
  have q: "queue_wf (sm_q m)" using assms(1) by (simp add: machine_wf_def)
  from q show ?thesis
  proof (cases rule: queue_Pop_total)
    case empty
    with False assms show ?thesis by (auto simp: processStep_def pq_rel_refl)
  next
    case (front e q')
    define m1 where "m1 = m\<lparr>sm_q := q'\<rparr>"
    have m1: "machine_wf m1" using assms(1) front(2) by (simp add: m1_def machine_wf_def)
    have t: "captureEntry en e m1 = Some (Inr t)" "again"
      using assms(2) False front(1) by (auto simp: processStep_def m1_def res_simps)
    have cap: "cap_rel m1 t" using okO_D [OF captureEntry_cap [OF cap_rel_refl [OF m1]] t(1)] .
    then have rel: "ob_rel (sm_b m) (sm_b t)" "qu_rel q' (sm_q t)" "machine_wf t"
      using cap_rel_wf [OF cap] by (simp_all add: cap_rel_def m1_def)
    with backlog_rel [OF rel(2)] front t(2) show ?thesis
      by (auto simp: pq_rel_def qu_rel_def)
  qed
qed

lemma processStep_returns:
  assumes "no_context_chain en" "machine_wf m"
  shows "returns (processStep en m)"
  unfolding processStep_def Let_def
  by (auto intro!: returns_bind captureEntry_returns [OF assms(1)] split: option.splits prod.splits)

definition pq_inv :: "run_env \<Rightarrow> machine \<Rightarrow> bool" where
  "pq_inv en m \<longleftrightarrow> machine_wf m \<and> no_context_chain en"

interpretation PQ: loop_inv "processStep en" machine_wf pq_rel for en
  by unfold_locales (use pq_rel_refl pq_rel_trans processStep_spec in blast)+

interpretation PQM: loop_measure "processStep en" "pq_inv en" pq_rel "\<lambda>m. backlog (sm_q m)" for en
proof unfold_locales
  show "pq_rel s s" for s by (rule pq_rel_refl)
  show "pq_rel s u" if "pq_rel s t" "pq_rel t u" for s t u using that by (rule pq_rel_trans)
  show "pq_inv en t \<and> pq_rel s t" if "pq_inv en s" "processStep en s = Some (Inr (again, t))" for s again t
    using that processStep_spec by (auto simp: pq_inv_def)
  show "processStep en s \<noteq> None" if "pq_inv en s" for s
    using that processStep_returns by (auto simp: pq_inv_def returns_def)
  show "backlog (sm_q t) < backlog (sm_q s)"
    if "pq_inv en s" "processStep en s = Some (Inr (True, t))" for s t
    using that processStep_spec by (auto simp: pq_inv_def)
qed

lemma processQueue_result:
  assumes "machine_wf m" "processQueue en m = Some (Inr t)"
  shows "machine_wf t \<and> ob_rel (sm_b m) (sm_b t) \<and> qu_seen (sm_q m) \<subseteq> qu_seen (sm_q t) \<and>
    (full (sm_b t) \<or> queue_list (sm_q t) = [])"
proof -
  have loop: "loopR (processStep en) m = Some (Inr t)" using assms(2) by (simp add: processQueue_def)
  from PQ.loop_exit [OF loop assms(1)] obtain u where
    u: "machine_wf u" "pq_rel m u" "processStep en u = Some (Inr (False, t))" by blast
  with processStep_spec [OF u(1,3)] assms(1) show ?thesis by (auto simp: pq_rel_def)
qed

text \<open>
  The traversal of the queue ends: on a program whose types do not chain contexts, for every memory,
  cyclic data structures included, \<open>processQueue\<close> returns or faults; and when it returns, the buffer is
  full or the queue is empty, and no key has been forgotten.
\<close>

theorem processQueue_ends:
  assumes "machine_wf m" "no_context_chain en"
  shows "\<exists>r. processQueue en m = Some r \<and>
    okE (\<lambda>t. (full (sm_b t) \<or> queue_list (sm_q t) = []) \<and> machine_wf t \<and>
      ob_cap (sm_b t) = ob_cap (sm_b m) \<and> qu_seen (sm_q m) \<subseteq> qu_seen (sm_q t)) r"
proof -
  obtain r where r: "processQueue en m = Some r"
    using PQM.loop_returns [of en m] assms by (auto simp: processQueue_def pq_inv_def)
  with processQueue_result [OF assms(1)] show ?thesis
    by (intro exI [of _ r]) (auto simp: okE_iff ob_rel_def)
qed

theorem processQueue_ends_witness:
  "\<exists>r. processQueue (example_env example_stack_mem) (example_machine [] 64) = Some r"
proof -
  have "no_context_chain (example_env example_stack_mem)"
    by (simp add: no_context_chain_def example_env_def zero_SnapshotProgram_def)
  moreover have "machine_wf (example_machine [] 64)"
    by (simp add: machine_wf_def example_machine_def newStackMachine_def ob_wf_def ob_cap_def queue_wf_make)
  ultimately show ?thesis using processQueue_ends by blast
qed

end
