(* ===== verification/Snapshot_Props.thy ===== *)
theory Snapshot_Props
  imports Snapshot_Inv
begin

text \<open>
  What a snapshot promises: it ends, it leaves the process as it found it when it returns, its answer fits in the buffer
  and is framed by its header; and what it does with one goroutine.

  \<open>snap_rel a s\<close>: from the machine \<open>a\<close> to that of \<open>s\<close> the buffer has kept its capacity and the queue is
  well-formed. The facts of the parts are in \<open>snap_ok\<close>.
\<close>

subsection \<open>What every step keeps\<close>

definition mq_rel :: "machine \<Rightarrow> machine \<Rightarrow> bool" where
  "mq_rel a m \<longleftrightarrow> ob_rel (sm_b a) (sm_b m) \<and> queue_wf (sm_q m)"

lemma mq_rel_wf: "mq_rel a m \<Longrightarrow> machine_wf m"
  by (auto simp: mq_rel_def machine_wf_def dest: ob_rel_wf)

lemma mq_rel_refl: "machine_wf m \<Longrightarrow> mq_rel m m"
  by (simp add: mq_rel_def machine_wf_def)

lemma mq_rel_cap: "mq_rel a m \<Longrightarrow> cap_rel m m' \<Longrightarrow> mq_rel a m'"
  by (auto simp: mq_rel_def cap_rel_def dest: qu_rel_wf elim: ob_rel_trans)

lemma mq_rel_upd [simp]: "mq_rel a (m\<lparr>sm_bssAddrShift := x\<rparr>) = mq_rel a m"
  by (simp add: mq_rel_def)

lemma Run_mq: "mq_rel a m \<Longrightarrow> okO (\<lambda>(_, m'). mq_rel a m') (Run en pc cfa depth offset m)"
  using Run_cap [OF cap_rel_refl [OF mq_rel_wf]]
  by (fastforce simp: okO_def okE_iff intro: mq_rel_cap)

definition snap_rel :: "machine \<Rightarrow> snapshotter \<Rightarrow> bool" where
  "snap_rel a s \<longleftrightarrow> mq_rel a (sn_sm s)"

named_theorems snap_ok \<open>every step of a snapshot keeps \<open>snap_rel\<close>\<close>

lemma snap_rel_upd [simp]:
  "snap_rel a (s\<lparr>sn_stacks := k\<rparr>) = snap_rel a s"
  "snap_rel a (s\<lparr>sn_unwinder := u\<rparr>) = snap_rel a s"
  "snap_rel a (sn_set_sm m s) = mq_rel a m"
  by (simp_all add: snap_rel_def sn_set_sm_def)

lemma snap_rel_out: "snap_rel a s \<Longrightarrow> ob_rel (sm_b a) (sn_out s)"
  by (simp add: snap_rel_def mq_rel_def sn_out_def)

lemma snap_rel_set_out: "snap_rel a s \<Longrightarrow> ob_rel (sm_b a) b \<Longrightarrow> snap_rel a (sn_set_out b s)"
  by (simp add: snap_rel_def mq_rel_def sn_set_out_def)

lemma sn_buf_ok:
  assumes "snap_rel a s" "\<And>b. ob_wf b \<Longrightarrow> okE (ob_rel b) (f b)"
  shows "okE (snap_rel a) (sn_buf f s)"
  using assms(2) [OF ob_rel_wf [OF snap_rel_out [OF assms(1)]]] snap_rel_out [OF assms(1)]
  by (auto simp: sn_buf_def okE_iff res_simps intro!: snap_rel_set_out [OF assms(1)] elim: ob_rel_trans)

lemmas [snap_ok] =
  sn_buf_ok [OF _ ob_store_ok] sn_buf_ok [OF _ ob_store32_ok] sn_buf_ok [OF _ ob_store64_ok]
  sn_buf_ok [OF _ truncate_ok]

lemma incr32_ok [snap_ok]: "snap_rel a s \<Longrightarrow> okE (snap_rel a) (incr32 p s)"
  unfolding incr32_def by (intro okE_bindI snap_ok)

lemma recordStack_ok [snap_ok]:
  assumes "snap_rel a s"
  shows "okE (\<lambda>(_, s'). snap_rel a s') (recordStack p h pcs s)"
proof -
  have "okE (\<lambda>(_, b). ob_rel (sm_b a) b) (writeStack pcs (sn_out s))"
    using writeStack_ok [OF ob_rel_wf [OF snap_rel_out [OF assms]], of pcs] snap_rel_out [OF assms]
    by (auto simp: okE_iff elim: ob_rel_trans)
  then show ?thesis
    using assms unfolding recordStack_def Let_def
    by (auto simp: okE_iff res_simps snap_rel_set_out split: option.splits if_splits)
qed

lemma runFrames_ok [snap_ok]: "mq_rel a m \<Longrightarrow> okO (mq_rel a) (runFrames en fps fois m)"
proof (induction fois arbitrary: m)
  case (Cons foi fois)
  have "okO (mq_rel a) (bindO (Run en pc cfa d off m) (\<lambda>(ok, m1).
      if ok then runFrames en fps fois m1 else Some (Inr m1)))" for pc cfa d off
    using Cons.IH by (auto intro!: okO_bind [OF Run_mq [OF Cons.prems]])
  then show ?case by (auto simp: guardE_def)
qed simp

text \<open>Sequencing after a computation that does not touch the state.\<close>

lemma okO_pure: "(\<And>x. m = Inr x \<Longrightarrow> okO Q (f x)) \<Longrightarrow> okO Q (bindO (Some m) f)"
  by (cases m) simp_all

lemmas okO_read =
  okO_pure [of "g_Status mem g" for mem g] okO_pure [of "g_PC mem g" for mem g]
  okO_pure [of "g_BP mem g" for mem g] okO_pure [of "g_Stktopsp mem g" for mem g]
  okO_pure [of "g_Goid mem g" for mem g] okO_pure [of "load_u64 mem ad" for mem ad]

lemma okO_lift: "okE P m \<Longrightarrow> (\<And>x. P x \<Longrightarrow> okO Q (f x)) \<Longrightarrow> okO Q (bindO (Some m) f)"
  by (cases m) simp_all

lemma okO_option:
  "(x = None \<Longrightarrow> okO P u) \<Longrightarrow> (\<And>y. x = Some y \<Longrightarrow> okO P (v y)) \<Longrightarrow>
   okO P (case x of None \<Rightarrow> u | Some y \<Rightarrow> v y)"
  by (cases x) simp_all

lemma okO_if: "(c \<Longrightarrow> okO P x) \<Longrightarrow> (\<not> c \<Longrightarrow> okO P y) \<Longrightarrow> okO P (if c then x else y)"
  by simp

lemma okO_Some: "okE P m \<Longrightarrow> okO P (Some m)"
  by simp

lemma writeGoroutineHeader_snap:
  "snap_rel a s \<Longrightarrow> snap_rel a (sn_set_out (snd (writeGoroutineHeader (sn_out s))) s)"
  by (rule snap_rel_set_out, assumption)
    (rule ob_rel_trans [OF snap_rel_out writeGoroutineHeader_ok [OF ob_rel_wf [OF snap_rel_out]]], assumption+)

lemma recordStack_snap:
  "snap_rel a s \<Longrightarrow> okE (\<lambda>r. snap_rel a (snd r)) (recordStack p h pcs s)"
  using recordStack_ok [of a s p h pcs] by (auto simp: okE_iff)

lemma snapshotGoroutine_ok [snap_ok]:
  assumes "snap_rel a s"
  shows "okO (snap_rel a) (snapshotGoroutine en arch hdr g s)"
  unfolding snapshotGoroutine_def Let_def case_prod_beta
  by (intro okO_if okO_Some okO_lift [OF incr32_ok] okO_read okO_option okO_lift [OF recordStack_snap]
      okO_bind [OF runFrames_ok] snap_ok)
    (use assms in \<open>auto simp: snap_rel_def [symmetric] intro: writeGoroutineHeader_snap\<close>)

lemma visitGoroutine_ok [snap_ok]:
  assumes "snap_rel a s"
  shows "okO (snap_rel a) (visitGoroutine en arch hdr g s)"
  unfolding visitGoroutine_def Let_def
  by (rule okO_bind [OF snapshotGoroutine_ok [OF assms]], intro okO_if okO_Some snap_ok) simp_all

lemma pushStatics_ok [snap_ok]: "mq_rel a m \<Longrightarrow> okE (mq_rel a) (pushStatics vs shift m)"
proof (induction vs arbitrary: m)
  case (Cons v vs)
  note m = mq_rel_cap [OF Cons.prems machine_cap_rel]
  have "okE (mq_rel a) (m_push (sv_Address v + shift) (sv_Type v) 0 m)"
    by (rule okE_mono [OF m_push_ok [OF machine_rel_refl [OF mq_rel_wf [OF Cons.prems]]] m])
  then show ?case using Cons.IH by (auto simp: okE_iff res_simps)
qed simp

lemma processQueue_ok [snap_ok]: "mq_rel a m \<Longrightarrow> okO (mq_rel a) (processQueue en m)"
  using processQueue_result [OF mq_rel_wf, of a m en]
  by (auto simp: okO_def okE_iff mq_rel_def machine_wf_def elim: ob_rel_trans)

lemma Iterate_snap [snap_ok]:
  "snap_rel a s \<Longrightarrow> okO (snap_rel a) (Iterate mem it (visitGoroutine en arch hdr) s)"
  by (rule Iterate_ok) (rule visitGoroutine_ok)

lemma snapshotBody_ok:
  assumes "snap_rel a (bo_sn st)"
  shows "okO (\<lambda>st'. snap_rel a (bo_sn st')) (snapshotBody pe p cfg hdr st)"
proof -
  have sum: "okO P (case x of Inl e \<Rightarrow> u e | Inr y \<Rightarrow> v y)"
    if "\<And>e. okO P (u e)" "\<And>y. okO P (v y)" for P x and u :: "iterator_error \<Rightarrow> (body_state res) option" and v
    using that by (cases x) simp_all
  show ?thesis
    unfolding snapshotBody_def Let_def
    by (intro sum okO_read okO_Some okO_lift [OF pushStatics_ok] okO_lift [OF sn_buf_ok [OF _ ob_store32_ok]]
        okO_lift [OF sn_buf_ok [OF _ ob_store64_ok]] okO_bind [OF Iterate_snap [of a]] okO_bind [OF processQueue_ok [of a]])
     (use assms in \<open>auto simp: snap_rel_def sn_set_sm_def\<close>)
qed

subsection \<open>A snapshot ends\<close>

lemma runFrames_returns: "no_context_chain en \<Longrightarrow> returns (runFrames en fps fois m)"
  by (induction fois arbitrary: m) (auto intro!: returns_bind Run_returns)

lemma visitGoroutine_returns: "no_context_chain en \<Longrightarrow> returns (visitGoroutine en arch hdr g s)"
  unfolding visitGoroutine_def snapshotGoroutine_def Let_def
  by (auto intro!: returns_bind runFrames_returns split: prod.splits option.splits)

lemma Iterate_returns:
  assumes "\<And>g s. returns (f g s)"
  shows "returns (Iterate mem it f s)"
proof -
  have "returns (iterate_from mem cfg f p n s)" for cfg p n
    by (induction n arbitrary: p s) (auto intro!: returns_bind assms)
  then show ?thesis by (auto simp: Iterate_def intro!: returns_bind)
qed

lemma returns_bind_ok:
  "returns m \<Longrightarrow> okO P m \<Longrightarrow> (\<And>x. P x \<Longrightarrow> returns (f x)) \<Longrightarrow> returns (bindO m f)"
  by (auto simp: returns_def bindO_eq_None)

lemma returns_pure: "(\<And>x. m = Inr x \<Longrightarrow> returns (f x)) \<Longrightarrow> returns (bindO (Some m) f)"
  by (cases m) simp_all

lemma returns_lift: "okE P m \<Longrightarrow> (\<And>x. P x \<Longrightarrow> returns (f x)) \<Longrightarrow> returns (bindO (Some m) f)"
  by (cases m) simp_all

lemma snapshotBody_returns:
  assumes "snap_rel a (bo_sn st)" "no_context_chain (snapshot_env p (pe_mem pe) (pe_md pe))"
  shows "returns (snapshotBody pe p cfg hdr st)"
proof -
  have sum: "returns (case x of Inl e \<Rightarrow> u e | Inr y \<Rightarrow> v y)"
    if "\<And>e. returns (u e)" "\<And>y. returns (v y)" for x and u :: "iterator_error \<Rightarrow> (body_state res) option" and v
    using that by (cases x) simp_all
  have pq: "returns (processQueue (snapshot_env p (pe_mem pe) (pe_md pe)) m)" if "mq_rel a m" for m
    using PQM.loop_returns [of "snapshot_env p (pe_mem pe) (pe_md pe)" m] mq_rel_wf [OF that] assms(2)
    by (auto simp: processQueue_def pq_inv_def returns_def)
  note it = Iterate_returns [OF visitGoroutine_returns [OF assms(2)]]
  show ?thesis
    unfolding snapshotBody_def Let_def
    by (intro sum returns_pure [of "load_u64 mem ad" for mem ad] returns_Some
        returns_lift [OF pushStatics_ok [of a]] returns_lift [OF sn_buf_ok [of a, OF _ ob_store32_ok]]
        returns_lift [OF sn_buf_ok [of a, OF _ ob_store64_ok]] returns_bind_ok [OF it Iterate_snap [of a]]
        returns_bind_ok [OF pq processQueue_ok [of a]])
     (use assms in \<open>auto simp: snap_rel_def sn_set_sm_def\<close>)
qed

lemma okO_any: "(\<And>x. okO Q (f x)) \<Longrightarrow> okO Q (bindO m f)"
  by (auto simp: bindO_def split: option.splits sum.splits)

lemma snapshotBody_shift:
  assumes "load_u64 (pe_mem pe) (pe_md pe + ucast (rc_ModuledataBssOffset cfg)) = Inr bss"
  shows "okO (\<lambda>st'. bo_bssAddrShift st' = bss - rc_GoRuntimeBssAddress cfg) (snapshotBody pe p cfg hdr st)"
  unfolding snapshotBody_def Let_def assms
  by (auto intro!: okO_any split: sum.splits)

lemma snapshotBody_bss:
  "snapshotBody pe p cfg hdr st = Some (Inr st') \<Longrightarrow>
   \<exists>bss. load_u64 (pe_mem pe) (pe_md pe + ucast (rc_ModuledataBssOffset cfg)) = Inr bss"
  by (cases "load_u64 (pe_mem pe) (pe_md pe + ucast (rc_ModuledataBssOffset cfg))")
    (simp_all add: snapshotBody_def)

subsection \<open>The whole\<close>

text \<open>The state in which the body starts: 2^20 zero bytes, of which the header has taken the first 56.\<close>

definition start_state :: "process_env \<Rightarrow> SnapshotProgram \<Rightarrow> RuntimeConfig \<Rightarrow> body_state" where
  "start_state pe p cfg =
     \<lparr>bo_sn = \<lparr>sn_stacks = Map.empty,
        sn_unwinder = newUnwinder (ComputeTextSectionBaseOffset (pe_dereferenceAddr pe) cfg),
        sn_sm = newStackMachine p makeQueue ((makeOutBuf (push_bit 20 1))\<lparr>ob_len := 56\<rparr>)
          (makeGoRuntimeTypeResolver cfg (pe_md pe))\<rparr>,
      bo_bssAddrShift = 0, bo_iteratorErr = None\<rparr>"

lemma start_buffer:
  "ob_cap (makeOutBuf (push_bit 20 1)) = 2 ^ 20" "ob_len (makeOutBuf n) = 0"
  by (simp_all add: makeOutBuf_def ob_cap_def)

lemma start_header: "writeSnapshotHeader (makeOutBuf (push_bit 20 1)) = (Some 0, (makeOutBuf (push_bit 20 1))\<lparr>ob_len := 56\<rparr>)"
  using start_buffer by (simp add: writeSnapshotHeader_def Len_def Ptr_def)

lemma newSnapshotter_start:
  assumes "sp_RuntimeConfig p = Some cfg"
  shows "\<exists>s b. newSnapshotter p (pe_dereferenceAddr pe) (pe_md pe) = Inr s \<and>
    writeSnapshotHeader (sn_out s) = (Some 0, b) \<and>
    \<lparr>bo_sn = sn_set_out b s, bo_bssAddrShift = 0, bo_iteratorErr = None\<rparr> = start_state pe p cfg"
  using assms start_header
  by (simp add: newSnapshotter_def sn_out_def sn_set_out_def newStackMachine_def start_state_def Let_def)

lemma start_wf:
  "snap_rel (sn_sm (bo_sn (start_state pe p cfg))) (bo_sn (start_state pe p cfg))"
  "ob_cap (sn_out (bo_sn (start_state pe p cfg))) = 2 ^ 20"
  using start_buffer queue_wf_make
  by (simp_all add: start_state_def snap_rel_def mq_rel_def newStackMachine_def ob_rel_def ob_wf_def sn_out_def)

text \<open>\<open>Snapshot\<close> on a configuration that passes the checks, over the body and its start state.\<close>

definition accepted :: "process_env \<Rightarrow> SnapshotProgram \<Rightarrow> RuntimeConfig \<Rightarrow> bool" where
  "accepted pe p cfg \<longleftrightarrow> PlatformSupported (pe_version pe) (pe_platform pe) = None \<and>
     sp_RuntimeConfig p = Some cfg \<and> rc_StopTheWorldStartAddr cfg \<noteq> 0 \<and> rc_StartTheWorldStartAddr cfg \<noteq> 0"

lemma Snapshot_rejected:
  assumes "\<nexists>cfg. accepted pe p cfg"
  shows "\<exists>r. Snapshot pe p pr = Some (r, Runs pr) \<and> (\<forall>resp. r \<noteq> Inr (Inr resp)) \<and>
    (\<forall>e. r = Inl e \<longrightarrow> e = NilDeref \<and> sp_RuntimeConfig p = None)"
  using assms by (auto simp: Snapshot_def accepted_def split: option.splits)

lemma Snapshot_accepted:
  assumes "accepted pe p cfg"
  shows "Snapshot pe p pr =
    (case snapshotBody pe p cfg 0 (start_state pe p cfg) of
       None \<Rightarrow> None
     | Some r \<Rightarrow>
         (let f = (\<lambda>_ st. (case r of Inr st' \<Rightarrow> (Returned, st') | Inl e \<Rightarrow> (fault_end e, st)));
              (ok, after, st) = StopTheWorld (pe_platform pe) (pe_version pe) (pe_dereferenceAddr pe)
                (pe_tid pe) (pe_g pe) (pe_recoveryOffset pe) cfg f pr (start_state pe p cfg)
          in
          case ok of
            None \<Rightarrow> Some (bindE r (\<lambda>_. Inr (Inl FailedToExecute)), after)
          | Some False \<Rightarrow> Some (Inr (Inl FailedToExecute), after)
          | Some True \<Rightarrow>
              (case bo_iteratorErr st of
                 Some e \<Rightarrow> Some (Inr (Inl (FailedIterator e)), after)
               | None \<Rightarrow> Some (finishSnapshot (pe_readings pe) 0 st, after))))"
proof -
  obtain s b where "newSnapshotter p (pe_dereferenceAddr pe) (pe_md pe) = Inr s"
    "writeSnapshotHeader (sn_out s) = (Some 0, b)"
    "\<lparr>bo_sn = sn_set_out b s, bo_bssAddrShift = 0, bo_iteratorErr = None\<rparr> = start_state pe p cfg"
    using newSnapshotter_start [of p cfg pe] assms by (auto simp: accepted_def)
  with assms show ?thesis by (simp add: Snapshot_def accepted_def Let_def cong: option.case_cong)
qed

text \<open>The ends of the body, and what \<open>Snapshot\<close> makes of each of them in a quiescent process.\<close>

definition recovered_faults :: "fault set" where
  "recovered_faults = {NilDeref, SegFault}"

definition fatal_aftermath :: "fault \<Rightarrow> aftermath" where
  "fatal_aftermath e = (if e = WildAccess then Undefined else Dies e)"

lemma accepted_version: "accepted pe p cfg \<Longrightarrow> pe_version pe \<noteq> Go_1_25_up"
  by (auto simp: accepted_def PlatformSupported_def)

lemma Snapshot_returned:
  assumes "accepted pe p cfg" "snapshotBody pe p cfg 0 (start_state pe p cfg) = Some (Inr st)" "quiescent pr"
  shows "Snapshot pe p pr =
    Some (case bo_iteratorErr st of Some e \<Rightarrow> Inr (Inl (FailedIterator e)) | None \<Rightarrow> finishSnapshot (pe_readings pe) 0 st, Runs pr)"
  using assms by (auto simp: Snapshot_accepted StopTheWorld_quiescent split: option.splits)

lemma Snapshot_failed:
  assumes "accepted pe p cfg" "snapshotBody pe p cfg 0 (start_state pe p cfg) = Some (Inl e)" "quiescent pr"
  shows "Snapshot pe p pr = Some (if e \<in> recovered_faults then (Inr (Inl FailedToExecute), Runs pr) else (Inl e, fatal_aftermath e))"
  using assms accepted_version [OF assms(1)]
  by (cases e) (auto simp: Snapshot_accepted StopTheWorld_quiescent recovered_faults_def fatal_aftermath_def)

lemma sn_buf_store_fits:
  "p + length bs \<le> ob_cap (sn_out s) \<Longrightarrow>
   sn_buf (ob_store p bs) s = Inr (sn_set_out ((sn_out s)\<lparr>ob_arr := blit (ob_arr (sn_out s)) p bs\<rparr>) s)"
  by (simp add: sn_buf_def ob_store_def)

lemma sn_buf_fits:
  assumes "p + 8 \<le> ob_cap (sn_out s)"
  shows "\<exists>s'. sn_buf (ob_store64 p w) s = Inr s' \<and> ob_cap (sn_out s') = ob_cap (sn_out s) \<and>
      sm_q (sn_sm s') = sm_q (sn_sm s)"
    and "\<exists>s'. sn_buf (ob_store32 p v) s = Inr s' \<and> ob_cap (sn_out s') = ob_cap (sn_out s) \<and>
      sm_q (sn_sm s') = sm_q (sn_sm s)"
  using assms
  by (auto simp: ob_store64_def [abs_def] ob_store32_def [abs_def] sn_buf_store_fits sn_set_out_def sn_out_def ob_cap_def)

lemma finishSnapshot_total:
  assumes "ob_cap (sn_out (bo_sn st)) = 2 ^ 20"
  shows "\<exists>x. finishSnapshot rd 0 st = Inr x"
proof -
  obtain s1 where s1: "sn_buf (ob_store32 0 (Len (sn_out (bo_sn st)))) (bo_sn st) = Inr s1" "ob_cap (sn_out s1) = 2 ^ 20"
    using sn_buf_fits(2) [of 0 "bo_sn st"] assms by auto
  obtain s2 where s2: "sn_buf (ob_store64 24 (rd_total rd)) s1 = Inr s2" "ob_cap (sn_out s2) = 2 ^ 20"
    using sn_buf_fits(1) [of 24 s1] s1 by auto
  have "\<exists>w. ob_load64 24 (sn_out s2) = Inr w" using s2(2) by (simp add: ob_load64_def ob_load_def)
  with s1(1) s2(1) show ?thesis
    by (cases "BootTime (rd_boot rd)") (auto simp: finishSnapshot_def Let_def off_sh_defs)
qed

lemma snapshotBody_cap:
  assumes "snapshotBody pe p cfg 0 (start_state pe p cfg) = Some (Inr st)"
  shows "ob_wf (sn_out (bo_sn st))" "ob_cap (sn_out (bo_sn st)) = 2 ^ 20"
proof -
  have "snap_rel (sn_sm (bo_sn (start_state pe p cfg))) (bo_sn st)"
    by (rule okO_D [OF snapshotBody_ok [OF start_wf(1)] assms])
  from snap_rel_out [OF this] start_wf(2) show "ob_wf (sn_out (bo_sn st))" "ob_cap (sn_out (bo_sn st)) = 2 ^ 20"
    by (auto simp: ob_rel_def sn_out_def)
qed

text \<open>Every end of a snapshot.\<close>

lemma Snapshot_ends:
  assumes "quiescent pr" "Snapshot pe p pr = Some (r, after)"
  obtains (goes_on) x where "r = Inr x" "after = Runs pr"
  | (no_config) "r = Inl NilDeref" "sp_RuntimeConfig p = None" "after = Runs pr"
  | (fatal) cfg e where "accepted pe p cfg" "snapshotBody pe p cfg 0 (start_state pe p cfg) = Some (Inl e)"
      "e \<notin> recovered_faults" "r = Inl e" "after = fatal_aftermath e"
proof (cases "\<exists>cfg. accepted pe p cfg")
  case False
  with Snapshot_rejected [of pe p pr] assms(2) goes_on no_config show thesis by (cases r) auto
next
  case True
  then obtain cfg where cfg: "accepted pe p cfg" by blast
  show thesis
  proof (cases "snapshotBody pe p cfg 0 (start_state pe p cfg)")
    case None
    with assms(2) show thesis by (simp add: Snapshot_accepted [OF cfg])
  next
    case (Some b)
    show thesis
    proof (cases b)
      case (Inl e)
      with Some Snapshot_failed [OF cfg _ assms(1)] assms(2) fatal [OF cfg] goes_on show thesis
        by (auto split: if_splits)
    next
      case (Inr st)
      obtain x where "finishSnapshot (pe_readings pe) 0 st = Inr x"
        using finishSnapshot_total snapshotBody_cap(2) [of pe p cfg st] Some Inr by blast
      with Inr Some Snapshot_returned [OF cfg _ assms(1)] assms(2) goes_on show thesis
        by (auto split: option.splits)
    qed
  qed
qed

lemma Snapshot_process:
  assumes "quiescent pr" "Snapshot pe p pr = Some (Inr x, after)"
  shows "after = Runs pr"
  using Snapshot_ends [OF assms] by (metis sum.distinct(1))

lemma Snapshot_returns:
  assumes "no_context_chain (snapshot_env p (pe_mem pe) (pe_md pe))"
  shows "returns (Snapshot pe p pr)"
proof (cases "\<exists>cfg. accepted pe p cfg")
  case False
  with Snapshot_rejected [of pe p pr] show ?thesis by (auto simp: returns_def)
next
  case True
  then obtain cfg where cfg: "accepted pe p cfg" by blast
  have "returns (snapshotBody pe p cfg 0 (start_state pe p cfg))"
    by (rule snapshotBody_returns [OF start_wf(1) assms])
  then show ?thesis
    unfolding Snapshot_accepted [OF cfg] Let_def
    by (auto simp: returns_def split: option.splits bool.splits prod.splits)
qed

text \<open>
  C1. A snapshot ends, and leaves the process as it found it: on a program whose types do not chain
  contexts, for every memory (unmapped addresses, cyclic data, arbitrary byte code), \<open>Snapshot\<close> does not run forever;
  and whenever it returns an answer or an error, the world runs again, the application's
  signal handler is back, the mutex is free and the recovery state is cleared, also after a nil dereference or
  a segmentation fault with the world stopped, which is an error. The only other ends are those that the code excludes by
  \<open>f\<close> must not panic: a panic, which ends the process, or an access behind an array, after which nothing is known,
  exactly when that is how the function with the world stopped ends; and a nil dereference before the world is stopped, of a program without
  configuration, with the process as it was.
\<close>

theorem Snapshot_ends_and_restores:
  assumes "quiescent pr" "no_context_chain (snapshot_env p (pe_mem pe) (pe_md pe))"
  shows "\<exists>r after. Snapshot pe p pr = Some (r, after) \<and>
    (\<forall>x. r = Inr x \<longrightarrow> after = Runs pr) \<and>
    (\<forall>e. r = Inl e \<longrightarrow>
      e = NilDeref \<and> sp_RuntimeConfig p = None \<and> after = Runs pr \<or>
      (\<exists>cfg. accepted pe p cfg \<and> snapshotBody pe p cfg 0 (start_state pe p cfg) = Some (Inl e) \<and>
        e \<notin> recovered_faults \<and> after = fatal_aftermath e)) \<and>
    (\<forall>cfg e. accepted pe p cfg \<and> snapshotBody pe p cfg 0 (start_state pe p cfg) = Some (Inl e) \<longrightarrow>
      (r, after) = (if e \<in> recovered_faults then (Inr (Inl FailedToExecute), Runs pr) else (Inl e, fatal_aftermath e)))"
proof -
  obtain r after where r: "Snapshot pe p pr = Some (r, after)"
    using Snapshot_returns [OF assms(2), of pr] by (auto simp: returns_def)
  have "(\<forall>x. r = Inr x \<longrightarrow> after = Runs pr) \<and> (\<forall>e. r = Inl e \<longrightarrow>
      e = NilDeref \<and> sp_RuntimeConfig p = None \<and> after = Runs pr \<or>
      (\<exists>cfg. accepted pe p cfg \<and> snapshotBody pe p cfg 0 (start_state pe p cfg) = Some (Inl e) \<and>
        e \<notin> recovered_faults \<and> after = fatal_aftermath e))"
    using assms(1) r by (cases rule: Snapshot_ends) auto
  moreover have "(r, after) = (if e \<in> recovered_faults then (Inr (Inl FailedToExecute), Runs pr) else (Inl e, fatal_aftermath e))"
    if "accepted pe p cfg \<and> snapshotBody pe p cfg 0 (start_state pe p cfg) = Some (Inl e)" for cfg e
    using Snapshot_failed [OF conjunct1 [OF that] conjunct2 [OF that] assms(1)] r by simp
  ultimately show ?thesis using r by blast
qed

text \<open>A process with no goroutine, in a memory of zeros, and a program without types.\<close>

definition quiet_cfg :: RuntimeConfig where
  "quiet_cfg = example_cfg\<lparr>rc_StartTheWorldStartAddr := 32, rc_StopTheWorldStartAddr := 48\<rparr>"

definition quiet_program :: SnapshotProgram where
  "quiet_program = zero_SnapshotProgram\<lparr>sp_RuntimeConfig := Some quiet_cfg\<rparr>"

definition quiet_process :: process_env where
  "quiet_process =
     \<lparr>pe_version = Go_1_22_to_1_24, pe_platform = Linux_amd64, pe_arch = Amd64, pe_dereferenceAddr = 4096,
      pe_tid = 7, pe_g = 1, pe_recoveryOffset = 2, pe_md = 0, pe_mem = (\<lambda>_. Some 0),
      pe_readings = \<lparr>rd_start = 5, rd_stacks = 6, rd_pointer = 7, rd_total = 13, rd_boot = OtherClocks\<rparr>\<rparr>"

lemma quiet_accepted: "accepted quiet_process quiet_program quiet_cfg"
  by (simp add: accepted_def quiet_process_def quiet_program_def quiet_cfg_def PlatformSupported_def)

lemma quiet_chain: "no_context_chain (snapshot_env quiet_program mem md)"
  by (simp add: no_context_chain_def snapshot_env_def quiet_program_def zero_SnapshotProgram_def)

lemma example_quiescent: "quiescent example_process"
  by (simp add: quiescent_def example_process_def)

subsection \<open>The answer\<close>

lemma sn_buf_store:
  "sn_buf (ob_store p bs) s = Inr s' \<Longrightarrow> sn_out s' = (sn_out s)\<lparr>ob_arr := blit (ob_arr (sn_out s)) p bs\<rparr> \<and>
     p + length bs \<le> ob_cap (sn_out s)"
  by (auto simp: sn_buf_def ob_store_def sn_set_out_def sn_out_def split: if_splits)

lemma finishSnapshot_response:
  assumes "finishSnapshot rd 0 st = Inr (Inr resp)" "ob_wf (sn_out (bo_sn st))"
  defines "d \<equiv> sr_Data resp"
  shows "length d \<le> ob_cap (sn_out (bo_sn st))" and "4 \<le> length d \<Longrightarrow> take 4 d = le_bytes 4 (of_nat (length d) :: u32)"
    and "32 \<le> length d \<Longrightarrow> sub d 24 8 = le_bytes 8 (rd_total rd)"
    and "sr_PauseDurationNs resp = rd_total rd" "sr_Timestamp resp = rd_start rd"
    and "sr_BssAddrShift resp = bo_bssAddrShift st"
    and "sr_ApproximateBootTime resp = (case BootTime (rd_boot rd) of Inl _ \<Rightarrow> None | Inr t \<Rightarrow> Some t)"
proof -
  have stores: "ob_store32 p w = ob_store p (le_bytes 4 w)" "ob_store64 p w' = ob_store p (le_bytes 8 w')"
    for p w w' by (simp_all add: fun_eq_iff ob_store32_def ob_store64_def)
  obtain s1 s2 pause where s: "sn_buf (ob_store 0 (le_bytes 4 (Len (sn_out (bo_sn st))))) (bo_sn st) = Inr s1"
    "sn_buf (ob_store 24 (le_bytes 8 (rd_total rd))) s1 = Inr s2" "ob_load64 24 (sn_out s2) = Inr pause"
    and r: "resp = \<lparr>sr_Data = ob_data (sn_out s2), sr_Timestamp = rd_start rd, sr_PauseDurationNs = pause,
      sr_ApproximateBootTime = (case BootTime (rd_boot rd) of Inl _ \<Rightarrow> None | Inr t \<Rightarrow> Some t),
      sr_BssAddrShift = bo_bssAddrShift st\<rparr>"
    using assms(1) that
    by (cases "BootTime (rd_boot rd)")
      (auto simp: finishSnapshot_def Let_def res_simps off_sh_defs stores split: if_splits)
  define xs where "xs = ob_arr (sn_out (bo_sn st))"
  define n where "n = ob_len (sn_out (bo_sn st))"
  define arr where "arr = blit (blit xs 0 (le_bytes 4 (of_nat n :: u32))) 24 (le_bytes 8 (rd_total rd))"
  have b: "ob_arr (sn_out s2) = arr" "ob_len (sn_out s2) = n" "32 \<le> length xs" "n \<le> length xs"
    using sn_buf_store [OF s(1)] sn_buf_store [OF s(2)] assms(2)
    by (simp_all add: arr_def xs_def n_def Len_def ob_cap_def ob_wf_def)
  then have arr: "length arr = length xs" "sub arr 24 8 = le_bytes 8 (rd_total rd)"
    "sub arr 0 4 = le_bytes 4 (of_nat n :: u32)"
    by (simp_all add: arr_def sub_blit_sameI) (simp add: sub_blit_other sub_blit_sameI)
  have d: "d = take n arr" "length d = n" using b arr(1) by (simp_all add: d_def r ob_data_def)
  show "length d \<le> ob_cap (sn_out (bo_sn st))" using b(4) d(2) by (simp add: ob_cap_def xs_def)
  show "take 4 d = le_bytes 4 (of_nat (length d) :: u32)" if "4 \<le> length d"
  proof -
    have "take 4 d = take (min 4 n) arr" by (simp add: d(1))
    also have "\<dots> = sub arr 0 4" using that d(2) by (simp add: sub_def)
    finally show ?thesis using arr(3) d(2) by simp
  qed
  show "sub d 24 8 = le_bytes 8 (rd_total rd)" if "32 \<le> length d"
  proof -
    have "sub d 24 8 = take (min 8 (n - 24)) (drop 24 arr)" by (simp add: d(1) sub_def drop_take)
    also have "\<dots> = sub arr 24 8" using that d(2) by (simp add: sub_def)
    finally show ?thesis using arr(2) by simp
  qed
  show "sr_PauseDurationNs resp = rd_total rd"
    using s(3) arr(1,2) b by (simp add: r ob_load64_def ob_load_def ob_cap_def)
  show "sr_Timestamp resp = rd_start rd" "sr_BssAddrShift resp = bo_bssAddrShift st"
    "sr_ApproximateBootTime resp = (case BootTime (rd_boot rd) of Inl _ \<Rightarrow> None | Inr t \<Rightarrow> Some t)"
    by (simp_all add: r)
qed

lemma Snapshot_ok_cases:
  assumes "Snapshot pe p pr = Some (Inr (Inr resp), after)"
  obtains cfg st where "accepted pe p cfg"
    "snapshotBody pe p cfg 0 (start_state pe p cfg) = Some (Inr st)"
    "bo_iteratorErr st = None" "finishSnapshot (pe_readings pe) 0 st = Inr (Inr resp)"
proof (cases "\<exists>cfg. accepted pe p cfg")
  case False
  with Snapshot_rejected [of pe p pr] assms show thesis by auto
next
  case True
  then obtain cfg where cfg: "accepted pe p cfg" by blast
  show thesis
  proof (cases "snapshotBody pe p cfg 0 (start_state pe p cfg)")
    case None
    with assms show thesis by (simp add: Snapshot_accepted [OF cfg])
  next
    case (Some r)
    show thesis
    proof (cases r)
      case (Inl e)
      with assms Some show thesis
        by (cases e) (auto simp: Snapshot_accepted [OF cfg] StopTheWorld_def stopTheWorldWrapper_def Let_def)
    next
      case (Inr st)
      with assms Some have "bo_iteratorErr st = None" "finishSnapshot (pe_readings pe) 0 st = Inr (Inr resp)"
        by (auto simp: Snapshot_accepted [OF cfg] StopTheWorld_def stopTheWorldWrapper_def Let_def split: option.splits)
      with that [OF cfg] Some Inr show thesis by simp
    qed
  qed
qed

text \<open>
  C3. The answer of a snapshot: the data are at most 2^20 bytes (the buffer never grows), they are
  framed by their header (its first field is their length, its total duration the pause that is
  reported beside them), the boot time is the wall clock less the monotonic clock where the platform
  gives it, and the reported ASLR shift is the address of the bss segment read from the module less the
  one the program was generated for. It is given only on a supported platform, with both addresses of
  the world functions known.
\<close>

theorem Snapshot_response:
  assumes "Snapshot pe p pr = Some (Inr (Inr resp), after)"
  shows "length (sr_Data resp) \<le> 2 ^ 20 \<and>
    (4 \<le> length (sr_Data resp) \<longrightarrow> take 4 (sr_Data resp) = le_bytes 4 (of_nat (length (sr_Data resp)) :: u32)) \<and>
    (32 \<le> length (sr_Data resp) \<longrightarrow> sub (sr_Data resp) 24 8 = le_bytes 8 (sr_PauseDurationNs resp)) \<and>
    sr_PauseDurationNs resp = rd_total (pe_readings pe) \<and> sr_Timestamp resp = rd_start (pe_readings pe) \<and>
    (\<forall>t. sr_ApproximateBootTime resp = Some t \<longrightarrow>
       t + monotonic_ns (rd_boot (pe_readings pe)) = wall_ns (rd_boot (pe_readings pe))) \<and>
    (\<exists>cfg bss. accepted pe p cfg \<and>
       load_u64 (pe_mem pe) (pe_md pe + ucast (rc_ModuledataBssOffset cfg)) = Inr bss \<and>
       sr_BssAddrShift resp = bss - rc_GoRuntimeBssAddress cfg)"
proof -
  obtain cfg st where st: "accepted pe p cfg"
    "snapshotBody pe p cfg 0 (start_state pe p cfg) = Some (Inr st)"
    "finishSnapshot (pe_readings pe) 0 st = Inr (Inr resp)"
    using Snapshot_ok_cases [OF assms] by blast
  obtain bss where bss: "load_u64 (pe_mem pe) (pe_md pe + ucast (rc_ModuledataBssOffset cfg)) = Inr bss"
    using snapshotBody_bss [OF st(2)] by blast
  have shift: "bo_bssAddrShift st = bss - rc_GoRuntimeBssAddress cfg"
    by (rule okO_D [OF snapshotBody_shift [OF bss] st(2)])
  note wf = snapshotBody_cap [OF st(2)]
  note fin = finishSnapshot_response [OF st(3) wf(1)]
  have boot: "t + monotonic_ns (rd_boot (pe_readings pe)) = wall_ns (rd_boot (pe_readings pe))"
    if "sr_ApproximateBootTime resp = Some t" for t
    using that fin(7) BootTime_plus_monotonic by (auto split: sum.splits)
  show ?thesis
    using fin(1-6) wf(2) boot st(1) bss shift by (intro conjI impI allI exI [of _ cfg] exI [of _ bss]) simp_all
qed

lemma load_u64_zeros: "load_u64 (\<lambda>_. Some 0) a = Inr 0"
  by (simp add: load_u64_def read_bytes_step)

lemma processQueue_idle:
  "queue_wf (sm_q m) \<Longrightarrow> queue_list (sm_q m) = [] \<Longrightarrow> processQueue en m = Some (Inr m)"
  by (simp add: processQueue_def loopR.simps processStep_def queue_Pop_empty)

lemma quiet_snapshot:
  "\<exists>resp. Snapshot quiet_process quiet_program example_process = Some (Inr (Inr resp), Runs example_process)"
proof -
  define st0 where "st0 = start_state quiet_process quiet_program quiet_cfg"
  define s1 where "s1 = sn_set_sm ((sn_sm (bo_sn st0))\<lparr>sm_bssAddrShift := Some (- 16)\<rparr>) (bo_sn st0)"
  have s1: "ob_cap (sn_out s1) = 2 ^ 20" "sm_q (sn_sm s1) = makeQueue"
    using start_wf(2) [of quiet_process quiet_program quiet_cfg]
    by (simp_all add: s1_def st0_def sn_out_def sn_set_sm_def) (simp add: start_state_def newStackMachine_def)
  obtain s2 where s2: "sn_buf (ob_store64 8 6) s1 = Inr s2" "ob_cap (sn_out s2) = 2 ^ 20" "sm_q (sn_sm s2) = makeQueue"
    using sn_buf_fits(1) [of 8 s1 6] s1 by auto
  obtain s3 where s3: "sn_buf (ob_store32 4 (Len (sn_out s2) - 56)) s2 = Inr s3" "ob_cap (sn_out s3) = 2 ^ 20"
    "sm_q (sn_sm s3) = makeQueue"
    using sn_buf_fits(2) [of 4 s2] s2 by auto
  obtain s4 where s4: "sn_buf (ob_store64 48 0) s3 = Inr s4" "ob_cap (sn_out s4) = 2 ^ 20"
    using sn_buf_fits(1) [of 48 s3 0] s3 by auto
  obtain s5 where s5: "sn_buf (ob_store64 16 7) s4 = Inr s5" "ob_cap (sn_out s5) = 2 ^ 20"
    using sn_buf_fits(1) [of 16 s4 7] s4 by auto
  have q: "processQueue en (sn_sm s3) = Some (Inr (sn_sm s3))" for en
    by (rule processQueue_idle) (simp_all add: s3(3) queue_wf_make queue_list_make)
  have it: "NewGoroutineIterator quiet_cfg (- 16) = Inr \<lparr>it_allGs = 224, it_cfg = quiet_cfg\<rparr>"
    "Iterate (\<lambda>_. Some 0) \<lparr>it_allGs = 224, it_cfg = quiet_cfg\<rparr> f s = Some (Inr s)" for f and s :: snapshotter
    by (simp_all add: NewGoroutineIterator_def quiet_cfg_def example_cfg_def zero_RuntimeConfig_def
        Iterate_def load_u64_zeros)
  have same: "sn_set_sm (sn_sm s) s = s" for s by (simp add: sn_set_sm_def)
  have cfg: "rc_StaticVariables quiet_cfg = []" "rc_GoRuntimeBssAddress quiet_cfg = 16"
    by (simp_all add: quiet_cfg_def example_cfg_def zero_RuntimeConfig_def)
  define st where "st = st0\<lparr>bo_sn := s5, bo_bssAddrShift := - 16\<rparr>"
  have iter: "bo_iteratorErr st = None" by (simp add: st_def st0_def start_state_def)
  have "snapshotBody quiet_process quiet_program quiet_cfg 0 st0 =
      Some (Inr (st0\<lparr>bo_sn := s5, bo_bssAddrShift := - 16\<rparr>))"
    using s1_def s2(1) s3(1) s4(1) s5(1) q it same
    by (simp add: snapshotBody_def quiet_process_def load_u64_zeros cfg off_sh_defs Let_def)
  then have body: "snapshotBody quiet_process quiet_program quiet_cfg 0 st0 = Some (Inr st)"
    by (simp add: st_def)
  obtain s6 where s6: "sn_buf (ob_store32 0 (Len (sn_out s5))) s5 = Inr s6" "ob_cap (sn_out s6) = 2 ^ 20"
    using sn_buf_fits(2) [of 0 s5] s5 by auto
  obtain s7 where s7: "sn_buf (ob_store64 24 13) s6 = Inr s7" "ob_cap (sn_out s7) = 2 ^ 20"
    using sn_buf_fits(1) [of 24 s6 13] s6 by auto
  obtain resp where fin: "finishSnapshot (pe_readings quiet_process) 0 st = Inr (Inr resp)"
    using s6(1) s7
    by (simp add: finishSnapshot_def st_def quiet_process_def off_sh_defs bootTime_other_def ob_load64_def ob_load_def)
  have "Snapshot quiet_process quiet_program example_process = Some (Inr (Inr resp), Runs example_process)"
    using body fin
    by (simp add: Snapshot_returned [OF quiet_accepted _ example_quiescent] st0_def [symmetric] iter)
  then show ?thesis by blast
qed

theorem Snapshot_ends_and_restores_witness:
  "\<exists>resp after. Snapshot quiet_process quiet_program example_process = Some (Inr (Inr resp), after) \<and>
     after = Runs example_process"
proof -
  obtain r after where r: "Snapshot quiet_process quiet_program example_process = Some (r, after)"
    "\<forall>x. r = Inr x \<longrightarrow> after = Runs example_process"
    using Snapshot_ends_and_restores [OF example_quiescent quiet_chain] by blast
  obtain resp x where "Snapshot quiet_process quiet_program example_process = Some (Inr (Inr resp), x)"
    using quiet_snapshot by blast
  with r show ?thesis by auto
qed

theorem Snapshot_response_witness:
  "\<exists>resp. Snapshot quiet_process quiet_program example_process = Some (Inr (Inr resp), Runs example_process) \<and>
     length (sr_Data resp) \<le> 2 ^ 20 \<and> sr_BssAddrShift resp = - 16"
proof -
  have cfg: "rc_GoRuntimeBssAddress quiet_cfg = 16"
    by (simp add: quiet_cfg_def example_cfg_def)
  obtain resp where
    "Snapshot quiet_process quiet_program example_process = Some (Inr (Inr resp), Runs example_process)"
    using quiet_snapshot by blast
  from this Snapshot_response [OF this] quiet_accepted show ?thesis
    by (intro exI [of _ resp]) (auto simp: accepted_def quiet_program_def quiet_process_def load_u64_zeros cfg)
qed

end
