(* ===== verification/Snapshot_Stacks.thy ===== *)
theory Snapshot_Stacks
  imports Snapshot_Props
begin

text \<open>
  What a snapshot does with the stack of one goroutine: which frames are of interest, how the stacks that
  are known are shared, and what is kept of a goroutine that does not fit.
\<close>

subsection \<open>The frames of interest\<close>

text \<open>
  \<open>TargetPc\<close> is the sorted list of the last addresses of the ranges: the range of \<open>pc\<close> is the number of
  ranges that end before it.
\<close>

definition range_index :: "PcClassifier \<Rightarrow> u64 \<Rightarrow> nat" where
  "range_index pcc pc = length (filter (\<lambda>t. t < pc) (pcc_TargetPc pcc))"

definition interesting :: "PcClassifier \<Rightarrow> nat \<Rightarrow> u64 \<Rightarrow> frameOfInterest option" where
  "interesting pcc i pc =
     (let j = range_index pcc pc in
      if j < length (pcc_TargetPc pcc) \<and> pcc_ProgPc pcc ! j \<noteq> 0
      then Some \<lparr>foi_idx = of_nat i, foi_pc = pcc_ProgPc pcc ! j\<rparr> else None)"

lemma sorted_monotone: "sorted ts \<Longrightarrow> monotone_below (length ts) (\<lambda>j. (x :: u64) \<le> ts ! j)"
  unfolding monotone_below_def by (meson order_trans sorted_nth_mono)

lemma filter_less_sorted:
  assumes "sorted ts" "k \<le> length ts" "\<And>j. j < k \<Longrightarrow> ts ! j < (x :: u64)" "k < length ts \<Longrightarrow> x \<le> ts ! k"
  shows "length (filter (\<lambda>t. t < x) ts) = k"
proof -
  have low: "filter (\<lambda>t. t < x) (take k ts) = take k ts"
    using assms(2,3) by (auto simp: filter_id_conv in_set_conv_nth)
  have "\<not> t < x" if "t \<in> set (drop k ts)" for t
  proof -
    from that obtain i where i: "i < length ts - k" "t = ts ! (k + i)" by (auto simp: in_set_conv_nth)
    with assms(4) have "x \<le> ts ! k" by simp
    also have "ts ! k \<le> ts ! (k + i)" by (rule sorted_nth_mono [OF assms(1)]) (use i in auto)
    finally show ?thesis using i by simp
  qed
  then have "filter (\<lambda>t. t < x) (drop k ts) = []" by (simp add: filter_empty_conv)
  then have "filter (\<lambda>t. t < x) (take k ts @ drop k ts) = take k ts"
    by (simp add: low del: append_take_drop_id)
  with assms(2) show ?thesis by simp
qed

lemma sort_search_range:
  assumes "sorted (pcc_TargetPc pcc)"
  shows "sort_search (length (pcc_TargetPc pcc)) (\<lambda>j. pc \<le> pcc_TargetPc pcc ! j) = range_index pcc pc"
proof -
  note mon = sorted_monotone [OF assms, of pc]
  show ?thesis
    unfolding range_index_def
    by (rule filter_less_sorted [OF assms sort_search_le, symmetric])
      (use sort_search_first [OF mon] in \<open>auto simp: not_le\<close>)
qed

text \<open>
  C25. The frames of interest of a stack: when the ends of the ranges are sorted and each has its program,
  \<open>classifyFrames\<close> does not fault and returns, in the order of the stack, exactly the frames whose
  program counter lies in a range with a program, each with its index and that program.
\<close>

theorem classifyFrames_interesting:
  assumes "sorted (pcc_TargetPc pcc)" "length (pcc_ProgPc pcc) = length (pcc_TargetPc pcc)"
  shows "classifyFrames pcc i pcs =
    Inr (List.map_filter (\<lambda>(k, pc). interesting pcc k pc) (enumerate i pcs))"
proof (induction pcs arbitrary: i)
  case (Cons pc pcs)
  show ?case
    using Cons.IH [of "Suc i"] assms(2)
    by (simp add: sort_search_range [OF assms(1)] interesting_def Let_def List.map_filter_simps)
qed (simp add: List.map_filter_simps)

theorem classifyFrames_interesting_witness:
  "classifyFrames \<lparr>pcc_TargetPc = [10, 20, 30], pcc_ProgPc = [0, 5, 0]\<rparr> 0 [7, 15, 25, 20, 40] =
    Inr [\<lparr>foi_idx = 1, foi_pc = 5\<rparr>, \<lparr>foi_idx = 3, foi_pc = 5\<rparr>]"
  by (subst classifyFrames_interesting)
    (simp_all add: interesting_def range_index_def List.map_filter_simps)

subsection \<open>Stacks are written once\<close>

lemma recordStack_known:
  "sn_stacks s h = Some fois \<Longrightarrow> recordStack p h pcs s = Inr (Some (0, fois), s)"
  by (simp add: recordStack_def)

text \<open>The bytes of a stack, appended to the data.\<close>

lemma writeStack_fits:
  assumes "ob_wf b" "stack \<noteq> []" "length stack < 2 ^ 20" "ob_len b + 8 * length stack \<le> ob_cap b"
  shows "writeStack stack b =
    Inr ((8 * of_nat (length stack), True),
      b\<lparr>ob_len := ob_len b + 8 * length stack,
        ob_arr := blit (ob_arr b) (ob_len b) (concat (map (le_bytes 8) stack))\<rparr>)"
proof -
  have cap: "ob_cap b \<le> 2147483648" using assms(1) by (simp add: ob_wf_def)
  have n: "unat (of_nat (length stack) * 8 :: u32) = 8 * length stack"
    using assms(3) by (simp add: unat_word_ariths unat_of_nat_u32)
  have l: "unat (Len b + of_nat (length stack) * 8) = ob_len b + 8 * length stack"
    using n assms(1,4) cap by (simp add: unat_add_u32)
  have "\<not> Len b + of_nat (length stack) * 8 < Len b" "\<not> Len b + of_nat (length stack) * 8 > ob_cap32 b"
    using l assms(1,4) by (simp_all add: word_less_nat_alt)
  then have e: "EnsureLen (Len b + of_nat (length stack) * 8) b = (True, b\<lparr>ob_len := ob_len b + 8 * length stack\<rparr>)"
    using l by (simp add: EnsureLen_def)
  have src: "length (concat (map (le_bytes 8) stack)) = 8 * length stack"
    by (induction stack) simp_all
  show ?thesis
    using assms(1,2) n src by (simp add: writeStack_def e Let_def mult.commute)
qed

text \<open>
  A stack is written once per snapshot: the first time its hash is seen, when it fits, its program
  counters are appended to the data, eight bytes each; from then on the same hash writes nothing, says
  that zero bytes were written, and gives the frames of interest of the first time.
\<close>

theorem recordStack_once:
  assumes "sn_stacks s h = None" "ob_wf (sn_out s)" "pcs \<noteq> []" "length pcs < 2 ^ 20"
    and "ob_len (sn_out s) + 8 * length pcs \<le> ob_cap (sn_out s)"
    and "sp_PcClassifier p = Some pcc" "classifyFrames pcc 0 pcs = Inr fois"
  shows "\<exists>s'. recordStack p h pcs s = Inr (Some (8 * of_nat (length pcs), fois), s') \<and>
    ob_data (sn_out s') = ob_data (sn_out s) @ concat (map (le_bytes 8) pcs) \<and>
    recordStack p h pcs' s' = Inr (Some (0, fois), s')"
proof -
  define b where "b = sn_out s"
  define bs where "bs = concat (map (le_bytes 8) pcs)"
  define b' where "b' = b\<lparr>ob_len := ob_len b + 8 * length pcs, ob_arr := blit (ob_arr b) (ob_len b) bs\<rparr>"
  define s' where "s' = (sn_set_out b' s)\<lparr>sn_stacks := (sn_stacks (sn_set_out b' s))(h \<mapsto> fois)\<rparr>"
  have len: "length bs = 8 * length pcs" unfolding bs_def by (induction pcs) simp_all
  have w: "writeStack pcs b = Inr ((8 * of_nat (length pcs), True), b')"
    using writeStack_fits [of b pcs] assms(2-5) by (simp add: b_def b'_def bs_def)
  have r: "recordStack p h pcs s = Inr (Some (8 * of_nat (length pcs), fois), s')"
    using assms(1,3,6,7) w by (simp add: recordStack_def b_def [symmetric] s'_def Let_def)
  have out: "sn_out s' = b'" by (simp add: s'_def sn_out_def sn_set_out_def)
  have fits: "ob_len b + length bs \<le> length (ob_arr b)" using assms(5) len by (simp add: b_def ob_cap_def)
  then have "ob_data b' = ob_data b @ bs"
    using len by (simp add: b'_def ob_data_def blit_def)
  moreover have "sn_stacks s' h = Some fois" by (simp add: s'_def)
  ultimately show ?thesis using r out by (simp add: b_def bs_def recordStack_known)
qed

definition example_snapshotter :: snapshotter where
  "example_snapshotter =
     \<lparr>sn_stacks = Map.empty, sn_unwinder = newUnwinder 0, sn_sm = example_machine [] 32\<rparr>"

definition example_classifier :: PcClassifier where
  "example_classifier = \<lparr>pcc_TargetPc = [10, 20], pcc_ProgPc = [0, 5]\<rparr>"

lemma example_snapshotter_out:
  "sn_out example_snapshotter = \<lparr>ob_arr = replicate 32 0, ob_len = 0, ob_isFull = False\<rparr>"
  by (simp add: example_snapshotter_def sn_out_def example_machine_def newStackMachine_def)

theorem recordStack_once_witness:
  "\<exists>s'. recordStack (zero_SnapshotProgram\<lparr>sp_PcClassifier := Some example_classifier\<rparr>) 3 [7, 15] example_snapshotter =
      Inr (Some (16, [\<lparr>foi_idx = 1, foi_pc = 5\<rparr>]), s') \<and>
    ob_data (sn_out s') = le_bytes 8 (7 :: u64) @ le_bytes 8 (15 :: u64)"
proof -
  let ?p = "zero_SnapshotProgram\<lparr>sp_PcClassifier := Some example_classifier\<rparr>"
  have "sorted (pcc_TargetPc example_classifier)"
    "length (pcc_ProgPc example_classifier) = length (pcc_TargetPc example_classifier)"
    by (simp_all add: example_classifier_def)
  note cls = sort_search_range [OF this(1)]
  have c: "classifyFrames example_classifier 0 [7, 15] = Inr [\<lparr>foi_idx = 1, foi_pc = 5\<rparr>]"
    by (simp add: cls Let_def) (simp add: range_index_def example_classifier_def)
  have h: "sn_stacks example_snapshotter 3 = None" "ob_wf (sn_out example_snapshotter)" "[7, 15 :: u64] \<noteq> []"
    "length [7, 15 :: u64] < 2 ^ 20" "ob_len (sn_out example_snapshotter) + 8 * length [7, 15 :: u64] \<le> ob_cap (sn_out example_snapshotter)"
    "sp_PcClassifier ?p = Some example_classifier"
    by (simp_all add: example_snapshotter_out ob_wf_def ob_cap_def) (simp add: example_snapshotter_def)
  from recordStack_once [OF h c] show ?thesis
    by (auto simp: example_snapshotter_out ob_data_def)
qed

subsection \<open>Goroutines that are not walked\<close>

text \<open>
  Whether the stack of a goroutine is read at all depends on its status, whose scan bit is ignored: a
  dead one only counts, a running one (the one that takes the snapshot) is skipped, and so is every
  goroutine once the buffer is full.
\<close>

theorem snapshotGoroutine_not_walked:
  assumes "g_Status (en_mem en) g = Inr st"
  shows "(full (sn_out s) \<longrightarrow> snapshotGoroutine en arch hdr g s = Some (Inr s)) \<and>
    (\<not> full (sn_out s) \<longrightarrow> st AND NOT Status_Gscan = Status_Grunning \<longrightarrow>
      snapshotGoroutine en arch hdr g s = Some (Inr s)) \<and>
    (\<not> full (sn_out s) \<longrightarrow> st AND NOT Status_Gscan = Status_Gdead \<longrightarrow>
      snapshotGoroutine en arch hdr g s = Some (incr32 (hdr + off_sh_NonLiveGoroutines) s))"
  using assms by (simp add: snapshotGoroutine_def Status_defs)

text \<open>A memory whose first word, the status, is that of a running goroutine with the scan bit.\<close>

definition running_mem :: memory where
  "running_mem a = Some (if a = 0 then 2 else if a = 1 then 16 else 0)"

theorem snapshotGoroutine_not_walked_witness:
  "\<not> full (sn_out example_snapshotter) \<and>
   snapshotGoroutine (example_env running_mem) Amd64 0 \<lparr>g_gPtr = 0, g_config = zero_RuntimeConfig\<rparr> example_snapshotter =
     Some (Inr example_snapshotter)"
proof -
  have st: "g_Status (en_mem (example_env running_mem)) \<lparr>g_gPtr = 0, g_config = zero_RuntimeConfig\<rparr> =
      Inr (Status_Gscan OR Status_Grunning)"
    by (simp add: g_Status_def load_u32_def read_bytes_step example_env_def running_mem_def
        zero_RuntimeConfig_def Status_defs)
  have "(Status_Gscan OR Status_Grunning) AND NOT Status_Gscan = Status_Grunning"
    by (simp add: Status_defs)
  moreover have "\<not> full (sn_out example_snapshotter)" by (simp add: example_snapshotter_out full_def)
  ultimately show ?thesis using snapshotGoroutine_not_walked [OF st] by blast
qed

subsection \<open>A goroutine that does not fit\<close>

text \<open>
  C26. What a goroutine wrote is dropped when it filled the buffer: for every program, memory and
  goroutine, if after \<open>visitGoroutine\<close> the buffer is full, the data are as long as before; and the buffer
  keeps its capacity.
\<close>

theorem visitGoroutine_drops_partial:
  assumes "machine_wf (sn_sm s)" "visitGoroutine en arch hdr g s = Some (Inr s')"
  shows "ob_cap (sn_out s') = ob_cap (sn_out s) \<and>
    (full (sn_out s') \<longrightarrow> ob_len (sn_out s') = ob_len (sn_out s))"
proof -
  have wf: "ob_wf (sn_out s)" using assms(1) by (simp add: machine_wf_def sn_out_def)
  have s: "snap_rel (sn_sm s) s" using mq_rel_refl [OF assms(1)] by (simp add: snap_rel_def)
  from okO_D [OF visitGoroutine_ok [OF s] assms(2)]
  have "ob_rel (sn_out s) (sn_out s')" using snap_rel_out by (auto simp: sn_out_def)
  moreover obtain s1 where "snapshotGoroutine en arch hdr g s = Some (Inr s1)"
    "(if full (sn_out s1) then sn_buf (Out_Buf.truncate (Len (sn_out s))) s1 else Inr s1) = Inr s'"
    using assms(2) by (auto simp: visitGoroutine_def Let_def bindO_eq_Some_Inr split: if_splits)
  then have "full (sn_out s') \<longrightarrow> ob_len (sn_out s') = ob_len (sn_out s)"
    using wf by (auto simp: sn_buf_def Out_Buf.truncate_def res_simps sn_set_out_def sn_out_def split: if_splits)
  ultimately show ?thesis by (simp add: ob_rel_def)
qed

text \<open>A buffer of 48 bytes of which 16 are in use: the counter can be written, the 40 bytes of a header cannot.\<close>

definition tight_snapshotter :: snapshotter where
  "tight_snapshotter =
     (let s = \<lparr>sn_stacks = Map.empty, sn_unwinder = newUnwinder 0, sn_sm = example_machine [] 48\<rparr>
      in sn_set_out ((sn_out s)\<lparr>ob_len := 16\<rparr>) s)"

theorem visitGoroutine_drops_partial_witness:
  "\<exists>s'. visitGoroutine (example_env (\<lambda>_. Some 0)) Amd64 0 \<lparr>g_gPtr = 0, g_config = zero_RuntimeConfig\<rparr>
      tight_snapshotter = Some (Inr s') \<and> full (sn_out s') \<and> ob_len (sn_out s') = 16"
proof -
  define g where "g = \<lparr>g_gPtr = 0, g_config = zero_RuntimeConfig\<rparr>"
  define en where "en = example_env (\<lambda>_. Some 0)"
  define s where "s = tight_snapshotter"
  have out: "ob_cap (sn_out s) = 48" "ob_len (sn_out s) = 16" "\<not> full (sn_out s)" "sm_q (sn_sm s) = makeQueue"
    by (simp_all add: s_def tight_snapshotter_def sn_out_def sn_set_out_def example_machine_def newStackMachine_def
        ob_cap_def full_def)
  then have wf: "machine_wf (sn_sm s)"
    by (simp add: machine_wf_def queue_wf_make ob_wf_def sn_out_def [symmetric])
  have reads: "g_Status (en_mem en) g = Inr 0" "g_PC (en_mem en) g = Inr 0" "g_BP (en_mem en) g = Inr 0"
    "g_Stktopsp (en_mem en) g = Inr 0"
    by (simp_all add: g_Status_def g_PC_def g_BP_def g_Stktopsp_def load_u32_def load_u64_zeros read_bytes_step
        en_def example_env_def)
  obtain s1 where s1: "incr32 32 s = Inr s1" "ob_cap (sn_out s1) = 48" "ob_len (sn_out s1) = 16"
  proof -
    obtain v where "ob_load32 32 (sn_out s) = Inr v" using out by (simp add: ob_load32_def ob_load_def)
    then show thesis
      using that out
      by (auto simp: incr32_def ob_store32_def [abs_def] sn_buf_store_fits sn_set_out_def sn_out_def ob_cap_def)
  qed
  define b where "b = (sn_out s1)\<lparr>ob_isFull := True\<rparr>"
  define uw where "uw = snd (walkStack Amd64 (en_mem en) 0 0 0 (sn_unwinder s1))"
  define s2 where "s2 = sn_set_out b (s1\<lparr>sn_unwinder := uw\<rparr>)"
  have hdr: "writeGoroutineHeader (sn_out s1) = (None, b)"
    using s1(2,3) by (simp add: writeGoroutineHeader_def EnsureLen_def Len_def ob_cap32_def b_def)
  have o: "sn_out (s1\<lparr>sn_unwinder := uw\<rparr>) = sn_out s1" by (simp add: sn_out_def)
  have "snapshotGoroutine en Amd64 0 g s = Some (Inr s2)"
    using out(3) reads s1(1) hdr o
    by (simp add: snapshotGoroutine_def Status_defs off_sh_defs case_prod_beta uw_def [symmetric] s2_def Let_def)
  moreover have "full (sn_out s2)" "ob_cap (sn_out s2) = 48"
    using s1(2) by (simp_all add: s2_def b_def sn_out_def sn_set_out_def full_def)
  ultimately have "\<exists>s'. visitGoroutine en Amd64 0 g s = Some (Inr s') \<and> full (sn_out s')"
    using out(2) by (simp add: visitGoroutine_def sn_buf_def Out_Buf.truncate_def Len_def sn_out_def sn_set_out_def full_def)
  then obtain s' where s': "visitGoroutine en Amd64 0 g s = Some (Inr s')" "full (sn_out s')" by blast
  from visitGoroutine_drops_partial [OF wf s'(1)] s' out(2) show ?thesis
    by (auto simp: en_def g_def s_def)
qed

end
