(* ===== verification/Server_Dial.thy ===== *)
theory Server_Dial
  imports Side_Eye_Prelude
begin

text \<open>
  The listener that dials (\<open>internal/serverdial\<close>): it dials one connection to the service, sends a header
  on it, hands it to \<open>Accept\<close>, and dials the next when that one is closed.

  The first part is sequential code: the choice of the dialer and the header. Its effects on the
  connection are those of a parameter \<open>write\<close>, the \<open>Write\<close> method of \<open>net.Conn\<close>. The second part is
  the concurrent one: the goroutine of the listener, any number of callers of \<open>Accept\<close>, \<open>Close\<close> and of
  the \<open>Close\<close> of a connection, as a step relation with one rule for each of their atomic actions.
\<close>

subsection \<open>The dialer\<close>

text \<open>What \<open>url.Parse\<close> returns, which is a parameter of the functions that use it.\<close>

record url =
  u_Scheme :: string
  u_Host :: string
  u_Hostname :: string
  u_Port :: string
  u_Path :: string
  u_RawQuery :: string

datatype dialer = NetDialer | TlsDialer

record headerDialer =
  hd_d :: dialer

record serverDialAddr =
  sda_scheme :: string
  sda_addr :: string

datatype dialer_error =
    ParseFailed | UnsupportedPath string | UnsupportedQuery string | UnsupportedScheme string

definition newDialer ::
  "(string \<Rightarrow> url option) \<Rightarrow> string \<Rightarrow> dialer_error + (headerDialer \<times> serverDialAddr)" where
  "newDialer parse addr =
     (case parse addr of
        None \<Rightarrow> Inl ParseFailed
      | Some u \<Rightarrow>
          if u_Path u \<noteq> '''' then Inl (UnsupportedPath (u_Path u))
          else if u_RawQuery u \<noteq> '''' then Inl (UnsupportedQuery (u_RawQuery u))
          else
            bindE (if u_Scheme u = ''http'' then Inr NetDialer
                   else if u_Scheme u = ''https'' then Inr TlsDialer
                   else Inl (UnsupportedScheme (u_Scheme u))) (\<lambda>d.
            Inr (\<lparr>hd_d = d\<rparr>, \<lparr>sda_scheme = u_Scheme u, sda_addr = u_Host u\<rparr>)))"

definition sda_Network :: "serverDialAddr \<Rightarrow> string" where
  "sda_Network s = ''serverdial''"

definition sda_String :: "serverDialAddr \<Rightarrow> string" where
  "sda_String s = sda_addr s"

lemma newDialer_ok:
  "newDialer parse addr = Inr (d, a) \<longleftrightarrow>
    (\<exists>u. parse addr = Some u \<and> u_Path u = '''' \<and> u_RawQuery u = '''' \<and>
      (u_Scheme u = ''http'' \<and> hd_d d = NetDialer \<or> u_Scheme u = ''https'' \<and> hd_d d = TlsDialer) \<and>
      a = \<lparr>sda_scheme = u_Scheme u, sda_addr = u_Host u\<rparr>)"
  by (auto simp: newDialer_def split: option.split)

subsection \<open>The header\<close>

definition inboundServerPrefix :: "u8 list" where
  "inboundServerPrefix = [1, 1, 1, 9, 1, 1, 1, 0]"

text \<open>
  \<open>write bs c\<close>: the bytes written, the error, and the connection after the call. The state of the loop
  holds what is still to be written and the error that made it return.
\<close>

type_synonym ('c, 'e) writer = "u8 list \<Rightarrow> 'c \<Rightarrow> (nat \<times> 'e option) \<times> 'c"

definition writeHeader_body ::
  "('c, 'e) writer \<Rightarrow> u8 list \<times> 'e option \<times> 'c \<Rightarrow> ((bool \<times> (u8 list \<times> 'e option \<times> 'c)) res) option" where
  "writeHeader_body write = (\<lambda>(toWrite, err, c).
     if toWrite = [] then Some (Inr (False, (toWrite, err, c)))
     else
       (let ((n, e), c1) = write toWrite c in
        case e of
          Some x \<Rightarrow> Some (Inr (False, (toWrite, Some x, c1)))
        | None \<Rightarrow>
            if n > length toWrite then Some (Inl SliceOutOfRange)
            else Some (Inr (True, (drop n toWrite, None, c1)))))"

definition writeHeader :: "('c, 'e) writer \<Rightarrow> 'c \<Rightarrow> (('e option \<times> 'c) res) option" where
  "writeHeader write c =
     bindO (loopR (writeHeader_body write) (inboundServerPrefix, None, c)) (\<lambda>(_, err, c1). Some (Inr (err, c1)))"

text \<open>A connection whose header could not be written is closed.\<close>

definition headerDialer_DialContext ::
  "'e + 'c \<Rightarrow> ('c, 'e) writer \<Rightarrow> ('c \<Rightarrow> 'c) \<Rightarrow> (('e + 'c) \<times> 'c option) res option" where
  "headerDialer_DialContext dialed write close =
     (case dialed of
        Inl e \<Rightarrow> Some (Inr (Inl e, None))
      | Inr conn \<Rightarrow>
          bindO (writeHeader write conn) (\<lambda>(err, conn1).
          case err of
            Some e \<Rightarrow> Some (Inr (Inl e, Some (close conn1)))
          | None \<Rightarrow> Some (Inr (Inr conn1, Some conn1))))"

text \<open>
  The documented behaviour of a connection: it writes a prefix of what it is given (\<open>out\<close> is what has
  been written to it), at least one byte when there is no error.
\<close>

definition writes :: "('c, 'e) writer \<Rightarrow> ('c \<Rightarrow> u8 list) \<Rightarrow> bool" where
  "writes write out \<longleftrightarrow>
     (\<forall>bs c n e c'. write bs c = ((n, e), c') \<longrightarrow>
        n \<le> length bs \<and> out c' = out c @ take n bs \<and> (e = None \<longrightarrow> bs \<noteq> [] \<longrightarrow> 0 < n))"

lemma writeHeader_loop:
  assumes "writes write out"
  shows "\<exists>w' e' c'. loopR (writeHeader_body write) (w, None, c) = Some (Inr (w', e', c')) \<and>
    (case e' of None \<Rightarrow> out c' = out c @ w | Some _ \<Rightarrow> \<exists>n. out c' = out c @ take n w)"
proof (induction "length w" arbitrary: w c rule: less_induct)
  case less
  show ?case
  proof (cases "w = []")
    case True
    then show ?thesis by (simp add: loopR.simps writeHeader_body_def)
  next
    case False
    obtain n x c1 where wr: "write w c = ((n, x), c1)" by (metis prod.collapse)
    with assms False have out: "n \<le> length w" "out c1 = out c @ take n w" "x = None \<longrightarrow> 0 < n"
      by (auto simp: writes_def)
    show ?thesis
    proof (cases x)
      case (Some e)
      with False wr out show ?thesis by (auto simp: loopR.simps writeHeader_body_def)
    next
      case None
      with out False have "length (drop n w) < length w" by simp
      from less [OF this, of c1] obtain w' e' c' where
        IH: "loopR (writeHeader_body write) (drop n w, None, c1) = Some (Inr (w', e', c'))"
        "case e' of None \<Rightarrow> out c' = out c1 @ drop n w | Some _ \<Rightarrow> \<exists>k. out c' = out c1 @ take k (drop n w)"
        by blast
      have "loopR (writeHeader_body write) (w, None, c) = Some (Inr (w', e', c'))"
        using IH(1) None False wr out by (subst loopR.simps) (simp add: writeHeader_body_def)
      moreover have "take n w @ take k (drop n w) = take (n + k) w" for k by (simp add: take_add)
      ultimately show ?thesis using IH(2) out(2) by (auto split: option.splits)
    qed
  qed
qed

text \<open>
  C32. The header reaches the service before anything else: on every connection that writes at least one
  byte per call or reports an error, however the bytes are split over the calls, the dialer returns; a
  connection that it returns has been sent exactly the eight bytes of the header, and one on which they
  could not all be written is closed and not returned.
\<close>

theorem DialContext_sends_header:
  assumes "writes write out"
  shows "\<exists>r conn'. headerDialer_DialContext (Inr conn) write close = Some (Inr (r, Some conn')) \<and>
    (case r of Inr c \<Rightarrow> c = conn' \<and> out c = out conn @ inboundServerPrefix
     | Inl e \<Rightarrow> \<exists>c n. conn' = close c \<and> out c = out conn @ take n inboundServerPrefix)"
proof -
  obtain w' e' c' where loop:
    "loopR (writeHeader_body write) (inboundServerPrefix, None, conn) = Some (Inr (w', e', c'))"
    "case e' of None \<Rightarrow> out c' = out conn @ inboundServerPrefix | Some _ \<Rightarrow> \<exists>n. out c' = out conn @ take n inboundServerPrefix"
    using writeHeader_loop [OF assms] by blast
  then show ?thesis
    by (cases e') (auto simp: headerDialer_DialContext_def writeHeader_def)
qed

text \<open>A connection that takes three bytes at a time.\<close>

definition slow_write :: "(u8 list, string) writer" where
  "slow_write bs c = ((min 3 (length bs), None), c @ take 3 bs)"

theorem DialContext_sends_header_witness:
  "headerDialer_DialContext (Inr [9]) slow_write (\<lambda>c. c) =
     Some (Inr (Inr [9, 1, 1, 1, 9, 1, 1, 1, 0], Some [9, 1, 1, 1, 9, 1, 1, 1, 0]))"
proof -
  have w: "writes slow_write (\<lambda>c. c)" by (auto simp: writes_def slow_write_def min_def)
  have never: "headerDialer_DialContext (Inr [9]) slow_write close \<noteq> Some (Inr (Inl e, k))" for close e k
  proof -
    have "loopR (writeHeader_body slow_write) (inboundServerPrefix, None, [9]) =
        Some (Inr ([], None, [9] @ inboundServerPrefix))"
      by (rule loop_fuel_loopR [of 4])
        (simp add: writeHeader_body_def slow_write_def inboundServerPrefix_def eval_nat_numeral)
    then show ?thesis by (simp add: headerDialer_DialContext_def writeHeader_def)
  qed
  obtain r conn' where r: "headerDialer_DialContext (Inr [9]) slow_write (\<lambda>c. c) = Some (Inr (r, Some conn'))"
    "case r of Inr c \<Rightarrow> c = conn' \<and> c = [9] @ inboundServerPrefix
     | Inl e \<Rightarrow> \<exists>c n. conn' = c \<and> c = [9] @ take n inboundServerPrefix"
    using DialContext_sends_header [OF w, of "[9]" "\<lambda>c. c"] by blast
  then obtain c where "r = Inr c" using never by (cases r) auto
  with r have "conn' = c" "c = [9] @ inboundServerPrefix" by auto
  with r(1) \<open>r = Inr c\<close> show ?thesis by (simp add: inboundServerPrefix_def)
qed

subsection \<open>The listener\<close>

datatype ConnectionStatus = UnknownStatus | Connected | Disconnected | Connecting

text \<open>
  A connection that was dialed: whether the underlying connection is open, whether \<open>closeOnce\<close> has run its
  function, whether the channel \<open>onClose\<close> is closed, and whether \<open>Accept\<close> has returned it.
\<close>

record wrappedConn =
  wc_open :: bool
  wc_closeOnce :: bool
  wc_onClose :: bool
  wc_accepted :: bool

text \<open>
  Where the goroutine of the listener is: before its first action; at the top of its loop, where it waits
  for the interval or for the cancellation; dialing; between the dial and the status; sending on
  \<open>dialChan\<close>; waiting for the connection to be closed; after that; and the two deferred calls.
\<close>

datatype run_pc = AtStart | AtTop | AtDial | AtConnected | AtSend | AtServe | AtClosed | AtReturn | AtExit | AtEnd

record Listener =
  li_pc :: run_pc
  li_status :: ConnectionStatus
  li_cancelled :: bool
  li_done :: bool
  li_conns :: "wrappedConn list"
  li_accepting :: nat
  li_closing :: nat

definition NewListener :: Listener where
  "NewListener =
     \<lparr>li_pc = AtStart, li_status = UnknownStatus, li_cancelled = False, li_done = False, li_conns = [],
      li_accepting = 0, li_closing = 0\<rparr>"

definition new_conn :: wrappedConn where
  "new_conn = \<lparr>wc_open = True, wc_closeOnce = False, wc_onClose = False, wc_accepted = False\<rparr>"

definition upd_conn :: "nat \<Rightarrow> (wrappedConn \<Rightarrow> wrappedConn) \<Rightarrow> Listener \<Rightarrow> Listener" where
  "upd_conn i f l = l\<lparr>li_conns := (li_conns l)[i := f (li_conns l ! i)]\<rparr>"

text \<open>The connection that the goroutine works on is the last one dialed.\<close>

definition current :: "Listener \<Rightarrow> nat" where
  "current l = length (li_conns l) - 1"

datatype action =
    RunStart | RunWaited | RunCancelledTop | RunDialFailed | RunDialed | RunSetConnected | RunHandOver
  | RunCancelledServe | RunConnClosed | RunSetConnecting | RunSetDisconnected | RunDone
  | AcceptCall | AcceptCancelled | ConnClose nat | ConnSignal nat | CloseCall | CloseReturn

inductive listener_step :: "Listener \<Rightarrow> action \<Rightarrow> Listener \<Rightarrow> bool" where
  start: "li_pc l = AtStart \<Longrightarrow> listener_step l RunStart (l\<lparr>li_pc := AtTop, li_status := Connecting\<rparr>)"
| waited: "li_pc l = AtTop \<Longrightarrow> listener_step l RunWaited (l\<lparr>li_pc := AtDial\<rparr>)"
| cancelled_top: "li_pc l = AtTop \<Longrightarrow> li_cancelled l \<Longrightarrow>
    listener_step l RunCancelledTop (l\<lparr>li_pc := AtReturn\<rparr>)"
| dial_failed: "li_pc l = AtDial \<Longrightarrow> listener_step l RunDialFailed (l\<lparr>li_pc := AtTop\<rparr>)"
| dialed: "li_pc l = AtDial \<Longrightarrow>
    listener_step l RunDialed (l\<lparr>li_pc := AtConnected, li_conns := li_conns l @ [new_conn]\<rparr>)"
| set_connected: "li_pc l = AtConnected \<Longrightarrow>
    listener_step l RunSetConnected (l\<lparr>li_pc := AtSend, li_status := Connected\<rparr>)"
| hand_over: "li_pc l = AtSend \<Longrightarrow> 0 < li_accepting l \<Longrightarrow>
    listener_step l RunHandOver
      ((upd_conn (current l) (\<lambda>c. c\<lparr>wc_accepted := True\<rparr>) l)\<lparr>li_pc := AtServe, li_accepting := li_accepting l - 1\<rparr>)"
| cancelled_serve: "li_pc l = AtServe \<Longrightarrow> li_cancelled l \<Longrightarrow>
    listener_step l RunCancelledServe (l\<lparr>li_pc := AtReturn\<rparr>)"
| conn_closed: "li_pc l = AtServe \<Longrightarrow> wc_onClose (li_conns l ! current l) \<Longrightarrow>
    listener_step l RunConnClosed (l\<lparr>li_pc := AtClosed\<rparr>)"
| set_connecting: "li_pc l = AtClosed \<Longrightarrow>
    listener_step l RunSetConnecting (l\<lparr>li_pc := AtTop, li_status := Connecting\<rparr>)"
| set_disconnected: "li_pc l = AtReturn \<Longrightarrow>
    listener_step l RunSetDisconnected (l\<lparr>li_pc := AtExit, li_status := Disconnected\<rparr>)"
| run_done: "li_pc l = AtExit \<Longrightarrow> listener_step l RunDone (l\<lparr>li_pc := AtEnd, li_done := True\<rparr>)"
| accept: "listener_step l AcceptCall (l\<lparr>li_accepting := li_accepting l + 1\<rparr>)"
| accept_cancelled: "li_cancelled l \<Longrightarrow> 0 < li_accepting l \<Longrightarrow>
    listener_step l AcceptCancelled (l\<lparr>li_accepting := li_accepting l - 1\<rparr>)"
| conn_close: "i < length (li_conns l) \<Longrightarrow> wc_accepted (li_conns l ! i) \<Longrightarrow> \<not> wc_closeOnce (li_conns l ! i) \<Longrightarrow>
    listener_step l (ConnClose i) (upd_conn i (\<lambda>c. c\<lparr>wc_closeOnce := True, wc_open := False\<rparr>) l)"
| conn_signal: "i < length (li_conns l) \<Longrightarrow> wc_closeOnce (li_conns l ! i) \<Longrightarrow>
    listener_step l (ConnSignal i) (upd_conn i (\<lambda>c. c\<lparr>wc_onClose := True\<rparr>) l)"
| close: "listener_step l CloseCall (l\<lparr>li_cancelled := True, li_closing := li_closing l + 1\<rparr>)"
| close_return: "li_done l \<Longrightarrow> 0 < li_closing l \<Longrightarrow>
    listener_step l CloseReturn (l\<lparr>li_closing := li_closing l - 1\<rparr>)"

inductive_cases listener_stepE: "listener_step l a l'"

definition listener_reach :: "Listener \<Rightarrow> bool" where
  "listener_reach = reachable NewListener (\<lambda>l l'. \<exists>a. listener_step l a l')"

lemma listener_reach_new: "listener_reach NewListener"
  by (simp add: listener_reach_def reachable_init)

lemma listener_reach_step: "listener_reach l \<Longrightarrow> listener_step l a l' \<Longrightarrow> listener_reach l'"
  unfolding listener_reach_def by (blast intro: reachable_step)

definition busy_pcs :: "run_pc set" where
  "busy_pcs = {AtConnected, AtSend, AtServe}"

definition ended_pcs :: "run_pc set" where
  "ended_pcs = {AtReturn, AtExit, AtEnd}"

text \<open>
  The invariant: a connection is open only if it is the last one dialed and the goroutine is at work on
  it or has ended; the channel of a connection is closed only after the connection; the status goes with
  the place of the goroutine; it ends only after a call of \<open>Close\<close>.
\<close>

definition listener_inv :: "Listener \<Rightarrow> bool" where
  "listener_inv l \<longleftrightarrow>
     (\<forall>i < length (li_conns l). wc_open (li_conns l ! i) \<longrightarrow>
        i = current l \<and> li_pc l \<in> busy_pcs \<union> ended_pcs) \<and>
     (\<forall>i < length (li_conns l). wc_closeOnce (li_conns l ! i) \<longrightarrow> \<not> wc_open (li_conns l ! i)) \<and>
     (\<forall>i < length (li_conns l). wc_onClose (li_conns l ! i) \<longrightarrow> wc_closeOnce (li_conns l ! i)) \<and>
     (li_pc l \<in> busy_pcs \<union> {AtClosed} \<longrightarrow> li_conns l \<noteq> []) \<and>
     (li_pc l \<in> ended_pcs \<longrightarrow> li_cancelled l) \<and>
     (li_done l \<longleftrightarrow> li_pc l = AtEnd) \<and>
     (li_status l = UnknownStatus \<longleftrightarrow> li_pc l = AtStart) \<and>
     (li_status l = Disconnected \<longleftrightarrow> li_pc l \<in> {AtExit, AtEnd}) \<and>
     (li_pc l \<in> {AtSend, AtServe} \<longrightarrow> li_status l = Connected) \<and>
     (li_pc l \<in> {AtTop, AtDial, AtConnected} \<longrightarrow> li_status l = Connecting) \<and>
     (0 < li_closing l \<longrightarrow> li_cancelled l)"

lemma listener_inv_new: "listener_inv NewListener"
  by (simp add: listener_inv_def NewListener_def busy_pcs_def ended_pcs_def)

lemma listener_inv_step: "listener_step l a l' \<Longrightarrow> listener_inv l \<Longrightarrow> listener_inv l'"
proof (induction rule: listener_step.induct)
qed (force simp: listener_inv_def upd_conn_def current_def nth_list_update nth_append less_Suc_eq new_conn_def
      busy_pcs_def ended_pcs_def)+

interpretation LI: transition_inv NewListener "\<lambda>l l'. \<exists>a. listener_step l a l'" listener_inv
  by unfold_locales (use listener_inv_new listener_inv_step in blast)+

text \<open>
  C24. There is at most one connection, in every reachable state, however the goroutine and the callers
  interleave: two connections are never open at once, a dial starts only when none is; the goroutine has
  ended only if \<open>Close\<close> was called, and then the status is disconnected; and the status says connected
  while a connection is being handed over or used.
\<close>

theorem Listener_one_connection:
  assumes "listener_reach l"
  shows "card {i. i < length (li_conns l) \<and> wc_open (li_conns l ! i)} \<le> 1 \<and>
    (li_pc l = AtDial \<longrightarrow> {i. i < length (li_conns l) \<and> wc_open (li_conns l ! i)} = {}) \<and>
    (li_done l \<longrightarrow> li_cancelled l \<and> li_status l = Disconnected) \<and>
    (li_pc l = AtSend \<or> li_pc l = AtServe \<longrightarrow> li_status l = Connected)"
proof -
  have inv: "listener_inv l" using assms LI.reachable_inv unfolding listener_reach_def by blast
  then have only: "i = current l \<and> li_pc l \<in> busy_pcs \<union> ended_pcs"
    if "i < length (li_conns l)" "wc_open (li_conns l ! i)" for i
    using that unfolding listener_inv_def by blast
  then have sub: "{i. i < length (li_conns l) \<and> wc_open (li_conns l ! i)} \<subseteq> {current l}" by blast
  have dial: "{i. i < length (li_conns l) \<and> wc_open (li_conns l ! i)} = {}" if "li_pc l = AtDial"
    using only that by (auto simp: busy_pcs_def ended_pcs_def)
  have "card {i. i < length (li_conns l) \<and> wc_open (li_conns l ! i)} \<le> card {current l}"
    by (rule card_mono [OF _ sub]) simp
  moreover have "li_done l \<longrightarrow> li_cancelled l \<and> li_status l = Disconnected"
    "li_pc l = AtSend \<or> li_pc l = AtServe \<longrightarrow> li_status l = Connected"
    using inv unfolding listener_inv_def ended_pcs_def by blast+
  ultimately show ?thesis using dial by simp
qed

text \<open>A run in which a connection is dialed, handed over, closed, and the next one is being dialed.\<close>

lemma example_run:
  "listener_reach \<lparr>li_pc = AtDial, li_status = Connecting, li_cancelled = False, li_done = False,
     li_conns = [\<lparr>wc_open = False, wc_closeOnce = True, wc_onClose = True, wc_accepted = True\<rparr>],
     li_accepting = 0, li_closing = 0\<rparr>"
proof -
  note go = listener_reach_step
  define at where "at pc st cs n = \<lparr>li_pc = pc, li_status = st, li_cancelled = False, li_done = False,
      li_conns = cs, li_accepting = n, li_closing = 0\<rparr>" for pc st cs n
  define conn where "conn a b c d = \<lparr>wc_open = a, wc_closeOnce = b, wc_onClose = c, wc_accepted = d\<rparr>" for a b c d
  note defs = at_def conn_def
  have 1: "listener_reach (at AtTop Connecting [] 0)"
    using go [OF listener_reach_new start] by (simp add: NewListener_def at_def)
  have 2: "listener_reach (at AtDial Connecting [] 0)" using go [OF 1 waited] by (simp add: at_def)
  have 3: "listener_reach (at AtConnected Connecting [conn True False False False] 0)"
    using go [OF 2 dialed] by (simp add: defs new_conn_def)
  have 4: "listener_reach (at AtSend Connected [conn True False False False] 0)"
    using go [OF 3 set_connected] by (simp add: defs)
  have 5: "listener_reach (at AtSend Connected [conn True False False False] 1)"
    using go [OF 4 accept] by (simp add: defs)
  have 6: "listener_reach (at AtServe Connected [conn True False False True] 0)"
    using go [OF 5 hand_over] by (simp add: defs upd_conn_def current_def)
  have 7: "listener_reach (at AtServe Connected [conn False True False True] 0)"
    using go [OF 6 conn_close [where i = 0]] by (simp add: defs upd_conn_def)
  have 8: "listener_reach (at AtServe Connected [conn False True True True] 0)"
    using go [OF 7 conn_signal [where i = 0]] by (simp add: defs upd_conn_def)
  have 9: "listener_reach (at AtClosed Connected [conn False True True True] 0)"
    using go [OF 8 conn_closed] by (simp add: defs current_def)
  have 10: "listener_reach (at AtTop Connecting [conn False True True True] 0)"
    using go [OF 9 set_connecting] by (simp add: defs)
  show ?thesis using go [OF 10 waited] by (simp add: defs)
qed

theorem Listener_one_connection_witness:
  "\<exists>l. listener_reach l \<and> li_pc l = AtDial \<and> length (li_conns l) = 1 \<and>
     {i. i < length (li_conns l) \<and> wc_open (li_conns l ! i)} = {}"
  using Listener_one_connection [OF example_run] example_run by (intro exI conjI) (assumption | simp)+

subsection \<open>Closing the listener\<close>

text \<open>
  The steps of everyone but new callers of \<open>Accept\<close>: the one caller, gRPC's \<open>Serve\<close>, stops calling it
  once it has returned an error.
\<close>

definition no_accept_step :: "Listener \<Rightarrow> Listener \<Rightarrow> bool" where
  "no_accept_step l l' \<longleftrightarrow> (\<exists>a. a \<noteq> AcceptCall \<and> listener_step l a l')"

definition stuck_inv :: "Listener \<Rightarrow> bool" where
  "stuck_inv l \<longleftrightarrow> li_pc l = AtSend \<and> li_accepting l = 0 \<and> \<not> li_done l \<and> 0 < li_closing l"

lemma stuck_inv_step: "stuck_inv l \<Longrightarrow> no_accept_step l l' \<Longrightarrow> stuck_inv l'"
  unfolding no_accept_step_def by (auto simp: stuck_inv_def upd_conn_def elim!: listener_stepE)

lemma stuck_inv_steps: "no_accept_step\<^sup>*\<^sup>* l l' \<Longrightarrow> stuck_inv l \<Longrightarrow> stuck_inv l'"
  by (induction rule: rtranclp_induct) (auto intro: stuck_inv_step)

text \<open>
  C37. \<open>Close\<close> can block forever: the goroutine sends the connection on \<open>dialChan\<close> without watching the
  cancellation, so when \<open>Close\<close> is called between the dial and the hand-over, and the caller of
  \<open>Accept\<close> has returned because of the cancellation, no further step lets \<open>Close\<close> return unless
  \<open>Accept\<close> is called again.
\<close>

theorem Listener_Close_blocks:
  "\<exists>l. listener_reach l \<and> li_cancelled l \<and> li_closing l = 1 \<and> card {i. i < length (li_conns l) \<and> wc_open (li_conns l ! i)} = 1 \<and>
     (\<nexists>l'. no_accept_step\<^sup>*\<^sup>* l l' \<and> (li_done l' \<or> li_closing l' = 0))"
proof -
  note go = listener_reach_step
  define at where "at pc st cs n k = \<lparr>li_pc = pc, li_status = st, li_cancelled = (0 < k), li_done = False,
      li_conns = cs, li_accepting = n, li_closing = k\<rparr>" for pc st cs n k
  have 1: "listener_reach (at AtStart UnknownStatus [] 1 0)"
    using go [OF listener_reach_new accept] by (simp add: NewListener_def at_def)
  have 2: "listener_reach (at AtTop Connecting [] 1 0)" using go [OF 1 start] by (simp add: at_def)
  have 3: "listener_reach (at AtDial Connecting [] 1 0)" using go [OF 2 waited] by (simp add: at_def)
  have 4: "listener_reach (at AtConnected Connecting [new_conn] 1 0)" using go [OF 3 dialed] by (simp add: at_def)
  have 5: "listener_reach (at AtSend Connected [new_conn] 1 0)" using go [OF 4 set_connected] by (simp add: at_def)
  have 6: "listener_reach (at AtSend Connected [new_conn] 1 1)" using go [OF 5 close] by (simp add: at_def)
  have 7: "listener_reach (at AtSend Connected [new_conn] 0 1)" using go [OF 6 accept_cancelled] by (simp add: at_def)
  define l where "l = at AtSend Connected [new_conn] 0 1"
  have stuck: "stuck_inv l" by (simp add: l_def at_def stuck_inv_def)
  have "\<not> li_done l' \<and> li_closing l' \<noteq> 0" if "no_accept_step\<^sup>*\<^sup>* l l'" for l'
    using stuck_inv_steps [OF that stuck] by (simp add: stuck_inv_def)
  then have "\<nexists>l'. no_accept_step\<^sup>*\<^sup>* l l' \<and> (li_done l' \<or> li_closing l' = 0)" by blast
  moreover have "{i. i < length (li_conns l) \<and> wc_open (li_conns l ! i)} = {0}"
    by (auto simp: l_def at_def new_conn_def)
  ultimately show ?thesis
    using 7 by (intro exI [of _ l]) (simp add: l_def at_def)
qed

end
