(* ===== verification/Fetcher.thy ===== *)
theory Fetcher
  imports Snapshot_Program Side_Eye_Prelude
begin

text \<open>
  Fetching a snapshot program (\<open>internal/server/fetcher.go\<close>): the chunks of the remote fetcher, and the
  cache in front of it, which shares a fetch among the callers that ask for the same key at once.

  A Go map has no order: the cache is a list of distinct keys, and the key that its iteration starts with
  is a parameter, \<open>pick\<close>. The goroutines that share a fetch are seen by one caller as a list of \<open>flight\<close>s,
  one per call of \<open>g.Do\<close>: the caller leads it, or it gets the result of another one.
\<close>

datatype fetch_error =
    Canceled | DeadlineExceeded
  | GetFailed string | RecvFailed string | UnmarshalFailed

subsection \<open>The remote fetcher\<close>

text \<open>What \<open>Recv\<close> returns, call after call; after the last it returns \<open>io.EOF\<close>.\<close>

fun recv_chunks :: "(fetch_error + u8 list) list \<Rightarrow> u8 list \<Rightarrow> fetch_error + u8 list" where
  "recv_chunks [] buf = Inr buf"
| "recv_chunks (r # rs) buf =
     (case r of Inl e \<Rightarrow> Inl e | Inr data \<Rightarrow> recv_chunks rs (buf @ data))"

definition remote_FetchSnapshotProgram ::
  "(string \<Rightarrow> fetch_error + (fetch_error + u8 list) list) \<Rightarrow> (u8 list \<Rightarrow> 'p option) \<Rightarrow> string \<Rightarrow> fetch_error + 'p" where
  "remote_FetchSnapshotProgram getArtifact unmarshal key =
     bindE (getArtifact key) (\<lambda>chunks.
     bindE (recv_chunks chunks []) (\<lambda>buf.
     ofOption UnmarshalFailed (unmarshal buf)))"

lemma recv_chunks_all: "recv_chunks (map Inr ds) buf = Inr (buf @ concat ds)"
  by (induction ds arbitrary: buf) simp_all

lemma recv_chunks_Inr: "recv_chunks rs buf = Inr bs \<longleftrightarrow> (\<exists>ds. rs = map Inr ds \<and> bs = buf @ concat ds)"
proof (induction rs arbitrary: buf)
  case (Cons r rs)
  show ?case by (cases r) (auto simp: Cons map_eq_Cons_conv Cons_eq_map_conv)
qed auto

lemma remote_fetch_chunks:
  "getArtifact key = Inr (map Inr ds) \<Longrightarrow>
   remote_FetchSnapshotProgram getArtifact unmarshal key = ofOption UnmarshalFailed (unmarshal (concat ds))"
  by (simp add: remote_FetchSnapshotProgram_def recv_chunks_all)

subsection \<open>The cache\<close>

record 'p cachedSnapshotFetcher =
  cf_maxCapacity :: int
  cf_cache :: "(string \<times> 'p) list"

definition newCachedSnapshotFetcher :: "int \<Rightarrow> 'p cachedSnapshotFetcher" where
  "newCachedSnapshotFetcher maxCapacity = \<lparr>cf_maxCapacity = maxCapacity, cf_cache = []\<rparr>"

definition NewSnapshotFetcher :: "'p cachedSnapshotFetcher" where
  "NewSnapshotFetcher = newCachedSnapshotFetcher 2"

definition getCached :: "string \<Rightarrow> 'p cachedSnapshotFetcher \<Rightarrow> 'p option" where
  "getCached key s = map_of (cf_cache s) key"

text \<open>The entry at which the iteration of the map starts is removed.\<close>

definition remove_at :: "nat \<Rightarrow> 'a list \<Rightarrow> 'a list" where
  "remove_at i xs = take i xs @ drop (i + 1) xs"

function evict :: "((string \<times> 'p) list \<Rightarrow> nat) \<Rightarrow> int \<Rightarrow> (string \<times> 'p) list \<Rightarrow> (string \<times> 'p) list" where
  "evict pick maxCapacity c =
     (if int (length c) \<ge> maxCapacity \<and> length c > 0
      then evict pick maxCapacity (remove_at (pick c mod length c) c)
      else c)"
  by pat_completeness auto
termination
proof (relation "measure (\<lambda>(_, _, c). length c)")
  fix pick :: "(string \<times> 'p) list \<Rightarrow> nat" and m :: int and c :: "(string \<times> 'p) list"
  assume "int (length c) \<ge> m \<and> length c > 0"
  then have "pick c mod length c < length c" by simp
  then show "((pick, m, remove_at (pick c mod length c) c), (pick, m, c)) \<in> measure (\<lambda>(_, _, c). length c)"
    by (simp add: remove_at_def)
qed simp

declare evict.simps [simp del]

definition cache_insert :: "string \<Rightarrow> 'p \<Rightarrow> (string \<times> 'p) list \<Rightarrow> (string \<times> 'p) list" where
  "cache_insert key p c = (key, p) # filter (\<lambda>(k, _). k \<noteq> key) c"

definition store_program ::
  "((string \<times> 'p) list \<Rightarrow> nat) \<Rightarrow> string \<Rightarrow> 'p \<Rightarrow> 'p cachedSnapshotFetcher \<Rightarrow> 'p cachedSnapshotFetcher" where
  "store_program pick key p s =
     s\<lparr>cf_cache := cache_insert key p (evict pick (cf_maxCapacity s) (cf_cache s))\<rparr>"

text \<open>
  \<open>Leads r c\<close>: the caller's own function is called, and its fetch has the result \<open>r\<close>. \<open>Shared r done c\<close>: it gets the
  result \<open>r\<close> of another caller; \<open>done\<close> says whether its own context has ended by then. In both \<open>c\<close> is the cache by then,
  which callers with other keys may have changed in the meantime.
\<close>

datatype 'p flight =
    Leads "fetch_error + 'p" "(string \<times> 'p) list"
  | Shared "fetch_error + 'p" bool "(string \<times> 'p) list"

fun fetch_loop ::
  "((string \<times> 'p) list \<Rightarrow> nat) \<Rightarrow> string \<Rightarrow> 'p flight list \<Rightarrow> 'p cachedSnapshotFetcher \<Rightarrow>
   ((fetch_error + 'p) \<times> 'p cachedSnapshotFetcher) option" where
  "fetch_loop pick key [] s = None"
| "fetch_loop pick key (Leads (Inl e) c # fs) s = Some (Inl e, s\<lparr>cf_cache := c\<rparr>)"
| "fetch_loop pick key (Leads (Inr p) c # fs) s = Some (Inr p, store_program pick key p (s\<lparr>cf_cache := c\<rparr>))"
| "fetch_loop pick key (Shared (Inr p) done c # fs) s = Some (Inr p, s\<lparr>cf_cache := c\<rparr>)"
| "fetch_loop pick key (Shared (Inl e) done c # fs) s =
     (let s1 = s\<lparr>cf_cache := c\<rparr> in
      if \<not> done \<and> (e = Canceled \<or> e = DeadlineExceeded) then fetch_loop pick key fs s1
      else Some (Inl e, s1))"

definition cached_FetchSnapshotProgram ::
  "((string \<times> 'p) list \<Rightarrow> nat) \<Rightarrow> string \<Rightarrow> 'p flight list \<Rightarrow> 'p cachedSnapshotFetcher \<Rightarrow>
   ((fetch_error + 'p) \<times> 'p cachedSnapshotFetcher) option" where
  "cached_FetchSnapshotProgram pick key fs s =
     (case getCached key s of
        Some p \<Rightarrow> Some (Inr p, s)
      | None \<Rightarrow> fetch_loop pick key fs s)"

subsection \<open>Properties\<close>

definition cache_ok :: "int \<Rightarrow> (string \<times> 'p) list \<Rightarrow> bool" where
  "cache_ok maxCapacity c \<longleftrightarrow> distinct (map fst c) \<and> int (length c) \<le> max 1 maxCapacity"

lemma remove_at_length: "i < length xs \<Longrightarrow> length (remove_at i xs) = length xs - 1"
  by (simp add: remove_at_def)

lemma remove_at_set: "set (remove_at i xs) \<subseteq> set xs"
  by (auto simp: remove_at_def dest: in_set_takeD in_set_dropD)

lemma remove_at_distinct:
  assumes "distinct (map fst c)"
  shows "distinct (map fst (remove_at i c))"
proof -
  have "map fst (remove_at i c) = take i (map fst c) @ drop (i + 1) (map fst c)"
    by (simp add: remove_at_def take_map drop_map)
  with assms set_take_disj_set_drop_if_distinct [of "map fst c" i "i + 1"] show ?thesis by simp
qed

text \<open>Eviction makes room for one more, keeps the keys distinct and adds nothing.\<close>

lemma evict_ok:
  assumes "distinct (map fst c)"
  shows "distinct (map fst (evict pick m c)) \<and> set (evict pick m c) \<subseteq> set c \<and>
    int (length (evict pick m c)) \<le> max 0 (m - 1)"
  using assms
proof (induction pick m c rule: evict.induct)
  case (1 pick m c)
  show ?case
  proof (cases "int (length c) \<ge> m \<and> length c > 0")
    case True
    from 1(1) [OF True remove_at_distinct [OF 1(2)]] remove_at_set [of "pick c mod length c" c] True
    show ?thesis by (subst (1 2 3) evict.simps) auto
  next
    case False
    with 1(2) show ?thesis by (subst (1 2 3) evict.simps) auto
  qed
qed

lemma store_program_ok:
  assumes "cache_ok (cf_maxCapacity s) (cf_cache s)"
  shows "cache_ok (cf_maxCapacity s) (cf_cache (store_program pick key p s))"
    and "map_of (cf_cache (store_program pick key p s)) key = Some p"
    and "map_of (cf_cache (store_program pick key p s)) k = Some q \<Longrightarrow> k \<noteq> key \<Longrightarrow> map_of (cf_cache s) k = Some q"
proof -
  define c where "c = evict pick (cf_maxCapacity s) (cf_cache s)"
  have dist: "distinct (map fst (cf_cache s))" using assms by (simp add: cache_ok_def)
  from evict_ok [OF this, of pick "cf_maxCapacity s"]
  have c: "distinct (map fst c)" "set c \<subseteq> set (cf_cache s)" "int (length c) \<le> max 0 (cf_maxCapacity s - 1)"
    by (simp_all add: c_def)
  have st: "cf_cache (store_program pick key p s) = (key, p) # filter (\<lambda>(k, _). k \<noteq> key) c"
    by (simp add: store_program_def cache_insert_def c_def)
  have "int (length (filter (\<lambda>(k, _). k \<noteq> key) c)) \<le> int (length c)" by simp
  with c(3) have "1 + int (length (filter (\<lambda>(k, _). k \<noteq> key) c)) \<le> max 1 (cf_maxCapacity s)" by linarith
  moreover have "distinct (map fst (filter (\<lambda>(k, _). k \<noteq> key) c))"
    using c(1) by (rule distinct_map_filter)
  ultimately show "cache_ok (cf_maxCapacity s) (cf_cache (store_program pick key p s))"
    by (auto simp: st cache_ok_def)
  show "map_of (cf_cache (store_program pick key p s)) key = Some p" by (simp add: st)
  show "map_of (cf_cache s) k = Some q"
    if "map_of (cf_cache (store_program pick key p s)) k = Some q" "k \<noteq> key"
  proof -
    have "(k, q) \<in> set c" using that map_of_SomeD [of "filter (\<lambda>(k, _). k \<noteq> key) c" k q] by (auto simp: st)
    with c(2) dist show ?thesis by (meson map_of_is_SomeI subsetD)
  qed
qed

text \<open>What the flights may do: the caches that other callers leave are within the bound.\<close>

fun flight_cache :: "'p flight \<Rightarrow> (string \<times> 'p) list" where
  "flight_cache (Leads r c) = c"
| "flight_cache (Shared r done c) = c"

definition flights_ok :: "int \<Rightarrow> 'p flight list \<Rightarrow> bool" where
  "flights_ok m fs \<longleftrightarrow> (\<forall>f \<in> set fs. cache_ok m (flight_cache f))"

text \<open>The flights after which the caller tries again, and what it returns after one of the others.\<close>

fun retries :: "'p flight \<Rightarrow> bool" where
  "retries (Shared (Inl e) done c) \<longleftrightarrow> \<not> done \<and> (e = Canceled \<or> e = DeadlineExceeded)"
| "retries _ \<longleftrightarrow> False"

fun flight_result :: "'p flight \<Rightarrow> fetch_error + 'p" where
  "flight_result (Leads r c) = r"
| "flight_result (Shared r done c) = r"

text \<open>The loop ends with the first flight that is not tried again.\<close>

lemma fetch_loop_first:
  "fetch_loop pick key fs s =
     (case dropWhile retries fs of
        [] \<Rightarrow> None
      | f # _ \<Rightarrow> Some (flight_result f,
          (case f of Leads (Inr p) c \<Rightarrow> store_program pick key p (s\<lparr>cf_cache := c\<rparr>) | _ \<Rightarrow> s\<lparr>cf_cache := flight_cache f\<rparr>)))"
proof (induction pick key fs s rule: fetch_loop.induct)
  case (5 pick key e dn c fs s)
  then show ?case
    by (cases "\<not> dn \<and> (e = Canceled \<or> e = DeadlineExceeded)")
      (auto simp: Let_def simp del: dropWhile_eq_Nil_conv split: list.split flight.split sum.split)
qed simp_all

lemma store_program_capacity [simp]: "cf_maxCapacity (store_program pick key p s) = cf_maxCapacity s"
  by (simp add: store_program_def)

lemma fetch_loop_cache:
  assumes "fetch_loop pick key fs s = Some (r, s')" "flights_ok (cf_maxCapacity s) fs"
  shows "cf_maxCapacity s' = cf_maxCapacity s" "cache_ok (cf_maxCapacity s) (cf_cache s')"
proof -
  obtain f fs' where f: "dropWhile retries fs = f # fs'"
    "s' = (case f of Leads (Inr p) c \<Rightarrow> store_program pick key p (s\<lparr>cf_cache := c\<rparr>) | _ \<Rightarrow> s\<lparr>cf_cache := flight_cache f\<rparr>)"
    using assms(1) unfolding fetch_loop_first by (auto split: list.splits)
  have "f \<in> set fs" using f(1) by (metis list.set_intros(1) set_dropWhileD)
  then have "cache_ok (cf_maxCapacity s) (flight_cache f)" using assms(2) by (simp add: flights_ok_def)
  with f(2) store_program_ok(1) [of "s\<lparr>cf_cache := flight_cache f\<rparr>" pick key]
  show "cf_maxCapacity s' = cf_maxCapacity s" "cache_ok (cf_maxCapacity s) (cf_cache s')"
    by (auto split: flight.splits sum.splits)
qed

text \<open>
  C30. The cache in front of the fetcher. What a caller returns: a program that is cached, without a fetch; otherwise
  the result of the first shared fetch that counts, be it its own or another caller's, success or failure. Only
  the cancellation of another caller's fetch does not count while its own context has not ended, and then it tries
  again; it does not return exactly when every fetch is like that. Whatever the fetches and the changes of
  others to the cache in the meantime, the cache holds each key once and never more programs than its capacity (one, if that
  is smaller); and a program that the caller fetched itself is in the cache afterwards.
\<close>

theorem FetchSnapshotProgram_cache:
  assumes "cache_ok (cf_maxCapacity s) (cf_cache s)" "flights_ok (cf_maxCapacity s) fs"
  shows "map_option fst (cached_FetchSnapshotProgram pick key fs s) =
      (case getCached key s of
         Some p \<Rightarrow> Some (Inr p)
       | None \<Rightarrow> (case dropWhile retries fs of [] \<Rightarrow> None | f # _ \<Rightarrow> Some (flight_result f))) \<and>
    (\<forall>r s'. cached_FetchSnapshotProgram pick key fs s = Some (r, s') \<longrightarrow>
       cf_maxCapacity s' = cf_maxCapacity s \<and> cache_ok (cf_maxCapacity s) (cf_cache s') \<and>
       (getCached key s \<noteq> None \<longrightarrow> s' = s) \<and>
       (\<forall>q c fs'. getCached key s = None \<and> dropWhile retries fs = Leads (Inr q) c # fs' \<longrightarrow> getCached key s' = Some q))"
proof (intro conjI allI impI)
  show "map_option fst (cached_FetchSnapshotProgram pick key fs s) =
      (case getCached key s of
         Some p \<Rightarrow> Some (Inr p)
       | None \<Rightarrow> (case dropWhile retries fs of [] \<Rightarrow> None | f # _ \<Rightarrow> Some (flight_result f)))"
    by (cases "dropWhile retries fs")
      (simp_all add: cached_FetchSnapshotProgram_def fetch_loop_first del: dropWhile_eq_Nil_conv split: option.split)
  fix r s' assume r: "cached_FetchSnapshotProgram pick key fs s = Some (r, s')"
  show "cf_maxCapacity s' = cf_maxCapacity s" "cache_ok (cf_maxCapacity s) (cf_cache s')"
    using r fetch_loop_cache [OF _ assms(2)] assms(1)
    by (auto simp: cached_FetchSnapshotProgram_def split: option.splits)
  show "s' = s" if "getCached key s \<noteq> None" using r that by (auto simp: cached_FetchSnapshotProgram_def)
  fix q c fs' assume q: "getCached key s = None \<and> dropWhile retries fs = Leads (Inr q) c # fs'"
  then have "Leads (Inr q) c \<in> set fs" by (metis list.set_intros(1) set_dropWhileD)
  then have "cache_ok (cf_maxCapacity s) c" using assms(2) by (auto simp: flights_ok_def)
  with q r show "getCached key s' = Some q"
    using store_program_ok(2) [of "s\<lparr>cf_cache := c\<rparr>" pick key q]
    by (auto simp: cached_FetchSnapshotProgram_def fetch_loop_first getCached_def)
qed

theorem FetchSnapshotProgram_cache_witness:
  "\<exists>s'. cached_FetchSnapshotProgram (\<lambda>_. 0) ''c''
      [Shared (Inl Canceled) False [(''a'', 7)], Leads (Inr 3) [(''a'', 7), (''b'', 2)]]
      (NewSnapshotFetcher :: nat cachedSnapshotFetcher) = Some (Inr 3, s') \<and>
    cache_ok 2 (cf_cache s') \<and> getCached ''c'' s' = Some 3"
proof -
  define s0 where "s0 = (NewSnapshotFetcher :: nat cachedSnapshotFetcher)"
  define fs where "fs = [Shared (Inl Canceled) False [(''a'', 7)], Leads (Inr (3 :: nat)) [(''a'', 7), (''b'', 2)]]"
  have h: "cache_ok (cf_maxCapacity s0) (cf_cache s0)" "flights_ok (cf_maxCapacity s0) fs"
    by (simp_all add: s0_def NewSnapshotFetcher_def newCachedSnapshotFetcher_def cache_ok_def fs_def flights_ok_def)
  have d: "dropWhile retries fs = [Leads (Inr 3) [(''a'', 7), (''b'', 2)]]" by (simp add: fs_def)
  have c: "getCached ''c'' s0 = None" "cf_maxCapacity s0 = 2"
    by (simp_all add: s0_def NewSnapshotFetcher_def newCachedSnapshotFetcher_def getCached_def)
  note t = FetchSnapshotProgram_cache [OF h, of "\<lambda>_. 0" "''c''", unfolded d c]
  then obtain s' where "cached_FetchSnapshotProgram (\<lambda>_. 0) ''c'' fs s0 = Some (Inr 3, s')" by auto
  with t show ?thesis unfolding s0_def [symmetric] fs_def [symmetric] by blast
qed

end
