(* ===== verification/Server_Rpc.thy ===== *)
theory Server_Rpc
  imports Fetcher Snapshot_Props
begin

text \<open>
  The service that the process offers on its connection (\<open>internal/server/server.go\<close>): the RPCs as
  functions of what their calls return. The results of \<open>os\<close>, \<open>net\<close>, \<open>pprof\<close> and of the stream are
  parameters; the messages sent and the calls made, in order, are part of the result.
\<close>

subsection \<open>Streams and messages\<close>

text \<open>
  A stream to which messages are sent. \<open>os_results\<close> are the results of the next calls of \<open>Send\<close>; those
  behind its end succeed.
\<close>

record 'm out_stream =
  os_sent :: "'m list"
  os_results :: "string option list"

definition stream_Send :: "'m \<Rightarrow> 'm out_stream \<Rightarrow> string option \<times> 'm out_stream" where
  "stream_Send msg st =
     (case os_results st of
        [] \<Rightarrow> (None, st\<lparr>os_sent := os_sent st @ [msg]\<rparr>)
      | None # rs \<Rightarrow> (None, st\<lparr>os_sent := os_sent st @ [msg], os_results := rs\<rparr>)
      | Some e # rs \<Rightarrow> (Some e, st\<lparr>os_results := rs\<rparr>))"

datatype rpc_error =
    ExecutablePath string | OpenExecutable string | ReadExecutable string | SendFailed string
  | CtxDone string | EventsUnsupported
  | RecvRequest string | UnexpectedRequest | FetchProgram fetch_error | SendHeaderFailed string
  | SnapshotFailed snapshot_error
  | HashFailed string
  | FingerprintMismatch | StartProfile string | ProfileCanceled string

record MachinaInfoResponse =
  mi_Fingerprint :: string
  mi_Version :: string
  mi_TenantToken :: string
  mi_Environment :: string
  mi_IsLibrary :: bool
  mi_Hostname :: string
  mi_IpAddresses :: "string list"

record Process =
  pc_Pid :: u64
  pc_Cmd :: "string list"
  pc_ExePath :: string
  pc_Env :: "string list"
  pc_BinaryHash :: string
  pc_Fingerprint :: string
  pc_Environment :: string
  pc_Program :: string
  pc_Labels :: "string list"
  pc_Ephemeral :: bool

datatype SnapshotRequest = SnapshotRequest_Setup string | SnapshotRequest_Snapshot | SnapshotRequest_None

datatype CaptureContents = Contents_INVALID | EXECUTION_TRACE | EXECUTION_TRACE_AND_CPU_PROFILE

record CaptureRequest =
  cq_ProcessFingerprint :: string
  cq_Seconds :: u32
  cq_Contents :: CaptureContents

datatype CaptureResponse =
    ExecutionTraceStart "int" u32 | ExecutionTraceChunk "u8 list" | ExecutionTraceComplete
  | CpuProfileStart u32 | CpuProfileChunk "u8 list" | CpuProfileComplete

subsection \<open>The server\<close>

record binaryHashOnce =
  bh_done :: bool
  bh_hash :: string
  bh_err :: "rpc_error option"

record Loggers =
  lg_ErrorLogger :: "(string \<Rightarrow> string list \<Rightarrow> string list) option"
  lg_InfoLogger :: "(string \<Rightarrow> string list \<Rightarrow> string list) option"

record Server =
  sv_agentFingerprint :: string
  sv_processFingerprint :: string
  sv_tenantToken :: string
  sv_environment :: string
  sv_programName :: string
  sv_ephemeralProcess :: bool
  sv_hash :: binaryHashOnce
  sv_ErrorLogger :: "string \<Rightarrow> string list \<Rightarrow> string list"
  sv_InfoLogger :: "string \<Rightarrow> string list \<Rightarrow> string list"

text \<open>A logger maps a message and the log to the log; a missing one is replaced by one that does nothing.\<close>

definition or_silent :: "(string \<Rightarrow> string list \<Rightarrow> string list) option \<Rightarrow> string \<Rightarrow> string list \<Rightarrow> string list" where
  "or_silent l = (case l of None \<Rightarrow> (\<lambda>_ lines. lines) | Some f \<Rightarrow> f)"

definition NewServer ::
  "string \<Rightarrow> string \<Rightarrow> string \<Rightarrow> string \<Rightarrow> string \<Rightarrow> bool \<Rightarrow> Loggers \<Rightarrow> Server" where
  "NewServer agentFingerprint processFingerprint tenantToken environment programName ephemeralProcess loggers =
     \<lparr>sv_agentFingerprint = agentFingerprint, sv_processFingerprint = processFingerprint,
      sv_tenantToken = tenantToken, sv_environment = environment, sv_programName = programName,
      sv_ephemeralProcess = ephemeralProcess,
      sv_hash = \<lparr>bh_done = False, bh_hash = '''', bh_err = None\<rparr>,
      sv_ErrorLogger = or_silent (lg_ErrorLogger loggers), sv_InfoLogger = or_silent (lg_InfoLogger loggers)\<rparr>"

subsection \<open>The executable\<close>

text \<open>
  The results of \<open>Read\<close>, call after call, until \<open>io.EOF\<close>. One chunk is sent per read.
\<close>

fun send_executable :: "(string + u8 list) list \<Rightarrow> (u8 list) out_stream \<Rightarrow> rpc_error option \<times> (u8 list) out_stream" where
  "send_executable [] st = (None, st)"
| "send_executable (r # rs) st =
     (case r of
        Inl e \<Rightarrow> (Some (ReadExecutable e), st)
      | Inr data \<Rightarrow>
          (let (err, st1) = stream_Send data st in
           case err of Some e \<Rightarrow> (Some (SendFailed e), st1) | None \<Rightarrow> send_executable rs st1))"

definition GetExecutable ::
  "string + string \<Rightarrow> (string \<Rightarrow> string + (string + u8 list) list) \<Rightarrow> (u8 list) out_stream \<Rightarrow>
   rpc_error option \<times> (u8 list) out_stream" where
  "GetExecutable exe openFile st =
     (case exe of
        Inl e \<Rightarrow> (Some (ExecutablePath e), st)
      | Inr path \<Rightarrow>
          (case openFile path of
             Inl e \<Rightarrow> (Some (OpenExecutable e), st)
           | Inr reads \<Rightarrow> send_executable reads st))"

subsection \<open>What the process reports of itself\<close>

text \<open>An address of an interface; \<open>OtherAddr\<close> leaves the nil IP, which prints as \<open><nil>\<close>.\<close>

datatype net_addr = IPNet string bool | IPAddr string bool | OtherAddr

fun ipAddresses :: "net_addr list \<Rightarrow> string list" where
  "ipAddresses [] = []"
| "ipAddresses (IPNet ip loopback # as) = (if loopback then ipAddresses as else ip # ipAddresses as)"
| "ipAddresses (IPAddr ip loopback # as) = (if loopback then ipAddresses as else ip # ipAddresses as)"
| "ipAddresses (OtherAddr # as) = ''<nil>'' # ipAddresses as"

text \<open>After its one message the RPC waits for the end of its context: \<open>None\<close> while it has not ended.\<close>

definition MachinaInfo ::
  "string \<Rightarrow> net_addr list \<Rightarrow> string option \<Rightarrow> Server \<Rightarrow> MachinaInfoResponse out_stream \<Rightarrow>
   rpc_error option \<times> MachinaInfoResponse out_stream" where
  "MachinaInfo hostname addrs ctxErr s st =
     (let (err, st1) = stream_Send
            \<lparr>mi_Fingerprint = sv_agentFingerprint s, mi_Version = ''0.1'', mi_TenantToken = sv_tenantToken s,
             mi_Environment = sv_environment s, mi_IsLibrary = True, mi_Hostname = hostname,
             mi_IpAddresses = ipAddresses addrs\<rparr> st
      in case err of Some e \<Rightarrow> (Some (SendFailed e), st1) | None \<Rightarrow> (map_option CtxDone ctxErr, st1))"

definition Events :: rpc_error where
  "Events = EventsUnsupported"

definition hex_digit :: "nat \<Rightarrow> char" where
  "hex_digit n = (if n < 10 then char_of (48 + n) else char_of (87 + n))"

definition hex_EncodeToString :: "u8 list \<Rightarrow> string" where
  "hex_EncodeToString bs = concat (map (\<lambda>b. [hex_digit (unat b div 16), hex_digit (unat b mod 16)]) bs)"

text \<open>\<open>hash\<close> is the keyed hash of the library highwayhash; \<open>None\<close> when the hasher cannot be made.\<close>

definition doHash ::
  "string + string \<Rightarrow> (string \<Rightarrow> string + (string + u8 list) list) \<Rightarrow> (u8 list \<Rightarrow> u8 list) option \<Rightarrow>
   rpc_error + string" where
  "doHash exe openFile hash =
     (case exe of
        Inl e \<Rightarrow> Inl (ExecutablePath e)
      | Inr path \<Rightarrow>
          (case openFile path of
             Inl e \<Rightarrow> Inl (OpenExecutable e)
           | Inr reads \<Rightarrow>
               (case hash of
                  None \<Rightarrow> Inl (HashFailed '''')
                | Some h \<Rightarrow>
                    (case recv_chunks (map (map_sum RecvFailed id) reads) [] of
                       Inl e \<Rightarrow> Inl (HashFailed '''')
                     | Inr content \<Rightarrow> Inr (hex_EncodeToString (h content))))))"

definition getBinaryHash :: "rpc_error + string \<Rightarrow> Server \<Rightarrow> (rpc_error + string) \<times> Server" where
  "getBinaryHash computed s =
     (let s1 = (if bh_done (sv_hash s) then s
                else s\<lparr>sv_hash := (case computed of
                       Inl e \<Rightarrow> \<lparr>bh_done = True, bh_hash = '''', bh_err = Some e\<rparr>
                     | Inr h \<Rightarrow> \<lparr>bh_done = True, bh_hash = h, bh_err = None\<rparr>)\<rparr>)
      in (case bh_err (sv_hash s1) of None \<Rightarrow> Inr (bh_hash (sv_hash s1)) | Some e \<Rightarrow> Inl e, s1))"

definition WatchProcesses ::
  "rpc_error + string \<Rightarrow> string + string \<Rightarrow> u64 \<Rightarrow> string list \<Rightarrow> string list \<Rightarrow> string option \<Rightarrow> Server \<Rightarrow>
   Process out_stream \<Rightarrow> rpc_error option \<times> Server \<times> Process out_stream" where
  "WatchProcesses computed exe pid args environ ctxErr s st =
     (let (hash, s1) = getBinaryHash computed s in
      case hash of
        Inl e \<Rightarrow> (Some e, s1, st)
      | Inr h \<Rightarrow>
          (case exe of
             Inl e \<Rightarrow> (Some (ExecutablePath e), s1, st)
           | Inr path \<Rightarrow>
               (let (err, st1) = stream_Send
                      \<lparr>pc_Pid = pid, pc_Cmd = args, pc_ExePath = path, pc_Env = environ, pc_BinaryHash = h,
                       pc_Fingerprint = sv_processFingerprint s, pc_Environment = sv_environment s,
                       pc_Program = sv_programName s, pc_Labels = [''side-eye-go''],
                       pc_Ephemeral = sv_ephemeralProcess s\<rparr> st
                in case err of
                     Some e \<Rightarrow> (Some (SendFailed e), s1, st1)
                   | None \<Rightarrow> (map_option CtxDone ctxErr, s1, st1))))"

text \<open>The executable is hashed once: later calls give what the first gave, whatever they would compute.\<close>

lemma getBinaryHash_once:
  "getBinaryHash c2 (snd (getBinaryHash c1 s)) = getBinaryHash c1 s"
  by (auto simp: getBinaryHash_def split: sum.split)

lemma stream_Send_sent:
  "stream_Send m st = (None, st') \<Longrightarrow> os_sent st' = os_sent st @ [m]"
  "stream_Send m st = (Some e, st') \<Longrightarrow> os_sent st' = os_sent st"
  by (auto simp: stream_Send_def split: list.splits option.splits)

lemma send_executable_prefix:
  "send_executable reads st = (err, st') \<Longrightarrow>
   \<exists>ds. os_sent st' = os_sent st @ ds \<and> map Inr ds = take (length ds) reads \<and> (err = None \<longrightarrow> length ds = length reads)"
proof (induction reads arbitrary: st)
  case (Cons r rs)
  show ?case
  proof (cases r)
    case (Inl e)
    with Cons.prems show ?thesis by (intro exI [of _ "[]"]) auto
  next
    case (Inr d)
    obtain se st1 where snd: "stream_Send d st = (se, st1)" by fastforce
    show ?thesis
    proof (cases se)
      case (Some e)
      with Cons.prems Inr snd show ?thesis
        by (intro exI [of _ "[]"]) (auto dest: stream_Send_sent)
    next
      case None
      with Cons.prems Inr snd have "send_executable rs st1 = (err, st')" by simp
      from Cons.IH [OF this] obtain ds where ds: "os_sent st' = os_sent st1 @ ds"
        "map Inr ds = take (length ds) rs" "err = None \<longrightarrow> length ds = length rs" by blast
      with None snd Inr stream_Send_sent(1) [of d st st1] show ?thesis by (intro exI [of _ "d # ds"]) simp
    qed
  qed
qed simp

end
