(* ===== verification/Server_Snapshot.thy ===== *)
theory Server_Snapshot
  imports Server_Rpc
begin

text \<open>
  The RPC that takes a snapshot: the protocol on its stream and the composition of the fetcher with the
  snapshotter.
\<close>

text \<open>
  What the handler does, in order. \<open>TookSnapshot\<close> is the call that stops the world.
\<close>

datatype rpc_event =
    Received SnapshotRequest | Fetched string | SentHeader | TookSnapshot | Sent

text \<open>
  \<open>recvs\<close> are the results of \<open>Recv\<close>; behind the end of the list it fails. The value is \<open>None\<close> when the
  handler does not return (a snapshot that does not, or a shared fetch that does not end); a panic of the
  snapshot goes through it. \<open>pr\<close> is the process; the result has what is left of it, and the events, the
  fetcher and the stream.
\<close>

fun stream_Recv :: "(string + SnapshotRequest) list \<Rightarrow> (string + SnapshotRequest) \<times> (string + SnapshotRequest) list" where
  "stream_Recv [] = (Inl ''EOF'', [])"
| "stream_Recv (r # rs) = (r, rs)"

record snapshot_rpc =
  sx_events :: "rpc_event list"
  sx_fetcher :: "SnapshotProgram cachedSnapshotFetcher"
  sx_stream :: "SnapshotResponse out_stream"

definition sx_log :: "rpc_event \<Rightarrow> snapshot_rpc \<Rightarrow> snapshot_rpc" where
  "sx_log e x = x\<lparr>sx_events := sx_events x @ [e]\<rparr>"

definition Server_Snapshot ::
  "process_env \<Rightarrow> ((string \<times> SnapshotProgram) list \<Rightarrow> nat) \<Rightarrow> SnapshotProgram flight list \<Rightarrow>
   (string + SnapshotRequest) list \<Rightarrow> string option \<Rightarrow> process \<Rightarrow> snapshot_rpc \<Rightarrow>
   (((rpc_error option) res) \<times> aftermath \<times> snapshot_rpc) option" where
  "Server_Snapshot pe pick flights recvs headerErr pr x =
     (let (r1, recvs1) = stream_Recv recvs in
      case r1 of
        Inl e \<Rightarrow> Some (Inr (Some (RecvRequest e)), Runs pr, x)
      | Inr req \<Rightarrow>
          (let x1 = sx_log (Received req) x in
           case req of
             SnapshotRequest_Setup key \<Rightarrow>
               (case cached_FetchSnapshotProgram pick key flights (sx_fetcher x1) of
                  None \<Rightarrow> None
                | Some (Inl e, f) \<Rightarrow> Some (Inr (Some (FetchProgram e)), Runs pr, x1\<lparr>sx_fetcher := f\<rparr>)
                | Some (Inr p, f) \<Rightarrow>
                    (let x2 = sx_log (Fetched key) (x1\<lparr>sx_fetcher := f\<rparr>) in
                     case headerErr of
                       Some e \<Rightarrow> Some (Inr (Some (SendHeaderFailed e)), Runs pr, x2)
                     | None \<Rightarrow>
                         (let x3 = sx_log SentHeader x2; (r2, _) = stream_Recv recvs1 in
                          case r2 of
                            Inl e \<Rightarrow> Some (Inr (Some (RecvRequest e)), Runs pr, x3)
                          | Inr req2 \<Rightarrow>
                              (let x4 = sx_log (Received req2) x3 in
                               if req2 \<noteq> SnapshotRequest_Snapshot then Some (Inr (Some UnexpectedRequest), Runs pr, x4)
                               else
                                 (case Snapshot pe p pr of
                                    None \<Rightarrow> None
                                  | Some (out, after) \<Rightarrow>
                                      (let x5 = sx_log TookSnapshot x4 in
                                       case out of
                                         Inl e \<Rightarrow> Some (Inl e, after, x5)
                                       | Inr (Inl e) \<Rightarrow> Some (Inr (Some (SnapshotFailed e)), after, x5)
                                       | Inr (Inr resp) \<Rightarrow>
                                           (let (err, st) = stream_Send resp (sx_stream x5) in
                                            case err of
                                              Some e \<Rightarrow> Some (Inr (Some (SendFailed e)), after, x5\<lparr>sx_stream := st\<rparr>)
                                            | None \<Rightarrow> Some (Inr None, after, sx_log Sent (x5\<lparr>sx_stream := st\<rparr>)))))))))
           | _ \<Rightarrow> Some (Inr (Some UnexpectedRequest), Runs pr, x1)))"

subsection \<open>Properties\<close>

text \<open>The events of a run that took the snapshot, without the last one.\<close>

definition protocol :: "string \<Rightarrow> rpc_event list" where
  "protocol key =
     [Received (SnapshotRequest_Setup key), Fetched key, SentHeader, Received SnapshotRequest_Snapshot, TookSnapshot]"

text \<open>The run of the handler whose every check passes, up to the snapshot.\<close>

lemma Server_Snapshot_cases:
  assumes "Server_Snapshot pe pick flights recvs headerErr pr x = Some (r, after, x')" "sx_events x = []"
  obtains (before) "after = Runs pr" "sx_stream x' = sx_stream x" "TookSnapshot \<notin> set (sx_events x')"
      "\<exists>e. r = Inr (Some e)"
  | (snapshot) key p f out where
      "recvs = Inr (SnapshotRequest_Setup key) # Inr SnapshotRequest_Snapshot # drop 2 recvs"
      "cached_FetchSnapshotProgram pick key flights (sx_fetcher x) = Some (Inr p, f)"
      "Snapshot pe p pr = Some (out, after)"
      "case out of Inl e \<Rightarrow> r = Inl e \<and> sx_events x' = protocol key \<and> sx_stream x' = sx_stream x
       | Inr (Inl e) \<Rightarrow> r = Inr (Some (SnapshotFailed e)) \<and> sx_events x' = protocol key \<and> sx_stream x' = sx_stream x
       | Inr (Inr resp) \<Rightarrow>
           (case stream_Send resp (sx_stream x) of
              (None, st) \<Rightarrow> r = Inr None \<and> sx_events x' = protocol key @ [Sent] \<and> sx_stream x' = st
            | (Some e, st) \<Rightarrow> r = Inr (Some (SendFailed e)) \<and> sx_events x' = protocol key \<and> sx_stream x' = st)"
proof -
  note defs = Server_Snapshot_def sx_log_def protocol_def Let_def
  show thesis
  proof (cases "\<exists>key rs p f out. recvs = Inr (SnapshotRequest_Setup key) # Inr SnapshotRequest_Snapshot # rs \<and>
      cached_FetchSnapshotProgram pick key flights (sx_fetcher x) = Some (Inr p, f) \<and> headerErr = None \<and>
      (\<exists>after'. Snapshot pe p pr = Some (out, after'))")
    case True
    then obtain key rs p f out after' where t:
      "recvs = Inr (SnapshotRequest_Setup key) # Inr SnapshotRequest_Snapshot # rs"
      "cached_FetchSnapshotProgram pick key flights (sx_fetcher x) = Some (Inr p, f)" "headerErr = None"
      "Snapshot pe p pr = Some (out, after')" by blast
    have "after = after' \<and> (case out of Inl e \<Rightarrow> r = Inl e \<and> sx_events x' = protocol key \<and> sx_stream x' = sx_stream x
       | Inr (Inl e) \<Rightarrow> r = Inr (Some (SnapshotFailed e)) \<and> sx_events x' = protocol key \<and> sx_stream x' = sx_stream x
       | Inr (Inr resp) \<Rightarrow>
           (case stream_Send resp (sx_stream x) of
              (None, st) \<Rightarrow> r = Inr None \<and> sx_events x' = protocol key @ [Sent] \<and> sx_stream x' = st
            | (Some e, st) \<Rightarrow> r = Inr (Some (SendFailed e)) \<and> sx_events x' = protocol key \<and> sx_stream x' = st))"
      using assms t by (auto simp: defs split: sum.splits prod.splits option.splits)
    with t show thesis by (intro snapshot) auto
  next
    case False
    have "after = Runs pr \<and> sx_stream x' = sx_stream x \<and> TookSnapshot \<notin> set (sx_events x') \<and> (\<exists>e. r = Inr (Some e))"
      using assms False
      by (cases recvs rule: stream_Recv.cases; cases "tl recvs" rule: stream_Recv.cases)
        (auto simp: defs split: sum.splits prod.splits option.splits SnapshotRequest.splits if_splits)
    then show thesis by (intro before) auto
  qed
qed

text \<open>
  C12. The snapshot RPC: whatever the client sends, whatever fails, when the handler returns the process is left as it was
  found, and when it does not, by a fault of the snapshot, the process is what the snapshot has left;
  the world is stopped at most once, and only after the client has named a program, the program has been
  fetched, the header has been sent and the client has asked for the snapshot, in this order; and the
  RPC ends without an error exactly when the answer of a snapshot of that program was sent, its only
  message.
\<close>

theorem Server_Snapshot_protocol:
  assumes "Server_Snapshot pe pick flights recvs headerErr pr x = Some (r, after, x')"
    and "quiescent pr" "sx_events x = []"
  shows "(\<forall>err. r = Inr err \<longrightarrow> after = Runs pr) \<and>
    (\<forall>e. r = Inl e \<longrightarrow> (\<exists>key p. sx_events x' = protocol key \<and>
       fst ` set_option (cached_FetchSnapshotProgram pick key flights (sx_fetcher x)) = {Inr p} \<and>
       Snapshot pe p pr = Some (Inl e, after))) \<and>
    (TookSnapshot \<notin> set (sx_events x') \<or> (\<exists>key. sx_events x' \<in> {protocol key, protocol key @ [Sent]})) \<and>
    (r = Inr None \<longleftrightarrow> (\<exists>key p resp. sx_events x' = protocol key @ [Sent] \<and>
       fst ` set_option (cached_FetchSnapshotProgram pick key flights (sx_fetcher x)) = {Inr p} \<and>
       Snapshot pe p pr = Some (Inr (Inr resp), Runs pr) \<and>
       os_sent (sx_stream x') = os_sent (sx_stream x) @ [resp]))"
  using assms(1,3)
proof (cases rule: Server_Snapshot_cases)
  case before
  then show ?thesis by (auto simp: protocol_def)
next
  case (snapshot key p f out)
  have runs: "after = Runs pr" if "out = Inr y" for y
    using Snapshot_process [OF assms(2)] snapshot(3) that by blast
  have fetched: "fst ` set_option (cached_FetchSnapshotProgram pick key flights (sx_fetcher x)) = {Inr p}"
    using snapshot(2) by simp
  consider (panic) e where "out = Inl e" | (failed) e where "out = Inr (Inl e)"
    | (answer) resp where "out = Inr (Inr resp)" by (metis sum.exhaust)
  then show ?thesis
  proof cases
    case panic
    with snapshot(3,4) fetched show ?thesis by (auto simp: protocol_def)
  next
    case failed
    with snapshot(4) runs show ?thesis by (auto simp: protocol_def)
  next
    case (answer resp)
    obtain se st where send: "stream_Send resp (sx_stream x) = (se, st)" by fastforce
    show ?thesis
    proof (cases se)
      case None
      have sent: "os_sent st = os_sent (sx_stream x) @ [resp]"
        using stream_Send_sent(1) [of resp "sx_stream x" st] send None by simp
      have r: "r = Inr None" "sx_events x' = protocol key @ [Sent]" "sx_stream x' = st"
        using snapshot(4) answer send None by simp_all
      have "\<exists>key p resp. sx_events x' = protocol key @ [Sent] \<and>
         fst ` set_option (cached_FetchSnapshotProgram pick key flights (sx_fetcher x)) = {Inr p} \<and>
         Snapshot pe p pr = Some (Inr (Inr resp), Runs pr) \<and>
         os_sent (sx_stream x') = os_sent (sx_stream x) @ [resp]"
        using fetched snapshot(3) answer runs r sent
        by (intro exI [of _ key] exI [of _ p] exI [of _ resp]) simp
      with runs answer r show ?thesis by auto
    next
      case (Some e)
      with snapshot(4) answer send runs show ?thesis by (auto simp: protocol_def)
    qed
  qed
qed

text \<open>The quiet process of theory Snapshot_Props, its program in the cache.\<close>

definition quiet_rpc :: snapshot_rpc where
  "quiet_rpc =
     \<lparr>sx_events = [], sx_fetcher = \<lparr>cf_maxCapacity = 2, cf_cache = [(''k'', quiet_program)]\<rparr>,
      sx_stream = \<lparr>os_sent = [], os_results = []\<rparr>\<rparr>"

theorem Server_Snapshot_protocol_witness:
  "\<exists>x'. Server_Snapshot quiet_process (\<lambda>_. 0) []
      [Inr (SnapshotRequest_Setup ''k''), Inr SnapshotRequest_Snapshot] None example_process quiet_rpc =
      Some (Inr None, Runs example_process, x') \<and> length (os_sent (sx_stream x')) = 1"
proof -
  let ?run = "Server_Snapshot quiet_process (\<lambda>_. 0) []
      [Inr (SnapshotRequest_Setup ''k''), Inr SnapshotRequest_Snapshot] None example_process quiet_rpc"
  obtain resp where resp:
    "Snapshot quiet_process quiet_program example_process = Some (Inr (Inr resp), Runs example_process)"
    using quiet_snapshot by blast
  have "\<exists>x'. ?run = Some (Inr None, Runs example_process, x')"
    using resp
    by (simp add: Server_Snapshot_def quiet_rpc_def sx_log_def cached_FetchSnapshotProgram_def getCached_def
        stream_Send_def)
  then obtain x' where x': "?run = Some (Inr None, Runs example_process, x')" ..
  have "sx_events quiet_rpc = []" by (simp add: quiet_rpc_def)
  from Server_Snapshot_protocol [OF x' example_quiescent this] x' show ?thesis by (auto simp: quiet_rpc_def)
qed

end
