(* ===== verification/Server_Capture.thy ===== *)
theory Server_Capture
  imports Server_Rpc "HOL-Library.Signed_Division"
begin

text \<open>
  Profiling the process (\<open>internal/server/server.go\<close>): the RPC that captures an execution trace and, when
  asked to, a CPU profile. The CPU profile is sequential code over the profiler of the process; the
  execution trace runs a second goroutine that reads what the tracer writes into a pipe, and is a step
  relation.
\<close>

subsection \<open>Durations\<close>

text \<open>\<open>time.Duration\<close> is a signed 64-bit number of nanoseconds.\<close>

type_synonym duration = "64 word"

definition time_Second :: duration where
  "time_Second = 1000000000"

definition duration_of :: "u32 \<Rightarrow> duration" where
  "duration_of seconds = time_Second * ucast seconds"

definition duration_seconds :: "duration \<Rightarrow> u32" where
  "duration_seconds d = of_int (sint d sdiv sint time_Second)"

lemma duration_roundtrip: "duration_seconds (duration_of s) = s"
proof -
  have s: "uint s < 2 ^ 32" using unsigned_less [of s] by simp
  then have t: "take_bit 64 (uint s) = uint s" by (simp add: take_bit_int_eq_self_iff)
  have u: "uint (duration_of s) = 1000000000 * uint s"
    using s t by (simp add: duration_of_def time_Second_def uint_word_ariths unsigned_ucast_eq)
  have "sint (duration_of s) = 1000000000 * uint s"
    unfolding sint_uint u
  proof (rule signed_take_bit_int_eq_self)
    have "- (2 ^ (LENGTH(64) - Suc 0)) \<le> (0 :: int)" by simp
    also have "0 \<le> 1000000000 * uint s" by simp
    finally show "- (2 ^ (LENGTH(64) - Suc 0)) \<le> 1000000000 * uint s" .
    show "1000000000 * uint s < 2 ^ (LENGTH(64) - Suc 0)" using s by simp
  qed
  moreover have "sint time_Second = 1000000000"
    by (simp add: time_Second_def sint_uint signed_take_bit_int_eq_self)
  ultimately show ?thesis
    by (cases "s = 0") (simp_all add: duration_seconds_def signed_divide_int_def sgn_if uint_0_iff order_less_le)
qed

subsection \<open>The CPU profile\<close>

text \<open>
  The profiler of the process, which \<open>StartCPUProfile\<close> refuses to start twice, and the log. \<open>pf_stops\<close>
  counts the calls of \<open>StopCPUProfile\<close>.
\<close>

record profiler =
  pf_running :: bool
  pf_stops :: nat

definition StartCPUProfile :: "profiler \<Rightarrow> string option \<times> profiler" where
  "StartCPUProfile pf =
     (if pf_running pf then (Some ''cpu profiling already in use'', pf) else (None, pf\<lparr>pf_running := True\<rparr>))"

definition StopCPUProfile :: "profiler \<Rightarrow> profiler" where
  "StopCPUProfile pf = pf\<lparr>pf_running := False, pf_stops := pf_stops pf + 1\<rparr>"

definition chunkSize :: nat where
  "chunkSize = 65536"

text \<open>The loop over the finished profile: \<open>chunkSize\<close> bytes per message, the rest in the last.\<close>

function send_chunks :: "u8 list \<Rightarrow> CaptureResponse out_stream \<Rightarrow> string option \<times> CaptureResponse out_stream" where
  "send_chunks data st =
     (if data = [] then (None, st)
      else
        (let chunkLen = (if chunkSize > length data then length data else chunkSize);
             (err, st1) = stream_Send (CpuProfileChunk (take chunkLen data)) st
         in case err of Some e \<Rightarrow> (Some e, st1) | None \<Rightarrow> send_chunks (drop chunkLen data) st1))"
  by pat_completeness auto
termination
  by (relation "measure (\<lambda>(data, _). length data)") (auto simp: chunkSize_def split: if_splits)

declare send_chunks.simps [simp del]

text \<open>
  \<open>canceled\<close> is the cause when the context ends before the duration is over. \<open>profile\<close> is what the
  profiler has written into the buffer when it is stopped.
\<close>

definition runCpuProfile ::
  "string option \<Rightarrow> u8 list \<Rightarrow> duration \<Rightarrow> profiler \<times> CaptureResponse out_stream \<Rightarrow>
   rpc_error option \<times> profiler \<times> CaptureResponse out_stream" where
  "runCpuProfile canceled profile d s =
     (let (pf, st) = s; (err, pf1) = StartCPUProfile pf in
      case err of
        Some e \<Rightarrow> (Some (StartProfile e), pf1, st)
      | None \<Rightarrow>
          (let (err1, st1) = stream_Send (CpuProfileStart (duration_seconds d)) st in
           case err1 of
             Some e \<Rightarrow> (Some (SendFailed e), StopCPUProfile pf1, st1)
           | None \<Rightarrow>
               (case canceled of
                  Some cause \<Rightarrow> (Some (ProfileCanceled cause), StopCPUProfile pf1, st1)
                | None \<Rightarrow>
                    (let pf2 = StopCPUProfile pf1; (err2, st2) = send_chunks profile st1 in
                     case err2 of
                       Some e \<Rightarrow> (Some (SendFailed e), pf2, st2)
                     | None \<Rightarrow>
                         (let (err3, st3) = stream_Send CpuProfileComplete st2 in
                          case err3 of Some e \<Rightarrow> (Some (SendFailed e), pf2, st3) | None \<Rightarrow> (None, pf2, st3))))))"

text \<open>
  \<open>chunks_of\<close> cuts the data the way the messages do; \<open>n\<close> failures from now.
\<close>

definition chunk_bytes :: "CaptureResponse list \<Rightarrow> u8 list" where
  "chunk_bytes ms = concat (map (\<lambda>m. case m of CpuProfileChunk d \<Rightarrow> d | _ \<Rightarrow> []) ms)"

definition chunk_msgs :: "CaptureResponse list \<Rightarrow> bool" where
  "chunk_msgs ms \<longleftrightarrow> list_all (\<lambda>m. case m of CpuProfileChunk d \<Rightarrow> d \<noteq> [] \<and> length d \<le> chunkSize | _ \<Rightarrow> False) ms"

lemma send_chunks_sent:
  "send_chunks data st = (err, st') \<Longrightarrow>
   \<exists>ms. os_sent st' = os_sent st @ ms \<and> chunk_msgs ms \<and> (\<exists>rest. chunk_bytes ms @ rest = data \<and> (err = None \<longrightarrow> rest = []))"
proof (induction data st arbitrary: st' rule: send_chunks.induct)
  case (1 data st)
  show ?case
  proof (cases "data = []")
    case True
    with 1(2) show ?thesis by (intro exI [of _ "[]"]) (simp add: send_chunks.simps chunk_msgs_def chunk_bytes_def)
  next
    case False
    define n where "n = (if chunkSize > length data then length data else chunkSize)"
    have n: "0 < n" "n \<le> chunkSize" using False by (auto simp: n_def chunkSize_def)
    obtain e st1 where snd: "stream_Send (CpuProfileChunk (take n data)) st = (e, st1)" by fastforce
    show ?thesis
    proof (cases e)
      case (Some x)
      with 1(2) False snd have "err = Some x" "st' = st1"
        by (auto simp: send_chunks.simps [of data] Let_def n_def [symmetric])
      with snd Some show ?thesis
        by (intro exI [of _ "[]"]) (auto simp: chunk_msgs_def chunk_bytes_def dest: stream_Send_sent)
    next
      case None
      with 1(2) False snd have rec: "send_chunks (drop n data) st1 = (err, st')"
        by (simp add: send_chunks.simps [of data] Let_def n_def [symmetric])
      from 1(1) [OF False n_def _ refl] snd None rec obtain ms rest where
        ms: "os_sent st' = os_sent st1 @ ms" "chunk_msgs ms" "chunk_bytes ms @ rest = drop n data"
          "err = None \<longrightarrow> rest = []" by fastforce
      have "os_sent st1 = os_sent st @ [CpuProfileChunk (take n data)]"
        using stream_Send_sent(1) [of "CpuProfileChunk (take n data)" st st1] snd None by simp
      with ms False n show ?thesis
        by (intro exI [of _ "CpuProfileChunk (take n data) # ms"] conjI exI [of _ rest])
          (auto simp: chunk_msgs_def chunk_bytes_def)
    qed
  qed
qed

text \<open>
  C29. A CPU profile always ends: for every length of the profile and every failure of the stream,
  \<open>runCpuProfile\<close> returns with the profiler stopped, once for each time it was started; the client gets
  the requested seconds, then the profile in non-empty chunks of at most 64 KiB that together are a
  prefix of it; and without an error they are all of it, followed by the completion message.
\<close>

theorem runCpuProfile_sends_profile:
  assumes "\<not> pf_running pf" "runCpuProfile canceled profile (duration_of seconds) (pf, st) = (err, pf', st')"
  shows "\<not> pf_running pf' \<and> pf_stops pf' = pf_stops pf + 1 \<and>
    (\<exists>ms rest. chunk_msgs ms \<and> chunk_bytes ms @ rest = profile \<and>
       (if err = None then rest = [] \<and> os_sent st' = os_sent st @ [CpuProfileStart seconds] @ ms @ [CpuProfileComplete]
        else os_sent st' \<in> {os_sent st, os_sent st @ [CpuProfileStart seconds] @ ms}))"
proof -
  define pf1 where "pf1 = pf\<lparr>pf_running := True\<rparr>"
  have start: "StartCPUProfile pf = (None, pf1)" using assms(1) by (simp add: StartCPUProfile_def pf1_def)
  have stop: "\<not> pf_running (StopCPUProfile pf1)" "pf_stops (StopCPUProfile pf1) = pf_stops pf + 1"
    by (simp_all add: StopCPUProfile_def pf1_def)
  have none: "chunk_msgs []" "chunk_bytes [] = []" by (simp_all add: chunk_msgs_def chunk_bytes_def)
  note run = assms(2) [unfolded runCpuProfile_def duration_roundtrip Let_def prod.case start option.case]
  obtain e1 st1 where s1: "stream_Send (CpuProfileStart seconds) st = (e1, st1)" by fastforce
  show ?thesis
  proof (cases "e1 = None \<and> canceled = None")
    case False
    then have "pf' = StopCPUProfile pf1" "err \<noteq> None" "st' = st1" using run s1 by (auto split: option.splits)
    moreover have "os_sent st1 \<in> {os_sent st, os_sent st @ [CpuProfileStart seconds] @ []}"
      using s1 by (cases e1) (auto dest: stream_Send_sent)
    ultimately have "\<not> pf_running pf' \<and> pf_stops pf' = pf_stops pf + 1" "err \<noteq> None"
      "os_sent st' \<in> {os_sent st, os_sent st @ [CpuProfileStart seconds] @ []}" using stop by simp_all
    moreover have "chunk_bytes [] @ profile = profile" using none by simp
    ultimately show ?thesis using none(1)
      by (intro conjI exI [of _ "[] :: CaptureResponse list"] exI [of _ profile]) auto
  next
    case True
    obtain e2 st2 where s2: "send_chunks profile st1 = (e2, st2)" by fastforce
    from send_chunks_sent [OF this] obtain ms rest where ms: "os_sent st2 = os_sent st1 @ ms" "chunk_msgs ms"
      "chunk_bytes ms @ rest = profile" "e2 = None \<longrightarrow> rest = []" by blast
    have st1: "os_sent st1 = os_sent st @ [CpuProfileStart seconds]"
      using s1 True stream_Send_sent(1) by fastforce
    obtain e3 st3 where s3: "stream_Send CpuProfileComplete st2 = (e3, st3)" by fastforce
    have r: "pf' = StopCPUProfile pf1" "err = None \<longleftrightarrow> e2 = None \<and> e3 = None" "st' = (if e2 = None then st3 else st2)"
      using run s1 s2 s3 True by (auto split: option.splits)
    have "os_sent st3 = os_sent st2 @ (if e3 = None then [CpuProfileComplete] else [])"
      using stream_Send_sent s3 by (cases e3) auto
    then show ?thesis using ms st1 r stop by (intro conjI exI [of _ ms] exI [of _ rest]) auto
  qed
qed

theorem runCpuProfile_sends_profile_witness:
  "\<exists>pf' st'. runCpuProfile None [1, 2, 3] (duration_of 10) (\<lparr>pf_running = False, pf_stops = 0\<rparr>, \<lparr>os_sent = [], os_results = []\<rparr>) =
      (None, pf', st') \<and> \<not> pf_running pf' \<and> hd (os_sent st') = CpuProfileStart 10"
proof -
  let ?pf = "\<lparr>pf_running = False, pf_stops = 0\<rparr>" and ?st = "\<lparr>os_sent = [], os_results = []\<rparr>"
  obtain err pf' st' where r: "runCpuProfile None [1, 2, 3] (duration_of 10) (?pf, ?st) = (err, pf', st')"
    by (metis prod.collapse)
  have "send_chunks [1, 2, 3] \<lparr>os_sent = [CpuProfileStart 10], os_results = []\<rparr> =
      (None, \<lparr>os_sent = [CpuProfileStart 10, CpuProfileChunk [1, 2, 3]], os_results = []\<rparr>)"
    by (subst send_chunks.simps, simp add: chunkSize_def stream_Send_def, subst send_chunks.simps, simp)
  then have "err = None"
    using r by (simp add: runCpuProfile_def StartCPUProfile_def stream_Send_def duration_roundtrip)
  with runCpuProfile_sends_profile [OF _ r] r show ?thesis by auto
qed

end
