(* ===== verification/Exec_Trace.thy ===== *)
theory Exec_Trace
  imports Server_Capture
begin

text \<open>
  The capture of an execution trace (\<open>runExecutionTrace\<close> and \<open>Capture\<close> in \<open>internal/server/server.go\<close>).
  Three parties work at once: the function, the goroutine that reads the pipe and sends what it read, and
  the tracer of the runtime, which writes into the pipe. A write into the pipe returns when it has been
  read or the pipe is closed, and \<open>trace.Stop\<close> returns when the last write has returned.

  The data do not matter here: a read may fill the chunk or not, and may take the rest of a write or a part of
  it. A tracer that is being stopped writes once more or more often (\<open>ts_flushed\<close>: it has begun to).
\<close>

subsection \<open>The request\<close>

datatype capture_task = TaskCpuProfile duration | TaskExecutionTrace duration

definition Capture :: "CaptureRequest \<Rightarrow> Server \<Rightarrow> rpc_error + capture_task list" where
  "Capture request s =
     (if cq_ProcessFingerprint request \<noteq> sv_processFingerprint s then Inl FingerprintMismatch
      else
        (let explicitCpuProfile = (cq_Contents request = EXECUTION_TRACE_AND_CPU_PROFILE);
             d = duration_of (cq_Seconds request)
         in Inr ((if explicitCpuProfile then [TaskCpuProfile d] else []) @ [TaskExecutionTrace d])))"

text \<open>
  The task of the trace: without an explicit CPU profile it starts one of its own, whose data are dropped.
\<close>

definition trace_task ::
  "bool \<Rightarrow> (profiler \<Rightarrow> rpc_error option \<times> profiler) \<Rightarrow> profiler \<Rightarrow> rpc_error option \<times> profiler" where
  "trace_task explicitCpuProfile run pf =
     (if \<not> explicitCpuProfile then
        (case StartCPUProfile pf of
           (Some e, pf1) \<Rightarrow> (Some (StartProfile e), pf1)
         | (None, pf1) \<Rightarrow> (let (err, pf2) = run pf1 in (err, StopCPUProfile pf2)))
      else run pf)"

subsection \<open>The parties\<close>

text \<open>
  Where the function is: before \<open>trace.Start\<close>, before the boot time, before the first message, at its
  \<open>select\<close>, in \<open>trace.Stop\<close> after the timer, waiting for the reader, in the deferred receive from \<open>errCh\<close>,
  in the deferred \<open>trace.Stop\<close>, returned.
\<close>

datatype main_pc = MStart | MBoot | MSendStart | MSelect | MTimerStop | MWait | MDrain | MDeferStop | MReturned

text \<open>The reader: not started, reading, sending a chunk, sending the completion, sending on \<open>errCh\<close>, ended.\<close>

datatype reader_pc = RNone | RRead | RSend | RSendComplete | RErr | RClosed

datatype tracer = TraceOff | TraceOn | TraceStopping

datatype pipe = PipeOpen | PipeEOF | PipeErr

record trace_sys =
  ts_main :: main_pc
  ts_reader :: reader_pc
  ts_tracer :: tracer
  ts_writing :: bool
  ts_flushed :: bool
  ts_pipe :: pipe
  ts_stop :: bool

definition trace_init :: trace_sys where
  "trace_init =
     \<lparr>ts_main = MStart, ts_reader = RNone, ts_tracer = TraceOff, ts_writing = False, ts_flushed = False,
      ts_pipe = PipeOpen, ts_stop = False\<rparr>"

text \<open>After the deferred receive: the deferred \<open>trace.Stop\<close>, unless it was inhibited.\<close>

definition after_drain :: "trace_sys \<Rightarrow> trace_sys" where
  "after_drain s =
     (if ts_stop s then s\<lparr>ts_reader := RClosed, ts_main := MDeferStop, ts_tracer := TraceStopping\<rparr>
      else s\<lparr>ts_reader := RClosed, ts_main := MReturned\<rparr>)"

text \<open>The label says whether a call failed in the step: a message that was not sent, or the boot time.\<close>

inductive trace_step :: "trace_sys \<Rightarrow> bool \<Rightarrow> trace_sys \<Rightarrow> bool" where
  start: "ts_main s = MStart \<Longrightarrow> trace_step s False (s\<lparr>ts_main := MBoot, ts_tracer := TraceOn\<rparr>)"
| start_failed: "ts_main s = MStart \<Longrightarrow> trace_step s True (s\<lparr>ts_main := MReturned\<rparr>)"
| boot: "ts_main s = MBoot \<Longrightarrow> trace_step s False (s\<lparr>ts_main := MSendStart\<rparr>)"
| boot_failed: "ts_main s = MBoot \<Longrightarrow> trace_step s True (s\<lparr>ts_main := MReturned\<rparr>)"
| sent_start: "ts_main s = MSendStart \<Longrightarrow>
    trace_step s False (s\<lparr>ts_main := MSelect, ts_reader := RRead, ts_stop := True\<rparr>)"
| send_start_failed: "ts_main s = MSendStart \<Longrightarrow> trace_step s True (s\<lparr>ts_main := MReturned\<rparr>)"
| select_ctx: "ts_main s = MSelect \<Longrightarrow> trace_step s False (s\<lparr>ts_main := MDrain, ts_pipe := PipeErr\<rparr>)"
| select_err: "ts_main s = MSelect \<Longrightarrow> ts_reader s = RErr \<Longrightarrow>
    trace_step s False (s\<lparr>ts_main := MDrain, ts_reader := RClosed\<rparr>)"
| select_closed: "ts_main s = MSelect \<Longrightarrow> ts_reader s = RClosed \<Longrightarrow> trace_step s False (s\<lparr>ts_main := MDrain\<rparr>)"
| select_timer: "ts_main s = MSelect \<Longrightarrow>
    trace_step s False (s\<lparr>ts_main := MTimerStop, ts_tracer := TraceStopping\<rparr>)"
| timer_stopped: "ts_main s = MTimerStop \<Longrightarrow> ts_tracer s = TraceOff \<Longrightarrow>
    trace_step s False (s\<lparr>ts_main := MWait, ts_stop := False, ts_pipe := PipeEOF\<rparr>)"
| wait_err: "ts_main s = MWait \<Longrightarrow> ts_reader s = RErr \<Longrightarrow>
    trace_step s False (s\<lparr>ts_main := MDrain, ts_reader := RClosed\<rparr>)"
| wait_closed: "ts_main s = MWait \<Longrightarrow> ts_reader s = RClosed \<Longrightarrow> trace_step s False (s\<lparr>ts_main := MDrain\<rparr>)"
| drained: "ts_main s = MDrain \<Longrightarrow> ts_reader s = RErr \<or> ts_reader s = RClosed \<Longrightarrow>
    trace_step s False (after_drain s)"
| defer_stopped: "ts_main s = MDeferStop \<Longrightarrow> ts_tracer s = TraceOff \<Longrightarrow>
    trace_step s False (s\<lparr>ts_main := MReturned\<rparr>)"
| tracer_write: "ts_tracer s \<noteq> TraceOff \<Longrightarrow> \<not> ts_writing s \<Longrightarrow>
    trace_step s False (s\<lparr>ts_writing := True, ts_flushed := (ts_tracer s = TraceStopping)\<rparr>)"
| tracer_write_closed: "ts_writing s \<Longrightarrow> ts_pipe s \<noteq> PipeOpen \<Longrightarrow> trace_step s False (s\<lparr>ts_writing := False\<rparr>)"
| tracer_stopped: "ts_tracer s = TraceStopping \<Longrightarrow> \<not> ts_writing s \<Longrightarrow> ts_flushed s \<Longrightarrow>
    trace_step s False (s\<lparr>ts_tracer := TraceOff\<rparr>)"
| reader_read: "ts_reader s = RRead \<Longrightarrow> ts_writing s \<Longrightarrow> ts_pipe s = PipeOpen \<Longrightarrow> r = RRead \<or> r = RSend \<Longrightarrow>
    trace_step s False (s\<lparr>ts_reader := r, ts_writing := w\<rparr>)"
| read_eof: "ts_reader s = RRead \<Longrightarrow> ts_pipe s = PipeEOF \<Longrightarrow> r = RSend \<or> r = RSendComplete \<Longrightarrow>
    trace_step s False (s\<lparr>ts_reader := r\<rparr>)"
| read_err: "ts_reader s = RRead \<Longrightarrow> ts_pipe s = PipeErr \<Longrightarrow> trace_step s False (s\<lparr>ts_reader := RErr\<rparr>)"
| sent: "ts_reader s = RSend \<Longrightarrow> trace_step s False (s\<lparr>ts_reader := RRead\<rparr>)"
| send_failed: "ts_reader s = RSend \<Longrightarrow> trace_step s True (s\<lparr>ts_reader := RErr\<rparr>)"
| sent_complete: "ts_reader s = RSendComplete \<Longrightarrow> trace_step s False (s\<lparr>ts_reader := RClosed\<rparr>)"
| send_complete_failed: "ts_reader s = RSendComplete \<Longrightarrow> trace_step s True (s\<lparr>ts_reader := RErr\<rparr>)"

inductive_cases trace_stepE: "trace_step s f t"

text \<open>The states that a capture reaches; \<open>f\<close> says whether failures are allowed.\<close>

definition trace_reach :: "bool \<Rightarrow> trace_sys \<Rightarrow> bool" where
  "trace_reach f = reachable trace_init (\<lambda>s t. \<exists>b \<le> f. trace_step s b t)"

subsection \<open>Without failures\<close>

fun clean_at :: "main_pc \<Rightarrow> trace_sys \<Rightarrow> bool" where
  "clean_at MStart s \<longleftrightarrow> ts_reader s = RNone \<and> ts_tracer s = TraceOff \<and> ts_pipe s = PipeOpen"
| "clean_at MBoot s \<longleftrightarrow> ts_reader s = RNone \<and> ts_tracer s = TraceOn \<and> ts_pipe s = PipeOpen"
| "clean_at MSendStart s \<longleftrightarrow> ts_reader s = RNone \<and> ts_tracer s = TraceOn \<and> ts_pipe s = PipeOpen"
| "clean_at MSelect s \<longleftrightarrow> ts_reader s \<in> {RRead, RSend} \<and> ts_tracer s = TraceOn \<and> ts_pipe s = PipeOpen \<and> ts_stop s"
| "clean_at MTimerStop s \<longleftrightarrow> ts_reader s \<in> {RRead, RSend} \<and> ts_tracer s \<noteq> TraceOn \<and> ts_pipe s = PipeOpen"
| "clean_at MWait s \<longleftrightarrow> ts_reader s \<in> {RRead, RSend, RSendComplete, RClosed} \<and> ts_tracer s = TraceOff \<and>
     ts_pipe s = PipeEOF \<and> \<not> ts_stop s"
| "clean_at MDrain s \<longleftrightarrow>
     (if ts_stop s then ts_reader s \<in> {RRead, RSend, RErr} \<and> ts_tracer s = TraceOn \<and> ts_pipe s = PipeErr
      else ts_reader s = RClosed \<and> ts_tracer s = TraceOff \<and> ts_pipe s = PipeEOF)"
| "clean_at MDeferStop s \<longleftrightarrow> ts_reader s = RClosed \<and> ts_tracer s \<noteq> TraceOn \<and> ts_pipe s = PipeErr"
| "clean_at MReturned s \<longleftrightarrow> ts_reader s = RClosed \<and> ts_tracer s = TraceOff"

definition clean :: "trace_sys \<Rightarrow> bool" where
  "clean s \<longleftrightarrow> clean_at (ts_main s) s \<and> (ts_tracer s = TraceOff \<longrightarrow> \<not> ts_writing s)"

lemma clean_step: "trace_step s b t \<Longrightarrow> \<not> b \<Longrightarrow> clean s \<Longrightarrow> clean t"
  by (erule trace_stepE; cases "ts_main s"; auto simp: clean_def after_drain_def split: if_splits)

interpretation TC: transition_inv trace_init "\<lambda>s t. \<exists>b \<le> False. trace_step s b t" clean
  by unfold_locales (simp add: clean_def trace_init_def, use clean_step in auto)

text \<open>
  What is left to do before the function returns, when the capture is canceled at its \<open>select\<close>: the places
  of the function, the writes of the tracer that is stopping, and the place of the reader.
\<close>

fun main_rank :: "main_pc \<Rightarrow> nat" where
  "main_rank MStart = 7"
| "main_rank MBoot = 6"
| "main_rank MSendStart = 5"
| "main_rank MSelect = 4"
| "main_rank MTimerStop = 4"
| "main_rank MWait = 3"
| "main_rank MDrain = 2"
| "main_rank MDeferStop = 1"
| "main_rank MReturned = 0"

fun reader_rank :: "reader_pc \<Rightarrow> nat" where
  "reader_rank RSend = 3"
| "reader_rank RRead = 2"
| "reader_rank RSendComplete = 1"
| "reader_rank RErr = 1"
| "reader_rank RClosed = 0"
| "reader_rank RNone = 0"

definition tracer_rank :: "trace_sys \<Rightarrow> nat" where
  "tracer_rank s =
     (if ts_tracer s = TraceStopping then 1 + (if ts_flushed s then 0 else 2) + (if ts_writing s then 1 else 0) else 0)"

definition rank :: "trace_sys \<Rightarrow> nat" where
  "rank s = 20 * main_rank (ts_main s) + tracer_rank s + reader_rank (ts_reader s)"

lemmas rank_defs = rank_def tracer_rank_def

lemma rank_bound: "tracer_rank s \<le> 4" "reader_rank r \<le> 3"
  by (auto simp: tracer_rank_def) (cases r; simp)

lemma descend: "trace_step s False t \<Longrightarrow> rank t < rank s \<Longrightarrow> \<exists>t. trace_step s False t \<and> rank t < rank s"
  by blast

text \<open>The tracer is not stuck while its pipe is read or closed.\<close>

lemma tracer_descends:
  assumes "ts_tracer s = TraceStopping" "ts_pipe s \<noteq> PipeOpen \<or> ts_reader s \<in> {RRead, RSend}"
  shows "\<exists>t. trace_step s False t \<and> rank t < rank s"
proof (cases "ts_writing s")
  case False
  show ?thesis
  proof (cases "ts_flushed s")
    case True
    with False assms(1) show ?thesis
      by (intro exI [of _ "s\<lparr>ts_tracer := TraceOff\<rparr>"]) (auto intro: tracer_stopped simp: rank_defs)
  next
    case False
    with \<open>\<not> ts_writing s\<close> assms(1) show ?thesis
      by - (rule descend [OF tracer_write]; simp add: rank_defs)
  qed
next
  case True
  show ?thesis
  proof (cases "ts_pipe s = PipeOpen")
    case False
    with True assms(1) show ?thesis
      by - (rule descend [OF tracer_write_closed]; simp add: rank_defs)
  next
    case is_open: True
    with assms(2) consider "ts_reader s = RRead" | "ts_reader s = RSend" by auto
    then show ?thesis
    proof cases
      case 1
      with True is_open assms(1) show ?thesis
        by - (rule descend [OF reader_read [where r = RRead and w = False]]; simp add: rank_defs)
    next
      case 2
      then show ?thesis by - (rule descend [OF sent]; simp add: rank_defs)
    qed
  qed
qed

lemma clean_descends:
  assumes "clean s" "ts_main s \<noteq> MReturned"
  shows "\<exists>t. trace_step s False t \<and> rank t < rank s"
proof (cases "ts_main s")
  case MStart
  with assms(1) show ?thesis by - (rule descend [OF start]; simp add: rank_defs clean_def)
next
  case MBoot
  then show ?thesis by - (rule descend [OF boot]; simp add: rank_defs)
next
  case MSendStart
  with rank_bound(1) [of s] show ?thesis by - (rule descend [OF sent_start]; simp add: rank_defs)
next
  case MSelect
  then show ?thesis by - (rule descend [OF select_ctx]; simp add: rank_defs)
next
  case MTimerStop
  show ?thesis
  proof (cases "ts_tracer s = TraceOff")
    case True
    with MTimerStop show ?thesis by - (rule descend [OF timer_stopped]; simp add: rank_defs)
  next
    case False
    with MTimerStop assms(1) tracer_descends [of s] show ?thesis by (cases "ts_tracer s") (auto simp: clean_def)
  qed
next
  case MWait
  with assms(1) consider "ts_reader s = RSend" | "ts_reader s = RRead" | "ts_reader s = RSendComplete"
    | "ts_reader s = RClosed" by (auto simp: clean_def)
  then show ?thesis
  proof cases
    case 1
    then show ?thesis by - (rule descend [OF sent]; simp add: rank_defs)
  next
    case 2
    with MWait assms(1) show ?thesis
      by - (rule descend [OF read_eof [where r = RSendComplete]]; simp add: rank_defs clean_def)
  next
    case 3
    then show ?thesis by - (rule descend [OF sent_complete]; simp add: rank_defs)
  next
    case 4
    with MWait show ?thesis by - (rule descend [OF wait_closed]; simp add: rank_defs)
  qed
next
  case MDrain
  with assms(1) consider "ts_reader s = RSend" | "ts_reader s = RRead" "ts_pipe s = PipeErr"
    | "ts_reader s = RErr \<or> ts_reader s = RClosed" by (auto simp: clean_def split: if_splits)
  then show ?thesis
  proof cases
    case 1
    then show ?thesis by - (rule descend [OF sent]; simp add: rank_defs)
  next
    case 2
    then show ?thesis by - (rule descend [OF read_err]; simp add: rank_defs)
  next
    case 3
    with MDrain show ?thesis by - (rule descend [OF drained]; simp add: rank_defs after_drain_def)
  qed
next
  case MDeferStop
  show ?thesis
  proof (cases "ts_tracer s = TraceOff")
    case True
    with MDeferStop show ?thesis by - (rule descend [OF defer_stopped]; simp add: rank_defs)
  next
    case False
    with MDeferStop assms(1) tracer_descends [of s] show ?thesis by (cases "ts_tracer s") (auto simp: clean_def)
  qed
qed (use assms(2) in simp)

lemma clean_returns:
  "clean s \<Longrightarrow> \<exists>t. (\<lambda>s t. trace_step s False t)\<^sup>*\<^sup>* s t \<and> ts_main t = MReturned \<and> clean t"
proof (induction "rank s" arbitrary: s rule: less_induct)
  case less
  show ?case
  proof (cases "ts_main s = MReturned")
    case False
    from clean_descends [OF less.prems False] obtain t where t: "trace_step s False t" "rank t < rank s" by blast
    from clean_step [OF t(1)] less.prems have "clean t" by simp
    from less.hyps [OF t(2) this] t(1) show ?thesis by (meson converse_rtranclp_into_rtranclp)
  qed (use less.prems in blast)
qed

text \<open>
  C23. An execution trace without failures does not get stuck: from every state that the function, its
  reader and the tracer reach together, whether the capture runs to its end or is canceled, they can go on
  until the function returns; and when it has returned, the trace is stopped and the reader has ended.
\<close>

theorem runExecutionTrace_progress:
  assumes "trace_reach False s"
  shows "(\<exists>t. (\<lambda>s t. trace_step s False t)\<^sup>*\<^sup>* s t \<and> ts_main t = MReturned) \<and>
    (ts_main s = MReturned \<longrightarrow> ts_tracer s = TraceOff \<and> ts_reader s = RClosed)"
proof -
  have "clean s" using assms TC.reachable_inv unfolding trace_reach_def by blast
  with clean_returns [of s] show ?thesis by (auto simp: clean_def)
qed

text \<open>The runs of the witness and of the two failures below, step by step.\<close>

definition sys :: "main_pc \<Rightarrow> reader_pc \<Rightarrow> tracer \<Rightarrow> bool \<Rightarrow> bool \<Rightarrow> pipe \<Rightarrow> bool \<Rightarrow> trace_sys" where
  "sys m r t w fl p st =
     \<lparr>ts_main = m, ts_reader = r, ts_tracer = t, ts_writing = w, ts_flushed = fl, ts_pipe = p, ts_stop = st\<rparr>"

lemma reach_via:
  "trace_reach f s \<Longrightarrow> trace_step s b t' \<Longrightarrow> b \<le> f \<Longrightarrow> t' = t \<Longrightarrow> trace_reach f t"
  unfolding trace_reach_def by (blast intro: reachable_step)

lemma reach_init: "trace_reach f trace_init"
  by (simp add: trace_reach_def reachable_init)

lemma reach_boot: "trace_reach f (sys MBoot RNone TraceOn False False PipeOpen False)"
  by (rule reach_via [OF reach_init start]) (simp_all add: trace_init_def sys_def)

lemma reach_send_start: "trace_reach f (sys MSendStart RNone TraceOn False False PipeOpen False)"
  by (rule reach_via [OF reach_boot boot]) (simp_all add: sys_def)

lemma reach_select: "trace_reach f (sys MSelect RRead TraceOn False False PipeOpen True)"
  by (rule reach_via [OF reach_send_start sent_start]) (simp_all add: sys_def)

lemma reach_sending: "trace_reach f (sys MSelect RSend TraceOn False False PipeOpen True)"
proof -
  have "trace_reach f (sys MSelect RRead TraceOn True False PipeOpen True)"
    by (rule reach_via [OF reach_select tracer_write]) (simp_all add: sys_def)
  then show ?thesis by (rule reach_via [OF _ reader_read [where r = RSend and w = False]]) (simp_all add: sys_def)
qed

theorem runExecutionTrace_progress_witness:
  "\<exists>s t. trace_reach False s \<and> ts_reader s = RSend \<and> (\<lambda>s t. trace_step s False t)\<^sup>*\<^sup>* s t \<and> ts_main t = MReturned"
proof (rule exI)
  show "\<exists>t. trace_reach False (sys MSelect RSend TraceOn False False PipeOpen True) \<and>
      ts_reader (sys MSelect RSend TraceOn False False PipeOpen True) = RSend \<and>
      (\<lambda>s t. trace_step s False t)\<^sup>*\<^sup>* (sys MSelect RSend TraceOn False False PipeOpen True) t \<and> ts_main t = MReturned"
    using runExecutionTrace_progress [OF reach_sending] reach_sending [of False]
    by (auto simp: sys_def)
qed

subsection \<open>With failures\<close>

abbreviation trace_steps :: "trace_sys \<Rightarrow> trace_sys \<Rightarrow> bool" where
  "trace_steps \<equiv> (\<lambda>s t. \<exists>b. trace_step s b t)\<^sup>*\<^sup>*"

text \<open>What holds up to the \<open>select\<close> also when calls fail.\<close>

fun early_at :: "main_pc \<Rightarrow> trace_sys \<Rightarrow> bool" where
  "early_at MStart s \<longleftrightarrow> ts_reader s = RNone \<and> ts_tracer s = TraceOff \<and> ts_pipe s = PipeOpen \<and> \<not> ts_flushed s"
| "early_at MSelect s \<longleftrightarrow> ts_reader s \<in> {RRead, RSend, RErr} \<and> ts_tracer s = TraceOn \<and> ts_pipe s = PipeOpen \<and>
     ts_stop s \<and> \<not> ts_flushed s"
| "early_at MBoot s \<longleftrightarrow> ts_reader s = RNone \<and> ts_tracer s = TraceOn \<and> ts_pipe s = PipeOpen \<and> \<not> ts_flushed s"
| "early_at MSendStart s \<longleftrightarrow> ts_reader s = RNone \<and> ts_tracer s = TraceOn \<and> ts_pipe s = PipeOpen \<and> \<not> ts_flushed s"
| "early_at _ s \<longleftrightarrow> True"

lemma early_step: "trace_step s b t \<Longrightarrow> early_at (ts_main s) s \<Longrightarrow> early_at (ts_main t) t"
  by (erule trace_stepE; cases "ts_main s"; auto simp: after_drain_def)

interpretation TE: transition_inv trace_init "\<lambda>s t. \<exists>b \<le> True. trace_step s b t" "\<lambda>s. early_at (ts_main s) s"
  by unfold_locales (simp add: trace_init_def, use early_step in auto)

lemma early: "trace_reach True s \<Longrightarrow> early_at (ts_main s) s"
  using TE.reachable_inv unfolding trace_reach_def by blast

text \<open>
  A capture whose reader has ended with its pipe open: the tracer's last write is not read. At the \<open>select\<close> a
  cancellation still closes the pipe; behind it nothing does.
\<close>

definition unread :: "trace_sys \<Rightarrow> bool" where
  "unread s \<longleftrightarrow> ts_reader s \<in> {RErr, RClosed} \<and> ts_pipe s = PipeOpen \<and>
     (ts_tracer s = TraceOn \<and> \<not> ts_flushed s \<or> ts_tracer s = TraceStopping \<and> (ts_flushed s \<longrightarrow> ts_writing s))"

definition doomed :: "trace_sys \<Rightarrow> bool" where
  "doomed s \<longleftrightarrow> unread s \<and>
     (case ts_main s of MTimerStop \<Rightarrow> True | MDrain \<Rightarrow> ts_stop s | MDeferStop \<Rightarrow> True | _ \<Rightarrow> False)"

definition at_risk :: "trace_sys \<Rightarrow> bool" where
  "at_risk s \<longleftrightarrow> unread s \<and> ts_main s = MSelect \<and> ts_stop s"

definition canceled :: "trace_sys \<Rightarrow> bool" where
  "canceled s \<longleftrightarrow> ts_pipe s = PipeErr \<and> ts_main s \<in> {MDrain, MDeferStop, MReturned}"

lemma doomed_step: "trace_step s b t \<Longrightarrow> doomed s \<Longrightarrow> doomed t"
  by (erule trace_stepE; cases "ts_main s"; auto simp: doomed_def unread_def after_drain_def)

lemma at_risk_step: "trace_step s b t \<Longrightarrow> at_risk s \<Longrightarrow> at_risk t \<or> doomed t \<or> canceled t"
  by (erule trace_stepE) (auto simp: doomed_def at_risk_def canceled_def unread_def after_drain_def)

lemma canceled_step: "trace_step s b t \<Longrightarrow> canceled s \<Longrightarrow> canceled t"
  by (erule trace_stepE) (auto simp: canceled_def after_drain_def)

lemma doomed_steps: "trace_steps s t \<Longrightarrow> doomed s \<Longrightarrow> doomed t"
  by (induction rule: rtranclp_induct) (auto dest: doomed_step)

lemma at_risk_steps: "trace_steps s t \<Longrightarrow> at_risk s \<Longrightarrow> at_risk t \<or> doomed t \<or> canceled t"
  by (induction rule: rtranclp_induct) (auto dest: at_risk_step doomed_step canceled_step)

lemma doomed_not_done: "doomed s \<Longrightarrow> ts_main s \<noteq> MReturned \<and> ts_tracer s \<noteq> TraceOff"
  by (auto simp: doomed_def unread_def)

lemma send_failed_at_risk:
  assumes "trace_reach True s" "ts_main s = MSelect" "trace_step s True t"
  shows "at_risk t \<and> ts_reader t = RErr"
  using assms(3) early [OF assms(1)] assms(2)
  by (auto elim!: trace_stepE simp: at_risk_def unread_def)

text \<open>From there the function gets into the deferred \<open>trace.Stop\<close>, and nobody can go on.\<close>

lemma at_risk_deadlock:
  assumes "at_risk t" "ts_reader t = RErr"
  shows "\<exists>u. trace_steps t u \<and> ts_main u = MDeferStop \<and> ts_tracer u \<noteq> TraceOff \<and> (\<nexists>b v. trace_step u b v)"
proof -
  define a where "a = t\<lparr>ts_main := MDrain, ts_reader := RClosed\<rparr>"
  define c where "c = a\<lparr>ts_main := MDeferStop, ts_tracer := TraceStopping\<rparr>"
  define u where "u = (if ts_writing c then c else c\<lparr>ts_writing := True, ts_flushed := True\<rparr>)"
  have t: "ts_main t = MSelect" "ts_stop t" "ts_pipe t = PipeOpen"
    using assms by (auto simp: at_risk_def unread_def)
  have "trace_step t False a" unfolding a_def by (rule select_err) (use t assms(2) in simp_all)
  moreover have "trace_step a False c"
    using drained [of a] t by (simp add: a_def c_def after_drain_def)
  moreover have "c = u \<or> trace_step c False u"
  proof (cases "ts_writing c")
    case False
    with tracer_write [of c] show ?thesis by (simp add: u_def) (simp add: c_def)
  qed (simp add: u_def)
  ultimately have "trace_steps t u"
    by (elim disjE) (blast intro: converse_rtranclp_into_rtranclp)+
  moreover have "\<not> trace_step u b v" for b v
    using t by (auto simp: u_def c_def a_def elim!: trace_stepE split: if_splits)
  ultimately show ?thesis by (intro exI [of _ u]) (auto simp: u_def c_def)
qed

lemma leaked_steps:
  "trace_steps s t \<Longrightarrow> ts_main s = MReturned \<and> ts_reader s = RNone \<and> ts_tracer s = TraceOn \<Longrightarrow>
   ts_main t = MReturned \<and> ts_reader t = RNone \<and> ts_tracer t = TraceOn"
proof (induction rule: rtranclp_induct)
  case (step t u)
  then show ?case by (auto elim!: trace_stepE)
qed

lemma early_failure_leaks:
  assumes "trace_reach True s" "ts_main s = MBoot \<or> ts_main s = MSendStart" "trace_step s True t"
  shows "ts_main t = MReturned \<and> (\<forall>u. trace_steps t u \<longrightarrow> ts_main u = MReturned \<and> ts_tracer u = TraceOn)"
proof -
  have "ts_main t = MReturned \<and> ts_reader t = RNone \<and> ts_tracer t = TraceOn"
    using assms(2,3) early [OF assms(1)] by (auto elim!: trace_stepE)
  with leaked_steps [of t] show ?thesis by blast
qed

text \<open>
  C36. When a chunk cannot be sent while the function is at its \<open>select\<close>, the reader ends without closing its side
  of the pipe, and unless the capture is canceled there, which closes the pipe, the function never returns and the trace is never off,
  whatever the parties do: the tracer's last write is not read, and \<open>trace.Stop\<close> waits for it. From every such failure the
  parties can get to where nobody can go on. And whenever the boot time is not available, or the first message is not sent, the function returns with the
  trace still on, which nobody stops. All three failures can happen.
\<close>

theorem runExecutionTrace_failure_blocks:
  "(\<forall>s t. trace_reach True s \<and> ts_main s = MSelect \<and> trace_step s True t \<longrightarrow>
      ts_reader t = RErr \<and>
      (\<forall>u v. trace_steps t u \<and> ts_main u \<noteq> MSelect \<and> ts_pipe u \<noteq> PipeErr \<and> trace_steps u v \<longrightarrow>
        ts_main v \<noteq> MReturned \<and> ts_tracer v \<noteq> TraceOff) \<and>
      (\<exists>u. trace_steps t u \<and> ts_main u = MDeferStop \<and> ts_tracer u \<noteq> TraceOff \<and> (\<nexists>b v. trace_step u b v))) \<and>
   (\<forall>s t. trace_reach True s \<and> (ts_main s = MBoot \<or> ts_main s = MSendStart) \<and> trace_step s True t \<longrightarrow>
      ts_main t = MReturned \<and> (\<forall>u. trace_steps t u \<longrightarrow> ts_main u = MReturned \<and> ts_tracer u = TraceOn)) \<and>
   (\<forall>m \<in> {MSelect, MBoot, MSendStart}. \<exists>s t. trace_reach True s \<and> ts_main s = m \<and> trace_step s True t)"
proof (intro conjI allI impI ballI)
  fix s t
  assume "trace_reach True s \<and> ts_main s = MSelect \<and> trace_step s True t"
  then have risk: "at_risk t" "ts_reader t = RErr" using send_failed_at_risk by blast+
  then show "ts_reader t = RErr" by simp
  show "\<exists>u. trace_steps t u \<and> ts_main u = MDeferStop \<and> ts_tracer u \<noteq> TraceOff \<and> (\<nexists>b v. trace_step u b v)"
    by (rule at_risk_deadlock [OF risk])
  fix u v
  assume u: "trace_steps t u \<and> ts_main u \<noteq> MSelect \<and> ts_pipe u \<noteq> PipeErr \<and> trace_steps u v"
  with at_risk_steps [of t u] risk(1) have "doomed u" by (auto simp: at_risk_def canceled_def)
  with u have "doomed v" using doomed_steps by blast
  then show "ts_main v \<noteq> MReturned" "ts_tracer v \<noteq> TraceOff" using doomed_not_done by blast+
next
  fix s t
  assume "trace_reach True s \<and> (ts_main s = MBoot \<or> ts_main s = MSendStart) \<and> trace_step s True t"
  then have leak: "ts_main t = MReturned \<and> (\<forall>u. trace_steps t u \<longrightarrow> ts_main u = MReturned \<and> ts_tracer u = TraceOn)"
    using early_failure_leaks by blast
  then show "ts_main t = MReturned" by blast
  fix u
  assume "trace_steps t u"
  with leak show "ts_main u = MReturned" "ts_tracer u = TraceOn" by blast+
next
  fix m
  assume m: "m \<in> {MSelect, MBoot, MSendStart}"
  have "\<exists>t. trace_step (sys MSelect RSend TraceOn False False PipeOpen True) True t"
    by (rule exI, rule send_failed) (simp add: sys_def)
  moreover have "\<exists>t. trace_step (sys MBoot RNone TraceOn False False PipeOpen False) True t"
    by (rule exI, rule boot_failed) (simp add: sys_def)
  moreover have "\<exists>t. trace_step (sys MSendStart RNone TraceOn False False PipeOpen False) True t"
    by (rule exI, rule send_start_failed) (simp add: sys_def)
  moreover have "ts_main (sys m r a b c d e) = m" for m r a b c d e by (simp add: sys_def)
  ultimately show "\<exists>s t. trace_reach True s \<and> ts_main s = m \<and> trace_step s True t"
    using m reach_sending [of True] reach_boot [of True] reach_send_start [of True] by (elim insertE emptyE) metis+
qed

text \<open>The failure of the first chunk, and of the first message, after which the tracer still writes.\<close>

theorem runExecutionTrace_failure_blocks_witness:
  "(\<exists>u. trace_steps (sys MSelect RErr TraceOn False False PipeOpen True) u \<and> ts_main u = MDeferStop \<and>
      (\<nexists>b v. trace_step u b v)) \<and>
   (\<exists>u. trace_steps (sys MReturned RNone TraceOn False False PipeOpen False) u \<and> ts_writing u \<and> ts_tracer u = TraceOn)"
proof -
  have 1: "trace_step (sys MSelect RSend TraceOn False False PipeOpen True) True (sys MSelect RErr TraceOn False False PipeOpen True)"
    using send_failed [of "sys MSelect RSend TraceOn False False PipeOpen True"] by (simp add: sys_def)
  have 2: "trace_step (sys MSendStart RNone TraceOn False False PipeOpen False) True
      (sys MReturned RNone TraceOn False False PipeOpen False)"
    using send_start_failed [of "sys MSendStart RNone TraceOn False False PipeOpen False"] by (simp add: sys_def)
  have 3: "ts_main (sys m r a b c d e) = m" for m r a b c d e by (simp add: sys_def)
  have 4: "trace_step (sys MReturned RNone TraceOn False False PipeOpen False) False
      (sys MReturned RNone TraceOn True False PipeOpen False)"
    using tracer_write [of "sys MReturned RNone TraceOn False False PipeOpen False"] by (simp add: sys_def)
  note blocks = runExecutionTrace_failure_blocks
  from blocks [THEN conjunct1, rule_format, OF conjI, OF reach_sending conjI, OF 3 1]
  have "\<exists>u. trace_steps (sys MSelect RErr TraceOn False False PipeOpen True) u \<and> ts_main u = MDeferStop \<and>
      (\<nexists>b v. trace_step u b v)" by (elim conjE exE) (intro exI conjI)
  moreover from 4 have steps: "trace_steps (sys MReturned RNone TraceOn False False PipeOpen False)
      (sys MReturned RNone TraceOn True False PipeOpen False)" by (blast intro: r_into_rtranclp)
  moreover from blocks [THEN conjunct2, THEN conjunct1, rule_format, OF conjI, OF reach_send_start conjI, OF disjI2 2, OF 3] steps
  have "ts_tracer (sys MReturned RNone TraceOn True False PipeOpen False) = TraceOn" by blast
  moreover have "ts_writing (sys MReturned RNone TraceOn True False PipeOpen False)" by (simp add: sys_def)
  ultimately show ?thesis by blast
qed

end
