(* ===== verification/Side_Eye_Conn.thy ===== *)
theory Side_Eye_Conn
  imports Server_Dial Server_Rpc Opcode_String Stop_The_World
begin

text \<open>
  The connection to the service (\<open>internal/sideeyeconn\<close>): its configuration, the fingerprints it is known
  by, and \<open>Connect\<close>, \<open>Close\<close> and \<open>Status\<close> as functions on the state of a connection. What they create and
  release (the listener, the gRPC server, the gRPC client connection, the goroutine that serves) is named
  by the number of the \<open>Connect\<close> call, and the calls made on them are logged in order. Theory \<open>Conn_Race\<close>
  has the same operations as interleaved steps.
\<close>

subsection \<open>The configuration\<close>

type_synonym logger = "string \<Rightarrow> string list \<Rightarrow> string list"

record Config =
  cf_TenantToken :: string
  cf_AgentUrl :: string
  cf_Environment :: string
  cf_ProgramName :: string
  cf_ErrorLogger :: "logger option"
  cf_InfoLogger :: "logger option"

definition defaultAgentUrl :: string where
  "defaultAgentUrl = ''https://internal-api.side-eye.io:443''"

definition ENV_AGENT_URL :: string where
  "ENV_AGENT_URL = ''SIDE_EYE_AGENT_URL''"

definition ENV_TENANT_TOKEN :: string where
  "ENV_TENANT_TOKEN = ''SIDE_EYE_TOKEN''"

definition ENV_ENVIRONMENT :: string where
  "ENV_ENVIRONMENT = ''SIDE_EYE_ENVIRONMENT''"

text \<open>\<open>os.Getenv\<close>, on the variables of the process: the empty string for one that is not set.\<close>

definition Getenv :: "(string \<Rightarrow> string option) \<Rightarrow> string \<Rightarrow> string" where
  "Getenv vars k = (case vars k of None \<Rightarrow> '''' | Some v \<Rightarrow> v)"

definition zero_Config :: Config where
  "zero_Config =
     \<lparr>cf_TenantToken = '''', cf_AgentUrl = '''', cf_Environment = '''', cf_ProgramName = '''',
      cf_ErrorLogger = None, cf_InfoLogger = None\<rparr>"

definition MakeDefaultConfig :: "(string \<Rightarrow> string option) \<Rightarrow> string \<Rightarrow> Config" where
  "MakeDefaultConfig vars programName =
     (let cfg = zero_Config\<lparr>cf_ProgramName := programName, cf_AgentUrl := defaultAgentUrl,
                  cf_ErrorLogger := Some (\<lambda>_ lines. lines)\<rparr>;
          cfg = (if Getenv vars ENV_TENANT_TOKEN \<noteq> ''''
                 then cfg\<lparr>cf_TenantToken := Getenv vars ENV_TENANT_TOKEN\<rparr> else cfg);
          cfg = (if Getenv vars ENV_AGENT_URL \<noteq> ''''
                 then cfg\<lparr>cf_AgentUrl := Getenv vars ENV_AGENT_URL\<rparr> else cfg);
          cfg = (if Getenv vars ENV_ENVIRONMENT \<noteq> ''''
                 then cfg\<lparr>cf_Environment := Getenv vars ENV_ENVIRONMENT\<rparr> else cfg)
      in cfg)"

subsection \<open>The process fingerprint\<close>

text \<open>A \<open>time.Time\<close> as its seconds since 1970 and its nanoseconds; \<open>UnixNano\<close> wraps around.\<close>

record gotime =
  tm_sec :: u64
  tm_nsec :: u64

definition tm_UnixNano :: "gotime \<Rightarrow> u64" where
  "tm_UnixNano t = tm_sec t * 1000000000 + tm_nsec t"

text \<open>The verb \<open>%d\<close> on a signed 64-bit number.\<close>

definition fmt_int :: "u64 \<Rightarrow> string" where
  "fmt_int w = (if sint w < 0 then ''-'' @ FormatInt (nat (- sint w)) else FormatInt (nat (sint w)))"

definition make_processFingerprint :: "string \<Rightarrow> u64 \<Rightarrow> gotime \<Rightarrow> string" where
  "make_processFingerprint uuid pid ti =
     uuid @ '':'' @ fmt_int pid @ '':'' @ fmt_int (tm_sec ti) @ ''.'' @
     fmt_int (tm_UnixNano ti - tm_sec ti * 1000000000)"

subsection \<open>The client of the artifact store\<close>

datatype creds = InsecureCredentials | TlsCredentials

datatype client_error = ClientParseUrl | ClientScheme string | ClientDial string

text \<open>
  \<open>parse_ip\<close> is \<open>netip.ParseAddr\<close> followed by \<open>String\<close>, and \<open>dial\<close> gives the error of \<open>grpc.DialContext\<close>, if
  any. The result is the address dialed, with the credentials.
\<close>

definition artifacts_address :: "(string \<Rightarrow> string option) \<Rightarrow> url \<Rightarrow> string" where
  "artifacts_address parse_ip u =
     (case parse_ip (u_Hostname u) of
        Some ip \<Rightarrow> if u_Port u \<noteq> '''' then ip @ '':'' @ u_Port u else ip
      | None \<Rightarrow> ''dns:///'' @ u_Host u)"

definition newArtifactsClient ::
  "(string \<Rightarrow> url option) \<Rightarrow> (string \<Rightarrow> string option) \<Rightarrow> (string \<Rightarrow> string option) \<Rightarrow> string \<Rightarrow>
   client_error + (string \<times> creds)" where
  "newArtifactsClient parse parse_ip dial addr =
     (case parse addr of
        None \<Rightarrow> Inl ClientParseUrl
      | Some u \<Rightarrow>
          bindE (if u_Scheme u = ''http'' then Inr InsecureCredentials
                 else if u_Scheme u = ''https'' then Inr TlsCredentials
                 else Inl (ClientScheme (u_Scheme u))) (\<lambda>opts.
          let target = artifacts_address parse_ip u
          in case dial target of
               Some e \<Rightarrow> Inl (ClientDial e)
             | None \<Rightarrow> Inr (target, opts)))"

subsection \<open>The connection\<close>

record SideEyeConn =
  sc_ActiveConfig :: Config
  sc_agentFingerprint :: string
  sc_processFingerprint :: string
  sc_listener :: "nat option"
  sc_server :: "Server option"
  sc_grpcServer :: "nat option"
  sc_grpcConn :: "nat option"
  sc_wg :: "nat option"

definition nil_uuid :: string where
  "nil_uuid = ''00000000-0000-0000-0000-000000000000''"

definition NewSideEyeConn :: SideEyeConn where
  "NewSideEyeConn =
     \<lparr>sc_ActiveConfig = zero_Config\<lparr>cf_ErrorLogger := Some (\<lambda>_ lines. lines)\<rparr>,
      sc_agentFingerprint = nil_uuid, sc_processFingerprint = '''',
      sc_listener = None, sc_server = None, sc_grpcServer = None, sc_grpcConn = None, sc_wg = None\<rparr>"

datatype conn_event =
    ListenerStarted nat | GrpcDialed nat string | Serving nat
  | GrpcStopped nat | GrpcConnClosed nat | WaitedFor nat

text \<open>
  Under the mutex, whoever calls it. The two calls are taken to return: the first waits for the listener's goroutine
  (theory Server_Dial, which shows when that does not end).
\<close>

definition closeInner :: "SideEyeConn \<Rightarrow> (conn_event list \<times> SideEyeConn) res" where
  "closeInner c =
     (case sc_listener c of
        None \<Rightarrow> Inr ([], c)
      | Some _ \<Rightarrow>
          (case sc_grpcServer c of
             None \<Rightarrow> Inl NilDeref
           | Some s \<Rightarrow>
               (case sc_grpcConn c of
                  None \<Rightarrow> Inl NilDeref
                | Some g \<Rightarrow>
                    Inr ([GrpcStopped s, GrpcConnClosed g],
                         c\<lparr>sc_grpcConn := None, sc_grpcServer := None, sc_server := None, sc_listener := None\<rparr>))))"

definition Close :: "SideEyeConn \<Rightarrow> (conn_event list \<times> SideEyeConn) res" where
  "Close c =
     (if sc_listener c = None then Inr ([], c)
      else
        bindE (closeInner c) (\<lambda>(evs, c).
        case sc_wg c of None \<Rightarrow> Inl NilDeref | Some w \<Rightarrow> Inr (evs @ [WaitedFor w], c)))"

text \<open>The part of \<open>Connect\<close> that runs under the mutex.\<close>

definition store_conn :: "nat \<Rightarrow> Server \<Rightarrow> SideEyeConn \<Rightarrow> SideEyeConn" where
  "store_conn n srv c =
     c\<lparr>sc_server := Some srv, sc_grpcServer := Some n, sc_grpcConn := Some n, sc_listener := Some n\<rparr>"

datatype connect_error =
    NotSupported platform_error | MissingToken | GenerateFingerprint string
  | CreateListener dialer_error | CreateArtifactsClient client_error

text \<open>What \<open>Connect\<close> finds in its environment; \<open>ce_uuid\<close> is the result of \<open>uuid.NewRandom\<close>.\<close>

record connect_env =
  ce_version :: go_version
  ce_arch :: os_arch
  ce_uuid :: "string + string"
  ce_pid :: u64
  ce_startTime :: gotime
  ce_parse :: "string \<Rightarrow> url option"
  ce_parse_ip :: "string \<Rightarrow> string option"
  ce_dial :: "string \<Rightarrow> string option"

definition make_server :: "Config \<Rightarrow> bool \<Rightarrow> SideEyeConn \<Rightarrow> Server" where
  "make_server cfg ephemeralProcess c =
     NewServer (sc_agentFingerprint c) (sc_processFingerprint c) (cf_TenantToken cfg) (cf_Environment cfg)
       (cf_ProgramName cfg) ephemeralProcess
       \<lparr>lg_ErrorLogger = cf_ErrorLogger cfg, lg_InfoLogger = cf_InfoLogger cfg\<rparr>"

definition Connect ::
  "connect_env \<Rightarrow> Config \<Rightarrow> bool \<Rightarrow> nat \<Rightarrow> SideEyeConn \<Rightarrow>
   (connect_error option \<times> conn_event list \<times> SideEyeConn) res" where
  "Connect en cfg ephemeralProcess n c =
     (case PlatformSupported (ce_version en) (ce_arch en) of
        Some e \<Rightarrow> Inr (Some (NotSupported e), [], c)
      | None \<Rightarrow>
          bindE (Close c) (\<lambda>(evs, c).
          if cf_TenantToken cfg = '''' then Inr (Some MissingToken, evs, c)
          else
            (case ce_uuid en of
               Inl e \<Rightarrow> Inr (Some (GenerateFingerprint e), evs, c\<lparr>sc_agentFingerprint := nil_uuid\<rparr>)
             | Inr uuid \<Rightarrow>
                 (let c = c\<lparr>sc_agentFingerprint := uuid,
                            sc_processFingerprint := make_processFingerprint uuid (ce_pid en) (ce_startTime en)\<rparr>
                  in case newDialer (ce_parse en) (cf_AgentUrl cfg) of
                       Inl e \<Rightarrow> Inr (Some (CreateListener e), evs, c)
                     | Inr _ \<Rightarrow>
                         (let evs = evs @ [ListenerStarted n]
                          in case newArtifactsClient (ce_parse en) (ce_parse_ip en) (ce_dial en) (cf_AgentUrl cfg) of
                               Inl e \<Rightarrow> Inr (Some (CreateArtifactsClient e), evs, c)
                             | Inr (target, _) \<Rightarrow>
                                 (let c = c\<lparr>sc_ActiveConfig := cfg\<rparr>;
                                      c = store_conn n (make_server cfg ephemeralProcess c) c;
                                      c = c\<lparr>sc_wg := Some n\<rparr>
                                  in Inr (None, evs @ [GrpcDialed n target, Serving n], c)))))))"

datatype conn_status =
    ConnUnknown | ConnUninitialized | ConnConnected | ConnDisconnected | ConnConnecting

text \<open>\<open>st\<close> is the status of the listener.\<close>

definition Conn_Status :: "ConnectionStatus \<Rightarrow> SideEyeConn \<Rightarrow> conn_status" where
  "Conn_Status st c =
     (case sc_listener c of
        None \<Rightarrow> ConnUninitialized
      | Some _ \<Rightarrow>
          (case st of
             UnknownStatus \<Rightarrow> ConnUnknown
           | Connecting \<Rightarrow> ConnConnecting
           | Connected \<Rightarrow> ConnConnected
           | Disconnected \<Rightarrow> ConnDisconnected))"

subsection \<open>The fingerprint identifies the process\<close>

definition digits_value :: "string \<Rightarrow> nat" where
  "digits_value s = foldl (\<lambda>a c. a * 10 + (of_char c - 48)) 0 s"

lemma of_char_digit: "n < 10 \<Longrightarrow> (of_char (digit_char n) :: nat) = 48 + n"
  by (simp add: digit_char_def)

lemma digits_value_FormatInt [simp]: "digits_value (FormatInt n) = n"
proof (induction n rule: FormatInt.induct)
  case (1 n)
  then show ?case
    by (subst FormatInt.simps) (simp add: digits_value_def of_char_digit)
qed

lemma FormatInt_inject [simp]: "FormatInt m = FormatInt n \<longleftrightarrow> m = n"
  by (metis digits_value_FormatInt)

lemma FormatInt_digits: "c \<in> set (FormatInt n) \<Longrightarrow> 48 \<le> (of_char c :: nat) \<and> (of_char c :: nat) < 58"
proof (induction n rule: FormatInt.induct)
  case (1 n)
  from 1(2) show ?case
    by (subst (asm) FormatInt.simps) (use 1(1) in \<open>auto simp: of_char_digit split: if_splits\<close>)
qed

lemma FormatInt_not_nil [simp]: "FormatInt n \<noteq> []"
  by (subst FormatInt.simps) simp

lemma FormatInt_no_sign: "FormatInt m \<noteq> CHR ''-'' # s"
proof
  assume "FormatInt m = CHR ''-'' # s"
  then have "CHR ''-'' \<in> set (FormatInt m)" by simp
  from FormatInt_digits [OF this] show False by simp
qed

lemma fmt_int_inject [simp]: "fmt_int v = fmt_int w \<longleftrightarrow> v = w"
proof
  assume "fmt_int v = fmt_int w"
  then have "sint v = sint w"
    by (auto simp: fmt_int_def FormatInt_no_sign FormatInt_no_sign [symmetric] split: if_splits)
  then show "v = w" by (simp add: signed_word_eqI)
qed simp

lemma fmt_int_no_sep: "CHR '':'' \<notin> set (fmt_int w)" "CHR ''.'' \<notin> set (fmt_int w)"
  by (auto simp: fmt_int_def dest: FormatInt_digits split: if_splits)

lemma UnixNano_rest: "tm_UnixNano t - tm_sec t * 1000000000 = tm_nsec t"
  by (simp add: tm_UnixNano_def)

text \<open>
  Two processes with the same fingerprint are the same: for fingerprints of the agent of the same
  length the string determines the agent, the process id and the start time to the nanosecond, also for
  times whose nanoseconds since 1970 overflow 64 bits.
\<close>

theorem processFingerprint_injective:
  assumes "length uuid = length uuid'"
    and "make_processFingerprint uuid pid ti = make_processFingerprint uuid' pid' ti'"
  shows "uuid = uuid' \<and> pid = pid' \<and> tm_sec ti = tm_sec ti' \<and> tm_nsec ti = tm_nsec ti'"
proof -
  have 1: "uuid = uuid'"
    and 2: "fmt_int pid @ CHR '':'' # fmt_int (tm_sec ti) @ CHR ''.'' # fmt_int (tm_nsec ti) =
        fmt_int pid' @ CHR '':'' # fmt_int (tm_sec ti') @ CHR ''.'' # fmt_int (tm_nsec ti')"
    using assms by (simp_all add: make_processFingerprint_def UnixNano_rest)
  from 2 have 3: "fmt_int pid = fmt_int pid'"
    and 4: "fmt_int (tm_sec ti) @ CHR ''.'' # fmt_int (tm_nsec ti) =
        fmt_int (tm_sec ti') @ CHR ''.'' # fmt_int (tm_nsec ti')"
    by (simp_all add: append_Cons_eq_iff fmt_int_no_sep)
  from 4 have "fmt_int (tm_sec ti) = fmt_int (tm_sec ti') \<and> fmt_int (tm_nsec ti) = fmt_int (tm_nsec ti')"
    by (simp add: append_Cons_eq_iff fmt_int_no_sep)
  with 1 3 show ?thesis by simp
qed

lemma digit_chars:
  "digit_char 0 = CHR ''0''" "digit_char (Suc 0) = CHR ''1''" "digit_char 2 = CHR ''2''" "digit_char 3 = CHR ''3''"
  "digit_char 4 = CHR ''4''" "digit_char 5 = CHR ''5''" "digit_char 6 = CHR ''6''" "digit_char 7 = CHR ''7''"
  "digit_char 8 = CHR ''8''" "digit_char 9 = CHR ''9''"
  by code_simp+

theorem processFingerprint_injective_witness:
  "{ti. make_processFingerprint ''a'' 7 ti = ''a:7:12345678901.5''} = {\<lparr>tm_sec = 12345678901, tm_nsec = 5\<rparr>}"
proof -
  have eq: "make_processFingerprint ''a'' 7 \<lparr>tm_sec = 12345678901, tm_nsec = 5\<rparr> = ''a:7:12345678901.5''"
    by (simp only: make_processFingerprint_def UnixNano_rest) (simp add: fmt_int_def FormatInt.simps digit_chars)
  moreover have "ti = \<lparr>tm_sec = 12345678901, tm_nsec = 5\<rparr>" if "make_processFingerprint ''a'' 7 ti = ''a:7:12345678901.5''" for ti
    using processFingerprint_injective [of "''a''" "''a''" 7 ti 7 "\<lparr>tm_sec = 12345678901, tm_nsec = 5\<rparr>"] that eq
    by (cases ti) simp
  ultimately show ?thesis by blast
qed

subsection \<open>Connecting and closing\<close>

text \<open>The handles of a connection are set and cleared together, and there is a goroutine to wait for.\<close>

definition handles :: "nat option \<Rightarrow> SideEyeConn \<Rightarrow> bool" where
  "handles h c \<longleftrightarrow> sc_listener c = h \<and> sc_grpcServer c = h \<and> sc_grpcConn c = h \<and> (sc_server c = None \<longleftrightarrow> h = None)"

definition conn_ok :: "SideEyeConn \<Rightarrow> bool" where
  "conn_ok c \<longleftrightarrow> (\<exists>h. handles h c) \<and> (sc_listener c \<noteq> None \<longrightarrow> sc_wg c \<noteq> None)"

definition release_events :: "SideEyeConn \<Rightarrow> conn_event list" where
  "release_events c =
     (case sc_listener c of None \<Rightarrow> [] | Some n \<Rightarrow> [GrpcStopped n, GrpcConnClosed n, WaitedFor (the (sc_wg c))])"

definition no_handles :: "SideEyeConn \<Rightarrow> SideEyeConn" where
  "no_handles c = c\<lparr>sc_listener := None, sc_server := None, sc_grpcServer := None, sc_grpcConn := None\<rparr>"

lemma no_handles_sel [simp]:
  "sc_listener (no_handles c) = None" "sc_ActiveConfig (no_handles c) = sc_ActiveConfig c"
  "sc_wg (no_handles c) = sc_wg c"
  by (simp_all add: no_handles_def)

lemma handles_None [simp]: "handles None (no_handles c)"
  by (simp add: handles_def no_handles_def)

lemma handles_store [simp]: "handles (Some n) (store_conn n srv c)"
  by (simp add: handles_def store_conn_def)

lemma handles_listener: "handles h c \<Longrightarrow> sc_listener c = h"
  by (simp add: handles_def)

lemma conn_ok_new: "conn_ok NewSideEyeConn"
  by (simp add: conn_ok_def handles_def NewSideEyeConn_def)

lemma closeInner_handles:
  "handles h c \<Longrightarrow> closeInner c =
     Inr (case h of None \<Rightarrow> [] | Some n \<Rightarrow> [GrpcStopped n, GrpcConnClosed n], no_handles c)"
  by (cases h) (simp_all add: handles_def closeInner_def no_handles_def)

lemma Close_ok: "conn_ok c \<Longrightarrow> Close c = Inr (release_events c, no_handles c)"
proof -
  assume "conn_ok c"
  then obtain h where h: "handles h c" and w: "h \<noteq> None \<longrightarrow> sc_wg c \<noteq> None"
    by (auto simp: conn_ok_def handles_def)
  show ?thesis
  proof (cases h)
    case None
    with h show ?thesis by (simp add: Close_def release_events_def handles_def no_handles_def)
  next
    case (Some n)
    with h w show ?thesis
      by (auto simp: Close_def closeInner_handles [OF h] release_events_def handles_listener [OF h])
  qed
qed

lemma Connect_result:
  assumes "conn_ok c" "PlatformSupported (ce_version en) (ce_arch en) = None"
  shows "\<exists>err evs c'. Connect en cfg eph n c = Inr (err, release_events c @ evs, c') \<and> conn_ok c' \<and>
    (err = None \<longrightarrow> (\<exists>srv uuid. handles (Some n) c' \<and> sc_wg c' = Some n \<and> sc_ActiveConfig c' = cfg \<and>
       (\<exists>target. evs = [ListenerStarted n, GrpcDialed n target, Serving n]) \<and>
       sc_server c' = Some srv \<and> sv_agentFingerprint srv = sc_agentFingerprint c' \<and>
       sv_processFingerprint srv = sc_processFingerprint c' \<and> sv_tenantToken srv = cf_TenantToken cfg \<and>
       sv_environment srv = cf_Environment cfg \<and> sv_programName srv = cf_ProgramName cfg \<and>
       sv_ephemeralProcess srv = eph \<and> ce_uuid en = Inr uuid \<and> sc_agentFingerprint c' = uuid \<and>
       sc_processFingerprint c' = make_processFingerprint uuid (ce_pid en) (ce_startTime en))) \<and>
    (err \<noteq> None \<longrightarrow> handles None c' \<and> sc_ActiveConfig c' = sc_ActiveConfig c \<and>
       evs = (if \<exists>e. err = Some (CreateArtifactsClient e) then [ListenerStarted n] else []))"
proof (cases "cf_TenantToken cfg = ''''")
  note defs = Connect_def Let_def make_server_def NewServer_def conn_ok_def
  case True
  with assms show ?thesis by (auto simp: defs Close_ok [OF assms(1)] intro: exI [of _ None])
next
  note defs = Connect_def Let_def make_server_def NewServer_def conn_ok_def
  case token: False
  show ?thesis
  proof (cases "ce_uuid en")
    case (Inl e)
    with assms token show ?thesis
      by (auto simp: defs Close_ok [OF assms(1)] handles_def no_handles_def intro: exI [of _ None])
  next
    case (Inr uuid)
    with assms token show ?thesis
      by (cases "newDialer (ce_parse en) (cf_AgentUrl cfg)";
          cases "newArtifactsClient (ce_parse en) (ce_parse_ip en) (ce_dial en) (cf_AgentUrl cfg)")
        (auto simp: defs Close_ok [OF assms(1)] store_conn_def handles_def no_handles_def)
  qed
qed

text \<open>
  C27. \<open>Connect\<close> replaces the connection: on a supported platform it never panics, first releases what the
  previous call had created and waits for its goroutine; then it either holds a complete new connection
  that serves, whose server reports the fingerprints and labels of the configuration, which is now the
  active one, or it returns an error, is not connected and the active configuration is the old one. On an
  error the listener that was started is not stopped exactly when the client of the artifact store could
  not be created.
\<close>

theorem Connect_outcome:
  assumes "conn_ok c" "PlatformSupported (ce_version en) (ce_arch en) = None"
  shows "\<exists>err evs c'. Connect en cfg eph n c = Inr (err, release_events c @ evs, c') \<and> conn_ok c' \<and>
    (err = None \<longrightarrow> (\<exists>srv uuid. handles (Some n) c' \<and> sc_wg c' = Some n \<and> sc_ActiveConfig c' = cfg \<and>
       (\<exists>target. evs = [ListenerStarted n, GrpcDialed n target, Serving n]) \<and>
       sc_server c' = Some srv \<and> sv_agentFingerprint srv = sc_agentFingerprint c' \<and>
       sv_processFingerprint srv = sc_processFingerprint c' \<and> sv_tenantToken srv = cf_TenantToken cfg \<and>
       sv_environment srv = cf_Environment cfg \<and> sv_programName srv = cf_ProgramName cfg \<and>
       sv_ephemeralProcess srv = eph \<and> ce_uuid en = Inr uuid \<and> sc_agentFingerprint c' = uuid \<and>
       sc_processFingerprint c' = make_processFingerprint uuid (ce_pid en) (ce_startTime en))) \<and>
    (err \<noteq> None \<longrightarrow> handles None c' \<and> sc_ActiveConfig c' = sc_ActiveConfig c \<and>
       evs = (if \<exists>e. err = Some (CreateArtifactsClient e) then [ListenerStarted n] else []))"
  by (rule Connect_result [OF assms])

text \<open>An environment in which every call succeeds, and one whose client cannot be created.\<close>

definition example_url :: url where
  "example_url =
     \<lparr>u_Scheme = ''https'', u_Host = ''host:443'', u_Hostname = ''host'', u_Port = ''443'', u_Path = '''', u_RawQuery = ''''\<rparr>"

definition conn_example_env :: "string option \<Rightarrow> connect_env" where
  "conn_example_env dialErr =
     \<lparr>ce_version = Go_1_20_to_1_21, ce_arch = Linux_amd64, ce_uuid = Inr ''u'', ce_pid = 7,
      ce_startTime = \<lparr>tm_sec = 1, tm_nsec = 5\<rparr>, ce_parse = (\<lambda>_. Some example_url), ce_parse_ip = (\<lambda>_. None),
      ce_dial = (\<lambda>_. dialErr)\<rparr>"

definition example_Config :: Config where
  "example_Config = zero_Config\<lparr>cf_TenantToken := ''t'', cf_AgentUrl := ''https://host:443''\<rparr>"

lemma example_supported: "PlatformSupported (ce_version (conn_example_env e)) (ce_arch (conn_example_env e)) = None"
  by (simp add: conn_example_env_def PlatformSupported_def)

lemma example_connects:
  "\<exists>c'. Connect (conn_example_env None) example_Config eph n NewSideEyeConn =
     Inr (None, [ListenerStarted n, GrpcDialed n ''dns:///host:443'', Serving n], c')"
  "\<exists>c'. Connect (conn_example_env (Some e)) example_Config eph n NewSideEyeConn =
     Inr (Some (CreateArtifactsClient (ClientDial e)), [ListenerStarted n], c')"
  by (simp_all add: Connect_def Close_def conn_example_env_def example_Config_def zero_Config_def PlatformSupported_def
      newDialer_def newArtifactsClient_def artifacts_address_def example_url_def NewSideEyeConn_def Let_def)

theorem Connect_outcome_witness:
  "\<exists>c' c''. Connect (conn_example_env None) example_Config True 3 NewSideEyeConn =
       Inr (None, [ListenerStarted 3, GrpcDialed 3 ''dns:///host:443'', Serving 3], c') \<and> handles (Some 3) c' \<and>
     Connect (conn_example_env (Some ''refused'')) example_Config True 3 NewSideEyeConn =
       Inr (Some (CreateArtifactsClient (ClientDial ''refused'')), [ListenerStarted 3], c'') \<and> handles None c''"
  using example_connects(1) [of True 3] example_connects(2) [of "''refused''" True 3]
    Connect_outcome [OF conn_ok_new example_supported, of None example_Config True 3]
    Connect_outcome [OF conn_ok_new example_supported, of "Some ''refused''" example_Config True 3]
  by (auto simp: release_events_def NewSideEyeConn_def)

subsection \<open>The address of the artifact store\<close>

text \<open>
  A host name is dialed through DNS with its port, but the address of an IPv6 literal is joined to the
  port without brackets: \<open>https://[::1]:443\<close> gives the address of \<open>https://[::1:443]\<close>, another host
  without a port.
\<close>

theorem artifacts_address_ipv6:
  "let u1 = \<lparr>u_Scheme = ''https'', u_Host = ''[::1]:443'', u_Hostname = ''::1'', u_Port = ''443'', u_Path = '''', u_RawQuery = ''''\<rparr>;
       u2 = \<lparr>u_Scheme = ''https'', u_Host = ''[::1:443]'', u_Hostname = ''::1:443'', u_Port = '''', u_Path = '''', u_RawQuery = ''''\<rparr>;
       parse_ip = (\<lambda>h. if h = ''::1'' \<or> h = ''::1:443'' then Some h else None)
   in artifacts_address parse_ip u1 = artifacts_address parse_ip u2 \<and>
      artifacts_address parse_ip u1 = ''::1:443'' \<and>
      artifacts_address parse_ip example_url = ''dns:///host:443''"
  by (simp add: artifacts_address_def example_url_def)

end
