(* ===== verification/Conn_Race.thy ===== *)
theory Conn_Race
  imports Side_Eye_Conn
begin

text \<open>
  The operations of a connection as interleaved steps: any number of callers of \<open>Connect\<close> and \<open>Close\<close>, and
  the goroutines that serve (\<open>internal/sideeyeconn/side_eye_conn.go\<close>). A step is one access to the fields
  under the mutex, one access to \<open>wg\<close>, or the return of \<open>Serve\<close>. The flag says whether a call starts only
  when no other is running.
\<close>

subsection \<open>The steps\<close>

text \<open>
  A goroutine: not started, in \<open>Serve\<close>, before its deferred \<open>closeInner\<close>, before its deferred \<open>Done\<close>, and
  after that. A caller of \<open>Close\<close> (\<open>False\<close>) or \<open>Connect\<close> (\<open>True\<close>): before the test of the listener, before
  \<open>closeInner\<close>, before it reads \<open>wg\<close>, in \<open>Wait\<close>; then, in \<open>Connect\<close>, before the new resources are created,
  before they are stored, before \<open>wg\<close> is set, and before the goroutine is started.
\<close>

datatype gor_pc = GNone | GServing | GClosing | GLeaving | GDone

datatype call_pc =
    CIdle | CCheck bool | CInner bool | CReadWg bool | CWait bool nat | CBuild | CStore nat | CSetWg nat | CGo nat

datatype party = Caller nat | Goroutine nat

record conn_sys =
  ks_conn :: SideEyeConn
  ks_next :: nat
  ks_gor :: "nat \<Rightarrow> gor_pc"
  ks_call :: "nat \<Rightarrow> call_pc"
  ks_log :: "(party \<times> conn_event) list"

definition conn_init :: conn_sys where
  "conn_init =
     \<lparr>ks_conn = NewSideEyeConn, ks_next = 0, ks_gor = (\<lambda>_. GNone), ks_call = (\<lambda>_. CIdle), ks_log = []\<rparr>"

definition goto :: "nat \<Rightarrow> call_pc \<Rightarrow> conn_sys \<Rightarrow> conn_sys" where
  "goto i pc s = s\<lparr>ks_call := (ks_call s)(i := pc)\<rparr>"

definition gor_goto :: "nat \<Rightarrow> gor_pc \<Rightarrow> conn_sys \<Rightarrow> conn_sys" where
  "gor_goto n pc s = s\<lparr>ks_gor := (ks_gor s)(n := pc)\<rparr>"

definition log_as :: "party \<Rightarrow> conn_event list \<Rightarrow> conn_sys \<Rightarrow> conn_sys" where
  "log_as p evs s = s\<lparr>ks_log := ks_log s @ map (Pair p) evs\<rparr>"

definition after_close :: "bool \<Rightarrow> call_pc" where
  "after_close connecting = (if connecting then CBuild else CIdle)"

inductive conn_step :: "bool \<Rightarrow> conn_sys \<Rightarrow> conn_sys \<Rightarrow> bool" for sequential where
  call: "ks_call s i = CIdle \<Longrightarrow> (sequential \<Longrightarrow> \<forall>j. ks_call s j = CIdle) \<Longrightarrow>
    conn_step sequential s (goto i (CCheck b) s)"
| check_nil: "ks_call s i = CCheck b \<Longrightarrow> sc_listener (ks_conn s) = None \<Longrightarrow>
    conn_step sequential s (goto i (after_close b) s)"
| check_open: "ks_call s i = CCheck b \<Longrightarrow> sc_listener (ks_conn s) \<noteq> None \<Longrightarrow>
    conn_step sequential s (goto i (CInner b) s)"
| inner: "ks_call s i = CInner b \<Longrightarrow> closeInner (ks_conn s) = Inr (evs, c) \<Longrightarrow>
    conn_step sequential s (goto i (CReadWg b) (log_as (Caller i) evs (s\<lparr>ks_conn := c\<rparr>)))"
| read_wg: "ks_call s i = CReadWg b \<Longrightarrow> sc_wg (ks_conn s) = Some g \<Longrightarrow>
    conn_step sequential s (goto i (CWait b g) s)"
| waited: "ks_call s i = CWait b g \<Longrightarrow> ks_gor s g = GDone \<Longrightarrow> conn_step sequential s (goto i (after_close b) s)"
| failed: "ks_call s i = CBuild \<Longrightarrow> conn_step sequential s (goto i CIdle s)"
| build: "ks_call s i = CBuild \<Longrightarrow>
    conn_step sequential s
      (goto i (CStore (ks_next s))
        (log_as (Caller i) [ListenerStarted (ks_next s), GrpcDialed (ks_next s) target] (s\<lparr>ks_next := ks_next s + 1\<rparr>)))"
| store: "ks_call s i = CStore n \<Longrightarrow>
    conn_step sequential s (goto i (CSetWg n) (s\<lparr>ks_conn := store_conn n srv (ks_conn s)\<rparr>))"
| set_wg: "ks_call s i = CSetWg n \<Longrightarrow>
    conn_step sequential s (goto i (CGo n) (s\<lparr>ks_conn := (ks_conn s)\<lparr>sc_wg := Some n\<rparr>\<rparr>))"
| go: "ks_call s i = CGo n \<Longrightarrow>
    conn_step sequential s (goto i CIdle (gor_goto n GServing (log_as (Caller i) [Serving n] s)))"
| serve_returned: "ks_gor s n = GServing \<Longrightarrow> conn_step sequential s (gor_goto n GClosing s)"
| gor_inner: "ks_gor s n = GClosing \<Longrightarrow> closeInner (ks_conn s) = Inr (evs, c) \<Longrightarrow>
    conn_step sequential s (gor_goto n GLeaving (log_as (Goroutine n) evs (s\<lparr>ks_conn := c\<rparr>)))"
| gor_done: "ks_gor s n = GLeaving \<Longrightarrow> conn_step sequential s (gor_goto n GDone s)"

inductive_cases conn_stepE: "conn_step sequential s t"

definition conn_reach :: "bool \<Rightarrow> conn_sys \<Rightarrow> bool" where
  "conn_reach sequential = reachable conn_init (conn_step sequential)"

subsection \<open>One call at a time\<close>

text \<open>A goroutine that may still run \<open>closeInner\<close>.\<close>

definition active :: "conn_sys \<Rightarrow> nat \<Rightarrow> bool" where
  "active s m \<longleftrightarrow> ks_gor s m = GServing \<or> ks_gor s m = GClosing"

definition held :: "conn_sys \<Rightarrow> nat option" where
  "held s = sc_listener (ks_conn s)"

definition steady :: "conn_sys \<Rightarrow> bool" where
  "steady s \<longleftrightarrow>
     (\<forall>m. held s \<noteq> Some m \<longrightarrow> \<not> active s m) \<and>
     (\<forall>m. held s = Some m \<longrightarrow> active s m \<and> sc_wg (ks_conn s) = Some m)"

fun call_inv :: "conn_sys \<Rightarrow> call_pc \<Rightarrow> bool" where
  "call_inv s CIdle \<longleftrightarrow> steady s"
| "call_inv s (CCheck _) \<longleftrightarrow> steady s"
| "call_inv s (CInner _) \<longleftrightarrow> steady s \<and> sc_wg (ks_conn s) \<noteq> None"
| "call_inv s (CReadWg _) \<longleftrightarrow> held s = None \<and> (\<exists>g. sc_wg (ks_conn s) = Some g \<and> (\<forall>k. k \<noteq> g \<longrightarrow> \<not> active s k))"
| "call_inv s (CWait _ g) \<longleftrightarrow> held s = None \<and> sc_wg (ks_conn s) = Some g \<and> (\<forall>k. k \<noteq> g \<longrightarrow> \<not> active s k)"
| "call_inv s CBuild \<longleftrightarrow> held s = None \<and> (\<forall>k. \<not> active s k)"
| "call_inv s (CStore n) \<longleftrightarrow> held s = None \<and> (\<forall>k. \<not> active s k) \<and> n < ks_next s \<and> ks_gor s n = GNone"
| "call_inv s (CSetWg n) \<longleftrightarrow> held s = Some n \<and> (\<forall>k. \<not> active s k) \<and> ks_gor s n = GNone"
| "call_inv s (CGo n) \<longleftrightarrow> held s = Some n \<and> (\<forall>k. \<not> active s k) \<and> sc_wg (ks_conn s) = Some n \<and> ks_gor s n = GNone"

text \<open>Every client connection that was dialed is held, about to be stored, or closed.\<close>

definition accounted :: "conn_sys \<Rightarrow> nat \<Rightarrow> bool" where
  "accounted s m \<longleftrightarrow>
     held s = Some m \<or> (\<exists>i. ks_call s i = CStore m) \<or> (\<exists>p. (p, GrpcConnClosed m) \<in> set (ks_log s))"

definition conn_inv :: "conn_sys \<Rightarrow> bool" where
  "conn_inv s \<longleftrightarrow>
     handles (held s) (ks_conn s) \<and>
     (\<exists>i. (\<forall>j. j \<noteq> i \<longrightarrow> ks_call s j = CIdle) \<and> call_inv s (ks_call s i)) \<and>
     (\<forall>m \<ge> ks_next s. ks_gor s m = GNone) \<and>
     (\<forall>m. held s = Some m \<longrightarrow> m < ks_next s) \<and>
     (\<forall>m < ks_next s. accounted s m) \<and>
     (\<forall>n m. (Goroutine n, GrpcConnClosed m) \<in> set (ks_log s) \<longrightarrow> n = m)"

lemmas conn_defs = goto_def gor_goto_def log_as_def after_close_def active_def held_def steady_def accounted_def

lemma conn_inv_init: "conn_inv conn_init"
  by (auto simp: conn_inv_def conn_init_def conn_defs NewSideEyeConn_def handles_def)

lemma closeInner_held:
  "handles (held s) (ks_conn s) \<Longrightarrow> closeInner (ks_conn s) = Inr (evs, c) \<longleftrightarrow>
    evs = (case held s of None \<Rightarrow> [] | Some n \<Rightarrow> [GrpcStopped n, GrpcConnClosed n]) \<and> c = no_handles (ks_conn s)"
  by (auto simp: closeInner_handles)

lemma handles_step:
  "conn_step q s t \<Longrightarrow> handles (held s) (ks_conn s) \<Longrightarrow> handles (held t) (ks_conn t)"
  by (erule conn_stepE) (auto simp: closeInner_held conn_defs handles_def store_conn_def no_handles_def split: option.splits)


lemma call_inv_cong:
  assumes "ks_conn t = ks_conn s" "ks_next t = ks_next s" "\<And>m. active t m = active s m"
    and "\<And>m. ks_gor t m = GNone \<longleftrightarrow> ks_gor s m = GNone"
  shows "call_inv t pc = call_inv s pc"
  using assms by (cases pc) (simp_all add: steady_def held_def)

lemma steady_unique: "steady s \<Longrightarrow> active s m \<Longrightarrow> active s n \<Longrightarrow> m = n"
  unfolding steady_def by (metis option.inject)

lemma steady_gor:
  "steady s \<Longrightarrow> active s n \<Longrightarrow> held t = None \<Longrightarrow> (\<And>m. active t m \<longleftrightarrow> active s m \<and> m \<noteq> n) \<Longrightarrow> steady t"
  using steady_unique [of s] by (auto simp: steady_def [of t])

lemma call_step:
  assumes "conn_step True s t" "handles (held s) (ks_conn s)"
    and "\<forall>j. j \<noteq> i \<longrightarrow> ks_call s j = CIdle" "call_inv s (ks_call s i)"
    and "\<forall>m \<ge> ks_next s. ks_gor s m = GNone"
  shows "\<exists>i. (\<forall>j. j \<noteq> i \<longrightarrow> ks_call t j = CIdle) \<and> call_inv t (ks_call t i)"
  using assms(1)
proof cases
  case (call k b)
  with assms show ?thesis
    by (intro exI [of _ k]) (auto simp: conn_defs)
next
  case (check_nil k b)
  with assms(3) have "k = i" by auto
  with check_nil assms show ?thesis
    by (intro exI [of _ k]) (auto simp: conn_defs)
next
  case (check_open k b)
  with assms(3) have "k = i" by auto
  with check_open assms show ?thesis
    by (intro exI [of _ k]) (auto simp: conn_defs)
next
  case (inner k b evs c)
  with assms(3) have "k = i" by auto
  with inner assms show ?thesis
    by (intro exI [of _ k]) (auto simp: closeInner_held conn_defs split: option.splits)
next
  case (read_wg k b g)
  with assms(3) have "k = i" by auto
  with read_wg assms show ?thesis
    by (intro exI [of _ k]) (auto simp: conn_defs)
next
  case (waited k b g)
  with assms(3) have "k = i" by auto
  have "\<not> active s m" for m
  proof (cases "m = g")
    case True
    with waited show ?thesis by (simp add: active_def)
  next
    case False
    with waited assms(4) \<open>k = i\<close> show ?thesis by simp
  qed
  with waited assms(3,4) \<open>k = i\<close> show ?thesis
    by (intro exI [of _ k]) (auto simp: conn_defs)
next
  case (failed k)
  with assms(3) have "k = i" by auto
  with failed assms show ?thesis
    by (intro exI [of _ k]) (auto simp: conn_defs)
next
  case (build k target)
  with assms(3) have "k = i" by auto
  with build assms show ?thesis
    by (intro exI [of _ k]) (auto simp: conn_defs)
next
  case (store k n srv)
  with assms(3) have "k = i" by auto
  with store assms show ?thesis
    by (intro exI [of _ k]) (auto simp: conn_defs store_conn_def)
next
  case (set_wg k n)
  with assms(3) have "k = i" by auto
  with set_wg assms show ?thesis
    by (intro exI [of _ k]) (auto simp: conn_defs)
next
  case (go k n)
  with assms(3) have "k = i" by auto
  with go assms show ?thesis
    by (intro exI [of _ k]) (auto simp: conn_defs)
next
  case (serve_returned n)
  then have "call_inv t pc = call_inv s pc" for pc by (intro call_inv_cong) (auto simp: conn_defs)
  with serve_returned assms(3,4) show ?thesis by (auto simp: conn_defs)
next
  case (gor_inner n evs c)
  have "active s n" using gor_inner by (simp add: active_def)
  moreover have "held t = None" "ks_conn t = no_handles (ks_conn s)" "active t m \<longleftrightarrow> active s m \<and> m \<noteq> n"
    "ks_next t = ks_next s" "ks_call t = ks_call s" for m
    using gor_inner assms(2) by (auto simp: closeInner_held conn_defs)
  ultimately show ?thesis using assms(3,4)
    by (intro exI [of _ i]; cases "ks_call s i") (auto intro: steady_gor)
next
  case (gor_done n)
  then have "call_inv t pc = call_inv s pc" for pc by (intro call_inv_cong) (auto simp: conn_defs)
  with gor_done assms(3,4) show ?thesis by (auto simp: conn_defs)
qed

lemma fresh_step:
  assumes "conn_step q s t" "handles (held s) (ks_conn s)" "\<forall>i. call_inv s (ks_call s i) \<or> ks_call s i = CIdle"
    and "\<forall>m \<ge> ks_next s. ks_gor s m = GNone" "\<forall>m. held s = Some m \<longrightarrow> m < ks_next s"
  shows "(\<forall>m \<ge> ks_next t. ks_gor t m = GNone) \<and> (\<forall>m. held t = Some m \<longrightarrow> m < ks_next t)"
  using assms(1)
proof cases
  case (store i n srv)
  with assms(3) [rule_format, of i] assms(4,5) show ?thesis by (auto simp: conn_defs store_conn_def)
next
  case (go i n)
  with assms(3) [rule_format, of i] assms(4,5) show ?thesis by (auto simp: conn_defs)
qed (use assms(2,4,5) in \<open>auto simp: conn_defs closeInner_held\<close>)

lemma accounted_keep:
  assumes "accounted s m" "set (ks_log s) \<subseteq> set (ks_log t)"
    and "held s = Some m \<Longrightarrow> held t = Some m \<or> (\<exists>p. (p, GrpcConnClosed m) \<in> set (ks_log t))"
    and "\<And>j. ks_call s j = CStore m \<Longrightarrow> ks_call t j = CStore m \<or> held t = Some m"
  shows "accounted t m"
  using assms unfolding accounted_def by blast

lemma accounted_step:
  assumes "conn_step q s t" "handles (held s) (ks_conn s)" "\<forall>i. call_inv s (ks_call s i) \<or> ks_call s i = CIdle"
    and "\<forall>m < ks_next s. accounted s m"
  shows "\<forall>m < ks_next t. accounted t m"
proof (intro allI impI)
  fix m
  assume m: "m < ks_next t"
  show "accounted t m"
  proof (cases "m < ks_next s")
    case True
    with assms(4) have "accounted s m" by simp
    then show ?thesis
    proof (rule accounted_keep)
      show "set (ks_log s) \<subseteq> set (ks_log t)" using assms(1) by cases (auto simp: conn_defs)
    next
      fix j
      assume "ks_call s j = CStore m"
      with assms(1) show "ks_call t j = CStore m \<or> held t = Some m"
        by cases (auto simp: conn_defs store_conn_def)
    next
      assume "held s = Some m"
      with assms(3) have "ks_call s i \<noteq> CStore n" for i n
        by (metis call_inv.simps(7) call_pc.distinct(11) option.distinct(1))
      with assms(1,2) \<open>held s = Some m\<close> show "held t = Some m \<or> (\<exists>p. (p, GrpcConnClosed m) \<in> set (ks_log t))"
        by cases (auto simp: conn_defs closeInner_held store_conn_def)
    qed
  next
    case False
    with assms(1) m show ?thesis by cases (auto simp: conn_defs)
  qed
qed

lemma own_step:
  assumes "conn_step q s t" "handles (held s) (ks_conn s)" "\<And>n m. active s n \<Longrightarrow> held s = Some m \<Longrightarrow> n = m"
    and "\<forall>n m. (Goroutine n, GrpcConnClosed m) \<in> set (ks_log s) \<longrightarrow> n = m"
  shows "\<forall>n m. (Goroutine n, GrpcConnClosed m) \<in> set (ks_log t) \<longrightarrow> n = m"
  using assms(1)
proof cases
  case (gor_inner n evs c)
  then have "active s n" by (simp add: active_def)
  with gor_inner assms(2-4) show ?thesis
    by (auto simp: closeInner_held goto_def gor_goto_def log_as_def split: option.splits)
qed (use assms(2,4) in \<open>auto simp: conn_defs closeInner_held\<close>)

lemma call_inv_owner: "call_inv s pc \<Longrightarrow> active s n \<Longrightarrow> held s = Some m \<Longrightarrow> n = m"
  by (cases pc) (auto simp: steady_def)

lemma conn_inv_step:
  assumes "conn_inv s" "conn_step True s t"
  shows "conn_inv t"
proof -
  from assms(1) obtain i where i: "\<forall>j. j \<noteq> i \<longrightarrow> ks_call s j = CIdle" "call_inv s (ks_call s i)"
    by (auto simp: conn_inv_def)
  have calls: "\<forall>j. call_inv s (ks_call s j) \<or> ks_call s j = CIdle" using i by metis
  from assms(1) have h: "handles (held s) (ks_conn s)" and g: "\<forall>m \<ge> ks_next s. ks_gor s m = GNone"
    and n: "\<forall>m. held s = Some m \<longrightarrow> m < ks_next s" and acc: "\<forall>m < ks_next s. accounted s m"
    and own: "\<forall>n m. (Goroutine n, GrpcConnClosed m) \<in> set (ks_log s) \<longrightarrow> n = m"
    by (auto simp: conn_inv_def)
  from handles_step [OF assms(2) h] call_step [OF assms(2) h i g] fresh_step [OF assms(2) h calls g n]
    accounted_step [OF assms(2) h calls acc] own_step [OF assms(2) h call_inv_owner [OF i(2)] own]
  show ?thesis unfolding conn_inv_def by blast
qed

interpretation CI: transition_inv conn_init "conn_step True" conn_inv
  by unfold_locales (use conn_inv_init conn_inv_step in blast)+

lemma conn_inv_handles: "conn_inv s \<Longrightarrow> \<exists>r. closeInner (ks_conn s) = Inr r"
  by (auto simp: conn_inv_def closeInner_handles)

text \<open>
  C11. With one caller at a time, in every state that the calls of \<open>Connect\<close> and \<open>Close\<close> and the goroutines
  reach: a goroutine closes no connection but its own, every client connection that was ever dialed is the
  current one, about to be, or closed, \<open>closeInner\<close> does not panic, and when nobody is in a call and
  there is no connection, no goroutine serves.
\<close>

theorem sequential_calls_release:
  assumes "conn_reach True s"
  shows "(\<forall>n m. (Goroutine n, GrpcConnClosed m) \<in> set (ks_log s) \<longrightarrow> n = m) \<and>
    (\<forall>m < ks_next s. sc_grpcConn (ks_conn s) = Some m \<or> (\<exists>i. ks_call s i = CStore m) \<or>
       (\<exists>p. (p, GrpcConnClosed m) \<in> set (ks_log s))) \<and>
    (\<exists>r. closeInner (ks_conn s) = Inr r) \<and>
    ((\<forall>i. ks_call s i = CIdle) \<and> sc_listener (ks_conn s) = None \<longrightarrow>
       (\<forall>n. ks_gor s n \<noteq> GServing \<and> ks_gor s n \<noteq> GClosing))"
proof -
  have inv: "conn_inv s" using assms CI.reachable_inv unfolding conn_reach_def by blast
  then have "sc_grpcConn (ks_conn s) = held s" by (simp add: conn_inv_def handles_def)
  moreover from inv have "\<forall>n. \<not> active s n" if "\<forall>i. ks_call s i = CIdle" "held s = None"
    using that by (auto simp: conn_inv_def steady_def)
  ultimately show ?thesis using inv conn_inv_handles [OF inv]
    unfolding conn_inv_def accounted_def by (simp add: active_def held_def)
qed

subsection \<open>Runs\<close>

text \<open>A state with two callers and two goroutines; \<open>h\<close> are the handles.\<close>

definition sample_server :: Server where
  "sample_server = make_server example_Config False NewSideEyeConn"

definition conn_at :: "nat option \<Rightarrow> nat option \<Rightarrow> SideEyeConn" where
  "conn_at h w =
     NewSideEyeConn\<lparr>sc_listener := h, sc_server := map_option (\<lambda>_. sample_server) h, sc_grpcServer := h,
       sc_grpcConn := h, sc_wg := w\<rparr>"

definition sys_at ::
  "SideEyeConn \<Rightarrow> nat \<Rightarrow> gor_pc \<times> gor_pc \<Rightarrow> call_pc \<times> call_pc \<Rightarrow> (party \<times> conn_event) list \<Rightarrow> conn_sys" where
  "sys_at c n g p l =
     \<lparr>ks_conn = c, ks_next = n, ks_gor = (\<lambda>_. GNone)(0 := fst g, 1 := snd g),
      ks_call = (\<lambda>_. CIdle)(0 := fst p, 1 := snd p), ks_log = l\<rparr>"

lemma conn_at_simps [simp]:
  "sc_listener (conn_at h w) = h" "sc_wg (conn_at h w) = w"
  "store_conn n sample_server (conn_at h w) = conn_at (Some n) w"
  "conn_at h w\<lparr>sc_wg := v\<rparr> = conn_at h v"
  "closeInner (conn_at (Some n) w) = Inr ([GrpcStopped n, GrpcConnClosed n], conn_at None w)"
  by (simp_all add: conn_at_def store_conn_def closeInner_def)

lemma sys_at_simps [simp]:
  "ks_conn (sys_at c n g p l) = c" "ks_next (sys_at c n g p l) = n" "ks_log (sys_at c n g p l) = l"
  "ks_call (sys_at c n g p l) 0 = fst p" "ks_call (sys_at c n g p l) (Suc 0) = snd p"
  "ks_gor (sys_at c n g p l) 0 = fst g" "ks_gor (sys_at c n g p l) (Suc 0) = snd g"
  "(sys_at c n g p l)\<lparr>ks_conn := c'\<rparr> = sys_at c' n g p l"
  "(sys_at c n g p l)\<lparr>ks_next := n'\<rparr> = sys_at c n' g p l"
  "log_as q evs (sys_at c n g p l) = sys_at c n g p (l @ map (Pair q) evs)"
  "goto 0 pc (sys_at c n g p l) = sys_at c n g (pc, snd p) l"
  "goto (Suc 0) pc (sys_at c n g p l) = sys_at c n g (fst p, pc) l"
  "gor_goto 0 gc (sys_at c n g p l) = sys_at c n (gc, snd g) p l"
  "gor_goto (Suc 0) gc (sys_at c n g p l) = sys_at c n (fst g, gc) p l"
  by (auto simp: sys_at_def goto_def gor_goto_def log_as_def fun_eq_iff)

lemma conn_init_at: "conn_init = sys_at (conn_at None None) 0 (GNone, GNone) (CIdle, CIdle) []"
  by (simp add: conn_init_def sys_at_def conn_at_def NewSideEyeConn_def fun_eq_iff)

lemma conn_reach_init: "conn_reach q conn_init"
  by (simp add: conn_reach_def reachable_init)

lemma conn_reach_step: "conn_reach q s \<Longrightarrow> conn_step q s t \<Longrightarrow> conn_reach q t"
  unfolding conn_reach_def by (rule reachable_step)

lemma sys_at_idle: "\<forall>j. ks_call (sys_at c n g (CIdle, CIdle) l) j = CIdle"
  by (simp add: sys_at_def)

text \<open>The steps of a \<open>Connect\<close> of the caller 0 on a connection that is closed, up to its end.\<close>

definition connect_log :: "nat \<Rightarrow> nat \<Rightarrow> (party \<times> conn_event) list" where
  "connect_log i n =
     map (Pair (Caller i)) [ListenerStarted n, GrpcDialed n ''dns:///host:443'', Serving n]"

lemma reach_stored:
  "conn_reach q (sys_at (conn_at (Some 0) None) 1 (GNone, GNone) (CSetWg 0, CIdle)
     (butlast (connect_log 0 0)))"
proof -
  note go = conn_reach_step
  have "conn_reach q (sys_at (conn_at None None) 0 (GNone, GNone) (CCheck True, CIdle) [])"
    using go [OF conn_reach_init call [where i = 0 and b = True]] sys_at_idle by (simp add: conn_init_at)
  from go [OF this check_nil [where i = 0 and b = True]]
  have "conn_reach q (sys_at (conn_at None None) 0 (GNone, GNone) (CBuild, CIdle) [])"
    by (simp add: after_close_def)
  from go [OF this build [where i = 0 and target = "''dns:///host:443''"]]
  have "conn_reach q (sys_at (conn_at None None) 1 (GNone, GNone) (CStore 0, CIdle) (butlast (connect_log 0 0)))"
    by (simp add: connect_log_def)
  from go [OF this store [where i = 0 and n = 0 and srv = sample_server]] show ?thesis by simp
qed

lemma reach_connected:
  "conn_reach q (sys_at (conn_at (Some 0) (Some 0)) 1 (GServing, GNone) (CIdle, CIdle) (connect_log 0 0))"
proof -
  note go = conn_reach_step
  from go [OF reach_stored set_wg [where i = 0 and n = 0]]
  have "conn_reach q (sys_at (conn_at (Some 0) (Some 0)) 1 (GNone, GNone) (CGo 0, CIdle) (butlast (connect_log 0 0)))"
    by simp
  from go [OF this Conn_Race.go [where i = 0 and n = 0]] show ?thesis by (simp add: connect_log_def)
qed

lemma reach_served:
  "conn_reach q (sys_at (conn_at None (Some 0)) 1 (GLeaving, GNone) (CIdle, CIdle)
     (connect_log 0 0 @ map (Pair (Goroutine 0)) [GrpcStopped 0, GrpcConnClosed 0]))"
proof -
  note go = conn_reach_step
  from go [OF reach_connected serve_returned [where n = 0]]
  have "conn_reach q (sys_at (conn_at (Some 0) (Some 0)) 1 (GClosing, GNone) (CIdle, CIdle) (connect_log 0 0))" by simp
  from go [OF this gor_inner [where n = 0]] show ?thesis by simp
qed

theorem sequential_calls_release_witness:
  "\<exists>s. conn_reach True s \<and> ks_next s = 1 \<and> (Goroutine 0, GrpcConnClosed 0) \<in> set (ks_log s) \<and>
     (\<forall>n. ks_gor s n \<noteq> GServing \<and> ks_gor s n \<noteq> GClosing)"
  using sequential_calls_release [OF reach_served] reach_served [of True] sys_at_idle
  by (intro exI conjI) (assumption | simp)+

subsection \<open>Calls at the same time\<close>

definition closed_log :: "(party \<times> conn_event) list" where
  "closed_log = connect_log 0 0 @ map (Pair (Caller 0)) [GrpcStopped 0, GrpcConnClosed 0]"

lemma reach_closing:
  "conn_reach q (sys_at (conn_at None (Some 0)) 1 (GClosing, GNone) (CReadWg False, CIdle) closed_log)"
proof -
  note go = conn_reach_step
  have "conn_reach q (sys_at (conn_at (Some 0) (Some 0)) 1 (GServing, GNone) (CCheck False, CIdle) (connect_log 0 0))"
    using go [OF reach_connected call [where i = 0 and b = False]] sys_at_idle by simp
  from go [OF this check_open [where i = 0 and b = False]]
  have "conn_reach q (sys_at (conn_at (Some 0) (Some 0)) 1 (GServing, GNone) (CInner False, CIdle) (connect_log 0 0))"
    by simp
  from go [OF this inner [where i = 0 and b = False]]
  have "conn_reach q (sys_at (conn_at None (Some 0)) 1 (GServing, GNone) (CReadWg False, CIdle) closed_log)"
    by (simp add: closed_log_def)
  from go [OF this serve_returned [where n = 0]] show ?thesis by simp
qed

lemma reach_reconnected:
  "conn_reach False (sys_at (conn_at (Some 1) (Some 1)) 2 (GClosing, GServing) (CReadWg False, CIdle)
     (closed_log @ connect_log 1 1))"
proof -
  note go = conn_reach_step
  have "conn_reach False (sys_at (conn_at None (Some 0)) 1 (GClosing, GNone) (CReadWg False, CCheck True) closed_log)"
    using go [OF reach_closing call [where i = 1 and b = True]] by simp
  from go [OF this check_nil [where i = 1 and b = True]]
  have "conn_reach False (sys_at (conn_at None (Some 0)) 1 (GClosing, GNone) (CReadWg False, CBuild) closed_log)"
    by (simp add: after_close_def)
  from go [OF this build [where i = 1 and target = "''dns:///host:443''"]]
  have "conn_reach False (sys_at (conn_at None (Some 0)) 2 (GClosing, GNone) (CReadWg False, CStore 1)
      (closed_log @ butlast (connect_log 1 1)))"
    by (simp add: connect_log_def numeral_2_eq_2)
  from go [OF this store [where i = 1 and n = 1 and srv = sample_server]]
  have "conn_reach False (sys_at (conn_at (Some 1) (Some 0)) 2 (GClosing, GNone) (CReadWg False, CSetWg 1)
      (closed_log @ butlast (connect_log 1 1)))"
    by simp
  from go [OF this set_wg [where i = 1 and n = 1]]
  have "conn_reach False (sys_at (conn_at (Some 1) (Some 1)) 2 (GClosing, GNone) (CReadWg False, CGo 1)
      (closed_log @ butlast (connect_log 1 1)))"
    by simp
  from go [OF this Conn_Race.go [where i = 1 and n = 1]]
  show ?thesis by (simp add: connect_log_def)
qed

text \<open>
  C35. Calls at the same time are not safe, although \<open>Close\<close> may be called concurrently with the end of the
  goroutine: when one caller closes the connection and another connects before the old goroutine has run
  its deferred \<open>closeInner\<close>, that goroutine closes the new connection, which no caller closes. And a
  \<open>Close\<close> during the first \<open>Connect\<close> can find a listener before \<open>wg\<close> is set, and dereferences nil.
\<close>

theorem concurrent_calls_race:
  "(\<exists>s. conn_reach False s \<and> (Goroutine 0, GrpcConnClosed 1) \<in> set (ks_log s) \<and> ks_gor s 1 = GServing \<and>
      (\<forall>i. (Caller i, GrpcConnClosed 1) \<notin> set (ks_log s))) \<and>
   (\<exists>s. conn_reach False s \<and> ks_call s 1 = CReadWg False \<and> sc_wg (ks_conn s) = None)"
proof
  from conn_reach_step [OF reach_reconnected gor_inner [where n = 0]]
  have "conn_reach False (sys_at (conn_at None (Some 1)) 2 (GLeaving, GServing) (CReadWg False, CIdle)
      ((closed_log @ connect_log 1 1) @ map (Pair (Goroutine 0)) [GrpcStopped 1, GrpcConnClosed 1]))"
    by simp
  then show "\<exists>s. conn_reach False s \<and> (Goroutine 0, GrpcConnClosed 1) \<in> set (ks_log s) \<and> ks_gor s 1 = GServing \<and>
      (\<forall>i. (Caller i, GrpcConnClosed 1) \<notin> set (ks_log s))"
    by (intro exI conjI) (assumption | simp add: closed_log_def connect_log_def)+
next
  let ?l = "butlast (connect_log 0 0)"
  have "conn_reach False (sys_at (conn_at (Some 0) None) 1 (GNone, GNone) (CSetWg 0, CCheck False) ?l)"
    using conn_reach_step [OF reach_stored call [where i = 1 and b = False]] by simp
  from conn_reach_step [OF this check_open [where i = 1 and b = False]]
  have "conn_reach False (sys_at (conn_at (Some 0) None) 1 (GNone, GNone) (CSetWg 0, CInner False) ?l)" by simp
  from conn_reach_step [OF this inner [where i = 1 and b = False]]
  have "conn_reach False (sys_at (conn_at None None) 1 (GNone, GNone) (CSetWg 0, CReadWg False)
      (?l @ map (Pair (Caller 1)) [GrpcStopped 0, GrpcConnClosed 0]))"
    by simp
  then show "\<exists>s. conn_reach False s \<and> ks_call s 1 = CReadWg False \<and> sc_wg (ks_conn s) = None"
    by (intro exI conjI) (assumption | simp)+
qed

end
