(* ===== verification/Api_Client.thy ===== *)
theory Api_Client
  imports Side_Eye_Conn
begin

text \<open>
  The clients of the API service (\<open>internal/apiclient\<close>, \<open>sideeyeclient\<close>): the address that is dialed, the
  token in the metadata of a call, the translation of the errors of the service, and the options of the
  public client. The calls themselves are parameters that give the answer of the service.
\<close>

subsection \<open>Errors of the service\<close>

text \<open>
  The kinds of error the service reports, the first detail of a gRPC status, and an error of a call:
  \<open>status.FromError\<close> recognizes a status or makes one of code \<open>Unknown\<close>.
\<close>

datatype ErrorKind =
    UNKNOWN_KIND | BINARY_STRIPPED | NO_AGENTS | NO_PROCESSES | PROCESS_MISSING | ENVIRONMENT_MISSING

datatype detail = SnapshotErrorDetail ErrorKind string | OtherDetail

datatype status_code = Unavailable | OtherCode

record rpc_failure =
  rf_is_status :: bool
  rf_code :: status_code
  rf_details :: "detail list"
  rf_text :: string

datatype api_error =
    BinaryStrippedError string | NoAgentsError | NoProcessesError | ProcessMissingError | EnvMissingError string
  | ConnectFailed rpc_failure | RpcError rpc_failure
  | ApiParseUrl | ApiDial string

fun api_error_Error :: "api_error \<Rightarrow> string" where
  "api_error_Error (BinaryStrippedError msg) = msg"
| "api_error_Error NoAgentsError = ''no agents connected''"
| "api_error_Error NoProcessesError = ''no matching processes found''"
| "api_error_Error ProcessMissingError = ''process not found''"
| "api_error_Error (EnvMissingError msg) = msg"
| "api_error_Error (ConnectFailed e) = ''failed to connect to Side-Eye API service: '' @ rf_text e"
| "api_error_Error (RpcError e) = rf_text e"
| "api_error_Error ApiParseUrl = ''''"
| "api_error_Error (ApiDial e) = ''failed to connect to the Side-Eye agents service: '' @ e"

definition typed_error :: "rpc_failure \<Rightarrow> api_error option" where
  "typed_error e =
     (if rf_is_status e \<and> length (rf_details e) > 0 then
        (case hd (rf_details e) of
           SnapshotErrorDetail BINARY_STRIPPED msg \<Rightarrow> Some (BinaryStrippedError msg)
         | SnapshotErrorDetail NO_AGENTS _ \<Rightarrow> Some NoAgentsError
         | SnapshotErrorDetail NO_PROCESSES _ \<Rightarrow> Some NoProcessesError
         | SnapshotErrorDetail PROCESS_MISSING _ \<Rightarrow> Some ProcessMissingError
         | SnapshotErrorDetail ENVIRONMENT_MISSING msg \<Rightarrow> Some (EnvMissingError msg)
         | _ \<Rightarrow> None)
      else None)"

definition status_Code :: "rpc_failure \<Rightarrow> status_code" where
  "status_Code e = (if rf_is_status e then rf_code e else OtherCode)"

subsection \<open>The client\<close>

definition ENV_API_URL :: string where
  "ENV_API_URL = ''SIDE_EYE_API_URL''"

record APIClient =
  ac_address :: string
  ac_creds :: "creds option"
  ac_apiToken :: string
  ac_open :: bool

text \<open>\<open>net.JoinHostPort\<close>.\<close>

definition JoinHostPort :: "string \<Rightarrow> string \<Rightarrow> string" where
  "JoinHostPort host port =
     (if CHR '':'' \<in> set host then ''['' @ host @ '']:'' @ port else host @ '':'' @ port)"

definition api_address :: "(string \<Rightarrow> string option) \<Rightarrow> url \<Rightarrow> string \<times> creds option" where
  "api_address parse_ip u =
     (if u_Scheme u = ''http'' then
        ((case parse_ip (u_Hostname u) of
            Some ip \<Rightarrow> if u_Port u \<noteq> '''' then JoinHostPort ip (u_Port u) else ip
          | None \<Rightarrow> ''dns:///'' @ u_Host u), Some InsecureCredentials)
      else if u_Scheme u = ''https'' then (''dns:///'' @ u_Host u, Some TlsCredentials)
      else ('''', None))"

definition NewAPIClient ::
  "(string \<Rightarrow> string option) \<Rightarrow> (string \<Rightarrow> url option) \<Rightarrow> (string \<Rightarrow> string option) \<Rightarrow>
   (string \<Rightarrow> creds option \<Rightarrow> string option) \<Rightarrow> string \<Rightarrow> api_error + APIClient" where
  "NewAPIClient vars parse parse_ip dial apiToken =
     (let sideEyeURL = (case vars ENV_API_URL of Some u \<Rightarrow> u | None \<Rightarrow> ''https://api.side-eye.io'')
      in case parse sideEyeURL of
           None \<Rightarrow> Inl ApiParseUrl
         | Some u \<Rightarrow>
             (let (addr, cr) = api_address parse_ip u
              in case dial addr cr of
                   Some e \<Rightarrow> Inl (ApiDial e)
                 | None \<Rightarrow>
                     Inr \<lparr>ac_address = addr, ac_creds = cr, ac_apiToken = apiToken, ac_open = True\<rparr>))"

definition APIClient_Close :: "APIClient \<Rightarrow> APIClient" where
  "APIClient_Close c = c\<lparr>ac_open := False\<rparr>"

record ProcessError =
  pe_Hostname :: string
  pe_Program :: string
  pe_Pid :: int
  pe_Error :: string

record SnapshotResult =
  sr_RecordingID :: int
  sr_SnapshotURL :: string
  sr_ProcessErrors :: "ProcessError list"

record CaptureSnapshotRequest =
  cs_Environment :: string
  cs_AgentFingerprint :: string
  cs_ProcessFingerprint :: string

text \<open>The answer of the service; an error of a process has its host, program, process id and message.\<close>

record CaptureSnapshotResponse =
  cr_RecordingId :: u64
  cr_SnapshotUrl :: string
  cr_Errors :: "(string \<times> string \<times> u64 \<times> string) list"

text \<open>
  The metadata of a call and the request go to the service, \<open>call\<close>. An \<open>int\<close> is as wide as an \<open>int64\<close> on
  the platforms that are supported.
\<close>

definition outgoing_metadata :: "APIClient \<Rightarrow> (string \<times> string) list" where
  "outgoing_metadata c = (if ac_apiToken c \<noteq> '''' then [(''api-token'', ac_apiToken c)] else [])"

definition capture_error :: "rpc_failure \<Rightarrow> api_error" where
  "capture_error e =
     (case typed_error e of
        Some t \<Rightarrow> t
      | None \<Rightarrow> (case status_Code e of Unavailable \<Rightarrow> ConnectFailed e | _ \<Rightarrow> RpcError e))"

definition APIClient_CaptureSnapshot ::
  "((string \<times> string) list \<Rightarrow> CaptureSnapshotRequest \<Rightarrow> rpc_failure + CaptureSnapshotResponse) \<Rightarrow>
   CaptureSnapshotRequest \<Rightarrow> APIClient \<Rightarrow> api_error + SnapshotResult" where
  "APIClient_CaptureSnapshot call req c =
     (case call (outgoing_metadata c) req of
        Inl e \<Rightarrow> Inl (capture_error e)
      | Inr res \<Rightarrow>
          Inr \<lparr>sr_RecordingID = sint (cr_RecordingId res), sr_SnapshotURL = cr_SnapshotUrl res,
               sr_ProcessErrors =
                 map (\<lambda>(h, p, pid, m). \<lparr>pe_Hostname = h, pe_Program = p, pe_Pid = sint pid, pe_Error = m\<rparr>)
                   (cr_Errors res)\<rparr>)"

definition APIClient_DeleteRecording ::
  "((string \<times> string) list \<Rightarrow> u64 \<Rightarrow> rpc_failure option) \<Rightarrow> u64 \<Rightarrow> APIClient \<Rightarrow> api_error option" where
  "APIClient_DeleteRecording call recordingID c =
     (case call (outgoing_metadata c) recordingID of
        None \<Rightarrow> None
      | Some e \<Rightarrow> Some (case status_Code e of Unavailable \<Rightarrow> ConnectFailed e | _ \<Rightarrow> RpcError e))"

subsection \<open>The public client\<close>

text \<open>\<open>sideeyeclient/client.go\<close>. An option returns an error, which \<open>NewSideEyeClient\<close> does not look at.\<close>

record sideEyeClientOpts =
  so_apiToken :: string

datatype SideEyeClientOption = WithApiToken string | WithApiTokenFromEnv

fun apply_client_option ::
  "(string \<Rightarrow> string option) \<Rightarrow> SideEyeClientOption \<Rightarrow> sideEyeClientOpts \<Rightarrow> string option \<times> sideEyeClientOpts" where
  "apply_client_option vars (WithApiToken t) opts = (None, opts\<lparr>so_apiToken := t\<rparr>)"
| "apply_client_option vars WithApiTokenFromEnv opts =
     (case vars ENV_TENANT_TOKEN of
        None \<Rightarrow>
          (Some ''SIDEEYE_API_TOKEN environment variable required by WithApiTokenFromEnv is not set'', opts)
      | Some tok \<Rightarrow> (None, opts\<lparr>so_apiToken := tok\<rparr>))"

definition NewSideEyeClient ::
  "(string \<Rightarrow> string option) \<Rightarrow> (string \<Rightarrow> url option) \<Rightarrow> (string \<Rightarrow> string option) \<Rightarrow>
   (string \<Rightarrow> creds option \<Rightarrow> string option) \<Rightarrow> SideEyeClientOption list \<Rightarrow> api_error + APIClient" where
  "NewSideEyeClient vars parse parse_ip dial options =
     (let opts = foldl (\<lambda>opts opt. snd (apply_client_option vars opt opts)) \<lparr>so_apiToken = ''''\<rparr> options
      in NewAPIClient vars parse parse_ip dial (so_apiToken opts))"

definition SideEyeClient_CaptureSnapshot ::
  "((string \<times> string) list \<Rightarrow> CaptureSnapshotRequest \<Rightarrow> rpc_failure + CaptureSnapshotResponse) \<Rightarrow>
   string \<Rightarrow> APIClient \<Rightarrow> api_error + SnapshotResult" where
  "SideEyeClient_CaptureSnapshot call envName c =
     APIClient_CaptureSnapshot call
       \<lparr>cs_Environment = envName, cs_AgentFingerprint = '''', cs_ProcessFingerprint = ''''\<rparr> c"

definition SideEyeClient_DeleteRecording ::
  "((string \<times> string) list \<Rightarrow> u64 \<Rightarrow> rpc_failure option) \<Rightarrow> u64 \<Rightarrow> APIClient \<Rightarrow> api_error option" where
  "SideEyeClient_DeleteRecording call recordingID c = APIClient_DeleteRecording call recordingID c"

text \<open>\<open>url.QueryEscape\<close>.\<close>

definition upper_hex :: "nat \<Rightarrow> char" where
  "upper_hex n = char_of (if n < 10 then 48 + n else 55 + n)"

definition unreserved :: "char \<Rightarrow> bool" where
  "unreserved c \<longleftrightarrow>
     (let n = of_char c :: nat
      in 97 \<le> n \<and> n \<le> 122 \<or> 65 \<le> n \<and> n \<le> 90 \<or> 48 \<le> n \<and> n \<le> 57 \<or> c \<in> set ''-_.~'')"

fun QueryEscape :: "string \<Rightarrow> string" where
  "QueryEscape [] = []"
| "QueryEscape (c # cs) =
     (if unreserved c then [c]
      else if c = CHR '' '' then ''+''
      else [CHR ''%'', upper_hex (of_char c div 16), upper_hex (of_char c mod 16)]) @ QueryEscape cs"

definition RecordingsURL :: "string \<Rightarrow> string" where
  "RecordingsURL environment =
     (if environment = '''' then ''https://app.side-eye.io/#/recordings''
      else ''https://app.side-eye.io/#/recordings?env='' @ QueryEscape environment)"

subsection \<open>Properties\<close>

text \<open>The inverse of the escaping.\<close>

definition hex_value :: "char \<Rightarrow> nat" where
  "hex_value c = (if of_char c < (65 :: nat) then of_char c - 48 else of_char c - 55)"

fun QueryUnescape :: "string \<Rightarrow> string" where
  "QueryUnescape [] = []"
| "QueryUnescape (c # cs) =
     (if c = CHR ''%'' then
        (case cs of
           a # b # ds \<Rightarrow> char_of (hex_value a * 16 + hex_value b) # QueryUnescape ds
         | _ \<Rightarrow> [])
      else (if c = CHR ''+'' then CHR '' '' else c) # QueryUnescape cs)"

lemma hex_value_upper: "n < 16 \<Longrightarrow> hex_value (upper_hex n) = n"
  by (auto simp: hex_value_def upper_hex_def)

lemma unreserved_marks: "unreserved c \<Longrightarrow> c \<noteq> CHR ''%'' \<and> c \<noteq> CHR ''+''"
  by (auto simp: unreserved_def Let_def)

lemma QueryUnescape_QueryEscape [simp]: "QueryUnescape (QueryEscape s) = s"
proof (induction s)
  case (Cons c s)
  have "of_char c div 16 < (16 :: nat)" using nat_of_char_less_256 [of c] by arith
  then have c: "hex_value (upper_hex (of_char c div 16)) * 16 + hex_value (upper_hex (of_char c mod 16)) = of_char c"
    by (simp add: hex_value_upper)
  from Cons c unreserved_marks [of c] show ?case by simp
qed simp

text \<open>
  The pages of two environments are different pages: the query of the address determines the
  environment, whatever characters its name has, and an environment's page is never the one of all.
\<close>

theorem RecordingsURL_injective: "RecordingsURL e = RecordingsURL e' \<longleftrightarrow> e = e'"
proof -
  have "e = e'" if "QueryEscape e = QueryEscape e'" using that QueryUnescape_QueryEscape by metis
  then show ?thesis by (auto simp: RecordingsURL_def)
qed

text \<open>
  A client whose token should come from the environment is created without a token when the variable
  is not set: the option reports an error, and the client is the one of an empty token, whose calls carry
  none.
\<close>

theorem NewSideEyeClient_ignores_option_error:
  "let vars = vars(ENV_TENANT_TOKEN := None);
       r = NewSideEyeClient vars parse parse_ip dial [WithApiTokenFromEnv]
   in fst (apply_client_option vars WithApiTokenFromEnv opts) \<noteq> None \<and>
      r = NewAPIClient vars parse parse_ip dial '''' \<and>
      (case r of Inl _ \<Rightarrow> True | Inr c \<Rightarrow> outgoing_metadata c = [])"
  by (simp add: NewSideEyeClient_def NewAPIClient_def outgoing_metadata_def Let_def split: sum.split option.split prod.split)

end
