(* ===== verification/Side_Eye.thy ===== *)
theory Side_Eye
  imports Api_Client Conn_Race
begin

text \<open>
  The public library (\<open>sideeye/side_eye.go\<close>, \<open>sideeye/http_handler.go\<close>): the options, \<open>Init\<close> and \<open>Stop\<close> on
  the connection of the process, the snapshot of the process itself, and the configuration page.
\<close>

subsection \<open>Options\<close>

datatype option_fn =
    WithToken string | WithEnvironment string | WithProgramName string
  | WithErrorLogger "logger option" | WithInfoLogger "logger option"

fun apply_option :: "option_fn \<Rightarrow> Config \<Rightarrow> Config" where
  "apply_option (WithToken t) cfg = cfg\<lparr>cf_TenantToken := t\<rparr>"
| "apply_option (WithEnvironment e) cfg = cfg\<lparr>cf_Environment := e\<rparr>"
| "apply_option (WithProgramName p) cfg = cfg\<lparr>cf_ProgramName := p\<rparr>"
| "apply_option (WithErrorLogger f) cfg = cfg\<lparr>cf_ErrorLogger := f\<rparr>"
| "apply_option (WithInfoLogger f) cfg = cfg\<lparr>cf_InfoLogger := f\<rparr>"

definition makeConfig :: "(string \<Rightarrow> string option) \<Rightarrow> string \<Rightarrow> option_fn list \<Rightarrow> Config" where
  "makeConfig vars programName opts = foldl (\<lambda>cfg opt. apply_option opt cfg) (MakeDefaultConfig vars programName) opts"

subsection \<open>The connection of the process\<close>

text \<open>The connection that \<open>Init\<close> and \<open>Stop\<close> work on, the number of the next one, and the calls made.\<close>

record side_eye =
  se_conn :: SideEyeConn
  se_next :: nat
  se_log :: "conn_event list"

datatype init_error = InitNotSupported platform_error | InitConnect connect_error

definition Init ::
  "connect_env \<Rightarrow> (string \<Rightarrow> string option) \<Rightarrow> string \<Rightarrow> option_fn list \<Rightarrow> side_eye \<Rightarrow>
   (init_error option \<times> side_eye) res" where
  "Init en vars programName opts st =
     (let cfg = foldl (\<lambda>cfg opt. apply_option opt cfg) (MakeDefaultConfig vars programName) opts
      in case PlatformSupported (ce_version en) (ce_arch en) of
           Some e \<Rightarrow> Inr (Some (InitNotSupported e), st)
         | None \<Rightarrow>
             bindE (Connect en cfg False (se_next st) (se_conn st)) (\<lambda>(err, evs, c).
             Inr (map_option InitConnect err,
                  st\<lparr>se_conn := c, se_next := se_next st + 1, se_log := se_log st @ evs\<rparr>)))"

definition Stop :: "side_eye \<Rightarrow> side_eye res" where
  "Stop st =
     bindE (Close (se_conn st)) (\<lambda>(evs, c). Inr (st\<lparr>se_conn := c, se_log := se_log st @ evs\<rparr>))"

subsection \<open>The snapshot of the process itself\<close>

datatype self_error =
    SelfNotSupported platform_error | SelfConnect connect_error | SelfClient api_error | SelfCapture api_error

datatype self_event = ConnEvent conn_event | ApiOpened string | ApiCalled CaptureSnapshotRequest | ApiClosed

text \<open>The calls of the function and of what it defers, in order; \<open>n\<close> names its connection.\<close>

definition CaptureSelfSnapshot ::
  "connect_env \<Rightarrow> (string \<Rightarrow> string option) \<Rightarrow> (string \<Rightarrow> creds option \<Rightarrow> string option) \<Rightarrow>
   ((string \<times> string) list \<Rightarrow> CaptureSnapshotRequest \<Rightarrow> rpc_failure + CaptureSnapshotResponse) \<Rightarrow>
   string \<Rightarrow> option_fn list \<Rightarrow> nat \<Rightarrow> ((self_error + string) \<times> self_event list) res" where
  "CaptureSelfSnapshot en vars dial call programName opts n =
     (case PlatformSupported (ce_version en) (ce_arch en) of
        Some e \<Rightarrow> Inr (Inl (SelfNotSupported e), [])
      | None \<Rightarrow>
          (let cfg = makeConfig vars programName opts
           in bindE (Connect en cfg True n NewSideEyeConn) (\<lambda>(err, evs, conn).
              let log = map ConnEvent evs
              in case err of
                   Some e \<Rightarrow> Inr (Inl (SelfConnect e), log)
                 | None \<Rightarrow>
                     (let (r, log) =
                        (case NewAPIClient vars (ce_parse en) (ce_parse_ip en) dial (cf_TenantToken cfg) of
                           Inl e \<Rightarrow> (Inl (SelfClient e), log)
                         | Inr apiClient \<Rightarrow>
                             (let req = \<lparr>cs_Environment = '''', cs_AgentFingerprint = sc_agentFingerprint conn,
                                         cs_ProcessFingerprint = sc_processFingerprint conn\<rparr>
                              in (case APIClient_CaptureSnapshot call req apiClient of
                                    Inl e \<Rightarrow> Inl (SelfCapture e)
                                  | Inr res \<Rightarrow> Inr (sr_SnapshotURL res),
                                  log @ [ApiOpened (ac_address apiClient), ApiCalled req, ApiClosed])))
                      in bindE (Close conn) (\<lambda>(evs, _). Inr (r, log @ map ConnEvent evs))))))"

subsection \<open>The configuration page\<close>

record httpHandler =
  hh_config :: Config

text \<open>\<open>cur\<close> is the status of the listener when the handler is created or the page is rendered.\<close>

definition HttpHandler ::
  "(string \<Rightarrow> string option) \<Rightarrow> ConnectionStatus \<Rightarrow> option_fn list \<Rightarrow> side_eye \<Rightarrow> httpHandler" where
  "HttpHandler vars cur opts st =
     (let cfg = (if Conn_Status cur (se_conn st) = ConnUninitialized then MakeDefaultConfig vars ''''
                 else sc_ActiveConfig (se_conn st))
      in \<lparr>hh_config = foldl (\<lambda>cfg opt. apply_option opt cfg) cfg opts\<rparr>)"

record templateData =
  td_Status :: conn_status
  td_ErrMsg :: string
  td_Token :: string
  td_Program :: string
  td_Env :: string

definition handleGet :: "ConnectionStatus \<Rightarrow> string \<Rightarrow> httpHandler \<Rightarrow> side_eye \<Rightarrow> templateData" where
  "handleGet cur errMsg h st =
     (let s = Conn_Status cur (se_conn st);
          cfg = (if s = ConnConnected \<or> s = ConnConnecting then sc_ActiveConfig (se_conn st) else hh_config h)
      in \<lparr>td_Status = s, td_ErrMsg = errMsg, td_Token = cf_TenantToken cfg, td_Program = cf_ProgramName cfg,
          td_Env = cf_Environment cfg\<rparr>)"

definition ConnColor :: "templateData \<Rightarrow> string" where
  "ConnColor td =
     (if td_Status td \<in> {ConnUninitialized, ConnConnecting, ConnDisconnected} then ''red''
      else if td_Status td = ConnConnected then ''green'' else '''')"

definition ConnStatus :: "templateData \<Rightarrow> string" where
  "ConnStatus td =
     (if td_Status td \<in> {ConnUninitialized, ConnDisconnected} then ''disconnected''
      else if td_Status td = ConnConnected then ''connected''
      else if td_Status td = ConnConnecting then ''connecting'' else '''')"

definition DisconnectEnabled :: "templateData \<Rightarrow> bool" where
  "DisconnectEnabled td \<longleftrightarrow> td_Status td = ConnConnected \<or> td_Status td = ConnConnecting"

text \<open>
  A request: whether it is a GET, and the form, \<open>None\<close> when it cannot be parsed. \<open>polls\<close> are the states of
  the connection at the polls of one second, \<open>cur\<close> is the status of the listener when the page is rendered.
  The texts of wrapped errors are left out of the log.
\<close>

record http_request =
  rq_IsGet :: bool
  rq_Form :: "(string \<Rightarrow> string list option) option"

record http_state =
  hs_handler :: httpHandler
  hs_eye :: side_eye
  hs_lines :: "string list"

record http_response =
  rs_page :: "templateData option"
  rs_sleeps :: nat

definition log_error :: "string \<Rightarrow> http_state \<Rightarrow> http_state res" where
  "log_error msg s =
     (case cf_ErrorLogger (sc_ActiveConfig (se_conn (hs_eye s))) of
        None \<Rightarrow> Inl NilDeref
      | Some f \<Rightarrow> Inr (s\<lparr>hs_lines := f msg (hs_lines s)\<rparr>))"

definition no_page :: "string \<Rightarrow> http_state \<Rightarrow> (http_response \<times> http_state) res" where
  "no_page msg s = bindE (log_error msg s) (\<lambda>s. Inr (\<lparr>rs_page = None, rs_sleeps = 0\<rparr>, s))"

definition page :: "ConnectionStatus \<Rightarrow> string \<Rightarrow> nat \<Rightarrow> http_state \<Rightarrow> http_response \<times> http_state" where
  "page cur errMsg n s = (\<lparr>rs_page = Some (handleGet cur errMsg (hs_handler s) (hs_eye s)), rs_sleeps = n\<rparr>, s)"

definition first_value :: "string list \<Rightarrow> string res" where
  "first_value vs = (case vs of [] \<Rightarrow> Inl IndexOutOfRange | v # _ \<Rightarrow> Inr v)"

fun wait_connected :: "conn_status list \<Rightarrow> nat" where
  "wait_connected [] = 0"
| "wait_connected (st # sts) = (if st \<noteq> ConnConnecting then 0 else Suc (wait_connected sts))"

definition reconnect ::
  "connect_env \<Rightarrow> (string \<Rightarrow> string option) \<Rightarrow> conn_status list \<Rightarrow> ConnectionStatus \<Rightarrow>
   string \<Rightarrow> string \<Rightarrow> string \<Rightarrow> http_state \<Rightarrow> (http_response \<times> http_state) res" where
  "reconnect en vars polls cur newToken newEnv newProg s =
     (let s = s\<lparr>hs_handler := \<lparr>hh_config = (hh_config (hs_handler s))\<lparr>cf_TenantToken := newToken,
                    cf_ProgramName := newProg, cf_Environment := newEnv\<rparr>\<rparr>\<rparr>
      in if newToken = '''' then Inr (page cur ''An API token is required.'' 0 s)
         else if newProg = '''' then Inr (page cur ''A program name is required.'' 0 s)
         else
           bindE (Stop (hs_eye s)) (\<lambda>eye.
           bindE (Init en vars newProg [WithToken newToken, WithEnvironment newEnv] eye) (\<lambda>(err, eye).
           let s = s\<lparr>hs_eye := eye\<rparr>
           in bindE (if err = None then Inr s else log_error ''failed to update config'' s) (\<lambda>s.
              Inr (page cur '''' (wait_connected polls) s)))))"

definition ServeHTTP ::
  "connect_env \<Rightarrow> (string \<Rightarrow> string option) \<Rightarrow> conn_status list \<Rightarrow> ConnectionStatus \<Rightarrow>
   http_request \<Rightarrow> http_state \<Rightarrow> (http_response \<times> http_state) res" where
  "ServeHTTP en vars polls cur req s =
     (if rq_IsGet req then Inr (page cur '''' 0 s)
      else
        (case rq_Form req of
           None \<Rightarrow> no_page ''failed to parse form'' s
         | Some form \<Rightarrow>
             if form ''disconnect'' \<noteq> None then
               bindE (Stop (hs_eye s)) (\<lambda>eye. Inr (page cur '''' 0 (s\<lparr>hs_eye := eye\<rparr>)))
             else if form ''connect'' = None then no_page ''invalid POST: missing connect/disconnect'' s
             else
               (case form ''token'' of
                  None \<Rightarrow> no_page ''invalid POST: missing token'' s
                | Some toks \<Rightarrow>
                    bindE (first_value toks) (\<lambda>newToken.
                    case form ''env'' of
                      None \<Rightarrow> no_page ''invalid POST: missing env'' s
                    | Some envs \<Rightarrow>
                        bindE (first_value envs) (\<lambda>newEnv.
                        case form ''programName'' of
                          None \<Rightarrow> no_page ''invalid POST: missing program name'' s
                        | Some progs \<Rightarrow>
                            bindE (first_value progs) (\<lambda>newProg.
                            reconnect en vars polls cur newToken newEnv newProg s))))))"

subsection \<open>Properties\<close>

text \<open>What \<open>makeConfig\<close> gives is the value of the last option that sets a field, or else the default.\<close>

fun last_token :: "option_fn list \<Rightarrow> string \<Rightarrow> string" where
  "last_token [] d = d"
| "last_token (WithToken t # opts) d = last_token opts t"
| "last_token (_ # opts) d = last_token opts d"

lemma foldl_token: "cf_TenantToken (foldl (\<lambda>cfg opt. apply_option opt cfg) cfg opts) = last_token opts (cf_TenantToken cfg)"
proof (induction opts arbitrary: cfg)
  case (Cons opt opts)
  then show ?case by (cases opt) simp_all
qed simp

lemma foldl_AgentUrl: "cf_AgentUrl (foldl (\<lambda>cfg opt. apply_option opt cfg) cfg opts) = cf_AgentUrl cfg"
proof (induction opts arbitrary: cfg)
  case (Cons opt opts)
  then show ?case by (cases opt) simp_all
qed simp

text \<open>
  C28. \<open>CaptureSelfSnapshot\<close> releases what it opened: on a supported platform it returns; when the connection
  was made it is stopped, closed and waited for as the last thing, whether or not the API could be reached
  or the capture failed; the API client is closed before it; and the capture asked for is that of this
  process, by the fingerprints its connection reports.
\<close>

theorem CaptureSelfSnapshot_releases:
  assumes "PlatformSupported (ce_version en) (ce_arch en) = None"
  shows "\<exists>r evs. CaptureSelfSnapshot en vars dial call programName opts n = Inr (r, evs) \<and>
    ((\<exists>e. r = Inl (SelfConnect e) \<and>
        evs = (if \<exists>e'. e = CreateArtifactsClient e' then [ConnEvent (ListenerStarted n)] else [])) \<or>
     (\<exists>target uuid api.
        evs = map ConnEvent [ListenerStarted n, GrpcDialed n target, Serving n] @ api @
              map ConnEvent [GrpcStopped n, GrpcConnClosed n, WaitedFor n] \<and>
        ce_uuid en = Inr uuid \<and>
        ((\<exists>e. r = Inl (SelfClient e)) \<and> api = [] \<or>
         (\<exists>addr. api = [ApiOpened addr,
            ApiCalled \<lparr>cs_Environment = '''', cs_AgentFingerprint = uuid,
              cs_ProcessFingerprint = make_processFingerprint uuid (ce_pid en) (ce_startTime en)\<rparr>, ApiClosed]))))"
proof -
  let ?cfg = "makeConfig vars programName opts"
  from Connect_result [OF conn_ok_new assms, of ?cfg True n] obtain err evs c'
    where c: "Connect en ?cfg True n NewSideEyeConn = Inr (err, evs, c')" "conn_ok c'"
      and ok: "err = None \<Longrightarrow> (\<exists>target. evs = [ListenerStarted n, GrpcDialed n target, Serving n]) \<and>
        handles (Some n) c' \<and> sc_wg c' = Some n \<and> (\<exists>uuid. ce_uuid en = Inr uuid \<and> sc_agentFingerprint c' = uuid \<and>
          sc_processFingerprint c' = make_processFingerprint uuid (ce_pid en) (ce_startTime en))"
      and bad: "err \<noteq> None \<Longrightarrow> evs = (if \<exists>e. err = Some (CreateArtifactsClient e) then [ListenerStarted n] else [])"
    by (auto simp: release_events_def NewSideEyeConn_def)
  show ?thesis
  proof (cases err)
    case (Some e)
    with c(1) bad assms show ?thesis by (auto simp: CaptureSelfSnapshot_def)
  next
    case None
    with ok have "release_events c' = [GrpcStopped n, GrpcConnClosed n, WaitedFor n]"
      by (auto simp: release_events_def handles_def)
    with None c ok assms show ?thesis
      by (cases "NewAPIClient vars (ce_parse en) (ce_parse_ip en) dial (cf_TenantToken ?cfg)")
        (auto simp: CaptureSelfSnapshot_def Let_def Close_ok)
  qed
qed

theorem CaptureSelfSnapshot_releases_witness:
  "\<exists>addr req. CaptureSelfSnapshot (conn_example_env None) ((\<lambda>_. None)(ENV_TENANT_TOKEN := Some ''t'')) (\<lambda>_ _. None)
     (\<lambda>md _. if md = [(''api-token'', ''t'')]
        then Inr \<lparr>cr_RecordingId = 4, cr_SnapshotUrl = ''url'', cr_Errors = []\<rparr> else undefined) ''p'' [] 0 =
   Inr (Inr ''url'', map ConnEvent [ListenerStarted 0, GrpcDialed 0 ''dns:///host:443'', Serving 0] @
     [ApiOpened addr, ApiCalled req, ApiClosed] @ map ConnEvent [GrpcStopped 0, GrpcConnClosed 0, WaitedFor 0])"
  (is "\<exists>addr req. CaptureSelfSnapshot ?en ?vars ?dial ?call _ _ _ = _")
proof -
  have "\<exists>api. CaptureSelfSnapshot ?en ?vars ?dial ?call ''p'' [] 0 =
      Inr (Inr ''url'', map ConnEvent [ListenerStarted 0, GrpcDialed 0 ''dns:///host:443'', Serving 0] @ api)"
    by (simp add: CaptureSelfSnapshot_def Connect_def Close_def conn_example_env_def example_url_def PlatformSupported_def
        makeConfig_def MakeDefaultConfig_def Getenv_def zero_Config_def newDialer_def newArtifactsClient_def
        NewSideEyeConn_def Let_def ENV_TENANT_TOKEN_def ENV_AGENT_URL_def ENV_ENVIRONMENT_def ENV_API_URL_def
        NewAPIClient_def api_address_def APIClient_CaptureSnapshot_def outgoing_metadata_def store_conn_def closeInner_def
        artifacts_address_def)
  with CaptureSelfSnapshot_releases [OF example_supported, of None ?vars ?dial ?call "''p''" "[]" 0]
  show ?thesis by auto
qed

lemma Stop_ok:
  "conn_ok (se_conn st) \<Longrightarrow>
    Stop st = Inr (st\<lparr>se_conn := no_handles (se_conn st), se_log := se_log st @ release_events (se_conn st)\<rparr>)"
  by (simp add: Stop_def Close_ok)

lemma conn_ok_no_handles [simp]: "conn_ok (no_handles c)"
  by (auto simp: conn_ok_def intro: handles_None)

text \<open>When the calls that \<open>Connect\<close> makes in its environment succeed.\<close>

definition connects :: "connect_env \<Rightarrow> string \<Rightarrow> bool" where
  "connects en agentUrl \<longleftrightarrow> (\<exists>uuid. ce_uuid en = Inr uuid) \<and> (\<exists>d. newDialer (ce_parse en) agentUrl = Inr d) \<and>
     (\<exists>client. newArtifactsClient (ce_parse en) (ce_parse_ip en) (ce_dial en) agentUrl = Inr client)"

lemma Connect_connects:
  assumes "Connect en cfg eph n (no_handles c) = Inr (err, evs, c')" "cf_TenantToken cfg \<noteq> ''''"
    and "PlatformSupported (ce_version en) (ce_arch en) = None"
  shows "err = None \<longleftrightarrow> connects en (cf_AgentUrl cfg)"
  using assms Close_ok [OF conn_ok_no_handles, of c]
  by (auto simp: Connect_def connects_def Let_def split: sum.splits)

lemma release_no_handles [simp]: "release_events (no_handles c) = []"
  by (simp add: release_events_def)

lemma Init_connect:
  assumes "Connect en (makeConfig vars prog opts) False (se_next st) (se_conn st) = Inr (err, evs, c)"
    and "PlatformSupported (ce_version en) (ce_arch en) = None"
  shows "Init en vars prog opts st =
    Inr (map_option InitConnect err, st\<lparr>se_conn := c, se_next := se_next st + 1, se_log := se_log st @ evs\<rparr>)"
  using assms by (simp add: Init_def makeConfig_def [symmetric] Let_def)

definition posted :: "string \<Rightarrow> string \<Rightarrow> string \<Rightarrow> http_request \<Rightarrow> bool" where
  "posted t e p req \<longleftrightarrow>
     \<not> rq_IsGet req \<and>
     (case rq_Form req of
        None \<Rightarrow> False
      | Some form \<Rightarrow>
          form ''disconnect'' = None \<and> form ''connect'' \<noteq> None \<and>
          form ''token'' = Some [t] \<and> form ''env'' = Some [e] \<and> form ''programName'' = Some [p])"

text \<open>
  C33. A reconnection from the configuration page releases the old connection and connects: what is asked for is a
  connection with a fresh default configuration for the program name and the token and environment of the form, so the
  loggers that were passed to \<open>Init\<close> or to \<open>HttpHandler\<close> are gone. When the calls of \<open>Connect\<close> in its
  environment succeed the process is connected with exactly that, by a new listener, client and server; when one fails it is not
  connected, the old configuration stays active and the error goes to its logger. In both cases the
  configuration of the page has the three fields of the form and keeps the others, and the page shows the new state, after one
  sleep for each poll that found the connection still being made.
\<close>

theorem ServeHTTP_reconnect:
  assumes "conn_ok (se_conn (hs_eye s))" "PlatformSupported (ce_version en) (ce_arch en) = None"
    and "cf_ErrorLogger (sc_ActiveConfig (se_conn (hs_eye s))) = Some logger"
    and "posted t e p req" "t \<noteq> ''''" "p \<noteq> ''''"
  shows "let old = hs_eye s; cfg = (MakeDefaultConfig vars p)\<lparr>cf_TenantToken := t, cf_Environment := e\<rparr>
    in \<exists>err evs c s'. Connect en cfg False (se_next old) (no_handles (se_conn old)) = Inr (err, evs, c) \<and>
      ServeHTTP en vars polls cur req s =
        Inr (\<lparr>rs_page = Some (handleGet cur '''' (hs_handler s') (hs_eye s')), rs_sleeps = wait_connected polls\<rparr>, s') \<and>
      hs_eye s' = old\<lparr>se_conn := c, se_next := se_next old + 1, se_log := se_log old @ release_events (se_conn old) @ evs\<rparr> \<and>
      hh_config (hs_handler s') = (hh_config (hs_handler s))\<lparr>cf_TenantToken := t, cf_ProgramName := p, cf_Environment := e\<rparr> \<and>
      (err = None \<longleftrightarrow> connects en (cf_AgentUrl cfg)) \<and>
      (if err = None then
         handles (Some (se_next old)) c \<and> sc_ActiveConfig c = cfg \<and> hs_lines s' = hs_lines s \<and>
         (\<exists>target. evs = [ListenerStarted (se_next old), GrpcDialed (se_next old) target, Serving (se_next old)])
       else
         handles None c \<and> sc_ActiveConfig c = sc_ActiveConfig (se_conn old) \<and>
         hs_lines s' = logger ''failed to update config'' (hs_lines s)) \<and>
      cf_ErrorLogger cfg = Some (\<lambda>_ lines. lines) \<and> cf_InfoLogger cfg = None"
proof -
  define old where "old = hs_eye s"
  define cfg where "cfg = (MakeDefaultConfig vars p)\<lparr>cf_TenantToken := t, cf_Environment := e\<rparr>"
  define s1 where "s1 = s\<lparr>hs_handler := \<lparr>hh_config = (hh_config (hs_handler s))\<lparr>cf_TenantToken := t, cf_ProgramName := p,
    cf_Environment := e\<rparr>\<rparr>\<rparr>"
  have serve: "ServeHTTP en vars polls cur req s = reconnect en vars polls cur t e p s"
    using assms(4) by (auto simp: posted_def ServeHTTP_def first_value_def split: option.splits)
  have cfg: "makeConfig vars p [WithToken t, WithEnvironment e] = cfg" "cf_TenantToken cfg = t"
    "cf_ErrorLogger cfg = Some (\<lambda>_ lines. lines)" "cf_InfoLogger cfg = None"
    by (simp_all add: cfg_def makeConfig_def MakeDefaultConfig_def zero_Config_def Let_def)
  define eye where "eye = old\<lparr>se_conn := no_handles (se_conn old), se_log := se_log old @ release_events (se_conn old)\<rparr>"
  have stop: "Stop old = Inr eye" using Stop_ok [of old] assms(1) by (simp add: eye_def old_def)
  from Connect_result [OF conn_ok_no_handles assms(2), of cfg False "se_next old" "se_conn old"] obtain err evs c
    where c: "Connect en cfg False (se_next old) (no_handles (se_conn old)) = Inr (err, evs, c)"
      and ok: "err = None \<Longrightarrow> handles (Some (se_next old)) c \<and> sc_ActiveConfig c = cfg \<and>
        (\<exists>target. evs = [ListenerStarted (se_next old), GrpcDialed (se_next old) target, Serving (se_next old)])"
      and bad: "err \<noteq> None \<Longrightarrow> handles None c \<and> sc_ActiveConfig c = sc_ActiveConfig (se_conn old)"
    by auto
  define eye' where "eye' = old\<lparr>se_conn := c, se_next := se_next old + 1, se_log := se_log old @ release_events (se_conn old) @ evs\<rparr>"
  have init: "Init en vars p [WithToken t, WithEnvironment e] eye = Inr (map_option InitConnect err, eye')"
    using Init_connect [of en vars p "[WithToken t, WithEnvironment e]" eye err evs c] c assms(2)
    by (simp add: cfg(1) eye_def eye'_def)
  define s2 where "s2 = s1\<lparr>hs_eye := eye'\<rparr>"
  define s' where "s' = (if err = None then s2 else s2\<lparr>hs_lines := logger ''failed to update config'' (hs_lines s)\<rparr>)"
  have logged: "err \<noteq> None \<Longrightarrow> log_error ''failed to update config'' s2 = Inr s'"
    using bad assms(3) by (auto simp: log_error_def s2_def s'_def eye'_def s1_def old_def)
  have served: "ServeHTTP en vars polls cur req s =
      Inr (\<lparr>rs_page = Some (handleGet cur '''' (hs_handler s') (hs_eye s')), rs_sleeps = wait_connected polls\<rparr>, s')"
  proof -
    have "reconnect en vars polls cur t e p s =
        bindE (if err = None then Inr s2 else log_error ''failed to update config'' s2) (\<lambda>s.
          Inr (page cur '''' (wait_connected polls) s))"
      using assms(5,6) stop init by (simp add: reconnect_def Let_def s2_def s1_def old_def)
    with logged show ?thesis by (cases err) (simp_all add: serve page_def s'_def)
  qed
  have parts: "hs_eye s' = eye'" "hs_handler s' = hs_handler s1" "err = None \<Longrightarrow> hs_lines s' = hs_lines s"
    "err \<noteq> None \<Longrightarrow> hs_lines s' = logger ''failed to update config'' (hs_lines s)"
    by (auto simp: s'_def s2_def s1_def)
  have "err = None \<longleftrightarrow> connects en (cf_AgentUrl cfg)"
    using Connect_connects [OF c _ assms(2)] cfg(2) assms(5) by simp
  with c served parts ok bad show ?thesis
    unfolding Let_def old_def [symmetric] cfg_def [symmetric]
    by (intro exI [of _ err] exI [of _ evs] exI [of _ c] exI [of _ s']) (simp add: eye'_def cfg(3,4) s1_def)
qed

definition example_request :: http_request where
  "example_request =
     \<lparr>rq_IsGet = False,
      rq_Form = Some [''connect'' \<mapsto> [''Reconnect''], ''token'' \<mapsto> [''t''], ''env'' \<mapsto> [''e''], ''programName'' \<mapsto> [''p'']]\<rparr>"

definition example_http_state :: http_state where
  "example_http_state =
     \<lparr>hs_handler = \<lparr>hh_config = zero_Config\<rparr>, hs_eye = \<lparr>se_conn = NewSideEyeConn, se_next = 0, se_log = []\<rparr>, hs_lines = []\<rparr>"

lemma example_can_connect: "connects (conn_example_env None) url"
  by (simp add: connects_def conn_example_env_def example_url_def newDialer_def newArtifactsClient_def Let_def)

theorem ServeHTTP_reconnect_witness:
  "\<exists>pg s' target. ServeHTTP (conn_example_env None) Map.empty [ConnConnecting, ConnConnected] Connected example_request
       example_http_state = Inr (\<lparr>rs_page = Some pg, rs_sleeps = 1\<rparr>, s') \<and>
     sc_listener (se_conn (hs_eye s')) = Some 0 \<and>
     se_log (hs_eye s') = [ListenerStarted 0, GrpcDialed 0 target, Serving 0] \<and>
     cf_TenantToken (sc_ActiveConfig (se_conn (hs_eye s'))) = ''t'' \<and> td_Status pg = ConnConnected"
proof -
  have post: "posted ''t'' ''e'' ''p'' example_request"
    by (simp add: posted_def example_request_def)
  have "conn_ok (se_conn (hs_eye example_http_state))"
    "cf_ErrorLogger (sc_ActiveConfig (se_conn (hs_eye example_http_state))) = Some (\<lambda>_ lines. lines)"
    by (simp_all add: example_http_state_def conn_ok_new) (simp add: NewSideEyeConn_def)
  from ServeHTTP_reconnect [OF this(1) example_supported [where e = None] this(2) post, where vars = Map.empty and
      polls = "[ConnConnecting, ConnConnected]" and cur = Connected]
  show ?thesis
    by (auto simp: Let_def example_can_connect handles_def handleGet_def Conn_Status_def example_http_state_def
        release_events_def NewSideEyeConn_def)
qed

end
