(* ===== verification/Snapshot_Heap.thy ===== *)
theory Snapshot_Heap
  imports Snapshot_Inv
begin

text \<open>
  What the traversal of the queue captures (\<open>processQueue\<close> of \<open>internal/snapshot/snapshot.go\<close>): the graph
  of the objects that are reachable from the queue.

  The byte code is an input of the program. \<open>type_programs\<close> is the specification of the programs of the
  types: what a program leaves of the bytes of an object, and the objects it pushes. Theory Type_Code
  proves it of programs made of sequences, subroutines and loops.
\<close>

subsection \<open>What is captured of an entry\<close>

text \<open>A type program, seen from outside: the bytes of the object as it leaves them, and what it pushes.\<close>

type_synonym type_sem = "QueueEntry \<Rightarrow> u8 list \<Rightarrow> u8 list \<times> QueueEntry list"

text \<open>The type of an entry and the entry with its length clamped: \<open>None\<close> when \<open>processQueue\<close> skips it.\<close>

definition entry_type :: "run_env \<Rightarrow> QueueEntry \<Rightarrow> (TypeInfo \<times> QueueEntry) option" where
  "entry_type en e =
     (case sp_TypeInfo (en_p en) (qe_Type e) of
        None \<Rightarrow> None
      | Some ti \<Rightarrow>
          (let n = clampLen (qe_Len e) (ti_ByteLen ti) in
           if n = 0 then None else Some (ti, e\<lparr>qe_Len := n\<rparr>)))"

definition object_memory :: "run_env \<Rightarrow> QueueEntry \<Rightarrow> u8 list option" where
  "object_memory en e = Dereference (en_mem en) (qe_Addr e) (unat (qe_Len e))"

text \<open>The header and the bytes recorded for an entry, if its type is serialized.\<close>

definition object_entry :: "run_env \<Rightarrow> type_sem \<Rightarrow> QueueEntry \<Rightarrow> (QueueEntry \<times> u8 list) option" where
  "object_entry en sem e0 =
     (case entry_type en e0 of
        None \<Rightarrow> None
      | Some (ti, e) \<Rightarrow>
          if \<not> ti_SerializeBeforeEnqueue ti then None
          else
            (case object_memory en e of
               None \<Rightarrow> Some (unreadable e, replicate (unat (qe_Len e)) 0)
             | Some bs \<Rightarrow> Some (e, if ti_EnqueuePc ti = 0 then bs else fst (sem e bs))))"

text \<open>What the program of the type of an entry pushes; nothing, when the object could not be read.\<close>

definition object_refs :: "run_env \<Rightarrow> type_sem \<Rightarrow> QueueEntry \<Rightarrow> QueueEntry list" where
  "object_refs en sem e0 =
     (case entry_type en e0 of
        None \<Rightarrow> []
      | Some (ti, e) \<Rightarrow>
          if ti_EnqueuePc ti = 0 then []
          else if ti_SerializeBeforeEnqueue ti then
            (case object_memory en e of None \<Rightarrow> [] | Some bs \<Rightarrow> snd (sem e bs))
          else snd (sem e []))"

definition pushed :: "QueueEntry list \<Rightarrow> QueueEntry set" where
  "pushed rs = {r \<in> set rs. qe_Addr r \<noteq> 0}"

lemma pushed_simps [simp]:
  "pushed [] = {}" "pushed (r # rs) = (if qe_Addr r = 0 then pushed rs else insert r (pushed rs))"
  "pushed (rs @ ss) = pushed rs \<union> pushed ss"
  by (auto simp: pushed_def)

text \<open>The objects reachable from a set of roots, the least set that is closed under references.\<close>

inductive_set heap_reach :: "run_env \<Rightarrow> type_sem \<Rightarrow> QueueEntry set \<Rightarrow> QueueEntry set"
  for en sem roots where
  heap_root: "e \<in> roots \<Longrightarrow> e \<in> heap_reach en sem roots"
| heap_ref: "e \<in> heap_reach en sem roots \<Longrightarrow> r \<in> pushed (object_refs en sem e) \<Longrightarrow>
    r \<in> heap_reach en sem roots"

definition closed_refs :: "run_env \<Rightarrow> type_sem \<Rightarrow> QueueEntry set \<Rightarrow> bool" where
  "closed_refs en sem E \<longleftrightarrow> (\<forall>e \<in> E. pushed (object_refs en sem e) \<subseteq> E)"

lemma heap_reach_closed: "closed_refs en sem (heap_reach en sem roots)"
  by (auto simp: closed_refs_def intro: heap_ref)

lemma heap_reach_least: "closed_refs en sem E \<Longrightarrow> roots \<subseteq> E \<Longrightarrow> heap_reach en sem roots \<subseteq> E"
proof
  fix e
  assume "closed_refs en sem E" "roots \<subseteq> E"
  show "e \<in> heap_reach en sem roots \<Longrightarrow> e \<in> E"
    by (induction rule: heap_reach.induct)
      (use \<open>closed_refs en sem E\<close> \<open>roots \<subseteq> E\<close> in \<open>auto simp: closed_refs_def\<close>)
qed

subsection \<open>The queue after some pushes\<close>

definition queue_grown :: "QueueEntry list \<Rightarrow> queue \<Rightarrow> queue \<Rightarrow> bool" where
  "queue_grown rs q q' \<longleftrightarrow> queue_wf q' \<and>
     (\<exists>new. queue_list q' = queue_list q @ new \<and> distinct (map key_of new) \<and> set new \<subseteq> pushed rs \<and>
       key_of ` set new = key_of ` pushed rs - qu_seen q \<and> qu_seen q' = qu_seen q \<union> key_of ` pushed rs)"

lemma queue_grown_refl: "queue_wf q \<Longrightarrow> queue_grown [] q q"
  by (simp add: queue_grown_def)

lemma queue_grown_trans:
  assumes "queue_grown r1 q q1" "queue_grown r2 q1 q2"
  shows "queue_grown (r1 @ r2) q q2"
proof -
  from assms obtain n1 n2 where
    n1: "queue_list q1 = queue_list q @ n1" "distinct (map key_of n1)" "set n1 \<subseteq> pushed r1"
      "key_of ` set n1 = key_of ` pushed r1 - qu_seen q" "qu_seen q1 = qu_seen q \<union> key_of ` pushed r1"
    and n2: "queue_list q2 = queue_list q1 @ n2" "distinct (map key_of n2)" "set n2 \<subseteq> pushed r2"
      "key_of ` set n2 = key_of ` pushed r2 - qu_seen q1" "qu_seen q2 = qu_seen q1 \<union> key_of ` pushed r2"
      "queue_wf q2"
    by (auto simp: queue_grown_def)
  have "distinct (map key_of (n1 @ n2))" using n1(2,4,5) n2(2,4) by auto
  moreover have "key_of ` set (n1 @ n2) = key_of ` pushed (r1 @ r2) - qu_seen q"
    unfolding set_append image_Un n1(4) n2(4) n1(5) by auto
  moreover have "qu_seen q2 = qu_seen q \<union> key_of ` pushed (r1 @ r2)"
    using n1(5) n2(5) by auto
  moreover have "set (n1 @ n2) \<subseteq> pushed (r1 @ r2)" using n1(3) n2(3) by auto
  ultimately show ?thesis
    unfolding queue_grown_def using n1(1) n2(1,6) by (intro conjI exI [of _ "n1 @ n2"]) auto
qed

lemma queue_Push_grown:
  assumes "queue_wf q"
  obtains q' where "queue_Push a t n q = Inr (True, q')"
    "queue_grown [\<lparr>qe_Type = t, qe_Len = n, qe_Addr = a\<rparr>] q q'"
proof (cases "a = 0 \<or> \<lparr>k_addr = a, k_t = t\<rparr> \<in> qu_seen q")
  case True
  with assms have "queue_grown [\<lparr>qe_Type = t, qe_Len = n, qe_Addr = a\<rparr>] q q"
    by (auto simp: queue_grown_def key_of_def insert_absorb)
  with True that show thesis using queue_Push_seen by blast
next
  case False
  with queue_Push_new [OF assms, of a t n] obtain q' where
    "queue_Push a t n q = Inr (True, q')" "queue_wf q'"
    "queue_list q' = queue_list q @ [\<lparr>qe_Type = t, qe_Len = n, qe_Addr = a\<rparr>]"
    "qu_seen q' = insert \<lparr>k_addr = a, k_t = t\<rparr> (qu_seen q)" by blast
  with False that show thesis by (auto simp: queue_grown_def key_of_def)
qed

subsection \<open>The specification of the type programs\<close>

text \<open>
  The resolver, once it has read the range of the first module, has what the memory holds, and the offsets
  are those of the configuration. A machine is idle when no program runs on it.
\<close>

definition module_cfg :: "run_env \<Rightarrow> moduledataConfig \<Rightarrow> bool" where
  "module_cfg en c \<longleftrightarrow>
     (case sp_RuntimeConfig (en_p en) of
        None \<Rightarrow> False | Some cfg \<Rightarrow> c = gr_cfg (makeGoRuntimeTypeResolver cfg (en_md en)))"

definition resolver_current :: "run_env \<Rightarrow> goRuntimeTypeResolver \<Rightarrow> bool" where
  "resolver_current en g \<longleftrightarrow> module_cfg en (gr_cfg g) \<and>
     (let r = gr_cachedFirstmoduledataRange g in mtr_start r = 0 \<or>
       load_u64 (en_mem en) (en_md en + mc_typesOffset (gr_cfg g)) = Inr (mtr_start r) \<and>
       load_u64 (en_mem en) (en_md en + mc_etypesOffset (gr_cfg g)) = Inr (mtr_end r))"

definition idle :: "run_env \<Rightarrow> machine \<Rightarrow> bool" where
  "idle en m \<longleftrightarrow> machine_wf m \<and> sm_stack m = [] \<and> dec_opBuf (sm_decoder m) = sp_Prog (en_p en) \<and>
     resolver_current en (sm_g m)"

text \<open>
  The specification \<open>type_programs en sem E\<close> of the programs for the entries in \<open>E\<close>.
  The effect of a type program on the machine: only the bytes of the object change among those written
  before, more may be appended, and the pushes go to the queue.
\<close>

definition program_effect ::
  "run_env \<Rightarrow> u8 list \<times> QueueEntry list \<Rightarrow> nat \<Rightarrow> nat \<Rightarrow> machine \<Rightarrow> machine \<Rightarrow> bool" where
  "program_effect en r off n m m' \<longleftrightarrow> idle en m' \<and> length (fst r) = n \<and>
     ob_len (sm_b m) \<le> ob_len (sm_b m') \<and>
     take (ob_len (sm_b m)) (ob_arr (sm_b m')) = take (ob_len (sm_b m)) (blit (ob_arr (sm_b m)) off (fst r)) \<and>
     queue_grown (snd r) (sm_q m) (sm_q m')"

definition runs_on :: "run_env \<Rightarrow> TypeInfo \<Rightarrow> QueueEntry \<Rightarrow> u32 \<Rightarrow> u8 list \<Rightarrow> machine \<Rightarrow> bool" where
  "runs_on en ti e off bs m \<longleftrightarrow> idle en m \<and> sm_chasedEntry m = e \<and>
     (if ti_SerializeBeforeEnqueue ti then
        object_memory en e = Some bs \<and> unat off + length bs \<le> ob_len (sm_b m) \<and>
        sub (ob_arr (sm_b m)) (unat off) (length bs) = bs \<and> GetEntryLen off (sm_b m) = Inr (qe_Len e)
      else off = 0 \<and> bs = [])"

definition type_programs :: "run_env \<Rightarrow> type_sem \<Rightarrow> QueueEntry set \<Rightarrow> bool" where
  "type_programs en sem E \<longleftrightarrow>
     (\<forall>e0 \<in> E. \<forall>ti e off bs m ok m'. entry_type en e0 = Some (ti, e) \<longrightarrow> ti_EnqueuePc ti \<noteq> 0 \<longrightarrow>
       runs_on en ti e off bs m \<longrightarrow> Run en (ti_EnqueuePc ti) 0 0 off m = Some (Inr (ok, m')) \<longrightarrow>
       \<not> full (sm_b m') \<longrightarrow> program_effect en (sem e bs) (unat off) (length bs) m m')"

lemma type_programsD:
  assumes "type_programs en sem E" "e0 \<in> E" "entry_type en e0 = Some (ti, e)" "ti_EnqueuePc ti \<noteq> 0"
    and "runs_on en ti e off bs m" "Run en (ti_EnqueuePc ti) 0 0 off m = Some (Inr (ok, m'))"
    and "\<not> full (sm_b m')"
  shows "program_effect en (sem e bs) (unat off) (length bs) m m'"
  using assms unfolding type_programs_def by blast

subsection \<open>One entry\<close>

text \<open>The room an entry takes, and the objects \<open>os\<close> with their places, in order between two offsets.\<close>

definition extent :: "run_env \<Rightarrow> type_sem \<Rightarrow> QueueEntry \<Rightarrow> nat" where
  "extent en sem e = (case object_entry en sem e of None \<Rightarrow> 0 | Some (h, _) \<Rightarrow> entry_len h)"

definition placed :: "run_env \<Rightarrow> type_sem \<Rightarrow> outBuf \<Rightarrow> QueueEntry \<Rightarrow> nat \<Rightarrow> bool" where
  "placed en sem b e p \<longleftrightarrow>
     (case object_entry en sem e of None \<Rightarrow> True | Some (h, bs) \<Rightarrow> entry_at b p h bs \<and> length bs = unat (qe_Len h))"

fun in_order :: "run_env \<Rightarrow> type_sem \<Rightarrow> nat \<Rightarrow> (QueueEntry \<times> nat) list \<Rightarrow> nat \<Rightarrow> bool" where
  "in_order en sem lo [] hi \<longleftrightarrow> lo \<le> hi"
| "in_order en sem lo ((e, p) # os) hi \<longleftrightarrow> lo \<le> p \<and> in_order en sem (p + extent en sem e) os hi"

lemma entry_len_unreadable [simp]: "entry_len (unreadable e) = entry_len e"
  by (simp add: entry_len_def unreadable_def)

lemma unreadable_simps [simp]:
  "qe_Len (unreadable e) = qe_Len e" "unwrapped (unreadable e) = unwrapped e" "room (unreadable e) b = room e b"
  by (simp_all add: unwrapped_def room_def) (simp_all add: unreadable_def)

lemma ob_written [simp]: "ob_len (written e bs b) = ob_len b + entry_len e" "ob_isFull (written e bs b) = ob_isFull b"
  by (simp_all add: written_def)

lemma sub_take_eq: "take n xs = take n ys \<Longrightarrow> p + k \<le> n \<Longrightarrow> sub xs p k = sub ys p k"
  unfolding sub_def by (metis take_drop take_take min.absorb1 add.commute)

lemma entry_at_take:
  assumes "take n (ob_arr b') = take n (ob_arr b)" "n \<le> ob_cap b'" "entry_at b p e bs" "p + 16 + length bs \<le> n"
  shows "entry_at b' p e bs"
  using assms sub_take_eq [OF assms(1), of p 16] sub_take_eq [OF assms(1), of "p + 16" "length bs"]
  by (simp add: entry_at_def)

lemma writeQueueEntry_no_room_full:
  assumes "ob_wf b" "unwrapped e" "\<not> room e b" "writeQueueEntry mem e b = Inr (r, b')"
  shows "ob_isFull b'"
proof -
  define b1 where "b1 = b\<lparr>ob_isFull := True\<rparr>"
  have b1: "ob_wf b1" "ob_isFull b1" using assms(1) by (simp_all add: b1_def ob_wf_def)
  have "okE (\<lambda>(_, b'). ob_rel b1 b') (writeQueueEntry mem e b)"
    unfolding writeQueueEntry_def reserveQueueEntry_no_room [OF assms(1-3)] b1_def [symmetric]
    using b1 by (auto simp: Let_def intro!: load_bind okE_bind [OF ob_Dereference_ok]
        okE_bind [OF ob_from [OF ob_store32_ok]])
  with assms(4) b1(2) show ?thesis by (auto simp: ob_rel_def)
qed

lemma writeQueueEntry_result:
  assumes "ob_wf b" "unwrapped e" "writeQueueEntry mem e b = Inr ((off, ok), b')" "\<not> ob_isFull b'"
  shows "room e b"
    and "Dereference mem (qe_Addr e) (unat (qe_Len e)) = Some bs \<Longrightarrow> ok \<and> off = Len b + 16 \<and> b' = written e bs b"
    and "Dereference mem (qe_Addr e) (unat (qe_Len e)) = None \<Longrightarrow>
      \<not> ok \<and> b' = written (unreadable e) (replicate (unat (qe_Len e)) 0) b"
proof -
  show r: "room e b" using writeQueueEntry_no_room_full [OF assms(1,2) _ assms(3)] assms(4) by blast
  show "Dereference mem (qe_Addr e) (unat (qe_Len e)) = Some bs \<Longrightarrow> ok \<and> off = Len b + 16 \<and> b' = written e bs b"
    using writeQueueEntry_mapped [OF assms(1,2) r] assms(3) by auto
  show "Dereference mem (qe_Addr e) (unat (qe_Len e)) = None \<Longrightarrow>
      \<not> ok \<and> b' = written (unreadable e) (replicate (unat (qe_Len e)) 0) b"
    using writeQueueEntry_unmapped [OF assms(1,2) r] assms(3) by auto
qed

lemma entry_type_unwrapped: "small_types en \<Longrightarrow> entry_type en e0 = Some (ti, e) \<Longrightarrow> unwrapped e"
  by (force simp: entry_type_def small_types_def clampLen_def unwrapped_def Let_def word_less_nat_alt not_less
      word_le_nat_alt split: option.splits if_splits)

text \<open>What the capture of an entry does to the machine.\<close>

definition captured :: "run_env \<Rightarrow> type_sem \<Rightarrow> QueueEntry \<Rightarrow> machine \<Rightarrow> machine \<Rightarrow> bool" where
  "captured en sem e m t \<longleftrightarrow> idle en t \<and> ob_cap (sm_b t) = ob_cap (sm_b m) \<and>
     ob_len (sm_b m) + extent en sem e \<le> ob_len (sm_b t) \<and>
     take (ob_len (sm_b m)) (ob_arr (sm_b t)) = take (ob_len (sm_b m)) (ob_arr (sm_b m)) \<and>
     placed en sem (sm_b t) e (ob_len (sm_b m)) \<and>
     queue_grown (object_refs en sem e) (sm_q m) (sm_q t)"

lemma idle_upd [simp]:
  "idle en (m\<lparr>sm_chasedEntry := e\<rparr>) = idle en m"
  "idle en (m\<lparr>sm_b := b\<rparr>) \<longleftrightarrow> idle en m \<and> ob_wf b" if "idle en m" for m
  using that by (simp_all add: idle_def machine_wf_def)

lemma idle_wf: "idle en m \<Longrightarrow> ob_wf (sm_b m)" "idle en m \<Longrightarrow> queue_wf (sm_q m)" "idle en m \<Longrightarrow> machine_wf m"
  by (simp_all add: idle_def machine_wf_def)

text \<open>An entry that is written and has no program to run.\<close>

lemma captured_written:
  assumes "idle en m" "entry_type en e0 = Some (ti, e)" "unwrapped e" "room e (sm_b m)"
    and "object_entry en sem e0 = Some (h, bs)" "qe_Len h = qe_Len e" "length bs = unat (qe_Len e)"
    and "object_refs en sem e0 = []"
  shows "captured en sem e0 m (m\<lparr>sm_b := written h bs (sm_b m)\<rparr>)"
proof -
  have h: "unwrapped h" "room h (sm_b m)" "length bs = unat (qe_Len h)" "entry_len h = entry_len e"
    using assms(3,4,6,7) by (simp_all add: unwrapped_def room_def entry_len_def)
  note w = written_entry_at [OF h(1-3)]
  have "ob_wf (written h bs (sm_b m))"
    using w(3) h(2) idle_wf(1) [OF assms(1)] by (simp add: ob_wf_def room_def)
  then show ?thesis
    using w h(3) assms(1,5,8) idle_wf(2) [OF assms(1)]
    by (simp add: captured_def extent_def placed_def queue_grown_refl)
qed

lemma sub_sub: "k + n \<le> l \<Longrightarrow> sub (sub xs i l) k n = sub xs (i + k) n"
  by (simp add: sub_def drop_take min_absorb1 add.commute)

lemma GetEntryLen_entry_at:
  assumes "entry_at b p e bs" "unat off = p + 16"
  shows "GetEntryLen off b = Inr (qe_Len e)"
proof -
  have "of_nat sizeof_QueueEntry \<le> off" using assms(2) by (simp add: word_le_nat_alt sizeof_QueueEntry_def)
  then have "Ptr (off - of_nat sizeof_QueueEntry) = p"
    using assms(2) by (simp add: Ptr_def unat_sub sizeof_QueueEntry_def)
  moreover have "le_word (sub (ob_arr b) (p + 4) 4) = qe_Len e"
    using assms(1) sub_sub [of 4 4 16 "ob_arr b" p] by (auto simp: entry_at_def QueueEntry_of_def)
  ultimately show ?thesis
    using assms(1) by (simp add: GetEntryLen_def ob_load32_def ob_load_def entry_at_def)
qed

text \<open>An entry that is written is what its program runs on.\<close>

lemma written_runs_on:
  assumes "idle en m" "unwrapped e" "room e (sm_b m)" "ti_SerializeBeforeEnqueue ti" "object_memory en e = Some bs"
  shows "runs_on en ti e (Len (sm_b m) + 16) bs (m\<lparr>sm_b := written e bs (sm_b m), sm_chasedEntry := e\<rparr>)"
proof -
  have len: "length bs = unat (qe_Len e)" using assms(5) Dereference_length by (simp add: object_memory_def)
  note wf = idle_wf(1) [OF assms(1)] and w = written_entry_at [OF assms(2,3) len]
  have "ob_wf (written e bs (sm_b m))" using w(3) assms(3) wf by (simp add: ob_wf_def room_def)
  with assms(1,4,5) w(1) data_offset(1) [OF wf assms(2,3)] entry_len_bounds(1) [OF assms(2)] len
    GetEntryLen_entry_at [OF w(1) data_offset(1) [OF wf assms(2,3)]]
  show ?thesis by (simp add: runs_on_def entry_at_def)
qed

lemma captured_program:
  assumes "idle en m" "entry_type en e0 = Some (ti, e)" "unwrapped e" "room e (sm_b m)"
    and "ti_SerializeBeforeEnqueue ti" "ti_EnqueuePc ti \<noteq> 0" "object_memory en e = Some bs"
    and "type_programs en sem E"
    and "Run en (ti_EnqueuePc ti) 0 0 (Len (sm_b m) + 16)
      (m\<lparr>sm_b := written e bs (sm_b m), sm_chasedEntry := e\<rparr>) = Some (Inr (ok, t))"
    and "\<not> full (sm_b t)" "ob_cap (sm_b t) = ob_cap (sm_b m)" "e0 \<in> E"
  shows "captured en sem e0 m t"
proof -
  define b where "b = sm_b m"
  define m1 where "m1 = m\<lparr>sm_b := written e bs b, sm_chasedEntry := e\<rparr>"
  have len: "length bs = unat (qe_Len e)" using assms(7) Dereference_length by (simp add: object_memory_def)
  have wf: "ob_wf b" using idle_wf(1) [OF assms(1)] by (simp add: b_def)
  have r: "room e b" using assms(4) by (simp add: b_def)
  note w = written_entry_at [OF assms(3) r len]
  note off = data_offset(1) [OF wf assms(3) r]
  have fit: "ob_len b + 16 + length bs \<le> ob_len b + entry_len e"
    using entry_len_bounds(1) [OF assms(3)] len by simp
  have on: "runs_on en ti e (Len b + 16) bs m1"
    using written_runs_on [OF assms(1,3,4,5,7)] by (simp add: m1_def b_def)
  have eff: "program_effect en (sem e bs) (ob_len b + 16) (length bs) m1 t"
    using type_programsD [OF assms(8,12,2,6) on _ assms(10)] assms(9) off by (simp add: m1_def b_def)
  obtain bs' refs where s: "sem e bs = (bs', refs)" by fastforce
  have len': "length bs' = length bs" using eff s by (simp add: program_effect_def)
  have "blit (ob_arr (written e bs b)) (ob_len b + 16) bs' = ob_arr (written e bs' b)"
    using fit r len' by (simp add: written_def blit_within room_def ob_cap_def) (simp add: blit_def)
  with eff s have arr: "take (ob_len b + entry_len e) (ob_arr (sm_b t)) =
      take (ob_len b + entry_len e) (ob_arr (written e bs' b))"
    by (simp add: program_effect_def m1_def)
  have le: "ob_len b + entry_len e \<le> ob_cap (sm_b t)" using r assms(11) by (simp add: room_def b_def)
  note w' = written_entry_at [OF assms(3) r trans [OF len' len]]
  have at: "entry_at (sm_b t) (ob_len b) e bs'"
    by (rule entry_at_take [OF arr le w'(1)]) (use fit len' in simp)
  have "take (ob_len b) (ob_arr (sm_b t)) = take (ob_len b) (ob_arr (written e bs' b))"
    using arg_cong [OF arr, of "take (ob_len b)"] by (simp add: min_absorb1)
  then have pre: "take (ob_len b) (ob_arr (sm_b t)) = take (ob_len b) (ob_arr b)" using w'(2) by simp
  have oe: "object_entry en sem e0 = Some (e, bs')" "object_refs en sem e0 = refs"
    using assms(2,5-7) s by (simp_all add: object_entry_def object_refs_def)
  show ?thesis
    using eff s oe at pre assms(11) len
    by (simp add: captured_def program_effect_def m1_def extent_def placed_def b_def [symmetric])
qed

text \<open>An entry for which nothing is written.\<close>

lemma captured_unwritten:
  assumes "idle en m" "object_entry en sem e0 = None" "object_refs en sem e0 = []"
  shows "captured en sem e0 m m"
  using assms idle_wf(2) [OF assms(1)] by (simp add: captured_def extent_def placed_def queue_grown_refl)

lemma captured_unserialized:
  assumes "idle en m" "entry_type en e0 = Some (ti, e)" "\<not> ti_SerializeBeforeEnqueue ti" "ti_EnqueuePc ti \<noteq> 0"
    and "type_programs en sem E" "Run en (ti_EnqueuePc ti) 0 0 0 (m\<lparr>sm_chasedEntry := e\<rparr>) = Some (Inr (ok, t))"
    and "\<not> full (sm_b t)" "ob_cap (sm_b t) = ob_cap (sm_b m)" "e0 \<in> E"
  shows "captured en sem e0 m t"
proof -
  have "runs_on en ti e 0 [] (m\<lparr>sm_chasedEntry := e\<rparr>)"
    using assms(1,3) by (simp add: runs_on_def)
  from type_programsD [OF assms(5,9,2,4) this assms(6,7)]
  have eff: "program_effect en (sem e []) 0 0 (m\<lparr>sm_chasedEntry := e\<rparr>) t" by simp
  then have "blit (ob_arr (sm_b m)) 0 (fst (sem e [])) = ob_arr (sm_b m)"
    by (simp add: program_effect_def blit_def)
  with eff assms(2-4,8) show ?thesis
    by (simp add: captured_def program_effect_def extent_def placed_def object_entry_def object_refs_def)
qed

lemma captureEntry_None: "entry_type en e0 = None \<Longrightarrow> captureEntry en e0 m = Some (Inr m)"
  by (auto simp: captureEntry_def entry_type_def Let_def split: option.splits if_splits)

lemma captureEntry_Some:
  assumes "entry_type en e0 = Some (ti, e)"
  shows "captureEntry en e0 m =
    bindO (Some (if ti_SerializeBeforeEnqueue ti then m_bufr (writeQueueEntry (en_mem en) e) m
                 else Inr ((0, True), m))) (\<lambda>((offset, ok), m1).
     if \<not> ok then Some (Inr m1)
     else if ti_EnqueuePc ti = 0 then Some (Inr m1)
     else bindO (Run en (ti_EnqueuePc ti) 0 0 offset (m1\<lparr>sm_chasedEntry := e\<rparr>)) (\<lambda>(_, m2). Some (Inr m2)))"
  using assms by (auto simp: captureEntry_def entry_type_def Let_def split: option.splits if_splits)

lemma captureEntry_serialized:
  assumes "idle en m" "small_types en" "type_programs en sem E"
    and "captureEntry en e0 m = Some (Inr t)" "\<not> full (sm_b t)"
    and "ti_SerializeBeforeEnqueue ti" and et: "entry_type en e0 = Some (ti, e)"
    and cap: "ob_cap (sm_b t) = ob_cap (sm_b m)" and uw: "unwrapped e" and E: "e0 \<in> E"
  shows "captured en sem e0 m t"
proof -
  obtain off ok b1 where w: "writeQueueEntry (en_mem en) e (sm_b m) = Inr ((off, ok), b1)"
    using assms(6) et assms(4) by (auto simp: captureEntry_Some m_bufr_def res_simps)
  define m1 where "m1 = m\<lparr>sm_b := b1\<rparr>"
  have t: "(if \<not> ok then Some (Inr m1) else if ti_EnqueuePc ti = 0 then Some (Inr m1)
      else bindO (Run en (ti_EnqueuePc ti) 0 0 off (m1\<lparr>sm_chasedEntry := e\<rparr>)) (\<lambda>(_, m2). Some (Inr m2)))
      = Some (Inr t)"
    using assms(6) et assms(4) w by (auto simp: captureEntry_Some m_bufr_def m1_def split: if_splits)
  have "machine_wf m1"
    using okE_D [OF writeQueueEntry_ok [OF idle_wf(1) [OF assms(1)]] w] idle_wf [OF assms(1)]
    by (auto simp: m1_def machine_wf_def dest: ob_rel_wf)
  from cap_rel_refl [OF this] have "cap_rel m1 (m1\<lparr>sm_chasedEntry := e\<rparr>)" by simp
  from Run_cap [OF this, of en "ti_EnqueuePc ti" 0 0 off] t have "ob_isFull b1 \<longrightarrow> ob_isFull (sm_b t)"
    by (auto simp: res_simps m1_def cap_rel_def ob_rel_def split: if_splits)
  with assms(5) have nf: "\<not> ob_isFull b1" by (auto simp: full_def)
  note wr = writeQueueEntry_result [OF idle_wf(1) [OF assms(1)] uw w nf]
  show ?thesis
  proof (cases "object_memory en e")
    case None
    with wr(3) have b1: "\<not> ok" "b1 = written (unreadable e) (replicate (unat (qe_Len e)) 0) (sm_b m)"
      by (simp_all add: object_memory_def)
    have "captured en sem e0 m (m\<lparr>sm_b := b1\<rparr>)"
      unfolding b1(2) by (rule captured_written [OF assms(1) et uw wr(1)])
        (use et assms(6) None in \<open>simp_all add: object_entry_def object_refs_def\<close>)
    with t b1(1) show ?thesis by (simp add: m1_def)
  next
    case (Some bs)
    with wr(2) have b1: "ok" "off = Len (sm_b m) + 16" "b1 = written e bs (sm_b m)"
      by (simp_all add: object_memory_def)
    show ?thesis
    proof (cases "ti_EnqueuePc ti = 0")
      case pc: True
      have "captured en sem e0 m (m\<lparr>sm_b := b1\<rparr>)"
        unfolding b1(3) by (rule captured_written [OF assms(1) et uw wr(1)])
          (use et assms(6) Some pc Dereference_length in
            \<open>auto simp: object_entry_def object_refs_def object_memory_def\<close>)
      with t b1(1) pc show ?thesis by (simp add: m1_def)
    next
      case pc: False
      with t b1 obtain ok' where
        "Run en (ti_EnqueuePc ti) 0 0 (Len (sm_b m) + 16)
          (m\<lparr>sm_b := written e bs (sm_b m), sm_chasedEntry := e\<rparr>) = Some (Inr (ok', t))"
        by (auto simp: m1_def res_simps)
      with captured_program [OF assms(1) et uw wr(1) assms(6) pc Some assms(3) _ assms(5) cap E] show ?thesis .
    qed
  qed
qed

lemma captureEntry_captured:
  assumes "idle en m" "small_types en" "type_programs en sem E"
    and "captureEntry en e0 m = Some (Inr t)" "\<not> full (sm_b t)" "e0 \<in> E"
  shows "captured en sem e0 m t"
proof (cases "entry_type en e0")
  case None
  then have "object_entry en sem e0 = None" "object_refs en sem e0 = []"
    by (simp_all add: object_entry_def object_refs_def)
  with None assms(1,4) show ?thesis by (auto simp: captureEntry_None intro: captured_unwritten)
next
  case (Some x)
  obtain ti e where et: "entry_type en e0 = Some (ti, e)" using Some by (cases x) auto
  have rel: "ob_rel (sm_b m) (sm_b t)"
    using okO_D [OF captureEntry_cap [OF cap_rel_refl [OF idle_wf(3) [OF assms(1)]]] assms(4)]
    by (simp add: cap_rel_def)
  then have cap: "ob_cap (sm_b t) = ob_cap (sm_b m)" by (simp add: ob_rel_def)
  have uw: "unwrapped e" by (rule entry_type_unwrapped [OF assms(2) et])
  show ?thesis
  proof (cases "ti_SerializeBeforeEnqueue ti")
    case False
    show ?thesis
    proof (cases "ti_EnqueuePc ti = 0")
      case True
      with False et assms(1,4) show ?thesis
        by (auto simp: captureEntry_Some object_entry_def object_refs_def intro!: captured_unwritten)
    next
      case pc: False
      with False et assms(4) obtain ok where
        "Run en (ti_EnqueuePc ti) 0 0 0 (m\<lparr>sm_chasedEntry := e\<rparr>) = Some (Inr (ok, t))"
        by (auto simp: captureEntry_Some res_simps)
      with captured_unserialized [OF assms(1) et False pc assms(3) _ assms(5) cap assms(6)] show ?thesis .
    qed
  next
    case True
    from captureEntry_serialized [OF assms(1-5) True et cap uw assms(6)] show ?thesis .
  qed
qed

subsection \<open>The traversal\<close>

text \<open>
  \<open>os\<close> are the entries taken from the queue on the way from \<open>m\<close> to \<open>t\<close>, with their places; \<open>new\<close> are the
  entries that were queued meanwhile.
\<close>

definition traversed :: "run_env \<Rightarrow> type_sem \<Rightarrow> machine \<Rightarrow> (QueueEntry \<times> nat) list \<Rightarrow> machine \<Rightarrow> bool" where
  "traversed en sem m os t \<longleftrightarrow> idle en t \<and> ob_cap (sm_b t) = ob_cap (sm_b m) \<and>
     in_order en sem (ob_len (sm_b m)) os (ob_len (sm_b t)) \<and>
     (\<forall>(e, p) \<in> set os. placed en sem (sm_b t) e p \<and>
        key_of ` pushed (object_refs en sem e) \<subseteq> qu_seen (sm_q t)) \<and>
     take (ob_len (sm_b m)) (ob_arr (sm_b t)) = take (ob_len (sm_b m)) (ob_arr (sm_b m)) \<and>
     (\<exists>new. queue_list (sm_q m) @ new = map fst os @ queue_list (sm_q t) \<and> distinct (map key_of new) \<and>
        key_of ` set new \<inter> qu_seen (sm_q m) = {} \<and> qu_seen (sm_q t) = qu_seen (sm_q m) \<union> key_of ` set new) \<and>
     fst ` set os \<union> set (queue_list (sm_q t)) \<subseteq> heap_reach en sem (set (queue_list (sm_q m)))"

lemma traversedD:
  assumes "traversed en sem m os t"
  shows "idle en t" "ob_cap (sm_b t) = ob_cap (sm_b m)"
    and "in_order en sem (ob_len (sm_b m)) os (ob_len (sm_b t))"
    and "\<forall>(e, p) \<in> set os. placed en sem (sm_b t) e p \<and>
        key_of ` pushed (object_refs en sem e) \<subseteq> qu_seen (sm_q t)"
    and "take (ob_len (sm_b m)) (ob_arr (sm_b t)) = take (ob_len (sm_b m)) (ob_arr (sm_b m))"
    and "\<exists>new. queue_list (sm_q m) @ new = map fst os @ queue_list (sm_q t) \<and> distinct (map key_of new) \<and>
        key_of ` set new \<inter> qu_seen (sm_q m) = {} \<and> qu_seen (sm_q t) = qu_seen (sm_q m) \<union> key_of ` set new"
    and "fst ` set os \<union> set (queue_list (sm_q t)) \<subseteq> heap_reach en sem (set (queue_list (sm_q m)))"
  using assms unfolding traversed_def by - (elim conjE, assumption)+

lemma in_order_le: "in_order en sem lo os hi \<Longrightarrow> lo \<le> hi"
  by (induction os arbitrary: lo) fastforce+

lemma in_order_member: "in_order en sem lo os hi \<Longrightarrow> (e, p) \<in> set os \<Longrightarrow> p + extent en sem e \<le> hi"
  by (induction os arbitrary: lo) (auto dest: in_order_le)

lemma in_order_append:
  "in_order en sem lo os mid \<Longrightarrow> in_order en sem mid os' hi \<Longrightarrow> in_order en sem lo (os @ os') hi"
proof (induction os arbitrary: lo)
  case Nil
  then show ?case by (cases os') auto
qed auto

lemma heap_reach_trans:
  assumes "S \<subseteq> heap_reach en sem R"
  shows "heap_reach en sem S \<subseteq> heap_reach en sem R"
proof
  fix e
  assume "e \<in> heap_reach en sem S"
  then show "e \<in> heap_reach en sem R"
    by induction (use assms in \<open>auto intro: heap_reach.intros\<close>)
qed

lemma object_entry_unwrapped:
  assumes "small_types en" "object_entry en sem e0 = Some (h, bs)"
  shows "unwrapped h"
  using entry_type_unwrapped [OF assms(1)] assms(2)
  by (auto simp: object_entry_def split: option.splits if_splits)

lemma placed_take:
  assumes "small_types en" "placed en sem b e p" "take n (ob_arr b') = take n (ob_arr b)" "n \<le> ob_cap b'"
    and "p + extent en sem e \<le> n"
  shows "placed en sem b' e p"
proof (cases "object_entry en sem e")
  case (Some x)
  obtain h bs where x: "x = (h, bs)" by fastforce
  have "16 + length bs \<le> extent en sem e"
    using entry_len_bounds(1) [OF object_entry_unwrapped [OF assms(1) Some [unfolded x]]] assms(2) Some x
    by (simp add: placed_def extent_def)
  with assms(2-5) Some x show ?thesis by (auto simp: placed_def intro: entry_at_take)
qed (simp add: placed_def)

lemma traversed_refl:
  assumes "idle en m"
  shows "traversed en sem m [] m"
  using assms by (auto simp: traversed_def intro: heap_root)

lemma traversed_trans:
  assumes "small_types en" "traversed en sem m os u" "traversed en sem u os' t"
  shows "traversed en sem m (os @ os') t"
proof -
  note a = traversedD [OF assms(2)] and b = traversedD [OF assms(3)]
  note le = in_order_le [OF a(3)] in_order_le [OF b(3)]
  from a(6) obtain n where
    n: "queue_list (sm_q m) @ n = map fst os @ queue_list (sm_q u)" "distinct (map key_of n)"
      "key_of ` set n \<inter> qu_seen (sm_q m) = {}" "qu_seen (sm_q u) = qu_seen (sm_q m) \<union> key_of ` set n"
    by (elim conjE exE)
  from b(6) obtain n' where
    n': "queue_list (sm_q u) @ n' = map fst os' @ queue_list (sm_q t)" "distinct (map key_of n')"
      "key_of ` set n' \<inter> qu_seen (sm_q u) = {}" "qu_seen (sm_q t) = qu_seen (sm_q u) \<union> key_of ` set n'"
    by (elim conjE exE)
  have cap: "ob_len (sm_b u) \<le> ob_cap (sm_b t)"
    using a(1) b(2) by (simp add: idle_def machine_wf_def ob_wf_def)
  have placed: "placed en sem (sm_b t) e p" if "(e, p) \<in> set os" for e p
    by (rule placed_take [OF assms(1) _ b(5) cap in_order_member [OF a(3) that]]) (use a(4) that in auto)
  have q: "queue_list (sm_q m) @ n @ n' = map fst (os @ os') @ queue_list (sm_q t)"
      "distinct (map key_of (n @ n'))" "key_of ` set (n @ n') \<inter> qu_seen (sm_q m) = {}"
      "qu_seen (sm_q t) = qu_seen (sm_q m) \<union> key_of ` set (n @ n')"
    subgoal unfolding append.assoc [symmetric] n(1) by (simp add: n'(1))
    subgoal using n(2,4) n'(2,3) by auto
    subgoal using n(3,4) n'(3) by auto
    subgoal using n(4) n'(4) by auto
    done
  have pre: "take (ob_len (sm_b m)) (ob_arr (sm_b t)) = take (ob_len (sm_b m)) (ob_arr (sm_b m))"
    using a(5) arg_cong [OF b(5), of "take (ob_len (sm_b m))"] le by (simp add: min_absorb1)
  have u: "set (queue_list (sm_q u)) \<subseteq> heap_reach en sem (set (queue_list (sm_q m)))"
    by (rule subset_trans [OF Un_upper2 a(7)])
  have reach: "fst ` set (os @ os') \<union> set (queue_list (sm_q t)) \<subseteq> heap_reach en sem (set (queue_list (sm_q m)))"
    using subset_trans [OF Un_upper1 a(7)] subset_trans [OF b(7) heap_reach_trans [OF u]]
    by (simp add: image_Un)
  have each: "\<forall>(e, p) \<in> set (os @ os'). placed en sem (sm_b t) e p \<and>
      key_of ` pushed (object_refs en sem e) \<subseteq> qu_seen (sm_q t)"
  proof (rule ballI)
    fix x
    assume "x \<in> set (os @ os')"
    moreover obtain e p where x: "x = (e, p)" by fastforce
    ultimately consider "(e, p) \<in> set os" | "(e, p) \<in> set os'" by auto
    then show "case x of (e, p) \<Rightarrow> placed en sem (sm_b t) e p \<and>
        key_of ` pushed (object_refs en sem e) \<subseteq> qu_seen (sm_q t)"
    proof cases
      case 1
      from bspec [OF a(4) 1] placed [OF 1] show ?thesis unfolding x n'(4) by blast
    next
      case 2
      from bspec [OF b(4) 2] show ?thesis unfolding x .
    qed
  qed
  show ?thesis
    unfolding traversed_def
    by (intro conjI exI [of _ "n @ n'"])
      (rule b(1), simp only: a(2) b(2), rule in_order_append [OF a(3) b(3)], rule each, rule pre, (rule q)+, rule reach)
qed

lemma captured_traversed:
  assumes "captured en sem e m1 t" "m1 = m\<lparr>sm_q := q'\<rparr>"
    and q: "queue_list (sm_q m) = e # queue_list q'" "qu_seen q' = qu_seen (sm_q m)"
  shows "traversed en sem m [(e, ob_len (sm_b m))] t"
proof -
  note c = assms(1) [unfolded captured_def assms(2), simplified]
  from c obtain new where
    new: "queue_list (sm_q t) = queue_list q' @ new" "distinct (map key_of new)"
      "set new \<subseteq> pushed (object_refs en sem e)"
      "key_of ` set new = key_of ` pushed (object_refs en sem e) - qu_seen q'"
      "qu_seen (sm_q t) = qu_seen q' \<union> key_of ` pushed (object_refs en sem e)"
    unfolding queue_grown_def by (elim conjE exE)
  define R where "R = heap_reach en sem (set (queue_list (sm_q m)))"
  have e: "e \<in> R" "set (queue_list q') \<subseteq> R"
    using heap_root [of _ "set (queue_list (sm_q m))"] by (auto simp: R_def q(1))
  have refs: "pushed (object_refs en sem e) \<subseteq> R"
    using heap_ref [of e en sem "set (queue_list (sm_q m))"] e(1) by (auto simp: R_def)
  have reach: "fst ` set [(e, ob_len (sm_b m))] \<union> set (queue_list (sm_q t)) \<subseteq> R"
    using e refs new(3) by (simp add: new(1))
  have new': "queue_list (sm_q m) @ new = map fst [(e, ob_len (sm_b m))] @ queue_list (sm_q t)"
      "key_of ` set new \<inter> qu_seen (sm_q m) = {}" "qu_seen (sm_q t) = qu_seen (sm_q m) \<union> key_of ` set new"
    subgoal by (simp add: q(1) new(1))
    subgoal unfolding new(4) q(2) by blast
    subgoal unfolding new(4,5) q(2) by blast
    done
  show ?thesis
    unfolding traversed_def
    by (intro conjI exI [of _ new])
      (use c new(5) in simp, use c in simp, use c in simp, use c new(5) in simp, use c in simp,
        rule new'(1), rule new(2), rule new'(2), rule new'(3), rule reach [unfolded R_def])
qed

definition traversable :: "run_env \<Rightarrow> type_sem \<Rightarrow> QueueEntry set \<Rightarrow> machine \<Rightarrow> bool" where
  "traversable en sem E m \<longleftrightarrow> idle en m \<and> small_types en \<and> type_programs en sem E \<and> closed_refs en sem E \<and>
     set (queue_list (sm_q m)) \<subseteq> E"

definition traverses :: "run_env \<Rightarrow> type_sem \<Rightarrow> QueueEntry set \<Rightarrow> machine \<Rightarrow> machine \<Rightarrow> bool" where
  "traverses en sem E m t \<longleftrightarrow> pq_rel m t \<and>
     (traversable en sem E m \<and> \<not> full (sm_b t) \<longrightarrow> (\<exists>os. traversed en sem m os t))"

lemma traversableD:
  assumes "traversable en sem E m"
  shows "idle en m" "small_types en" "type_programs en sem E" "closed_refs en sem E"
    and "set (queue_list (sm_q m)) \<subseteq> E"
  using assms by (simp_all add: traversable_def)

lemma traversed_traversable:
  assumes "traversable en sem E m" "traversed en sem m os t"
  shows "traversable en sem E t"
proof -
  have "set (queue_list (sm_q t)) \<subseteq> E"
    using traversedD(7) [OF assms(2)] heap_reach_least [OF traversableD(4,5) [OF assms(1)]]
    by (meson Un_subset_iff subset_trans)
  with traversedD(1) [OF assms(2)] traversableD [OF assms(1)] show ?thesis by (simp add: traversable_def)
qed

lemma processStep_traverses:
  assumes "machine_wf m" "processStep en m = Some (Inr (again, t))"
  shows "traverses en sem E m t"
  unfolding traverses_def
proof (intro conjI impI)
  show "pq_rel m t" using processStep_spec [OF assms] by blast
  assume pre: "traversable en sem E m \<and> \<not> full (sm_b t)"
  note d = traversableD [OF conjunct1 [OF pre]]
  show "\<exists>os. traversed en sem m os t"
  proof (cases again)
    case False
    with processStep_spec [OF assms] traversed_refl [OF d(1)] show ?thesis by blast
  next
    case True
    have nf: "\<not> full (sm_b m)" using True assms(2) by (auto simp: processStep_def)
    obtain e q' where q': "queue_Pop (sm_q m) = Inr (Some e, q')" "captureEntry en e (m\<lparr>sm_q := q'\<rparr>) = Some (Inr t)"
      using assms(2) True nf by (auto simp: processStep_def res_simps Let_def split: option.splits)
    note pop = backlog_pop [OF idle_wf(2) [OF d(1)] q'(1)]
    have "idle en (m\<lparr>sm_q := q'\<rparr>)" using d(1) pop(2) by (simp add: idle_def machine_wf_def)
    moreover have "e \<in> E" using d(5) pop(4) by simp
    ultimately have "captured en sem e (m\<lparr>sm_q := q'\<rparr>) t"
      using captureEntry_captured [OF _ d(2,3) q'(2)] pre by blast
    from captured_traversed [OF this refl] pop(3,4) show ?thesis by blast
  qed
qed

lemma traverses_refl: "traverses en sem E m m"
  using traversed_refl by (auto simp: traverses_def traversable_def pq_rel_refl)

lemma traverses_trans:
  assumes "traverses en sem E m u" "traverses en sem E u t"
  shows "traverses en sem E m t"
  unfolding traverses_def
proof (intro conjI impI)
  have pq: "pq_rel m u" "pq_rel u t" using assms by (simp_all add: traverses_def)
  then show "pq_rel m t" by (rule pq_rel_trans)
  assume pre: "traversable en sem E m \<and> \<not> full (sm_b t)"
  note d = traversableD [OF conjunct1 [OF pre]]
  have "\<not> full (sm_b u)" using pre pq idle_wf(3) [OF d(1)] by (auto simp: pq_rel_def ob_rel_def full_def)
  with pre assms(1) obtain os where os: "traversed en sem m os u" by (auto simp: traverses_def)
  from assms(2) pre traversed_traversable [OF conjunct1 [OF pre] os] obtain os' where
    "traversed en sem u os' t" by (auto simp: traverses_def)
  with traversed_trans [OF d(2) os] show "\<exists>os. traversed en sem m os t" by blast
qed

interpretation PQT: loop_inv "processStep en" machine_wf "traverses en sem E" for en sem E
  by unfold_locales
    (use traverses_refl traverses_trans processStep_traverses processStep_spec in blast)+

lemma processQueue_traversed:
  assumes "traversable en sem E m" "processQueue en m = Some (Inr t)" "\<not> full (sm_b t)"
  obtains os where "traversed en sem m os t" "queue_list (sm_q t) = []"
proof -
  have wf: "machine_wf m" by (rule idle_wf(3) [OF traversableD(1) [OF assms(1)]])
  have loop: "loopR (processStep en) m = Some (Inr t)" using assms(2) by (simp add: processQueue_def)
  from PQT.loop_step [OF loop wf, of sem E] assms
  obtain os where "traversed en sem m os t" by (auto simp: traverses_def)
  moreover have "queue_list (sm_q t) = []" using processQueue_result [OF wf assms(2)] assms(3) by blast
  ultimately show thesis by (rule that)
qed

text \<open>
  What the objects of a finished traversal are: in order and disjoint in the part of the buffer that the
  traversal wrote, each key once; the roots and only what is reachable from them; and closed under
  references, up to what had been seen before.
\<close>

definition object_graph :: "run_env \<Rightarrow> type_sem \<Rightarrow> machine \<Rightarrow> (QueueEntry \<times> nat) list \<Rightarrow> machine \<Rightarrow> bool" where
  "object_graph en sem m os t \<longleftrightarrow>
     in_order en sem (ob_len (sm_b m)) os (ob_len (sm_b t)) \<and>
     (\<forall>(e, p) \<in> set os. placed en sem (sm_b t) e p) \<and>
     distinct (map (key_of \<circ> fst) os) \<and>
     set (queue_list (sm_q m)) \<subseteq> fst ` set os \<and>
     fst ` set os \<subseteq> heap_reach en sem (set (queue_list (sm_q m))) \<and>
     (\<forall>e \<in> fst ` set os. key_of ` pushed (object_refs en sem e) \<subseteq> key_of ` fst ` set os \<union> qu_seen (sm_q m))"

lemma processQueue_graph:
  assumes "idle en m" "small_types en"
    and "type_programs en sem (heap_reach en sem (set (queue_list (sm_q m))))"
    and "processQueue en m = Some (Inr t)" "\<not> full (sm_b t)"
  obtains os where "object_graph en sem m os t"
    "take (ob_len (sm_b m)) (ob_data (sm_b t)) = ob_data (sm_b m)" "queue_list (sm_q t) = []"
proof -
  have "traversable en sem (heap_reach en sem (set (queue_list (sm_q m)))) m"
    using assms(1-3) heap_reach_closed by (auto simp: traversable_def intro: heap_root)
  then obtain os where os: "traversed en sem m os t" and q: "queue_list (sm_q t) = []"
    by (rule processQueue_traversed [OF _ assms(4,5)])
  note d = traversedD [OF os]
  from d(6) q obtain new where
    new: "queue_list (sm_q m) @ new = map fst os" "distinct (map key_of new)"
      "key_of ` set new \<inter> qu_seen (sm_q m) = {}" "qu_seen (sm_q t) = qu_seen (sm_q m) \<union> key_of ` set new"
    by auto
  have "distinct (map key_of (queue_list (sm_q m) @ new))"
    using idle_wf(2) [OF assms(1)] new(2,3) by (auto simp: queue_wf_def)
  then have dist: "distinct (map (key_of \<circ> fst) os)" unfolding new(1) by simp
  have set_os: "fst ` set os = set (queue_list (sm_q m)) \<union> set new"
    using arg_cong [OF new(1), of set] by simp
  have placed: "\<forall>(e, p) \<in> set os. placed en sem (sm_b t) e p" using d(4) by blast
  have closed: "key_of ` pushed (object_refs en sem e) \<subseteq> key_of ` fst ` set os \<union> qu_seen (sm_q m)"
    if "e \<in> fst ` set os" for e
  proof -
    from that obtain p where "(e, p) \<in> set os" by auto
    from bspec [OF d(4) this] show ?thesis unfolding set_os new(4) image_Un by blast
  qed
  have graph: "object_graph en sem m os t"
    unfolding object_graph_def using d(3) placed dist set_os d(7) closed by simp
  have "ob_len (sm_b m) \<le> ob_len (sm_b t)" by (rule in_order_le [OF d(3)])
  then have "take (ob_len (sm_b m)) (ob_data (sm_b t)) = ob_data (sm_b m)"
    using d(5) by (simp add: ob_data_def min_absorb1)
  with graph q that show thesis by blast
qed

end
