(* ===== verification/Type_Programs.thy ===== *)
theory Type_Programs
  imports Snapshot_Heap
begin

text \<open>
  The operations of the programs of types: the enqueue operations of the stack machine on the bytes of an
  object. \<open>op_sem\<close> is what an operation means for
  the bytes and which objects it pushes; the interpreter implements it. Theory Type_Code puts them together to
  programs.
\<close>

subsection \<open>What the operations mean\<close>

definition u64_at :: "u8 list \<Rightarrow> nat \<Rightarrow> u64" where
  "u64_at bs o' = le_word (sub bs o' 8)"

text \<open>The types of the first module: \<open>None\<close> when the memory of its module data cannot be read.\<close>

definition module_range :: "run_env \<Rightarrow> (u64 \<times> u64) option" where
  "module_range en =
     (case sp_RuntimeConfig (en_p en) of
        None \<Rightarrow> None
      | Some cfg \<Rightarrow>
          (let c = gr_cfg (makeGoRuntimeTypeResolver cfg (en_md en)) in
           case load_u64 (en_mem en) (en_md en + mc_typesOffset c) of
             Inl _ \<Rightarrow> None
           | Inr t \<Rightarrow>
               (case load_u64 (en_mem en) (en_md en + mc_etypesOffset c) of Inl _ \<Rightarrow> None | Inr e \<Rightarrow> Some (t, e))))"

definition runtime_type :: "run_env \<Rightarrow> u64 \<Rightarrow> u64" where
  "runtime_type en a =
     (case module_range en of None \<Rightarrow> 0 | Some (t, e) \<Rightarrow> if a < t \<or> a \<ge> e then 0 else a - t)"

definition enqueue_typed :: "run_env \<Rightarrow> u64 \<Rightarrow> u64 \<Rightarrow> QueueEntry list" where
  "enqueue_typed en rt data =
     (let t = ResolveGoRuntimeTypeToTypeId (en_t en) rt in
      if t = 0 then [] else [\<lparr>qe_Type = t, qe_Len = 0, qe_Addr = data\<rparr>])"

text \<open>
  The bytes after the operation and what it pushes. The type pointer of an interface is replaced by the
  runtime type; that of a non-empty interface is read through its itab.
\<close>

fun op_sem :: "run_env \<Rightarrow> AnyOp \<Rightarrow> nat \<Rightarrow> u8 list \<Rightarrow> u8 list \<times> QueueEntry list" where
  "op_sem en (AEnqueuePointer r) o' bs =
     (bs, [\<lparr>qe_Type = enqPtr_ElemType r, qe_Len = 0, qe_Addr = u64_at bs o'\<rparr>])"
| "op_sem en (AEnqueueSliceHeader r) o' bs =
     (bs, let len = u64_at bs (o' + 8) in
        if sint len > 0 \<and> enqSlice_ElemByteLen r > 0 then
          [\<lparr>qe_Type = enqSlice_ArrayType r, qe_Len = ucast (len * ucast (enqSlice_ElemByteLen r)),
            qe_Addr = u64_at bs o'\<rparr>]
        else [])"
| "op_sem en (AEnqueueStringHeader r) o' bs =
     (bs, let len = u64_at bs (o' + 8) in
        if sint len > 0 then [\<lparr>qe_Type = enqStr_StringDataType r, qe_Len = ucast len, qe_Addr = u64_at bs o'\<rparr>]
        else [])"
| "op_sem en AEnqueueEmptyInterface o' bs =
     (if u64_at bs o' = 0 then (bs, [])
      else
        (let rt = runtime_type en (u64_at bs o') in
         (blit bs o' (le_bytes 8 rt), enqueue_typed en rt (u64_at bs (o' + 8)))))"
| "op_sem en AEnqueueInterface o' bs =
     (if u64_at bs o' = 0 then (bs, [])
      else
        (case Dereference (en_mem en) (u64_at bs o' + 8) 8 of
           None \<Rightarrow> (blit bs o' (replicate 8 0), [])
         | Some tb \<Rightarrow>
             (let rt = runtime_type en (le_word tb) in
              (blit bs o' (le_bytes 8 rt), enqueue_typed en rt (u64_at bs (o' + 8))))))"
| "op_sem en (AEnqueueSwissMap p) o' bs =
     (bs, let ptr = u64_at bs (o' + unat (swiss_DirPtrOffset p)); len = u64_at bs (o' + unat (swiss_DirLenOffset p)) in
        if sint len > 0 then [\<lparr>qe_Type = swiss_TablePtrSliceType p, qe_Len = ucast (8 * len), qe_Addr = ptr\<rparr>]
        else [\<lparr>qe_Type = swiss_GroupType p, qe_Len = 0, qe_Addr = ptr\<rparr>])"
| "op_sem en (AEnqueueSwissMapGroups p) o' bs =
     (bs, [\<lparr>qe_Type = groups_GroupSliceType p,
            qe_Len = groups_GroupByteLen p * (ucast (u64_at bs (o' + unat (groups_LengthMaskOffset p))) + 1),
            qe_Addr = u64_at bs (o' + unat (groups_DataOffset p))\<rparr>])"
| "op_sem en _ o' bs = (bs, [])"

fun op_advance :: "AnyOp \<Rightarrow> nat \<Rightarrow> nat" where
  "op_advance (AAdvanceOffset r) o' = o' + unat (adv_Increment r)"
| "op_advance _ o' = o'"

text \<open>The operations of a program, with their operands inside an object of \<open>n\<close> bytes.\<close>

fun op_fits :: "run_env \<Rightarrow> AnyOp \<Rightarrow> nat \<Rightarrow> nat \<Rightarrow> bool" where
  "op_fits en (AEnqueuePointer r) o' n \<longleftrightarrow> enqPtr_ElemType r \<noteq> 0 \<and> o' + 8 \<le> n"
| "op_fits en (AEnqueueSliceHeader r) o' n \<longleftrightarrow> o' + 16 \<le> n"
| "op_fits en (AEnqueueStringHeader r) o' n \<longleftrightarrow> o' + 16 \<le> n"
| "op_fits en AEnqueueEmptyInterface o' n \<longleftrightarrow> o' + 16 \<le> n \<and> module_range en \<noteq> None"
| "op_fits en AEnqueueInterface o' n \<longleftrightarrow> o' + 16 \<le> n \<and> module_range en \<noteq> None"
| "op_fits en (AEnqueueSwissMap p) o' n \<longleftrightarrow>
     o' + unat (swiss_DirPtrOffset p) + 8 \<le> n \<and> o' + unat (swiss_DirLenOffset p) + 8 \<le> n"
| "op_fits en (AEnqueueSwissMapGroups p) o' n \<longleftrightarrow>
     o' + unat (groups_DataOffset p) + 8 \<le> n \<and> o' + unat (groups_LengthMaskOffset p) + 8 \<le> n"
| "op_fits en (AAdvanceOffset r) o' n \<longleftrightarrow> o' + unat (adv_Increment r) \<le> n"
| "op_fits en _ o' n \<longleftrightarrow> False"

subsection \<open>A machine on an object\<close>

definition on_object :: "run_env \<Rightarrow> nat \<Rightarrow> nat \<Rightarrow> u8 list \<Rightarrow> machine \<Rightarrow> bool" where
  "on_object en base o' bs m \<longleftrightarrow> machine_wf m \<and> resolver_current en (sm_g m) \<and>
     base + length bs \<le> ob_len (sm_b m) \<and> sub (ob_arr (sm_b m)) base (length bs) = bs \<and>
     o' \<le> length bs \<and> unat (sm_offset m) = base + o'"

text \<open>The machine after an operation, whose encoding is followed by \<open>rest\<close>.\<close>

definition object_step ::
  "run_env \<Rightarrow> nat \<Rightarrow> machine \<Rightarrow> nat \<Rightarrow> u8 list \<Rightarrow> QueueEntry list \<Rightarrow> machine \<Rightarrow> bool" where
  "object_step en base m o' bs' refs m' \<longleftrightarrow> on_object en base o' bs' m' \<and>
     sm_b m' = (sm_b m)\<lparr>ob_arr := blit (ob_arr (sm_b m)) base bs'\<rparr> \<and> sm_stack m' = sm_stack m \<and>
     dec_opBuf (sm_decoder m') = dec_opBuf (sm_decoder m) \<and> queue_grown refs (sm_q m) (sm_q m')"

lemma on_object_bounds:
  assumes "on_object en base o' bs m"
  shows "base + length bs \<le> ob_cap (sm_b m)" "ob_cap (sm_b m) \<le> 2 ^ 31" "base + length bs \<le> length (ob_arr (sm_b m))"
    and "queue_wf (sm_q m)" "ob_wf (sm_b m)"
  using assms by (auto simp: on_object_def machine_wf_def ob_wf_def ob_cap_def)

lemma on_object_add:
  assumes "on_object en base o' bs m" "o' + unat x \<le> length bs"
  shows "unat (sm_offset m + x) = base + (o' + unat x)"
  using assms on_object_bounds(1,2) [OF assms(1)] by (subst unat_add_u32) (auto simp: on_object_def)

lemma blit_in_sub:
  assumes "i + l \<le> length xs" "k + length ys \<le> l"
  shows "blit xs i (blit (sub xs i l) k ys) = blit xs (i + k) ys"
  using assms by (intro nth_equalityI) (auto simp: nth_blit nth_sub)

lemma blit_own: "i + l \<le> length xs \<Longrightarrow> blit xs i (sub xs i l) = xs"
  by (intro nth_equalityI) (auto simp: nth_blit nth_sub)

lemma blit_again: "i + length ys \<le> length xs \<Longrightarrow> length zs = length ys \<Longrightarrow> blit (blit xs i ys) i zs = blit xs i zs"
  by (intro nth_equalityI) (auto simp: nth_blit)

lemma on_object_load:
  assumes "on_object en base o' bs m" "k + 8 \<le> length bs"
  shows "ob_load64 (base + k) (sm_b m) = Inr (u64_at bs k)"
proof -
  have "sub bs k 8 = sub (ob_arr (sm_b m)) (base + k) 8"
    using assms sub_sub [of k 8 "length bs" "ob_arr (sm_b m)" base] by (simp add: on_object_def)
  then show ?thesis
    using assms on_object_bounds(1) [OF assms(1)] by (simp add: ob_load64_def ob_load_def u64_at_def)
qed

lemma on_object_store:
  assumes "on_object en base o' bs m" "k + length ys \<le> length bs"
  defines "b \<equiv> (sm_b m)\<lparr>ob_arr := blit (ob_arr (sm_b m)) base (blit bs k ys)\<rparr>"
  shows "ob_store (base + k) ys (sm_b m) = Inr b" "on_object en base o' (blit bs k ys) (m\<lparr>sm_b := b\<rparr>)"
proof -
  note bd = on_object_bounds [OF assms(1)]
  have "blit (ob_arr (sm_b m)) base (blit bs k ys) = blit (ob_arr (sm_b m)) (base + k) ys"
    using blit_in_sub [of base "length bs" "ob_arr (sm_b m)" k ys] assms(1,2) bd(3) by (simp add: on_object_def)
  then show "ob_store (base + k) ys (sm_b m) = Inr b"
    using assms(2) bd(1) by (simp add: ob_store_def b_def)
  have len: "length (blit bs k ys) = length bs" using assms(2) by simp
  have fit: "base + length (blit bs k ys) \<le> length (ob_arr (sm_b m))" using bd(3) len by simp
  have "ob_wf b" using bd(1,5) fit by (simp add: b_def ob_wf_def ob_cap_def)
  then show "on_object en base o' (blit bs k ys) (m\<lparr>sm_b := b\<rparr>)"
    using assms(1) sub_blit_sameI [OF fit refl] len
    by (simp add: on_object_def machine_wf_def b_def)
qed

text \<open>Steps compose, and a step that leaves the bytes as they are is one.\<close>

lemma object_step_refl:
  assumes "on_object en base o' bs m"
  shows "object_step en base m o' bs [] m"
proof -
  have "blit (ob_arr (sm_b m)) base bs = ob_arr (sm_b m)"
    using blit_own [OF on_object_bounds(3) [OF assms]] assms by (simp add: on_object_def)
  with assms on_object_bounds(4) [OF assms] show ?thesis by (simp add: object_step_def queue_grown_refl)
qed

lemma object_step_trans:
  assumes "object_step en base m o1 bs1 r1 m1" "object_step en base m1 o2 bs2 r2 m2"
    and "length bs2 = length bs1" "base + length bs1 \<le> length (ob_arr (sm_b m))"
  shows "object_step en base m o2 bs2 (r1 @ r2) m2"
  using assms blit_again [of base bs1 "ob_arr (sm_b m)" bs2]
  by (auto simp: object_step_def intro: queue_grown_trans)

lemma object_step_push:
  assumes "object_step en base m o' bs [] m1"
  obtains m2 where "m_push a t n m1 = Inr m2" "object_step en base m o' bs [\<lparr>qe_Type = t, qe_Len = n, qe_Addr = a\<rparr>] m2"
    "sm_decoder m2 = sm_decoder m1"
proof -
  from assms have on: "on_object en base o' bs m1" by (simp add: object_step_def)
  obtain q where q: "queue_Push a t n (sm_q m1) = Inr (True, q)"
      "queue_grown [\<lparr>qe_Type = t, qe_Len = n, qe_Addr = a\<rparr>] (sm_q m1) q"
    by (rule queue_Push_grown [OF on_object_bounds(4) [OF on]])
  from assms have "queue_grown [] (sm_q m) (sm_q m1)" by (simp add: object_step_def)
  from queue_grown_trans [OF this q(2)]
  have grown: "queue_grown [\<lparr>qe_Type = t, qe_Len = n, qe_Addr = a\<rparr>] (sm_q m) q" by simp
  then have "queue_wf q" by (simp add: queue_grown_def)
  with assms grown have "object_step en base m o' bs [\<lparr>qe_Type = t, qe_Len = n, qe_Addr = a\<rparr>] (m1\<lparr>sm_q := q\<rparr>)"
    by (auto simp: object_step_def on_object_def machine_wf_def)
  with q(1) show thesis by (intro that [of "m1\<lparr>sm_q := q\<rparr>"]) (simp_all add: m_push_def)
qed

lemma object_step_decoder:
  assumes "object_step en base m o' bs r m1" "dec_opBuf d = dec_opBuf (sm_decoder m1)"
  shows "object_step en base m o' bs r (m1\<lparr>sm_decoder := d\<rparr>)"
  using assms by (auto simp: object_step_def on_object_def machine_wf_def)

text \<open>The operand of an operation, decoded.\<close>

definition decoded :: "u32 \<Rightarrow> machine \<Rightarrow> machine" where
  "decoded k m = m\<lparr>sm_decoder := advance k (sm_decoder m)\<rparr>"

lemma decoded_simps [simp]:
  "sm_b (decoded k m) = sm_b m" "sm_offset (decoded k m) = sm_offset m" "sm_g (decoded k m) = sm_g m"
  "sm_q (decoded k m) = sm_q m" "sm_stack (decoded k m) = sm_stack m"
  "decoded i (decoded k m) = decoded (k + i) m"
  by (simp_all add: decoded_def advance_def add.assoc)

lemma m_decode_operand:
  "at_pc (sm_decoder m) (operand_bytes (AEnqueuePointer r1) @ bs) \<Longrightarrow>
    m_decode DecodeEnqueuePointer m = Inr (r1, decoded 4 m) \<and> at_pc (sm_decoder (decoded 4 m)) bs"
  "at_pc (sm_decoder m) (operand_bytes (AEnqueueSliceHeader r2) @ bs) \<Longrightarrow>
    m_decode DecodeEnqueueSliceHeader m = Inr (r2, decoded 8 m) \<and> at_pc (sm_decoder (decoded 8 m)) bs"
  "at_pc (sm_decoder m) (operand_bytes (AEnqueueStringHeader r3) @ bs) \<Longrightarrow>
    m_decode DecodeEnqueueStringHeader m = Inr (r3, decoded 4 m) \<and> at_pc (sm_decoder (decoded 4 m)) bs"
  "at_pc (sm_decoder m) (operand_bytes (AEnqueueSwissMap r4) @ bs) \<Longrightarrow>
    m_decode DecodeEnqueueSwissMap m = Inr (r4, decoded 10 m) \<and> at_pc (sm_decoder (decoded 10 m)) bs"
  "at_pc (sm_decoder m) (operand_bytes (AEnqueueSwissMapGroups r5) @ bs) \<Longrightarrow>
    m_decode DecodeEnqueueSwissMapGroups m = Inr (r5, decoded 10 m) \<and> at_pc (sm_decoder (decoded 10 m)) bs"
  "at_pc (sm_decoder m) (operand_bytes (AAdvanceOffset r6) @ bs) \<Longrightarrow>
    m_decode DecodeAdvanceOffset m = Inr (r6, decoded 4 m) \<and> at_pc (sm_decoder (decoded 4 m)) bs"
  "m_decode DecodeEnqueueEmptyInterface m = Inr ((), m)"
  using at_pc_advance [of "sm_decoder m" "operand_bytes (AEnqueuePointer r1)" bs]
    at_pc_advance [of "sm_decoder m" "operand_bytes (AEnqueueSliceHeader r2)" bs]
    at_pc_advance [of "sm_decoder m" "operand_bytes (AEnqueueStringHeader r3)" bs]
    at_pc_advance [of "sm_decoder m" "operand_bytes (AEnqueueSwissMap r4)" bs]
    at_pc_advance [of "sm_decoder m" "operand_bytes (AEnqueueSwissMapGroups r5)" bs]
    at_pc_advance [of "sm_decoder m" "operand_bytes (AAdvanceOffset r6)" bs]
  by (simp_all add: m_decode_def decoded_def Decode_defs dec_at)

text \<open>What a step does: the next machine, at the next operation.\<close>

definition steps_to ::
  "run_env \<Rightarrow> u32 \<Rightarrow> u32 \<Rightarrow> nat \<Rightarrow> machine \<Rightarrow> nat \<Rightarrow> u8 list \<times> QueueEntry list \<Rightarrow> u8 list \<Rightarrow> machine \<Rightarrow> bool" where
  "steps_to en pc depth base m o' r rest m' \<longleftrightarrow> step en pc depth m = Some (Inr (Next, m')) \<and>
     object_step en base m o' (fst r) (snd r) m' \<and> at_pc (sm_decoder m') rest"

text \<open>
  The proofs about the operations with operands share their start: the step executes the operation on a
  machine with the operands still ahead, and with the operands decoded nothing else has changed.
\<close>

lemma step_decoded:
  assumes "on_object en base o' bs m" "at_pc (sm_decoder m) (op_bytes a @ rest)"
  shows "step en pc depth m = exec_op en pc depth (code_of a) (decoded 1 m)"
    and "at_pc (sm_decoder (decoded 1 m)) (operand_bytes a @ rest)"
    and "object_step en base m o' bs [] (decoded k m)"
    and "Ptr (sm_offset m) = base + o'"
proof -
  show "step en pc depth m = exec_op en pc depth (code_of a) (decoded 1 m)"
    using step_op(1) [OF assms(2)] by (simp add: decoded_def)
  show "at_pc (sm_decoder (decoded 1 m)) (operand_bytes a @ rest)"
    using step_op(2) [OF assms(2)] by (simp add: decoded_def)
  show "object_step en base m o' bs [] (decoded k m)"
    unfolding decoded_def by (rule object_step_decoder [OF object_step_refl [OF assms(1)]]) simp
  show "Ptr (sm_offset m) = base + o'" using assms(1) by (simp add: on_object_def Ptr_def)
qed

lemma steps_toI:
  assumes "step en pc depth m = Some (Inr (Next, m'))" "object_step en base m o' bs' refs m'"
    and "at_pc (sm_decoder m') rest" "r = (bs', refs)"
  shows "\<exists>m'. steps_to en pc depth base m o' r rest m'"
  using assms by (auto simp: steps_to_def)

lemma step_AEnqueuePointer:
  assumes "on_object en base o' bs m" "op_fits en (AEnqueuePointer r) o' (length bs)"
    and "at_pc (sm_decoder m) (op_bytes (AEnqueuePointer r) @ rest)"
  shows "\<exists>m'. steps_to en pc depth base m o' (op_sem en (AEnqueuePointer r) o' bs) rest m'"
proof -
  note s = step_decoded [OF assms(1,3)]
  note dec = m_decode_operand(1) [OF s(2)]
  obtain m' where m': "m_push (u64_at bs o') (enqPtr_ElemType r) 0 (decoded 5 m) = Inr m'"
    "object_step en base m o' bs [\<lparr>qe_Type = enqPtr_ElemType r, qe_Len = 0, qe_Addr = u64_at bs o'\<rparr>] m'"
    "sm_decoder m' = sm_decoder (decoded 5 m)" by (rule object_step_push [OF s(3)])
  have "step en pc depth m = Some (Inr (Next, m'))"
    using s(1,4) dec m'(1) on_object_load [OF assms(1), of o'] assms(2) by (simp add: exec_EnqueuePointer_def)
  then show ?thesis by (rule steps_toI [OF _ m'(2)]) (use dec m'(3) in auto)
qed

lemma step_AEnqueueSliceHeader:
  assumes "on_object en base o' bs m" "op_fits en (AEnqueueSliceHeader r) o' (length bs)"
    and "at_pc (sm_decoder m) (op_bytes (AEnqueueSliceHeader r) @ rest)"
  shows "\<exists>m'. steps_to en pc depth base m o' (op_sem en (AEnqueueSliceHeader r) o' bs) rest m'"
proof -
  note s = step_decoded [OF assms(1,3)]
  note dec = m_decode_operand(2) [OF s(2)]
  define len where "len = u64_at bs (o' + 8)"
  define n where "n = (ucast (len * ucast (enqSlice_ElemByteLen r)) :: u32)"
  obtain m' where m': "m_push (u64_at bs o') (enqSlice_ArrayType r) n (decoded 9 m) = Inr m'"
    "object_step en base m o' bs [\<lparr>qe_Type = enqSlice_ArrayType r, qe_Len = n, qe_Addr = u64_at bs o'\<rparr>] m'"
    "sm_decoder m' = sm_decoder (decoded 9 m)" by (rule object_step_push [OF s(3)])
  have loads: "ob_load64 (Ptr (sm_offset m + 8)) (sm_b m) = Inr len" "ob_load64 (base + o') (sm_b m) = Inr (u64_at bs o')"
    using on_object_add [OF assms(1), of 8] on_object_load [OF assms(1), of "o' + 8"]
      on_object_load [OF assms(1), of o'] assms(2) by (simp_all add: Ptr_def len_def)
  show ?thesis
  proof (cases "sint len > 0 \<and> enqSlice_ElemByteLen r > 0")
    case True
    then have "step en pc depth m = Some (Inr (Next, m'))"
      using s(1,4) dec m'(1) loads by (simp add: exec_EnqueueSliceHeader_def n_def)
    then show ?thesis by (rule steps_toI [OF _ m'(2)]) (use dec m'(3) True in \<open>auto simp: Let_def len_def n_def\<close>)
  next
    case False
    then have "step en pc depth m = Some (Inr (Next, decoded 9 m))"
      using s(1,4) dec loads by (auto simp: exec_EnqueueSliceHeader_def)
    then show ?thesis by (rule steps_toI [OF _ s(3)]) (use dec False in \<open>auto simp: Let_def len_def\<close>)
  qed
qed

lemma step_AEnqueueStringHeader:
  assumes "on_object en base o' bs m" "op_fits en (AEnqueueStringHeader r) o' (length bs)"
    and "at_pc (sm_decoder m) (op_bytes (AEnqueueStringHeader r) @ rest)"
  shows "\<exists>m'. steps_to en pc depth base m o' (op_sem en (AEnqueueStringHeader r) o' bs) rest m'"
proof -
  note s = step_decoded [OF assms(1,3)]
  note dec = m_decode_operand(3) [OF s(2)]
  define len where "len = u64_at bs (o' + 8)"
  obtain m' where m': "m_push (u64_at bs o') (enqStr_StringDataType r) (ucast len) (decoded 5 m) = Inr m'"
    "object_step en base m o' bs [\<lparr>qe_Type = enqStr_StringDataType r, qe_Len = ucast len, qe_Addr = u64_at bs o'\<rparr>] m'"
    "sm_decoder m' = sm_decoder (decoded 5 m)" by (rule object_step_push [OF s(3)])
  have loads: "ob_load64 (Ptr (sm_offset m + 8)) (sm_b m) = Inr len" "ob_load64 (base + o') (sm_b m) = Inr (u64_at bs o')"
    using on_object_add [OF assms(1), of 8] on_object_load [OF assms(1), of "o' + 8"]
      on_object_load [OF assms(1), of o'] assms(2) by (simp_all add: Ptr_def len_def)
  show ?thesis
  proof (cases "sint len > 0")
    case True
    then have "step en pc depth m = Some (Inr (Next, m'))"
      using s(1,4) dec m'(1) loads by (simp add: exec_EnqueueStringHeader_def)
    then show ?thesis by (rule steps_toI [OF _ m'(2)]) (use dec m'(3) True in \<open>auto simp: Let_def len_def\<close>)
  next
    case False
    then have "step en pc depth m = Some (Inr (Next, decoded 5 m))"
      using s(1,4) dec loads by (auto simp: exec_EnqueueStringHeader_def)
    then show ?thesis by (rule steps_toI [OF _ s(3)]) (use dec False in \<open>auto simp: Let_def len_def\<close>)
  qed
qed

lemma unat_ucast_u8: "unat (ucast (x :: u8) :: u32) = unat x"
  by (simp add: unsigned_ucast_eq take_bit_nat_eq_self less_le_trans [OF unsigned_less])

lemma on_object_load_u8:
  assumes "on_object en base o' bs m" "o' + unat (x :: u8) + 8 \<le> length bs"
  shows "ob_load64 (Ptr (sm_offset m + ucast x)) (sm_b m) = Inr (u64_at bs (o' + unat x))"
  using on_object_add [OF assms(1), of "ucast x"] on_object_load [OF assms(1), of "o' + unat x"] assms(2)
  by (simp add: Ptr_def unat_ucast_u8)

lemma step_AEnqueueSwissMap:
  assumes "on_object en base o' bs m" "op_fits en (AEnqueueSwissMap p) o' (length bs)"
    and "at_pc (sm_decoder m) (op_bytes (AEnqueueSwissMap p) @ rest)"
  shows "\<exists>m'. steps_to en pc depth base m o' (op_sem en (AEnqueueSwissMap p) o' bs) rest m'"
proof -
  note s = step_decoded [OF assms(1,3)]
  note dec = m_decode_operand(4) [OF s(2)]
  define ptr where "ptr = u64_at bs (o' + unat (swiss_DirPtrOffset p))"
  define len where "len = u64_at bs (o' + unat (swiss_DirLenOffset p))"
  define t where "t = (if sint len > 0 then swiss_TablePtrSliceType p else swiss_GroupType p)"
  define n where "n = (if sint len > 0 then ucast (8 * len) else (0 :: u32))"
  obtain m' where m': "m_push ptr t n (decoded 11 m) = Inr m'"
    "object_step en base m o' bs [\<lparr>qe_Type = t, qe_Len = n, qe_Addr = ptr\<rparr>] m'"
    "sm_decoder m' = sm_decoder (decoded 11 m)" by (rule object_step_push [OF s(3)])
  have "step en pc depth m = Some (Inr (Next, m'))"
    using s(1) dec m'(1) on_object_load_u8 [OF assms(1)] assms(2)
    by (simp add: exec_EnqueueSwissMap_def t_def n_def ptr_def len_def split: if_splits)
  then show ?thesis
    by (rule steps_toI [OF _ m'(2)]) (use dec m'(3) in \<open>auto simp: Let_def ptr_def len_def t_def n_def\<close>)
qed

lemma step_AEnqueueSwissMapGroups:
  assumes "on_object en base o' bs m" "op_fits en (AEnqueueSwissMapGroups p) o' (length bs)"
    and "at_pc (sm_decoder m) (op_bytes (AEnqueueSwissMapGroups p) @ rest)"
  shows "\<exists>m'. steps_to en pc depth base m o' (op_sem en (AEnqueueSwissMapGroups p) o' bs) rest m'"
proof -
  note s = step_decoded [OF assms(1,3)]
  note dec = m_decode_operand(5) [OF s(2)]
  define data where "data = u64_at bs (o' + unat (groups_DataOffset p))"
  define n where "n = groups_GroupByteLen p * (ucast (u64_at bs (o' + unat (groups_LengthMaskOffset p))) + 1)"
  obtain m' where m': "m_push data (groups_GroupSliceType p) n (decoded 11 m) = Inr m'"
    "object_step en base m o' bs [\<lparr>qe_Type = groups_GroupSliceType p, qe_Len = n, qe_Addr = data\<rparr>] m'"
    "sm_decoder m' = sm_decoder (decoded 11 m)" by (rule object_step_push [OF s(3)])
  have "step en pc depth m = Some (Inr (Next, m'))"
    using s(1) dec m'(1) on_object_load_u8 [OF assms(1)] assms(2)
    by (simp add: exec_EnqueueSwissMapGroups_def n_def data_def)
  then show ?thesis
    by (rule steps_toI [OF _ m'(2)]) (use dec m'(3) in \<open>auto simp: data_def n_def\<close>)
qed

lemma object_step_offset:
  assumes "object_step en base m o' bs r m1" "o' + unat x \<le> length bs"
  shows "object_step en base m (o' + unat x) bs r (m1\<lparr>sm_offset := sm_offset m1 + x\<rparr>)"
  using assms on_object_add [of en base o' bs m1 x] by (auto simp: object_step_def on_object_def machine_wf_def)

lemma step_AAdvanceOffset:
  assumes "on_object en base o' bs m" "op_fits en (AAdvanceOffset r) o' (length bs)"
    and "at_pc (sm_decoder m) (op_bytes (AAdvanceOffset r) @ rest)"
  shows "\<exists>m'. steps_to en pc depth base m (o' + unat (adv_Increment r)) (op_sem en (AAdvanceOffset r) o' bs) rest m'"
proof -
  note s = step_decoded [OF assms(1,3)]
  note dec = m_decode_operand(6) [OF s(2)]
  define m' where "m' = (decoded 5 m)\<lparr>sm_offset := sm_offset (decoded 5 m) + adv_Increment r\<rparr>"
  have "step en pc depth m = Some (Inr (Next, m'))"
    using s(1) dec by (simp add: exec_AdvanceOffset_def m'_def)
  moreover have "object_step en base m (o' + unat (adv_Increment r)) bs [] m'"
    unfolding m'_def by (rule object_step_offset [OF s(3)]) (use assms(2) in simp)
  ultimately show ?thesis by (rule steps_toI) (use dec in \<open>auto simp: m'_def\<close>)
qed

subsection \<open>Interfaces\<close>

lemma m_resolve_runtime_type:
  assumes "resolver_current en (sm_g m)" "module_range en \<noteq> None"
  obtains g where "m_resolve en a m = Inr (runtime_type en a, m\<lparr>sm_g := g\<rparr>)" "resolver_current en g"
proof -
  obtain cfg t e where c: "sp_RuntimeConfig (en_p en) = Some cfg" "module_range en = Some (t, e)"
      "gr_cfg (sm_g m) = gr_cfg (makeGoRuntimeTypeResolver cfg (en_md en))"
    using assms by (auto simp: resolver_current_def module_cfg_def split: option.splits)
  have l: "load_u64 (en_mem en) (en_md en + mc_typesOffset (gr_cfg (sm_g m))) = Inr t"
      "load_u64 (en_mem en) (en_md en + mc_etypesOffset (gr_cfg (sm_g m))) = Inr e"
    using c by (simp_all add: module_range_def Let_def split: sum.splits)
  define r where "r = gr_cachedFirstmoduledataRange (sm_g m)"
  define g where "g = (if mtr_start r = 0 then (sm_g m)\<lparr>gr_cachedFirstmoduledataRange := \<lparr>mtr_start = t, mtr_end = e\<rparr>\<rparr>
    else sm_g m)"
  have r: "mtr_start r \<noteq> 0 \<Longrightarrow> mtr_start r = t \<and> mtr_end r = e"
    using assms(1) l by (auto simp: resolver_current_def r_def Let_def)
  have g: "gr_cfg g = gr_cfg (sm_g m)" "mtr_start (gr_cachedFirstmoduledataRange g) = t"
      "mtr_end (gr_cachedFirstmoduledataRange g) = e"
    using r by (auto simp: g_def r_def)
  have "maybeResolveFirstmoduledataRange (en_mem en) (en_md en) (sm_g m) = Inr g"
    using l by (simp add: maybeResolveFirstmoduledataRange_def g_def r_def)
  then have "m_resolve en a m = Inr (runtime_type en a, m\<lparr>sm_g := g\<rparr>)"
    using g c(2) by (simp add: m_resolve_def ResolveTypeAddressToGoRuntimeTypeId_def runtime_type_def)
  moreover have "resolver_current en g"
    using assms(1) g l by (simp add: resolver_current_def)
  ultimately show thesis by (rule that)
qed

lemma object_step_resolver:
  assumes "object_step en base m o' bs r m1" "resolver_current en g"
  shows "object_step en base m o' bs r (m1\<lparr>sm_g := g\<rparr>)"
  using assms by (auto simp: object_step_def on_object_def machine_wf_def)

lemma ob_store64_fun: "ob_store64 p w = ob_store p (le_bytes 8 w)"
  by (rule ext) (simp add: ob_store64_def)

lemma object_step_store:
  assumes "object_step en base m o' bs r m1" "k + length ys \<le> length bs" "base + length bs \<le> length (ob_arr (sm_b m))"
  obtains m2 where "m_buf (ob_store (base + k) ys) m1 = Inr m2" "object_step en base m o' (blit bs k ys) r m2"
    "sm_decoder m2 = sm_decoder m1" "sm_g m2 = sm_g m1" "sm_offset m2 = sm_offset m1"
proof -
  have on: "on_object en base o' bs m1" using assms(1) by (simp add: object_step_def)
  note st = on_object_store [OF on assms(2)]
  define m2 where "m2 = m1\<lparr>sm_b := (sm_b m1)\<lparr>ob_arr := blit (ob_arr (sm_b m1)) base (blit bs k ys)\<rparr>\<rparr>"
  have "blit (blit (ob_arr (sm_b m)) base bs) base (blit bs k ys) = blit (ob_arr (sm_b m)) base (blit bs k ys)"
    using assms(2,3) by (intro blit_again) simp_all
  with assms(1) st(2) have "object_step en base m o' (blit bs k ys) r m2"
    by (simp add: object_step_def m2_def)
  with st(1) show thesis by (intro that [of m2]) (simp_all add: m_buf_def m2_def)
qed

lemma object_step_enqueue:
  assumes "object_step en base m o' bs [] m1"
  obtains m2 where "(let typeId = ResolveGoRuntimeTypeToTypeId (en_t en) rt in
      if typeId = 0 then next_op m1 else bindE (m_push data typeId 0 m1) next_op) = Inr (Next, m2)"
    "object_step en base m o' bs (enqueue_typed en rt data) m2" "sm_decoder m2 = sm_decoder m1"
proof (cases "ResolveGoRuntimeTypeToTypeId (en_t en) rt = 0")
  case True
  with assms show thesis by (intro that [of m1]) (simp_all add: enqueue_typed_def)
next
  case False
  obtain m2 where "m_push data (ResolveGoRuntimeTypeToTypeId (en_t en) rt) 0 m1 = Inr m2"
    "object_step en base m o' bs
      [\<lparr>qe_Type = ResolveGoRuntimeTypeToTypeId (en_t en) rt, qe_Len = 0, qe_Addr = data\<rparr>] m2"
    "sm_decoder m2 = sm_decoder m1" by (rule object_step_push [OF assms])
  with False show thesis by (intro that [of m2]) (simp_all add: enqueue_typed_def Let_def)
qed

lemma step_AEnqueueEmptyInterface:
  assumes "on_object en base o' bs m" "op_fits en AEnqueueEmptyInterface o' (length bs)"
    and "at_pc (sm_decoder m) (op_bytes AEnqueueEmptyInterface @ rest)"
  shows "\<exists>m'. steps_to en pc depth base m o' (op_sem en AEnqueueEmptyInterface o' bs) rest m'"
proof -
  note s = step_decoded [OF assms(1,3)]
  have at: "at_pc (sm_decoder (decoded 1 m)) rest" using s(2) by simp
  note bd = on_object_bounds(3) [OF assms(1)]
  have loads: "ob_load64 (base + o') (sm_b m) = Inr (u64_at bs o')"
      "ob_load64 (base + o' + 8) (sm_b m) = Inr (u64_at bs (o' + 8))"
    using on_object_load [OF assms(1), of o'] on_object_load [OF assms(1), of "o' + 8"] assms(2)
    by (simp_all add: add.assoc)
  show ?thesis
  proof (cases "u64_at bs o' = 0")
    case True
    then have "step en pc depth m = Some (Inr (Next, decoded 1 m))"
      using s(1,4) loads m_decode_operand(7)
      by (simp add: exec_EnqueueEmptyInterface_def resolveEmptyInterface_def)
    then show ?thesis by (rule steps_toI [OF _ s(3)]) (use at True in auto)
  next
    case False
    define rt where "rt = runtime_type en (u64_at bs o')"
    have "resolver_current en (sm_g (decoded 1 m))" using assms(1) by (simp add: on_object_def)
    then obtain g where g: "m_resolve en (u64_at bs o') (decoded 1 m) = Inr (rt, (decoded 1 m)\<lparr>sm_g := g\<rparr>)"
        "resolver_current en g"
      unfolding rt_def by (rule m_resolve_runtime_type) (use assms(2) in simp)
    obtain m1 where m1: "m_buf (ob_store (base + o') (le_bytes 8 rt)) ((decoded 1 m)\<lparr>sm_g := g\<rparr>) = Inr m1"
        "object_step en base m o' (blit bs o' (le_bytes 8 rt)) [] m1" "sm_decoder m1 = sm_decoder (decoded 1 m)"
      by (rule object_step_store [OF object_step_resolver [OF s(3) [of 1] g(2)], of o' "le_bytes 8 rt"])
        (use assms(2) bd in auto)
    obtain m2 where m2: "(let typeId = ResolveGoRuntimeTypeToTypeId (en_t en) rt in
          if typeId = 0 then next_op m1 else bindE (m_push (u64_at bs (o' + 8)) typeId 0 m1) next_op) = Inr (Next, m2)"
        "object_step en base m o' (blit bs o' (le_bytes 8 rt)) (enqueue_typed en rt (u64_at bs (o' + 8))) m2"
        "sm_decoder m2 = sm_decoder m1"
      by (rule object_step_enqueue [OF m1(2)])
    have "step en pc depth m = Some (Inr (Next, m2))"
      using s(1,4) loads m_decode_operand(7) False g(1) m1(1) m2(1)
      by (simp add: exec_EnqueueEmptyInterface_def resolveEmptyInterface_def ob_store64_fun Let_def split: if_splits)
    then show ?thesis
      by (rule steps_toI [OF _ m2(2)]) (use at m1(3) m2(3) False in \<open>auto simp: rt_def Let_def\<close>)
  qed
qed

text \<open>The itab is replaced by the type it points to, or by zeros when it cannot be read.\<close>

lemma on_object_Dereference:
  assumes "on_object en base o' bs m" "o' + 8 \<le> length bs"
  shows "Dereference mem a 8 = Some tb \<Longrightarrow>
      m_bufr (ob_Dereference mem (sm_offset m) a 8) m =
        bindE (m_buf (ob_store (base + o') tb) m) (\<lambda>m1. Inr (True, m1))"
    and "Dereference mem a 8 = None \<Longrightarrow>
      m_bufr (ob_Dereference mem (sm_offset m) a 8) m =
        bindE (m_buf (ob_store (base + o') (replicate 8 0)) m) (\<lambda>m1. Inr (False, m1))"
proof -
  note bd = on_object_bounds [OF assms(1)]
  have off: "unat (sm_offset m) = base + o'" using assms(1) by (simp add: on_object_def)
  have off8: "unat (sm_offset m + 8) = base + o' + 8"
    using on_object_add [OF assms(1), of 8] assms(2) by (simp add: add.assoc)
  have fit: "base + o' + 8 \<le> ob_cap (sm_b m)" using bd(1) assms(2) by simp
  have le: "\<not> sm_offset m + 8 > ob_cap32 (sm_b m)" "\<not> sm_offset m > sm_offset m + 8"
    using off off8 fit bd(5) by (simp_all add: word_less_nat_alt)
  show "Dereference mem a 8 = Some tb \<Longrightarrow>
      m_bufr (ob_Dereference mem (sm_offset m) a 8) m =
        bindE (m_buf (ob_store (base + o') tb) m) (\<lambda>m1. Inr (True, m1))"
    using le off by (cases "ob_store (base + o') tb (sm_b m)")
      (simp_all add: m_bufr_def m_buf_def ob_Dereference_def Ptr_def)
  have "Zero (sm_offset m) 8 (sm_b m) = ob_store (base + o') (replicate 8 0) (sm_b m)"
    using le off off8 fit by (simp add: Zero_def ob_store_def)
  then show "Dereference mem a 8 = None \<Longrightarrow>
      m_bufr (ob_Dereference mem (sm_offset m) a 8) m =
        bindE (m_buf (ob_store (base + o') (replicate 8 0)) m) (\<lambda>m1. Inr (False, m1))"
    using le by (cases "ob_store (base + o') (replicate 8 0) (sm_b m)")
      (simp_all add: m_bufr_def m_buf_def ob_Dereference_def)
qed

lemma u64_at_blit:
  assumes "o' + 16 \<le> length bs" "length ys = 8"
  shows "u64_at (blit bs o' ys) o' = le_word ys" "u64_at (blit bs o' ys) (o' + 8) = u64_at bs (o' + 8)"
  using assms by (simp_all add: u64_at_def sub_blit_sameI sub_blit_other)

lemma step_AEnqueueInterface_readable:
  assumes "on_object en base o' bs m" "op_fits en AEnqueueInterface o' (length bs)"
    and "at_pc (sm_decoder m) (op_bytes AEnqueueInterface @ rest)"
    and "u64_at bs o' \<noteq> 0" "Dereference (en_mem en) (u64_at bs o' + 8) 8 = Some tb"
  shows "\<exists>m'. steps_to en pc depth base m o' (op_sem en AEnqueueInterface o' bs) rest m'"
proof -
  note s = step_decoded [OF assms(1,3)]
  have at: "at_pc (sm_decoder (decoded 1 m)) rest" using s(2) by simp
  note bd = on_object_bounds(3) [OF assms(1)]
  have tb: "length tb = 8" by (rule Dereference_length [OF assms(5)])
  have n: "o' + 16 \<le> length bs" "module_range en \<noteq> None" using assms(2) by simp_all
  have on: "on_object en base o' bs (decoded 1 m)" using s(3) [of 1] by (simp add: object_step_def)
  define rt where "rt = runtime_type en (le_word tb)"
  define data where "data = u64_at bs (o' + 8)"
  obtain m1 where m1: "m_buf (ob_store (base + o') tb) (decoded 1 m) = Inr m1"
      "object_step en base m o' (blit bs o' tb) [] m1" "sm_decoder m1 = sm_decoder (decoded 1 m)"
      "sm_g m1 = sm_g (decoded 1 m)" "sm_offset m1 = sm_offset (decoded 1 m)"
    by (rule object_step_store [OF s(3) [of 1], of o' tb]) (use n tb bd in auto)
  have on1: "on_object en base o' (blit bs o' tb) m1" using m1(2) by (simp add: object_step_def)
  have len1: "length (blit bs o' tb) = length bs" using n tb by simp
  have l1: "ob_load64 (base + o') (sm_b m1) = Inr (le_word tb)"
    using on_object_load [OF on1, of o'] u64_at_blit(1) [OF n(1) tb] n len1 by simp
  have "resolver_current en (sm_g m1)" using on1 by (simp add: on_object_def)
  then obtain g where g: "m_resolve en (le_word tb) m1 = Inr (rt, m1\<lparr>sm_g := g\<rparr>)" "resolver_current en g"
    unfolding rt_def by (rule m_resolve_runtime_type) (use n in simp)
  have two: "blit (blit bs o' tb) o' (le_bytes 8 rt) = blit bs o' (le_bytes 8 rt)"
    using n tb by (intro blit_again) simp_all
  obtain m2 where m2: "m_buf (ob_store (base + o') (le_bytes 8 rt)) (m1\<lparr>sm_g := g\<rparr>) = Inr m2"
      "object_step en base m o' (blit bs o' (le_bytes 8 rt)) [] m2" "sm_decoder m2 = sm_decoder m1"
    by (rule object_step_store [OF object_step_resolver [OF m1(2) g(2)], of o' "le_bytes 8 rt"])
      (use n bd len1 two in auto)
  have on2: "on_object en base o' (blit bs o' (le_bytes 8 rt)) m2" using m2(2) by (simp add: object_step_def)
  have l2: "ob_load64 (base + o' + 8) (sm_b m2) = Inr data"
    using on_object_load [OF on2, of "o' + 8"] u64_at_blit(2) [OF n(1), of "le_bytes 8 rt"] n
    by (simp add: data_def add.assoc)
  obtain m3 where m3: "(let typeId = ResolveGoRuntimeTypeToTypeId (en_t en) rt in
        if typeId = 0 then next_op m2 else bindE (m_push data typeId 0 m2) next_op) = Inr (Next, m3)"
      "object_step en base m o' (blit bs o' (le_bytes 8 rt)) (enqueue_typed en rt data) m3"
      "sm_decoder m3 = sm_decoder m2"
    by (rule object_step_enqueue [OF m2(2)])
  have "ob_load64 (base + o') (sm_b m) = Inr (u64_at bs o')" using on_object_load [OF assms(1), of o'] n by simp
  moreover have "m_bufr (ob_Dereference (en_mem en) (sm_offset m) (u64_at bs o' + 8) 8) (decoded 1 m) = Inr (True, m1)"
    using on_object_Dereference(1) [OF on _ assms(5)] n m1(1) by simp
  ultimately have "step en pc depth m = Some (Inr (Next, m3))"
    using s(1,4) m_decode_operand(7) assms(4) l1 g(1) m2(1) l2 m3(1)
    by (simp add: exec_EnqueueInterface_def ob_store64_fun Let_def split: if_splits)
  then show ?thesis
    by (rule steps_toI [OF _ m3(2)]) (use at m1(3) m2(3) m3(3) assms(4,5) in \<open>auto simp: rt_def data_def Let_def\<close>)
qed

lemma step_AEnqueueInterface:
  assumes "on_object en base o' bs m" "op_fits en AEnqueueInterface o' (length bs)"
    and "at_pc (sm_decoder m) (op_bytes AEnqueueInterface @ rest)"
  shows "\<exists>m'. steps_to en pc depth base m o' (op_sem en AEnqueueInterface o' bs) rest m'"
proof -
  note s = step_decoded [OF assms(1,3)]
  have at: "at_pc (sm_decoder (decoded 1 m)) rest" using s(2) by simp
  note bd = on_object_bounds(3) [OF assms(1)]
  have n: "o' + 16 \<le> length bs" using assms(2) by simp
  have on: "on_object en base o' bs (decoded 1 m)" using s(3) [of 1] by (simp add: object_step_def)
  have load: "ob_load64 (base + o') (sm_b m) = Inr (u64_at bs o')" using on_object_load [OF assms(1), of o'] n by simp
  consider (nil) "u64_at bs o' = 0"
    | (unreadable) "u64_at bs o' \<noteq> 0" "Dereference (en_mem en) (u64_at bs o' + 8) 8 = None"
    | (readable) tb where "u64_at bs o' \<noteq> 0" "Dereference (en_mem en) (u64_at bs o' + 8) 8 = Some tb"
    by fastforce
  then show ?thesis
  proof cases
    case nil
    then have "step en pc depth m = Some (Inr (Next, decoded 1 m))"
      using s(1,4) load m_decode_operand(7) by (simp add: exec_EnqueueInterface_def)
    then show ?thesis by (rule steps_toI [OF _ s(3)]) (use at nil in auto)
  next
    case unreadable
    obtain m1 where m1: "m_buf (ob_store (base + o') (replicate 8 0)) (decoded 1 m) = Inr m1"
        "object_step en base m o' (blit bs o' (replicate 8 0)) [] m1" "sm_decoder m1 = sm_decoder (decoded 1 m)"
      by (rule object_step_store [OF s(3) [of 1], of o' "replicate 8 0"]) (use n bd in auto)
    have "m_bufr (ob_Dereference (en_mem en) (sm_offset m) (u64_at bs o' + 8) 8) (decoded 1 m) = Inr (False, m1)"
      using on_object_Dereference(2) [OF on _ unreadable(2)] n m1(1) by simp
    then have "step en pc depth m = Some (Inr (Next, m1))"
      using s(1,4) load m_decode_operand(7) unreadable(1) by (simp add: exec_EnqueueInterface_def)
    then show ?thesis by (rule steps_toI [OF _ m1(2)]) (use at m1(3) unreadable in auto)
  next
    case readable
    then show ?thesis by (rule step_AEnqueueInterface_readable [OF assms])
  qed
qed

subsection \<open>All of them\<close>

lemma op_sem_length: "op_fits en op o' (length bs) \<Longrightarrow> length (fst (op_sem en op o' bs)) = length bs"
  by (cases op) (auto simp: Let_def split: option.splits)

lemma step_straight:
  assumes "on_object en base o' bs m" "op_fits en op o' (length bs)"
    and "at_pc (sm_decoder m) (op_bytes op @ rest)"
  shows "\<exists>m'. steps_to en pc depth base m (op_advance op o') (op_sem en op o' bs) rest m'"
  using assms step_AEnqueuePointer step_AEnqueueSliceHeader step_AEnqueueStringHeader step_AEnqueueEmptyInterface
    step_AEnqueueInterface step_AEnqueueSwissMap step_AEnqueueSwissMapGroups step_AAdvanceOffset
  by (cases op) (simp_all only: op_advance.simps op_fits.simps)

end
