(* ===== verification/Type_Code.thy ===== *)
theory Type_Code
  imports Type_Programs Byte_Code_Typing
begin

text \<open>
  The programs of types. The byte code of a type is a tree of sequences, calls, loops over the elements of
  an array or a slice, parts that put the offset back, and the operations on the bytes of the object
  (\<open>op_sem\<close>). \<open>code_end\<close> finds a tree in a program, \<open>code_sem\<close> is its meaning, \<open>code_fit\<close> that it stays inside an
  object, and \<open>code_steps\<close> how many operations it takes. The interpreter implements the meaning in exactly
  that many steps, and so the programs meet the specification that the traversal of theory Snapshot_Heap needs.
\<close>

subsection \<open>Code and where it is\<close>

text \<open>
  \<open>TCall\<close> has the code of the subroutine that it calls; \<open>TKeep\<close> pushes the offset, runs its code and sets the offset
  back; \<open>TTimes\<close> pushes a count, by an operation, and repeats its code; \<open>THMap\<close> is the operation on the header of a
  map before Go 1.24, with the word that it expects on the stack and the jump that is never taken.
\<close>

datatype type_code =
    TSkip
  | TOp AnyOp
  | TSeq type_code type_code
  | TCall u32 type_code
  | TKeep type_code
  | TTimes AnyOp type_code
  | THMap u32 OpEnqueueHMapHeader u32

text \<open>The program counter behind an operation, if it is there.\<close>

definition op_end :: "u8 list \<Rightarrow> AnyOp \<Rightarrow> u32 \<Rightarrow> u32 option" where
  "op_end prog a p =
     (if take (length (op_bytes a)) (drop (unat p) prog) = op_bytes a then Some (p + of_nat (length (op_bytes a)))
      else None)"

fun code_end :: "u8 list \<Rightarrow> type_code \<Rightarrow> u32 \<Rightarrow> u32 option" where
  "code_end prog TSkip p = Some p"
| "code_end prog (TOp a) p = op_end prog a p"
| "code_end prog (TSeq c d) p = Option.bind (code_end prog c p) (code_end prog d)"
| "code_end prog (TCall t c) p =
     Option.bind (op_end prog (ACall \<lparr>call_Pc = t\<rparr>) p) (\<lambda>r.
     Option.bind (code_end prog c t) (\<lambda>q.
     Option.bind (op_end prog AReturn q) (\<lambda>_. if unat r < length prog then Some r else None)))"
| "code_end prog (TKeep c) p =
     Option.bind (op_end prog APushOffset p) (\<lambda>p1.
     Option.bind (code_end prog c p1) (\<lambda>p2.
     Option.bind (op_end prog ASetOffset p2) (op_end prog APop)))"
| "code_end prog (TTimes a c) p =
     Option.bind (op_end prog a p) (\<lambda>l.
     Option.bind (code_end prog c l) (\<lambda>p2.
     Option.bind (op_end prog ADecrement p2) (\<lambda>p3.
     Option.bind (op_end prog (ACondJump \<lparr>condJump_Pc = l\<rparr>) p3) (op_end prog APop))))"
| "code_end prog (THMap w r t) p =
     Option.bind (op_end prog (APushImm \<lparr>pushImm_Value = w\<rparr>) p) (\<lambda>p1.
     Option.bind (op_end prog (AEnqueueHMapHeader r) p1) (\<lambda>p2.
     Option.bind (op_end prog (ACondJump \<lparr>condJump_Pc = t\<rparr>) p2) (op_end prog APop)))"

subsection \<open>What code means\<close>

text \<open>The buckets of a map, and while it grows the old ones, which are half as many unless it grows in place.\<close>

definition hmap_refs :: "OpEnqueueHMapHeader \<Rightarrow> nat \<Rightarrow> u8 list \<Rightarrow> QueueEntry list" where
  "hmap_refs r o' bs =
     (let flags = bs ! (o' + unat (hmap_FlagsOffset r));
          num = push_bit (unat (bs ! (o' + unat (hmap_BOffset r)))) 1;
          new = u64_at bs (o' + unat (hmap_BucketsOffset r));
          old = u64_at bs (o' + unat (hmap_OldBucketsOffset r));
          oldNum = (if flags AND sameSizeGrow = 0 then drop_bit 1 num else num)
      in (if new = 0 then []
          else [\<lparr>qe_Type = hmap_BucketsArrayType r, qe_Len = num * hmap_BucketByteLen r, qe_Addr = new\<rparr>]) @
         (if old = 0 then []
          else [\<lparr>qe_Type = hmap_BucketsArrayType r, qe_Len = oldNum * hmap_BucketByteLen r, qe_Addr = old\<rparr>]))"

fun hmap_fits :: "OpEnqueueHMapHeader \<Rightarrow> nat \<Rightarrow> nat \<Rightarrow> bool" where
  "hmap_fits r o' n \<longleftrightarrow>
     o' + unat (hmap_FlagsOffset r) < n \<and> o' + unat (hmap_BOffset r) < n \<and>
     o' + unat (hmap_BucketsOffset r) + 8 \<le> n \<and> o' + unat (hmap_OldBucketsOffset r) + 8 \<le> n"

text \<open>How often a loop runs, on an object of \<open>n\<close> bytes: a constant, or the number of elements.\<close>

fun loop_count :: "AnyOp \<Rightarrow> nat \<Rightarrow> nat" where
  "loop_count (APushImm i) n = unat (pushImm_Value i)"
| "loop_count (APushSliceLen r) n = n div unat (pushLen_ElemByteLen r)"
| "loop_count _ n = 0"

text \<open>The length of the object is found before its first byte, and a loop runs at least once.\<close>

fun loop_ready :: "AnyOp \<Rightarrow> nat \<Rightarrow> nat \<Rightarrow> bool" where
  "loop_ready (APushImm i) o' n \<longleftrightarrow> pushImm_Value i \<noteq> 0"
| "loop_ready (APushSliceLen r) o' n \<longleftrightarrow> o' = 0 \<and> pushLen_ElemByteLen r \<noteq> 0 \<and> unat (pushLen_ElemByteLen r) \<le> n"
| "loop_ready _ o' n \<longleftrightarrow> False"

type_synonym obj_effect = "nat \<times> u8 list \<times> QueueEntry list"

definition then_sem :: "(nat \<Rightarrow> u8 list \<Rightarrow> obj_effect) \<Rightarrow> (nat \<Rightarrow> u8 list \<Rightarrow> obj_effect) \<Rightarrow> nat \<Rightarrow> u8 list \<Rightarrow> obj_effect" where
  "then_sem f g o' bs = (let (o1, bs1, r1) = f o' bs; (o2, bs2, r2) = g o1 bs1 in (o2, bs2, r1 @ r2))"

primrec repeat_sem :: "nat \<Rightarrow> (nat \<Rightarrow> u8 list \<Rightarrow> obj_effect) \<Rightarrow> nat \<Rightarrow> u8 list \<Rightarrow> obj_effect" where
  "repeat_sem 0 f o' bs = (o', bs, [])"
| "repeat_sem (Suc k) f o' bs = then_sem f (repeat_sem k f) o' bs"

text \<open>Where the offset is afterwards, the bytes of the object, and what is pushed.\<close>

fun code_sem :: "run_env \<Rightarrow> type_code \<Rightarrow> nat \<Rightarrow> u8 list \<Rightarrow> obj_effect" where
  "code_sem en TSkip o' bs = (o', bs, [])"
| "code_sem en (TOp a) o' bs = (op_advance a o', op_sem en a o' bs)"
| "code_sem en (TSeq c d) o' bs = then_sem (code_sem en c) (code_sem en d) o' bs"
| "code_sem en (TCall t c) o' bs = code_sem en c o' bs"
| "code_sem en (TKeep c) o' bs = (let (_, bs1, r) = code_sem en c o' bs in (o', bs1, r))"
| "code_sem en (TTimes a c) o' bs = repeat_sem (loop_count a (length bs)) (code_sem en c) o' bs"
| "code_sem en (THMap w r t) o' bs = (o', bs, hmap_refs r o' bs)"

text \<open>Where the offset is afterwards, if everything stays inside an object of \<open>n\<close> bytes.\<close>

primrec repeat_fit :: "nat \<Rightarrow> (nat \<Rightarrow> nat option) \<Rightarrow> nat \<Rightarrow> nat option" where
  "repeat_fit 0 f o' = Some o'"
| "repeat_fit (Suc k) f o' = Option.bind (f o') (repeat_fit k f)"

fun code_fit :: "run_env \<Rightarrow> nat \<Rightarrow> type_code \<Rightarrow> nat \<Rightarrow> nat option" where
  "code_fit en n TSkip o' = Some o'"
| "code_fit en n (TOp a) o' = (if op_fits en a o' n then Some (op_advance a o') else None)"
| "code_fit en n (TSeq c d) o' = Option.bind (code_fit en n c o') (code_fit en n d)"
| "code_fit en n (TCall t c) o' = code_fit en n c o'"
| "code_fit en n (TKeep c) o' = map_option (\<lambda>_. o') (code_fit en n c o')"
| "code_fit en n (TTimes a c) o' =
     (if loop_ready a o' n then repeat_fit (loop_count a n) (code_fit en n c) o' else None)"
| "code_fit en n (THMap w r t) o' = (if hmap_fits r o' n then Some o' else None)"

fun code_steps :: "nat \<Rightarrow> type_code \<Rightarrow> nat" where
  "code_steps n TSkip = 0"
| "code_steps n (TOp a) = 1"
| "code_steps n (TSeq c d) = code_steps n c + code_steps n d"
| "code_steps n (TCall t c) = code_steps n c + 2"
| "code_steps n (TKeep c) = code_steps n c + 3"
| "code_steps n (TTimes a c) = loop_count a n * (code_steps n c + 2) + 2"
| "code_steps n (THMap w r t) = 4"

subsection \<open>Steps on an object\<close>

lemma op_endD:
  assumes "op_end prog a p = Some q" "length prog < 2 ^ 32"
  shows "instr prog p = Some (a, q)" "unat p < length prog"
    and "dec_opBuf d = prog \<Longrightarrow> dec_pc d = p \<Longrightarrow> at_pc d (op_bytes a @ [])"
proof -
  have t: "take (length (op_bytes a)) (drop (unat p) prog) = op_bytes a" and q: "q = p + of_nat (length (op_bytes a))"
    using assms(1) by (auto simp: op_end_def split: if_splits)
  then have "drop (unat p) prog \<noteq> []" by (auto simp: op_bytes_def)
  then show p: "unat p < length prog" by simp
  have prog: "prog = take (unat p) prog @ op_bytes a @ drop (length (op_bytes a)) (drop (unat p) prog)"
    using append_take_drop_id [of "length (op_bytes a)" "drop (unat p) prog"] by (simp only: t append_take_drop_id)
  show "instr prog p = Some (a, q)"
    using instr_op [OF prog assms(2)] p by (simp add: q op_bytes_def)
  show "at_pc d (op_bytes a @ [])" if "dec_opBuf d = prog" "dec_pc d = p"
    unfolding at_pc_def that
    by (intro conjI exI [of _ "take (unat p) prog"] exI [of _ "drop (length (op_bytes a)) (drop (unat p) prog)"])
      (use prog p assms(2) in simp_all)
qed

lemma code_end_start:
  "code_end prog c p = Some q \<Longrightarrow> length prog < 2 ^ 32 \<Longrightarrow> unat q < length prog \<Longrightarrow> unat p < length prog"
  by (induction prog c p arbitrary: q rule: code_end.induct) (auto simp: bind_eq_Some_conv dest: op_endD(2))

text \<open>
  So many steps lead from one machine to the other; after fewer steps the run is not over, there are at least
  \<open>h\<close> words on the stack, and the buffer is full only if it was.
\<close>

definition during :: "nat \<Rightarrow> machine \<Rightarrow> machine \<Rightarrow> bool" where
  "during h m mj \<longleftrightarrow> h \<le> length (sm_stack mj) \<and> full (sm_b mj) = full (sm_b m)"

definition takes :: "run_env \<Rightarrow> u32 \<Rightarrow> u32 \<Rightarrow> nat \<Rightarrow> nat \<Rightarrow> machine \<Rightarrow> machine \<Rightarrow> bool" where
  "takes en pc depth k h m m' \<longleftrightarrow> (\<forall>n. run_steps (k + n) en pc depth m = run_steps n en pc depth m') \<and>
     (\<forall>j < k. \<exists>mj. run_steps j en pc depth m = Some (Inr (False, mj)) \<and> during h m mj)"

lemma takes_mono: "takes en pc depth k h m m' \<Longrightarrow> h' \<le> h \<Longrightarrow> takes en pc depth k h' m m'"
  by (fastforce simp: takes_def during_def)

lemma takes_trans:
  assumes "takes en pc depth j h m m1" "takes en pc depth k h m1 m2" "full (sm_b m1) = full (sm_b m)"
  shows "takes en pc depth (j + k) h m m2"
proof -
  have "\<exists>mi. run_steps i en pc depth m = Some (Inr (False, mi)) \<and> during h m mi" if "i < j + k" for i
  proof (cases "i < j")
    case True
    with assms(1) show ?thesis by (simp add: takes_def)
  next
    case False
    with assms(1) have "run_steps i en pc depth m = run_steps (i - j) en pc depth m1"
      unfolding takes_def by (metis le_add_diff_inverse not_less)
    moreover have "i - j < k" using that False by simp
    ultimately show ?thesis using assms(2,3) by (simp add: takes_def during_def)
  qed
  with assms show ?thesis by (simp add: takes_def add.assoc)
qed

lemma takes_step:
  "step en pc depth m = Some (Inr (Next, m')) \<Longrightarrow> takes en pc depth 1 (min (length (sm_stack m)) n) m m'"
  by (simp add: takes_def during_def)

text \<open>An effect on the object that the machine is at, whatever happens to the stack; the frame, if there is one, is the same.\<close>

definition same_frame :: "machine \<Rightarrow> machine \<Rightarrow> bool" where
  "same_frame m m' \<longleftrightarrow> sm_cfa m' = sm_cfa m \<and> sm_frameHeader m' = sm_frameHeader m"

definition moved :: "run_env \<Rightarrow> nat \<Rightarrow> machine \<Rightarrow> obj_effect \<Rightarrow> machine \<Rightarrow> bool" where
  "moved en base m r m' \<longleftrightarrow>
     (case r of (o', bs, refs) \<Rightarrow> object_step en base m o' bs refs (m'\<lparr>sm_stack := sm_stack m\<rparr>)) \<and> same_frame m m'"

lemma on_object_stack [simp]: "on_object en base o' bs (m\<lparr>sm_stack := s\<rparr>) = on_object en base o' bs m"
  by (simp add: on_object_def machine_wf_def)

lemma object_step_stack:
  "object_step en base m o' bs r m' \<Longrightarrow> object_step en base (m\<lparr>sm_stack := s\<rparr>) o' bs r (m'\<lparr>sm_stack := s\<rparr>)"
  by (simp add: object_step_def)

lemma moved_trans:
  assumes "moved en base m (o1, bs1, r1) m1" "moved en base m1 (o2, bs2, r2) m2"
    and "on_object en base o' bs m" "length bs1 = length bs" "length bs2 = length bs"
  shows "moved en base m (o2, bs2, r1 @ r2) m2"
proof -
  have "object_step en base m o1 bs1 r1 (m1\<lparr>sm_stack := sm_stack m\<rparr>)" using assms(1) by (simp add: moved_def)
  moreover have "object_step en base (m1\<lparr>sm_stack := sm_stack m\<rparr>) o2 bs2 r2 (m2\<lparr>sm_stack := sm_stack m\<rparr>)"
    using assms(2) object_step_stack [of en base m1 o2 bs2 r2 "m2\<lparr>sm_stack := sm_stack m1\<rparr>" "sm_stack m"]
    by (simp add: moved_def)
  ultimately have "object_step en base m o2 bs2 (r1 @ r2) (m2\<lparr>sm_stack := sm_stack m\<rparr>)"
    by (rule object_step_trans) (use on_object_bounds(3) [OF assms(3)] assms(4,5) in simp_all)
  with assms(1,2) show ?thesis by (simp add: moved_def same_frame_def)
qed

lemma moved_control:
  assumes "on_object en base o' bs m" "dec_opBuf d = dec_opBuf (sm_decoder m)"
  shows "moved en base m (o', bs, []) (m\<lparr>sm_decoder := d, sm_stack := s\<rparr>)"
  using object_step_decoder [OF object_step_refl [OF assms(1)] assms(2)] by (simp add: moved_def same_frame_def)

text \<open>
  A machine at a program counter of the type's program, on an object whose length is in the header before it; and
  a piece of the run, with the steps it takes, what it does to the object, and the program counter and the stack after it.
  In between the stack is never lower than at both ends.
\<close>

definition at_code :: "run_env \<Rightarrow> u8 list \<Rightarrow> nat \<Rightarrow> nat \<Rightarrow> u8 list \<Rightarrow> u32 \<Rightarrow> machine \<Rightarrow> bool" where
  "at_code en prog base o' bs p m \<longleftrightarrow>
     on_object en base o' bs m \<and> length prog < 2 ^ 32 \<and> dec_opBuf (sm_decoder m) = prog \<and> dec_pc (sm_decoder m) = p \<and>
     GetEntryLen (of_nat base) (sm_b m) = Inr (of_nat (length bs))"

definition goes ::
  "run_env \<Rightarrow> u32 \<Rightarrow> u32 \<Rightarrow> nat \<Rightarrow> nat \<Rightarrow> machine \<Rightarrow> obj_effect \<Rightarrow> u32 \<Rightarrow> u32 list \<Rightarrow> machine \<Rightarrow> bool" where
  "goes en pc depth base k m r q s m' \<longleftrightarrow>
     takes en pc depth k (min (length (sm_stack m)) (length s)) m m' \<and> moved en base m r m' \<and>
     dec_pc (sm_decoder m') = q \<and> sm_stack m' = s"

lemma GetEntryLen_blit:
  assumes "GetEntryLen (of_nat base) b = Inr n" "base + length bs \<le> length (ob_arr b)" "ob_cap b \<le> 2 ^ 31"
  shows "GetEntryLen (of_nat base) (b\<lparr>ob_arr := blit (ob_arr b) base bs\<rparr>) = Inr n"
proof -
  define p where "p = Ptr (of_nat base - of_nat sizeof_QueueEntry)"
  have n: "ob_load32 (p + 4) b = Inr n" using assms(1) by (simp add: GetEntryLen_def p_def)
  then have cap: "p + 8 \<le> length (ob_arr b)"
    by (auto simp: ob_load32_def ob_load_def ob_cap_def res_simps split: if_splits)
  have "p + 8 \<le> base"
  proof (cases "base < 16")
    case True
    then have "p = base + 2 ^ 32 - 16"
      by (simp add: p_def Ptr_def sizeof_QueueEntry_def unat_sub_if_size word_size unat_of_nat_u32)
    with True cap assms(3) show ?thesis by (simp add: ob_cap_def)
  next
    case False
    moreover have "base < 2 ^ 32" using assms(2,3) by (simp add: ob_cap_def)
    ultimately show ?thesis
      by (simp add: p_def Ptr_def sizeof_QueueEntry_def unat_sub word_le_nat_alt unat_of_nat_u32)
  qed
  then have "sub (blit (ob_arr b) base bs) (p + 4) 4 = sub (ob_arr b) (p + 4) 4"
    using assms(2) by (simp add: sub_blit_other)
  then show ?thesis
    using n cap assms(2) unfolding GetEntryLen_def p_def [symmetric] by (simp add: ob_load32_def ob_load_def ob_cap_def)
qed

lemma at_code_goes:
  assumes "at_code en prog base o' bs p m" "goes en pc depth base k m (o1, bs1, r) q s m1" "length bs1 = length bs"
  shows "at_code en prog base o1 bs1 q m1"
proof -
  have st: "object_step en base m o1 bs1 r (m1\<lparr>sm_stack := sm_stack m\<rparr>)" using assms(2) by (simp add: goes_def moved_def)
  note bd = on_object_bounds [of en base o' bs m]
  have on: "on_object en base o' bs m" "GetEntryLen (of_nat base) (sm_b m) = Inr (of_nat (length bs))"
    using assms(1) by (simp_all add: at_code_def)
  have "GetEntryLen (of_nat base) (sm_b m1) = Inr (of_nat (length bs))"
    using st GetEntryLen_blit [OF on(2), of bs1] bd [OF on(1)] assms(3) by (simp add: object_step_def)
  with st assms show ?thesis by (simp add: at_code_def goes_def object_step_def)
qed

lemma goes_trans:
  assumes "at_code en prog base o' bs p m"
    and "goes en pc depth base j m (o1, bs1, r1) q1 s1 m1" "goes en pc depth base k m1 (o2, bs2, r2) q2 s2 m2"
    and "length bs1 = length bs" "length bs2 = length bs" "min (length (sm_stack m)) (length s2) \<le> length s1"
  shows "goes en pc depth base (j + k) m (o2, bs2, r1 @ r2) q2 s2 m2"
proof -
  define h where "h = min (length (sm_stack m)) (length s2)"
  have "takes en pc depth j h m m1" "takes en pc depth k h m1 m2"
    using assms(2,3,6) by (auto simp: goes_def h_def intro: takes_mono)
  moreover have "full (sm_b m1) = full (sm_b m)"
    using assms(2) by (simp add: goes_def moved_def object_step_def full_def)
  ultimately have "takes en pc depth (j + k) h m m2" by (rule takes_trans)
  then show ?thesis
    using assms moved_trans [of en base m o1 bs1 r1 m1 o2 bs2 r2 m2 o' bs]
    by (simp add: goes_def at_code_def h_def)
qed

subsection \<open>The operations of control\<close>

lemma control_start:
  assumes "at_code en prog base o' bs p m" "op_end prog a p = Some q"
  obtains d1 d where "step en pc depth m = exec_op en pc depth (code_of a) (m\<lparr>sm_decoder := d1\<rparr>)"
    "decode_operands (code_of a) d1 = Inr (Some a, d)" "dec_pc d = q" "dec_opBuf d = prog"
proof -
  have m: "length prog < 2 ^ 32" "dec_opBuf (sm_decoder m) = prog" "dec_pc (sm_decoder m) = p"
    using assms(1) by (simp_all add: at_code_def)
  have "instr (dec_opBuf (sm_decoder m)) (dec_pc (sm_decoder m)) = Some (a, q)"
    using op_endD(1) [OF assms(2) m(1)] m by simp
  then show thesis by (rule step_instr) (use m that in auto)
qed

lemma goes_control:
  assumes "at_code en prog base o' bs p m" "dec_opBuf d = prog" "dec_pc d = q"
    and "step en pc depth m = Some (Inr (Next, m\<lparr>sm_decoder := d, sm_stack := s\<rparr>))"
  shows "\<exists>m'. goes en pc depth base 1 m (o', bs, []) q s m'"
  using moved_control [of en base o' bs m d s] takes_step [OF assms(4), of "length s"] assms(1-3)
  by (auto simp: goes_def at_code_def)

lemma m_same_frame:
  "m_decode f m = Inr (r, m1) \<Longrightarrow> same_frame m m1" "m_push a t n m = Inr m2 \<Longrightarrow> same_frame m m2"
  "m_buf g m = Inr m3 \<Longrightarrow> same_frame m m3" "m_bufr h m = Inr (s, m4) \<Longrightarrow> same_frame m m4"
  "m_resolve en ty m = Inr (u, m5) \<Longrightarrow> same_frame m m5"
  by (auto simp: m_decode_def m_push_def m_buf_def m_bufr_def m_resolve_def res_simps same_frame_def split: prod.splits)

lemma same_frame_trans [trans]: "same_frame m m1 \<Longrightarrow> same_frame m1 m2 \<Longrightarrow> same_frame m m2"
  by (simp add: same_frame_def)

lemma fits_same_frame:
  "op_fits en a o' n \<Longrightarrow> exec_op en pc depth (code_of a) m = Some (Inr (Next, m')) \<Longrightarrow> same_frame m m'"
  by (cases a)
    (auto simp: res_simps exec_data_defs resolveEmptyInterface_def Let_def split: option.splits prod.splits if_splits
      dest!: m_same_frame intro: same_frame_trans, auto simp: same_frame_def)

lemma goes_op:
  assumes "at_code en prog base o' bs p m" "op_end prog a p = Some q" "op_fits en a o' (length bs)"
  shows "\<exists>m'. goes en pc depth base 1 m (op_advance a o', op_sem en a o' bs) q (sm_stack m) m'"
proof -
  obtain d1 d where d: "step en pc depth m = exec_op en pc depth (code_of a) (m\<lparr>sm_decoder := d1\<rparr>)"
    "decode_operands (code_of a) d1 = Inr (Some a, d)" "dec_pc d = q" "dec_opBuf d = prog"
    by (rule control_start [OF assms(1,2)])
  have on: "on_object en base o' bs m" "length prog < 2 ^ 32" "dec_opBuf (sm_decoder m) = prog" "dec_pc (sm_decoder m) = p"
    using assms(1) by (simp_all add: at_code_def)
  note at = op_endD(3) [OF assms(2) on(2) on(3,4)]
  obtain m' where m': "step en pc depth m = Some (Inr (Next, m'))"
    "object_step en base m (op_advance a o') (fst (op_sem en a o' bs)) (snd (op_sem en a o' bs)) m'"
    using step_straight [OF on(1) assms(3) at, of pc depth] by (auto simp: steps_to_def)
  have "at_point en (sm_g m) d1 (sm_stack m) (m\<lparr>sm_decoder := d1\<rparr>)"
    using on(1) by (simp add: at_point_def on_object_def machine_wf_def)
  moreover have "straight_on a" using assms(3) by (cases a) simp_all
  ultimately have "at_point en (sm_g m) d (sm_stack m) m'"
    using straight_on_out [of en "sm_g m" d1 "sm_stack m" "m\<lparr>sm_decoder := d1\<rparr>" a d pc depth] d(1,2) m'(1) by auto
  moreover have "same_frame (m\<lparr>sm_decoder := d1\<rparr>) m'"
    using fits_same_frame [OF assms(3)] d(1) m'(1) by simp
  ultimately show ?thesis
    using m'(2) takes_step [OF m'(1), of "length (sm_stack m)"] d(3)
    by (auto simp: goes_def moved_def same_frame_def at_point_def object_step_def split: prod.splits)
qed

text \<open>An operation that changes only the stack and moves on, and one that jumps.\<close>

lemma goes_next:
  assumes "at_code en prog base o' bs p m" "op_end prog a p = Some q"
    and "\<And>d1 d. decode_operands (code_of a) d1 = Inr (Some a, d) \<Longrightarrow>
      exec_op en pc depth (code_of a) (m\<lparr>sm_decoder := d1\<rparr>) = Some (Inr (Next, m\<lparr>sm_decoder := d, sm_stack := s\<rparr>))"
  shows "\<exists>m'. goes en pc depth base 1 m (o', bs, []) q s m'"
  by (rule control_start [OF assms(1,2), of pc depth], rule goes_control [OF assms(1)]) (simp_all add: assms(3))

lemma SetPC_inside: "unat pc < length (dec_opBuf d) \<Longrightarrow> length (dec_opBuf d) < 2 ^ 32 \<Longrightarrow> SetPC pc d = (True, d\<lparr>dec_pc := pc\<rparr>)"
  by (auto simp: SetPC_def not_le word_less_nat_alt unat_of_nat_u32)

lemma goes_jump:
  assumes "at_code en prog base o' bs p m" "op_end prog a p = Some q" "unat t < length prog"
    and "\<And>d1 d. decode_operands (code_of a) d1 = Inr (Some a, d) \<Longrightarrow> dec_pc d = q \<Longrightarrow> SetPC t d = (True, d\<lparr>dec_pc := t\<rparr>) \<Longrightarrow>
      exec_op en pc depth (code_of a) (m\<lparr>sm_decoder := d1\<rparr>) =
        Some (Inr (Next, m\<lparr>sm_decoder := d\<lparr>dec_pc := t\<rparr>, sm_stack := s\<rparr>))"
  shows "\<exists>m'. goes en pc depth base 1 m (o', bs, []) t s m'"
proof (rule control_start [OF assms(1,2)])
  fix d1 d
  assume d: "step en pc depth m = exec_op en pc depth (code_of a) (m\<lparr>sm_decoder := d1\<rparr>)"
    "decode_operands (code_of a) d1 = Inr (Some a, d)" "dec_pc d = q" "dec_opBuf d = prog"
  have "SetPC t d = (True, d\<lparr>dec_pc := t\<rparr>)" using SetPC_inside [of t d] assms(1,3) d(4) by (simp add: at_code_def)
  from assms(4) [OF d(2,3) this] show ?thesis
    by (intro goes_control [OF assms(1), of "d\<lparr>dec_pc := t\<rparr>"]) (simp_all add: d(1,4))
qed

lemmas exec_stack_defs =
  res_simps m_decode_def m_append_def m_top_def m_set_top_def exec_PushOffset_def exec_PushImm_def exec_PushSliceLen_def
  exec_Decrement_def exec_Pop_def exec_CondJump_def exec_Call_def exec_return_def ExecuteReturn_def jump_to_def
  m_SetPC_def PC_def DecodeReturn_def

lemma goes_PushOffset:
  assumes "at_code en prog base o' bs p m" "op_end prog APushOffset p = Some q"
  shows "\<exists>m'. goes en pc depth base 1 m (o', bs, []) q (sm_offset m # sm_stack m) m'"
  by (rule goes_next [OF assms]) (auto simp: exec_stack_defs)

lemma goes_PushImm:
  assumes "at_code en prog base o' bs p m" "op_end prog (APushImm i) p = Some q"
  shows "\<exists>m'. goes en pc depth base 1 m (o', bs, []) q (pushImm_Value i # sm_stack m) m'"
  by (rule goes_next [OF assms]) (auto simp: exec_stack_defs)

lemma goes_PushSliceLen:
  assumes "at_code en prog base 0 bs p m" "op_end prog (APushSliceLen r) p = Some q" "pushLen_ElemByteLen r \<noteq> 0"
  shows "\<exists>m'. goes en pc depth base 1 m (0, bs, []) q (of_nat (length bs) div pushLen_ElemByteLen r # sm_stack m) m'"
proof -
  have "unat (sm_offset m) = base" using assms(1) by (simp add: at_code_def on_object_def)
  then have "sm_offset m = of_nat base" by auto
  then have "GetEntryLen (sm_offset m) (sm_b m) = Inr (of_nat (length bs))" using assms(1) by (simp add: at_code_def)
  then show ?thesis by (intro goes_next [OF assms(1,2)]) (use assms(3) in \<open>auto simp: exec_stack_defs\<close>)
qed

lemma goes_Decrement:
  assumes "at_code en prog base o' bs p m" "op_end prog ADecrement p = Some q" "sm_stack m = x # s"
  shows "\<exists>m'. goes en pc depth base 1 m (o', bs, []) q ((x - 1) # s) m'"
  by (rule goes_next [OF assms(1,2)]) (use assms(3) in \<open>auto simp: exec_stack_defs\<close>)

lemma goes_Pop:
  assumes "at_code en prog base o' bs p m" "op_end prog APop p = Some q" "sm_stack m = x # s"
  shows "\<exists>m'. goes en pc depth base 1 m (o', bs, []) q s m'"
  by (rule goes_next [OF assms(1,2)]) (use assms(3) in \<open>auto simp: exec_stack_defs\<close>)

lemma goes_CondJump:
  assumes "at_code en prog base o' bs p m" "op_end prog (ACondJump r) p = Some q" "sm_stack m = x # s"
    and "x \<noteq> 0 \<Longrightarrow> unat (condJump_Pc r) < length prog"
  shows "\<exists>m'. goes en pc depth base 1 m (o', bs, []) (if x \<noteq> 0 then condJump_Pc r else q) (x # s) m'"
proof (cases "x = 0")
  case True
  have "\<exists>m'. goes en pc depth base 1 m (o', bs, []) q (x # s) m'"
    by (rule goes_next [OF assms(1,2)]) (use assms(3) True in \<open>auto simp: exec_stack_defs\<close>)
  with True show ?thesis by simp
next
  case False
  have "\<exists>m'. goes en pc depth base 1 m (o', bs, []) (condJump_Pc r) (x # s) m'"
    by (rule goes_jump [OF assms(1,2) assms(4) [OF False]]) (use assms(3) False in \<open>auto simp: exec_stack_defs\<close>)
  with False show ?thesis by simp
qed

lemma goes_Call:
  assumes "at_code en prog base o' bs p m" "op_end prog (ACall r) p = Some q" "unat (call_Pc r) < length prog"
  shows "\<exists>m'. goes en pc depth base 1 m (o', bs, []) (call_Pc r) (q # sm_stack m) m'"
  by (rule goes_jump [OF assms]) (auto simp: exec_stack_defs)

lemma goes_Return:
  assumes "at_code en prog base o' bs p m" "op_end prog AReturn p = Some q" "sm_stack m = ra # s" "unat ra < length prog"
  shows "\<exists>m'. goes en pc depth base 1 m (o', bs, []) ra s m'"
  by (rule goes_jump [OF assms(1,2,4)]) (use assms(3) in \<open>auto simp: exec_stack_defs\<close>)

lemma goes_SetOffset:
  assumes "at_code en prog base o' bs p m" "op_end prog ASetOffset p = Some q" "sm_stack m = x # s"
    and "unat x = base + o1" "o1 \<le> length bs"
  shows "\<exists>m'. goes en pc depth base 1 m (o1, bs, []) q (x # s) m'"
proof (rule control_start [OF assms(1,2)])
  fix d1 d
  assume d: "step en pc depth m = exec_op en pc depth (code_of ASetOffset) (m\<lparr>sm_decoder := d1\<rparr>)"
    "decode_operands (code_of ASetOffset) d1 = Inr (Some ASetOffset, d)" "dec_pc d = q" "dec_opBuf d = prog"
  define m' where "m' = m\<lparr>sm_decoder := d, sm_offset := x\<rparr>"
  have on: "on_object en base o' bs m" "dec_opBuf (sm_decoder m) = prog" using assms(1) by (simp_all add: at_code_def)
  have "step en pc depth m = Some (Inr (Next, m'))"
    using d(1,2) assms(3) by (auto simp: res_simps exec_SetOffset_def m_decode_def m_top_def m'_def)
  moreover have "moved en base m (o1, bs, []) m'"
    using object_step_refl [OF on(1)] on assms(4,5) d(4)
    by (simp add: moved_def m'_def object_step_def on_object_def machine_wf_def same_frame_def)
  ultimately show ?thesis
    using takes_step [of en pc depth m m' "length (x # s)"] d(3) assms(3)
    by (auto simp: goes_def m'_def simp del: list.size intro!: exI [of _ m'])
qed

text \<open>The header of a map: two arrays of buckets may be pushed, and the word on the stack is cleared.\<close>

lemma on_object_load8:
  assumes "on_object en base o' bs m" "o' + unat (x :: u8) < length bs"
  shows "ob_load8 (Ptr (sm_offset m + ucast x)) (sm_b m) = Inr (bs ! (o' + unat x))"
proof -
  define k where "k = o' + unat x"
  note bd = on_object_bounds(1,3) [OF assms(1)]
  have "Ptr (sm_offset m + ucast x) = base + k"
    using on_object_add [OF assms(1), of "ucast x"] assms(2) by (simp add: Ptr_def unat_ucast_u8 k_def)
  moreover have "sub (ob_arr (sm_b m)) (base + k) 1 = [bs ! k]"
  proof -
    have "sub (ob_arr (sm_b m)) (base + k) 1 = sub bs k 1"
      using assms sub_sub [of k 1 "length bs" "ob_arr (sm_b m)" base] by (simp add: on_object_def k_def)
    also have "\<dots> = [bs ! k]" using assms(2) by (simp add: sub_def k_def take_Suc_conv_app_nth)
    finally show ?thesis .
  qed
  ultimately show ?thesis
    using assms(2) bd by (simp add: ob_load8_def ob_load_def k_def [symmetric])
qed

lemma object_step_optional:
  assumes "on_object en base o' bs m"
  obtains m' where "(if a = 0 then Inr m else m_push a t n m) = Inr m'"
    "object_step en base m o' bs (if a = 0 then [] else [\<lparr>qe_Type = t, qe_Len = n, qe_Addr = a\<rparr>]) m'"
    "sm_decoder m' = sm_decoder m" "same_frame m m'"
proof (cases "a = 0")
  case True
  with that [of m] object_step_refl [OF assms] show thesis by (simp add: same_frame_def)
next
  case False
  obtain m' where "m_push a t n m = Inr m'" "object_step en base m o' bs [\<lparr>qe_Type = t, qe_Len = n, qe_Addr = a\<rparr>] m'"
    "sm_decoder m' = sm_decoder m" by (rule object_step_push [OF object_step_refl [OF assms]])
  with that [of m'] False m_same_frame(2) show thesis by simp
qed

lemma goes_HMapHeader:
  assumes "at_code en prog base o' bs p m" "op_end prog (AEnqueueHMapHeader r) p = Some q" "sm_stack m = x # s"
    and "hmap_fits r o' (length bs)"
  shows "\<exists>m'. goes en pc depth base 1 m (o', bs, hmap_refs r o' bs) q (0 # s) m'"
proof (rule control_start [OF assms(1,2)])
  fix d1 d
  assume d: "step en pc depth m = exec_op en pc depth (code_of (AEnqueueHMapHeader r)) (m\<lparr>sm_decoder := d1\<rparr>)"
    "decode_operands (code_of (AEnqueueHMapHeader r)) d1 = Inr (Some (AEnqueueHMapHeader r), d)" "dec_pc d = q" "dec_opBuf d = prog"
  define m0 where "m0 = m\<lparr>sm_decoder := d, sm_stack := 0 # s\<rparr>"
  have "on_object en base o' bs (m\<lparr>sm_stack := 0 # s\<rparr>)" "dec_opBuf (sm_decoder m) = prog"
    using assms(1) by (simp_all add: at_code_def)
  from object_step_decoder [OF object_step_refl [OF this(1)]] this(2) d(4)
  have st0: "object_step en base (m\<lparr>sm_stack := 0 # s\<rparr>) o' bs [] m0"
    by (simp add: m0_def object_step_def on_object_def machine_wf_def)
  then have on0: "on_object en base o' bs m0" by (simp add: object_step_def)
  define flags where "flags = bs ! (o' + unat (hmap_FlagsOffset r))"
  define num where "num = (push_bit (unat (bs ! (o' + unat (hmap_BOffset r)))) 1 :: u32)"
  define new where "new = u64_at bs (o' + unat (hmap_BucketsOffset r))"
  define old where "old = u64_at bs (o' + unat (hmap_OldBucketsOffset r))"
  define oldNum where "oldNum = (if flags AND sameSizeGrow = 0 then drop_bit 1 num else num)"
  define t where "t = hmap_BucketsArrayType r"
  define l where "l = hmap_BucketByteLen r"
  obtain m1 where m1: "(if new = 0 then Inr m0 else m_push new t (num * l) m0) = Inr m1"
    "object_step en base m0 o' bs (if new = 0 then [] else [\<lparr>qe_Type = t, qe_Len = num * l, qe_Addr = new\<rparr>]) m1"
    "sm_decoder m1 = sm_decoder m0" "same_frame m0 m1" by (rule object_step_optional [OF on0])
  then have on1: "on_object en base o' bs m1" by (simp add: object_step_def)
  obtain m2 where m2: "(if old = 0 then Inr m1 else m_push old t (oldNum * l) m1) = Inr m2"
    "object_step en base m1 o' bs (if old = 0 then [] else [\<lparr>qe_Type = t, qe_Len = oldNum * l, qe_Addr = old\<rparr>]) m2"
    "sm_decoder m2 = sm_decoder m1" "same_frame m1 m2" by (rule object_step_optional [OF on1])
  have loads: "ob_load8 (Ptr (sm_offset m0 + ucast (hmap_FlagsOffset r))) (sm_b m0) = Inr flags"
    "ob_load8 (Ptr (sm_offset m0 + ucast (hmap_BOffset r))) (sm_b m0) = Inr (bs ! (o' + unat (hmap_BOffset r)))"
    "ob_load64 (Ptr (sm_offset m0 + ucast (hmap_BucketsOffset r))) (sm_b m0) = Inr new"
    "ob_load64 (Ptr (sm_offset m1 + ucast (hmap_OldBucketsOffset r))) (sm_b m1) = Inr old"
    using assms(4) on_object_load8 [OF on0] on_object_load_u8 [OF on0] on_object_load_u8 [OF on1]
    by (simp_all add: flags_def new_def old_def)
  have dec: "m_set_top 0 (m\<lparr>sm_decoder := d1\<rparr>) = Inr (m\<lparr>sm_decoder := d1, sm_stack := 0 # s\<rparr>)"
    "m_decode DecodeEnqueueHMapHeader (m\<lparr>sm_decoder := d1, sm_stack := 0 # s\<rparr>) = Inr (r, m0)"
    using d(2) assms(3) by (auto simp: res_simps m_set_top_def m_decode_def m0_def)
  have "exec_EnqueueHMapHeader (m\<lparr>sm_decoder := d1\<rparr>) = Inr (Next, m2)"
    using m1(1) m2(1) loads unfolding exec_EnqueueHMapHeader_def dec bindE_Inr
    by (cases "new = 0"; cases "old = 0"; cases "flags AND sameSizeGrow = 0")
      (simp_all add: num_def t_def l_def oldNum_def Let_def)
  then have st: "step en pc depth m = Some (Inr (Next, m2))" using d(1) by simp
  have refs: "hmap_refs r o' bs = (if new = 0 then [] else [\<lparr>qe_Type = t, qe_Len = num * l, qe_Addr = new\<rparr>]) @
      (if old = 0 then [] else [\<lparr>qe_Type = t, qe_Len = oldNum * l, qe_Addr = old\<rparr>])"
    unfolding hmap_refs_def Let_def flags_def num_def new_def old_def oldNum_def t_def l_def by (rule refl)
  have fit: "base + length bs \<le> length (ob_arr (sm_b m0))" by (rule on_object_bounds(3) [OF on0])
  have "object_step en base m0 o' bs (hmap_refs r o' bs) m2"
    unfolding refs by (rule object_step_trans [OF m1(2) m2(2) refl fit])
  from object_step_trans [OF st0 this refl] fit
  have "object_step en base (m\<lparr>sm_stack := 0 # s\<rparr>) o' bs (hmap_refs r o' bs) m2" by (simp add: m0_def)
  then have "moved en base m (o', bs, hmap_refs r o' bs) m2" "sm_stack m2 = 0 # s"
    using object_step_stack [of en base "m\<lparr>sm_stack := 0 # s\<rparr>" o' bs "hmap_refs r o' bs" m2 "sm_stack m"]
      m1(4) m2(4) by (simp_all add: moved_def object_step_def same_frame_def m0_def)
  then show ?thesis
    using takes_step [OF st, of "length (0 # s)"] m1(3) m2(3) d(3) by (auto simp: goes_def m0_def)
qed

subsection \<open>The interpreter implements the meaning\<close>

text \<open>What is to be shown of a piece of code between two program counters, for every object and machine.\<close>

definition implements ::
  "run_env \<Rightarrow> u32 \<Rightarrow> u32 \<Rightarrow> u8 list \<Rightarrow> nat \<Rightarrow> nat \<Rightarrow> type_code \<Rightarrow> u32 \<Rightarrow> u32 \<Rightarrow> bool" where
  "implements en pc depth prog base n c p q \<longleftrightarrow>
     (\<forall>o' o1 bs m. at_code en prog base o' bs p m \<longrightarrow> length bs = n \<longrightarrow> code_fit en n c o' = Some o1 \<longrightarrow>
       (\<exists>bs1 r m1. code_sem en c o' bs = (o1, bs1, r) \<and> length bs1 = n \<and>
          goes en pc depth base (code_steps n c) m (o1, bs1, r) q (sm_stack m) m1))"

lemma implementsD:
  assumes "implements en pc depth prog base n c p q" "at_code en prog base o' bs p m" "length bs = n"
    and "code_fit en n c o' = Some o1"
  obtains bs1 r m1 where "code_sem en c o' bs = (o1, bs1, r)" "length bs1 = n"
    "goes en pc depth base (code_steps n c) m (o1, bs1, r) q (sm_stack m) m1" "at_code en prog base o1 bs1 q m1"
    "sm_stack m1 = sm_stack m"
proof -
  obtain bs1 r m1 where *: "code_sem en c o' bs = (o1, bs1, r)" "length bs1 = n"
    "goes en pc depth base (code_steps n c) m (o1, bs1, r) q (sm_stack m) m1"
    using assms unfolding implements_def by blast
  with at_code_goes [OF assms(2) *(3)] assms(3) that show thesis by (auto simp: goes_def)
qed

text \<open>A piece of the run whose end is again at code.\<close>

lemma goesE:
  assumes "\<exists>m1. goes en pc depth base k m (o1, bs1, r) q s m1" "at_code en prog base o' bs p m" "length bs1 = length bs"
  obtains m1 where "goes en pc depth base k m (o1, bs1, r) q s m1" "at_code en prog base o1 bs1 q m1" "sm_stack m1 = s"
  using assms at_code_goes [OF assms(2)] by (auto simp: goes_def)

text \<open>One round of a loop, and the rounds from the body on, \<open>k\<close> more after this one, up to the word that is popped.\<close>

lemma goes_round:
  assumes "implements en pc depth prog base n c l p2" "op_end prog ADecrement p2 = Some p3"
    and "op_end prog (ACondJump \<lparr>condJump_Pc = l\<rparr>) p3 = Some p4" "unat l < length prog"
    and "at_code en prog base o' bs l m" "length bs = n" "sm_stack m = x # s" "code_fit en n c o' = Some o1"
  obtains bs1 r m1 where "code_sem en c o' bs = (o1, bs1, r)" "length bs1 = n"
    "goes en pc depth base (code_steps n c + 2) m (o1, bs1, r) (if x - 1 \<noteq> 0 then l else p4) ((x - 1) # s) m1"
    "at_code en prog base o1 bs1 (if x - 1 \<noteq> 0 then l else p4) m1" "sm_stack m1 = (x - 1) # s"
proof -
  obtain bs1 r m1 where c: "code_sem en c o' bs = (o1, bs1, r)" "length bs1 = n"
    "goes en pc depth base (code_steps n c) m (o1, bs1, r) p2 (sm_stack m) m1" "at_code en prog base o1 bs1 p2 m1"
    "sm_stack m1 = sm_stack m" by (rule implementsD [OF assms(1,5,6,8)])
  have s1: "sm_stack m1 = x # s" using c(5) assms(7) by simp
  obtain m2 where m2: "goes en pc depth base 1 m1 (o1, bs1, []) p3 ((x - 1) # s) m2" "at_code en prog base o1 bs1 p3 m2"
    "sm_stack m2 = (x - 1) # s"
    by (rule goesE [OF goes_Decrement [OF c(4) assms(2) s1, of pc depth] c(4) refl])
  have "x - 1 \<noteq> 0 \<Longrightarrow> unat (condJump_Pc \<lparr>condJump_Pc = l\<rparr>) < length prog" using assms(4) by simp
  note goes_CondJump [OF m2(2) assms(3) m2(3) this, of pc depth, unfolded OpCondJump.select_convs]
  from goesE [OF this m2(2) refl] obtain m3 where
    m3: "goes en pc depth base 1 m2 (o1, bs1, []) (if x - 1 \<noteq> 0 then l else p4) ((x - 1) # s) m3"
    "at_code en prog base o1 bs1 (if x - 1 \<noteq> 0 then l else p4) m3" "sm_stack m3 = (x - 1) # s" .
  have "goes en pc depth base (code_steps n c + (1 + 1)) m (o1, bs1, r @ [] @ []) (if x - 1 \<noteq> 0 then l else p4) ((x - 1) # s) m3"
    by (rule goes_trans [OF assms(5) c(3) goes_trans [OF c(4) m2(1) m3(1)]]) (simp_all add: c(2,5) assms(6,7) s1)
  then show thesis using that [OF c(1,2) _ m3(2,3)] by (simp add: numeral_2_eq_2)
qed

lemma goes_rounds:
  assumes body: "implements en pc depth prog base n c l p2"
    and ops: "op_end prog ADecrement p2 = Some p3" "op_end prog (ACondJump \<lparr>condJump_Pc = l\<rparr>) p3 = Some p4"
    and l: "unat l < length prog"
  shows "at_code en prog base o' bs l m \<Longrightarrow> length bs = n \<Longrightarrow> sm_stack m = x # s \<Longrightarrow> unat x = Suc k \<Longrightarrow>
    repeat_fit (Suc k) (code_fit en n c) o' = Some o1 \<Longrightarrow>
    \<exists>bs1 r m1. repeat_sem (Suc k) (code_sem en c) o' bs = (o1, bs1, r) \<and> length bs1 = n \<and>
      goes en pc depth base (Suc k * (code_steps n c + 2)) m (o1, bs1, r) p4 (0 # s) m1"
proof (induction k arbitrary: o' bs m x)
  case (0 o' bs m x)
  then have fit: "code_fit en n c o' = Some o1" by (auto simp: bind_eq_Some_conv)
  have "x = of_nat (unat x)" by simp
  then have x: "x - 1 = 0" by (simp add: 0(4))
  obtain bs1 r m1 where c: "code_sem en c o' bs = (o1, bs1, r)" "length bs1 = n"
    "goes en pc depth base (code_steps n c + 2) m (o1, bs1, r) p4 (0 # s) m1"
    "at_code en prog base o1 bs1 p4 m1" "sm_stack m1 = 0 # s"
    using goes_round [OF body ops l 0(1-3) fit] by (auto simp: x)
  then show ?case by (auto simp: then_sem_def)
next
  case (Suc k o' bs m x)
  obtain o2 where fit: "code_fit en n c o' = Some o2" "repeat_fit (Suc k) (code_fit en n c) o2 = Some o1"
    using Suc.prems(5) by (auto simp: bind_eq_Some_conv)
  have x: "x - 1 \<noteq> 0" "unat (x - 1) = Suc k" using Suc.prems(4) by (auto simp: unat_sub_if_size)
  obtain bs1 r m1 where c: "code_sem en c o' bs = (o2, bs1, r)" "length bs1 = n"
    "goes en pc depth base (code_steps n c + 2) m (o2, bs1, r) l ((x - 1) # s) m1"
    "at_code en prog base o2 bs1 l m1" "sm_stack m1 = (x - 1) # s"
    using goes_round [OF body ops l Suc.prems(1-3) fit(1)] x(1) by auto
  obtain bs2 r2 m2 where m2: "repeat_sem (Suc k) (code_sem en c) o2 bs1 = (o1, bs2, r2)" "length bs2 = n"
    "goes en pc depth base (Suc k * (code_steps n c + 2)) m1 (o1, bs2, r2) p4 (0 # s) m2"
    using Suc.IH [OF c(4,2,5) x(2) fit(2)] by blast
  have "goes en pc depth base (code_steps n c + 2 + Suc k * (code_steps n c + 2)) m (o1, bs2, r @ r2) p4 (0 # s) m2"
    by (rule goes_trans [OF Suc.prems(1) c(3) m2(3)]) (simp_all add: c(2) m2(2) Suc.prems(2,3))
  moreover have "code_steps n c + 2 + Suc k * (code_steps n c + 2) = Suc (Suc k) * (code_steps n c + 2)" by simp
  moreover have "repeat_sem (Suc (Suc k)) (code_sem en c) o' bs = (o1, bs2, r @ r2)"
    by (simp only: repeat_sem.simps(2) [of "Suc k"] then_sem_def c(1) m2(1) Let_def split)
  ultimately show ?case using m2(2) by metis
qed

lemma implementsI:
  assumes "\<And>o' o1 bs m. at_code en prog base o' bs p m \<Longrightarrow> length bs = n \<Longrightarrow> code_fit en n c o' = Some o1 \<Longrightarrow>
    \<exists>bs1 r m1. code_sem en c o' bs = (o1, bs1, r) \<and> length bs1 = n \<and>
      goes en pc depth base (code_steps n c) m (o1, bs1, r) q (sm_stack m) m1"
  shows "implements en pc depth prog base n c p q"
  using assms unfolding implements_def by blast

lemma goes_nothing: "at_code en prog base o' bs p m \<Longrightarrow> goes en pc depth base 0 m (o', bs, []) p (sm_stack m) m"
  using object_step_refl [of en base o' bs m] by (simp add: goes_def takes_def moved_def same_frame_def at_code_def)

lemma TOp_implements:
  assumes "op_end prog a p = Some q"
  shows "implements en pc depth prog base n (TOp a) p q"
proof (rule implementsI)
  fix o' o1 bs m
  assume h: "at_code en prog base o' bs p m" "length bs = n" "code_fit en n (TOp a) o' = Some o1"
  then have "op_fits en a o' (length bs)" "o1 = op_advance a o'" by (auto split: if_splits)
  with goes_op [OF h(1) assms this(1), of pc depth] op_sem_length [of en a o' bs] h(2)
  show "\<exists>bs1 r m1. code_sem en (TOp a) o' bs = (o1, bs1, r) \<and> length bs1 = n \<and>
      goes en pc depth base (code_steps n (TOp a)) m (o1, bs1, r) q (sm_stack m) m1"
    by (cases "op_sem en a o' bs") auto
qed

lemma TSeq_implements:
  assumes "implements en pc depth prog base n c p p1" "implements en pc depth prog base n d p1 q"
  shows "implements en pc depth prog base n (TSeq c d) p q"
proof (rule implementsI)
  fix o' o1 bs m
  assume h: "at_code en prog base o' bs p m" "length bs = n" "code_fit en n (TSeq c d) o' = Some o1"
  then obtain o2 where fit: "code_fit en n c o' = Some o2" "code_fit en n d o2 = Some o1"
    by (auto simp: bind_eq_Some_conv)
  obtain bs1 r1 m1 where c: "code_sem en c o' bs = (o2, bs1, r1)" "length bs1 = n"
    "goes en pc depth base (code_steps n c) m (o2, bs1, r1) p1 (sm_stack m) m1" "at_code en prog base o2 bs1 p1 m1"
    "sm_stack m1 = sm_stack m" by (rule implementsD [OF assms(1) h(1,2) fit(1)])
  obtain bs2 r2 m2 where d: "code_sem en d o2 bs1 = (o1, bs2, r2)" "length bs2 = n"
    "goes en pc depth base (code_steps n d) m1 (o1, bs2, r2) q (sm_stack m1) m2"
    by (rule implementsD [OF assms(2) c(4,2) fit(2)])
  have "goes en pc depth base (code_steps n c + code_steps n d) m (o1, bs2, r1 @ r2) q (sm_stack m1) m2"
    by (rule goes_trans [OF h(1) c(3) d(3)]) (simp_all add: c(2,5) d(2) h(2))
  then show "\<exists>bs1 r m1. code_sem en (TSeq c d) o' bs = (o1, bs1, r) \<and> length bs1 = n \<and>
      goes en pc depth base (code_steps n (TSeq c d)) m (o1, bs1, r) q (sm_stack m) m1"
    using c(1,5) d(1,2) by (auto simp: then_sem_def)
qed

lemma TCall_implements:
  assumes "op_end prog (ACall \<lparr>call_Pc = t\<rparr>) p = Some r" "implements en pc depth prog base n c t q"
    and "op_end prog AReturn q = Some q'" "unat t < length prog" "unat r < length prog"
  shows "implements en pc depth prog base n (TCall t c) p r"
proof (rule implementsI)
  fix o' o1 bs m
  assume h: "at_code en prog base o' bs p m" "length bs = n" "code_fit en n (TCall t c) o' = Some o1"
  have t: "unat (call_Pc \<lparr>call_Pc = t\<rparr>) < length prog" using assms(4) by simp
  obtain m1 where m1: "goes en pc depth base 1 m (o', bs, []) t (r # sm_stack m) m1" "at_code en prog base o' bs t m1"
    "sm_stack m1 = r # sm_stack m"
    by (rule goesE [OF goes_Call [OF h(1) assms(1) t, of pc depth, unfolded OpCall.select_convs] h(1) refl])
  have fit: "code_fit en n c o' = Some o1" using h(3) by simp
  obtain bs1 r1 m2 where c: "code_sem en c o' bs = (o1, bs1, r1)" "length bs1 = n"
    "goes en pc depth base (code_steps n c) m1 (o1, bs1, r1) q (sm_stack m1) m2" "at_code en prog base o1 bs1 q m2"
    "sm_stack m2 = sm_stack m1" by (rule implementsD [OF assms(2) m1(2) h(2) fit])
  have s2: "sm_stack m2 = r # sm_stack m" using c(5) m1(3) by simp
  obtain m3 where m3: "goes en pc depth base 1 m2 (o1, bs1, []) r (sm_stack m) m3"
    by (rule goesE [OF goes_Return [OF c(4) assms(3) s2 assms(5), of pc depth] c(4) refl])
  have "goes en pc depth base (1 + (code_steps n c + 1)) m (o1, bs1, [] @ r1 @ []) r (sm_stack m) m3"
    by (rule goes_trans [OF h(1) m1(1) goes_trans [OF m1(2) c(3) m3]]) (simp_all add: c(2,5) h(2) m1(3))
  then show "\<exists>bs1 r' m1. code_sem en (TCall t c) o' bs = (o1, bs1, r') \<and> length bs1 = n \<and>
      goes en pc depth base (code_steps n (TCall t c)) m (o1, bs1, r') r (sm_stack m) m1"
    using c(1,2) by auto
qed

lemma TKeep_implements:
  assumes "op_end prog APushOffset p = Some p1" "implements en pc depth prog base n c p1 p2"
    and "op_end prog ASetOffset p2 = Some p3" "op_end prog APop p3 = Some q"
  shows "implements en pc depth prog base n (TKeep c) p q"
proof (rule implementsI)
  fix o' o1 bs m
  assume h: "at_code en prog base o' bs p m" "length bs = n" "code_fit en n (TKeep c) o' = Some o1"
  obtain o2 where fit: "code_fit en n c o' = Some o2" "o1 = o'"
    using h(3) by (cases "code_fit en n c o'") simp_all
  have off: "unat (sm_offset m) = base + o'" "o' \<le> length bs" using h(1) by (simp_all add: at_code_def on_object_def)
  obtain m1 where m1: "goes en pc depth base 1 m (o', bs, []) p1 (sm_offset m # sm_stack m) m1" "at_code en prog base o' bs p1 m1"
    "sm_stack m1 = sm_offset m # sm_stack m"
    by (rule goesE [OF goes_PushOffset [OF h(1) assms(1), of pc depth] h(1) refl])
  obtain bs1 r1 m2 where c: "code_sem en c o' bs = (o2, bs1, r1)" "length bs1 = n"
    "goes en pc depth base (code_steps n c) m1 (o2, bs1, r1) p2 (sm_stack m1) m2" "at_code en prog base o2 bs1 p2 m2"
    "sm_stack m2 = sm_stack m1" by (rule implementsD [OF assms(2) m1(2) h(2) fit(1)])
  have s2: "sm_stack m2 = sm_offset m # sm_stack m" using c(5) m1(3) by simp
  have o1: "o' \<le> length bs1" using off(2) h(2) c(2) by simp
  obtain m3 where m3: "goes en pc depth base 1 m2 (o', bs1, []) p3 (sm_offset m # sm_stack m) m3" "at_code en prog base o' bs1 p3 m3"
    "sm_stack m3 = sm_offset m # sm_stack m"
    by (rule goesE [OF goes_SetOffset [OF c(4) assms(3) s2 off(1) o1, of pc depth] c(4) refl])
  obtain m4 where m4: "goes en pc depth base 1 m3 (o', bs1, []) q (sm_stack m) m4"
    by (rule goesE [OF goes_Pop [OF m3(2) assms(4) m3(3), of pc depth] m3(2) refl])
  have "goes en pc depth base (1 + (code_steps n c + (1 + 1))) m (o', bs1, [] @ r1 @ [] @ []) q (sm_stack m) m4"
    by (rule goes_trans [OF h(1) m1(1) goes_trans [OF m1(2) c(3) goes_trans [OF c(4) m3(1) m4]]])
      (simp_all add: c(2,5) h(2) m1(3))
  then show "\<exists>bs1 r m1. code_sem en (TKeep c) o' bs = (o1, bs1, r) \<and> length bs1 = n \<and>
      goes en pc depth base (code_steps n (TKeep c)) m (o1, bs1, r) q (sm_stack m) m1"
    using c(1,2) fit(2) by (auto simp: numeral_3_eq_3)
qed

lemma loop_push:
  assumes "at_code en prog base o' bs p m" "op_end prog a p = Some l" "loop_ready a o' (length bs)"
  obtains x m1 where "goes en pc depth base 1 m (o', bs, []) l (x # sm_stack m) m1" "unat x = loop_count a (length bs)" "0 < unat x"
proof -
  have n: "length bs < 2 ^ 32"
    using on_object_bounds(1,2) [of en base o' bs m] assms(1) by (simp add: at_code_def)
  consider (imm) i where "a = APushImm i" | (len) r where "a = APushSliceLen r" using assms(3) by (cases a) auto
  then show thesis
  proof cases
    case imm
    then have "pushImm_Value i \<noteq> 0" using assms(3) by simp
    then have "0 < unat (pushImm_Value i)" by (simp add: unat_gt_0)
    with imm goes_PushImm [OF assms(1), of i l pc depth] assms(2) that show thesis by auto
  next
    case len
    define k where "k = pushLen_ElemByteLen r"
    have k: "o' = 0" "k \<noteq> 0" "unat k \<le> length bs" using assms(3) len by (simp_all add: k_def)
    have "0 < unat k" using k(2) by (simp add: unat_gt_0)
    moreover have "unat (of_nat (length bs) div k) = length bs div unat k"
      using n by (simp add: unat_div unat_of_nat_u32)
    ultimately have "unat (of_nat (length bs) div k) = loop_count a (length bs)" "0 < unat (of_nat (length bs) div k)"
      using k(3) len by (simp_all add: k_def div_greater_zero_iff)
    with len goes_PushSliceLen [of en prog base bs p m r l pc depth] assms(1,2) k(1,2) that show thesis
      by (auto simp: k_def)
  qed
qed

text \<open>A loop is the push, the rounds, with a word on the stack, and the pop.\<close>

lemma loop_goes:
  assumes "op_end prog a p = Some l" "implements en pc depth prog base n c l p2" "op_end prog ADecrement p2 = Some p3"
    and "op_end prog (ACondJump \<lparr>condJump_Pc = l\<rparr>) p3 = Some p4" "unat l < length prog"
    and h: "at_code en prog base o' bs p m" "length bs = n" "code_fit en n (TTimes a c) o' = Some o1"
  obtains x m1 bs1 r m2 where "goes en pc depth base 1 m (o', bs, []) l (x # sm_stack m) m1" "at_code en prog base o' bs l m1"
    "sm_stack m1 = x # sm_stack m" "code_sem en (TTimes a c) o' bs = (o1, bs1, r)" "length bs1 = n"
    "goes en pc depth base (loop_count a n * (code_steps n c + 2)) m1 (o1, bs1, r) p4 (0 # sm_stack m) m2"
    "at_code en prog base o1 bs1 p4 m2" "sm_stack m2 = 0 # sm_stack m"
proof -
  from h have rdy: "loop_ready a o' (length bs)" and fit: "repeat_fit (loop_count a n) (code_fit en n c) o' = Some o1"
    by (auto split: if_splits)
  obtain x m0 where x: "goes en pc depth base 1 m (o', bs, []) l (x # sm_stack m) m0" "unat x = loop_count a n" "0 < unat x"
    using loop_push [OF h(1) assms(1) rdy, of pc depth] h(2) by blast
  have "\<exists>m'. goes en pc depth base 1 m (o', bs, []) l (x # sm_stack m) m'" using x(1) by blast
  from goesE [OF this h(1) refl] obtain m1 where
    m1: "goes en pc depth base 1 m (o', bs, []) l (x # sm_stack m) m1" "at_code en prog base o' bs l m1"
    "sm_stack m1 = x # sm_stack m" .
  obtain k where k: "unat x = Suc k" using x(3) by (cases "unat x") auto
  have count: "loop_count a n = Suc k" using x(2) k by simp
  obtain bs1 r m2 where m2: "repeat_sem (Suc k) (code_sem en c) o' bs = (o1, bs1, r)" "length bs1 = n"
    "goes en pc depth base (Suc k * (code_steps n c + 2)) m1 (o1, bs1, r) p4 (0 # sm_stack m) m2"
    using goes_rounds [OF assms(2-5) m1(2) h(2) m1(3) k fit [unfolded count]] by blast
  have len: "length bs1 = length bs" by (simp add: m2(2) h(2))
  have at2: "at_code en prog base o1 bs1 p4 m2" by (rule at_code_goes [OF m1(2) m2(3) len])
  have sem: "code_sem en (TTimes a c) o' bs = (o1, bs1, r)"
    unfolding code_sem.simps h(2) count by (rule m2(1))
  show thesis
    by (rule that [OF m1 sem m2(2) m2(3) [folded count] at2]) (use m2(3) in \<open>simp add: goes_def\<close>)
qed

lemma TTimes_implements:
  assumes "op_end prog a p = Some l" "implements en pc depth prog base n c l p2" "op_end prog ADecrement p2 = Some p3"
    and "op_end prog (ACondJump \<lparr>condJump_Pc = l\<rparr>) p3 = Some p4" "op_end prog APop p4 = Some q" "unat l < length prog"
  shows "implements en pc depth prog base n (TTimes a c) p q"
proof (rule implementsI)
  fix o' o1 bs m
  assume h: "at_code en prog base o' bs p m" "length bs = n" "code_fit en n (TTimes a c) o' = Some o1"
  obtain x m1 bs1 r m2 where g: "goes en pc depth base 1 m (o', bs, []) l (x # sm_stack m) m1" "at_code en prog base o' bs l m1"
    "sm_stack m1 = x # sm_stack m" "code_sem en (TTimes a c) o' bs = (o1, bs1, r)" "length bs1 = n"
    "goes en pc depth base (loop_count a n * (code_steps n c + 2)) m1 (o1, bs1, r) p4 (0 # sm_stack m) m2"
    "at_code en prog base o1 bs1 p4 m2" "sm_stack m2 = 0 # sm_stack m"
    by (rule loop_goes [OF assms(1-4,6) h])
  obtain m3 where m3: "goes en pc depth base 1 m2 (o1, bs1, []) q (sm_stack m) m3"
    by (rule goesE [OF goes_Pop [OF g(7) assms(5) g(8), of pc depth] g(7) refl])
  have "goes en pc depth base (1 + (loop_count a n * (code_steps n c + 2) + 1)) m (o1, bs1, [] @ r @ []) q (sm_stack m) m3"
    by (rule goes_trans [OF h(1) g(1) goes_trans [OF g(2,6) m3]]) (simp_all add: g(3,5) h(2))
  moreover have "1 + (loop_count a n * (code_steps n c + 2) + 1) = code_steps n (TTimes a c)" by simp
  ultimately show "\<exists>bs1 r m1. code_sem en (TTimes a c) o' bs = (o1, bs1, r) \<and> length bs1 = n \<and>
      goes en pc depth base (code_steps n (TTimes a c)) m (o1, bs1, r) q (sm_stack m) m1"
    using g(4,5) by auto
qed

lemma THMap_implements:
  assumes "op_end prog (APushImm \<lparr>pushImm_Value = w\<rparr>) p = Some p1" "op_end prog (AEnqueueHMapHeader r) p1 = Some p2"
    and "op_end prog (ACondJump \<lparr>condJump_Pc = t\<rparr>) p2 = Some p3" "op_end prog APop p3 = Some q"
  shows "implements en pc depth prog base n (THMap w r t) p q"
proof (rule implementsI)
  fix o' o1 bs m
  assume h: "at_code en prog base o' bs p m" "length bs = n" "code_fit en n (THMap w r t) o' = Some o1"
  then have fit: "hmap_fits r o' (length bs)" "o1 = o'" by (auto split: if_splits)
  obtain m1 where m1: "goes en pc depth base 1 m (o', bs, []) p1 (w # sm_stack m) m1" "at_code en prog base o' bs p1 m1"
    "sm_stack m1 = w # sm_stack m"
    by (rule goesE [OF goes_PushImm [OF h(1) assms(1), of pc depth, unfolded OpPushImm.select_convs] h(1) refl])
  obtain m2 where m2: "goes en pc depth base 1 m1 (o', bs, hmap_refs r o' bs) p2 (0 # sm_stack m) m2"
    "at_code en prog base o' bs p2 m2" "sm_stack m2 = 0 # sm_stack m"
    by (rule goesE [OF goes_HMapHeader [OF m1(2) assms(2) m1(3) fit(1), of pc depth] m1(2) refl])
  have "\<exists>m'. goes en pc depth base 1 m2 (o', bs, []) p3 (0 # sm_stack m) m'"
    using goes_CondJump [OF m2(2) assms(3) m2(3), of pc depth] by simp
  from goesE [OF this m2(2) refl] obtain m3 where
    m3: "goes en pc depth base 1 m2 (o', bs, []) p3 (0 # sm_stack m) m3" "at_code en prog base o' bs p3 m3"
    "sm_stack m3 = 0 # sm_stack m" .
  obtain m4 where m4: "goes en pc depth base 1 m3 (o', bs, []) q (sm_stack m) m4"
    by (rule goesE [OF goes_Pop [OF m3(2) assms(4) m3(3), of pc depth] m3(2) refl])
  have "goes en pc depth base (1 + (1 + (1 + 1))) m (o', bs, [] @ hmap_refs r o' bs @ [] @ []) q (sm_stack m) m4"
    by (rule goes_trans [OF h(1) m1(1) goes_trans [OF m1(2) m2(1) goes_trans [OF m2(2) m3(1) m4]]]) (simp_all add: m1(3) m2(3))
  then show "\<exists>bs1 r' m1. code_sem en (THMap w r t) o' bs = (o1, bs1, r') \<and> length bs1 = n \<and>
      goes en pc depth base (code_steps n (THMap w r t)) m (o1, bs1, r') q (sm_stack m) m1"
    using fit(2) h(2) by (auto simp: numeral_eq_Suc)
qed

lemma code_implements:
  "code_end prog c p = Some q \<Longrightarrow> length prog < 2 ^ 32 \<Longrightarrow> implements en pc depth prog base n c p q"
proof (induction c arbitrary: p q)
  case TSkip
  then show ?case by (intro implementsI) (auto intro: goes_nothing)
next
  case (TOp a)
  then show ?case by (simp add: TOp_implements)
next
  case (TSeq c d)
  then obtain p1 where "code_end prog c p = Some p1" "code_end prog d p1 = Some q" by (auto simp: bind_eq_Some_conv)
  with TSeq show ?case by (intro TSeq_implements)
next
  case (TCall t c)
  then obtain r q' where "op_end prog (ACall \<lparr>call_Pc = t\<rparr>) p = Some q" "code_end prog c t = Some r"
    "op_end prog AReturn r = Some q'" "unat q < length prog"
    by (auto simp: bind_eq_Some_conv split: if_splits)
  moreover have "unat t < length prog"
    by (rule code_end_start [OF calculation(2) TCall.prems(2) op_endD(2) [OF calculation(3) TCall.prems(2)]])
  ultimately show ?case using TCall.IH TCall.prems(2) by (intro TCall_implements)
next
  case (TKeep c)
  then obtain p1 p2 p3 where "op_end prog APushOffset p = Some p1" "code_end prog c p1 = Some p2"
    "op_end prog ASetOffset p2 = Some p3" "op_end prog APop p3 = Some q" by (auto simp: bind_eq_Some_conv)
  with TKeep show ?case by (intro TKeep_implements)
next
  case (TTimes a c)
  then obtain l p2 p3 p4 where p: "op_end prog a p = Some l" "code_end prog c l = Some p2" "op_end prog ADecrement p2 = Some p3"
    "op_end prog (ACondJump \<lparr>condJump_Pc = l\<rparr>) p3 = Some p4" "op_end prog APop p4 = Some q"
    by (auto simp: bind_eq_Some_conv)
  have "unat l < length prog" by (rule code_end_start [OF p(2) TTimes.prems(2) op_endD(2) [OF p(3) TTimes.prems(2)]])
  with TTimes.IH [OF p(2) TTimes.prems(2)] p show ?case by (intro TTimes_implements)
next
  case (THMap w r t)
  then obtain p1 p2 p3 where "op_end prog (APushImm \<lparr>pushImm_Value = w\<rparr>) p = Some p1"
    "op_end prog (AEnqueueHMapHeader r) p1 = Some p2" "op_end prog (ACondJump \<lparr>condJump_Pc = t\<rparr>) p2 = Some p3"
    "op_end prog APop p3 = Some q" by (auto simp: bind_eq_Some_conv)
  then show ?case by (rule THMap_implements)
qed

subsection \<open>The program of a type\<close>

text \<open>
  A type whose program is code with a return behind it, which stays inside the object and ends before the bound of the
  interpreter. The elements of a slice cost steps, so the bound limits their number.
\<close>

definition coded_type :: "run_env \<Rightarrow> type_code \<Rightarrow> TypeInfo \<Rightarrow> QueueEntry \<Rightarrow> bool" where
  "coded_type en c ti e \<longleftrightarrow> ti_SerializeBeforeEnqueue ti \<and> length (sp_Prog (en_p en)) < 2 ^ 32 \<and>
     code_fit en (unat (qe_Len e)) c 0 \<noteq> None \<and> code_steps (unat (qe_Len e)) c < max_steps \<and>
     (case code_end (sp_Prog (en_p en)) c (ti_EnqueuePc ti) of
        None \<Rightarrow> False | Some q \<Rightarrow> op_end (sp_Prog (en_p en)) AReturn q \<noteq> None)"

lemma return_ends:
  assumes "at_code en prog base o' bs p m" "op_end prog AReturn p = Some q" "sm_stack m = []"
  obtains m' where "step en pc depth m = Some (Inr (Ret True, m'))" "object_step en base m o' bs [] m'"
proof (rule control_start [OF assms(1,2)])
  fix d1 d
  assume d: "step en pc depth m = exec_op en pc depth (code_of AReturn) (m\<lparr>sm_decoder := d1\<rparr>)"
    "decode_operands (code_of AReturn) d1 = Inr (Some AReturn, d)" "dec_pc d = q" "dec_opBuf d = prog"
  then have "dec_opBuf d1 = prog" by (auto simp: res_simps DecodeReturn_def)
  with object_step_decoder [OF object_step_refl, of en base o' bs m d1] assms(1)
  have "object_step en base m o' bs [] (m\<lparr>sm_decoder := d1\<rparr>)" by (simp add: at_code_def)
  with d(1) assms(3) show thesis by (intro that [of "m\<lparr>sm_decoder := d1\<rparr>"]) (simp_all add: exec_stack_defs)
qed

lemma Run_starts:
  assumes "ti_SerializeBeforeEnqueue ti" "runs_on en ti e off bs m"
    and "length (sp_Prog (en_p en)) < 2 ^ 32" "unat (ti_EnqueuePc ti) < length (sp_Prog (en_p en))"
  obtains m0 where "at_code en (sp_Prog (en_p en)) (unat off) 0 bs (ti_EnqueuePc ti) m0" "length bs = unat (qe_Len e)"
    "Run en (ti_EnqueuePc ti) 0 0 off m = run_steps max_steps en (ti_EnqueuePc ti) 0 m0"
    "sm_b m0 = sm_b m" "sm_q m0 = sm_q m" "sm_stack m0 = []"
proof -
  define p where "p = ti_EnqueuePc ti"
  define m0 where "m0 = m\<lparr>sm_decoder := (sm_decoder m)\<lparr>dec_pc := p\<rparr>, sm_cfa := 0, sm_offset := off\<rparr>"
  have on: "idle en m" "GetEntryLen off (sm_b m) = Inr (qe_Len e)" "object_memory en e = Some bs"
      "unat off + length bs \<le> ob_len (sm_b m)" "sub (ob_arr (sm_b m)) (unat off) (length bs) = bs"
    using assms(1,2) by (simp_all add: runs_on_def)
  have len: "length bs = unat (qe_Len e)" using on(3) Dereference_length by (simp add: object_memory_def)
  have buf: "dec_opBuf (sm_decoder m) = sp_Prog (en_p en)" using on(1) by (simp add: idle_def)
  have "at_code en (sp_Prog (en_p en)) (unat off) 0 bs p m0"
    using on assms(3) buf by (simp add: at_code_def on_object_def m0_def idle_def machine_wf_def len)
  moreover have "SetPC p (sm_decoder m) = (True, (sm_decoder m)\<lparr>dec_pc := p\<rparr>)"
    using assms(3,4) buf by (intro SetPC_inside) (simp_all add: p_def)
  then have "Run en p 0 0 off m = run_steps max_steps en p 0 m0" by (simp add: Run_def m_SetPC_def m0_def)
  ultimately show thesis
    using that [of m0] len on(1) by (simp add: p_def) (simp add: m0_def idle_def)
qed

lemma Run_coded:
  assumes "coded_type en c ti e" "runs_on en ti e off bs m"
  shows "\<exists>m'. Run en (ti_EnqueuePc ti) 0 0 off m = Some (Inr (True, m')) \<and>
    program_effect en (snd (code_sem en c 0 bs)) (unat off) (length bs) m m' \<and>
    ob_len (sm_b m') = ob_len (sm_b m) \<and> ob_isFull (sm_b m') = ob_isFull (sm_b m)"
proof -
  define prog where "prog = sp_Prog (en_p en)"
  define p where "p = ti_EnqueuePc ti"
  define n where "n = unat (qe_Len e)"
  obtain q q' o1 where c: "length prog < 2 ^ 32" "code_end prog c p = Some q" "op_end prog AReturn q = Some q'"
    "code_fit en n c 0 = Some o1" "code_steps n c < max_steps" "ti_SerializeBeforeEnqueue ti"
    using assms(1) by (auto simp: coded_type_def n_def prog_def p_def split: option.splits)
  have p: "unat p < length prog" by (rule code_end_start [OF c(2,1) op_endD(2) [OF c(3,1)]])
  obtain m0 where m0: "at_code en prog (unat off) 0 bs p m0" "length bs = n"
    "Run en p 0 0 off m = run_steps max_steps en p 0 m0" "sm_b m0 = sm_b m" "sm_q m0 = sm_q m" "sm_stack m0 = []"
    using Run_starts [OF c(6) assms(2)] c(1) p unfolding prog_def p_def n_def by blast
  obtain bs1 r m1 where m1: "code_sem en c 0 bs = (o1, bs1, r)" "length bs1 = n"
    "goes en p 0 (unat off) (code_steps n c) m0 (o1, bs1, r) q (sm_stack m0) m1" "at_code en prog (unat off) o1 bs1 q m1"
    "sm_stack m1 = sm_stack m0"
    by (rule implementsD [OF code_implements [OF c(2,1)] m0(1,2) c(4)])
  have s1: "sm_stack m1 = []" using m0(6) m1(5) by simp
  obtain m2 where m2: "step en p 0 m1 = Some (Inr (Ret True, m2))" "object_step en (unat off) m1 o1 bs1 [] m2"
    by (rule return_ends [OF m1(4) c(3) s1])
  obtain k where k: "max_steps = code_steps n c + Suc k" using c(5) less_imp_add_positive by (metis gr0_implies_Suc)
  have "run_steps (code_steps n c + Suc k) en p 0 m0 = run_steps (Suc k) en p 0 m1"
    using m1(3) unfolding goes_def takes_def by blast
  also have "\<dots> = Some (Inr (True, m2))" using m2(1) by simp
  finally have run: "Run en p 0 0 off m = Some (Inr (True, m2))" by (simp only: k m0(3))
  have "object_step en (unat off) m0 o1 bs1 r (m1\<lparr>sm_stack := []\<rparr>)" using m1(3) m0(6) by (simp add: goes_def moved_def)
  moreover have "m1\<lparr>sm_stack := []\<rparr> = m1" using s1 by (cases m1) simp
  moreover have "unat off + length bs1 \<le> length (ob_arr (sm_b m0))"
    using on_object_bounds(3) [of en "unat off" 0 bs m0] m0(1,2) m1(2) by (simp add: at_code_def)
  ultimately have st: "object_step en (unat off) m0 o1 bs1 r m2" using object_step_trans [OF _ m2(2) refl] by fastforce
  have idle: "idle en m" using assms(2) by (simp add: runs_on_def)
  have "program_effect en (bs1, r) (unat off) n m m2"
    using st m1(2) idle m0(4-6) m0(1)
    by (simp add: program_effect_def object_step_def on_object_def idle_def at_code_def prog_def)
  moreover have "ob_len (sm_b m2) = ob_len (sm_b m)" "ob_isFull (sm_b m2) = ob_isFull (sm_b m)"
    using st m0(4) by (simp_all add: object_step_def)
  ultimately show ?thesis using run by (simp add: m1(1) p_def m0(2))
qed

text \<open>
  A loop that is too long for the interpreter: the bound cuts it off between the push of the counter and its pop, so
  that the counter is still on the stack.
\<close>

definition long_loop :: "run_env \<Rightarrow> AnyOp \<Rightarrow> type_code \<Rightarrow> TypeInfo \<Rightarrow> QueueEntry \<Rightarrow> bool" where
  "long_loop en a c ti e \<longleftrightarrow> ti_SerializeBeforeEnqueue ti \<and> length (sp_Prog (en_p en)) < 2 ^ 32 \<and>
     code_fit en (unat (qe_Len e)) (TTimes a c) 0 \<noteq> None \<and> max_steps < code_steps (unat (qe_Len e)) (TTimes a c) \<and>
     code_end (sp_Prog (en_p en)) (TTimes a c) (ti_EnqueuePc ti) \<noteq> None"

lemma Run_long_loop:
  assumes "long_loop en a c ti e" "runs_on en ti e off bs m"
  obtains m' where "Run en (ti_EnqueuePc ti) 0 0 off m = Some (Inr (False, m'))" "sm_stack m' \<noteq> []"
    "full (sm_b m') = full (sm_b m)"
proof -
  define prog where "prog = sp_Prog (en_p en)"
  define p where "p = ti_EnqueuePc ti"
  define n where "n = unat (qe_Len e)"
  obtain o1 q where c: "length prog < 2 ^ 32" "code_fit en n (TTimes a c) 0 = Some o1" "ti_SerializeBeforeEnqueue ti"
    "max_steps < code_steps n (TTimes a c)" "code_end prog (TTimes a c) p = Some q"
    using assms(1) by (auto simp: long_loop_def n_def prog_def p_def)
  then obtain l p2 p3 p4 where e: "op_end prog a p = Some l" "code_end prog c l = Some p2" "op_end prog ADecrement p2 = Some p3"
    "op_end prog (ACondJump \<lparr>condJump_Pc = l\<rparr>) p3 = Some p4"
    by (auto simp: bind_eq_Some_conv)
  have l: "unat l < length prog" by (rule code_end_start [OF e(2) c(1) op_endD(2) [OF e(3) c(1)]])
  obtain m0 where m0: "at_code en prog (unat off) 0 bs p m0" "length bs = n"
    "Run en p 0 0 off m = run_steps max_steps en p 0 m0" "sm_b m0 = sm_b m" "sm_stack m0 = []"
    using Run_starts [OF c(3) assms(2)] c(1) op_endD(2) [OF e(1) c(1)] unfolding prog_def p_def n_def by blast
  obtain x m1 bs1 r m2 where g: "goes en p 0 (unat off) 1 m0 (0, bs, []) l (x # sm_stack m0) m1"
    "at_code en prog (unat off) 0 bs l m1" "sm_stack m1 = x # sm_stack m0" "length bs1 = n"
    "goes en p 0 (unat off) (loop_count a n * (code_steps n c + 2)) m1 (o1, bs1, r) p4 (0 # sm_stack m0) m2"
    "sm_stack m2 = 0 # sm_stack m0"
    by (rule loop_goes [OF e(1) code_implements [OF e(2) c(1)] e(3,4) l m0(1,2) c(2)])
  define k where "k = loop_count a n * (code_steps n c + 2)"
  define i where "i = max_steps - 1"
  have i: "max_steps = 1 + i" "i \<le> k" using c(4) by (simp_all add: i_def k_def max_steps_def)
  have "run_steps (1 + i) en p 0 m0 = run_steps i en p 0 m1" using g(1) unfolding goes_def takes_def by blast
  moreover have f1: "full (sm_b m1) = full (sm_b m)"
    using g(1) m0(4) by (simp add: goes_def moved_def object_step_def full_def)
  moreover have "\<exists>m'. run_steps i en p 0 m1 = Some (Inr (False, m')) \<and> sm_stack m' \<noteq> [] \<and> full (sm_b m') = full (sm_b m1)"
  proof (cases "i < k")
    case True
    with g(5) obtain mj where "run_steps i en p 0 m1 = Some (Inr (False, mj))"
      "during (min (length (sm_stack m1)) (length (0 # sm_stack m0))) m1 mj"
      unfolding goes_def takes_def k_def by blast
    then show ?thesis by (auto simp: during_def g(3))
  next
    case False
    with i(2) have "run_steps i en p 0 m1 = run_steps 0 en p 0 m2"
      using g(5) unfolding goes_def takes_def k_def [symmetric] by (metis add.right_neutral le_antisym not_less)
    moreover have "full (sm_b m2) = full (sm_b m1)"
      using g(5) by (simp add: goes_def moved_def object_step_def full_def)
    ultimately show ?thesis using g(6) by simp
  qed
  ultimately show thesis using that m0(3) unfolding i(1) p_def by auto
qed

text \<open>Types given by their code, for the entries in \<open>E\<close>; the types without a program are not among them.\<close>

definition coded_types :: "run_env \<Rightarrow> (u32 \<Rightarrow> type_code) \<Rightarrow> QueueEntry set \<Rightarrow> bool" where
  "coded_types en codes E \<longleftrightarrow>
     (\<forall>e0 \<in> E. \<forall>ti e. entry_type en e0 = Some (ti, e) \<longrightarrow> ti_EnqueuePc ti \<noteq> 0 \<longrightarrow>
       coded_type en (codes (qe_Type e)) ti e)"

definition coded_sem :: "run_env \<Rightarrow> (u32 \<Rightarrow> type_code) \<Rightarrow> type_sem" where
  "coded_sem en codes e bs = snd (code_sem en (codes (qe_Type e)) 0 bs)"

lemma coded_types_programs:
  assumes "coded_types en codes E"
  shows "type_programs en (coded_sem en codes) E"
  unfolding type_programs_def
proof (intro ballI allI impI)
  fix e0 ti e off bs m ok m'
  assume "e0 \<in> E" "entry_type en e0 = Some (ti, e)" "ti_EnqueuePc ti \<noteq> 0"
  with assms have st: "coded_type en (codes (qe_Type e)) ti e" by (auto simp: coded_types_def)
  assume on: "runs_on en ti e off bs m" and run: "Run en (ti_EnqueuePc ti) 0 0 off m = Some (Inr (ok, m'))"
  with Run_coded [OF st on] show "program_effect en (coded_sem en codes e bs) (unat off) (length bs) m m'"
    by (simp add: coded_sem_def)
qed

end
