(* ===== verification/Frame_Code.thy ===== *)
theory Frame_Code
  imports Type_Code
begin

text \<open>
  The programs of frames. A frame of interest has a program that prepares the frame in the output buffer, copies
  its variables from the stack (relative to the canonical frame address), runs the code of their types on the
  copies, and concludes the frame. The data of the frame is an object like those of theory Type_Code, so that
  the copies are two more pieces of code, and what the variables refer to is queued as what objects refer to is.
\<close>

subsection \<open>The variables\<close>

text \<open>A variable on the stack, one in a register, which the snapshot does not have, and the code of a type.\<close>

datatype frame_item = FVar OpDereferenceCFAOffset | FRegister OpCopyFromRegister | FCode type_code

fun item_end :: "u8 list \<Rightarrow> frame_item \<Rightarrow> u32 \<Rightarrow> u32 option" where
  "item_end prog (FVar r) p = op_end prog (ADereferenceCFAOffset r) p"
| "item_end prog (FRegister r) p = op_end prog (ACopyFromRegister r) p"
| "item_end prog (FCode c) p = code_end prog c p"

primrec items_end :: "u8 list \<Rightarrow> frame_item list \<Rightarrow> u32 \<Rightarrow> u32 option" where
  "items_end prog [] p = Some p"
| "items_end prog (i # is) p = Option.bind (item_end prog i p) (items_end prog is)"

text \<open>The bytes of a variable, zeros where the stack cannot be read.\<close>

definition variable_bytes :: "run_env \<Rightarrow> u64 \<Rightarrow> OpDereferenceCFAOffset \<Rightarrow> u8 list" where
  "variable_bytes en cfa r =
     (case Dereference (en_mem en) (cfa + scast (derefCfa_Offset r) + ucast (derefCfa_PointerBias r))
             (unat (derefCfa_ByteLen r)) of
        None \<Rightarrow> replicate (unat (derefCfa_ByteLen r)) 0
      | Some bs \<Rightarrow> bs)"

fun item_sem :: "run_env \<Rightarrow> u64 \<Rightarrow> frame_item \<Rightarrow> nat \<Rightarrow> u8 list \<Rightarrow> obj_effect" where
  "item_sem en cfa (FVar r) o' bs = (o', blit bs o' (variable_bytes en cfa r), [])"
| "item_sem en cfa (FRegister r) o' bs = (o', blit bs o' (replicate (unat (copyReg_ByteSize r)) 0), [])"
| "item_sem en cfa (FCode c) o' bs = code_sem en c o' bs"

primrec items_sem :: "run_env \<Rightarrow> u64 \<Rightarrow> frame_item list \<Rightarrow> nat \<Rightarrow> u8 list \<Rightarrow> obj_effect" where
  "items_sem en cfa [] o' bs = (o', bs, [])"
| "items_sem en cfa (i # is) o' bs = then_sem (item_sem en cfa i) (items_sem en cfa is) o' bs"

fun item_fit :: "run_env \<Rightarrow> nat \<Rightarrow> frame_item \<Rightarrow> nat \<Rightarrow> nat option" where
  "item_fit en n (FVar r) o' = (if o' + unat (derefCfa_ByteLen r) \<le> n then Some o' else None)"
| "item_fit en n (FRegister r) o' = (if o' + unat (copyReg_ByteSize r) \<le> n then Some o' else None)"
| "item_fit en n (FCode c) o' = code_fit en n c o'"

primrec items_fit :: "run_env \<Rightarrow> nat \<Rightarrow> frame_item list \<Rightarrow> nat \<Rightarrow> nat option" where
  "items_fit en n [] o' = Some o'"
| "items_fit en n (i # is) o' = Option.bind (item_fit en n i o') (items_fit en n is)"

fun item_steps :: "nat \<Rightarrow> frame_item \<Rightarrow> nat" where
  "item_steps n (FCode c) = code_steps n c"
| "item_steps n _ = 1"

abbreviation items_steps :: "nat \<Rightarrow> frame_item list \<Rightarrow> nat" where
  "items_steps n is \<equiv> sum_list (map (item_steps n) is)"

lemma length_variable_bytes [simp]: "length (variable_bytes en cfa r) = unat (derefCfa_ByteLen r)"
  by (auto simp: variable_bytes_def Dereference_length split: option.split)

subsection \<open>The interpreter copies the variables\<close>

lemma EnsureLen_inside: "ob_wf b \<Longrightarrow> unat x \<le> ob_len b \<Longrightarrow> EnsureLen x b = (True, b)"
  using unat_Len [of b] by (auto simp: EnsureLen_def word_less_nat_alt ob_wf_def)

text \<open>Storing bytes at the offset, when the operation succeeds on the buffer with that effect.\<close>

lemma goes_store:
  assumes "at_code en prog base o' bs p m" "dec_opBuf d = prog" "o' + length ys \<le> length bs"
    and "\<And>b. ob_store (base + o') ys (sm_b m) = Inr b \<Longrightarrow>
      step en pc depth m = Some (Inr (Next, m\<lparr>sm_decoder := d, sm_b := b\<rparr>))"
  shows "\<exists>m'. goes en pc depth base 1 m (o', blit bs o' ys, []) (dec_pc d) (sm_stack m) m'"
proof -
  define b where "b = (sm_b m)\<lparr>ob_arr := blit (ob_arr (sm_b m)) base (blit bs o' ys)\<rparr>"
  define m' where "m' = m\<lparr>sm_decoder := d, sm_b := b\<rparr>"
  have on: "on_object en base o' bs m" "dec_opBuf (sm_decoder m) = prog" using assms(1) by (simp_all add: at_code_def)
  note st = on_object_store [OF on(1) assms(3), folded b_def]
  have step: "step en pc depth m = Some (Inr (Next, m'))" using assms(4) [OF st(1)] by (simp add: m'_def)
  have "object_step en base m o' (blit bs o' ys) [] m'"
    using st(2) on assms(2) on_object_bounds(4) [OF on(1)]
    by (simp add: object_step_def m'_def b_def on_object_def machine_wf_def queue_grown_refl)
  then show ?thesis
    using takes_step [OF step, of "length (sm_stack m)"]
    by (auto simp: goes_def moved_def same_frame_def m'_def intro!: exI [of _ m'])
qed

lemma on_object_Zero:
  assumes "on_object en base o' bs m" "o' + unat n \<le> length bs"
  shows "Zero (sm_offset m) n (sm_b m) = ob_store (base + o') (replicate (unat n) 0) (sm_b m)"
    and "\<not> sm_offset m + n > ob_cap32 (sm_b m)" "EnsureLen (sm_offset m + n) (sm_b m) = (True, sm_b m)"
proof -
  note bd = on_object_bounds [OF assms(1)]
  have off: "unat (sm_offset m) = base + o'" "base + length bs \<le> ob_len (sm_b m)" using assms(1) by (simp_all add: on_object_def)
  have offn: "unat (sm_offset m + n) = base + o' + unat n"
    using on_object_add [OF assms] by (simp add: add.assoc)
  have fit: "base + o' + unat n \<le> ob_cap (sm_b m)" using bd(1) assms(2) by simp
  show le: "\<not> sm_offset m + n > ob_cap32 (sm_b m)"
    using offn fit bd(5) by (simp add: word_less_nat_alt)
  have "\<not> sm_offset m > sm_offset m + n" using off offn by (simp add: word_less_nat_alt)
  with le show "Zero (sm_offset m) n (sm_b m) = ob_store (base + o') (replicate (unat n) 0) (sm_b m)"
    using off offn fit by (simp add: Zero_def ob_store_def)
  show "EnsureLen (sm_offset m + n) (sm_b m) = (True, sm_b m)"
    by (rule EnsureLen_inside [OF bd(5)]) (use off(2) offn assms(2) in simp)
qed

lemma goes_variable:
  assumes "at_code en prog base o' bs p m" "op_end prog (ADereferenceCFAOffset r) p = Some q"
    and "o' + unat (derefCfa_ByteLen r) \<le> length bs"
  shows "\<exists>m'. goes en pc depth base 1 m (o', blit bs o' (variable_bytes en (sm_cfa m) r), []) q (sm_stack m) m'"
proof (rule control_start [OF assms(1,2)])
  fix d1 d
  assume d: "step en pc depth m = exec_op en pc depth (code_of (ADereferenceCFAOffset r)) (m\<lparr>sm_decoder := d1\<rparr>)"
    "decode_operands (code_of (ADereferenceCFAOffset r)) d1 = Inr (Some (ADereferenceCFAOffset r), d)" "dec_pc d = q" "dec_opBuf d = prog"
  have on: "on_object en base o' bs m" using assms(1) by (simp add: at_code_def)
  note z = on_object_Zero [OF on assms(3)]
  have off: "Ptr (sm_offset m) = base + o'" using on by (simp add: on_object_def Ptr_def)
  have dec: "m_decode DecodeDereferenceCFAOffset (m\<lparr>sm_decoder := d1\<rparr>) = Inr (r, m\<lparr>sm_decoder := d\<rparr>)"
    using d(2) by (auto simp: res_simps m_decode_def)
  have "step en pc depth m = Some (Inr (Next, m\<lparr>sm_decoder := d, sm_b := b\<rparr>))"
    if b: "ob_store (base + o') (variable_bytes en (sm_cfa m) r) (sm_b m) = Inr b" for b
  proof -
    define src where "src = sm_cfa m + scast (derefCfa_Offset r) + ucast (derefCfa_PointerBias r)"
    have "\<exists>ok. ob_Dereference (en_mem en) (sm_offset m) src (derefCfa_ByteLen r) (sm_b m) = Inr (ok, b)"
      using b z(1,2) off by (cases "Dereference (en_mem en) src (unat (derefCfa_ByteLen r))")
        (auto simp: ob_Dereference_def variable_bytes_def src_def)
    then show ?thesis
      using d(1) z(3) by (auto simp: exec_DereferenceCFAOffset_def dec m_bufr_def src_def)
  qed
  from goes_store [OF assms(1) d(4) _ this] assms(3) d(3) show ?thesis by simp
qed

lemma goes_register:
  assumes "at_code en prog base o' bs p m" "op_end prog (ACopyFromRegister r) p = Some q"
    and "o' + unat (copyReg_ByteSize r) \<le> length bs"
  shows "\<exists>m'. goes en pc depth base 1 m (o', blit bs o' (replicate (unat (copyReg_ByteSize r)) 0), []) q (sm_stack m) m'"
proof (rule control_start [OF assms(1,2)])
  fix d1 d
  assume d: "step en pc depth m = exec_op en pc depth (code_of (ACopyFromRegister r)) (m\<lparr>sm_decoder := d1\<rparr>)"
    "decode_operands (code_of (ACopyFromRegister r)) d1 = Inr (Some (ACopyFromRegister r), d)" "dec_pc d = q" "dec_opBuf d = prog"
  have on: "on_object en base o' bs m" using assms(1) by (simp add: at_code_def)
  have n: "o' + unat (ucast (copyReg_ByteSize r) :: u32) \<le> length bs" using assms(3) by (simp add: unat_ucast_u8)
  note z = on_object_Zero [OF on n, unfolded unat_ucast_u8]
  have "step en pc depth m = Some (Inr (Next, m\<lparr>sm_decoder := d, sm_b := b\<rparr>))"
    if "ob_store (base + o') (replicate (unat (copyReg_ByteSize r)) 0) (sm_b m) = Inr b" for b
    using that d(1,2) z by (auto simp: res_simps exec_CopyFromRegister_def m_decode_def m_buf_def Let_def)
  from goes_store [OF assms(1) d(4) _ this] assms(3) d(3) show ?thesis by simp
qed

lemma item_goes:
  assumes "item_end prog i p = Some q" "at_code en prog base o' bs p m" "length bs = n" "item_fit en n i o' = Some o1"
  obtains bs1 r m1 where "item_sem en (sm_cfa m) i o' bs = (o1, bs1, r)" "length bs1 = n"
    "goes en pc depth base (item_steps n i) m (o1, bs1, r) q (sm_stack m) m1"
proof (cases i)
  case (FVar r)
  then have fit: "o' + unat (derefCfa_ByteLen r) \<le> length bs" "o1 = o'" using assms(3,4) by (auto split: if_splits)
  with FVar goes_variable [OF assms(2) _ fit(1), of q pc depth] assms(1,3) that show thesis by auto
next
  case (FRegister r)
  then have fit: "o' + unat (copyReg_ByteSize r) \<le> length bs" "o1 = o'" using assms(3,4) by (auto split: if_splits)
  with FRegister goes_register [OF assms(2) _ fit(1), of q pc depth] assms(1,3) that show thesis by auto
next
  case (FCode c)
  have "length prog < 2 ^ 32" "code_end prog c p = Some q" "code_fit en n c o' = Some o1"
    using assms FCode by (simp_all add: at_code_def)
  from implementsD [OF code_implements [OF this(2,1)] assms(2,3) this(3), of pc depth] that FCode show thesis by auto
qed

lemma items_go:
  "items_end prog is p = Some q \<Longrightarrow> at_code en prog base o' bs p m \<Longrightarrow> length bs = n \<Longrightarrow> items_fit en n is o' = Some o1 \<Longrightarrow>
   \<exists>bs1 r m1. items_sem en (sm_cfa m) is o' bs = (o1, bs1, r) \<and> length bs1 = n \<and>
     goes en pc depth base (items_steps n is) m (o1, bs1, r) q (sm_stack m) m1"
proof (induction "is" arbitrary: p o' bs m)
  case Nil
  then show ?case by (auto intro: goes_nothing)
next
  case (Cons i "is")
  obtain p1 o2 where i: "item_end prog i p = Some p1" "items_end prog is p1 = Some q"
    "item_fit en n i o' = Some o2" "items_fit en n is o2 = Some o1"
    using Cons.prems(1,4) by (auto simp: bind_eq_Some_conv)
  obtain bs1 r1 m1 where m1: "item_sem en (sm_cfa m) i o' bs = (o2, bs1, r1)" "length bs1 = n"
    "goes en pc depth base (item_steps n i) m (o2, bs1, r1) p1 (sm_stack m) m1"
    by (rule item_goes [OF i(1) Cons.prems(2,3) i(3)])
  have len: "length bs1 = length bs" by (simp add: m1(2) Cons.prems(3))
  have s: "sm_cfa m1 = sm_cfa m" "sm_stack m1 = sm_stack m" using m1(3) by (simp_all add: goes_def moved_def same_frame_def)
  obtain bs2 r2 m2 where m2: "items_sem en (sm_cfa m1) is o2 bs1 = (o1, bs2, r2)" "length bs2 = n"
    "goes en pc depth base (items_steps n is) m1 (o1, bs2, r2) q (sm_stack m1) m2"
    using Cons.IH [OF i(2) at_code_goes [OF Cons.prems(2) m1(3) len] m1(2) i(4)] by blast
  have "goes en pc depth base (item_steps n i + items_steps n is) m (o1, bs2, r1 @ r2) q (sm_stack m1) m2"
    by (rule goes_trans [OF Cons.prems(2) m1(3) m2(3)]) (simp_all add: m1(2) m2(2) Cons.prems(3) s(2))
  then show ?case using m1(1) m2(1,2) s by (auto simp: then_sem_def)
qed

subsection \<open>The program of a frame\<close>

definition coded_frame :: "run_env \<Rightarrow> u32 \<Rightarrow> OpPrepareFrameData \<Rightarrow> frame_item list \<Rightarrow> bool" where
  "coded_frame en pc fr is \<longleftrightarrow>
     (let prog = sp_Prog (en_p en); n = unat (prepFrame_DataByteLen fr) + 8 in
      length prog < 2 ^ 32 \<and> unat (prepFrame_DataByteLen fr) \<le> 2 ^ 30 \<and> items_fit en n is 0 \<noteq> None \<and>
      items_steps n is + 3 \<le> max_steps \<and>
      Option.bind (op_end prog (APrepareFrameData fr) pc) (\<lambda>p.
      Option.bind (items_end prog is p) (\<lambda>q.
      Option.bind (op_end prog AConcludeFrameData q) (op_end prog AReturn))) \<noteq> None)"

text \<open>
  The data of a frame and what it pushes. Before the items run, the buffer has there what it had before, and behind it
  the program id and the depth, which count as data.
\<close>

definition frame_start :: "OpPrepareFrameData \<Rightarrow> u32 \<Rightarrow> outBuf \<Rightarrow> u8 list" where
  "frame_start fr depth b =
     sub (ob_arr b) (ob_len b + 24) (unat (prepFrame_DataByteLen fr)) @ le_bytes 4 (prepFrame_ProgID fr) @ le_bytes 4 depth"

definition frame_effect ::
  "run_env \<Rightarrow> u64 \<Rightarrow> u32 \<Rightarrow> OpPrepareFrameData \<Rightarrow> frame_item list \<Rightarrow> outBuf \<Rightarrow> u8 list \<times> QueueEntry list" where
  "frame_effect en cfa depth fr is b = snd (items_sem en cfa is 0 (frame_start fr depth b))"

text \<open>A frame in the buffer: its header, and an entry for its type with the data.\<close>

definition frame_at :: "outBuf \<Rightarrow> nat \<Rightarrow> OpPrepareFrameData \<Rightarrow> u8 list \<Rightarrow> bool" where
  "frame_at b p fr bs \<longleftrightarrow>
     FrameHeader_of (sub (ob_arr b) p 8) = \<lparr>fh_DataByteLen = of_nat (frame_len (prepFrame_DataByteLen fr) - 8)\<rparr> \<and>
     entry_at b (p + 8) \<lparr>qe_Type = prepFrame_TypeID fr, qe_Len = prepFrame_DataByteLen fr + 8, qe_Addr = 0\<rparr> bs"

lemma frame_prepared:
  fixes b :: outBuf and fr :: OpPrepareFrameData and depth :: u32
  defines "n \<equiv> unat (prepFrame_DataByteLen fr)"
    and "b1 \<equiv> frame_written (prepFrame_TypeID fr) (prepFrame_ProgID fr) (prepFrame_DataByteLen fr) depth b"
  assumes "ob_wf b" "n \<le> 2 ^ 30" "ob_len b + frame_len (prepFrame_DataByteLen fr) \<le> ob_cap b"
  shows "ob_wf b1" "sub (ob_arr b1) (ob_len b + 24) (n + 8) = frame_start fr depth b"
    and "ob_len b + 24 + (n + 8) \<le> ob_len b1" "full b1 = full b"
    and "GetEntryLen (of_nat (ob_len b + 24)) b1 = Inr (of_nat (n + 8))"
proof -
  define p where "p = ob_len b"
  have h: "unat (prepFrame_DataByteLen fr) \<le> 2 ^ 30" using assms(4) by (simp add: n_def)
  note fw = frame_written_parts [OF assms(3) h assms(5)]
  note parts = fw(1-7) [of "prepFrame_TypeID fr" "prepFrame_ProgID fr" depth, folded b1_def n_def, folded p_def]
    fw(8) [folded n_def p_def]
  show "ob_wf b1"
    using okE_D [OF PrepareFrameData_ok [OF assms(3)] PrepareFrameData_room [OF assms(3) h assms(5)]]
    by (auto simp: b1_def dest: ob_rel_wf)
  have fit: "p + 32 + n \<le> length (ob_arr b)" using parts(7,8) by (simp add: ob_cap_def)
  have arr: "ob_arr b1 = blit (blit (blit (blit (ob_arr b) p
        (FrameHeader_bytes \<lparr>fh_DataByteLen = of_nat (p + 8)\<rparr>)) (p + 8)
        (QueueEntry_bytes \<lparr>qe_Type = prepFrame_TypeID fr, qe_Len = prepFrame_DataByteLen fr + 8, qe_Addr = 0\<rparr>)) (p + 24 + n)
        (le_bytes 4 (prepFrame_ProgID fr))) (p + 28 + n) (le_bytes 4 depth)"
    by (simp add: b1_def frame_written_def Let_def p_def n_def)
  have "sub (ob_arr b1) (p + 24) n = sub (ob_arr b) (p + 24) n"
    unfolding arr using fit by (simp add: sub_blit_other)
  moreover have "sub (ob_arr b1) (p + 24 + n) 4 = le_bytes 4 (prepFrame_ProgID fr)"
    unfolding arr using fit by (simp add: sub_blit_other sub_blit_sameI)
  moreover have "sub (ob_arr b1) (p + 28 + n) 4 = le_bytes 4 depth"
    unfolding arr using fit by (simp add: sub_blit_sameI)
  moreover have "sub (ob_arr b1) (p + 24) (n + 8) =
      sub (ob_arr b1) (p + 24) n @ sub (ob_arr b1) (p + 24 + n) 4 @ sub (ob_arr b1) (p + 28 + n) 4"
    using sub_append_split [of "ob_arr b1" "p + 24" n 8] sub_append_split [of "ob_arr b1" "p + 24 + n" 4 4]
    by (simp add: add.commute add.left_commute)
  ultimately show "sub (ob_arr b1) (ob_len b + 24) (n + 8) = frame_start fr depth b"
    by (simp add: frame_start_def p_def n_def)
  show "ob_len b + 24 + (n + 8) \<le> ob_len b1"
    using parts(6) padded_ge [OF h] by (simp add: frame_len_def n_def p_def)
  show "full b1 = full b" by (simp add: b1_def frame_written_def Let_def full_def)
  have "p + 24 < 2 ^ 32" using parts(7,8) assms(3) by (simp add: ob_wf_def)
  then have "unat (of_nat (p + 24) :: u32) = (p + 8) + 16" by (simp only: unat_of_nat_u32)
  moreover have "entry_at b1 (p + 8) \<lparr>qe_Type = prepFrame_TypeID fr, qe_Len = prepFrame_DataByteLen fr + 8, qe_Addr = 0\<rparr> []"
    using parts(2,7,8) by (simp add: entry_at_def)
  ultimately have "GetEntryLen (of_nat (p + 24)) b1 = Inr (prepFrame_DataByteLen fr + 8)"
    using GetEntryLen_entry_at by fastforce
  then show "GetEntryLen (of_nat (ob_len b + 24)) b1 = Inr (of_nat (n + 8))" by (simp add: p_def n_def add.commute)
qed

text \<open>The first step: the machine is at the items, on the data of the frame.\<close>

lemma frame_begins:
  assumes "length prog < 2 ^ 32" "prog = sp_Prog (en_p en)" "op_end prog (APrepareFrameData fr) pc = Some p" "idle en m"
    and "unat (prepFrame_DataByteLen fr) \<le> 2 ^ 30" "ob_len (sm_b m) + frame_len (prepFrame_DataByteLen fr) \<le> ob_cap (sm_b m)"
  obtains m1 where "Run en pc cfa depth offset m = run_steps (max_steps - 1) en pc depth m1"
    "at_code en prog (ob_len (sm_b m) + 24) 0 (frame_start fr depth (sm_b m)) p m1"
    "sm_b m1 = frame_written (prepFrame_TypeID fr) (prepFrame_ProgID fr) (prepFrame_DataByteLen fr) depth (sm_b m)"
    "sm_q m1 = sm_q m" "sm_cfa m1 = cfa" "sm_frameHeader m1 = Some (ob_len (sm_b m))" "sm_stack m1 = []"
proof -
  define b where "b = sm_b m"
  define b1 where "b1 = frame_written (prepFrame_TypeID fr) (prepFrame_ProgID fr) (prepFrame_DataByteLen fr) depth b"
  have id: "ob_wf b" "queue_wf (sm_q m)" "sm_stack m = []" "dec_opBuf (sm_decoder m) = prog" "resolver_current en (sm_g m)"
    using assms(2,4) by (simp_all add: idle_def machine_wf_def b_def)
  define m0 where "m0 = m\<lparr>sm_decoder := (sm_decoder m)\<lparr>dec_pc := pc\<rparr>, sm_cfa := cfa, sm_offset := offset\<rparr>"
  have "SetPC pc (sm_decoder m) = (True, (sm_decoder m)\<lparr>dec_pc := pc\<rparr>)"
    using assms(1) op_endD(2) [OF assms(3,1)] id(4) by (intro SetPC_inside) simp_all
  then have run: "Run en pc cfa depth offset m = run_steps max_steps en pc depth m0"
    by (simp add: Run_def m_SetPC_def m0_def)
  have "instr (dec_opBuf (sm_decoder m0)) (dec_pc (sm_decoder m0)) = Some (APrepareFrameData fr, p)"
    using op_endD(1) [OF assms(3,1)] id(4) by (simp add: m0_def)
  then obtain d1 d where d: "step en pc depth m0 = exec_op en pc depth (code_of (APrepareFrameData fr)) (m0\<lparr>sm_decoder := d1\<rparr>)"
    "decode_operands (code_of (APrepareFrameData fr)) d1 = Inr (Some (APrepareFrameData fr), d)" "dec_pc d = p"
    "dec_opBuf d = dec_opBuf (sm_decoder m0)"
    by (rule step_instr) blast
  define off where "off = (of_nat (ob_len b + 24) :: u32)"
  define m1 where "m1 = m0\<lparr>sm_decoder := d, sm_b := b1, sm_frameHeader := Some (ob_len b),
    sm_exprType := Frame, sm_exprResultsOffset := off, sm_offset := off\<rparr>"
  note prep = frame_prepared [OF id(1) assms(5) assms(6) [folded b_def], of depth, folded b1_def]
  have "m_decode DecodePrepareFrameData (m0\<lparr>sm_decoder := d1\<rparr>) = Inr (fr, m0\<lparr>sm_decoder := d\<rparr>)"
    using d(2) by (auto simp: res_simps m_decode_def)
  moreover have "PrepareFrameData (prepFrame_TypeID fr) (prepFrame_ProgID fr) (prepFrame_DataByteLen fr) depth b =
      Inr ((Some (ob_len b), off, True), b1)"
    unfolding off_def b1_def by (rule PrepareFrameData_room [OF id(1) assms(5) assms(6) [folded b_def]])
  ultimately have "step en pc depth m0 = Some (Inr (Next, m1))"
    using d(1) by (simp add: exec_PrepareFrameData_def m_bufr_def m1_def m0_def b_def [symmetric])
  moreover have "max_steps = Suc (max_steps - 1)" by (simp add: max_steps_def)
  ultimately have r: "Run en pc cfa depth offset m = run_steps (max_steps - 1) en pc depth m1"
    using run run_steps_step(1) by metis
  have len: "length (frame_start fr depth b) = unat (prepFrame_DataByteLen fr) + 8"
    using prep(1,3) by (simp add: prep(2) [symmetric] ob_wf_def ob_cap_def)
  have off: "unat off = ob_len b + 24"
    using prep(1,3) unfolding off_def by (simp add: unat_of_nat_u32 ob_wf_def del: of_nat_add)
  have "on_object en (ob_len b + 24) 0 (frame_start fr depth b) m1"
    using prep(1-3) off id by (simp add: on_object_def machine_wf_def m1_def m0_def len)
  then have "at_code en prog (ob_len b + 24) 0 (frame_start fr depth b) p m1"
    using prep(5) d(3,4) id(4) assms(1) by (simp add: at_code_def len) (simp add: m1_def m0_def)
  with r show thesis
    by (rule that [unfolded b_def [symmetric]]) (simp_all add: m1_def m0_def b1_def id(3))
qed

text \<open>The last two steps: the frame is concluded, and the run returns.\<close>

lemma frame_ends:
  assumes "at_code en prog base o' bs q m" "op_end prog AConcludeFrameData q = Some q1" "op_end prog AReturn q1 = Some q2"
    and "sm_stack m = []" "sm_frameHeader m = Some p" "base = p + 24" "p + 8 \<le> ob_len (sm_b m)"
    and "FrameHeader_of (sub (ob_arr (sm_b m)) p 8) = \<lparr>fh_DataByteLen = of_nat (p + 8)\<rparr>" "prog = sp_Prog (en_p en)"
  obtains m' where "run_steps (Suc (Suc k)) en pc depth m = Some (Inr (True, m'))" "idle en m'" "sm_q m' = sm_q m"
    "FrameHeader_of (sub (ob_arr (sm_b m')) p 8) = \<lparr>fh_DataByteLen = of_nat (ob_len (sm_b m) - (p + 8))\<rparr>"
    "ob_len (sm_b m') = ob_len (sm_b m)" "ob_rel (sm_b m) (sm_b m')" 
    "\<And>i l. i + l \<le> ob_cap (sm_b m) \<Longrightarrow> i + l \<le> p \<or> p + 8 \<le> i \<Longrightarrow>
      sub (ob_arr (sm_b m')) i l = sub (ob_arr (sm_b m)) i l"
proof (rule control_start [OF assms(1,2)])
  fix d1 d
  assume d: "step en pc depth m = exec_op en pc depth (code_of AConcludeFrameData) (m\<lparr>sm_decoder := d1\<rparr>)"
    "decode_operands (code_of AConcludeFrameData) d1 = Inr (Some AConcludeFrameData, d)" "dec_pc d = q1" "dec_opBuf d = prog"
  have on: "on_object en base o' bs m" "length prog < 2 ^ 32" using assms(1) by (simp_all add: at_code_def)
  then have wf: "ob_wf (sm_b m)" "queue_wf (sm_q m)" "resolver_current en (sm_g m)"
    by (simp_all add: on_object_def machine_wf_def)
  obtain b3 where b3: "ConcludeFrameData (Some p) (sm_b m) = Inr b3"
    "FrameHeader_of (sub (ob_arr b3) p 8) = \<lparr>fh_DataByteLen = of_nat (ob_len (sm_b m) - (p + 8))\<rparr>"
    "ob_len b3 = ob_len (sm_b m)"
    "\<And>i l. i + l \<le> ob_cap (sm_b m) \<Longrightarrow> i + l \<le> p \<or> p + 8 \<le> i \<Longrightarrow> sub (ob_arr b3) i l = sub (ob_arr (sm_b m)) i l"
    by (rule ConcludeFrameData_len [OF wf(1) assms(7,8)]) blast
  have rel: "ob_rel (sm_b m) b3" using ConcludeFrameData_ok [OF wf(1), of "Some p"] b3(1) by (simp add: okE_iff)
  have dec: "d1 = d" using d(2) by (auto simp: res_simps)
  define m3 where "m3 = m\<lparr>sm_decoder := d, sm_b := b3\<rparr>"
  have s3: "step en pc depth m = Some (Inr (Next, m3))"
    using d(1) b3(1) assms(5) by (simp add: exec_ConcludeFrameData_def m_buf_def m3_def dec)
  have "instr (dec_opBuf (sm_decoder m3)) (dec_pc (sm_decoder m3)) = Some (AReturn, q2)"
    using op_endD(1) [OF assms(3) on(2)] d(3,4) by (simp add: m3_def)
  then obtain d3 d4 where r: "step en pc depth m3 = exec_op en pc depth (code_of AReturn) (m3\<lparr>sm_decoder := d3\<rparr>)"
    "dec_opBuf d3 = dec_opBuf (sm_decoder m3)"
    by (rule step_instr) blast
  define m' where "m' = m3\<lparr>sm_decoder := d3\<rparr>"
  have "step en pc depth m3 = Some (Inr (Ret True, m'))"
    using r(1) assms(4) by (simp add: exec_stack_defs m'_def m3_def)
  with s3 have "run_steps (Suc (Suc k)) en pc depth m = Some (Inr (True, m'))" by simp
  moreover have "idle en m'"
    using r(2) wf ob_rel_wf [OF rel] d(4) assms(4,9) by (simp add: idle_def machine_wf_def m'_def m3_def)
  ultimately show thesis
    using that [of m'] b3 rel by (simp add: m'_def m3_def)
qed

text \<open>
  A frame is captured: \<open>Run\<close> on the program of a frame returns true, behind what was written is the frame with the
  data that its items leave, and the references that they push are queued.
\<close>

lemma Run_frame:
  assumes "coded_frame en pc fr is" "idle en m"
    and "ob_len (sm_b m) + frame_len (prepFrame_DataByteLen fr) \<le> ob_cap (sm_b m)"
  obtains m' bs refs where "Run en pc cfa depth offset m = Some (Inr (True, m'))" "idle en m'"
    "frame_effect en cfa depth fr is (sm_b m) = (bs, refs)" "length bs = unat (prepFrame_DataByteLen fr) + 8"
    "frame_at (sm_b m') (ob_len (sm_b m)) fr bs" "queue_grown refs (sm_q m) (sm_q m')"
    "ob_len (sm_b m') = ob_len (sm_b m) + frame_len (prepFrame_DataByteLen fr)"
    "take (ob_len (sm_b m)) (ob_arr (sm_b m')) = ob_data (sm_b m)" "ob_cap (sm_b m') = ob_cap (sm_b m)"
proof -
  define prog where "prog = sp_Prog (en_p en)"
  define n where "n = unat (prepFrame_DataByteLen fr)"
  define base where "base = ob_len (sm_b m)"
  define b1 where "b1 = frame_written (prepFrame_TypeID fr) (prepFrame_ProgID fr) (prepFrame_DataByteLen fr) depth (sm_b m)"
  obtain p q q1 q2 o1 where c: "length prog < 2 ^ 32" "n \<le> 2 ^ 30" "items_fit en (n + 8) is 0 = Some o1"
    "items_steps (n + 8) is + 3 \<le> max_steps" "op_end prog (APrepareFrameData fr) pc = Some p" "items_end prog is p = Some q"
    "op_end prog AConcludeFrameData q = Some q1" "op_end prog AReturn q1 = Some q2"
    using assms(1) by (auto simp: coded_frame_def Let_def prog_def n_def bind_eq_Some_conv)
  obtain m1 where m1: "Run en pc cfa depth offset m = run_steps (max_steps - 1) en pc depth m1"
    "at_code en prog (base + 24) 0 (frame_start fr depth (sm_b m)) p m1" "sm_b m1 = b1"
    "sm_q m1 = sm_q m" "sm_cfa m1 = cfa" "sm_frameHeader m1 = Some base" "sm_stack m1 = []"
    using frame_begins [OF c(1) prog_def c(5) assms(2) c(2) [unfolded n_def] assms(3)] unfolding base_def b1_def by blast
  have wf: "ob_wf (sm_b m)" using assms(2) by (simp add: idle_def machine_wf_def)
  note h = wf c(2) [unfolded n_def] assms(3)
  note prep = frame_prepared [OF h, of depth, folded b1_def base_def n_def]
  note fw = frame_written_parts [OF h]
  note parts = fw(1-7) [of "prepFrame_TypeID fr" "prepFrame_ProgID fr" depth, folded b1_def, folded base_def]
  have len: "length (frame_start fr depth (sm_b m)) = n + 8"
    using prep(1,3) by (simp add: prep(2) [symmetric] ob_wf_def ob_cap_def)
  obtain bs refs m2 where m2: "items_sem en cfa is 0 (frame_start fr depth (sm_b m)) = (o1, bs, refs)" "length bs = n + 8"
    "goes en pc depth (base + 24) (items_steps (n + 8) is) m1 (o1, bs, refs) q [] m2"
    using items_go [OF c(6) m1(2) len c(3), of pc depth] unfolding m1(5,7) by blast
  have b2: "sm_b m2 = b1\<lparr>ob_arr := blit (ob_arr b1) (base + 24) bs\<rparr>" "sm_frameHeader m2 = Some base" "sm_stack m2 = []"
    "queue_grown refs (sm_q m) (sm_q m2)"
    using m2(3) m1(3,4,6) by (simp_all add: goes_def moved_def object_step_def same_frame_def)
  have fit: "base + 24 + (n + 8) \<le> length (ob_arr b1)" using prep(1,3) by (simp add: ob_wf_def ob_cap_def)
  have other: "sub (ob_arr (sm_b m2)) i l = sub (ob_arr b1) i l" if "i + l \<le> base + 24" for i l
    using that fit m2(2) by (simp add: b2(1) sub_blit_other)
  have "at_code en prog (base + 24) o1 bs q m2" by (rule at_code_goes [OF m1(2) m2(3)]) (simp add: m2(2) len)
  from frame_ends [OF this c(7,8) b2(3,2) refl _ _ prog_def, of "max_steps - items_steps (n + 8) is - 3" pc depth]
  obtain m' where m': "run_steps (Suc (Suc (max_steps - items_steps (n + 8) is - 3))) en pc depth m2 = Some (Inr (True, m'))"
    "idle en m'" "sm_q m' = sm_q m2"
    "FrameHeader_of (sub (ob_arr (sm_b m')) base 8) = \<lparr>fh_DataByteLen = of_nat (ob_len (sm_b m2) - (base + 8))\<rparr>"
    "ob_len (sm_b m') = ob_len (sm_b m2)" "ob_rel (sm_b m2) (sm_b m')"
    "\<And>i l. i + l \<le> ob_cap (sm_b m2) \<Longrightarrow> i + l \<le> base \<or> base + 8 \<le> i \<Longrightarrow>
      sub (ob_arr (sm_b m')) i l = sub (ob_arr (sm_b m2)) i l"
    using prep(3) parts(1) other [of base 8] by (auto simp: b2(1))
  have "max_steps - 1 = items_steps (n + 8) is + Suc (Suc (max_steps - items_steps (n + 8) is - 3))" using c(4) by simp
  then have "run_steps (max_steps - 1) en pc depth m1 = Some (Inr (True, m'))"
    using m2(3) m'(1) unfolding goes_def takes_def by metis
  with m1(1) have run: "Run en pc cfa depth offset m = Some (Inr (True, m'))" by simp
  have cap: "ob_cap (sm_b m2) = ob_cap (sm_b m)" using parts(7) fit m2(2) by (simp add: b2(1) ob_cap_def)
  have "sub (ob_arr (sm_b m')) (24 + base) (n + 8) = bs"
    using m'(7) [of "base + 24" "n + 8"] fit m2(2) by (simp add: b2(1) ob_cap_def sub_blit_sameI add.commute)
  moreover have "QueueEntry_of (sub (ob_arr (sm_b m')) (base + 8) 16) =
      \<lparr>qe_Type = prepFrame_TypeID fr, qe_Len = prepFrame_DataByteLen fr + 8, qe_Addr = 0\<rparr>"
    using m'(7) [of "base + 8" 16] fit parts(2) other [of "base + 8" 16] m2(2) by (simp add: b2(1) ob_cap_def)
  moreover have "ob_len (sm_b m2) = base + frame_len (prepFrame_DataByteLen fr)" using parts(6) by (simp add: b2(1))
  moreover have "ob_cap (sm_b m') = ob_cap (sm_b m2)" using m'(6) by (simp add: ob_rel_def)
  ultimately have at: "frame_at (sm_b m') base fr bs"
    using m'(4) fit cap m2(2) by (simp add: frame_at_def entry_at_def b2(1) ob_cap_def)
  have "take base (ob_arr (sm_b m')) = ob_data (sm_b m)"
    using m'(7) [of 0 base] other [of 0 base] parts(5) fit m2(2) by (simp add: take_eq_sub b2(1) ob_cap_def)
  with run m'(2,3,5,6) at m2(1,2) b2(4) cap parts(6) show thesis
    by (intro that [of m' bs refs, folded base_def n_def]) (simp_all add: frame_effect_def b2(1) ob_rel_def)
qed

subsection \<open>The frames of a goroutine\<close>

text \<open>
  What the items of a frame leave, whatever was in the buffer where the variables go; and the frames from a position
  of the buffer on, one after another up to its end, with what they push.
\<close>

definition frame_data_of ::
  "run_env \<Rightarrow> u64 \<Rightarrow> u32 \<Rightarrow> OpPrepareFrameData \<Rightarrow> frame_item list \<Rightarrow> u8 list \<Rightarrow> QueueEntry list \<Rightarrow> bool" where
  "frame_data_of en cfa depth fr is bs refs \<longleftrightarrow> length bs = unat (prepFrame_DataByteLen fr) + 8 \<and>
     (\<exists>before. length before = unat (prepFrame_DataByteLen fr) \<and>
       snd (items_sem en cfa is 0 (before @ le_bytes 4 (prepFrame_ProgID fr) @ le_bytes 4 depth)) = (bs, refs))"

type_synonym frame_codes = "u32 \<Rightarrow> OpPrepareFrameData \<times> frame_item list"

abbreviation foi_len :: "frame_codes \<Rightarrow> frameOfInterest \<Rightarrow> nat" where
  "foi_len codes foi \<equiv> frame_len (prepFrame_DataByteLen (fst (codes (foi_pc foi))))"

primrec frames_from ::
  "run_env \<Rightarrow> frame_codes \<Rightarrow> u64 list \<Rightarrow> outBuf \<Rightarrow> nat \<Rightarrow> frameOfInterest list \<Rightarrow> QueueEntry list \<Rightarrow> bool" where
  "frames_from en codes fps b p [] refs \<longleftrightarrow> p = ob_len b \<and> refs = []"
| "frames_from en codes fps b p (foi # fois) refs \<longleftrightarrow>
     (\<exists>bs r1 r2. refs = r1 @ r2 \<and> frame_at b p (fst (codes (foi_pc foi))) bs \<and>
       frame_data_of en (fps ! unat (foi_idx foi)) (foi_idx foi) (fst (codes (foi_pc foi))) (snd (codes (foi_pc foi))) bs r1 \<and>
       frames_from en codes fps b (p + foi_len codes foi) fois r2)"

definition coded_foi :: "run_env \<Rightarrow> frame_codes \<Rightarrow> u64 list \<Rightarrow> frameOfInterest \<Rightarrow> bool" where
  "coded_foi en codes fps foi \<longleftrightarrow> unat (foi_idx foi) < length fps \<and>
     coded_frame en (foi_pc foi) (fst (codes (foi_pc foi))) (snd (codes (foi_pc foi)))"

lemma length_frame_start:
  assumes "ob_wf b" "unat (prepFrame_DataByteLen fr) \<le> 2 ^ 30" "ob_len b + frame_len (prepFrame_DataByteLen fr) \<le> ob_cap b"
  shows "length (sub (ob_arr b) (ob_len b + 24) (unat (prepFrame_DataByteLen fr))) = unat (prepFrame_DataByteLen fr)"
  using assms(3) padded_ge [OF assms(2)] by (simp add: frame_len_def ob_cap_def)

lemma frame_at_kept:
  assumes "frame_at b p fr bs" "p + 24 + length bs \<le> ob_len b" "ob_cap b' = ob_cap b" "take (ob_len b) (ob_arr b') = ob_data b"
    and "ob_wf b"
  shows "frame_at b' p fr bs"
  using assms sub_take_eq [of "ob_len b" "ob_arr b'" "ob_arr b" p 8]
    entry_at_take [of "ob_len b" b' b "p + 8" _ bs]
  by (simp add: frame_at_def ob_data_def ob_wf_def add.commute)

text \<open>
  C10. The frames of a goroutine are captured. Let every frame of interest have a program that prepares the frame, runs its
  items (variables copied from the stack relative to the canonical frame address, and the code of their types, with its
  calls and loops) and concludes the frame, and let the buffer have room for the frames. Then \<open>runFrames\<close> runs all of
  them: behind what was written before are the frames, one after another up to the end of the buffer, each with a header that
  counts the bytes behind it, an entry header for its type, the data that its items leave (zeros for what cannot be read),
  its program id and its depth; what the items push is queued; and the machine is idle again.
\<close>

theorem runFrames_captures:
  assumes "idle en m" "\<forall>foi \<in> set fois. coded_foi en codes fps foi"
    and "ob_len (sm_b m) + sum_list (map (foi_len codes) fois) \<le> ob_cap (sm_b m)"
  shows "\<exists>m' refs. runFrames en fps fois m = Some (Inr m') \<and> idle en m' \<and>
    frames_from en codes fps (sm_b m') (ob_len (sm_b m)) fois refs \<and>
    take (ob_len (sm_b m)) (ob_arr (sm_b m')) = ob_data (sm_b m) \<and>
    queue_grown refs (sm_q m) (sm_q m') \<and> ob_cap (sm_b m') = ob_cap (sm_b m)"
  using assms
proof (induction fois arbitrary: m)
  case Nil
  then show ?case by (simp add: ob_data_def queue_grown_refl idle_def machine_wf_def)
next
  case (Cons foi fois)
  define fr "is" where "fr = fst (codes (foi_pc foi))" and "is = snd (codes (foi_pc foi))"
  define cfa where "cfa = fps ! unat (foi_idx foi)"
  have foi: "unat (foi_idx foi) < length fps" "coded_frame en (foi_pc foi) fr is"
    using Cons.prems(2) by (simp_all add: coded_foi_def fr_def is_def)
  have room: "ob_len (sm_b m) + frame_len (prepFrame_DataByteLen fr) \<le> ob_cap (sm_b m)"
    "ob_len (sm_b m) + frame_len (prepFrame_DataByteLen fr) + sum_list (map (foi_len codes) fois) \<le> ob_cap (sm_b m)"
    using Cons.prems(3) by (simp_all add: fr_def)
  obtain m1 bs r1 where m1: "Run en (foi_pc foi) cfa (foi_idx foi) (Len (sm_b m)) m = Some (Inr (True, m1))" "idle en m1"
    "frame_effect en cfa (foi_idx foi) fr is (sm_b m) = (bs, r1)" "length bs = unat (prepFrame_DataByteLen fr) + 8"
    "frame_at (sm_b m1) (ob_len (sm_b m)) fr bs" "queue_grown r1 (sm_q m) (sm_q m1)"
    "ob_len (sm_b m1) = ob_len (sm_b m) + frame_len (prepFrame_DataByteLen fr)"
    "take (ob_len (sm_b m)) (ob_arr (sm_b m1)) = ob_data (sm_b m)" "ob_cap (sm_b m1) = ob_cap (sm_b m)"
    by (rule Run_frame [OF foi(2) Cons.prems(1) room(1)])
  obtain m' r2 where m': "runFrames en fps fois m1 = Some (Inr m')" "idle en m'"
    "frames_from en codes fps (sm_b m') (ob_len (sm_b m1)) fois r2"
    "take (ob_len (sm_b m1)) (ob_arr (sm_b m')) = ob_data (sm_b m1)"
    "queue_grown r2 (sm_q m1) (sm_q m')" "ob_cap (sm_b m') = ob_cap (sm_b m1)"
    using Cons.IH [OF m1(2)] Cons.prems(2) room(2) m1(7,9) by auto
  have wf: "ob_wf (sm_b m)" "ob_wf (sm_b m1)" using Cons.prems(1) m1(2) by (simp_all add: idle_def machine_wf_def)
  have n: "unat (prepFrame_DataByteLen fr) \<le> 2 ^ 30" using foi(2) by (simp add: coded_frame_def Let_def)
  have "frame_data_of en cfa (foi_idx foi) fr is bs r1"
    using m1(3,4) length_frame_start [OF wf(1) n room(1)] unfolding frame_data_of_def frame_effect_def frame_start_def by blast
  moreover have "frame_at (sm_b m') (ob_len (sm_b m)) fr bs"
    by (rule frame_at_kept [OF m1(5) _ m'(6,4) wf(2)]) (use m1(4,7) padded_ge [OF n] in \<open>simp add: frame_len_def\<close>)
  ultimately have "frames_from en codes fps (sm_b m') (ob_len (sm_b m)) (foi # fois) (r1 @ r2)"
    using m'(3) m1(7) by (auto simp: fr_def is_def cfa_def)
  moreover have "take (ob_len (sm_b m)) (ob_arr (sm_b m')) = ob_data (sm_b m)"
    using arg_cong [OF m'(4), of "take (ob_len (sm_b m))"] m1(7,8) by (simp add: ob_data_def min_def)
  moreover have "runFrames en fps (foi # fois) m = Some (Inr m')"
    using m1(1) m'(1) foi(1) by (simp add: cfa_def guardE_def)
  ultimately show ?case using m'(2,6) m1(9) queue_grown_trans [OF m1(6) m'(5)] by auto
qed

text \<open>
  Two frames of a function with a pointer variable, root first. The stack of the caller cannot be read, so that its frame
  has zeros and pushes nothing; the pointer of the callee is captured and queued.
\<close>

definition pointer_frame :: frame_codes where
  "pointer_frame pc = (example_frame, [FVar example_deref, FCode (TOp (AEnqueuePointer \<lparr>enqPtr_ElemType = 7\<rparr>))])"

definition frame_env :: run_env where
  "frame_env = \<lparr>en_p = zero_SnapshotProgram\<lparr>sp_Prog := 0 # concat (map op_bytes [APrepareFrameData example_frame,
       ADereferenceCFAOffset example_deref, AEnqueuePointer \<lparr>enqPtr_ElemType = 7\<rparr>, AConcludeFrameData, AReturn]),
       sp_RuntimeConfig := Some zero_RuntimeConfig\<rparr>,
     en_t = Map.empty, en_mem = example_stack_mem, en_md = 0\<rparr>"

definition frame_machine :: machine where
  "frame_machine = newStackMachine (en_p frame_env) makeQueue
     \<lparr>ob_arr = replicate 128 0, ob_len = 0, ob_isFull = False\<rparr> (makeGoRuntimeTypeResolver zero_RuntimeConfig 0)"

definition example_fois :: "frameOfInterest list" where
  "example_fois = [\<lparr>foi_idx = 1, foi_pc = 1\<rparr>, \<lparr>foi_idx = 0, foi_pc = 1\<rparr>]"

lemma frame_coded: "i < 2 \<Longrightarrow> coded_foi frame_env pointer_frame [4104, 9000] \<lparr>foi_idx = of_nat i, foi_pc = 1\<rparr>"
proof -
  define prog where "prog = sp_Prog (en_p frame_env)"
  assume "i < 2"
  then have "i = 0 \<or> i = 1" by auto
  then have "unat (of_nat i :: u32) < 2" by auto
  moreover have "op_end prog (APrepareFrameData example_frame) 1 = Some 14" "op_end prog (ADereferenceCFAOffset example_deref) 14 = Some 27"
    "op_end prog (AEnqueuePointer \<lparr>enqPtr_ElemType = 7\<rparr>) 27 = Some 32" "op_end prog AConcludeFrameData 32 = Some 33"
    "op_end prog AReturn 33 = Some 34" "length prog < 2 ^ 32"
    by (simp_all add: prog_def frame_env_def op_end_def op_bytes_def example_frame_def example_deref_def)
  ultimately show ?thesis
    by (simp add: coded_foi_def coded_frame_def Let_def prog_def [symmetric] pointer_frame_def)
      (simp add: example_frame_def example_deref_def max_steps_def)
qed

lemma frame_machine_idle: "idle frame_env frame_machine"
  by (simp add: idle_def machine_wf_def frame_machine_def frame_env_def newStackMachine_def ob_wf_def ob_cap_def MakeOpDecoder_def
      resolver_current_def module_cfg_def makeGoRuntimeTypeResolver_def queue_wf_make)

lemma pointer_frame_data:
  assumes "frame_data_of frame_env cfa depth example_frame (snd (pointer_frame pc)) bs refs"
    and "variable_bytes frame_env cfa example_deref = ys" "length ys = 8"
  shows "length bs = 16" "take 8 bs = ys" "refs = [\<lparr>qe_Type = 7, qe_Len = 0, qe_Addr = le_word ys\<rparr>]"
proof -
  obtain before where b: "length before = 8"
    "snd (items_sem frame_env cfa (snd (pointer_frame pc)) 0 (before @ le_bytes 4 (2 :: u32) @ le_bytes 4 depth)) = (bs, refs)"
    using assms(1) by (auto simp: frame_data_of_def example_frame_def)
  have "blit (before @ xs) 0 ys = ys @ xs" for xs using b(1) assms(3) by (simp add: blit_def)
  with b(2) assms(2) have "bs = ys @ le_bytes 4 (2 :: u32) @ le_bytes 4 depth"
    "refs = [\<lparr>qe_Type = 7, qe_Len = 0, qe_Addr = u64_at bs 0\<rparr>]"
    by (auto simp: pointer_frame_def then_sem_def)
  with assms(3) show "length bs = 16" "take 8 bs = ys" "refs = [\<lparr>qe_Type = 7, qe_Len = 0, qe_Addr = le_word ys\<rparr>]"
    by (simp_all add: u64_at_def sub_def)
qed

lemma frame_at_data: "frame_at b p fr bs \<Longrightarrow> 8 \<le> length bs \<Longrightarrow> sub (ob_arr b) (p + 24) 8 = take 8 bs"
  by (auto simp: frame_at_def entry_at_def sub_def take_take min_def add.commute dest!: arg_cong [of "take _ _" bs "take 8"])

theorem runFrames_captures_witness:
  "\<exists>m'. runFrames frame_env [4104, 9000] example_fois frame_machine = Some (Inr m') \<and> ob_len (sm_b m') = 80 \<and>
     FrameHeader_of (sub (ob_arr (sm_b m')) 40 8) = \<lparr>fh_DataByteLen = 32\<rparr> \<and>
     sub (ob_arr (sm_b m')) 24 8 = replicate 8 0 \<and> sub (ob_arr (sm_b m')) 64 8 = [0, 1, 2, 3, 4, 5, 6, 7] \<and>
     key_of ` set (queue_list (sm_q m')) = {\<lparr>k_addr = 0x0706050403020100, k_t = 7\<rparr>}"
proof -
  have l: "unat (prepFrame_DataByteLen example_frame) = 8" "frame_len (prepFrame_DataByteLen example_frame) = 40"
    by (simp_all add: example_frame_def frame_len_def padded_def)
  have c: "\<forall>foi \<in> set example_fois. coded_foi frame_env pointer_frame [4104, 9000] foi"
    using frame_coded [of 1] frame_coded [of 0] by (simp add: example_fois_def)
  have r: "ob_len (sm_b frame_machine) = 0" "ob_cap (sm_b frame_machine) = 128" "queue_list (sm_q frame_machine) = []"
    "qu_seen (sm_q frame_machine) = {}"
    by (simp_all add: frame_machine_def newStackMachine_def ob_cap_def queue_list_make qu_seen_make)
  have fst: "fst (pointer_frame pc) = example_frame" for pc by (simp add: pointer_frame_def)
  have v: "variable_bytes frame_env 9000 example_deref = replicate 8 0"
    "variable_bytes frame_env 4104 example_deref = [0, 1, 2, 3, 4, 5, 6, 7]"
    by (simp_all add: variable_bytes_def frame_env_def example_deref_def Dereference_def read_bytes_step example_stack_mem_def)
  have w: "le_word (replicate 8 0 :: u8 list) = (0 :: u64)" "le_word [0, 1, 2, 3, 4, 5, 6, 7 :: u8] = (0x0706050403020100 :: u64)"
    by code_simp+
  have room: "ob_len (sm_b frame_machine) + sum_list (map (foi_len pointer_frame) example_fois) \<le> ob_cap (sm_b frame_machine)"
    by (simp add: r example_fois_def fst l(2))
  obtain m' refs where
    m': "runFrames frame_env [4104, 9000] example_fois frame_machine = Some (Inr m')"
    "frames_from frame_env pointer_frame [4104, 9000] (sm_b m') 0 example_fois refs"
    "queue_grown refs (sm_q frame_machine) (sm_q m')"
    using runFrames_captures [OF frame_machine_idle c room] unfolding r(1) by blast
  then obtain b1 r1 b2 r2 where f: "refs = r1 @ r2" "frame_at (sm_b m') 0 example_frame b1"
    "frame_data_of frame_env 9000 1 example_frame (snd (pointer_frame 1)) b1 r1"
    "frame_at (sm_b m') 40 example_frame b2"
    "frame_data_of frame_env 4104 0 example_frame (snd (pointer_frame 1)) b2 r2" "ob_len (sm_b m') = 80"
    by (auto simp: example_fois_def fst l(2))
  note d1 = pointer_frame_data [OF f(3) v(1)] and d2 = pointer_frame_data [OF f(5) v(2)]
  have "pushed refs = {\<lparr>qe_Type = 7, qe_Len = 0, qe_Addr = 0x0706050403020100\<rparr>}"
    using d1(3) d2(3) w f(1) by simp
  then have "key_of ` set (queue_list (sm_q m')) = {\<lparr>k_addr = 0x0706050403020100, k_t = 7\<rparr>}"
    using m'(3) r(3,4) by (auto simp: queue_grown_def key_of_def)
  moreover have "FrameHeader_of (sub (ob_arr (sm_b m')) 40 8) = \<lparr>fh_DataByteLen = 32\<rparr>"
    using f(4) l(2) by (simp add: frame_at_def)
  moreover have "sub (ob_arr (sm_b m')) 24 8 = replicate 8 0" "sub (ob_arr (sm_b m')) 64 8 = [0, 1, 2, 3, 4, 5, 6, 7]"
    using frame_at_data [OF f(2)] frame_at_data [OF f(4)] d1 d2 by simp_all
  ultimately show ?thesis using m'(1) f(6) by blast
qed

end
