(* ===== verification/Heap_Capture.thy ===== *)
theory Heap_Capture
  imports Type_Code
begin

text \<open>
  The traversal of the queue captures the reachable objects: for programs that meet their specification,
  whenever the buffer did not get full; and without a fault, for types that are given by their code, when the buffer
  has room for what is reachable.
\<close>

subsection \<open>A buffer with room\<close>

lemma captureEntry_room:
  assumes "idle en m" "small_types en" "coded_types en codes E" "e0 \<in> E" "\<not> full (sm_b m)"
    and "ob_len (sm_b m) + extent en (coded_sem en codes) e0 \<le> ob_cap (sm_b m)"
  shows "\<exists>t. captureEntry en e0 m = Some (Inr t) \<and> \<not> full (sm_b t) \<and>
    ob_len (sm_b t) = ob_len (sm_b m) + extent en (coded_sem en codes) e0"
proof (cases "entry_type en e0")
  case None
  with assms(5) show ?thesis by (simp add: captureEntry_None extent_def object_entry_def)
next
  case (Some x)
  obtain ti e where et: "entry_type en e0 = Some (ti, e)" using Some by (cases x) auto
  have uw: "unwrapped e" by (rule entry_type_unwrapped [OF assms(2) et])
  have st: "coded_type en (codes (qe_Type e)) ti e" if "ti_EnqueuePc ti \<noteq> 0"
    using assms(3,4) et that by (auto simp: coded_types_def)
  show ?thesis
  proof (cases "ti_SerializeBeforeEnqueue ti")
    case False
    with st have "ti_EnqueuePc ti = 0" by (auto simp: coded_type_def)
    with et False assms(5) show ?thesis by (simp add: captureEntry_Some extent_def object_entry_def)
  next
    case True
    have ext: "extent en (coded_sem en codes) e0 = entry_len e"
      using et True by (simp add: extent_def object_entry_def split: option.splits)
    with assms(6) have room: "room e (sm_b m)" by (simp add: room_def)
    note wf = idle_wf(1) [OF assms(1)]
    show ?thesis
    proof (cases "object_memory en e")
      case None
      then have "writeQueueEntry (en_mem en) e (sm_b m) =
          Inr ((0, False), written (unreadable e) (replicate (unat (qe_Len e)) 0) (sm_b m))"
        by (intro writeQueueEntry_unmapped [OF wf uw room]) (simp add: object_memory_def)
      with et True ext assms(5) show ?thesis by (simp add: captureEntry_Some m_bufr_def full_def)
    next
      case (Some bs)
      then have w: "writeQueueEntry (en_mem en) e (sm_b m) = Inr ((Len (sm_b m) + 16, True), written e bs (sm_b m))"
        by (intro writeQueueEntry_mapped [OF wf uw room]) (simp add: object_memory_def)
      show ?thesis
      proof (cases "ti_EnqueuePc ti = 0")
        case pc: True
        with et True ext assms(5) w show ?thesis by (simp add: captureEntry_Some m_bufr_def full_def)
      next
        case pc: False
        define m1 where "m1 = m\<lparr>sm_b := written e bs (sm_b m), sm_chasedEntry := e\<rparr>"
        have on: "runs_on en ti e (Len (sm_b m) + 16) bs m1"
          unfolding m1_def by (rule written_runs_on [OF assms(1) uw room True Some])
        from Run_coded [OF st [OF pc] on] obtain t where
          t: "Run en (ti_EnqueuePc ti) 0 0 (Len (sm_b m) + 16) m1 = Some (Inr (True, t))"
            "ob_len (sm_b t) = ob_len (sm_b m1)" "\<not> full (sm_b t)"
          using assms(5) by (auto simp: m1_def full_def)
        with et True ext pc w show ?thesis by (auto simp: captureEntry_Some m_bufr_def m1_def)
      qed
    qed
  qed
qed

subsection \<open>The traversal with room\<close>

abbreviation queued :: "machine \<Rightarrow> QueueEntry set" where
  "queued m \<equiv> set (queue_list (sm_q m))"

text \<open>There is room for the objects reachable from the queue, which are finitely many and have types that are given by their code.\<close>

definition heap_size :: "run_env \<Rightarrow> type_sem \<Rightarrow> QueueEntry set \<Rightarrow> nat" where
  "heap_size en sem E = (\<Sum>e \<in> E. extent en sem e)"

definition heap_fits :: "run_env \<Rightarrow> (u32 \<Rightarrow> type_code) \<Rightarrow> machine \<Rightarrow> bool" where
  "heap_fits en codes m \<longleftrightarrow>
     (let sem = coded_sem en codes; R = heap_reach en sem (queued m) in
      idle en m \<and> small_types en \<and> coded_types en codes R \<and> finite R \<and> \<not> full (sm_b m) \<and>
      ob_len (sm_b m) + heap_size en sem R \<le> ob_cap (sm_b m))"

lemma heap_fitsD:
  assumes "heap_fits en codes m"
  defines "R \<equiv> heap_reach en (coded_sem en codes) (queued m)"
  shows "idle en m" "small_types en" "coded_types en codes R" "finite R" "\<not> full (sm_b m)"
    and "ob_len (sm_b m) + heap_size en (coded_sem en codes) R \<le> ob_cap (sm_b m)"
    and "traversable en (coded_sem en codes) R m"
proof -
  show h: "idle en m" "small_types en" "coded_types en codes R" "finite R" "\<not> full (sm_b m)"
    "ob_len (sm_b m) + heap_size en (coded_sem en codes) R \<le> ob_cap (sm_b m)"
    using assms by (simp_all add: heap_fits_def Let_def)
  show "traversable en (coded_sem en codes) R m"
    using h(1,2) coded_types_programs [OF h(3)] heap_reach_closed [of en "coded_sem en codes" "queued m"]
    by (auto simp: traversable_def R_def intro: heap_root)
qed

definition progress :: "run_env \<Rightarrow> (u32 \<Rightarrow> type_code) \<Rightarrow> machine \<Rightarrow> machine \<Rightarrow> bool" where
  "progress en codes m0 m \<longleftrightarrow> heap_fits en codes m0 \<and> \<not> full (sm_b m) \<and>
     (\<exists>os. traversed en (coded_sem en codes) m0 os m \<and>
       ob_len (sm_b m) = ob_len (sm_b m0) + (\<Sum>e\<leftarrow>map fst os. extent en (coded_sem en codes) e))"

lemma progress_init: "heap_fits en codes m \<Longrightarrow> progress en codes m m"
  using traversed_refl [OF heap_fitsD(1)] heap_fitsD(5) by (force simp: progress_def)

lemma sum_list_subset:
  fixes f :: "'a \<Rightarrow> nat"
  assumes "distinct xs" "set xs \<subseteq> R" "finite R"
  shows "(\<Sum>x\<leftarrow>xs. f x) \<le> (\<Sum>x \<in> R. f x)"
  using assms by (simp add: sum_list_distinct_conv_sum_set sum_mono2)

text \<open>The next entry has not been taken before, and so there is room for it.\<close>

lemma next_entry_fits:
  assumes "heap_fits en codes m0" "traversed en (coded_sem en codes) m0 os m"
    and "ob_len (sm_b m) = ob_len (sm_b m0) + (\<Sum>e\<leftarrow>map fst os. extent en (coded_sem en codes) e)"
    and "queue_list (sm_q m) = e # es"
  shows "ob_len (sm_b m) + extent en (coded_sem en codes) e \<le> ob_cap (sm_b m)"
proof -
  define sem where "sem = coded_sem en codes"
  define R where "R = heap_reach en sem (queued m0)"
  note t = traversedD [OF assms(2), folded sem_def] and h = heap_fitsD [OF assms(1), folded sem_def, folded R_def]
  from t(6) obtain new where
    new: "queue_list (sm_q m0) @ new = map fst os @ queue_list (sm_q m)" "distinct (map key_of new)"
      "key_of ` set new \<inter> qu_seen (sm_q m0) = {}" by blast
  have "distinct (map key_of (queue_list (sm_q m0) @ new))"
    using idle_wf(2) [OF h(1)] new(2,3) by (auto simp: queue_wf_def)
  then have "distinct (queue_list (sm_q m0) @ new)" by (simp only: distinct_map)
  then have d: "distinct (map fst os @ [e])" unfolding new(1) by (simp add: assms(4))
  have "set (map fst os @ [e]) \<subseteq> R" using t(7) by (auto simp: assms(4) R_def)
  from sum_list_subset [OF d this h(4), of "extent en sem"]
  have "(\<Sum>e\<leftarrow>map fst os. extent en sem e) + extent en sem e \<le> heap_size en sem R"
    by (simp add: heap_size_def)
  with h(6) assms(3) t(2) show ?thesis by (simp add: sem_def)
qed

lemma progress_step:
  assumes "progress en codes m0 m"
  shows "\<exists>again t. processStep en m = Some (Inr (again, t)) \<and> progress en codes m0 t"
proof -
  define sem where "sem = coded_sem en codes"
  define R where "R = heap_reach en sem (queued m0)"
  from assms obtain os where h: "heap_fits en codes m0" "\<not> full (sm_b m)"
    and t: "traversed en sem m0 os m"
    and len: "ob_len (sm_b m) = ob_len (sm_b m0) + (\<Sum>e\<leftarrow>map fst os. extent en sem e)"
    by (auto simp: progress_def sem_def)
  note d = heap_fitsD [OF h(1), folded sem_def, folded R_def]
  note tr = traversableD [OF traversed_traversable [OF d(7) t]]
  show ?thesis
  proof (rule queue_Pop_total [OF idle_wf(2) [OF tr(1)]])
    assume "queue_Pop (sm_q m) = Inr (None, sm_q m)"
    with h(2) assms show ?thesis by (auto simp: processStep_def)
  next
    fix e q'
    assume q': "queue_Pop (sm_q m) = Inr (Some e, q')" "queue_wf q'"
    note pop = backlog_pop [OF idle_wf(2) [OF tr(1)] q'(1)]
    define m1 where "m1 = m\<lparr>sm_q := q'\<rparr>"
    have idle1: "idle en m1" using tr(1) q'(2) by (simp add: idle_def machine_wf_def m1_def)
    have e: "e \<in> R" using tr(5) pop(4) by simp
    have fit: "ob_len (sm_b m1) + extent en sem e \<le> ob_cap (sm_b m1)"
      using next_entry_fits [OF h(1) t [unfolded sem_def] len [unfolded sem_def] pop(4)] by (simp add: m1_def sem_def)
    have nf1: "\<not> full (sm_b m1)" using h(2) by (simp add: m1_def)
    from captureEntry_room [OF idle1 d(2,3) e nf1 fit [unfolded sem_def]] obtain u where
      u: "captureEntry en e m1 = Some (Inr u)" "\<not> full (sm_b u)"
        "ob_len (sm_b u) = ob_len (sm_b m1) + extent en sem e" by (auto simp: sem_def)
    have "captured en sem e m1 u" by (rule captureEntry_captured [OF idle1 d(2) tr(3) u(1,2) e])
    from traversed_trans [OF d(2) t captured_traversed [OF this m1_def pop(4,3)]]
    have "progress en codes m0 u"
      using h(1) u(2,3) len by (auto simp: progress_def sem_def m1_def intro!: exI)
    moreover have "processStep en m = Some (Inr (True, u))"
      using h(2) q'(1) u(1) by (simp add: processStep_def m1_def)
    ultimately show ?thesis by blast
  qed
qed

interpretation PQP: loop_measure "processStep en" "progress en codes m0" "\<lambda>_ _. True" "\<lambda>m. backlog (sm_q m)"
  for en codes m0
proof unfold_locales
  have wf: "machine_wf s" if "progress en codes m0 s" for s
    using that by (auto simp: progress_def dest!: traversedD(1) intro: idle_wf(3))
  show "progress en codes m0 t \<and> True" if "progress en codes m0 s" "processStep en s = Some (Inr (again, t))" for s again t
    using that progress_step by fastforce
  show "processStep en s \<noteq> None" if "progress en codes m0 s" for s
    using progress_step [OF that] by auto
  show "backlog (sm_q t) < backlog (sm_q s)" if "progress en codes m0 s" "processStep en s = Some (Inr (True, t))" for s t
    using processStep_spec [OF wf that(2)] that(1) by simp
qed simp_all

lemma processQueue_fits:
  assumes "heap_fits en codes m"
  obtains t where "processQueue en m = Some (Inr t)" "\<not> full (sm_b t)"
proof -
  note p = progress_init [OF assms]
  obtain t where t: "loopR (processStep en) m = Some (Inr t)"
    using PQP.loop_total [OF _ p] progress_step by blast
  moreover have "\<not> full (sm_b t)" using PQP.loop_step [OF t p] by (simp add: progress_def)
  ultimately show thesis by (intro that) (simp_all add: processQueue_def)
qed

subsection \<open>The objects of a snapshot\<close>

text \<open>
  C5. The objects of a snapshot are the graph reachable from the queue. When \<open>processQueue\<close> returns and the
  buffer is not full, it has kept what was in the buffer and emptied the queue, and there are objects \<open>os\<close>
  with their places: one after the other without overlap in the part of the buffer it wrote, no key
  twice; among them everything that was queued, and nothing that is not reachable from it; what their type
  programs push is among them, too, unless its key had been seen before. At its place each serialized object has the
  header of its entry with its length clamped to the type, and behind it the bytes of the process's memory as the
  type's program leaves them; or the flag of an unreadable object and zeros.
\<close>

theorem processQueue_captures_graph:
  assumes "idle en m" "small_types en"
    and "type_programs en sem (heap_reach en sem (set (queue_list (sm_q m))))"
    and "processQueue en m = Some (Inr t)" "\<not> full (sm_b t)"
  shows "\<exists>os. in_order en sem (ob_len (sm_b m)) os (ob_len (sm_b t)) \<and>
    (\<forall>(e, p) \<in> set os. placed en sem (sm_b t) e p) \<and> distinct (map (key_of \<circ> fst) os) \<and>
    set (queue_list (sm_q m)) \<subseteq> fst ` set os \<and>
    fst ` set os \<subseteq> heap_reach en sem (set (queue_list (sm_q m))) \<and>
    (\<forall>e \<in> fst ` set os. key_of ` pushed (object_refs en sem e) \<subseteq> key_of ` fst ` set os \<union> qu_seen (sm_q m)) \<and>
    take (ob_len (sm_b m)) (ob_data (sm_b t)) = ob_data (sm_b m) \<and> queue_list (sm_q t) = []"
  by (rule processQueue_graph [OF assms]) (auto simp: object_graph_def)

text \<open>A list of two nodes that point to each other, with the program of their type at 1.\<close>

definition node_code :: type_code where
  "node_code = TOp (AEnqueuePointer \<lparr>enqPtr_ElemType = 1\<rparr>)"

definition node_ops :: "AnyOp list" where
  "node_ops = [AEnqueuePointer \<lparr>enqPtr_ElemType = 1\<rparr>, AReturn]"

definition node_type :: TypeInfo where
  "node_type = zero_TypeInfo\<lparr>ti_ByteLen := 16, ti_SerializeBeforeEnqueue := True, ti_EnqueuePc := 1\<rparr>"

definition list_program :: SnapshotProgram where
  "list_program = zero_SnapshotProgram\<lparr>sp_Prog := 0 # concat (map op_bytes node_ops),
     sp_TypeInfo := [1 \<mapsto> node_type], sp_RuntimeConfig := Some zero_RuntimeConfig\<rparr>"

definition list_memory :: memory where
  "list_memory a =
     (if 4096 \<le> a \<and> a < 4112 then Some (if a = 4097 then 0x20 else if a = 4104 then 7 else 0)
      else if 8192 \<le> a \<and> a < 8208 then Some (if a = 8193 then 0x10 else if a = 8200 then 8 else 0)
      else None)"

definition list_env :: run_env where
  "list_env = \<lparr>en_p = list_program, en_t = Map.empty, en_mem = list_memory, en_md = 0\<rparr>"

definition node_entry :: "u64 \<Rightarrow> QueueEntry" where
  "node_entry a = \<lparr>qe_Type = 1, qe_Len = 0, qe_Addr = a\<rparr>"

definition list_machine :: machine where
  "list_machine =
     newStackMachine list_program (case queue_Push 4096 1 0 makeQueue of Inr (_, q) \<Rightarrow> q | Inl _ \<Rightarrow> makeQueue)
       \<lparr>ob_arr = replicate 64 0, ob_len = 0, ob_isFull = False\<rparr> (makeGoRuntimeTypeResolver zero_RuntimeConfig 0)"

lemma list_machine_queue:
  "queue_wf (sm_q list_machine)" "queue_list (sm_q list_machine) = [node_entry 4096]"
  "qu_seen (sm_q list_machine) = {key_of (node_entry 4096)}"
proof -
  have nz: "(4096 :: u64) \<noteq> 0" by simp
  have "\<lparr>k_addr = (4096 :: u64), k_t = 1\<rparr> \<notin> qu_seen makeQueue" by (simp add: qu_seen_make)
  from queue_Push_new [OF queue_wf_make nz this, of 0] obtain q where
    "queue_Push 4096 1 0 makeQueue = Inr (True, q)" "queue_wf q"
    "queue_list q = queue_list makeQueue @ [\<lparr>qe_Type = 1, qe_Len = 0, qe_Addr = 4096\<rparr>]"
    "qu_seen q = insert \<lparr>k_addr = 4096, k_t = 1\<rparr> (qu_seen makeQueue)" by blast
  then show "queue_wf (sm_q list_machine)" "queue_list (sm_q list_machine) = [node_entry 4096]"
    "qu_seen (sm_q list_machine) = {key_of (node_entry 4096)}"
    by (simp_all add: list_machine_def newStackMachine_def queue_list_make qu_seen_make node_entry_def)
qed

lemma node_entry_type: "entry_type list_env (node_entry a) = Some (node_type, \<lparr>qe_Type = 1, qe_Len = 16, qe_Addr = a\<rparr>)"
  by (simp add: entry_type_def list_env_def list_program_def node_entry_def node_type_def clampLen_def Let_def)

definition node_bytes :: "u64 \<Rightarrow> u8 list" where
  "node_bytes a = (if a = 4096 then [0, 32, 0, 0, 0, 0, 0, 0, 7, 0, 0, 0, 0, 0, 0, 0]
     else [0, 16, 0, 0, 0, 0, 0, 0, 8, 0, 0, 0, 0, 0, 0, 0])"

lemma node_memory:
  "object_memory list_env \<lparr>qe_Type = 1, qe_Len = 16, qe_Addr = 4096\<rparr> = Some (node_bytes 4096)"
  "object_memory list_env \<lparr>qe_Type = 1, qe_Len = 16, qe_Addr = 8192\<rparr> = Some (node_bytes 8192)"
proof -
  have "Dereference list_memory 4096 16 = Some (node_bytes 4096)"
    "Dereference list_memory 8192 16 = Some (node_bytes 8192)" by code_simp+
  then show "object_memory list_env \<lparr>qe_Type = 1, qe_Len = 16, qe_Addr = 4096\<rparr> = Some (node_bytes 4096)"
    "object_memory list_env \<lparr>qe_Type = 1, qe_Len = 16, qe_Addr = 8192\<rparr> = Some (node_bytes 8192)"
    by (simp_all add: object_memory_def list_env_def)
qed

definition list_sem :: type_sem where
  "list_sem = coded_sem list_env (\<lambda>_. node_code)"

lemma node_next: "u64_at (node_bytes 4096) 0 = 8192" "u64_at (node_bytes 8192) 0 = 4096"
  by code_simp+

lemma node_sem: "list_sem e bs = (bs, [node_entry (u64_at bs 0)])"
  by (simp add: list_sem_def coded_sem_def node_code_def node_entry_def)

lemma node_object:
  assumes "a = 4096 \<or> a = 8192"
  shows "object_entry list_env list_sem (node_entry a) = Some (\<lparr>qe_Type = 1, qe_Len = 16, qe_Addr = a\<rparr>, node_bytes a)"
    and "object_refs list_env list_sem (node_entry a) = [node_entry (if a = 4096 then 8192 else 4096)]"
  using assms node_next node_memory
  by (auto simp: object_entry_def object_refs_def node_entry_type node_sem)
    (auto simp: node_type_def zero_TypeInfo_def)

lemma list_reach: "heap_reach list_env list_sem {node_entry 4096} = {node_entry 4096, node_entry 8192}"
proof
  have "closed_refs list_env list_sem {node_entry 4096, node_entry 8192}"
    by (auto simp: closed_refs_def node_object)
  then show "heap_reach list_env list_sem {node_entry 4096} \<subseteq> {node_entry 4096, node_entry 8192}"
    by (rule heap_reach_least) simp
  have "node_entry 4096 \<in> heap_reach list_env list_sem {node_entry 4096}" by (simp add: heap_root)
  then have "node_entry 8192 \<in> heap_reach list_env list_sem {node_entry 4096}"
    by (rule heap_ref) (simp add: node_object, simp add: node_entry_def)
  then show "{node_entry 4096, node_entry 8192} \<subseteq> heap_reach list_env list_sem {node_entry 4096}"
    by (simp add: heap_root)
qed

lemma list_idle: "idle list_env list_machine"
  using list_machine_queue(1)
  by (simp add: idle_def machine_wf_def list_machine_def newStackMachine_def ob_wf_def ob_cap_def MakeOpDecoder_def
      list_env_def list_program_def resolver_current_def module_cfg_def makeGoRuntimeTypeResolver_def)

lemma list_small: "small_types list_env"
  by (auto simp: small_types_def list_env_def list_program_def node_type_def split: if_splits)

lemma node_coded: "coded_type list_env node_code node_type \<lparr>qe_Type = 1, qe_Len = 16, qe_Addr = a\<rparr>"
  by (simp add: coded_type_def node_code_def node_type_def max_steps_def list_env_def list_program_def node_ops_def
      op_end_def op_bytes_def)

lemma node_entry_eq [simp]: "node_entry a = node_entry b \<longleftrightarrow> a = b"
  by (simp add: node_entry_def)

lemma list_fits: "heap_fits list_env (\<lambda>_. node_code) list_machine"
proof -
  have len16: "entry_len \<lparr>qe_Type = 1, qe_Len = 16, qe_Addr = a\<rparr> = 32" for a
    by (simp add: entry_len_def padded_def)
  have "heap_size list_env list_sem {node_entry 4096, node_entry 8192} = 64"
    by (simp add: heap_size_def extent_def node_object len16)
  moreover have "coded_types list_env (\<lambda>_. node_code) {node_entry 4096, node_entry 8192}"
    using node_coded by (auto simp: coded_types_def node_entry_type)
  ultimately show ?thesis
    using list_idle list_small list_reach
    by (simp add: heap_fits_def Let_def list_machine_queue(2) list_sem_def [symmetric])
      (simp add: list_machine_def newStackMachine_def ob_cap_def full_def)
qed

lemma list_programs: "type_programs list_env list_sem (heap_reach list_env list_sem (queued list_machine))"
  using coded_types_programs [OF heap_fitsD(3) [OF list_fits]] by (simp add: list_sem_def)

text \<open>Both nodes are captured, once each, although they form a cycle.\<close>

theorem processQueue_captures_graph_witness:
  "\<exists>t os. processQueue list_env list_machine = Some (Inr t) \<and> fst ` set os = {node_entry 4096, node_entry 8192} \<and>
     distinct (map (key_of \<circ> fst) os) \<and> in_order list_env list_sem 0 os (ob_len (sm_b t))"
proof -
  obtain t where t: "processQueue list_env list_machine = Some (Inr t)" "\<not> full (sm_b t)"
    by (rule processQueue_fits [OF list_fits])
  have len0: "ob_len (sm_b list_machine) = 0" by (simp add: list_machine_def newStackMachine_def)
  obtain os where
    os: "in_order list_env list_sem 0 os (ob_len (sm_b t))" "distinct (map (key_of \<circ> fst) os)"
      "{node_entry 4096} \<subseteq> fst ` set os" "fst ` set os \<subseteq> {node_entry 4096, node_entry 8192}"
      "\<forall>e \<in> fst ` set os. key_of ` pushed (object_refs list_env list_sem e) \<subseteq>
         key_of ` fst ` set os \<union> {key_of (node_entry 4096)}"
    using processQueue_captures_graph [OF list_idle list_small list_programs t]
    unfolding list_machine_queue len0 list.set list_reach by (elim exE conjE) (rule that)
  have "key_of ` pushed (object_refs list_env list_sem (node_entry 4096)) = {key_of (node_entry 8192)}"
    by (simp add: node_object) (simp add: node_entry_def)
  moreover have ne: "key_of (node_entry 8192) \<noteq> key_of (node_entry 4096)" by (simp add: node_entry_def)
  moreover have "node_entry 4096 \<in> fst ` set os" using os(3) by simp
  ultimately have "key_of (node_entry 8192) \<in> key_of ` fst ` set os" using bspec [OF os(5)] by fastforce
  then obtain e where e: "e \<in> fst ` set os" "key_of (node_entry 8192) = key_of e" by (rule imageE)
  then have "e = node_entry 8192" using subsetD [OF os(4) e(1)] ne by auto
  with e(1) os(3,4) have "fst ` set os = {node_entry 4096, node_entry 8192}"
    by (intro subset_antisym) simp_all
  with os t(1) show ?thesis by blast
qed

text \<open>
  C4. With room, the capture is total: if the objects reachable from the queue are finitely many, of types whose
  programs (sequences, subroutines and loops of operations) stay inside the object and below the bound of the
  interpreter, and together fit into what is left of the buffer, then \<open>processQueue\<close> returns without a fault, on every memory, cyclic structures and unmapped pointers
  included; the buffer is not full, and it has the objects: everything queued, everything those refer to, and
  nothing else, each key once.
\<close>

theorem processQueue_captures_reachable:
  assumes "heap_fits en codes m"
  shows "\<exists>t os. processQueue en m = Some (Inr t) \<and> \<not> full (sm_b t) \<and>
    object_graph en (coded_sem en codes) m os t \<and>
    take (ob_len (sm_b m)) (ob_data (sm_b t)) = ob_data (sm_b m)"
proof -
  obtain t where t: "processQueue en m = Some (Inr t)" "\<not> full (sm_b t)" by (rule processQueue_fits [OF assms])
  note h = heap_fitsD [OF assms]
  obtain os where "object_graph en (coded_sem en codes) m os t"
      "take (ob_len (sm_b m)) (ob_data (sm_b t)) = ob_data (sm_b m)"
    by (rule processQueue_graph [OF h(1,2) coded_types_programs [OF h(3)] t])
  with t show ?thesis by blast
qed

theorem processQueue_captures_reachable_witness:
  "heap_fits list_env (\<lambda>_. node_code) list_machine \<and>
   (\<exists>t os. processQueue list_env list_machine = Some (Inr t) \<and> \<not> full (sm_b t) \<and>
     object_graph list_env list_sem list_machine os t)"
  using list_fits processQueue_captures_reachable [OF list_fits] by (auto simp: list_sem_def)

subsection \<open>One type program\<close>

text \<open>
  C6. The program of a type, run on an object that has been copied into the buffer, returns true: the interpreter
  implements the meaning of the code, with its subroutines and its loops over the elements. It leaves its stack empty;
  of what the buffer held it has changed the bytes of the object alone, into those that \<open>code_sem\<close> gives (the runtime
  types in the place of the type pointers of interfaces); it has neither grown the buffer nor filled it; and it has queued
  what \<open>code_sem\<close> gives, less nil pointers and the keys seen before.
\<close>

theorem type_program_implements:
  assumes "coded_type en c ti e" "runs_on en ti e off bs m"
  shows "\<exists>m'. Run en (ti_EnqueuePc ti) 0 0 off m = Some (Inr (True, m')) \<and>
    program_effect en (snd (code_sem en c 0 bs)) (unat off) (length bs) m m' \<and>
    ob_len (sm_b m') = ob_len (sm_b m) \<and> ob_isFull (sm_b m') = ob_isFull (sm_b m)"
  using assms by (rule Run_coded)

text \<open>
  A slice of two pointers, which is the first node read as one: a loop over the elements with a subroutine for each
  (\<open>loop_ops\<close>), as \<open>captureEntry\<close> has it when it runs the program.
\<close>

definition slice_code :: type_code where
  "slice_code = TTimes (APushSliceLen \<lparr>pushLen_ElemByteLen = 8\<rparr>)
     (TSeq (TCall 23 (TOp (AEnqueuePointer \<lparr>enqPtr_ElemType = 7\<rparr>))) (TOp (AAdvanceOffset \<lparr>adv_Increment = 8\<rparr>)))"

definition slice_type :: TypeInfo where
  "slice_type = zero_TypeInfo\<lparr>ti_ByteLen := 16, ti_SerializeBeforeEnqueue := True\<rparr>"

definition slice_env :: run_env where
  "slice_env = list_env\<lparr>en_p := list_program\<lparr>sp_Prog := loop_program\<rparr>\<rparr>"

definition slice_header :: QueueEntry where
  "slice_header = \<lparr>qe_Type = 1, qe_Len = 16, qe_Addr = 4096\<rparr>"

definition slice_machine :: machine where
  "slice_machine = list_machine\<lparr>sm_decoder := MakeOpDecoder loop_program,
     sm_b := written slice_header (node_bytes 4096) (sm_b list_machine), sm_chasedEntry := slice_header\<rparr>"

lemma slice_count: "loop_count (APushSliceLen \<lparr>pushLen_ElemByteLen = 8\<rparr>) 16 = Suc (Suc 0)"
  by simp

lemma slice_coded: "coded_type slice_env slice_code slice_type slice_header"
proof -
  have prog: "sp_Prog (en_p slice_env) = loop_program" by (simp add: slice_env_def)
  have "code_end loop_program slice_code 0 = Some 22" "op_end loop_program AReturn 22 = Some 23"
    by (simp_all add: slice_code_def op_end_def loop_program_def loop_ops_def op_bytes_def)
  moreover have "code_fit slice_env 16 slice_code 0 = Some 16" "code_steps 16 slice_code < max_steps"
    by (simp_all add: slice_code_def max_steps_def slice_count del: loop_count.simps)
  moreover have "length loop_program < 2 ^ 32" by (simp add: loop_program_def loop_ops_def op_bytes_def)
  ultimately show ?thesis
    unfolding coded_type_def prog by (simp add: slice_header_def) (simp add: slice_type_def zero_TypeInfo_def)
qed

lemma slice_runs_on: "runs_on slice_env slice_type slice_header 16 (node_bytes 4096) slice_machine"
proof -
  define m where "m = list_machine\<lparr>sm_decoder := MakeOpDecoder loop_program\<rparr>"
  have "sp_RuntimeConfig list_program = Some zero_RuntimeConfig" by (simp add: list_program_def)
  then have "resolver_current slice_env g = resolver_current list_env g" for g
    by (simp add: resolver_current_def module_cfg_def slice_env_def list_env_def)
  moreover have "sp_Prog (en_p slice_env) = loop_program" by (simp add: slice_env_def)
  ultimately have idle: "idle slice_env m"
    using list_idle by (simp add: m_def idle_def machine_wf_def MakeOpDecoder_def)
  have len: "unat (qe_Len slice_header) = 16" "entry_len slice_header = 32" "Len (sm_b m) = 0"
    by (simp_all add: slice_header_def entry_len_def padded_def m_def list_machine_def newStackMachine_def Len_def)
  then have "unwrapped slice_header" "room slice_header (sm_b m)"
    by (simp_all add: unwrapped_def room_def m_def list_machine_def newStackMachine_def ob_cap_def)
  moreover have "ti_SerializeBeforeEnqueue slice_type" by (simp add: slice_type_def)
  moreover have "object_memory slice_env slice_header = Some (node_bytes 4096)"
    using node_memory(1) by (simp add: object_memory_def slice_env_def list_env_def slice_header_def)
  ultimately show ?thesis
    using written_runs_on [OF idle, of slice_header slice_type "node_bytes 4096"] len(3)
    by (simp add: slice_machine_def m_def)
qed

text \<open>Both elements are pushed, with the type of the elements.\<close>

theorem type_program_implements_witness:
  "\<exists>m'. Run slice_env 0 0 0 16 slice_machine = Some (Inr (True, m')) \<and>
     queue_grown [\<lparr>qe_Type = 7, qe_Len = 0, qe_Addr = 8192\<rparr>, \<lparr>qe_Type = 7, qe_Len = 0, qe_Addr = 7\<rparr>]
       (sm_q slice_machine) (sm_q m')"
proof -
  have "u64_at (node_bytes 4096) 0 = 8192" "u64_at (node_bytes 4096) 8 = 7" by code_simp+
  moreover have "length (node_bytes 4096) = 16" by (simp add: node_bytes_def)
  ultimately have "snd (code_sem slice_env slice_code 0 (node_bytes 4096)) =
      (node_bytes 4096, [\<lparr>qe_Type = 7, qe_Len = 0, qe_Addr = 8192\<rparr>, \<lparr>qe_Type = 7, qe_Len = 0, qe_Addr = 7\<rparr>])"
    by (simp add: slice_code_def then_sem_def slice_count del: loop_count.simps)
  with type_program_implements [OF slice_coded slice_runs_on] show ?thesis
    by (auto simp: program_effect_def slice_type_def zero_TypeInfo_def)
qed

subsection \<open>A loop that is too long\<close>

text \<open>
  C39. A long loop spoils the traversal. The interpreter stops after 100000 operations, and the traversal ignores that
  \<open>Run\<close> returns false. When the loop over the elements of an object (a slice of 25000 pointers) takes longer, the object is
  captured, but its counter stays on the stack while the buffer has room: the traversal goes on with a machine that is not
  idle, on which a later return goes to the counter as an address (\<open>Run_after_failure\<close>).
\<close>

theorem long_loop_spoils_traversal:
  assumes "idle en m" "small_types en" "entry_type en e0 = Some (ti, e)" "ti_EnqueuePc ti \<noteq> 0" "long_loop en a c ti e"
    and "room e (sm_b m)" "object_memory en e = Some bs" "\<not> full (sm_b m)"
  shows "\<exists>t. captureEntry en e0 m = Some (Inr t) \<and> \<not> full (sm_b t) \<and> sm_stack t \<noteq> [] \<and> \<not> idle en t"
proof -
  define m1 where "m1 = m\<lparr>sm_b := written e bs (sm_b m), sm_chasedEntry := e\<rparr>"
  have uw: "unwrapped e" by (rule entry_type_unwrapped [OF assms(2,3)])
  have ser: "ti_SerializeBeforeEnqueue ti" using assms(5) by (simp add: long_loop_def)
  have w: "writeQueueEntry (en_mem en) e (sm_b m) = Inr ((Len (sm_b m) + 16, True), written e bs (sm_b m))"
    using assms(7) by (intro writeQueueEntry_mapped [OF idle_wf(1) [OF assms(1)] uw assms(6)]) (simp add: object_memory_def)
  have "runs_on en ti e (Len (sm_b m) + 16) bs m1"
    unfolding m1_def by (rule written_runs_on [OF assms(1) uw assms(6) ser assms(7)])
  then obtain t where "Run en (ti_EnqueuePc ti) 0 0 (Len (sm_b m) + 16) m1 = Some (Inr (False, t))" "sm_stack t \<noteq> []"
    "full (sm_b t) = full (sm_b m1)" by (rule Run_long_loop [OF assms(5)])
  with w assms(3,4,8) ser show ?thesis
    by (auto simp: captureEntry_Some m_bufr_def m1_def full_def idle_def)
qed

text \<open>25000 nil pointers, with the loop over them at 1.\<close>

definition long_ops :: "AnyOp list" where
  "long_ops = [APushSliceLen \<lparr>pushLen_ElemByteLen = 8\<rparr>, AEnqueuePointer \<lparr>enqPtr_ElemType = 1\<rparr>,
     AAdvanceOffset \<lparr>adv_Increment = 8\<rparr>, ADecrement, ACondJump \<lparr>condJump_Pc = 6\<rparr>, APop, AReturn]"

definition long_body :: type_code where
  "long_body = TSeq (TOp (AEnqueuePointer \<lparr>enqPtr_ElemType = 1\<rparr>)) (TOp (AAdvanceOffset \<lparr>adv_Increment = 8\<rparr>))"

definition long_env :: run_env where
  "long_env = \<lparr>en_p = zero_SnapshotProgram\<lparr>sp_Prog := 0 # concat (map op_bytes long_ops),
       sp_TypeInfo := [1 \<mapsto> node_type\<lparr>ti_ByteLen := 200000\<rparr>], sp_RuntimeConfig := Some zero_RuntimeConfig\<rparr>,
     en_t = Map.empty, en_mem = (\<lambda>_. Some 0), en_md = 0\<rparr>"

definition long_machine :: machine where
  "long_machine = newStackMachine (en_p long_env) makeQueue
     \<lparr>ob_arr = replicate (2 ^ 20) 0, ob_len = 0, ob_isFull = False\<rparr> (makeGoRuntimeTypeResolver zero_RuntimeConfig 0)"

definition long_header :: QueueEntry where
  "long_header = \<lparr>qe_Type = 1, qe_Len = 200000, qe_Addr = 4096\<rparr>"

lemma long_fit: "o' + 8 * k \<le> n \<Longrightarrow> repeat_fit k (code_fit long_env n long_body) o' = Some (o' + 8 * k)"
  by (induction k arbitrary: o') (simp_all add: long_body_def)

lemma long_long: "long_loop long_env (APushSliceLen \<lparr>pushLen_ElemByteLen = 8\<rparr>) long_body (node_type\<lparr>ti_ByteLen := 200000\<rparr>) long_header"
proof -
  have "repeat_fit 25000 (code_fit long_env 200000 long_body) 0 = Some 200000" using long_fit [of 0 25000 200000] by simp
  then have "code_fit long_env 200000 (TTimes (APushSliceLen \<lparr>pushLen_ElemByteLen = 8\<rparr>) long_body) 0 \<noteq> None" by simp
  moreover have "code_end (sp_Prog (en_p long_env)) (TTimes (APushSliceLen \<lparr>pushLen_ElemByteLen = 8\<rparr>) long_body) 1 = Some 23"
    "length (sp_Prog (en_p long_env)) < 2 ^ 32"
    by (simp_all add: long_body_def long_env_def long_ops_def op_end_def op_bytes_def)
  moreover have "max_steps < code_steps 200000 (TTimes (APushSliceLen \<lparr>pushLen_ElemByteLen = 8\<rparr>) long_body)"
    by (simp add: long_body_def max_steps_def)
  ultimately show ?thesis by (simp add: long_loop_def long_header_def node_type_def)
qed

theorem long_loop_spoils_traversal_witness:
  "\<exists>t. captureEntry long_env (node_entry 4096) long_machine = Some (Inr t) \<and> \<not> full (sm_b t) \<and> sm_stack t \<noteq> []"
proof -
  have idle: "idle long_env long_machine"
    by (simp add: idle_def machine_wf_def long_machine_def long_env_def newStackMachine_def ob_wf_def ob_cap_def MakeOpDecoder_def
        resolver_current_def module_cfg_def makeGoRuntimeTypeResolver_def queue_wf_make)
  have small: "small_types long_env" by (auto simp: small_types_def long_env_def split: if_splits)
  have et: "entry_type long_env (node_entry 4096) = Some (node_type\<lparr>ti_ByteLen := 200000\<rparr>, long_header)"
    by (simp add: entry_type_def long_env_def node_entry_def long_header_def clampLen_def Let_def)
  have room: "room long_header (sm_b long_machine)" "\<not> full (sm_b long_machine)"
    by (simp_all add: room_def long_header_def long_machine_def newStackMachine_def ob_cap_def entry_len_def padded_def full_def)
  have "read_bytes (\<lambda>_. Some 0) a n = Some (replicate n 0)" for a n
    by (induction n arbitrary: a) simp_all
  then have mem: "object_memory long_env long_header = Some (replicate 200000 0)"
    by (simp add: object_memory_def long_env_def long_header_def Dereference_def)
  show ?thesis
    using long_loop_spoils_traversal [OF idle small et _ long_long room(1) mem room(2)] by (auto simp: node_type_def)
qed

end
