(* ===== verification/Snapshot_Objects.thy ===== *)
theory Snapshot_Objects
  imports Snapshot_Props Heap_Capture
begin

text \<open>
  The objects of a snapshot in its answer: the traversal of the queue (theory Heap_Capture) inside of
  \<open>Snapshot\<close>. What the goroutines and the static variables have put into the queue are its roots.
\<close>

subsection \<open>Before the traversal\<close>

text \<open>The snapshotter on which \<open>snapshotBody\<close> calls \<open>processQueue\<close>, when the iterator can be made.\<close>

definition before_traversal :: "process_env \<Rightarrow> SnapshotProgram \<Rightarrow> RuntimeConfig \<Rightarrow> (snapshotter res) option" where
  "before_traversal pe p cfg =
     (let mem = pe_mem pe; en = snapshot_env p mem (pe_md pe); s0 = bo_sn (start_state pe p cfg) in
      bindO (Some (load_u64 mem (pe_md pe + ucast (rc_ModuledataBssOffset cfg)))) (\<lambda>bssAddr.
      let shift = bssAddr - rc_GoRuntimeBssAddress cfg in
      bindO (Some (pushStatics (rc_StaticVariables cfg) shift ((sn_sm s0)\<lparr>sm_bssAddrShift := Some shift\<rparr>))) (\<lambda>m1.
      case NewGoroutineIterator cfg shift of
        Inl err \<Rightarrow> None
      | Inr it \<Rightarrow>
          bindO (Iterate mem it (visitGoroutine en (pe_arch pe) 0) (sn_set_sm m1 s0)) (\<lambda>s2.
          bindO (Some (sn_buf (ob_store64 off_sh_StacksDurationNs (rd_stacks (pe_readings pe))) s2)) (\<lambda>s3.
          Some (sn_buf (ob_store32 off_sh_GoroutinesByteLen (Len (sn_out s3) - of_nat sizeof_SnapshotHeader)) s3))))))"

lemma bindO_ok: "bindO (Some (Inr x)) f = f x"
  by simp

lemma bindO_Inr: "bindO m f = Some (Inr y) \<longleftrightarrow> (\<exists>x. m = Some (Inr x) \<and> f x = Some (Inr y))"
  by (auto simp: bindO_def split: option.splits sum.splits)

text \<open>The body is the traversal between the state above and two more fields of the header.\<close>

lemma snapshotBody_traversal:
  assumes "snapshotBody pe p cfg 0 (start_state pe p cfg) = Some (Inr st)" "bo_iteratorErr st = None"
  obtains s t s6 lastGc where "before_traversal pe p cfg = Some (Inr s)"
    "processQueue (snapshot_env p (pe_mem pe) (pe_md pe)) (sn_sm s) = Some (Inr t)"
    "sn_buf (ob_store64 48 lastGc) (sn_set_sm t s) = Inr s6"
    "sn_buf (ob_store64 16 (rd_pointer (pe_readings pe))) s6 = Inr (bo_sn st)"
proof -
  obtain bss where bss: "load_u64 (pe_mem pe) (pe_md pe + ucast (rc_ModuledataBssOffset cfg)) = Inr bss"
    using snapshotBody_bss [OF assms(1)] by blast
  define shift where "shift = bss - rc_GoRuntimeBssAddress cfg"
  show thesis
  proof (cases "NewGoroutineIterator cfg shift")
    case (Inl e)
    with assms bss show thesis
      by (auto simp: snapshotBody_def Let_def shift_def [symmetric] bindO_Inr)
  next
    case (Inr it)
    from assms(1) show thesis
      unfolding snapshotBody_def Let_def bss bindO_ok shift_def [symmetric]
      by (auto simp: Inr bindO_Inr before_traversal_def bss shift_def [symmetric] Let_def off_sh_defs
          start_state_def intro!: that)
  qed
qed

subsection \<open>The queue before the traversal\<close>

text \<open>Up to the traversal nothing is taken from the queue.\<close>

definition keeps_queue :: "machine \<Rightarrow> snapshotter \<Rightarrow> bool" where
  "keeps_queue a s \<longleftrightarrow> cap_rel a (sn_sm s)"

lemma keeps_queue_upd [simp]:
  "keeps_queue a (s\<lparr>sn_stacks := k\<rparr>) = keeps_queue a s"
  "keeps_queue a (s\<lparr>sn_unwinder := u\<rparr>) = keeps_queue a s"
  "keeps_queue a (sn_set_sm m s) = cap_rel a m"
  by (simp_all add: keeps_queue_def sn_set_sm_def)

lemma keeps_queue_out: "keeps_queue a s \<Longrightarrow> ob_rel (sm_b a) (sn_out s)"
  by (simp add: keeps_queue_def cap_rel_def sn_out_def)

lemma keeps_queue_set_out: "keeps_queue a s \<Longrightarrow> ob_rel (sm_b a) b \<Longrightarrow> keeps_queue a (sn_set_out b s)"
  by (simp add: keeps_queue_def cap_rel_def sn_set_out_def)

lemma sn_buf_keeps:
  assumes "keeps_queue a s" "\<And>b. ob_wf b \<Longrightarrow> okE (ob_rel b) (f b)"
  shows "okE (keeps_queue a) (sn_buf f s)"
  using assms(2) [OF ob_rel_wf [OF keeps_queue_out [OF assms(1)]]] keeps_queue_out [OF assms(1)]
  by (auto simp: sn_buf_def okE_iff res_simps intro!: keeps_queue_set_out [OF assms(1)] elim: ob_rel_trans)

lemmas header_keeps =
  sn_buf_keeps [OF _ ob_store_ok] sn_buf_keeps [OF _ ob_store32_ok] sn_buf_keeps [OF _ ob_store64_ok]
  sn_buf_keeps [OF _ truncate_ok]

lemma incr32_keeps: "keeps_queue a s \<Longrightarrow> okE (keeps_queue a) (incr32 p s)"
  unfolding incr32_def by (intro okE_bindI header_keeps)

lemma recordStack_keeps:
  assumes "keeps_queue a s"
  shows "okE (\<lambda>r. keeps_queue a (snd r)) (recordStack p h pcs s)"
proof -
  have "okE (\<lambda>(_, b). ob_rel (sm_b a) b) (writeStack pcs (sn_out s))"
    using writeStack_ok [OF ob_rel_wf [OF keeps_queue_out [OF assms]], of pcs] keeps_queue_out [OF assms]
    by (auto simp: okE_iff elim: ob_rel_trans)
  then show ?thesis
    using assms unfolding recordStack_def Let_def
    by (auto simp: okE_iff res_simps keeps_queue_set_out split: option.splits if_splits)
qed

lemma runFrames_keeps: "cap_rel a m \<Longrightarrow> okO (cap_rel a) (runFrames en fps fois m)"
proof (induction fois arbitrary: m)
  case (Cons foi fois)
  have "okO (cap_rel a) (bindO (Run en pc cfa d off m) (\<lambda>(ok, m1).
      if ok then runFrames en fps fois m1 else Some (Inr m1)))" for pc cfa d off
    using Cons.IH by (auto intro!: okO_bind [OF Run_cap [OF Cons.prems]])
  then show ?case by (auto simp: guardE_def)
qed simp

lemma writeGoroutineHeader_keeps:
  "keeps_queue a s \<Longrightarrow> keeps_queue a (sn_set_out (snd (writeGoroutineHeader (sn_out s))) s)"
  by (rule keeps_queue_set_out, assumption)
    (rule ob_rel_trans [OF keeps_queue_out writeGoroutineHeader_ok [OF ob_rel_wf [OF keeps_queue_out]]], assumption+)

lemma snapshotGoroutine_keeps:
  assumes "keeps_queue a s"
  shows "okO (keeps_queue a) (snapshotGoroutine en arch hdr g s)"
  unfolding snapshotGoroutine_def Let_def case_prod_beta
  by (intro okO_if okO_Some okO_lift [OF incr32_keeps] okO_read okO_option okO_lift [OF recordStack_keeps]
      okO_bind [OF runFrames_keeps] header_keeps incr32_keeps)
    (use assms in \<open>auto simp: keeps_queue_def [symmetric] intro: writeGoroutineHeader_keeps\<close>)

lemma visitGoroutine_keeps:
  assumes "keeps_queue a s"
  shows "okO (keeps_queue a) (visitGoroutine en arch hdr g s)"
  unfolding visitGoroutine_def Let_def
  by (rule okO_bind [OF snapshotGoroutine_keeps [OF assms]], intro okO_if okO_Some header_keeps) simp_all

text \<open>The static variables are pushed first, on an empty queue.\<close>

definition all_queued :: "queue \<Rightarrow> bool" where
  "all_queued q \<longleftrightarrow> queue_wf q \<and> qu_seen q = key_of ` set (queue_list q)"

lemma m_push_queued:
  assumes "all_queued (sm_q m)" "m_push a t n m = Inr m'"
  shows "all_queued (sm_q m')" "qu_seen (sm_q m) \<subseteq> qu_seen (sm_q m')"
    "a \<noteq> 0 \<Longrightarrow> \<lparr>k_addr = a, k_t = t\<rparr> \<in> qu_seen (sm_q m')" "sm_b m' = sm_b m"
proof -
  have wf: "queue_wf (sm_q m)" using assms(1) by (simp add: all_queued_def)
  obtain q' where q': "queue_Push a t n (sm_q m) = Inr (True, q')"
    "queue_grown [\<lparr>qe_Type = t, qe_Len = n, qe_Addr = a\<rparr>] (sm_q m) q'" by (rule queue_Push_grown [OF wf])
  have m': "m' = m\<lparr>sm_q := q'\<rparr>" using assms(2) q'(1) by (simp add: m_push_def)
  obtain new where new: "queue_list q' = queue_list (sm_q m) @ new"
      "key_of ` set new = key_of ` pushed [\<lparr>qe_Type = t, qe_Len = n, qe_Addr = a\<rparr>] - qu_seen (sm_q m)"
      "qu_seen q' = qu_seen (sm_q m) \<union> key_of ` pushed [\<lparr>qe_Type = t, qe_Len = n, qe_Addr = a\<rparr>]" "queue_wf q'"
    using q'(2) unfolding queue_grown_def by blast
  have seen: "qu_seen (sm_q m) = key_of ` set (queue_list (sm_q m))" using assms(1) by (simp add: all_queued_def)
  have "qu_seen q' = key_of ` set (queue_list q')"
    unfolding new(1) set_append image_Un new(2) new(3) seen [symmetric] by blast
  then show "all_queued (sm_q m')" by (simp add: all_queued_def new(4) m')
  show "qu_seen (sm_q m) \<subseteq> qu_seen (sm_q m')" "sm_b m' = sm_b m" by (simp_all add: m' new(3))
  show "a \<noteq> 0 \<Longrightarrow> \<lparr>k_addr = a, k_t = t\<rparr> \<in> qu_seen (sm_q m')" by (simp add: m' new(3) key_of_def)
qed

lemma pushStatics_queued:
  assumes "all_queued (sm_q m)" "pushStatics vs shift m = Inr m'"
  shows "all_queued (sm_q m') \<and> qu_seen (sm_q m) \<subseteq> qu_seen (sm_q m') \<and> sm_b m' = sm_b m \<and>
    (\<forall>v \<in> set vs. sv_Address v + shift \<noteq> 0 \<longrightarrow>
       \<lparr>k_addr = sv_Address v + shift, k_t = sv_Type v\<rparr> \<in> qu_seen (sm_q m'))"
  using assms
proof (induction vs arbitrary: m)
  case (Cons v vs)
  then obtain m1 where m1: "m_push (sv_Address v + shift) (sv_Type v) 0 m = Inr m1" "pushStatics vs shift m1 = Inr m'"
    by (auto simp: res_simps)
  note p = m_push_queued [OF Cons.prems(1) m1(1)]
  from Cons.IH [OF p(1) m1(2)] p(2-4) show ?case by auto
qed simp

lemma before_traversal_queue:
  assumes "before_traversal pe p cfg = Some (Inr s)"
    and "load_u64 (pe_mem pe) (pe_md pe + ucast (rc_ModuledataBssOffset cfg)) = Inr bss"
    and "v \<in> set (rc_StaticVariables cfg)" "sv_Address v + (bss - rc_GoRuntimeBssAddress cfg) \<noteq> 0"
  shows "\<lparr>k_addr = sv_Address v + (bss - rc_GoRuntimeBssAddress cfg), k_t = sv_Type v\<rparr> \<in>
    key_of ` set (queue_list (sm_q (sn_sm s)))"
proof -
  define shift where "shift = bss - rc_GoRuntimeBssAddress cfg"
  define s0 where "s0 = bo_sn (start_state pe p cfg)"
  define m0 where "m0 = (sn_sm s0)\<lparr>sm_bssAddrShift := Some shift\<rparr>"
  obtain m1 where m1: "pushStatics (rc_StaticVariables cfg) shift m0 = Inr m1"
    using assms(1,2) by (auto simp: before_traversal_def Let_def bindO_Inr shift_def m0_def s0_def)
  have q0: "all_queued (sm_q m0)" "ob_wf (sm_b m0)"
    using start_wf(1) [of pe p cfg]
    by (simp_all add: m0_def s0_def snap_rel_def mq_rel_def ob_rel_def)
      (simp add: start_state_def newStackMachine_def all_queued_def queue_wf_make qu_seen_make queue_list_make)
  note p1 = pushStatics_queued [OF q0(1) m1]
  have "machine_wf m1" using p1 q0(2) by (simp add: machine_wf_def all_queued_def)
  then have "okO (keeps_queue m1) (before_traversal pe p cfg)"
    unfolding before_traversal_def Let_def assms(2) bindO_ok shift_def [symmetric] s0_def [symmetric] m0_def [symmetric] m1
    by (auto split: sum.split intro!: okO_bind [OF Iterate_ok [where P = "keeps_queue m1"]] visitGoroutine_keeps
        okO_lift [OF header_keeps(3)] header_keeps cap_rel_refl)
  from okO_D [OF this assms(1)] obtain new where "queue_list (sm_q (sn_sm s)) = queue_list (sm_q m1) @ new"
    by (auto simp: keeps_queue_def cap_rel_def qu_rel_def)
  moreover have "\<lparr>k_addr = sv_Address v + shift, k_t = sv_Type v\<rparr> \<in> key_of ` set (queue_list (sm_q m1))"
    using p1 assms(3,4) by (auto simp: all_queued_def shift_def)
  ultimately show ?thesis unfolding shift_def by auto
qed

subsection \<open>The answer\<close>

lemma finishSnapshot_sub:
  assumes "finishSnapshot rd 0 st = Inr (Inr resp)" "ob_wf (sn_out (bo_sn st))"
  shows "length (sr_Data resp) = ob_len (sn_out (bo_sn st))"
    and "j + k \<le> ob_len (sn_out (bo_sn st)) \<Longrightarrow> 32 \<le> j \<or> 4 \<le> j \<and> j + k \<le> 24 \<Longrightarrow>
      sub (sr_Data resp) j k = sub (ob_arr (sn_out (bo_sn st))) j k"
proof -
  have stores: "ob_store32 p w = ob_store p (le_bytes 4 w)" "ob_store64 p w' = ob_store p (le_bytes 8 w')"
    for p w w' by (simp_all add: fun_eq_iff ob_store32_def ob_store64_def)
  obtain s1 s2 where s: "sn_buf (ob_store 0 (le_bytes 4 (Len (sn_out (bo_sn st))))) (bo_sn st) = Inr s1"
    "sn_buf (ob_store 24 (le_bytes 8 (rd_total rd))) s1 = Inr s2" "sr_Data resp = ob_data (sn_out s2)"
    using assms(1) that
    by (cases "BootTime (rd_boot rd)") (auto simp: finishSnapshot_def Let_def res_simps off_sh_defs stores split: if_splits)
  define xs n where "xs = ob_arr (sn_out (bo_sn st))" and "n = ob_len (sn_out (bo_sn st))"
  have b: "ob_arr (sn_out s2) = blit (blit xs 0 (le_bytes 4 (of_nat n :: u32))) 24 (le_bytes 8 (rd_total rd))"
      "ob_len (sn_out s2) = n" "32 \<le> length xs" "n \<le> length xs"
    using sn_buf_store [OF s(1)] sn_buf_store [OF s(2)] assms(2)
    by (simp_all add: xs_def n_def Len_def ob_cap_def ob_wf_def)
  show "length (sr_Data resp) = ob_len (sn_out (bo_sn st))" using b by (simp add: s(3) ob_data_def n_def)
  show "sub (sr_Data resp) j k = sub (ob_arr (sn_out (bo_sn st))) j k"
    if "j + k \<le> ob_len (sn_out (bo_sn st))" "32 \<le> j \<or> 4 \<le> j \<and> j + k \<le> 24"
  proof -
    have "sub (sr_Data resp) j k = sub (ob_arr (sn_out s2)) j k"
      using that(1) b(2) by (intro sub_take_eq [where n = n]) (simp_all add: s(3) ob_data_def n_def)
    also have "\<dots> = sub xs j k" unfolding b(1) using that b by (auto simp: sub_blit_other n_def)
    finally show ?thesis by (simp add: xs_def)
  qed
qed

text \<open>The bytes of the answer are those that the traversal leaves, except for five fields of the header.\<close>

lemma answer_sub:
  assumes "finishSnapshot rd 0 st = Inr (Inr resp)" "ob_wf (sm_b t)"
    and "sn_buf (ob_store64 48 u) (sn_set_sm t s) = Inr s6" "sn_buf (ob_store64 16 w) s6 = Inr (bo_sn st)"
  shows "length (sr_Data resp) = ob_len (sm_b t)"
    and "j + k \<le> ob_len (sm_b t) \<Longrightarrow> 56 \<le> j \<or> 4 \<le> j \<and> j + k \<le> 16 \<Longrightarrow> sub (sr_Data resp) j k = sub (ob_arr (sm_b t)) j k"
proof -
  define xs where "xs = ob_arr (sm_b t)"
  have out: "sn_out (sn_set_sm t s) = sm_b t" by (simp add: sn_out_def sn_set_sm_def)
  have stores: "ob_store64 p w' = ob_store p (le_bytes 8 w')" for p w' by (simp add: fun_eq_iff ob_store64_def)
  have b: "sn_out (bo_sn st) = (sm_b t)\<lparr>ob_arr := blit (blit xs 48 (le_bytes 8 u)) 16 (le_bytes 8 w)\<rparr>" "56 \<le> length xs"
    using sn_buf_store [OF assms(3) [unfolded stores]] sn_buf_store [OF assms(4) [unfolded stores]]
    by (simp_all add: out xs_def ob_cap_def)
  have wf: "ob_wf (sn_out (bo_sn st))" using assms(2) b by (simp add: ob_wf_def ob_cap_def xs_def)
  note f = finishSnapshot_sub [OF assms(1) wf]
  show "length (sr_Data resp) = ob_len (sm_b t)" using f(1) by (simp add: b(1))
  have len: "ob_len (sm_b t) \<le> length xs" using assms(2) by (simp add: ob_wf_def ob_cap_def xs_def)
  show "sub (sr_Data resp) j k = sub (ob_arr (sm_b t)) j k"
    if "j + k \<le> ob_len (sm_b t)" "56 \<le> j \<or> 4 \<le> j \<and> j + k \<le> 16"
  proof -
    have "sub (sr_Data resp) j k = sub (ob_arr (sn_out (bo_sn st))) j k"
      using that by (intro f(2)) (auto simp: b(1))
    also have "\<dots> = sub xs j k" using that b(2) len by (auto simp: b(1) sub_blit_other)
    finally show ?thesis by (simp add: xs_def)
  qed
qed

text \<open>An object in the data of the answer.\<close>

definition placed_at :: "run_env \<Rightarrow> type_sem \<Rightarrow> u8 list \<Rightarrow> QueueEntry \<Rightarrow> nat \<Rightarrow> bool" where
  "placed_at en sem d e p \<longleftrightarrow>
     (case object_entry en sem e of
        None \<Rightarrow> True
      | Some (h, bs) \<Rightarrow> QueueEntry_of (sub d p 16) = h \<and> sub d (p + 16) (length bs) = bs \<and> length bs = unat (qe_Len h))"

lemma in_order_from: "in_order en sem lo os hi \<Longrightarrow> (e, p) \<in> set os \<Longrightarrow> lo \<le> p"
  by (induction os arbitrary: lo) fastforce+

lemma placed_placed_at:
  assumes "small_types en" "placed en sem b e p" "p + extent en sem e \<le> hi"
    and "\<And>j k. p \<le> j \<Longrightarrow> j + k \<le> hi \<Longrightarrow> sub d j k = sub (ob_arr b) j k"
  shows "placed_at en sem d e p"
proof (cases "object_entry en sem e")
  case (Some x)
  obtain h bs where x: "x = (h, bs)" by fastforce
  have "16 + unat (qe_Len h) \<le> extent en sem e"
    using entry_len_bounds(1) [OF object_entry_unwrapped [OF assms(1) Some [unfolded x]]] Some x by (simp add: extent_def)
  with assms(2,3) Some x show ?thesis
    by (auto simp: placed_def placed_at_def entry_at_def assms(4))
qed (simp add: placed_at_def)

lemma before_traversal_header:
  assumes "before_traversal pe p cfg = Some (Inr s)"
  shows "sub (ob_arr (sn_out s)) 4 4 = le_bytes 4 (of_nat (ob_len (sn_out s)) - 56 :: u32)"
proof -
  have store: "ob_store32 q w = ob_store q (le_bytes 4 w)" for q w by (simp add: fun_eq_iff ob_store32_def)
  obtain bss where bss: "load_u64 (pe_mem pe) (pe_md pe + ucast (rc_ModuledataBssOffset cfg)) = Inr bss"
    using assms by (auto simp: before_traversal_def Let_def bindO_Inr)
  obtain s3 where "sn_buf (ob_store 4 (le_bytes 4 (Len (sn_out s3) - 56))) s3 = Inr s"
    using assms by (cases "NewGoroutineIterator cfg (bss - rc_GoRuntimeBssAddress cfg)")
      (auto simp: before_traversal_def Let_def bss bindO_Inr off_sh_defs store)
  from sn_buf_store [OF this] show ?thesis by (simp add: sub_blit_sameI Len_def ob_cap_def)
qed

lemma accepted_config: "accepted pe p cfg \<Longrightarrow> sp_RuntimeConfig p = Some cfg"
  by (simp add: accepted_def)

lemma before_traversal_cap:
  assumes "before_traversal pe p cfg = Some (Inr s)"
  shows "ob_cap (sn_out s) = 2 ^ 20"
proof -
  obtain bss where bss: "load_u64 (pe_mem pe) (pe_md pe + ucast (rc_ModuledataBssOffset cfg)) = Inr bss"
    using assms by (auto simp: before_traversal_def Let_def bindO_Inr)
  let ?a = "sn_sm (bo_sn (start_state pe p cfg))"
  have "okO (snap_rel ?a) (before_traversal pe p cfg)"
    using start_wf(1) [of pe p cfg] unfolding before_traversal_def Let_def bss bindO_ok
    by (auto split: sum.split simp: snap_rel_def [of _ "bo_sn _"] intro!: okO_lift [OF pushStatics_ok]
        okO_bind [OF Iterate_snap] okO_lift [OF sn_buf_ok [OF _ ob_store64_ok]] sn_buf_ok [OF _ ob_store32_ok])
  from okO_D [OF this assms] start_wf(2) [of pe p cfg] show ?thesis
    by (auto simp: snap_rel_def mq_rel_def ob_rel_def sn_out_def)
qed

text \<open>Once the traversal has returned there is an answer: the rest of the snapshot can fail only in two readings.\<close>

definition last_gc_address :: "RuntimeConfig \<Rightarrow> u64 \<Rightarrow> u64" where
  "last_gc_address cfg bss =
     bss + (rc_VariableRuntimeDotMemstats cfg - rc_GoRuntimeBssAddress cfg) + ucast (rc_MstatsLastGcUnixOffset cfg)"

lemma Snapshot_answers:
  assumes "accepted pe p cfg" "before_traversal pe p cfg = Some (Inr s)"
    and "processQueue (snapshot_env p (pe_mem pe) (pe_md pe)) (sn_sm s) = Some (Inr t)" "ob_cap (sm_b t) = 2 ^ 20"
    and "load_u64 (pe_mem pe) (pe_md pe + ucast (rc_ModuledataBssOffset cfg)) = Inr bss"
    and "load_u64 (pe_mem pe) (last_gc_address cfg bss) = Inr gc"
    and "BootTime (rd_boot (pe_readings pe)) \<in> {Inl ErrNotImplemented} \<union> range Inr"
  shows "\<exists>resp pr'. Snapshot pe p pr = Some (Inr (Inr resp), pr')"
proof -
  have cap: "ob_cap (sn_out (sn_set_sm t s)) = 2 ^ 20" using assms(4) by (simp add: sn_out_def sn_set_sm_def)
  obtain s6 where s6: "sn_buf (ob_store64 48 gc) (sn_set_sm t s) = Inr s6" "ob_cap (sn_out s6) = 2 ^ 20"
    using sn_buf_fits(1) [of 48 "sn_set_sm t s" gc] cap by auto
  obtain s7 where s7: "sn_buf (ob_store64 16 (rd_pointer (pe_readings pe))) s6 = Inr s7" "ob_cap (sn_out s7) = 2 ^ 20"
    using sn_buf_fits(1) [of 16 s6] s6 by auto
  define st where "st = (start_state pe p cfg)\<lparr>bo_sn := s7, bo_bssAddrShift := bss - rc_GoRuntimeBssAddress cfg\<rparr>"
  have "snapshotBody pe p cfg 0 (start_state pe p cfg) = Some (Inr st)"
    using assms(2) s6(1) s7(1) assms(6) [unfolded last_gc_address_def]
    by (cases "NewGoroutineIterator cfg (bss - rc_GoRuntimeBssAddress cfg)")
      (auto simp: before_traversal_def snapshotBody_def Let_def bindO_Inr off_sh_defs assms(3,5) st_def)
  moreover have "bo_iteratorErr st = None" by (simp add: st_def start_state_def)
  moreover
  obtain s8 where s8: "sn_buf (ob_store32 0 (Len (sn_out s7))) s7 = Inr s8" "ob_cap (sn_out s8) = 2 ^ 20"
    using sn_buf_fits(2) [of 0 s7] s7 by auto
  obtain s9 where s9: "sn_buf (ob_store64 24 (rd_total (pe_readings pe))) s8 = Inr s9" "ob_cap (sn_out s9) = 2 ^ 20"
    using sn_buf_fits(1) [of 24 s8] s8 by auto
  then have "\<exists>resp. finishSnapshot (pe_readings pe) 0 st = Inr (Inr resp)"
    using s8(1) assms(7)
    by (auto simp: finishSnapshot_def Let_def st_def off_sh_defs ob_load64_def ob_load_def)
  ultimately show ?thesis
    by (auto simp: Snapshot_accepted [OF assms(1)] StopTheWorld_def stopTheWorldWrapper_def Let_def split: prod.splits)
qed

lemma Snapshot_heap:
  assumes "Snapshot pe p pr = Some (Inr (Inr resp), pr')" "sp_RuntimeConfig p = Some cfg"
    and "before_traversal pe p cfg = Some (Inr s)" "56 \<le> ob_len (sn_out s)"
    and "heap_fits (snapshot_env p (pe_mem pe) (pe_md pe)) codes (sn_sm s)"
  shows "let en = snapshot_env p (pe_mem pe) (pe_md pe); sem = coded_sem en codes;
      lo = ob_len (sn_out s); d = sr_Data resp
    in \<exists>os. in_order en sem lo os (length d) \<and> (\<forall>(e, a) \<in> set os. placed_at en sem d e a) \<and>
      distinct (map (key_of \<circ> fst) os) \<and>
      (\<forall>v \<in> set (rc_StaticVariables cfg). sv_Address v + sr_BssAddrShift resp \<noteq> 0 \<longrightarrow>
        \<lparr>k_addr = sv_Address v + sr_BssAddrShift resp, k_t = sv_Type v\<rparr> \<in> key_of ` fst ` set os) \<and>
      queued (sn_sm s) \<subseteq> fst ` set os \<and> fst ` set os \<subseteq> heap_reach en sem (queued (sn_sm s)) \<and>
      (\<forall>e \<in> fst ` set os. key_of ` pushed (object_refs en sem e) \<subseteq> key_of ` fst ` set os \<union> qu_seen (sm_q (sn_sm s))) \<and>
      sub d 4 4 = le_bytes 4 (of_nat lo - 56 :: u32) \<and> sub d 56 (lo - 56) = sub (ob_arr (sn_out s)) 56 (lo - 56)"
proof -
  define en where "en = snapshot_env p (pe_mem pe) (pe_md pe)"
  define sem where "sem = coded_sem en codes"
  obtain cfg' st where st: "accepted pe p cfg'" "snapshotBody pe p cfg' 0 (start_state pe p cfg') = Some (Inr st)"
    "bo_iteratorErr st = None" "finishSnapshot (pe_readings pe) 0 st = Inr (Inr resp)"
    by (rule Snapshot_ok_cases [OF assms(1)])
  have cfg: "cfg' = cfg" using accepted_config [OF st(1)] assms(2) by simp
  obtain s' t s6 u where b: "before_traversal pe p cfg = Some (Inr s')" "processQueue en (sn_sm s') = Some (Inr t)"
      "sn_buf (ob_store64 48 u) (sn_set_sm t s') = Inr s6" "sn_buf (ob_store64 16 (rd_pointer (pe_readings pe))) s6 = Inr (bo_sn st)"
    unfolding en_def by (rule snapshotBody_traversal [OF st(2,3), unfolded cfg])
  have s': "s' = s" using b(1) assms(3) by simp
  note h = heap_fitsD [OF assms(5) [folded en_def]]
  obtain t' where "processQueue en (sn_sm s) = Some (Inr t')" "\<not> full (sm_b t')"
    by (rule processQueue_fits [OF assms(5) [folded en_def]])
  with b(2) s' have t: "processQueue en (sn_sm s) = Some (Inr t)" "\<not> full (sm_b t)" by simp_all
  obtain os where os: "object_graph en sem (sn_sm s) os t"
      "take (ob_len (sm_b (sn_sm s))) (ob_data (sm_b t)) = ob_data (sm_b (sn_sm s))"
    unfolding sem_def by (rule processQueue_graph [OF h(1,2) coded_types_programs [OF h(3)] t])
  note g = os(1) [unfolded object_graph_def]
  have wf: "ob_wf (sm_b t)" using processQueue_result [OF idle_wf(3) [OF h(1)] t(1)] by (auto simp: ob_rel_def)
  note d = answer_sub [OF st(4) wf b(3,4)]
  define lo where "lo = ob_len (sn_out s)"
  have lo: "lo = ob_len (sm_b (sn_sm s))" "56 \<le> lo" "lo \<le> ob_len (sm_b t)"
    using assms(4) g by (auto simp: lo_def sn_out_def dest: in_order_le)
  have prefix: "sub (ob_arr (sm_b t)) j k = sub (ob_arr (sn_out s)) j k" if "j + k \<le> lo" for j k
    using os(2) that lo(3) by (intro sub_take_eq [where n = lo]) (simp_all add: ob_data_def sn_out_def lo(1) min_def)
  have placed: "placed_at en sem (sr_Data resp) e a" if "(e, a) \<in> set os" for e a
  proof (rule placed_placed_at [OF h(2)])
    show "placed en sem (sm_b t) e a" using g that by fast
    show "a + extent en sem e \<le> ob_len (sm_b t)" using g that by (fast dest: in_order_member)
    have "lo \<le> a" using g that unfolding lo(1) by (fast dest: in_order_from)
    then show "sub (sr_Data resp) j k = sub (ob_arr (sm_b t)) j k" if "a \<le> j" "j + k \<le> ob_len (sm_b t)" for j k
      using d(2) [OF that(2)] that lo(2) by simp
  qed
  have header: "sub (sr_Data resp) 4 4 = le_bytes 4 (of_nat lo - 56 :: u32)"
    "sub (sr_Data resp) 56 (lo - 56) = sub (ob_arr (sn_out s)) 56 (lo - 56)"
    using d(2) [of 4 4] d(2) [of 56 "lo - 56"] prefix [of 4 4] prefix [of 56 "lo - 56"] lo before_traversal_header [OF assms(3)]
    by (simp_all add: lo_def)
  obtain bss where bss: "load_u64 (pe_mem pe) (pe_md pe + ucast (rc_ModuledataBssOffset cfg)) = Inr bss"
    using snapshotBody_bss [OF st(2)] unfolding cfg by blast
  have "snap_rel (sn_sm (bo_sn (start_state pe p cfg))) (bo_sn st)"
    by (rule okO_D [OF snapshotBody_ok [OF start_wf(1)] st(2) [unfolded cfg]])
  then have bwf: "ob_wf (sn_out (bo_sn st))" by (rule ob_rel_wf [OF snap_rel_out])
  have shift: "sr_BssAddrShift resp = bss - rc_GoRuntimeBssAddress cfg"
    using okO_D [OF snapshotBody_shift [OF bss] st(2) [unfolded cfg]] finishSnapshot_response(6) [OF st(4) bwf] by simp
  have statics: "\<lparr>k_addr = sv_Address v + sr_BssAddrShift resp, k_t = sv_Type v\<rparr> \<in> key_of ` fst ` set os"
    if "v \<in> set (rc_StaticVariables cfg)" "sv_Address v + sr_BssAddrShift resp \<noteq> 0" for v
    using before_traversal_queue [OF assms(3) bss that(1)] that(2) g unfolding shift by (blast dest: image_mono)
  show ?thesis
    unfolding Let_def en_def [symmetric] sem_def [symmetric] lo_def [symmetric] d(1)
    by (rule exI [of _ os]) (use g placed statics header lo(1) in auto)
qed

text \<open>
  A snapshot that can be taken: the platform and the configuration pass the checks, \<open>s\<close> is the state before
  the traversal, whose buffer has the header, and the three readings around it do not fail.
\<close>

definition snapshot_ready :: "process_env \<Rightarrow> SnapshotProgram \<Rightarrow> RuntimeConfig \<Rightarrow> snapshotter \<Rightarrow> bool" where
  "snapshot_ready pe p cfg s \<longleftrightarrow> accepted pe p cfg \<and> before_traversal pe p cfg = Some (Inr s) \<and> 56 \<le> ob_len (sn_out s) \<and>
     (case load_u64 (pe_mem pe) (pe_md pe + ucast (rc_ModuledataBssOffset cfg)) of
        Inl e \<Rightarrow> False
      | Inr bss \<Rightarrow> (case load_u64 (pe_mem pe) (last_gc_address cfg bss) of Inl e \<Rightarrow> False | Inr gc \<Rightarrow> True)) \<and>
     (case BootTime (rd_boot (pe_readings pe)) of Inl e \<Rightarrow> e = ErrNotImplemented | Inr t \<Rightarrow> True)"

lemma snapshot_readyD:
  assumes "snapshot_ready pe p cfg s"
  obtains bss gc where "accepted pe p cfg" "before_traversal pe p cfg = Some (Inr s)" "56 \<le> ob_len (sn_out s)"
    "load_u64 (pe_mem pe) (pe_md pe + ucast (rc_ModuledataBssOffset cfg)) = Inr bss"
    "load_u64 (pe_mem pe) (last_gc_address cfg bss) = Inr gc"
    "BootTime (rd_boot (pe_readings pe)) \<in> {Inl ErrNotImplemented} \<union> range Inr"
  using assms by (fastforce simp: snapshot_ready_def split: sum.splits)

text \<open>
  The objects in the answer of a snapshot, when the machine is idle at the beginning of the traversal and the heap fits;
  theory Typed_Snapshot has it from the program.
\<close>

lemma Snapshot_captures_heap:
  assumes "snapshot_ready pe p cfg s" "heap_fits (snapshot_env p (pe_mem pe) (pe_md pe)) codes (sn_sm s)"
  shows "\<exists>resp pr' os. Snapshot pe p pr = Some (Inr (Inr resp), pr') \<and>
    (let en = snapshot_env p (pe_mem pe) (pe_md pe); sem = coded_sem en codes;
         lo = ob_len (sn_out s); d = sr_Data resp
     in in_order en sem lo os (length d) \<and> (\<forall>(e, a) \<in> set os. placed_at en sem d e a) \<and>
        distinct (map (key_of \<circ> fst) os) \<and>
        (\<forall>v \<in> set (rc_StaticVariables cfg). sv_Address v + sr_BssAddrShift resp \<noteq> 0 \<longrightarrow>
          \<lparr>k_addr = sv_Address v + sr_BssAddrShift resp, k_t = sv_Type v\<rparr> \<in> key_of ` fst ` set os) \<and>
        queued (sn_sm s) \<subseteq> fst ` set os \<and> fst ` set os \<subseteq> heap_reach en sem (queued (sn_sm s)) \<and>
        (\<forall>e \<in> fst ` set os. key_of ` pushed (object_refs en sem e) \<subseteq> key_of ` fst ` set os \<union> qu_seen (sm_q (sn_sm s))) \<and>
        sub d 4 4 = le_bytes 4 (of_nat lo - 56 :: u32) \<and> sub d 56 (lo - 56) = sub (ob_arr (sn_out s)) 56 (lo - 56))"
proof -
  obtain bss gc where r: "accepted pe p cfg" "before_traversal pe p cfg = Some (Inr s)" "56 \<le> ob_len (sn_out s)"
    "load_u64 (pe_mem pe) (pe_md pe + ucast (rc_ModuledataBssOffset cfg)) = Inr bss"
    "load_u64 (pe_mem pe) (last_gc_address cfg bss) = Inr gc"
    "BootTime (rd_boot (pe_readings pe)) \<in> {Inl ErrNotImplemented} \<union> range Inr"
    by (rule snapshot_readyD [OF assms(1)])
  obtain t where t: "processQueue (snapshot_env p (pe_mem pe) (pe_md pe)) (sn_sm s) = Some (Inr t)"
    by (rule processQueue_fits [OF assms(2)])
  have "ob_cap (sm_b t) = 2 ^ 20"
    using processQueue_result [OF idle_wf(3) [OF heap_fitsD(1) [OF assms(2)]] t] before_traversal_cap [OF r(2)]
    by (auto simp: ob_rel_def sn_out_def)
  from Snapshot_answers [OF r(1,2) t this r(4-6)] obtain resp pr' where
    resp: "Snapshot pe p pr = Some (Inr (Inr resp), pr')" by blast
  from Snapshot_heap [OF this accepted_config [OF r(1)] r(2,3) assms(2)] show ?thesis
    unfolding Let_def by - (erule exE, intro exI, rule conjI [OF resp], assumption)
qed

text \<open>A process whose static variable at 4096 is a node of zeros, and whose only goroutine list is empty.\<close>

definition static_cfg :: RuntimeConfig where
  "static_cfg = quiet_cfg\<lparr>rc_StaticVariables := [\<lparr>sv_Type = 1, sv_Address = 4112\<rparr>]\<rparr>"

definition static_program :: SnapshotProgram where
  "static_program = list_program\<lparr>sp_RuntimeConfig := Some static_cfg\<rparr>"

definition static_env :: run_env where
  "static_env = snapshot_env static_program (\<lambda>_. Some 0) 0"

lemma static_before:
  obtains s where "before_traversal quiet_process static_program static_cfg = Some (Inr s)"
    "queue_list (sm_q (sn_sm s)) = [node_entry 4096]" "idle static_env (sn_sm s)" "ob_len (sn_out s) = 56"
    "ob_cap (sn_out s) = 2 ^ 20" "\<not> full (sn_out s)"
proof -
  define m0 where "m0 = (sn_sm (bo_sn (start_state quiet_process static_program static_cfg)))\<lparr>sm_bssAddrShift := Some (- 16)\<rparr>"
  have nz: "(4096 :: u64) \<noteq> 0" by simp
  have "\<lparr>k_addr = (4096 :: u64), k_t = 1\<rparr> \<notin> qu_seen makeQueue" by (simp add: qu_seen_make)
  from queue_Push_new [OF queue_wf_make nz this, of 0] obtain q where
    q: "queue_Push 4096 1 0 makeQueue = Inr (True, q)" "queue_wf q"
    "queue_list q = queue_list makeQueue @ [\<lparr>qe_Type = 1, qe_Len = 0, qe_Addr = 4096\<rparr>]" by blast
  have cfg: "rc_StaticVariables static_cfg = [\<lparr>sv_Type = 1, sv_Address = 4112\<rparr>]" "rc_GoRuntimeBssAddress static_cfg = 16"
    by (simp_all add: static_cfg_def quiet_cfg_def example_cfg_def)
  have push: "m_push 4096 1 0 m0 = Inr (m0\<lparr>sm_q := q\<rparr>)"
    using q(1) by (simp add: m_push_def m0_def start_state_def newStackMachine_def)
  have it: "NewGoroutineIterator static_cfg (- 16) = Inr \<lparr>it_allGs = 224, it_cfg = static_cfg\<rparr>"
    "Iterate (\<lambda>_. Some 0) \<lparr>it_allGs = 224, it_cfg = static_cfg\<rparr> f s = Some (Inr s)" for f and s :: snapshotter
    by (simp_all add: NewGoroutineIterator_def static_cfg_def quiet_cfg_def example_cfg_def zero_RuntimeConfig_def
        Iterate_def load_u64_zeros)
  define s1 where "s1 = sn_set_sm (m0\<lparr>sm_q := q\<rparr>) (bo_sn (start_state quiet_process static_program static_cfg))"
  have m0: "sm_b m0 = (makeOutBuf (push_bit 20 1))\<lparr>ob_len := 56\<rparr>" "sm_stack m0 = []"
    "dec_opBuf (sm_decoder m0) = sp_Prog static_program" "sm_g m0 = makeGoRuntimeTypeResolver static_cfg 0"
    by (simp_all add: m0_def start_state_def newStackMachine_def MakeOpDecoder_def quiet_process_def)
  have out: "sn_out s1 = (makeOutBuf (push_bit 20 1))\<lparr>ob_len := 56\<rparr>" "sn_sm s1 = m0\<lparr>sm_q := q\<rparr>"
    by (simp_all add: s1_def sn_out_def sn_set_sm_def m0)
  have cap: "length (ob_arr (makeOutBuf (push_bit 20 1))) = 2 ^ 20" "\<not> ob_isFull (makeOutBuf (push_bit 20 1))"
    by (simp_all add: makeOutBuf_def)
  define set where "set = (\<lambda>arr. sn_set_out ((sn_out s1)\<lparr>ob_arr := arr\<rparr>) s1)"
  have out_set: "sn_out (set arr) = (sn_out s1)\<lparr>ob_arr := arr\<rparr>" "sn_sm (set arr) = (sn_sm s1)\<lparr>sm_b := (sn_out s1)\<lparr>ob_arr := arr\<rparr>\<rparr>"
    "sn_set_out ((sn_out s1)\<lparr>ob_arr := arr'\<rparr>) (set arr) = set arr'" for arr arr'
    by (simp_all add: set_def sn_out_def sn_set_out_def)
  have s1: "s1 = set (ob_arr (sn_out s1))" by (simp add: set_def sn_set_out_def sn_out_def)
  have store: "\<exists>arr'. length arr' = 2 ^ 20 \<and> sn_buf (ob_store p bs) (set arr) = Inr (set arr')"
    if "length arr = 2 ^ 20" "p + length bs \<le> 2 ^ 20" for p bs arr
    using that by (simp add: sn_buf_store_fits out_set ob_cap_def) (rule exI [of _ "blit arr p bs"], simp)
  have stores: "ob_store32 p w = ob_store p (le_bytes 4 w)" "ob_store64 p w' = ob_store p (le_bytes 8 w')"
    for p w w' by (simp_all add: fun_eq_iff ob_store32_def ob_store64_def)
  have len: "length (ob_arr (sn_out s1)) = 2 ^ 20" by (simp add: out(1) makeOutBuf_def)
  obtain arr2 where s2: "length arr2 = 2 ^ 20" "sn_buf (ob_store 8 (le_bytes 8 (6 :: u64))) s1 = Inr (set arr2)"
    using store [OF len, of 8 "le_bytes 8 (6 :: u64)"] s1 [symmetric] by auto
  obtain arr where s3: "length arr = 2 ^ 20" "sn_buf (ob_store 4 (le_bytes 4 (Len (sn_out (set arr2)) - 56))) (set arr2) = Inr (set arr)"
    using store [OF s2(1), of 4 "le_bytes 4 (Len (sn_out (set arr2)) - 56)"] by auto
  have pe: "pe_mem quiet_process = (\<lambda>_. Some 0)" "rd_stacks (pe_readings quiet_process) = 6"
    by (simp_all add: quiet_process_def)
  have "before_traversal quiet_process static_program static_cfg = Some (Inr (set arr))"
    using s2(2) s3(2) push it
    by (simp add: before_traversal_def Let_def cfg m0_def [symmetric] s1_def [symmetric] stores off_sh_defs
        pe load_u64_zeros)
  then show thesis
  proof (rule that)
    show "queue_list (sm_q (sn_sm (set arr))) = [node_entry 4096]" by (simp add: out_set out q(3) queue_list_make node_entry_def)
    show "ob_len (sn_out (set arr)) = 56" "ob_cap (sn_out (set arr)) = 2 ^ 20" "\<not> full (sn_out (set arr))"
      using s3(1) cap(2) by (simp_all add: out_set out ob_cap_def full_def)
    show "idle static_env (sn_sm (set arr))"
      using s3(1) q(2) m0
      by (simp add: out_set out idle_def machine_wf_def ob_wf_def ob_cap_def static_env_def snapshot_env_def
          resolver_current_def module_cfg_def static_program_def makeGoRuntimeTypeResolver_def)
  qed
qed

lemma static_entry_type: "entry_type static_env (node_entry a) = Some (node_type, \<lparr>qe_Type = 1, qe_Len = 16, qe_Addr = a\<rparr>)"
  by (simp add: entry_type_def static_env_def snapshot_env_def static_program_def list_program_def node_entry_def
      node_type_def clampLen_def Let_def)

lemma static_object:
  defines "sem \<equiv> coded_sem static_env (\<lambda>_. node_code)"
  shows "object_entry static_env sem (node_entry 4096) = Some (\<lparr>qe_Type = 1, qe_Len = 16, qe_Addr = 4096\<rparr>, replicate 16 0)"
    and "object_refs static_env sem (node_entry 4096) = [node_entry 0]"
proof -
  have "Dereference (\<lambda>_. Some 0) 4096 16 = Some (replicate 16 0)" "u64_at (replicate 16 0) 0 = 0" by code_simp+
  then have "object_memory static_env \<lparr>qe_Type = 1, qe_Len = 16, qe_Addr = 4096\<rparr> = Some (replicate 16 0)"
    "sem e (replicate 16 0) = (replicate 16 0, [node_entry 0])" for e
    by (simp_all add: object_memory_def static_env_def snapshot_env_def sem_def coded_sem_def node_code_def node_entry_def)
  then show "object_entry static_env sem (node_entry 4096) = Some (\<lparr>qe_Type = 1, qe_Len = 16, qe_Addr = 4096\<rparr>, replicate 16 0)"
    "object_refs static_env sem (node_entry 4096) = [node_entry 0]"
    by (simp_all add: object_entry_def object_refs_def static_entry_type) (simp_all add: node_type_def zero_TypeInfo_def)
qed

lemma static_reach: "heap_reach static_env (coded_sem static_env (\<lambda>_. node_code)) {node_entry 4096} = {node_entry 4096}"
proof
  have "closed_refs static_env (coded_sem static_env (\<lambda>_. node_code)) {node_entry 4096}"
    by (simp add: closed_refs_def static_object(2)) (simp add: node_entry_def)
  then show "heap_reach static_env (coded_sem static_env (\<lambda>_. node_code)) {node_entry 4096} \<subseteq> {node_entry 4096}"
    by (rule heap_reach_least) simp
qed (simp add: heap_root)

lemma static_coded: "coded_type static_env node_code node_type \<lparr>qe_Type = 1, qe_Len = 16, qe_Addr = a\<rparr>"
proof -
  have "sp_Prog (en_p static_env) = sp_Prog (en_p list_env)"
    by (simp add: static_env_def snapshot_env_def static_program_def list_env_def)
  then show ?thesis
    using node_coded [of a] unfolding coded_type_def by (simp add: node_code_def split: option.splits)
qed

lemma static_fits:
  assumes "queue_list (sm_q (sn_sm s)) = [node_entry 4096]" "idle static_env (sn_sm s)" "ob_len (sn_out s) = 56"
    "ob_cap (sn_out s) = 2 ^ 20" "\<not> full (sn_out s)"
  shows "heap_fits static_env (\<lambda>_. node_code) (sn_sm s)"
proof -
  have "entry_len \<lparr>qe_Type = 1, qe_Len = 16, qe_Addr = 4096\<rparr> = 32" by (simp add: entry_len_def padded_def)
  then have "heap_size static_env (coded_sem static_env (\<lambda>_. node_code)) {node_entry 4096} = 32"
    by (simp add: heap_size_def extent_def static_object)
  moreover have "coded_types static_env (\<lambda>_. node_code) {node_entry 4096}"
    using static_coded by (auto simp: coded_types_def static_entry_type)
  moreover have "small_types static_env"
    by (auto simp: small_types_def static_env_def snapshot_env_def static_program_def list_program_def node_type_def split: if_splits)
  ultimately show ?thesis
    using assms static_reach by (simp add: heap_fits_def Let_def sn_out_def)
qed

lemma static_ready:
  obtains s where "snapshot_ready quiet_process static_program static_cfg s" "queue_list (sm_q (sn_sm s)) = [node_entry 4096]"
    "ob_len (sn_out s) = 56" "heap_fits static_env (\<lambda>_. node_code) (sn_sm s)"
proof -
  obtain s where s: "before_traversal quiet_process static_program static_cfg = Some (Inr s)"
    "queue_list (sm_q (sn_sm s)) = [node_entry 4096]" "idle static_env (sn_sm s)" "ob_len (sn_out s) = 56"
    "ob_cap (sn_out s) = 2 ^ 20" "\<not> full (sn_out s)" by (rule static_before)
  have "accepted quiet_process static_program static_cfg"
    using quiet_accepted by (simp add: accepted_def static_program_def static_cfg_def)
  then have "snapshot_ready quiet_process static_program static_cfg s"
    using s(1,4) by (simp add: snapshot_ready_def quiet_process_def load_u64_zeros bootTime_other_def)
  with static_fits [OF s(2-6)] s(2,4) that show thesis by blast
qed

end
