(* ===== verification/Typed_Snapshot.thy ===== *)
theory Typed_Snapshot
  imports Snapshot_Objects Byte_Code_Typing
begin

text \<open>
  A snapshot with a typed program. A run that fails leaves its words on the stack of the interpreter, where the next
  run takes them for its own (\<open>Run_after_failure\<close>). When the programs of the frames and of the types are typed, have no
  loops that the interpreter would cut off and stop only for want of room, that does not matter: a failed run has
  filled the buffer, and then nothing runs any more. So every run starts on an empty stack, and the machine
  is idle when the traversal of the queue begins and when it ends.
\<close>

subsection \<open>Typed programs\<close>

fun stops_full :: "AnyOp \<Rightarrow> bool" where
  "stops_full AInvalid = False"
| "stops_full AIllegal = False"
| "stops_full (AEnqueuePointer r) = (enqPtr_ElemType r \<noteq> 0)"
| "stops_full _ = True"

lemma may_stop_full: "may_stop a m \<Longrightarrow> stops_full a \<Longrightarrow> full (sm_b m)"
  by (cases a) (simp_all add: full_def)

definition entry_pc :: "(u32 \<times> nat) list \<Rightarrow> (u32 \<times> nat) list \<Rightarrow> u32 \<Rightarrow> bool" where
  "entry_pc tys cs pc \<longleftrightarrow> map_of tys pc = Some 0 \<and> cost_of cs pc \<le> max_steps"

text \<open>A program whose frames have typed code, and one whose types have it, too; 0 stands for no code.\<close>

definition typed_frames :: "SnapshotProgram \<Rightarrow> (u32 \<times> nat) list \<Rightarrow> (u32 \<times> nat) list \<Rightarrow> bool" where
  "typed_frames p tys cs \<longleftrightarrow>
     well_typed (sp_Prog p) tys \<and> bounded_code (sp_Prog p) tys cs \<and> list_all stops_full (typed_ops (sp_Prog p) tys) \<and>
     (case sp_PcClassifier p of
        None \<Rightarrow> True
      | Some pcc \<Rightarrow> list_all (\<lambda>pc. pc \<noteq> 0 \<longrightarrow> entry_pc tys cs pc) (pcc_ProgPc pcc))"

definition typed_snapshot :: "SnapshotProgram \<Rightarrow> (u32 \<times> nat) list \<Rightarrow> (u32 \<times> nat) list \<Rightarrow> bool" where
  "typed_snapshot p tys cs \<longleftrightarrow> typed_frames p tys cs \<and>
     (\<forall>t ti. sp_TypeInfo p t = Some ti \<and> ti_EnqueuePc ti \<noteq> 0 \<longrightarrow> entry_pc tys cs (ti_EnqueuePc ti))"

text \<open>
  The machine between two runs, since the resolver was \<open>g\<close>: with \<open>strict\<close> its stack is empty, otherwise that holds
  unless the buffer is full.
\<close>

definition resting :: "run_env \<Rightarrow> goRuntimeTypeResolver \<Rightarrow> bool \<Rightarrow> machine \<Rightarrow> bool" where
  "resting en g strict m \<longleftrightarrow>
     stopped en g (sp_Prog (en_p en)) m \<and> (sm_stack m = [] \<or> \<not> strict \<and> full (sm_b m))"

lemma resting_weak: "resting en g strict m \<Longrightarrow> resting en g False m"
  by (auto simp: resting_def)

lemma resting_upd [simp]:
  "resting en g strict (m\<lparr>sm_chasedEntry := e\<rparr>) = resting en g strict m"
  "resting en g strict (m\<lparr>sm_bssAddrShift := x\<rparr>) = resting en g strict m"
  by (simp_all add: resting_def stopped_def machine_wf_def)

lemma resting_b: "resting en g strict m \<Longrightarrow> ob_rel (sm_b m) b \<Longrightarrow> resting en g strict (m\<lparr>sm_b := b\<rparr>)"
  by (auto simp: resting_def stopped_def machine_wf_def full_def ob_rel_def)

lemma resting_q: "resting en g strict m \<Longrightarrow> queue_wf q \<Longrightarrow> resting en g strict (m\<lparr>sm_q := q\<rparr>)"
  by (auto simp: resting_def stopped_def machine_wf_def full_def)

lemma resting_wf: "resting en g strict m \<Longrightarrow> machine_wf m" "resting en g strict m \<Longrightarrow> ob_wf (sm_b m)"
    "resting en g strict m \<Longrightarrow> queue_wf (sm_q m)"
  by (simp_all add: resting_def stopped_def machine_wf_def)

text \<open>What a typed program may fail with in a run.\<close>

definition prog_faults :: "SnapshotProgram \<Rightarrow> (u32 \<times> nat) list \<Rightarrow> fault set" where
  "prog_faults p tys = (\<Union>a \<in> set (typed_ops (sp_Prog p) tys). op_faults a)"

lemma Run_resting:
  assumes "typed_frames (en_p en) tys cs" "entry_pc tys cs pc" "resting en g True m"
  shows "outO (prog_faults (en_p en) tys) (\<lambda>(ok, m'). resting en g ok m') (Run en pc cfa depth offset m)"
proof -
  let ?p = "sp_Prog (en_p en)"
  have t: "well_typed ?p tys" "bounded_code ?p tys cs" "\<forall>a \<in> set (typed_ops ?p tys). stops_full a"
    using assms(1) by (simp_all add: typed_frames_def list_all_iff)
  have m: "machine_wf m" "dec_opBuf (sm_decoder m) = ?p" "sm_stack m = []" "resolver_kept en g (sm_g m)"
    using assms(3) by (simp_all add: resting_def stopped_def)
  have e: "map_of tys pc = Some 0" "cost_of cs pc \<le> max_steps" using assms(2) by (simp_all add: entry_pc_def)
  from Run_typed [OF t(1) m(1-3) e(1), of en cs cfa depth offset] t(2) e(2)
  have "run_outcome en (sm_g m) ?p tys False (Run en pc cfa depth offset m)" by simp
  then show ?thesis
    using t(3) resolver_kept_trans [OF m(4)]
    by (auto simp: run_outcome_def outO_def outE_def prog_faults_def resting_def stopped_def
        intro: may_stop_full split: option.splits sum.splits if_splits)
qed

subsection \<open>The frames\<close>

lemma outO_okO: "outO F P r \<Longrightarrow> okO P r"
  by (auto simp: outO_def okO_def outE_def okE_def split: sum.splits)

lemma runFrames_resting:
  assumes "typed_frames (en_p en) tys cs"
  shows "resting en g True m \<Longrightarrow> \<forall>foi \<in> set fois. entry_pc tys cs (foi_pc foi) \<Longrightarrow>
    okO (resting en g False) (runFrames en fps fois m)"
proof (induction fois arbitrary: m)
  case (Cons foi fois)
  have "entry_pc tys cs (foi_pc foi)" using Cons.prems(2) by simp
  from outO_okO [OF Run_resting [OF assms this Cons.prems(1)]]
  have "okO (resting en g False) (bindO (Run en (foi_pc foi) cfa d off m) (\<lambda>(ok, m1).
      if ok then runFrames en fps fois m1 else Some (Inr m1)))" for cfa d off
    using Cons.IH Cons.prems(2) by (auto intro!: okO_bind)
  then show ?case by (auto simp: guardE_def)
qed (auto dest: resting_weak)

text \<open>The snapshotter between two runs: the stacks that it remembers have typed programs.\<close>

definition resting_sn ::
  "run_env \<Rightarrow> goRuntimeTypeResolver \<Rightarrow> (u32 \<times> nat) list \<Rightarrow> (u32 \<times> nat) list \<Rightarrow> bool \<Rightarrow> snapshotter \<Rightarrow> bool" where
  "resting_sn en g tys cs strict s \<longleftrightarrow> resting en g strict (sn_sm s) \<and>
     (\<forall>h fois. sn_stacks s h = Some fois \<longrightarrow> (\<forall>foi \<in> set fois. entry_pc tys cs (foi_pc foi)))"

lemma resting_sn_upd [simp]:
  "resting_sn en g tys cs strict (s\<lparr>sn_unwinder := u\<rparr>) = resting_sn en g tys cs strict s"
  by (simp add: resting_sn_def)

lemma resting_sn_set_out:
  "resting_sn en g tys cs strict s \<Longrightarrow> ob_rel (sn_out s) b \<Longrightarrow> resting_sn en g tys cs strict (sn_set_out b s)"
  by (auto simp: resting_sn_def sn_set_out_def sn_out_def intro: resting_b)

lemma resting_sn_wf: "resting_sn en g tys cs strict s \<Longrightarrow> ob_wf (sn_out s)"
  by (auto simp: resting_sn_def sn_out_def dest: resting_wf)

lemma sn_buf_resting:
  assumes "resting_sn en g tys cs strict s" "\<And>b. ob_wf b \<Longrightarrow> okE (ob_rel b) (f b)"
  shows "okE (resting_sn en g tys cs strict) (sn_buf f s)"
  using assms(2) [OF resting_sn_wf [OF assms(1)]]
  by (auto simp: sn_buf_def okE_iff res_simps intro!: resting_sn_set_out [OF assms(1)])

lemmas header_resting =
  sn_buf_resting [OF _ ob_store_ok] sn_buf_resting [OF _ ob_store32_ok] sn_buf_resting [OF _ ob_store64_ok]
  sn_buf_resting [OF _ truncate_ok]

lemma incr32_resting: "resting_sn en g tys cs strict s \<Longrightarrow> okE (resting_sn en g tys cs strict) (incr32 p s)"
  unfolding incr32_def by (intro okE_bindI header_resting)

lemma classifyFrames_entries:
  "okE (\<lambda>fois. \<forall>foi \<in> set fois. foi_pc foi \<in> set (pcc_ProgPc pcc) \<and> foi_pc foi \<noteq> 0) (classifyFrames pcc i pcs)"
  by (induction pcc i pcs rule: classifyFrames.induct)
    (auto simp: Let_def intro!: okE_bind [of "\<lambda>fois. \<forall>foi \<in> set fois. foi_pc foi \<in> set (pcc_ProgPc pcc) \<and> foi_pc foi \<noteq> 0" for pcc]
      okE_bindI [of "guardE e c" for e c])

lemma okE_if: "(c \<Longrightarrow> okE P x) \<Longrightarrow> (\<not> c \<Longrightarrow> okE P y) \<Longrightarrow> okE P (if c then x else y)"
  by simp

lemma recordStack_resting:
  assumes "typed_frames p tys cs" "resting_sn en g tys cs strict s"
  shows "okE (\<lambda>(rec, s'). resting_sn en g tys cs strict s' \<and>
    (\<forall>n fois. rec = Some (n, fois) \<longrightarrow> (\<forall>foi \<in> set fois. entry_pc tys cs (foi_pc foi)))) (recordStack p h pcs s)"
proof (cases "sn_stacks s h")
  case (Some fois)
  with assms(2) show ?thesis by (simp add: recordStack_def resting_sn_def)
next
  case None
  have classified: "okE (\<lambda>fois. \<forall>foi \<in> set fois. entry_pc tys cs (foi_pc foi))
      (if pcs = [] then Inr [] else bindE (ofOption NilDeref (sp_PcClassifier p)) (\<lambda>pcc. classifyFrames pcc 0 pcs))"
    using assms(1)
    by (cases "sp_PcClassifier p") (auto simp: typed_frames_def list_all_iff intro: okE_mono [OF classifyFrames_entries])
  have upd: "resting_sn en g tys cs strict (s'\<lparr>sn_stacks := (sn_stacks s')(h \<mapsto> fois)\<rparr>)"
    if "resting_sn en g tys cs strict s'" "\<forall>foi \<in> set fois. entry_pc tys cs (foi_pc foi)" for s' fois
    using that by (auto simp: resting_sn_def)
  show ?thesis
    unfolding recordStack_def Let_def None option.case
    by (rule okE_bind [OF writeStack_ok [OF resting_sn_wf [OF assms(2)]]], clarify, intro okE_if okE_bind [OF classified])
      (use upd resting_sn_set_out [OF assms(2)] in simp_all)
qed

lemma writeGoroutineHeader_resting:
  "resting_sn en g tys cs strict s \<Longrightarrow> resting_sn en g tys cs strict (sn_set_out (snd (writeGoroutineHeader (sn_out s))) s)"
  by (rule resting_sn_set_out) (auto intro: writeGoroutineHeader_ok resting_sn_wf)

lemma runFrames_resting_sn:
  assumes "typed_frames (en_p en) tys cs" "resting_sn en g tys cs True s" "\<forall>foi \<in> set fois. entry_pc tys cs (foi_pc foi)"
  shows "okO (\<lambda>m. resting_sn en g tys cs False (sn_set_sm m s)) (runFrames en fps fois (sn_sm s))"
proof -
  have "resting en g True (sn_sm s)" using assms(2) by (simp add: resting_sn_def)
  from runFrames_resting [OF assms(1) this assms(3), of fps] show ?thesis
    using assms(2) by (auto simp: okO_def okE_iff resting_sn_def sn_set_sm_def)
qed

lemma resting_sn_weak: "resting_sn en g tys cs strict s \<Longrightarrow> resting_sn en g tys cs False s"
  by (auto simp: resting_sn_def dest: resting_weak)

lemma snapshotGoroutine_resting:
  assumes "typed_frames (en_p en) tys cs" "resting_sn en g tys cs False s"
  shows "okO (resting_sn en g tys cs False) (snapshotGoroutine en arch hdr gr s)"
proof (cases "full (sn_out s)")
  case True
  with assms(2) show ?thesis by (simp add: snapshotGoroutine_def)
next
  case False
  then have s: "resting_sn en g tys cs True s" using assms(2) by (auto simp: resting_sn_def resting_def sn_out_def)
  show ?thesis
    unfolding snapshotGoroutine_def Let_def case_prod_beta
    by (intro okO_if okO_Some okO_lift [OF incr32_resting] okO_read okO_option
        okO_lift [OF recordStack_resting [OF assms(1), where strict = True]]
        okO_bind [OF runFrames_resting_sn [OF assms(1)]] header_resting incr32_resting)
      (use s in \<open>auto simp: case_prod_beta intro: resting_sn_weak writeGoroutineHeader_resting [of _ _ _ _ _ "x\<lparr>sn_unwinder := u\<rparr>" for x u, simplified]\<close>)
qed

lemma visitGoroutine_resting:
  assumes "typed_frames (en_p en) tys cs" "resting_sn en g tys cs False s"
  shows "okO (resting_sn en g tys cs False) (visitGoroutine en arch hdr gr s)"
  unfolding visitGoroutine_def Let_def
  by (rule okO_bind [OF snapshotGoroutine_resting [OF assms]], intro okO_if okO_Some header_resting) simp_all

lemma pushStatics_resting: "resting en g strict m \<Longrightarrow> okE (resting en g strict) (pushStatics vs shift m)"
proof (induction vs arbitrary: m)
  case (Cons v vs)
  have "okE (\<lambda>(_, q). queue_wf q) (queue_Push a t n (sm_q m))" for a t n
    using queue_Push_rel [OF resting_wf(3) [OF Cons.prems], of a t n] by (auto simp: okE_iff dest: qu_rel_wf split: prod.splits)
  then have "okE (resting en g strict) (m_push a t n m)" for a t n
    by (auto simp: m_push_def okE_iff res_simps intro: resting_q [OF Cons.prems])
  from okE_bind [OF this Cons.IH] show ?case by simp
qed simp

lemma before_traversal_resting:
  assumes "typed_frames p tys cs" "before_traversal pe p cfg = Some (Inr s)"
  shows "resting (snapshot_env p (pe_mem pe) (pe_md pe)) (makeGoRuntimeTypeResolver cfg (pe_md pe)) False (sn_sm s)"
proof -
  define en where "en = snapshot_env p (pe_mem pe) (pe_md pe)"
  define g where "g = makeGoRuntimeTypeResolver cfg (pe_md pe)"
  have en: "en_p en = p" by (simp add: en_def snapshot_env_def)
  have ts: "typed_frames (en_p en) tys cs" using assms(1) by (simp add: en)
  obtain bss where bss: "load_u64 (pe_mem pe) (pe_md pe + ucast (rc_ModuledataBssOffset cfg)) = Inr bss"
    using assms(2) by (auto simp: before_traversal_def Let_def bindO_Inr)
  define s0 where "s0 = bo_sn (start_state pe p cfg)"
  have start: "resting en g False ((sn_sm s0)\<lparr>sm_bssAddrShift := x\<rparr>)" "sn_stacks s0 = Map.empty" for x
    by (simp_all add: s0_def start_state_def newStackMachine_def resting_def stopped_def machine_wf_def ob_wf_def ob_cap_def
        makeOutBuf_def queue_wf_make MakeOpDecoder_def en g_def)
  have sn0: "resting_sn en g tys cs False (sn_set_sm m s0)" if "resting en g False m" for m
    using that by (simp add: resting_sn_def sn_set_sm_def start(2))
  have "okO (resting_sn en g tys cs False) (before_traversal pe p cfg)"
    unfolding before_traversal_def Let_def bss bindO_ok s0_def [symmetric] en_def [symmetric]
    by (auto split: sum.split intro!: sn0 okO_lift [OF pushStatics_resting [OF start(1)]]
          okO_bind [OF Iterate_ok [where P = "resting_sn en g tys cs False", OF visitGoroutine_resting [OF ts]]]
          okO_lift [OF header_resting(3)] header_resting)
  from okO_D [OF this assms(2)] show ?thesis by (simp add: resting_sn_def en_def g_def)
qed

subsection \<open>The traversal\<close>

lemma outO_if: "(c \<Longrightarrow> outO F P x) \<Longrightarrow> (\<not> c \<Longrightarrow> outO F P y) \<Longrightarrow> outO F P (if c then x else y)"
  by simp

lemma outO_liftE: "outE F P m \<Longrightarrow> (\<And>x. P x \<Longrightarrow> outO F Q (f x)) \<Longrightarrow> outO F Q (bindO (Some m) f)"
  by (cases m) simp_all

lemma captureEntry_resting:
  assumes "typed_snapshot (en_p en) tys cs" "resting en g True m"
  shows "outO (prog_faults (en_p en) tys \<union> {WildAccess, SliceOutOfRange}) (resting en g False) (captureEntry en e m)"
    (is "outO ?F _ _")
proof (cases "sp_TypeInfo (en_p en) (qe_Type e)")
  case None
  with assms(2) show ?thesis by (auto simp: captureEntry_def dest: resting_weak)
next
  case (Some ti)
  have w: "outE ?F (\<lambda>(_, b'). ob_rel (sm_b m) b') (writeQueueEntry mem e' (sm_b m))" for mem e'
    by (rule writeQueueEntry_out [OF resting_wf(2) [OF assms(2)]]) simp
  have wr: "outE ?F (\<lambda>(_, m'). resting en g True m') (if c then m_bufr (writeQueueEntry mem e') m else Inr (r, m))" for c mem e' r
    using w [of mem e'] assms(2) by (auto simp: m_bufr_def outE_def bindE_def intro: resting_b split: sum.splits prod.splits)
  have run: "outO ?F (resting en g False) (bindO (Run en (ti_EnqueuePc ti) 0 0 off m1) (\<lambda>(_, m2). Some (Inr m2)))"
    if "resting en g True m1" "ti_EnqueuePc ti \<noteq> 0" for off m1
  proof (rule outO_bind)
    have "typed_frames (en_p en) tys cs" "entry_pc tys cs (ti_EnqueuePc ti)"
      using assms(1) Some that(2) by (simp_all add: typed_snapshot_def)
    from Run_resting [OF this that(1), of 0 0 off]
    show "outO ?F (\<lambda>(ok, m'). resting en g ok m') (Run en (ti_EnqueuePc ti) 0 0 off m1)"
      by (auto simp: outO_def outE_def split: sum.splits)
  qed (auto dest: resting_weak)
  show ?thesis
    unfolding captureEntry_def Let_def Some option.case
    by (intro outO_if outO_liftE [OF wr]) (use run resting_weak [OF assms(2)] in \<open>auto dest: resting_weak\<close>)
qed

lemma processStep_resting:
  assumes "typed_snapshot (en_p en) tys cs" "resting en g False m"
  shows "outO (prog_faults (en_p en) tys \<union> {WildAccess, SliceOutOfRange}) (\<lambda>(_, t). resting en g False t) (processStep en m)"
proof (cases "full (sm_b m)")
  case True
  with assms(2) show ?thesis by (simp add: processStep_def)
next
  case False
  then have m: "resting en g True m" using assms(2) by (auto simp: resting_def)
  have wf: "queue_wf (sm_q m)" by (rule resting_wf(3) [OF m])
  then show ?thesis
  proof (cases rule: queue_Pop_total)
    case empty
    with False assms(2) show ?thesis by (simp add: processStep_def)
  next
    case (front e q')
    have "outO (prog_faults (en_p en) tys \<union> {WildAccess, SliceOutOfRange}) (\<lambda>(_, t). resting en g False t)
        (bindO (captureEntry en e (m\<lparr>sm_q := q'\<rparr>)) (\<lambda>m2. Some (Inr (True, m2))))"
      by (rule outO_bind [OF captureEntry_resting [OF assms(1) resting_q [OF m front(2)]]]) simp
    with False front(1) show ?thesis by (simp add: processStep_def)
  qed
qed

lemma processQueue_resting:
  assumes "typed_snapshot (en_p en) tys cs" "resting en g False m"
  shows "outO (prog_faults (en_p en) tys \<union> {WildAccess, SliceOutOfRange}) (resting en g False) (processQueue en m)"
  unfolding processQueue_def by (rule loopR_out [OF processStep_resting [OF assms(1)] assms(2)])

lemma resting_idle:
  assumes "resting (snapshot_env p mem md) (makeGoRuntimeTypeResolver cfg md) False m" "sp_RuntimeConfig p = Some cfg"
    and "\<not> full (sm_b m)"
  shows "idle (snapshot_env p mem md) m"
  using assms
  by (auto simp: idle_def resting_def stopped_def resolver_kept_def range_current_def resolver_current_def module_cfg_def
      snapshot_env_def makeGoRuntimeTypeResolver_def)

text \<open>The conditions of \<open>heap_fits\<close> that are about the heap and the room for it; the rest is that the machine is idle.\<close>

definition heap_room :: "run_env \<Rightarrow> (u32 \<Rightarrow> type_code) \<Rightarrow> machine \<Rightarrow> bool" where
  "heap_room en codes m \<longleftrightarrow>
     (let sem = coded_sem en codes; R = heap_reach en sem (queued m) in
      small_types en \<and> coded_types en codes R \<and> finite R \<and> \<not> full (sm_b m) \<and>
      ob_len (sm_b m) + heap_size en sem R \<le> ob_cap (sm_b m))"

lemma heap_fits_room: "heap_fits en codes m \<longleftrightarrow> idle en m \<and> heap_room en codes m"
  by (auto simp: heap_fits_def heap_room_def Let_def)

subsection \<open>The states of the traversal\<close>

text \<open>The machines with which the loop over the queue begins its rounds.\<close>

inductive passed :: "run_env \<Rightarrow> machine \<Rightarrow> machine \<Rightarrow> bool" for en m where
  passed_start: "passed en m m"
| passed_next: "passed en m t \<Longrightarrow> processStep en t = Some (Inr (True, t')) \<Longrightarrow> passed en m t'"

lemma passed_resting:
  assumes "passed en m t" "typed_snapshot (en_p en) tys cs" "resting en g False m"
  shows "resting en g False t"
  using assms(1)
proof (induction rule: passed.induct)
  case (passed_next t t')
  with processStep_resting [OF assms(2) passed_next.IH] show ?case by (auto simp: outO_def)
qed (rule assms(3))

lemma passed_fuel:
  "loop_fuel n (processStep en) t = Some (Inl e) \<Longrightarrow> passed en m t \<Longrightarrow> \<exists>u. passed en m u \<and> processStep en u = Some (Inl e)"
proof (induction n arbitrary: t)
  case (Suc n)
  then show ?case
    by (auto split: option.splits sum.splits prod.splits if_splits intro: passed_next)
qed simp

lemma processQueue_fault:
  assumes "processQueue en m = Some (Inl e)"
  shows "\<exists>t. passed en m t \<and> processStep en t = Some (Inl e)"
  using assms passed_fuel [OF _ passed_start] unfolding processQueue_def by (auto dest: loopR_loop_fuel)

text \<open>
  How a run for an entry fails: on an idle machine, at a typed program counter, in a state that it passes and where the
  stack is as the operation expects (\<open>safe_at\<close>).
\<close>

definition type_run_fault ::
  "run_env \<Rightarrow> (u32 \<times> nat) list \<Rightarrow> (u32 \<times> nat) list \<Rightarrow> u32 \<Rightarrow> machine \<Rightarrow> fault \<Rightarrow> bool" where
  "type_run_fault en tys cs pc m e \<longleftrightarrow>
     sm_stack m = [] \<and> entry_pc tys cs pc \<and>
     (\<exists>off m' gs. Run en pc 0 0 off m = Some (Inl e) \<and>
        traced en pc 0 (sp_Prog (en_p en)) (run_start pc 0 off m) m' gs \<and> step en pc 0 m' = Some (Inl e) \<and>
        safe_at en pc 0 (sp_Prog (en_p en)) tys m' gs)"

lemma captureEntry_fault:
  assumes "typed_snapshot (en_p en) tys cs" "resting en g True m" "captureEntry en entry m = Some (Inl e)"
  shows "(\<exists>entry'. writeQueueEntry (en_mem en) entry' (sm_b m) = Inl e) \<or>
    (\<exists>ti m1. sp_TypeInfo (en_p en) (qe_Type entry) = Some ti \<and> type_run_fault en tys cs (ti_EnqueuePc ti) m1 e)"
proof -
  obtain ti where ti: "sp_TypeInfo (en_p en) (qe_Type entry) = Some ti"
    using assms(3) by (auto simp: captureEntry_def split: option.splits)
  define e1 where "e1 = entry\<lparr>qe_Len := clampLen (qe_Len entry) (ti_ByteLen ti)\<rparr>"
  define w where "w = (if ti_SerializeBeforeEnqueue ti then m_bufr (writeQueueEntry (en_mem en) e1) m else Inr ((0, True), m))"
  show ?thesis
  proof (cases w)
    case (Inl e')
    with assms(3) have "e' = e"
      by (auto simp: captureEntry_def ti Let_def e1_def [symmetric] w_def [symmetric] split: if_splits)
    with Inl have "writeQueueEntry (en_mem en) e1 (sm_b m) = Inl e"
      by (auto simp: w_def m_bufr_def bindE_def split: if_splits sum.splits prod.splits)
    then show ?thesis by blast
  next
    case (Inr x)
    then obtain off ok m1 where x: "w = Inr ((off, ok), m1)" by (cases x) (auto split: prod.splits)
    have "okE (\<lambda>(_, b'). ob_rel (sm_b m) b') (writeQueueEntry mem e' (sm_b m))" for mem e'
      by (rule writeQueueEntry_ok [OF resting_wf(2) [OF assms(2)]])
    then have m1: "resting en g True m1"
      using x assms(2) by (auto simp: w_def m_bufr_def okE_iff res_simps intro: resting_b split: if_splits)
    have run: "ti_EnqueuePc ti \<noteq> 0" "Run en (ti_EnqueuePc ti) 0 0 off (m1\<lparr>sm_chasedEntry := e1\<rparr>) = Some (Inl e)"
      using assms(3) x
      by (auto simp: captureEntry_def ti Let_def e1_def [symmetric] w_def [symmetric] bindO_def split: if_splits option.splits sum.splits)
    have ent: "entry_pc tys cs (ti_EnqueuePc ti)" using assms(1) ti run(1) by (simp add: typed_snapshot_def)
    have t: "well_typed (sp_Prog (en_p en)) tys" "map_of tys (ti_EnqueuePc ti) = Some 0"
      using assms(1) ent by (simp_all add: typed_snapshot_def typed_frames_def entry_pc_def)
    have "machine_wf (m1\<lparr>sm_chasedEntry := e1\<rparr>)" "dec_opBuf (sm_decoder (m1\<lparr>sm_chasedEntry := e1\<rparr>)) = sp_Prog (en_p en)"
      "sm_stack (m1\<lparr>sm_chasedEntry := e1\<rparr>) = []"
      using m1 by (simp_all add: resting_def stopped_def machine_wf_def)
    from Run_fault [OF t(1) this t(2) run(2)] this(3) ent run(2)
    have "type_run_fault en tys cs (ti_EnqueuePc ti) (m1\<lparr>sm_chasedEntry := e1\<rparr>) e"
      by (auto simp: type_run_fault_def)
    with ti show ?thesis by blast
  qed
qed

lemma processStep_fault:
  assumes "typed_snapshot (en_p en) tys cs" "resting en g False m" "processStep en m = Some (Inl e)"
  shows "\<not> full (sm_b m) \<and> ((\<exists>entry. writeQueueEntry (en_mem en) entry (sm_b m) = Inl e) \<or>
    (\<exists>t ti m1. sp_TypeInfo (en_p en) t = Some ti \<and> type_run_fault en tys cs (ti_EnqueuePc ti) m1 e))"
proof -
  have nf: "\<not> full (sm_b m)" using assms(3) by (auto simp: processStep_def)
  then have m: "resting en g True m" using assms(2) by (auto simp: resting_def)
  show ?thesis
  proof (cases rule: queue_Pop_total [OF resting_wf(3) [OF m]])
    case 1
    with nf assms(3) show ?thesis by (simp add: processStep_def)
  next
    case (2 entry q')
    have "captureEntry en entry (m\<lparr>sm_q := q'\<rparr>) = Some (Inl e)"
      using nf assms(3) 2(1) by (auto simp: processStep_def bindO_def split: option.splits sum.splits)
    from captureEntry_fault [OF assms(1) resting_q [OF m 2(2)] this] nf show ?thesis by auto
  qed
qed

lemma writeQueueEntry_faults: "ob_wf b \<Longrightarrow> writeQueueEntry mem entry b = Inl e \<Longrightarrow> e \<in> {WildAccess, SliceOutOfRange}"
  using writeQueueEntry_out [of b "{WildAccess, SliceOutOfRange}" mem entry] by (auto simp: outE_def)

text \<open>
  C9. With a typed program the stack of the interpreter is never in the way. Whatever the memory and the goroutines are:
  when the traversal of the queue begins, the machine is idle unless the goroutines have filled the buffer, so that
  what has to fit (\<open>heap_fits\<close>) is only a matter of the heap; in every round of the traversal the machine is idle again, unless the buffer
  is full; a panic of the traversal is one of the copy of an object into the buffer, or one of a run on an empty stack in a state where
  the stack is as the operation expects it (\<open>type_run_fault\<close>, \<open>safe_at\<close>), hence not over the stack; and when the traversal ends with room left the
  machine is idle again.
\<close>

theorem typed_snapshot_idle:
  assumes "typed_snapshot p tys cs" "sp_RuntimeConfig p = Some cfg" "before_traversal pe p cfg = Some (Inr s)"
  shows "let en = snapshot_env p (pe_mem pe) (pe_md pe); m = sn_sm s in
    (\<not> full (sm_b m) \<longrightarrow> idle en m \<and> (\<forall>codes. heap_fits en codes m \<longleftrightarrow> heap_room en codes m)) \<and>
    (\<forall>t. passed en m t \<longrightarrow> full (sm_b t) \<or> idle en t) \<and>
    (case processQueue en m of
       None \<Rightarrow> True
     | Some (Inl e) \<Rightarrow> \<exists>t. passed en m t \<and> idle en t \<and> processStep en t = Some (Inl e) \<and>
         (e \<in> {WildAccess, SliceOutOfRange} \<and> (\<exists>entry. writeQueueEntry (en_mem en) entry (sm_b t) = Inl e) \<or>
          (\<exists>ty ti m1. sp_TypeInfo p ty = Some ti \<and> type_run_fault en tys cs (ti_EnqueuePc ti) m1 e))
     | Some (Inr t) \<Rightarrow> full (sm_b t) \<or> idle en t)"
proof -
  define en where "en = snapshot_env p (pe_mem pe) (pe_md pe)"
  have en: "en_p en = p" by (simp add: en_def snapshot_env_def)
  have "typed_frames p tys cs" using assms(1) by (simp add: typed_snapshot_def)
  note r = before_traversal_resting [OF this assms(3), folded en_def]
  note idle = resting_idle [OF _ assms(2), of "pe_mem pe" "pe_md pe", folded en_def]
  have ts: "typed_snapshot (en_p en) tys cs" using assms(1) by (simp add: en)
  have pass: "full (sm_b t) \<or> idle en t" if "passed en (sn_sm s) t" for t
    using idle [OF passed_resting [OF that ts r]] by blast
  have ends: "full (sm_b t) \<or> idle en t" if "processQueue en (sn_sm s) = Some (Inr t)" for t
    using processQueue_resting [OF ts r] that idle by (auto simp: outO_def)
  have faults: "\<exists>t. passed en (sn_sm s) t \<and> idle en t \<and> processStep en t = Some (Inl e) \<and>
         (e \<in> {WildAccess, SliceOutOfRange} \<and> (\<exists>entry. writeQueueEntry (en_mem en) entry (sm_b t) = Inl e) \<or>
          (\<exists>ty ti m1. sp_TypeInfo p ty = Some ti \<and> type_run_fault en tys cs (ti_EnqueuePc ti) m1 e))"
    if fault: "processQueue en (sn_sm s) = Some (Inl e)" for e
  proof -
    obtain t where t: "passed en (sn_sm s) t" "processStep en t = Some (Inl e)" using processQueue_fault [OF fault] by blast
    note f = processStep_fault [OF ts passed_resting [OF t(1) ts r] t(2)]
    have "idle en t" using pass [OF t(1)] f by blast
    moreover have "ob_wf (sm_b t)" using resting_wf(2) [OF passed_resting [OF t(1) ts r]] .
    ultimately show ?thesis using t f writeQueueEntry_faults unfolding en by blast
  qed
  have "case processQueue en (sn_sm s) of
       None \<Rightarrow> True
     | Some (Inl e) \<Rightarrow> \<exists>t. passed en (sn_sm s) t \<and> idle en t \<and> processStep en t = Some (Inl e) \<and>
         (e \<in> {WildAccess, SliceOutOfRange} \<and> (\<exists>entry. writeQueueEntry (en_mem en) entry (sm_b t) = Inl e) \<or>
          (\<exists>ty ti m1. sp_TypeInfo p ty = Some ti \<and> type_run_fault en tys cs (ti_EnqueuePc ti) m1 e))
     | Some (Inr t) \<Rightarrow> full (sm_b t) \<or> idle en t"
    using ends faults by (cases "processQueue en (sn_sm s)") (auto split: sum.split)
  with pass show ?thesis
    using idle [OF r] unfolding Let_def en_def [symmetric] by (simp add: heap_fits_room)
qed

text \<open>The program of the nodes, at 1, is typed.\<close>

lemma static_instr:
  "instr (sp_Prog static_program) 1 = Some (AEnqueuePointer \<lparr>enqPtr_ElemType = 1\<rparr>, 6)"
  "instr (sp_Prog static_program) 6 = Some (AReturn, 7)"
proof -
  have prog: "sp_Prog static_program = [0] @ op_bytes (AEnqueuePointer \<lparr>enqPtr_ElemType = 1\<rparr>) @ op_bytes AReturn"
      "sp_Prog static_program = ([0] @ op_bytes (AEnqueuePointer \<lparr>enqPtr_ElemType = 1\<rparr>)) @ op_bytes AReturn @ []"
    by (simp_all add: static_program_def list_program_def node_ops_def)
  show "instr (sp_Prog static_program) 1 = Some (AEnqueuePointer \<lparr>enqPtr_ElemType = 1\<rparr>, 6)"
    by (subst instr_op [OF prog(1)]) (simp_all add: prog(1) op_bytes_def)
  show "instr (sp_Prog static_program) 6 = Some (AReturn, 7)"
    by (subst instr_op [OF prog(2)]) (simp_all add: prog(1) op_bytes_def)
qed

lemma static_typed: "typed_snapshot static_program [(1, 0), (6, 0)] [(1, 2), (6, 1)]"
proof -
  have "length (sp_Prog static_program) < 2 ^ 32"
    by (simp add: static_program_def list_program_def node_ops_def op_bytes_def)
  moreover have "sp_PcClassifier static_program = None" "sp_TypeInfo static_program = [1 \<mapsto> node_type]"
    by (simp_all add: static_program_def list_program_def zero_SnapshotProgram_def)
  ultimately show ?thesis
    by (auto simp: typed_snapshot_def typed_frames_def well_typed_def typed_at_def static_instr bounded_code_def typed_ops_def entry_pc_def
        cost_of_def max_steps_def node_type_def split: if_splits)
qed

theorem typed_snapshot_idle_witness:
  "\<exists>s t. before_traversal quiet_process static_program static_cfg = Some (Inr s) \<and> idle static_env (sn_sm s) \<and>
     processQueue static_env (sn_sm s) = Some (Inr t) \<and> idle static_env t"
proof -
  obtain s where s: "before_traversal quiet_process static_program static_cfg = Some (Inr s)"
    "queue_list (sm_q (sn_sm s)) = [node_entry 4096]" "idle static_env (sn_sm s)" "ob_len (sn_out s) = 56"
    "ob_cap (sn_out s) = 2 ^ 20" "\<not> full (sn_out s)" by (rule static_before)
  have env: "snapshot_env static_program (pe_mem quiet_process) (pe_md quiet_process) = static_env"
    by (simp add: static_env_def quiet_process_def)
  have cfg: "sp_RuntimeConfig static_program = Some static_cfg" by (simp add: static_program_def)
  obtain t where t: "processQueue static_env (sn_sm s) = Some (Inr t)" "\<not> full (sm_b t)"
    by (rule processQueue_fits [OF static_fits [OF s(2-6)]])
  from typed_snapshot_idle [OF static_typed cfg s(1)] t s(1,6) show ?thesis
    unfolding Let_def env by (auto simp: sn_out_def)
qed

subsection \<open>The heap in the answer\<close>

text \<open>
  C2. The objects in the answer of a snapshot. Let the programs of the frames be typed, and let the heap that is reachable
  from the static variables and from what the frames have queued have types given by their code, and fit into what the
  goroutines have left of the buffer. Then the snapshot succeeds, and the data of its answer behind the sections of the
  goroutines are exactly that heap: objects one after the other without overlap, each with the header of its entry and
  the bytes of the process's memory as the type's program leaves them, no key twice; every static variable at its address
  in the process; everything that was queued; nothing that is not reachable; and with an object what it refers to, unless
  its key was recorded before the traversal. The header says where they begin, and the sections of the goroutines are as
  they were written.
\<close>

theorem Snapshot_captures_typed_heap:
  assumes "typed_frames p tys cs" "snapshot_ready pe p cfg s"
    and "heap_room (snapshot_env p (pe_mem pe) (pe_md pe)) codes (sn_sm s)"
  shows "\<exists>resp pr' os. Snapshot pe p pr = Some (Inr (Inr resp), pr') \<and>
    (let en = snapshot_env p (pe_mem pe) (pe_md pe); sem = coded_sem en codes;
         lo = ob_len (sn_out s); d = sr_Data resp
     in in_order en sem lo os (length d) \<and> (\<forall>(e, a) \<in> set os. placed_at en sem d e a) \<and>
        distinct (map (key_of \<circ> fst) os) \<and>
        (\<forall>v \<in> set (rc_StaticVariables cfg). sv_Address v + sr_BssAddrShift resp \<noteq> 0 \<longrightarrow>
          \<lparr>k_addr = sv_Address v + sr_BssAddrShift resp, k_t = sv_Type v\<rparr> \<in> key_of ` fst ` set os) \<and>
        queued (sn_sm s) \<subseteq> fst ` set os \<and> fst ` set os \<subseteq> heap_reach en sem (queued (sn_sm s)) \<and>
        (\<forall>e \<in> fst ` set os. key_of ` pushed (object_refs en sem e) \<subseteq> key_of ` fst ` set os \<union> qu_seen (sm_q (sn_sm s))) \<and>
        sub d 4 4 = le_bytes 4 (of_nat lo - 56 :: u32) \<and> sub d 56 (lo - 56) = sub (ob_arr (sn_out s)) 56 (lo - 56))"
proof (rule Snapshot_captures_heap [OF assms(2)])
  obtain bss gc where r: "accepted pe p cfg" "before_traversal pe p cfg = Some (Inr s)"
    by (rule snapshot_readyD [OF assms(2)])
  have "\<not> full (sm_b (sn_sm s))" using assms(3) by (simp add: heap_room_def Let_def)
  with resting_idle [OF before_traversal_resting [OF assms(1) r(2)] accepted_config [OF r(1)]] assms(3)
  show "heap_fits (snapshot_env p (pe_mem pe) (pe_md pe)) codes (sn_sm s)" by (simp add: heap_fits_room)
qed

theorem Snapshot_captures_typed_heap_witness:
  "\<exists>resp pr' os. Snapshot quiet_process static_program example_process = Some (Inr (Inr resp), pr') \<and>
     fst ` set os = {node_entry 4096} \<and> sub (sr_Data resp) 4 4 = [0, 0, 0, 0] \<and>
     in_order static_env (coded_sem static_env (\<lambda>_. node_code)) 56 os (length (sr_Data resp)) \<and>
     list_all (\<lambda>(e, a). placed_at static_env (coded_sem static_env (\<lambda>_. node_code)) (sr_Data resp) e a) os"
proof -
  obtain s where s: "snapshot_ready quiet_process static_program static_cfg s" "queue_list (sm_q (sn_sm s)) = [node_entry 4096]"
    "ob_len (sn_out s) = 56" "heap_fits static_env (\<lambda>_. node_code) (sn_sm s)" by (rule static_ready)
  have env: "snapshot_env static_program (pe_mem quiet_process) (pe_md quiet_process) = static_env"
    by (simp add: static_env_def quiet_process_def)
  have typed: "typed_frames static_program [(1, 0), (6, 0)] [(1, 2), (6, 1)]"
    using static_typed by (simp add: typed_snapshot_def)
  have word: "le_bytes 4 (0 :: u32) = [0, 0, 0, 0]" by code_simp
  have "heap_room static_env (\<lambda>_. node_code) (sn_sm s)" using s(4) by (simp add: heap_fits_room)
  from Snapshot_captures_typed_heap [OF typed s(1), unfolded env, OF this, of example_process]
  show ?thesis
    unfolding Let_def s(2,3) list.set static_reach
    by (elim exE conjE) (intro exI conjI, assumption, auto simp: word list_all_iff)
qed

end
