(* ===== verification/Kernel_Layout.thy ===== *)
theory Kernel_Layout
  imports Side_Eye_Prelude "HOL-Library.Signed_Division"
begin

text \<open>
  The layout of the structs that the signal handler shares with the kernel (\<open>defs_linux_amd64.go\<close> and
  \<open>defs_darwin_arm64.go\<close> in \<open>internal/stoptheworld\<close>): the sizes, alignments and offsets that the Go compiler
  gives them, and that the assembly uses as \<open>sigcontext_rip\<close> or \<open>sigactiont__size\<close>.
\<close>

subsection \<open>How Go lays out a struct\<close>

text \<open>Integers of a size in bytes, pointers (and \<open>uintptr\<close>), arrays and structs, on a 64-bit platform.\<close>

datatype gotype = GWord nat | GPtr | GArray nat gotype | GStruct gofields
  and gofields = FNil | FCons string gotype gofields

definition align_up :: "nat \<Rightarrow> nat \<Rightarrow> nat" where
  "align_up o' a = (o' + a - 1) div a * a"

primrec go_align :: "gotype \<Rightarrow> nat" and fields_align :: "gofields \<Rightarrow> nat" where
  "go_align (GWord n) = n"
| "go_align GPtr = 8"
| "go_align (GArray n t) = go_align t"
| "go_align (GStruct fds) = fields_align fds"
| "fields_align FNil = 1"
| "fields_align (FCons nm t fds) = max (go_align t) (fields_align fds)"

text \<open>\<open>fields_end fds o'\<close>: the end of the last of the fields, when they are laid out from \<open>o'\<close> on.\<close>

primrec go_size :: "gotype \<Rightarrow> nat" and fields_end :: "gofields \<Rightarrow> nat \<Rightarrow> nat" where
  "go_size (GWord n) = n"
| "go_size GPtr = 8"
| "go_size (GArray n t) = n * go_size t"
| "go_size (GStruct fds) = align_up (fields_end fds 0) (fields_align fds)"
| "fields_end FNil o' = o'"
| "fields_end (FCons nm t fds) o' = fields_end fds (align_up o' (go_align t) + go_size t)"

text \<open>The fields with their offsets and types.\<close>

primrec fields_layout :: "gofields \<Rightarrow> nat \<Rightarrow> (string \<times> nat \<times> gotype) list" where
  "fields_layout FNil o' = []"
| "fields_layout (FCons nm t fds) o' =
     (let p = align_up o' (go_align t) in (nm, p, t) # fields_layout fds (p + go_size t))"

fun layout :: "gotype \<Rightarrow> (string \<times> nat \<times> gotype) list" where
  "layout (GStruct fds) = fields_layout fds 0"
| "layout _ = []"

definition offset_of :: "gotype \<Rightarrow> string \<Rightarrow> nat" where
  "offset_of t nm = fst (the (map_of (layout t) nm))"

definition struct :: "(string \<times> gotype) list \<Rightarrow> gotype" where
  "struct fds = GStruct (foldr (\<lambda>(nm, t). FCons nm t) fds FNil)"

abbreviation "int16 \<equiv> GWord 2"
abbreviation "int32 \<equiv> GWord 4"
abbreviation "int64 \<equiv> GWord 8"

subsection \<open>The structs of linux/amd64\<close>

definition si_max_size :: nat where "si_max_size = 128"
definition sigev_max_size :: nat where "sigev_max_size = 64"

definition linux_timespec :: gotype where
  "linux_timespec = struct [(''tv_sec'', int64), (''tv_nsec'', int64)]"

definition linux_timeval :: gotype where
  "linux_timeval = struct [(''tv_sec'', int64), (''tv_usec'', int64)]"

definition linux_sigactiont :: gotype where
  "linux_sigactiont = struct
     [(''sa_handler'', GPtr), (''sa_flags'', int64), (''sa_restorer'', GPtr), (''sa_mask'', int64)]"

definition linux_siginfoFields :: gotype where
  "linux_siginfoFields = struct
     [(''si_signo'', int32), (''si_errno'', int32), (''si_code'', int32), (''si_addr'', int64)]"

definition linux_siginfo :: gotype where
  "linux_siginfo = struct
     [(''siginfoFields'', linux_siginfoFields),
      (''_'', GArray (si_max_size - go_size linux_siginfoFields) (GWord 1))]"

definition linux_itimerspec :: gotype where
  "linux_itimerspec = struct [(''it_interval'', linux_timespec), (''it_value'', linux_timespec)]"

definition linux_itimerval :: gotype where
  "linux_itimerval = struct [(''it_interval'', linux_timeval), (''it_value'', linux_timeval)]"

definition linux_sigeventFields :: gotype where
  "linux_sigeventFields = struct
     [(''value'', GPtr), (''signo'', int32), (''notify'', int32), (''sigev_notify_thread_id'', int32)]"

definition linux_sigevent :: gotype where
  "linux_sigevent = struct
     [(''sigeventFields'', linux_sigeventFields),
      (''_'', GArray (sigev_max_size - go_size linux_sigeventFields) (GWord 1))]"

definition linux_usigset :: gotype where
  "linux_usigset = struct [(''__val'', GArray 16 int64)]"

definition linux_fpxreg :: gotype where
  "linux_fpxreg = struct [(''significand'', GArray 4 int16), (''exponent'', int16), (''padding'', GArray 3 int16)]"

definition linux_xmmreg :: gotype where
  "linux_xmmreg = struct [(''element'', GArray 4 int32)]"

definition linux_fpstate :: gotype where
  "linux_fpstate = struct
     [(''cwd'', int16), (''swd'', int16), (''ftw'', int16), (''fop'', int16), (''rip'', int64), (''rdp'', int64),
      (''mxcsr'', int32), (''mxcr_mask'', int32), (''_st'', GArray 8 linux_fpxreg), (''_xmm'', GArray 16 linux_xmmreg),
      (''padding'', GArray 24 int32)]"

definition linux_fpxreg1 :: gotype where
  "linux_fpxreg1 = struct [(''significand'', GArray 4 int16), (''exponent'', int16), (''padding'', GArray 3 int16)]"

definition linux_xmmreg1 :: gotype where
  "linux_xmmreg1 = struct [(''element'', GArray 4 int32)]"

definition linux_fpstate1 :: gotype where
  "linux_fpstate1 = struct
     [(''cwd'', int16), (''swd'', int16), (''ftw'', int16), (''fop'', int16), (''rip'', int64), (''rdp'', int64),
      (''mxcsr'', int32), (''mxcr_mask'', int32), (''_st'', GArray 8 linux_fpxreg1), (''_xmm'', GArray 16 linux_xmmreg1),
      (''padding'', GArray 24 int32)]"

definition linux_fpreg1 :: gotype where
  "linux_fpreg1 = struct [(''significand'', GArray 4 int16), (''exponent'', int16)]"

definition linux_stackt :: gotype where
  "linux_stackt = struct
     [(''ss_sp'', GPtr), (''ss_flags'', int32), (''pad_cgo_0'', GArray 4 (GWord 1)), (''ss_size'', GPtr)]"

definition linux_mcontext :: gotype where
  "linux_mcontext = struct [(''gregs'', GArray 23 int64), (''fpregs'', GPtr), (''__reserved1'', GArray 8 int64)]"

definition linux_ucontext :: gotype where
  "linux_ucontext = struct
     [(''uc_flags'', int64), (''uc_link'', GPtr), (''uc_stack'', linux_stackt), (''uc_mcontext'', linux_mcontext),
      (''uc_sigmask'', linux_usigset), (''__fpregs_mem'', linux_fpstate)]"

definition linux_sigcontext :: gotype where
  "linux_sigcontext = struct
     [(''r8'', int64), (''r9'', int64), (''r10'', int64), (''r11'', int64), (''r12'', int64), (''r13'', int64),
      (''r14'', int64), (''r15'', int64), (''rdi'', int64), (''rsi'', int64), (''rbp'', int64), (''rbx'', int64),
      (''rdx'', int64), (''rax'', int64), (''rcx'', int64), (''rsp'', int64), (''rip'', int64), (''eflags'', int64),
      (''cs'', int16), (''gs'', int16), (''fs'', int16), (''__pad0'', int16), (''err'', int64), (''trapno'', int64),
      (''oldmask'', int64), (''cr2'', int64), (''fpstate'', GPtr), (''__reserved1'', GArray 8 int64)]"

definition linux_sockaddr_un :: gotype where
  "linux_sockaddr_un = struct [(''family'', int16), (''path'', GArray 108 (GWord 1))]"

subsection \<open>The structs of darwin/arm64\<close>

definition darwin_stackt :: gotype where
  "darwin_stackt = struct
     [(''ss_sp'', GPtr), (''ss_size'', GPtr), (''ss_flags'', int32), (''pad_cgo_0'', GArray 4 (GWord 1))]"

definition darwin_sigactiont :: gotype where
  "darwin_sigactiont = struct
     [(''__sigaction_u'', GArray 8 (GWord 1)), (''sa_tramp'', GPtr), (''sa_mask'', int32), (''sa_flags'', int32)]"

definition darwin_usigactiont :: gotype where
  "darwin_usigactiont = struct
     [(''__sigaction_u'', GArray 8 (GWord 1)), (''sa_mask'', int32), (''sa_flags'', int32)]"

definition darwin_siginfo :: gotype where
  "darwin_siginfo = struct
     [(''si_signo'', int32), (''si_errno'', int32), (''si_code'', int32), (''si_pid'', int32), (''si_uid'', int32),
      (''si_status'', int32), (''si_addr'', GPtr), (''si_value'', GArray 8 (GWord 1)), (''si_band'', int64),
      (''__pad'', GArray 7 int64)]"

definition darwin_timeval :: gotype where
  "darwin_timeval = struct [(''tv_sec'', int64), (''tv_usec'', int32), (''pad_cgo_0'', GArray 4 (GWord 1))]"

definition darwin_itimerval :: gotype where
  "darwin_itimerval = struct [(''it_interval'', darwin_timeval), (''it_value'', darwin_timeval)]"

definition darwin_timespec :: gotype where
  "darwin_timespec = struct [(''tv_sec'', int64), (''tv_nsec'', int64)]"

definition darwin_exceptionstate64 :: gotype where
  "darwin_exceptionstate64 = struct [(''far'', int64), (''esr'', int32), (''exc'', int32)]"

definition darwin_regs64 :: gotype where
  "darwin_regs64 = struct
     [(''x'', GArray 29 int64), (''fp'', int64), (''lr'', int64), (''sp'', int64), (''pc'', int64),
      (''cpsr'', int32), (''__pad'', int32)]"

definition darwin_neonstate64 :: gotype where
  "darwin_neonstate64 = struct [(''v'', GArray 64 int64), (''fpsr'', int32), (''fpcr'', int32)]"

definition darwin_mcontext64 :: gotype where
  "darwin_mcontext64 = struct
     [(''es'', darwin_exceptionstate64), (''ss'', darwin_regs64), (''ns'', darwin_neonstate64)]"

definition darwin_ucontext :: gotype where
  "darwin_ucontext = struct
     [(''uc_onstack'', int32), (''uc_sigmask'', int32), (''uc_stack'', darwin_stackt), (''uc_link'', GPtr),
      (''uc_mcsize'', int64), (''uc_mcontext'', GPtr)]"

definition darwin_keventt :: gotype where
  "darwin_keventt = struct
     [(''ident'', int64), (''filter'', int16), (''flags'', int16), (''fflags'', int32), (''data'', int64),
      (''udata'', GPtr)]"

definition pthread_opaque :: "nat \<Rightarrow> gotype" where
  "pthread_opaque n = struct [(''X__sig'', int64), (''X__opaque'', GArray n (GWord 1))]"

definition darwin_pthreadattr :: gotype where "darwin_pthreadattr = pthread_opaque 56"
definition darwin_pthreadmutex :: gotype where "darwin_pthreadmutex = pthread_opaque 56"
definition darwin_pthreadmutexattr :: gotype where "darwin_pthreadmutexattr = pthread_opaque 8"
definition darwin_pthreadcond :: gotype where "darwin_pthreadcond = pthread_opaque 40"
definition darwin_pthreadcondattr :: gotype where "darwin_pthreadcondattr = pthread_opaque 8"

definition darwin_machTimebaseInfo :: gotype where
  "darwin_machTimebaseInfo = struct [(''numer'', int32), (''denom'', int32)]"

subsection \<open>The state of the handler\<close>

text \<open>\<open>signalState\<close> with the \<open>sigaction\<close> of the platform; a \<open>sync.Mutex\<close> has 8 bytes.\<close>

definition signalState_type :: "gotype \<Rightarrow> gotype" where
  "signalState_type prevAction = struct
     [(''mu'', struct [(''state'', int32), (''sema'', int32)]), (''dereferenceStart'', GPtr), (''dereferenceEnd'', GPtr),
      (''prevAction'', prevAction), (''snapshotTid'', int32), (''gPtr'', GPtr), (''recoveryFrameBaseOffset'', GPtr),
      (''config'', GPtr), (''stopTheWorldAddr'', GPtr), (''startTheWorldAddr'', GPtr)]"

definition darwin_sigaction :: gotype where
  "darwin_sigaction = struct [(''prevSigsegv'', darwin_usigactiont), (''prevSigbus'', darwin_usigactiont)]"

subsection \<open>What a layout guarantees\<close>

text \<open>The integers have the sizes of the machine, and no array or struct is empty.\<close>

primrec go_wf :: "gotype \<Rightarrow> bool" and fields_wf :: "gofields \<Rightarrow> bool" where
  "go_wf (GWord n) \<longleftrightarrow> n \<in> {1, 2, 4, 8}"
| "go_wf GPtr \<longleftrightarrow> True"
| "go_wf (GArray n t) \<longleftrightarrow> go_wf t"
| "go_wf (GStruct fds) \<longleftrightarrow> fields_wf fds"
| "fields_wf FNil \<longleftrightarrow> True"
| "fields_wf (FCons nm t fds) \<longleftrightarrow> go_wf t \<and> fields_wf fds"

lemma align_up_props:
  assumes "0 < a"
  shows "o' \<le> align_up o' a" "a dvd align_up o' a" "align_up o' a < o' + a"
proof -
  have e: "align_up o' a = (o' + a - 1) - (o' + a - 1) mod a" by (simp add: align_up_def minus_mod_eq_div_mult)
  have "(o' + a - 1) mod a < a" using assms by simp
  with e assms show "o' \<le> align_up o' a" by linarith
  from e assms show "align_up o' a < o' + a" by simp
  show "a dvd align_up o' a" by (simp add: align_up_def)
qed

lemma align_power2: "go_wf t \<Longrightarrow> go_align t \<in> {1, 2, 4, 8}" "fields_wf fds \<Longrightarrow> fields_align fds \<in> {1, 2, 4, 8}"
  by (induction t and fds) (auto simp: max_def)

lemma align_pos: "go_wf t \<Longrightarrow> 0 < go_align t" "fields_wf fds \<Longrightarrow> 0 < fields_align fds"
  using align_power2(1) [of t] align_power2(2) [of fds] by auto

lemma align_dvd:
  assumes "(a :: nat) \<in> {1, 2, 4, 8}" "b \<in> {1, 2, 4, 8}"
  shows "a dvd max a b" "b dvd max a b"
  using assms by auto

text \<open>
  The fields lie one behind the other, between two offsets, each aligned for its type and inside the
  struct; and the alignment of a struct is a multiple of that of each field.
\<close>

fun laid_out :: "nat \<Rightarrow> (string \<times> nat \<times> gotype) list \<Rightarrow> nat \<Rightarrow> bool" where
  "laid_out lo [] hi \<longleftrightarrow> lo \<le> hi"
| "laid_out lo ((nm, p, t) # fds) hi \<longleftrightarrow> lo \<le> p \<and> go_align t dvd p \<and> laid_out (p + go_size t) fds hi"

lemma laid_out_mono: "laid_out lo fds hi \<Longrightarrow> hi \<le> hi' \<Longrightarrow> laid_out lo fds hi'"
  by (induction lo fds hi rule: laid_out.induct) auto

lemma fields_laid_out: "fields_wf fds \<Longrightarrow> laid_out o' (fields_layout fds o') (fields_end fds o')"
proof (induction fds arbitrary: o' rule: gofields.induct [where ?P1.0 = "\<lambda>_. True"])
  case (FCons nm t fds)
  from FCons.prems align_up_props [OF align_pos(1) [of t], of o'] FCons.IH show ?case by (simp add: Let_def)
qed simp_all

lemma fields_aligned: "fields_wf fds \<Longrightarrow> (nm, p, t) \<in> set (fields_layout fds o') \<Longrightarrow> go_align t dvd fields_align fds"
proof (induction fds arbitrary: o' rule: gofields.induct [where ?P1.0 = "\<lambda>_. True"])
  case (FCons nm' t' fds)
  then have p: "go_align t' \<in> {1, 2, 4, 8}" "fields_align fds \<in> {1, 2, 4, 8}" using align_power2 by simp_all
  from FCons.prems consider "t = t'" | "(nm, p, t) \<in> set (fields_layout fds (align_up o' (go_align t') + go_size t'))"
    by (auto simp: Let_def)
  then show ?case
  proof cases
    case 1
    then show ?thesis using align_dvd(1) [OF p] by simp
  next
    case 2
    with FCons have "go_align t dvd fields_align fds" by simp
    then show ?thesis using align_dvd(2) [OF p] by (simp add: dvd_trans)
  qed
qed simp_all

lemma struct_laid_out:
  assumes "go_wf (GStruct fds)"
  shows "laid_out 0 (layout (GStruct fds)) (go_size (GStruct fds))" "fields_align fds dvd go_size (GStruct fds)"
proof -
  have wf: "fields_wf fds" using assms by simp
  note up = align_up_props [OF align_pos(2) [OF wf], of "fields_end fds 0"]
  show "laid_out 0 (layout (GStruct fds)) (go_size (GStruct fds))"
    using laid_out_mono [OF fields_laid_out [OF wf] up(1)] by simp
  show "fields_align fds dvd go_size (GStruct fds)" using up(2) by simp
qed

subsection \<open>Signals and flags\<close>

text \<open>The signal numbers and the flags of \<open>sigaction\<close> of the two platforms.\<close>

definition linux_sa_flags :: "(string \<times> int) list" where
  "linux_sa_flags =
     [(''SA_RESTART'', 0x10000000), (''SA_ONSTACK'', 0x8000000), (''SA_RESTORER'', 0x4000000),
      (''SA_NODEFER'', 0x40000000), (''SA_SIGINFO'', 0x4)]"

definition linux_signal_numbers :: "(string \<times> int) list" where
  "linux_signal_numbers =
     [(''SIGHUP'', 0x1), (''SIGINT'', 0x2), (''SIGQUIT'', 0x3), (''SIGILL'', 0x4), (''SIGTRAP'', 0x5),
      (''SIGABRT'', 0x6), (''SIGBUS'', 0x7), (''SIGFPE'', 0x8), (''SIGKILL'', 0x9), (''SIGUSR1'', 0xa),
      (''SIGSEGV'', 0xb), (''SIGUSR2'', 0xc), (''SIGPIPE'', 0xd), (''SIGALRM'', 0xe), (''SIGSTKFLT'', 0x10),
      (''SIGCHLD'', 0x11), (''SIGCONT'', 0x12), (''SIGSTOP'', 0x13), (''SIGTSTP'', 0x14), (''SIGTTIN'', 0x15),
      (''SIGTTOU'', 0x16), (''SIGURG'', 0x17), (''SIGXCPU'', 0x18), (''SIGXFSZ'', 0x19), (''SIGVTALRM'', 0x1a),
      (''SIGPROF'', 0x1b), (''SIGWINCH'', 0x1c), (''SIGIO'', 0x1d), (''SIGPWR'', 0x1e), (''SIGSYS'', 0x1f),
      (''SIGRTMIN'', 0x20)]"

definition darwin_sa_flags :: "(string \<times> int) list" where
  "darwin_sa_flags =
     [(''SA_SIGINFO'', 0x40), (''SA_RESTART'', 0x2), (''SA_ONSTACK'', 0x1), (''SA_USERTRAMP'', 0x100),
      (''SA_64REGSET'', 0x200)]"

definition darwin_signal_numbers :: "(string \<times> int) list" where
  "darwin_signal_numbers =
     [(''SIGHUP'', 0x1), (''SIGINT'', 0x2), (''SIGQUIT'', 0x3), (''SIGILL'', 0x4), (''SIGTRAP'', 0x5),
      (''SIGABRT'', 0x6), (''SIGEMT'', 0x7), (''SIGFPE'', 0x8), (''SIGKILL'', 0x9), (''SIGBUS'', 0xa),
      (''SIGSEGV'', 0xb), (''SIGSYS'', 0xc), (''SIGPIPE'', 0xd), (''SIGALRM'', 0xe), (''SIGTERM'', 0xf),
      (''SIGURG'', 0x10), (''SIGSTOP'', 0x11), (''SIGTSTP'', 0x12), (''SIGCONT'', 0x13), (''SIGCHLD'', 0x14),
      (''SIGTTIN'', 0x15), (''SIGTTOU'', 0x16), (''SIGIO'', 0x17), (''SIGXCPU'', 0x18), (''SIGXFSZ'', 0x19),
      (''SIGVTALRM'', 0x1a), (''SIGPROF'', 0x1b), (''SIGWINCH'', 0x1c), (''SIGINFO'', 0x1d),
      (''SIGUSR1'', 0x1e), (''SIGUSR2'', 0x1f)]"

definition named :: "(string \<times> int) list \<Rightarrow> string \<Rightarrow> int" where
  "named cs nm = (case map_of cs nm of None \<Rightarrow> 0 | Some v \<Rightarrow> v)"

text \<open>
  No two signals have the same number, all fit in the 64-bit masks, and each flag is a bit of its own; the
  assembly's own definitions of SIGSEGV and SIGBUS are those of the platform.
\<close>

lemma signal_numbers_distinct:
  "distinct (map snd linux_signal_numbers)" "distinct (map snd darwin_signal_numbers)"
  "list_all (\<lambda>(nm, v). 0 < v \<and> v < 64) (linux_signal_numbers @ darwin_signal_numbers)"
  "named linux_signal_numbers ''SIGSEGV'' = 11" "named darwin_signal_numbers ''SIGSEGV'' = 11"
  "named darwin_signal_numbers ''SIGBUS'' = 10"
  by code_simp+

subsection \<open>Times\<close>

text \<open>Division truncates towards zero, so that both fields of a negative time are negative or zero.\<close>

record timespec =
  tv_sec :: u64
  tv_nsec :: u64

record timeval =
  tvl_sec :: u64
  tvl_usec :: u64

definition setNsec :: "u64 \<Rightarrow> timespec \<Rightarrow> timespec" where
  "setNsec ns ts = ts\<lparr>tv_sec := word_of_int (sint ns sdiv 1000000000), tv_nsec := word_of_int (sint ns smod 1000000000)\<rparr>"

definition set_usec :: "u32 \<Rightarrow> timeval \<Rightarrow> timeval" where
  "set_usec x tv = tv\<lparr>tvl_usec := scast x\<rparr>"

lemma setNsec_total: "tv_sec (setNsec ns ts) * 1000000000 + tv_nsec (setNsec ns ts) = ns"
proof -
  have "tv_sec (setNsec ns ts) * 1000000000 + tv_nsec (setNsec ns ts) =
      word_of_int (sint ns sdiv 1000000000 * 1000000000 + sint ns smod 1000000000)"
    by (simp add: setNsec_def)
  then show ?thesis by (simp add: sdiv_mult_smod_eq)
qed

subsection \<open>The layouts that the kernel and the assembly rely on\<close>

lemmas linux_type_defs =
  linux_timespec_def linux_timeval_def linux_sigactiont_def linux_siginfoFields_def linux_siginfo_def
  linux_itimerspec_def linux_itimerval_def linux_sigeventFields_def linux_sigevent_def linux_usigset_def
  linux_fpxreg_def linux_xmmreg_def linux_fpstate_def linux_fpxreg1_def linux_xmmreg1_def linux_fpstate1_def
  linux_fpreg1_def linux_stackt_def linux_mcontext_def linux_ucontext_def linux_sigcontext_def linux_sockaddr_un_def

lemmas darwin_type_defs =
  darwin_stackt_def darwin_sigactiont_def darwin_usigactiont_def darwin_siginfo_def darwin_timeval_def
  darwin_itimerval_def darwin_timespec_def darwin_exceptionstate64_def darwin_regs64_def darwin_neonstate64_def
  darwin_mcontext64_def darwin_ucontext_def darwin_keventt_def darwin_pthreadattr_def darwin_pthreadmutex_def
  darwin_pthreadmutexattr_def darwin_pthreadcond_def darwin_pthreadcondattr_def darwin_machTimebaseInfo_def

definition linux_types :: "gotype list" where
  "linux_types =
     [linux_timespec, linux_timeval, linux_sigactiont, linux_siginfoFields, linux_siginfo, linux_itimerspec,
      linux_itimerval, linux_sigeventFields, linux_sigevent, linux_usigset, linux_fpxreg, linux_xmmreg, linux_fpstate,
      linux_fpxreg1, linux_xmmreg1, linux_fpstate1, linux_fpreg1, linux_stackt, linux_mcontext, linux_ucontext,
      linux_sigcontext, linux_sockaddr_un, signalState_type linux_sigactiont]"

definition darwin_types :: "gotype list" where
  "darwin_types =
     [darwin_stackt, darwin_sigactiont, darwin_usigactiont, darwin_siginfo, darwin_timeval, darwin_itimerval,
      darwin_timespec, darwin_exceptionstate64, darwin_regs64, darwin_neonstate64, darwin_mcontext64,
      darwin_ucontext, darwin_keventt, darwin_pthreadattr, darwin_pthreadmutex, darwin_pthreadmutexattr,
      darwin_pthreadcond, darwin_pthreadcondattr, darwin_machTimebaseInfo, darwin_sigaction,
      signalState_type darwin_sigaction]"

lemma types_wf: "list_all go_wf linux_types" "list_all go_wf darwin_types"
  by code_simp+

lemma linux_sizes: "map go_size linux_types =
  [16, 16, 32, 24, 128, 32, 32, 24, 64, 128, 16, 16, 512, 16, 16, 512, 10, 24, 256, 936, 256, 110, 104]"
  by code_simp

lemma darwin_sizes: "map go_size darwin_types =
  [24, 24, 16, 104, 16, 32, 16, 16, 272, 520, 808, 56, 32, 64, 64, 16, 48, 16, 8, 32, 104]"
  by code_simp

lemma linux_offsets:
  "offset_of linux_ucontext ''uc_mcontext'' = 40" "offset_of linux_sigcontext ''rbp'' = 80"
  "offset_of linux_sigcontext ''rax'' = 104" "offset_of linux_sigcontext ''rsp'' = 120"
  "offset_of linux_sigcontext ''rip'' = 128"
  "offset_of linux_sigactiont ''sa_handler'' = 0" "offset_of linux_sigactiont ''sa_flags'' = 8"
  "offset_of linux_sigactiont ''sa_restorer'' = 16" "offset_of linux_sigactiont ''sa_mask'' = 24"
  by code_simp+

lemma linux_sigcontext_layout:
  "map (\<lambda>(nm, p, t). (p, go_size t)) (layout linux_sigcontext) =
     map (\<lambda>k. (8 * k, 8)) [0..<18] @ [(144, 2), (146, 2), (148, 2), (150, 2)] @
     map (\<lambda>k. (8 * k, 8)) [19..<24] @ [(192, 64)]"
  by code_simp

lemma darwin_offsets:
  "offset_of darwin_ucontext ''uc_mcontext'' = 48" "offset_of darwin_mcontext64 ''ss'' = 16"
  "offset_of darwin_regs64 ''x'' = 0" "offset_of darwin_regs64 ''fp'' = 232" "offset_of darwin_regs64 ''lr'' = 240"
  "offset_of darwin_regs64 ''sp'' = 248" "offset_of darwin_regs64 ''pc'' = 256" "offset_of darwin_regs64 ''cpsr'' = 264"
  "offset_of darwin_usigactiont ''__sigaction_u'' = 0" "offset_of darwin_usigactiont ''sa_mask'' = 8"
  "offset_of darwin_usigactiont ''sa_flags'' = 12"
  by code_simp+

lemma signalState_offsets:
  "offset_of (signalState_type linux_sigactiont) ''snapshotTid'' = 56"
  "offset_of (signalState_type linux_sigactiont) ''gPtr'' = 64"
  by code_simp+

fun is_struct :: "gotype \<Rightarrow> bool" where
  "is_struct (GStruct fds) \<longleftrightarrow> True"
| "is_struct _ \<longleftrightarrow> False"

lemma struct_layout_ok:
  "go_wf t \<Longrightarrow> is_struct t \<Longrightarrow> laid_out 0 (layout t) (go_size t) \<and> go_align t dvd go_size t"
  using struct_laid_out by (cases t) auto

lemma types_struct: "list_all is_struct (linux_types @ darwin_types)"
  by (simp add: linux_types_def darwin_types_def linux_type_defs darwin_type_defs struct_def signalState_type_def
      darwin_sigaction_def pthread_opaque_def)

text \<open>
  The ABI of the kernels, from their headers, and not from the Go structs: size, and name, offset and size of every field, for
  the structs that cross the boundary in \<open>sigaction\<close> and in the call of the handler (\<open>struct sigcontext_64\<close> of
  \<open>asm/sigcontext.h\<close>, \<open>struct __darwin_arm_thread_state64\<close> of \<open>mach/arm/_structs.h\<close>, and those around them).
\<close>

definition words_at :: "nat \<Rightarrow> string list \<Rightarrow> (string \<times> nat \<times> nat) list" where
  "words_at o' nms = map (\<lambda>(i, nm). (nm, o' + 8 * i, 8)) (enumerate 0 nms)"

definition linux_abi :: "(gotype \<times> nat \<times> (string \<times> nat \<times> nat) list) list" where
  "linux_abi =
     [(linux_sigactiont, 32, [(''sa_handler'', 0, 8), (''sa_flags'', 8, 8), (''sa_restorer'', 16, 8), (''sa_mask'', 24, 8)]),
      (linux_siginfoFields, 24, [(''si_signo'', 0, 4), (''si_errno'', 4, 4), (''si_code'', 8, 4), (''si_addr'', 16, 8)]),
      (linux_stackt, 24, [(''ss_sp'', 0, 8), (''ss_flags'', 8, 4), (''pad_cgo_0'', 12, 4), (''ss_size'', 16, 8)]),
      (linux_mcontext, 256, [(''gregs'', 0, 184), (''fpregs'', 184, 8), (''__reserved1'', 192, 64)]),
      (linux_ucontext, 936,
         [(''uc_flags'', 0, 8), (''uc_link'', 8, 8), (''uc_stack'', 16, 24), (''uc_mcontext'', 40, 256),
          (''uc_sigmask'', 296, 128), (''__fpregs_mem'', 424, 512)]),
      (linux_sigcontext, 256,
         words_at 0 [''r8'', ''r9'', ''r10'', ''r11'', ''r12'', ''r13'', ''r14'', ''r15'', ''rdi'', ''rsi'', ''rbp'', ''rbx'',
           ''rdx'', ''rax'', ''rcx'', ''rsp'', ''rip'', ''eflags''] @
         [(''cs'', 144, 2), (''gs'', 146, 2), (''fs'', 148, 2), (''__pad0'', 150, 2)] @
         words_at 152 [''err'', ''trapno'', ''oldmask'', ''cr2'', ''fpstate''] @ [(''__reserved1'', 192, 64)])]"

definition darwin_abi :: "(gotype \<times> nat \<times> (string \<times> nat \<times> nat) list) list" where
  "darwin_abi =
     [(darwin_usigactiont, 16, [(''__sigaction_u'', 0, 8), (''sa_mask'', 8, 4), (''sa_flags'', 12, 4)]),
      (darwin_siginfo, 104,
         [(''si_signo'', 0, 4), (''si_errno'', 4, 4), (''si_code'', 8, 4), (''si_pid'', 12, 4), (''si_uid'', 16, 4),
          (''si_status'', 20, 4), (''si_addr'', 24, 8), (''si_value'', 32, 8), (''si_band'', 40, 8), (''__pad'', 48, 56)]),
      (darwin_stackt, 24, [(''ss_sp'', 0, 8), (''ss_size'', 8, 8), (''ss_flags'', 16, 4), (''pad_cgo_0'', 20, 4)]),
      (darwin_exceptionstate64, 16, [(''far'', 0, 8), (''esr'', 8, 4), (''exc'', 12, 4)]),
      (darwin_regs64, 272,
         (''x'', 0, 232) # words_at 232 [''fp'', ''lr'', ''sp'', ''pc''] @ [(''cpsr'', 264, 4), (''__pad'', 268, 4)]),
      (darwin_neonstate64, 520, [(''v'', 0, 512), (''fpsr'', 512, 4), (''fpcr'', 516, 4)]),
      (darwin_mcontext64, 808, [(''es'', 0, 16), (''ss'', 16, 272), (''ns'', 288, 520)]),
      (darwin_ucontext, 56,
         [(''uc_onstack'', 0, 4), (''uc_sigmask'', 4, 4), (''uc_stack'', 8, 24), (''uc_link'', 32, 8),
          (''uc_mcsize'', 40, 8), (''uc_mcontext'', 48, 8)])]"

definition has_abi :: "gotype \<times> nat \<times> (string \<times> nat \<times> nat) list \<Rightarrow> bool" where
  "has_abi r \<longleftrightarrow> (case r of (t, n, fds) \<Rightarrow> go_size t = n \<and> map (\<lambda>(nm, p, t). (nm, p, go_size t)) (layout t) = fds)"

lemma abi_tables: "list_all has_abi linux_abi" "list_all has_abi darwin_abi"
  by code_simp+


end
