(* ===== verification/Signal_Memory.thy ===== *)
theory Signal_Memory
  imports Signal_Handler Kernel_Layout
begin

text \<open>
  The signal handler on the bytes of the context that the kernel passes, and the table of signal actions.
  The handlers of theory Signal_Handler work on the record of the saved registers; here they load and store at the
  offsets that the assembly uses, and refine those.
\<close>

subsection \<open>The saved registers in memory\<close>

definition ctx_load :: "nat \<Rightarrow> u8 list \<Rightarrow> 'a::len word" where
  "ctx_load p uc = le_word (sub uc p (LENGTH('a) div 8))"

definition ctx_store :: "nat \<Rightarrow> u64 \<Rightarrow> u8 list \<Rightarrow> u8 list" where
  "ctx_store p w uc = blit uc p (le_bytes 8 w)"

text \<open>\<open>ucontext_uc_mcontext(BX)\<close>, and the fields of \<open>sigcontext\<close> behind it.\<close>

definition mc_at :: "nat \<Rightarrow> nat" where
  "mc_at p = offset_of linux_ucontext ''uc_mcontext'' + p"

definition sigcontext_of :: "u8 list \<Rightarrow> sigcontext" where
  "sigcontext_of uc =
     \<lparr>r8 = ctx_load (mc_at 0) uc, r9 = ctx_load (mc_at 8) uc, r10 = ctx_load (mc_at 16) uc,
      r11 = ctx_load (mc_at 24) uc, r12 = ctx_load (mc_at 32) uc, r13 = ctx_load (mc_at 40) uc,
      r14 = ctx_load (mc_at 48) uc, r15 = ctx_load (mc_at 56) uc, rdi = ctx_load (mc_at 64) uc,
      rsi = ctx_load (mc_at 72) uc, rbp = ctx_load (mc_at 80) uc, rbx = ctx_load (mc_at 88) uc,
      rdx = ctx_load (mc_at 96) uc, rax = ctx_load (mc_at 104) uc, rcx = ctx_load (mc_at 112) uc,
      rsp = ctx_load (mc_at 120) uc, rip = ctx_load (mc_at 128) uc, eflags = ctx_load (mc_at 136) uc,
      cs = ctx_load (mc_at 144) uc, gs = ctx_load (mc_at 146) uc, fs = ctx_load (mc_at 148) uc,
      pad0 = ctx_load (mc_at 150) uc, err = ctx_load (mc_at 152) uc, trapno = ctx_load (mc_at 160) uc,
      oldmask = ctx_load (mc_at 168) uc, cr2 = ctx_load (mc_at 176) uc\<rparr>"

abbreviation "sc_rbp \<equiv> mc_at (offset_of linux_sigcontext ''rbp'')"
abbreviation "sc_rip \<equiv> mc_at (offset_of linux_sigcontext ''rip'')"
abbreviation "sc_rsp \<equiv> mc_at (offset_of linux_sigcontext ''rsp'')"
abbreviation "sc_rax \<equiv> mc_at (offset_of linux_sigcontext ''rax'')"

text \<open>The stores of the handler, in the order of the code.\<close>

definition resume_bytes :: "u64 \<Rightarrow> u64 \<Rightarrow> u64 \<Rightarrow> u8 list \<Rightarrow> u8 list" where
  "resume_bytes next_fp next_pc sp uc =
     ctx_store sc_rax 0 (ctx_store sc_rsp sp (ctx_store sc_rip next_pc (ctx_store sc_rbp next_fp uc)))"

definition sigsegvHandler_bytes :: "memory \<Rightarrow> u32 \<Rightarrow> signalState \<Rightarrow> u8 list \<Rightarrow> (u8 list sig_result) res" where
  "sigsegvHandler_bytes mem tid s uc =
     (if tid \<noteq> ss_snapshotTid s then Inr Passthrough
      else
        bindE (find_dereference mem s FRAMES_TO_CHECK (ctx_load sc_rip uc) (ctx_load sc_rbp uc)) (\<lambda>found.
        case found of
          Some (fp, next_fp, next_pc) \<Rightarrow> Inr (Resumed (resume_bytes next_fp next_pc (fp + 16) uc))
        | None \<Rightarrow>
            bindE (recovery_frame Linux_amd64 mem s) (\<lambda>frame.
            case frame of
              None \<Rightarrow> Inr Passthrough
            | Some ufp \<Rightarrow>
                bindE (load_u64 mem ufp) (\<lambda>next_fp.
                bindE (load_u64 mem (ufp + 8)) (\<lambda>next_pc.
                Inr (Resumed (resume_bytes next_fp next_pc (ufp + 16) uc)))))))"

fun map_result :: "('a \<Rightarrow> 'b) \<Rightarrow> 'a sig_result \<Rightarrow> 'b sig_result" where
  "map_result f (Resumed c) = Resumed (f c)"
| "map_result f Passthrough = Passthrough"

definition map_res :: "('a \<Rightarrow> 'b) \<Rightarrow> ('a sig_result) res \<Rightarrow> ('b sig_result) res" where
  "map_res f r = bindE r (\<lambda>x. Inr (map_result f x))"

lemma ctx_load_store:
  "p + 8 \<le> length uc \<Longrightarrow> ctx_load p (ctx_store p w uc) = w"
  by (simp add: ctx_load_def ctx_store_def sub_blit_sameI)

lemma ctx_load_store_other:
  fixes uc :: "u8 list"
  assumes "p + 8 \<le> length uc" "q + LENGTH('a) div 8 \<le> length uc" "q + LENGTH('a) div 8 \<le> p \<or> p + 8 \<le> q"
  shows "(ctx_load q (ctx_store p w uc) :: 'a::len word) = ctx_load q uc"
  using assms by (simp add: ctx_load_def ctx_store_def sub_blit_other)

lemma length_ctx_store [simp]: "p + 8 \<le> length uc \<Longrightarrow> length (ctx_store p w uc) = length uc"
  by (simp add: ctx_store_def)

lemma mc_at_eq: "mc_at p = 40 + p"
  by (simp add: mc_at_def linux_offsets)

lemma sigcontext_resume:
  assumes "length uc = go_size linux_ucontext"
  shows "sigcontext_of (resume_bytes next_fp next_pc sp uc) =
    (sigcontext_of uc)\<lparr>rbp := next_fp, rip := next_pc, rsp := sp, rax := 0\<rparr>"
proof -
  have len: "length uc = 936" using assms linux_sizes by (simp add: linux_types_def)
  show ?thesis
    unfolding resume_bytes_def sigcontext_of_def mc_at_eq linux_offsets
    by (simp add: ctx_load_store ctx_load_store_other len)
qed

lemma rip_rbp: "ctx_load sc_rip uc = rip (sigcontext_of uc)" "ctx_load sc_rbp uc = rbp (sigcontext_of uc)"
  by (simp_all add: sigcontext_of_def linux_offsets)

lemma sigsegvHandler_bytes_refines:
  assumes "length uc = go_size linux_ucontext"
  shows "map_res sigcontext_of (sigsegvHandler_bytes mem tid s uc) =
    sigsegvHandler_amd64 mem tid s (sigcontext_of uc)"
  unfolding map_res_def sigsegvHandler_bytes_def sigsegvHandler_amd64_def rip_rbp
  by (auto simp: bindE_def sigcontext_resume [OF assms] split: option.splits sum.splits prod.splits)

text \<open>The bytes that the handler may change: the four registers.\<close>

definition resumed_slots :: "nat set" where
  "resumed_slots = (\<Union>p \<in> {sc_rbp, sc_rip, sc_rsp, sc_rax}. {p ..< p + 8})"

lemma ctx_store_other: "p + 8 \<le> length uc \<Longrightarrow> k < length uc \<Longrightarrow> k \<notin> {p ..< p + 8} \<Longrightarrow> ctx_store p w uc ! k = uc ! k"
  by (auto simp: ctx_store_def nth_blit)

lemma resume_bytes_other:
  assumes "length uc = go_size linux_ucontext"
  shows "length (resume_bytes next_fp next_pc sp uc) = length uc"
    and "k < length uc \<Longrightarrow> k \<notin> resumed_slots \<Longrightarrow> resume_bytes next_fp next_pc sp uc ! k = uc ! k"
proof -
  have len: "length uc = 936" using assms linux_sizes by (simp add: linux_types_def)
  show "length (resume_bytes next_fp next_pc sp uc) = length uc"
    unfolding resume_bytes_def mc_at_eq linux_offsets by (simp add: len)
  show "k < length uc \<Longrightarrow> k \<notin> resumed_slots \<Longrightarrow> resume_bytes next_fp next_pc sp uc ! k = uc ! k"
    unfolding resume_bytes_def resumed_slots_def mc_at_eq linux_offsets
    by (auto simp: ctx_store_other len)
qed

lemma sigsegvHandler_bytes_frame:
  assumes "length uc = go_size linux_ucontext" "sigsegvHandler_bytes mem tid s uc = Inr (Resumed uc')"
  shows "length uc' = length uc" "k < length uc \<Longrightarrow> k \<notin> resumed_slots \<Longrightarrow> uc' ! k = uc ! k"
proof -
  obtain a b c where uc': "uc' = resume_bytes a b c uc"
    using assms(2) by (auto simp: sigsegvHandler_bytes_def bindE_def split: if_splits option.splits sum.splits prod.splits)
  show "length uc' = length uc" "k < length uc \<Longrightarrow> k \<notin> resumed_slots \<Longrightarrow> uc' ! k = uc ! k"
    unfolding uc' using resume_bytes_other [OF assms(1)] by auto
qed

subsection \<open>The same on darwin/arm64\<close>

text \<open>\<open>mc\<close> are the bytes of the \<open>mcontext64\<close> that \<open>uc_mcontext\<close> points to.\<close>

definition ss_at :: "nat \<Rightarrow> nat" where
  "ss_at p = offset_of darwin_mcontext64 ''ss'' + p"

abbreviation "ss_x \<equiv> ss_at (offset_of darwin_regs64 ''x'')"
abbreviation "ss_fp \<equiv> ss_at (offset_of darwin_regs64 ''fp'')"
abbreviation "ss_lr \<equiv> ss_at (offset_of darwin_regs64 ''lr'')"
abbreviation "ss_sp \<equiv> ss_at (offset_of darwin_regs64 ''sp'')"
abbreviation "ss_pc \<equiv> ss_at (offset_of darwin_regs64 ''pc'')"
abbreviation "ss_cpsr \<equiv> ss_at (offset_of darwin_regs64 ''cpsr'')"

definition regs64_of :: "u8 list \<Rightarrow> regs64" where
  "regs64_of mc =
     \<lparr>rg_x = map (\<lambda>i. ctx_load (ss_x + 8 * i) mc) [0..<29], rg_fp = ctx_load ss_fp mc, rg_lr = ctx_load ss_lr mc,
      rg_sp = ctx_load ss_sp mc, rg_pc = ctx_load ss_pc mc, rg_cpsr = ctx_load ss_cpsr mc\<rparr>"

definition sigsegvHandler_darwin_bytes :: "memory \<Rightarrow> u32 \<Rightarrow> signalState \<Rightarrow> u8 list \<Rightarrow> (u8 list sig_result) res" where
  "sigsegvHandler_darwin_bytes mem tid s mc =
     bindE (find_dereference mem s FRAMES_TO_CHECK (ctx_load ss_pc mc) (ctx_load ss_fp mc)) (\<lambda>found.
     case found of
       Some (fp, next_fp, next_pc) \<Rightarrow>
         bindE (load_u64 mem (next_fp + 8)) (\<lambda>lr.
         Inr (Resumed (ctx_store ss_x 0 (ctx_store ss_fp next_fp (ctx_store ss_sp (next_fp + 8)
           (ctx_store ss_lr lr (ctx_store ss_pc next_pc mc)))))))
     | None \<Rightarrow>
         bindE (recovery_frame Darwin_arm64 mem s) (\<lambda>frame.
         case frame of
           None \<Rightarrow> Inr Passthrough
         | Some ufp \<Rightarrow>
             bindE (load_u64 mem (ufp + 8)) (\<lambda>next_pc.
             bindE (load_u64 mem ufp) (\<lambda>next_fp.
             bindE (load_u64 mem (next_fp + 8)) (\<lambda>lr.
             Inr (Resumed (ctx_store ss_x 0 (ctx_store ss_lr lr (ctx_store ss_sp (next_fp + 8)
               (ctx_store ss_fp next_fp (ctx_store ss_pc next_pc mc)))))))))))"

lemma ss_at_eq: "ss_at p = 16 + p"
  by (simp add: ss_at_def darwin_offsets)

lemma map_upt_store0:
  assumes "\<And>i. 0 < i \<Longrightarrow> i < n \<Longrightarrow> f i = g i" "0 < n"
  shows "map f [0..<n] = (map g [0..<n])[0 := f 0]"
  using assms by (intro nth_equalityI) (auto simp: nth_list_update)

lemma regs64_resume:
  assumes "length mc = go_size darwin_mcontext64"
  shows "regs64_of (ctx_store ss_x 0 (ctx_store ss_fp f (ctx_store ss_sp q (ctx_store ss_lr l (ctx_store ss_pc p mc))))) =
      (regs64_of mc)\<lparr>rg_pc := p, rg_lr := l, rg_sp := q, rg_fp := f, rg_x := (rg_x (regs64_of mc))[0 := 0]\<rparr>"
    and "regs64_of (ctx_store ss_x 0 (ctx_store ss_lr l (ctx_store ss_sp q (ctx_store ss_fp f (ctx_store ss_pc p mc))))) =
      (regs64_of mc)\<lparr>rg_pc := p, rg_fp := f, rg_sp := q, rg_lr := l, rg_x := (rg_x (regs64_of mc))[0 := 0]\<rparr>"
proof -
  have len: "length mc = 808" using assms darwin_sizes by (simp add: darwin_types_def)
  note simps = ctx_load_store ctx_load_store_other len
  have x: "map (\<lambda>i. ctx_load (16 + 8 * i) (ctx_store 16 0 mc')) [0..<29] =
      (map (\<lambda>i. ctx_load (16 + 8 * i) mc') [0..<29])[0 := (0 :: u64)]" if "length mc' = 808" for mc'
    using map_upt_store0 [of 29 "\<lambda>i. ctx_load (16 + 8 * i) (ctx_store 16 0 mc')" "\<lambda>i. ctx_load (16 + 8 * i) mc' :: u64"] that
    by (simp add: ctx_load_store ctx_load_store_other)
  have y: "map (\<lambda>i. ctx_load (16 + 8 * i) (ctx_store q w mc')) [0..<29] =
      (map (\<lambda>i. ctx_load (16 + 8 * i) mc') [0..<29] :: u64 list)" if "length mc' = 808" "248 \<le> q" "q + 8 \<le> 808" for mc' q w
    using that by (auto simp: ctx_load_store_other)
  show "regs64_of (ctx_store ss_x 0 (ctx_store ss_fp f (ctx_store ss_sp q (ctx_store ss_lr l (ctx_store ss_pc p mc))))) =
      (regs64_of mc)\<lparr>rg_pc := p, rg_lr := l, rg_sp := q, rg_fp := f, rg_x := (rg_x (regs64_of mc))[0 := 0]\<rparr>"
    unfolding regs64_of_def ss_at_eq darwin_offsets by (simp add: simps x y)
  show "regs64_of (ctx_store ss_x 0 (ctx_store ss_lr l (ctx_store ss_sp q (ctx_store ss_fp f (ctx_store ss_pc p mc))))) =
      (regs64_of mc)\<lparr>rg_pc := p, rg_fp := f, rg_sp := q, rg_lr := l, rg_x := (rg_x (regs64_of mc))[0 := 0]\<rparr>"
    unfolding regs64_of_def ss_at_eq darwin_offsets by (simp add: simps x y)
qed

lemma pc_fp: "ctx_load ss_pc mc = rg_pc (regs64_of mc)" "ctx_load ss_fp mc = rg_fp (regs64_of mc)"
  by (simp_all add: regs64_of_def)

lemma sigsegvHandler_darwin_bytes_refines:
  assumes "length mc = go_size darwin_mcontext64"
  shows "map_res regs64_of (sigsegvHandler_darwin_bytes mem tid s mc) =
    sigsegvHandler_arm64 mem tid s (regs64_of mc)"
  unfolding map_res_def sigsegvHandler_darwin_bytes_def sigsegvHandler_arm64_def pc_fp
  by (auto simp: bindE_def regs64_resume [OF assms] split: option.splits sum.splits prod.splits)

text \<open>
  C19. The handlers, which load and store at the offsets of the assembly in the context that the kernel saved, do to
  the saved registers what the handlers on register records do, and fault or pass the signal on in the same cases. On linux they
  change no other byte of the context: neither the segment registers and flags, nor the signal mask, nor the
  floating point state.
\<close>

theorem sigsegvHandler_refines_registers:
  assumes "length uc = go_size linux_ucontext" "length mc = go_size darwin_mcontext64"
  shows "map_res sigcontext_of (sigsegvHandler_bytes mem tid s uc) =
      sigsegvHandler_amd64 mem tid s (sigcontext_of uc) \<and>
    map_res regs64_of (sigsegvHandler_darwin_bytes mem tid s mc) = sigsegvHandler_arm64 mem tid s (regs64_of mc) \<and>
    okE (\<lambda>r. case r of
        Resumed uc' \<Rightarrow> length uc' = length uc \<and> (\<forall>k < length uc. k \<notin> resumed_slots \<longrightarrow> uc' ! k = uc ! k)
      | Passthrough \<Rightarrow> True) (sigsegvHandler_bytes mem tid s uc)"
proof (intro conjI)
  show "okE (\<lambda>r. case r of
        Resumed uc' \<Rightarrow> length uc' = length uc \<and> (\<forall>k < length uc. k \<notin> resumed_slots \<longrightarrow> uc' ! k = uc ! k)
      | Passthrough \<Rightarrow> True) (sigsegvHandler_bytes mem tid s uc)"
    using sigsegvHandler_bytes_frame [OF assms(1)] by (auto simp: okE_iff split: sig_result.split)
qed (use assms sigsegvHandler_bytes_refines sigsegvHandler_darwin_bytes_refines in blast)+

text \<open>A context of zeros on linux, and a fault with the program counter and the frame pointer of theory Signal_Handler.\<close>

definition fault_context :: "u8 list" where
  "fault_context = ctx_store sc_rip 8192 (ctx_store sc_rbp 4096 (replicate 936 0))"

theorem sigsegvHandler_refines_registers_witness:
  "map_res sigcontext_of (sigsegvHandler_bytes fault_memory 7 fault_state fault_context) =
     sigsegvHandler_amd64 fault_memory 7 fault_state (sigcontext_of fault_context) \<and>
   rip (sigcontext_of fault_context) = 8192 \<and> rbp (sigcontext_of fault_context) = 4096"
proof -
  have l: "length fault_context = 936" unfolding fault_context_def mc_at_eq linux_offsets by simp
  have s: "go_size linux_ucontext = 936" "go_size darwin_mcontext64 = 808"
    using linux_sizes darwin_sizes by (simp_all add: linux_types_def darwin_types_def)
  have "rip (sigcontext_of fault_context) = 8192" "rbp (sigcontext_of fault_context) = 4096"
    unfolding rip_rbp [symmetric] fault_context_def mc_at_eq linux_offsets
    by (simp_all add: ctx_load_store ctx_load_store_other)
  with sigsegvHandler_refines_registers [of fault_context "replicate 808 0" fault_memory 7 fault_state] l s
  show ?thesis by simp
qed

subsection \<open>The table of signal actions\<close>

lemma saFlags_named:
  "uint saFlags_linux = or (or (or (named linux_sa_flags ''SA_ONSTACK'') (named linux_sa_flags ''SA_SIGINFO''))
     (named linux_sa_flags ''SA_NODEFER'')) (named linux_sa_flags ''SA_RESTORER'')"
  "uint saFlags_darwin = or (or (named darwin_sa_flags ''SA_SIGINFO'') (named darwin_sa_flags ''SA_ONSTACK''))
     (named darwin_sa_flags ''SA_RESTART'')"
  by code_simp+

text \<open>
  The system call \<open>sigaction\<close> is a parameter: on a kernel state of type \<open>'k\<close> it takes a signal and its new action, and
  returns the old action, or \<open>None\<close> when it fails. \<open>sigaction_api\<close> is what its manual page says for signals that can be
  handled and pointers that are valid: it succeeds, returns the action that was installed and installs the new one, and
  leaves the other signals.
\<close>

type_synonym ('act, 'k) sigaction_call = "nat \<Rightarrow> 'act \<Rightarrow> 'k \<Rightarrow> 'act option \<times> 'k"

abbreviation "SIGSEGV \<equiv> (11 :: nat)"

abbreviation "darwin_SIGBUS \<equiv> (10 :: nat)"

definition sigaction_api :: "('k \<Rightarrow> nat \<Rightarrow> 'act) \<Rightarrow> ('act, 'k) sigaction_call \<Rightarrow> bool" where
  "sigaction_api action sys \<longleftrightarrow>
     (\<forall>sig \<in> {SIGSEGV, darwin_SIGBUS}. \<forall>act k. \<exists>k'. sys sig act k = (Some (action k sig), k') \<and> action k' = (action k)(sig := act))"

lemma sigaction_apiE:
  assumes "sigaction_api action sys" "sig = SIGSEGV \<or> sig = darwin_SIGBUS"
  obtains k' where "sys sig act k = (Some (action k sig), k')" "action k' = (action k)(sig := act)"
proof -
  have "\<exists>k'. sys sig act k = (Some (action k sig), k') \<and> action k' = (action k)(sig := act)"
    using assms unfolding sigaction_api_def by blast
  then show thesis using that by blast
qed

text \<open>
  The frame of \<open>setHandler\<close>: the loop that clears the struct eight bytes at a time, with the counter in a
  64-bit register, and the stores of the fields.
\<close>

definition clear_step :: "u64 \<times> nat \<times> u8 list \<Rightarrow> ((bool \<times> u64 \<times> nat \<times> u8 list) res) option" where
  "clear_step st =
     (case st of (cx, di, stk) \<Rightarrow>
        if cx = 0 then Some (Inr (False, cx, di, stk))
        else if di + 8 \<le> length stk then Some (Inr (True, cx - 8, di + 8, ctx_store di 0 stk))
        else Some (Inl WildAccess))"

definition clear_loop :: "nat \<Rightarrow> u8 list \<Rightarrow> (u8 list res) option" where
  "clear_loop n stk = bindO (loopR clear_step (of_nat n, 0, stk)) (\<lambda>(_, _, stk'). Some (Inr stk'))"

definition sa_at :: "string \<Rightarrow> nat" where
  "sa_at nm = offset_of linux_sigactiont nm"

definition sigactiont_of :: "u8 list \<Rightarrow> sigactiont" where
  "sigactiont_of bs =
     \<lparr>sa_handler = ctx_load (sa_at ''sa_handler'') bs, sa_flags = ctx_load (sa_at ''sa_flags'') bs,
      sa_restorer = ctx_load (sa_at ''sa_restorer'') bs, sa_mask = ctx_load (sa_at ''sa_mask'') bs\<rparr>"

definition sigaction_frame :: "u64 \<Rightarrow> u64 \<Rightarrow> u8 list \<Rightarrow> (u8 list res) option" where
  "sigaction_frame handler sigreturn stk =
     bindO (clear_loop (go_size linux_sigactiont) stk) (\<lambda>bs.
     Some (Inr (ctx_store (sa_at ''sa_mask'') (not 0) (ctx_store (sa_at ''sa_restorer'') sigreturn
       (ctx_store (sa_at ''sa_handler'') handler (ctx_store (sa_at ''sa_flags'') saFlags_linux bs))))))"

lemma clear_step_simps:
  "clear_step (0, di, stk) = Some (Inr (False, 0, di, stk))"
  "cx \<noteq> 0 \<Longrightarrow> di + 8 \<le> length stk \<Longrightarrow>
    clear_step (cx, di, stk) = Some (Inr (True, cx - 8, di + 8, ctx_store di 0 stk))"
  by (simp_all add: clear_step_def)

lemma clear_loop_32:
  assumes "32 \<le> length stk"
  shows "clear_loop 32 stk = Some (Inr (ctx_store 24 0 (ctx_store 16 0 (ctx_store 8 0 (ctx_store 0 0 stk)))))"
proof -
  have "loop_fuel (Suc (Suc (Suc (Suc (Suc 0))))) clear_step (32, 0, stk) =
      Some (Inr (0, 32, ctx_store 24 0 (ctx_store 16 0 (ctx_store 8 0 (ctx_store 0 0 stk)))))"
    using assms by (simp add: clear_step_simps)
  from loop_fuel_loopR [OF this] show ?thesis by (simp add: clear_loop_def)
qed

lemma sigaction_frame_action:
  assumes "32 \<le> length stk"
  obtains bs where "sigaction_frame handler sigreturn stk = Some (Inr bs)"
    "sigactiont_of bs = snapshot_sigaction handler sigreturn"
proof -
  have size: "go_size linux_sigactiont = 32" using linux_sizes by (simp add: linux_types_def)
  show thesis
    by (rule that, simp add: sigaction_frame_def size clear_loop_32 [OF assms])
      (use assms in \<open>simp add: sigactiont_of_def snapshot_sigaction_def sa_at_def linux_offsets
        ctx_load_store ctx_load_store_other\<close>)
qed

record 'k linux_signals =
  ls_kernel :: 'k
  ls_prevAction :: sigactiont
  ls_snapshotTid :: u32

text \<open>
  \<open>stk\<close> is the stack below the frame of \<open>setHandler\<close>. On linux the result of the call is not looked at; a call
  that fails stores no old action.
\<close>

definition setHandler_linux ::
  "(sigactiont, 'k) sigaction_call \<Rightarrow> u32 \<Rightarrow> u64 \<Rightarrow> u64 \<Rightarrow> u8 list \<Rightarrow> 'k linux_signals \<Rightarrow> ('k linux_signals res) option" where
  "setHandler_linux sys tid handler sigreturn stk st =
     bindO (sigaction_frame handler sigreturn stk) (\<lambda>bs.
     let (old, k) = sys SIGSEGV (sigactiont_of bs) (ls_kernel st) in
     Some (Inr (st\<lparr>ls_snapshotTid := tid, ls_kernel := k,
       ls_prevAction := (case old of None \<Rightarrow> ls_prevAction st | Some act \<Rightarrow> act)\<rparr>)))"

definition resetHandler_linux :: "(sigactiont, 'k) sigaction_call \<Rightarrow> 'k linux_signals \<Rightarrow> 'k linux_signals" where
  "resetHandler_linux sys st =
     (let (_, k) = sys SIGSEGV (ls_prevAction st) (ls_kernel st) in st\<lparr>ls_snapshotTid := 0, ls_kernel := k\<rparr>)"

record usigactiont =
  us_sigaction_u :: u64
  us_mask :: u32
  us_flags :: u32

record 'k darwin_signals =
  ds_kernel :: 'k
  ds_prevSigsegv :: usigactiont
  ds_prevSigbus :: usigactiont

definition darwin_action :: "u64 \<Rightarrow> usigactiont" where
  "darwin_action handler = \<lparr>us_sigaction_u = handler, us_mask = not 0, us_flags = saFlags_darwin\<rparr>"

text \<open>On darwin a failure of the call ends in \<open>notok\<close>, which stores through a nil pointer.\<close>

definition libc_sigaction :: "(usigactiont, 'k) sigaction_call \<Rightarrow> nat \<Rightarrow> usigactiont \<Rightarrow> 'k \<Rightarrow> (usigactiont \<times> 'k) res" where
  "libc_sigaction sys sig act k =
     (case sys sig act k of (None, k') \<Rightarrow> Inl NilDeref | (Some old, k') \<Rightarrow> Inr (old, k'))"

definition setHandler_darwin ::
  "(usigactiont, 'k) sigaction_call \<Rightarrow> u64 \<Rightarrow> 'k darwin_signals \<Rightarrow> 'k darwin_signals res" where
  "setHandler_darwin sys handler st =
     bindE (libc_sigaction sys SIGSEGV (darwin_action handler) (ds_kernel st)) (\<lambda>(segv, k1).
     bindE (libc_sigaction sys darwin_SIGBUS (darwin_action handler) k1) (\<lambda>(bus, k2).
     Inr (st\<lparr>ds_kernel := k2, ds_prevSigsegv := segv, ds_prevSigbus := bus\<rparr>)))"

definition resetHandler_darwin :: "(usigactiont, 'k) sigaction_call \<Rightarrow> 'k darwin_signals \<Rightarrow> 'k darwin_signals res" where
  "resetHandler_darwin sys st =
     bindE (libc_sigaction sys SIGSEGV (ds_prevSigsegv st) (ds_kernel st)) (\<lambda>(_, k1).
     bindE (libc_sigaction sys darwin_SIGBUS (ds_prevSigbus st) k1) (\<lambda>(_, k2).
     Inr (st\<lparr>ds_kernel := k2\<rparr>)))"

text \<open>Where the handler jumps when it passes a signal on: to the old handler of SIGSEGV, whatever the signal.\<close>

definition passthrough_linux :: "'k linux_signals \<Rightarrow> nat \<Rightarrow> u64" where
  "passthrough_linux st sig = sa_handler (ls_prevAction st)"

definition passthrough_darwin :: "'k darwin_signals \<Rightarrow> nat \<Rightarrow> u64" where
  "passthrough_darwin st sig = us_sigaction_u (ds_prevSigsegv st)"

lemma linux_actions:
  assumes "32 \<le> length stk" "sigaction_api action sys"
  shows "\<exists>st'. setHandler_linux sys tid handler sigreturn stk st = Some (Inr st') \<and>
      action (ls_kernel st') = (action (ls_kernel st))(SIGSEGV := snapshot_sigaction handler sigreturn) \<and>
      ls_snapshotTid st' = tid \<and> ls_prevAction st' = action (ls_kernel st) SIGSEGV \<and>
      action (ls_kernel (resetHandler_linux sys st')) = action (ls_kernel st) \<and>
      ls_snapshotTid (resetHandler_linux sys st') = 0"
proof -
  obtain bs where bs: "sigaction_frame handler sigreturn stk = Some (Inr bs)"
    "sigactiont_of bs = snapshot_sigaction handler sigreturn" by (rule sigaction_frame_action [OF assms(1)])
  obtain k1 where k1: "sys SIGSEGV (snapshot_sigaction handler sigreturn) (ls_kernel st) = (Some (action (ls_kernel st) SIGSEGV), k1)"
      "action k1 = (action (ls_kernel st))(SIGSEGV := snapshot_sigaction handler sigreturn)"
    by (rule sigaction_apiE [OF assms(2), of SIGSEGV "snapshot_sigaction handler sigreturn" "ls_kernel st"]) simp_all
  obtain k2 where k2: "sys SIGSEGV (action (ls_kernel st) SIGSEGV) k1 = (Some (action k1 SIGSEGV), k2)"
      "action k2 = (action k1)(SIGSEGV := action (ls_kernel st) SIGSEGV)"
    by (rule sigaction_apiE [OF assms(2), of SIGSEGV "action (ls_kernel st) SIGSEGV" k1]) simp_all
  show ?thesis
    by (simp add: setHandler_linux_def resetHandler_linux_def bs k1 k2 fun_upd_idem)
qed

lemma darwin_actions:
  assumes "sigaction_api action sys"
  shows "\<exists>dt' dt''. setHandler_darwin sys handler dt = Inr dt' \<and>
      action (ds_kernel dt') = (action (ds_kernel dt))(SIGSEGV := darwin_action handler, darwin_SIGBUS := darwin_action handler) \<and>
      ds_prevSigsegv dt' = action (ds_kernel dt) SIGSEGV \<and>
      resetHandler_darwin sys dt' = Inr dt'' \<and> action (ds_kernel dt'') = action (ds_kernel dt)"
proof -
  let ?k = "ds_kernel dt"
  obtain k1 where k1: "sys SIGSEGV (darwin_action handler) ?k = (Some (action ?k SIGSEGV), k1)"
      "action k1 = (action ?k)(SIGSEGV := darwin_action handler)"
    by (rule sigaction_apiE [OF assms, of SIGSEGV "darwin_action handler" ?k]) simp_all
  obtain k2 where k2: "sys darwin_SIGBUS (darwin_action handler) k1 = (Some (action ?k darwin_SIGBUS), k2)"
      "action k2 = (action k1)(darwin_SIGBUS := darwin_action handler)"
    by (rule sigaction_apiE [OF assms, of darwin_SIGBUS "darwin_action handler" k1]) (simp_all add: k1(2))
  obtain k3 where k3: "sys SIGSEGV (action ?k SIGSEGV) k2 = (Some (action k2 SIGSEGV), k3)"
      "action k3 = (action k2)(SIGSEGV := action ?k SIGSEGV)"
    by (rule sigaction_apiE [OF assms, of SIGSEGV "action ?k SIGSEGV" k2]) simp_all
  obtain k4 where k4: "sys darwin_SIGBUS (action ?k darwin_SIGBUS) k3 = (Some (action k3 darwin_SIGBUS), k4)"
      "action k4 = (action k3)(darwin_SIGBUS := action ?k darwin_SIGBUS)"
    by (rule sigaction_apiE [OF assms, of darwin_SIGBUS "action ?k darwin_SIGBUS" k3]) simp_all
  have "action k4 = action ?k" by (simp add: k1(2) k2(2) k3(2) k4(2) fun_eq_iff)
  then show ?thesis
    by (simp add: setHandler_darwin_def resetHandler_darwin_def libc_sigaction_def k1 k2 k3(1) k4(1))
qed

text \<open>
  C20. The signal actions around a snapshot, for every \<open>sigaction\<close> that does what its manual page says. On linux
  \<open>setHandler\<close> returns (its clearing loop ends) and has installed the handler for SIGSEGV, with the flags and the
  restorer of the code and all signals blocked, and no other action; while it is installed, what it passes on goes to
  the application's handler; and \<open>resetHandler\<close> puts all actions back and forgets the thread. On darwin both do the same for
  SIGSEGV and SIGBUS; but both signals are passed on to the application's handler of SIGSEGV.
\<close>

theorem signal_actions_restored:
  assumes "32 \<le> length stk" "sigaction_api action sys" "sigaction_api uaction usys"
  shows "(\<exists>st'. setHandler_linux sys tid handler sigreturn stk st = Some (Inr st') \<and>
      action (ls_kernel st') = (action (ls_kernel st))(SIGSEGV := snapshot_sigaction handler sigreturn) \<and>
      ls_snapshotTid st' = tid \<and> passthrough_linux st' SIGSEGV = sa_handler (action (ls_kernel st) SIGSEGV) \<and>
      action (ls_kernel (resetHandler_linux sys st')) = action (ls_kernel st) \<and>
      ls_snapshotTid (resetHandler_linux sys st') = 0) \<and>
    (\<exists>dt' dt''. setHandler_darwin usys handler dt = Inr dt' \<and>
      uaction (ds_kernel dt') = (uaction (ds_kernel dt))(SIGSEGV := darwin_action handler, darwin_SIGBUS := darwin_action handler) \<and>
      passthrough_darwin dt' SIGSEGV = us_sigaction_u (uaction (ds_kernel dt) SIGSEGV) \<and>
      passthrough_darwin dt' darwin_SIGBUS = us_sigaction_u (uaction (ds_kernel dt) SIGSEGV) \<and>
      resetHandler_darwin usys dt' = Inr dt'' \<and> uaction (ds_kernel dt'') = uaction (ds_kernel dt))"
  using linux_actions [OF assms(1,2), of tid handler sigreturn st] darwin_actions [OF assms(3), of handler dt]
  unfolding passthrough_linux_def passthrough_darwin_def by auto

definition default_action :: sigactiont where
  "default_action = \<lparr>sa_handler = 64, sa_flags = 0, sa_restorer = 0, sa_mask = 0\<rparr>"

text \<open>A kernel that keeps the actions in a table.\<close>

definition table_sigaction :: "('act, nat \<Rightarrow> 'act) sigaction_call" where
  "table_sigaction sig act k = (Some (k sig), k(sig := act))"

theorem signal_actions_restored_witness:
  "\<exists>st'. setHandler_linux table_sigaction 7 4096 8192 (replicate 32 255)
       \<lparr>ls_kernel = (\<lambda>_. default_action), ls_prevAction = default_action, ls_snapshotTid = 0\<rparr> = Some (Inr st') \<and>
     sa_handler (ls_kernel st' SIGSEGV) = 4096 \<and>
     ls_kernel (resetHandler_linux table_sigaction st') = (\<lambda>_. default_action)"
proof -
  have len: "(32 :: nat) \<le> length (replicate 32 (255 :: u8))" by simp
  have api: "sigaction_api id (table_sigaction :: (sigactiont, nat \<Rightarrow> sigactiont) sigaction_call)"
    "sigaction_api id (table_sigaction :: (usigactiont, nat \<Rightarrow> usigactiont) sigaction_call)"
    by (simp_all add: sigaction_api_def table_sigaction_def)
  from signal_actions_restored [OF len api, of 7 4096 8192
      "\<lparr>ls_kernel = (\<lambda>_. default_action), ls_prevAction = default_action, ls_snapshotTid = 0\<rparr>"
      "\<lparr>ds_kernel = (\<lambda>_. darwin_action 64), ds_prevSigsegv = darwin_action 64, ds_prevSigbus = darwin_action 64\<rparr>"]
  show ?thesis by (auto simp: snapshot_sigaction_def)
qed

end
