(* ===== verification/World_Calls.thy ===== *)
theory World_Calls
  imports Stop_The_World Kernel_Layout
begin

text \<open>
  How the world is stopped and started (\<open>go_1_20+1_21.go\<close>, \<open>go_1_22+1_23+1_24.go\<close> and \<open>go_1_25+.go\<close> in
  \<open>internal/stoptheworld\<close>): the runtime's functions are not exported, so the code calls them through
  function values that it builds itself. A function value of Go is a pointer to a word that holds the address
  of the code; \<open>&state.stopTheWorldAddr\<close> is made one. What the runtime's \<open>stopTheWorld\<close> returns is a parameter.
\<close>

subsection \<open>The reasons\<close>

datatype stwReason =
    stwUnknown | stwGCMarkTerm | stwGCSweepTerm | stwWriteHeapDump | stwGoroutineProfile
  | stwGoroutineProfileCleanup | stwAllGoroutinesStack | stwReadMemStats | stwAllThreadsSyscall | stwGOMAXPROCS
  | stwStartTrace | stwStopTrace | stwForTestCountPagesInUse | stwForTestReadMetricsSlow
  | stwForTestReadMemStatsSlow | stwForTestPageCachePagesLeaked | stwForTestResetDebugLog

definition stwReasons :: "stwReason list" where
  "stwReasons =
     [stwUnknown, stwGCMarkTerm, stwGCSweepTerm, stwWriteHeapDump, stwGoroutineProfile,
      stwGoroutineProfileCleanup, stwAllGoroutinesStack, stwReadMemStats, stwAllThreadsSyscall, stwGOMAXPROCS,
      stwStartTrace, stwStopTrace, stwForTestCountPagesInUse, stwForTestReadMetricsSlow,
      stwForTestReadMemStatsSlow, stwForTestPageCachePagesLeaked, stwForTestResetDebugLog]"

text \<open>The value of the constants as \<open>int8\<close>; from Go 1.25 on there is only one, whose value is 0.\<close>

definition stw_num :: "go_version \<Rightarrow> stwReason \<Rightarrow> 8 word" where
  "stw_num v r = (if v = Go_1_25_up then 0 else of_nat (length (takeWhile (\<lambda>x. x \<noteq> r) stwReasons)))"

record worldStop =
  ws_reason :: "8 word"
  ws_start :: u64

subsection \<open>Function values\<close>

text \<open>
  The globals of the package: the address of \<open>state\<close>, and what the two function variables hold. A load of
  a word of \<open>state\<close> gives the address stored there; other addresses are not functions.
\<close>

record world_vars =
  wv_state :: u64
  wv_stopTheWorldImpl :: u64
  wv_startTheWorldImpl :: u64

definition stop_field :: "world_vars \<Rightarrow> u64" where
  "stop_field w = wv_state w + of_nat (offset_of (signalState_type linux_sigactiont) ''stopTheWorldAddr'')"

definition start_field :: "world_vars \<Rightarrow> u64" where
  "start_field w = wv_state w + of_nat (offset_of (signalState_type linux_sigactiont) ''startTheWorldAddr'')"

definition code_of_func :: "signalState \<Rightarrow> world_vars \<Rightarrow> u64 \<Rightarrow> u64 res" where
  "code_of_func s w f =
     (if f = 0 then Inl NilDeref
      else if f = stop_field w then Inr (ss_stopTheWorldAddr s)
      else if f = start_field w then Inr (ss_startTheWorldAddr s)
      else Inl SegFault)"

text \<open>A call of the runtime: the address and the argument. \<open>startTheWorld\<close> has one from Go 1.22 on.\<close>

datatype world_call = CallStop u64 "8 word" | CallStart u64 "worldStop option"

definition zero_worldStop :: worldStop where
  "zero_worldStop = \<lparr>ws_reason = 0, ws_start = 0\<rparr>"

text \<open>\<open>rt\<close> is what the runtime's \<open>stopTheWorld\<close> returns for a reason; the result has the calls made.\<close>

definition stopTheWorld_20 :: "8 word \<Rightarrow> signalState \<Rightarrow> world_vars \<Rightarrow> ((worldStop \<times> world_vars) \<times> world_call list) res" where
  "stopTheWorld_20 reason s w =
     (let w1 = w\<lparr>wv_stopTheWorldImpl := stop_field w\<rparr> in
      bindE (code_of_func s w1 (wv_stopTheWorldImpl w1)) (\<lambda>pc. Inr ((zero_worldStop, w1), [CallStop pc reason])))"

definition startTheWorld_20 :: "worldStop \<Rightarrow> signalState \<Rightarrow> world_vars \<Rightarrow> (world_vars \<times> world_call list) res" where
  "startTheWorld_20 ws s w =
     (let w1 = w\<lparr>wv_startTheWorldImpl := start_field w\<rparr> in
      bindE (code_of_func s w1 (wv_startTheWorldImpl w1)) (\<lambda>pc. Inr (w1, [CallStart pc None])))"

definition stopTheWorld_22 ::
  "(8 word \<Rightarrow> worldStop) \<Rightarrow> 8 word \<Rightarrow> signalState \<Rightarrow> world_vars \<Rightarrow> ((worldStop \<times> world_vars) \<times> world_call list) res" where
  "stopTheWorld_22 rt reason s w =
     (let w1 = w\<lparr>wv_stopTheWorldImpl := stop_field w\<rparr> in
      bindE (code_of_func s w1 (wv_stopTheWorldImpl w1)) (\<lambda>pc. Inr ((rt reason, w1), [CallStop pc reason])))"

definition startTheWorld_22 :: "worldStop \<Rightarrow> signalState \<Rightarrow> world_vars \<Rightarrow> (world_vars \<times> world_call list) res" where
  "startTheWorld_22 ws s w =
     (let w1 = w\<lparr>wv_startTheWorldImpl := start_field w\<rparr> in
      bindE (code_of_func s w1 (wv_startTheWorldImpl w1)) (\<lambda>pc. Inr (w1, [CallStart pc (Some ws)])))"

definition stopTheWorld_25 :: "8 word \<Rightarrow> world_vars \<Rightarrow> ((worldStop \<times> world_vars) \<times> world_call list) res" where
  "stopTheWorld_25 reason w = Inr ((zero_worldStop, w), [])"

definition startTheWorld_25 :: "worldStop \<Rightarrow> world_vars \<Rightarrow> (world_vars \<times> world_call list) res" where
  "startTheWorld_25 ws w = Inr (w, [])"

text \<open>The build tags choose one of them.\<close>

definition stopTheWorld_code ::
  "go_version \<Rightarrow> (8 word \<Rightarrow> worldStop) \<Rightarrow> 8 word \<Rightarrow> signalState \<Rightarrow> world_vars \<Rightarrow>
    ((worldStop \<times> world_vars) \<times> world_call list) res" where
  "stopTheWorld_code v rt reason s w =
     (case v of Go_1_20_to_1_21 \<Rightarrow> stopTheWorld_20 reason s w
      | Go_1_22_to_1_24 \<Rightarrow> stopTheWorld_22 rt reason s w | Go_1_25_up \<Rightarrow> stopTheWorld_25 reason w)"

definition startTheWorld_code ::
  "go_version \<Rightarrow> worldStop \<Rightarrow> signalState \<Rightarrow> world_vars \<Rightarrow> (world_vars \<times> world_call list) res" where
  "startTheWorld_code v ws s w =
     (case v of Go_1_20_to_1_21 \<Rightarrow> startTheWorld_20 ws s w
      | Go_1_22_to_1_24 \<Rightarrow> startTheWorld_22 ws s w | Go_1_25_up \<Rightarrow> startTheWorld_25 ws w)"

lemmas world_codes =
  stopTheWorld_code_def startTheWorld_code_def stopTheWorld_20_def startTheWorld_20_def stopTheWorld_22_def
  startTheWorld_22_def stopTheWorld_25_def startTheWorld_25_def

subsection \<open>The calls of \<open>StopTheWorld\<close>\<close>

text \<open>
  The calls that \<open>StopTheWorld\<close> makes until it returns or the process ends: the first in the state that
  \<open>stw_enter\<close> has set up, the second deferred, in the state that the body leaves, after \<open>clearRecoveryState\<close> and
  before \<open>resetHandler\<close> and \<open>clearConfig\<close>. The deferred calls run when the wrapper returns, and for a panic only
  when the world was not stopped.
\<close>

fun runs_deferred :: "body_end \<Rightarrow> process \<Rightarrow> bool" where
  "runs_deferred Returned pr = True"
| "runs_deferred Recovered pr = True"
| "runs_deferred (Panicked e) pr = (\<not> pr_worldStopped pr)"
| "runs_deferred Corrupted pr = False"

definition StopTheWorld_calls ::
  "os_arch \<Rightarrow> go_version \<Rightarrow> (8 word \<Rightarrow> worldStop) \<Rightarrow> u64 \<Rightarrow> u32 \<Rightarrow> u64 \<Rightarrow> u64 \<Rightarrow> RuntimeConfig \<Rightarrow>
   (process \<Rightarrow> 's \<Rightarrow> body_end \<times> 's) \<Rightarrow> process \<Rightarrow> 's \<Rightarrow> world_vars \<Rightarrow> (world_vars \<times> world_call list) res" where
  "StopTheWorld_calls pl v rt dereferenceAddr tid g off config f pr s w =
     (let pr1 = stw_enter pl v dereferenceAddr tid config pr in
      bindE (stopTheWorld_code v rt (stw_num v stwStartTrace) (pr_state pr1) w) (\<lambda>((ws, w1), calls).
      let (fin, pr2, s') = stopTheWorldWrapper g off f pr1 s;
          pr3 = upd_state clearRecoveryState pr2
      in if runs_deferred fin pr2 then
           bindE (startTheWorld_code v ws (pr_state pr3) w1) (\<lambda>(w2, calls'). Inr (w2, calls @ calls'))
         else Inr (w1, calls)))"

lemma field_offsets:
  "offset_of (signalState_type linux_sigactiont) ''stopTheWorldAddr'' = 88"
  "offset_of (signalState_type linux_sigactiont) ''startTheWorldAddr'' = 96"
  "offset_of (signalState_type darwin_sigaction) ''stopTheWorldAddr'' = 88"
  "offset_of (signalState_type darwin_sigaction) ''startTheWorldAddr'' = 96"
  by code_simp+

lemma fields: "stop_field w = wv_state w + 88" "start_field w = wv_state w + 96" "start_field w \<noteq> stop_field w"
  by (simp_all add: stop_field_def start_field_def field_offsets)

lemma stw_num_values: "stw_num Go_1_20_to_1_21 stwStartTrace = 10" "stw_num Go_1_22_to_1_24 stwStartTrace = 10"
  "stw_num Go_1_25_up stwStartTrace = 0"
  by code_simp+

lemma code_of_fields:
  assumes "wv_state w + 88 \<noteq> 0" "wv_state w + 96 \<noteq> 0"
  shows "code_of_func s w (stop_field w) = Inr (ss_stopTheWorldAddr s)"
    "code_of_func s w (start_field w) = Inr (ss_startTheWorldAddr s)"
  using assms by (simp_all add: code_of_func_def fields)

text \<open>The addresses that the body cannot change are those of the configuration, moved with the text section.\<close>

lemma stw_addresses:
  fixes f :: "process \<Rightarrow> 's \<Rightarrow> body_end \<times> 's"
  defines "moved a config addr \<equiv> a config + (addr - rc_DereferenceStartPc config)"
  shows "ss_stopTheWorldAddr (pr_state (stw_enter pl v addr tid config pr)) = moved rc_StopTheWorldStartAddr config addr"
    and "ss_startTheWorldAddr (pr_state (upd_state clearRecoveryState
        (setRecoveryState g off (stw_enter pl v addr tid config pr)))) = moved rc_StartTheWorldStartAddr config addr"
  by (cases v; cases pl; auto simp: stw_defs ComputeTextSectionBaseOffset_def moved_def Let_def split: prod.splits)+

lemma StopTheWorld_runs:
  assumes "v \<noteq> Go_1_25_up" "f (setRecoveryState g off (stw_enter pl v addr tid config pr)) s = (fin, s')"
  shows "(\<exists>pr'. fst (snd (StopTheWorld pl v addr tid g off config f pr s)) = Runs pr') \<longleftrightarrow> fin \<in> {Returned, Recovered}"
  using assms by (cases fin) (auto simp: StopTheWorld_def stopTheWorldWrapper_def Let_def stw_stopped)

lemma wrapper_deferred:
  assumes "v \<noteq> Go_1_25_up"
  shows "runs_deferred fin (setRecoveryState g off (stw_enter pl v addr tid config pr)) \<longleftrightarrow> fin \<in> {Returned, Recovered}"
  using assms by (cases fin) (auto simp: stw_stopped)



end
