(* ===== verification/Wrapped_Conn.thy ===== *)
theory Wrapped_Conn
  imports Server_Dial
begin

text \<open>
  The connection that the listener hands out (\<open>wrappedConn\<close> in \<open>internal/serverdial/server_dial.go\<close>), as gRPC uses
  it: every method of \<open>net.Conn\<close> forwards to the connection that was dialed, only \<open>Close\<close> runs once and closes
  the channel that makes the listener dial again. The dialed connection is a parameter.
\<close>

datatype 'e conn_result =
    AddrResult string
  | ReadResult "u8 list" "'e option"
  | WriteResult nat "'e option"
  | ErrResult "'e option"

text \<open>The methods of \<open>net.Conn\<close>; a deadline is a number of nanoseconds.\<close>

record ('c, 'e) net_conn =
  nc_LocalAddr :: "'c \<Rightarrow> string"
  nc_RemoteAddr :: "'c \<Rightarrow> string"
  nc_Read :: "nat \<Rightarrow> 'c \<Rightarrow> (u8 list \<times> 'e option) \<times> 'c"
  nc_Write :: "u8 list \<Rightarrow> 'c \<Rightarrow> (nat \<times> 'e option) \<times> 'c"
  nc_SetDeadline :: "int \<Rightarrow> 'c \<Rightarrow> 'e option \<times> 'c"
  nc_SetReadDeadline :: "int \<Rightarrow> 'c \<Rightarrow> 'e option \<times> 'c"
  nc_SetWriteDeadline :: "int \<Rightarrow> 'c \<Rightarrow> 'e option \<times> 'c"
  nc_Close :: "'c \<Rightarrow> 'e option \<times> 'c"

record ('c, 'e) wrapper =
  wr_c :: 'c
  wr_closeOnce :: bool
  wr_onClose :: bool
  wr_closeErr :: "'e option"

definition wrap :: "'c \<Rightarrow> ('c, 'e) wrapper" where
  "wrap c = \<lparr>wr_c = c, wr_closeOnce = False, wr_onClose = False, wr_closeErr = None\<rparr>"

definition wrapped_LocalAddr :: "('c, 'e) net_conn \<Rightarrow> ('c, 'e) wrapper \<Rightarrow> string" where
  "wrapped_LocalAddr nc w = nc_LocalAddr nc (wr_c w)"

definition wrapped_Read :: "('c, 'e) net_conn \<Rightarrow> nat \<Rightarrow> ('c, 'e) wrapper \<Rightarrow> (u8 list \<times> 'e option) \<times> ('c, 'e) wrapper" where
  "wrapped_Read nc n w = (let (r, c) = nc_Read nc n (wr_c w) in (r, w\<lparr>wr_c := c\<rparr>))"

definition wrapped_RemoteAddr :: "('c, 'e) net_conn \<Rightarrow> ('c, 'e) wrapper \<Rightarrow> string" where
  "wrapped_RemoteAddr nc w = nc_RemoteAddr nc (wr_c w)"

definition wrapped_SetDeadline :: "('c, 'e) net_conn \<Rightarrow> int \<Rightarrow> ('c, 'e) wrapper \<Rightarrow> 'e option \<times> ('c, 'e) wrapper" where
  "wrapped_SetDeadline nc t w = (let (e, c) = nc_SetDeadline nc t (wr_c w) in (e, w\<lparr>wr_c := c\<rparr>))"

definition wrapped_SetReadDeadline :: "('c, 'e) net_conn \<Rightarrow> int \<Rightarrow> ('c, 'e) wrapper \<Rightarrow> 'e option \<times> ('c, 'e) wrapper" where
  "wrapped_SetReadDeadline nc t w = (let (e, c) = nc_SetReadDeadline nc t (wr_c w) in (e, w\<lparr>wr_c := c\<rparr>))"

definition wrapped_SetWriteDeadline :: "('c, 'e) net_conn \<Rightarrow> int \<Rightarrow> ('c, 'e) wrapper \<Rightarrow> 'e option \<times> ('c, 'e) wrapper" where
  "wrapped_SetWriteDeadline nc t w = (let (e, c) = nc_SetWriteDeadline nc t (wr_c w) in (e, w\<lparr>wr_c := c\<rparr>))"

definition wrapped_Write :: "('c, 'e) net_conn \<Rightarrow> u8 list \<Rightarrow> ('c, 'e) wrapper \<Rightarrow> (nat \<times> 'e option) \<times> ('c, 'e) wrapper" where
  "wrapped_Write nc b w = (let (r, c) = nc_Write nc b (wr_c w) in (r, w\<lparr>wr_c := c\<rparr>))"

text \<open>Closing a channel twice panics: \<open>None\<close>.\<close>

definition close_onClose :: "('c, 'e) wrapper \<Rightarrow> ('c, 'e) wrapper option" where
  "close_onClose w = (if wr_onClose w then None else Some (w\<lparr>wr_onClose := True\<rparr>))"

definition wrapped_Close :: "('c, 'e) net_conn \<Rightarrow> ('c, 'e) wrapper \<Rightarrow> ('e option \<times> ('c, 'e) wrapper) option" where
  "wrapped_Close nc w =
     (if wr_closeOnce w then Some (wr_closeErr w, w)
      else
        (let (e, c) = nc_Close nc (wr_c w)
         in case close_onClose (w\<lparr>wr_closeOnce := True, wr_c := c, wr_closeErr := e\<rparr>) of
              None \<Rightarrow> None
            | Some w \<Rightarrow> Some (wr_closeErr w, w)))"

subsection \<open>Sequences of calls\<close>

datatype conn_call =
    LocalAddr | RemoteAddr | ReadCall nat | WriteCall "u8 list"
  | SetDeadline int | SetReadDeadline int | SetWriteDeadline int | CloseConn

fun dialed_call :: "('c, 'e) net_conn \<Rightarrow> conn_call \<Rightarrow> 'c \<Rightarrow> 'e conn_result \<times> 'c" where
  "dialed_call nc LocalAddr c = (AddrResult (nc_LocalAddr nc c), c)"
| "dialed_call nc RemoteAddr c = (AddrResult (nc_RemoteAddr nc c), c)"
| "dialed_call nc (ReadCall n) c = (let ((b, e), c) = nc_Read nc n c in (ReadResult b e, c))"
| "dialed_call nc (WriteCall b) c = (let ((n, e), c) = nc_Write nc b c in (WriteResult n e, c))"
| "dialed_call nc (SetDeadline t) c = (let (e, c) = nc_SetDeadline nc t c in (ErrResult e, c))"
| "dialed_call nc (SetReadDeadline t) c = (let (e, c) = nc_SetReadDeadline nc t c in (ErrResult e, c))"
| "dialed_call nc (SetWriteDeadline t) c = (let (e, c) = nc_SetWriteDeadline nc t c in (ErrResult e, c))"
| "dialed_call nc CloseConn c = (let (e, c) = nc_Close nc c in (ErrResult e, c))"

fun wrapped_call :: "('c, 'e) net_conn \<Rightarrow> conn_call \<Rightarrow> ('c, 'e) wrapper \<Rightarrow> ('e conn_result \<times> ('c, 'e) wrapper) option" where
  "wrapped_call nc LocalAddr w = Some (AddrResult (wrapped_LocalAddr nc w), w)"
| "wrapped_call nc RemoteAddr w = Some (AddrResult (wrapped_RemoteAddr nc w), w)"
| "wrapped_call nc (ReadCall n) w = (let ((b, e), w) = wrapped_Read nc n w in Some (ReadResult b e, w))"
| "wrapped_call nc (WriteCall b) w = (let ((n, e), w) = wrapped_Write nc b w in Some (WriteResult n e, w))"
| "wrapped_call nc (SetDeadline t) w = (let (e, w) = wrapped_SetDeadline nc t w in Some (ErrResult e, w))"
| "wrapped_call nc (SetReadDeadline t) w = (let (e, w) = wrapped_SetReadDeadline nc t w in Some (ErrResult e, w))"
| "wrapped_call nc (SetWriteDeadline t) w = (let (e, w) = wrapped_SetWriteDeadline nc t w in Some (ErrResult e, w))"
| "wrapped_call nc CloseConn w = map_option (\<lambda>(e, w). (ErrResult e, w)) (wrapped_Close nc w)"

fun dialed_calls :: "('c, 'e) net_conn \<Rightarrow> conn_call list \<Rightarrow> 'c \<Rightarrow> 'e conn_result list \<times> 'c" where
  "dialed_calls nc [] c = ([], c)"
| "dialed_calls nc (op # ops) c =
     (let (r, c1) = dialed_call nc op c; (rs, c2) = dialed_calls nc ops c1 in (r # rs, c2))"

fun wrapped_calls :: "('c, 'e) net_conn \<Rightarrow> conn_call list \<Rightarrow> ('c, 'e) wrapper \<Rightarrow> ('e conn_result list \<times> ('c, 'e) wrapper) option" where
  "wrapped_calls nc [] w = Some ([], w)"
| "wrapped_calls nc (op # ops) w =
     (case wrapped_call nc op w of
        None \<Rightarrow> None
      | Some (r, w1) \<Rightarrow> map_option (\<lambda>(rs, w2). (r # rs, w2)) (wrapped_calls nc ops w1))"

text \<open>
  The specification: the calls of \<open>Close\<close> after the first do not reach the dialed connection and give what
  the first gave.
\<close>

fun close_once :: "bool \<Rightarrow> conn_call list \<Rightarrow> conn_call list" where
  "close_once closed [] = []"
| "close_once closed (op # ops) =
     (if op = CloseConn \<and> closed then close_once closed ops else op # close_once (closed \<or> op = CloseConn) ops)"

text \<open>The results of all calls, from those of the calls that reach the connection.\<close>

fun all_results :: "'e conn_result option \<Rightarrow> conn_call list \<Rightarrow> 'e conn_result list \<Rightarrow> 'e conn_result list" where
  "all_results first [] rs = []"
| "all_results first (op # ops) rs =
     (if op = CloseConn \<and> first \<noteq> None then the first # all_results first ops rs
      else hd rs # all_results (if op = CloseConn then Some (hd rs) else first) ops (tl rs))"

lemma wrapped_forward:
  "op \<noteq> CloseConn \<Longrightarrow>
     wrapped_call nc op w = (let (r, c) = dialed_call nc op (wr_c w) in Some (r, w\<lparr>wr_c := c\<rparr>))"
  by (cases op)
    (simp_all add: wrapped_LocalAddr_def wrapped_RemoteAddr_def wrapped_Read_def wrapped_Write_def wrapped_SetDeadline_def
      wrapped_SetReadDeadline_def wrapped_SetWriteDeadline_def Let_def split: prod.splits)

definition wrapper_inv :: "('c, 'e) wrapper \<Rightarrow> bool" where
  "wrapper_inv w \<longleftrightarrow> wr_closeOnce w = wr_onClose w"

lemma wrapped_close:
  assumes "wrapper_inv w"
  shows "wrapped_call nc CloseConn w =
    (if wr_closeOnce w then Some (ErrResult (wr_closeErr w), w)
     else (let (e, c) = nc_Close nc (wr_c w)
           in Some (ErrResult e, w\<lparr>wr_closeOnce := True, wr_onClose := True, wr_c := c, wr_closeErr := e\<rparr>)))"
  using assms by (simp add: wrapped_Close_def close_onClose_def wrapper_inv_def Let_def split: prod.splits)

lemma wrapped_calls_spec:
  assumes "wrapper_inv w" "dialed_calls nc (close_once (wr_closeOnce w) ops) (wr_c w) = (rs, c)"
  shows "\<exists>w'. wrapped_calls nc ops w =
      Some (all_results (if wr_closeOnce w then Some (ErrResult (wr_closeErr w)) else None) ops rs, w') \<and>
    wrapper_inv w' \<and> wr_c w' = c \<and> (wr_onClose w' \<longleftrightarrow> wr_closeOnce w \<or> CloseConn \<in> set ops)"
  using assms
proof (induction ops arbitrary: w rs)
  case Nil
  then show ?case by (simp add: wrapper_inv_def)
next
  case (Cons op ops)
  consider "op \<noteq> CloseConn" | "op = CloseConn" "wr_closeOnce w" | "op = CloseConn" "\<not> wr_closeOnce w" by blast
  then show ?case
  proof cases
    case 1
    obtain r c1 where d: "dialed_call nc op (wr_c w) = (r, c1)" by fastforce
    let ?w = "w\<lparr>wr_c := c1\<rparr>"
    from Cons.prems(2) 1 d obtain rs1 where r: "dialed_calls nc (close_once (wr_closeOnce ?w) ops) (wr_c ?w) = (rs1, c)"
        "rs = r # rs1"
      by (auto simp: Let_def split: prod.splits)
    have "wrapper_inv ?w" using Cons.prems(1) by (simp add: wrapper_inv_def)
    from Cons.IH [OF this r(1)] 1 show ?thesis
      by (auto simp: wrapped_forward [OF 1] d r(2))
  next
    case 2
    with Cons.IH [of w rs] Cons.prems show ?thesis by (auto simp: wrapped_close simp del: wrapped_call.simps)
  next
    case 3
    obtain e c1 where d: "nc_Close nc (wr_c w) = (e, c1)" by fastforce
    let ?w = "w\<lparr>wr_closeOnce := True, wr_onClose := True, wr_c := c1, wr_closeErr := e\<rparr>"
    from Cons.prems(2) 3 d obtain rs1 where r: "dialed_calls nc (close_once (wr_closeOnce ?w) ops) (wr_c ?w) = (rs1, c)"
        "rs = ErrResult e # rs1"
      by (auto simp: Let_def split: prod.splits)
    have "wrapper_inv ?w" by (simp add: wrapper_inv_def)
    from Cons.IH [OF this r(1)] 3 Cons.prems(1) show ?thesis
      by (auto simp: wrapped_close d r(2) simp del: wrapped_call.simps)
  qed
qed

text \<open>
  To its user a connection of the listener is the dialed connection with a \<open>Close\<close> that works once: for every
  sequence of calls the dialed connection sees the same calls without the later ones of \<open>Close\<close>, their results are
  the results of the user, and a later \<open>Close\<close> gives the error of the first. The channel that makes the listener
  dial again is closed exactly when \<open>Close\<close> was called, and never twice, so there is no panic.
\<close>

theorem wrappedConn_refines_conn:
  "let (rs, c') = dialed_calls nc (close_once False ops) c
   in \<exists>w. wrapped_calls nc ops (wrap c) = Some (all_results None ops rs, w) \<and> wr_c w = c' \<and>
        (wr_onClose w \<longleftrightarrow> CloseConn \<in> set ops)"
  using wrapped_calls_spec [of "wrap c" nc ops] by (auto simp: wrap_def wrapper_inv_def)

end
