(* ===== verification/Config_Page.thy ===== *)
theory Config_Page
  imports Side_Eye
begin

text \<open>
  The text of the configuration page (\<open>configPageTemplate\<close> in \<open>sideeye/http_handler.go\<close>): the nodes of the
  template, their execution with the contextual escaping of \<open>html/template\<close>, and what a browser reads back.
  Strings are sequences of bytes, in UTF-8.
\<close>

subsection \<open>Escaping\<close>

text \<open>
  The table of \<open>html/template\<close>, used for text and for quoted attributes: it replaces ASCII characters only,
  so it works byte by byte. A NUL is replaced by U+FFFD.
\<close>

definition html_char :: "char \<Rightarrow> string" where
  "html_char c =
     (if c = CHR 0x00 then [CHR 0xEF, CHR 0xBF, CHR 0xBD]
      else if c = CHR 0x22 then ''&#34;'' else if c = CHR 0x26 then ''&amp;'' else if c = CHR 0x27 then ''&#39;''
      else if c = CHR 0x2B then ''&#43;'' else if c = CHR 0x3C then ''&lt;'' else if c = CHR 0x3E then ''&gt;''
      else [c])"

definition html_escape :: "string \<Rightarrow> string" where
  "html_escape s = concat (map html_char s)"

subsection \<open>The template\<close>

datatype page_node =
    Markup string
  | Action "templateData \<Rightarrow> string"
  | StyleAction "templateData \<Rightarrow> string"
  | Cond "templateData \<Rightarrow> bool" "page_node list"

text \<open>
  The action in the \<open>style\<close> attribute passes the filter for values of CSS properties first, which keeps words
  of letters; the colors of \<open>ConnColor\<close> are such words (\<open>ConnColor_letters\<close>).
\<close>

fun execute :: "templateData \<Rightarrow> page_node \<Rightarrow> string" where
  "execute td (Markup s) = s"
| "execute td (Action f) = html_escape (f td)"
| "execute td (StyleAction f) = html_escape (f td)"
| "execute td (Cond b ns) = (if b td then concat (map (execute td) ns) else [])"

definition ln :: "nat \<Rightarrow> string \<Rightarrow> string" where
  "ln n s = replicate n CHR 0x09 @ s @ [CHR 0x0A]"

definition page_head :: string where
  "page_head = concat
     [ln 0 '''', ln 0 ''<html>'', ln 0 ''<head>'', ln 1 ''<title>Side-Eye configuration</title>'', ln 1 ''<style>'',
      ln 1 ''.circle {'', ln 2 ''height: 21px;'', ln 2 ''width: 21px;'', ln 2 ''border-radius: 50%;'',
      ln 2 ''display: inline-block;'', ln 1 ''}'', ln 1 ''</style>'', ln 0 ''</head>'', ln 0 ''<body>'',
      ln 0 ''<h1>Side-Eye configuration</h1>'']"

definition error_open :: string where
  "error_open = ln 0 '''' @ ln 0 ''<p>'' @ replicate 1 CHR 0x09 @ ''<span style=\"color:red\">''"

definition error_close :: string where
  "error_close = ln 0 ''</span>'' @ ln 0 ''</p>''"

definition page_error :: "page_node list" where
  "page_error = [Markup error_open, Action td_ErrMsg, Markup error_close]"

definition page_status :: string where
  "page_status = concat
     [ln 0 '''', ln 0 ''<form action=\"\" method=\"POST\">'', ln 1 ''<div style=\"'', ln 2 ''display:grid;'', ln 2 ''gap:3px;'',
      ln 2 ''grid-template-columns: 9em 20em;'', ln 2 ''margin-bottom: 10px;\"'', ln 2 ''>'',
      ln 2 ''<div>Connection status:</div>'',
      ln 2 ''<div style=\"display:flex; flex-direction:row; align-items:center; gap:3px\">'',
      replicate 3 CHR 0x09 @ ''<div class=\"circle\" style=\"background-color:'']"

definition status_open :: string where
  "status_open = ln 0 '';\"></div>'' @ replicate 3 CHR 0x09 @ ''<span>''"

definition page_token :: string where
  "page_token = concat
     [ln 0 ''</span>'', ln 2 ''</div>'', ln 2 ''<div>Side-Eye token:</div>'',
      replicate 2 CHR 0x09 @ ''<input type=\"text\" name=\"token\" value=\"'']"

definition page_env :: string where
  "page_env = concat
     [ln 0 ''\"/>'', ln 2 ''<div>Environment:</div>'', replicate 2 CHR 0x09 @ ''<input type=\"text\" name=\"env\" value=\"'']"

definition page_program :: string where
  "page_program = concat
     [ln 0 ''\"/>'', ln 2 ''<div>Program name:</div>'',
      replicate 2 CHR 0x09 @ ''<input type=\"text\" name=\"programName\" value=\"'']"

definition page_buttons :: string where
  "page_buttons = concat
     [ln 0 ''\"/>'', ln 1 ''</div>'', ln 1 ''<input type=\"submit\" value=\"Reconnect\" name=\"connect\"/>'',
      replicate 1 CHR 0x09 @ ''<input type=\"submit\" value=\"Disconnect\" name=\"disconnect\" '']"

definition page_end :: string where
  "page_end = concat [ln 0 ''/>'', ln 0 ''</form>'', ln 0 ''</body>'', ln 0 ''</html>'']"

definition configPageTemplate :: "page_node list" where
  "configPageTemplate =
     [Markup page_head,
      Cond (\<lambda>td. td_ErrMsg td \<noteq> '''') page_error,
      Markup page_status, StyleAction ConnColor,
      Markup status_open, Action ConnStatus,
      Markup page_token, Action td_Token,
      Markup page_env, Action td_Env,
      Markup page_program, Action td_Program,
      Markup page_buttons, Cond (\<lambda>td. \<not> DisconnectEnabled td) [Markup '' disabled ''],
      Markup page_end]"

definition config_page :: "templateData \<Rightarrow> string" where
  "config_page td = concat (map (execute td) configPageTemplate)"

subsection \<open>What a browser reads back\<close>

text \<open>
  The attributes of a page as pairs of a name and the text between the quotes, in order: outside of quotes the
  last word before a quote is the name with the equals sign.
\<close>

datatype scan_state = InMarkup string | InValue string string

definition blank :: "char \<Rightarrow> bool" where
  "blank c \<longleftrightarrow> c \<in> {CHR 0x20, CHR 0x09, CHR 0x0A}"

fun scan_char :: "char \<Rightarrow> scan_state \<times> (string \<times> string) list \<Rightarrow> scan_state \<times> (string \<times> string) list" where
  "scan_char c (InMarkup w, out) =
     (if c = CHR 0x22 then (InValue (butlast w) [], out)
      else if blank c then (InMarkup [], out) else (InMarkup (w @ [c]), out))"
| "scan_char c (InValue n v, out) =
     (if c = CHR 0x22 then (InMarkup [], out @ [(n, v)]) else (InValue n (v @ [c]), out))"

definition attributes :: "string \<Rightarrow> (string \<times> string) list" where
  "attributes s = snd (fold scan_char s (InMarkup [], []))"

text \<open>The values of the character references that the page can hold.\<close>

definition entities :: "(string \<times> char) list" where
  "entities = [(''&#34;'', CHR 0x22), (''&amp;'', CHR 0x26), (''&#39;'', CHR 0x27), (''&#43;'', CHR 0x2B),
     (''&lt;'', CHR 0x3C), (''&gt;'', CHR 0x3E)]"

function html_unescape :: "string \<Rightarrow> string" where
  "html_unescape [] = []"
| "html_unescape (c # cs) =
     (case find (\<lambda>(e, _). take (length e) (c # cs) = e) entities of
        None \<Rightarrow> c # html_unescape cs
      | Some (e, d) \<Rightarrow> d # html_unescape (drop (length e - 1) cs))"
  by pat_completeness auto
termination by (relation "measure length") auto

definition shown :: "string \<Rightarrow> string" where
  "shown s = concat (map (\<lambda>c. if c = CHR 0x00 then [CHR 0xEF, CHR 0xBF, CHR 0xBD] else [c]) s)"

lemma shown_same: "CHR 0x00 \<notin> set s \<Longrightarrow> shown s = s"
  by (induction s) (auto simp: shown_def)

lemma html_char_cases:
  obtains "c = CHR 0x00" | "c \<in> {CHR 0x22, CHR 0x26, CHR 0x27, CHR 0x2B, CHR 0x3C, CHR 0x3E}"
  | "c \<noteq> CHR 0x00" "c \<noteq> CHR 0x26" "html_char c = [c]"
  by (cases "c \<in> {CHR 0x00, CHR 0x22, CHR 0x26, CHR 0x27, CHR 0x2B, CHR 0x3C, CHR 0x3E}")
    (auto simp: html_char_def)

lemma find_entity_none: "c \<noteq> CHR 0x26 \<Longrightarrow> find (\<lambda>(e, _). take (length e) (c # cs) = e) entities = None"
  by (simp add: entities_def)

lemma unescape_char: "html_unescape (html_char c @ cs) = (if c = CHR 0x00 then [CHR 0xEF, CHR 0xBF, CHR 0xBD] else [c]) @ html_unescape cs"
proof (cases c rule: html_char_cases)
  case 1
  then show ?thesis by (simp add: html_char_def find_entity_none)
next
  case 2
  then show ?thesis by (auto simp: html_char_def entities_def)
next
  case 3
  then show ?thesis by (simp add: find_entity_none)
qed

lemma unescape_escape: "html_unescape (html_escape s) = shown s"
  by (induction s) (simp_all add: html_escape_def shown_def unescape_char)

lemma html_escape_safe: "set (html_escape s) \<inter> {CHR 0x22, CHR 0x27, CHR 0x3C, CHR 0x3E} = {}"
  by (auto simp: html_escape_def html_char_def split: if_splits)

lemma unescape_plain: "CHR 0x26 \<notin> set s \<Longrightarrow> html_unescape s = s"
proof (induction s)
  case (Cons c s)
  then have "c \<noteq> CHR 0x26" "html_unescape s = s" by auto
  then show ?case by (simp add: find_entity_none)
qed simp

declare html_unescape.simps(2) [simp del]

subsection \<open>Scanning the page\<close>

lemma scan_value: "CHR 0x22 \<notin> set s \<Longrightarrow> fold scan_char s (InValue n v, out) = (InValue n (v @ s), out)"
  by (induction s arbitrary: v) auto

lemma scan_text: "CHR 0x22 \<notin> set s \<Longrightarrow> \<exists>w'. fold scan_char s (InMarkup w, out) = (InMarkup w', out)"
proof (induction s arbitrary: w)
  case (Cons c s)
  then show ?case by (cases "blank c") auto
qed simp

lemma scan_escaped: "fold scan_char (html_escape s) (InValue n v, out) = (InValue n (v @ html_escape s), out)"
  using html_escape_safe [of s] by (auto intro: scan_value)

lemma scan_message: obtains w' where "fold scan_char (html_escape s) (InMarkup w, out) = (InMarkup w', out)"
  using scan_text [of "html_escape s" w out] html_escape_safe [of s] by blast

lemmas markup_simps = ln_def blank_def numeral_eq_Suc

lemma scan_head: "fold scan_char page_head (InMarkup w, out) = (InMarkup [], out)"
  unfolding page_head_def by (simp add: markup_simps)

definition grid_style :: string where
  "grid_style = concat
     [ln 0 '''', ln 2 ''display:grid;'', ln 2 ''gap:3px;'', ln 2 ''grid-template-columns: 9em 20em;'',
      replicate 2 CHR 0x09 @ ''margin-bottom: 10px;'']"

lemma scan_error:
  "fold scan_char error_open (InMarkup [], out) =
     (InMarkup ''>'', out @ [(''style'', ''color:red'')])"
  "fold scan_char error_close (InMarkup w, out) = (InMarkup [], out)"
  by (simp_all add: error_open_def error_close_def markup_simps)

lemma scan_status:
  "fold scan_char page_status (InMarkup [], out) =
     (InValue ''style'' ''background-color:'',
      out @ [(''action'', ''''), (''method'', ''POST''), (''style'', grid_style),
        (''style'', ''display:flex; flex-direction:row; align-items:center; gap:3px''), (''class'', ''circle'')])"
  "fold scan_char status_open (InValue n v, out) =
     (InMarkup ''<span>'', out @ [(n, v @ '';'')])"
  by (simp_all add: page_status_def status_open_def grid_style_def markup_simps)

lemma scan_inputs:
  "fold scan_char page_token (InMarkup w, out) = (InValue ''value'' '''', out @ [(''type'', ''text''), (''name'', ''token'')])"
  "fold scan_char page_env (InValue n v, out) =
     (InValue ''value'' '''', out @ [(n, v), (''type'', ''text''), (''name'', ''env'')])"
  "fold scan_char page_program (InValue n v, out) =
     (InValue ''value'' '''', out @ [(n, v), (''type'', ''text''), (''name'', ''programName'')])"
  "fold scan_char page_buttons (InValue n v, out) =
     (InMarkup [], out @ [(n, v), (''type'', ''submit''), (''value'', ''Reconnect''), (''name'', ''connect''),
        (''type'', ''submit''), (''value'', ''Disconnect''), (''name'', ''disconnect'')])"
  by (simp_all add: page_token_def page_env_def page_program_def page_buttons_def markup_simps)

lemma scan_end:
  "fold scan_char (if b then [] else '' disabled '') (InMarkup [], out) = (InMarkup [], out)"
  "fold scan_char page_end (InMarkup [], out) = (InMarkup [], out)"
  by (simp_all add: page_end_def markup_simps)

lemma ConnColor_letters: "ConnColor td \<in> {''red'', ''green'', ''''}" "html_escape (ConnColor td) = ConnColor td"
  "CHR 0x26 \<notin> set (ConnColor td)" "CHR 0x22 \<notin> set (ConnColor td)"
  by (auto simp: ConnColor_def html_escape_def html_char_def)

definition error_text :: "templateData \<Rightarrow> string" where
  "error_text td = (if td_ErrMsg td = '''' then [] else error_open @ html_escape (td_ErrMsg td) @ error_close)"

definition error_attributes :: "templateData \<Rightarrow> (string \<times> string) list" where
  "error_attributes td = (if td_ErrMsg td = '''' then [] else [(''style'', ''color:red'')])"

lemma page_parts:
  "config_page td =
     page_head @ error_text td @ page_status @ ConnColor td @ status_open @ html_escape (ConnStatus td) @
     page_token @ html_escape (td_Token td) @ page_env @ html_escape (td_Env td) @
     page_program @ html_escape (td_Program td) @ page_buttons @
     (if DisconnectEnabled td then [] else '' disabled '') @ page_end"
  by (simp add: config_page_def configPageTemplate_def page_error_def error_text_def ConnColor_letters(2))

lemma scan_error_text: "fold scan_char (error_text td) (InMarkup [], out) = (InMarkup [], out @ error_attributes td)"
proof (cases "td_ErrMsg td = ''''")
  case False
  obtain w' where "fold scan_char (html_escape (td_ErrMsg td)) (InMarkup ''>'', out @ [(''style'', ''color:red'')]) =
      (InMarkup w', out @ [(''style'', ''color:red'')])"
    by (rule scan_message)
  with False show ?thesis
    by (simp add: error_text_def error_attributes_def scan_error)
qed (simp add: error_text_def error_attributes_def)

text \<open>All attributes of a page, in order.\<close>

lemma attributes_page:
  "attributes (config_page td) =
     error_attributes td @
     [(''action'', ''''), (''method'', ''POST''), (''style'', grid_style),
      (''style'', ''display:flex; flex-direction:row; align-items:center; gap:3px''), (''class'', ''circle''),
      (''style'', ''background-color:'' @ ConnColor td @ '';''),
      (''type'', ''text''), (''name'', ''token''), (''value'', html_escape (td_Token td)),
      (''type'', ''text''), (''name'', ''env''), (''value'', html_escape (td_Env td)),
      (''type'', ''text''), (''name'', ''programName''), (''value'', html_escape (td_Program td)),
      (''type'', ''submit''), (''value'', ''Reconnect''), (''name'', ''connect''),
      (''type'', ''submit''), (''value'', ''Disconnect''), (''name'', ''disconnect'')]"
proof -
  define out where "out = error_attributes td @ [(''action'', ''''), (''method'', ''POST''), (''style'', grid_style),
      (''style'', ''display:flex; flex-direction:row; align-items:center; gap:3px''), (''class'', ''circle''),
      (''style'', (''background-color:'' @ ConnColor td) @ '';'')]"
  obtain w' where s: "fold scan_char (html_escape (ConnStatus td)) (InMarkup ''<span>'', out) = (InMarkup w', out)"
    by (rule scan_message)
  have "fold scan_char (page_head @ error_text td @ page_status @ ConnColor td @ status_open) (InMarkup [], []) =
      (InMarkup ''<span>'', out)"
    by (simp add: scan_head scan_error_text scan_status scan_value ConnColor_letters(4) out_def)
  with s show ?thesis
    unfolding attributes_def page_parts fold_append comp_apply
    by (simp add: scan_inputs scan_end scan_escaped) (simp add: out_def)
qed

subsection \<open>The markup\<close>

definition markup :: "string \<Rightarrow> string" where
  "markup s = filter (\<lambda>c. c \<in> {CHR 0x22, CHR 0x27, CHR 0x3C, CHR 0x3E}) s"

lemma markup_append: "markup (a @ b) = markup a @ markup b"
  by (simp add: markup_def)

lemma markup_escaped: "markup (html_escape s) = []"
  using html_escape_safe [of s] by (auto simp: markup_def filter_empty_conv)

text \<open>
  C34. The configuration page shows what the handler was given and nothing else: a reader of the page finds
  the token, the environment and the program name of the connection (of the handler while there is none) as the values of
  the three inputs, whatever bytes they hold, in the order and under the names that the form sends back (only a NUL is
  shown as U+FFFD); and no value can change the markup: the tags and quotes of the page are those of a page with empty fields.
\<close>

theorem config_page_shows_config:
  "let td = handleGet cur errMsg h st;
       connected = Conn_Status cur (se_conn st) \<in> {ConnConnected, ConnConnecting};
       cfg = (if connected then sc_ActiveConfig (se_conn st) else hh_config h)
   in map (\<lambda>(a, v). (a, html_unescape v)) (filter (\<lambda>(a, v). a \<in> {''name'', ''value''}) (attributes (config_page td))) =
        [(''name'', ''token''), (''value'', shown (cf_TenantToken cfg)),
         (''name'', ''env''), (''value'', shown (cf_Environment cfg)),
         (''name'', ''programName''), (''value'', shown (cf_ProgramName cfg)),
         (''value'', ''Reconnect''), (''name'', ''connect''), (''value'', ''Disconnect''), (''name'', ''disconnect'')] \<and>
      markup (config_page td) =
        markup (config_page (td\<lparr>td_Token := '''', td_Env := '''', td_Program := '''',
          td_ErrMsg := (if errMsg = '''' then '''' else ''x'')\<rparr>))"
proof -
  have plain: "html_unescape s = s"
    if "s \<in> set [''token'', ''env'', ''programName'', ''Reconnect'', ''connect'', ''Disconnect'', ''disconnect'']" for s
    using that by (auto intro!: unescape_plain)
  have skeleton: "markup (config_page td) = markup (config_page (td\<lparr>td_Token := '''', td_Env := '''', td_Program := '''',
      td_ErrMsg := (if td_ErrMsg td = '''' then '''' else ''x'')\<rparr>))" for td
    by (simp add: page_parts markup_append markup_escaped error_text_def ConnColor_def DisconnectEnabled_def)
  have "td_ErrMsg (handleGet cur errMsg h st) = errMsg" by (simp add: handleGet_def Let_def)
  then show ?thesis
    using skeleton [of "handleGet cur errMsg h st"]
    unfolding Let_def attributes_page
    by (simp add: error_attributes_def unescape_escape plain) (simp add: handleGet_def Let_def)
qed

end
