(* ===== verification/Spec2Isabelle.thy ===== *)
theory Spec2Isabelle
  imports Side_Eye_Prelude Framing Fifo Snapshot_Program Stop_The_World Signal_Handler Out_Buf Snap_Queue
    Op_Decoder Opcode_String Type_Resolver Stack_Machine Machine_Inv Machine_Props Machine_Exprs Op_Outcomes Byte_Code_Typing
    Go_Context Unwinder Murmur Allgs Boot_Time Snapshot Snapshot_Inv Snapshot_Props Snapshot_Stacks
    Server_Dial Fetcher Server_Rpc Server_Snapshot Server_Capture Exec_Trace
    Side_Eye_Conn Conn_Race Api_Client Side_Eye
    Snapshot_Heap Type_Programs Type_Code Frame_Code Heap_Capture Snapshot_Objects Typed_Snapshot Kernel_Layout Signal_Memory World_Calls Wrapped_Conn Config_Page
begin

text \<open>
  side-eye-go is the library that a Go program links to let the Side-Eye service take snapshots of it: the
  stacks of its goroutines and the objects reachable from the frames of interest, captured while the world
  is stopped. This development models the library's own code and proves what makes it correct.

  \<^bold>\<open>The snapshotter\<close>, from the data up:

  \<^item> \<open>internal/framing\<close> (theory Framing): the layout of the captured data.
  \<^item> \<open>internal/fifo\<close> (Fifo): a queue of ring buffers on an explicit heap of nodes, with a free list;
    \<open>internal/snapshot/queue.go\<close> (Snap_Queue): the work queue with the set of the keys already recorded.
  \<^item> \<open>internal/snapshot/out_buf.go\<close> (Out_Buf): the output buffer, a slice on a backing array that is
    accessed through unchecked pointers; offsets are 32-bit words and wrap.
  \<^item> \<open>internal/stoptheworld\<close> (Stop_The_World): the bracket that stops the world and installs the signal
    handler of the platform, what is left of the process by the way in which its body ends, and \<open>Dereference\<close>, the guarded read of memory; (Signal_Handler): the handler itself, on the
    saved registers of both platforms, which is why \<open>Dereference\<close> and the wrapper can return false;
    (Kernel_Layout): the structs shared with the kernels, as the compiler lays them out; (Signal_Memory): the
    handler on the bytes of the saved context, and the signal actions it is installed with and puts back;
    (World_Calls): the function values through which the runtime stops and starts the world.
  \<^item> \<open>internal/stackmachine\<close> (Op_Decoder, Opcode_String): the byte code and its decoder.
  \<^item> \<open>internal/moduledata\<close> and the resolvers of \<open>snapshot.go\<close> (Type_Resolver): type addresses to type ids.
  \<^item> \<open>internal/snapshot/stack_machine.go\<close> (Stack_Machine; its invariant in Machine_Inv, its programs in
    Machine_Props and Machine_Exprs, its loop over Go contexts in Go_Context): the interpreter of the byte
    code, one function per operation. Op_Outcomes has the outcomes of each operation: the panics it can have,
    when it stops the run, and where it leaves the decoder and the stack; Byte_Code_Typing a type system for
    byte code, by the height of the operand stack at every operation, and what it excludes.
  \<^item> \<open>internal/snapshot/unwinder*.go\<close> (Unwinder), \<open>murmur2\<close> (Murmur), \<open>internal/allgs\<close> (Allgs),
    \<open>internal/boottime\<close> (Boot_Time).
  \<^item> \<open>internal/snapshot/snapshot.go\<close> (Snapshot; Snapshot_Inv, Snapshot_Props, Snapshot_Stacks): one
    goroutine, all goroutines, the traversal of the queue and the whole snapshot. What the traversal captures
    is stated against an abstract heap: Snapshot_Heap has the objects in memory, the references between them and what
    is reachable; Type_Programs the meaning of the operations that enqueue, and Type_Code that of the programs of
    types (sequences, subroutines, loops over elements, the headers of maps), and that the interpreter
    implements it, step by step; Frame_Code has the programs of frames, and that \<open>runFrames\<close> captures the frames of a
    goroutine and queues what their variables refer to; Heap_Capture that \<open>processQueue\<close> writes exactly the
    reachable objects; Snapshot_Objects that the answer of a snapshot holds them; Typed_Snapshot that with a
    typed program no run leaves anything on the stack for the next one.

  \<^bold>\<open>The agent and its connection\<close>, from the wire up:

  \<^item> \<open>internal/serverdial\<close> (Server_Dial): the listener that dials the service and hands its one connection
    to gRPC, as a step relation; (Wrapped_Conn): the connection it hands out.
  \<^item> \<open>internal/server\<close> (Fetcher, Server_Rpc, Server_Snapshot, Server_Capture, Exec_Trace): the RPCs of the
    agent; the snapshot RPC composes the fetcher with \<open>Snapshot\<close>, the trace is a step relation of three
    parties.
  \<^item> \<open>internal/sideeyeconn\<close> (Side_Eye_Conn): \<open>Connect\<close> and \<open>Close\<close> as functions with a log of the calls on
    what they create; (Conn_Race): the same operations interleaved.
  \<^item> \<open>internal/apiclient\<close>, \<open>sideeyeclient\<close> (Api_Client) and \<open>sideeye\<close> (Side_Eye): the clients of the API, the
    options, \<open>CaptureSelfSnapshot\<close> and the requests to the configuration page; (Config_Page): the page itself.

  \<^bold>\<open>How state and effects are modelled.\<close> Every operation takes its state and returns it updated, in
  \<open>fault + 'a\<close>: the run-time panics of Go and the accesses outside the backing array of the buffer are
  values (theory Side_Eye_Prelude); errors that the code returns are datatypes. What a fault with the world stopped does is part of
  the result (\<open>aftermath\<close>): a segmentation fault is recovered by the handler, a panic ends the process, since the runtime throws
  while preemption is off, and after an access behind an array nothing is known. The memory of the process is a
  partial map from addresses to bytes and does not change while the world is stopped. A loop without a
  static bound is \<open>loopR\<close>, whose result is \<open>None\<close> when it does not return; the bound of the interpreter
  (100000 operations) is that of the code. Calls that can block (of gRPC, of a wait group, of the network) are taken to return in the
  functional models; the step relations say when they do not. Concurrent code is an inductive step relation with one rule per
  atomic action, and \<open>reachable\<close> gives the states of its runs. Packages outside the repository and the
  system (gRPC, \<open>singleflight\<close>, the network, \<open>url.Parse\<close>, the clocks, \<open>pprof\<close>, \<open>sigaction\<close>) are parameters: what their
  calls return is an input, and what is called is part of the result.
  The interfaces between the parts are locales (\<open>fifo\<close>, \<open>work_list\<close>, \<open>struct_layout\<close>, \<open>loop_inv\<close>,
  \<open>loop_measure\<close>, \<open>transition_inv\<close>), each interpreted on the code's own definitions.

  \<^bold>\<open>What the lemmas show.\<close> Every operation of the snapshotter keeps its invariant (\<open>ob_rel\<close>, \<open>qu_rel\<close>,
  \<open>machine_rel\<close>, \<open>snap_rel\<close>); what each writer writes and where; that the queue refines a list and hands out
  each object once; that the traversal ends on every memory, and writes the graph of
  the reachable objects, byte for byte, when it fits (\<open>object_graph\<close>); that at every state of its run typed byte code
  takes only words of its own subroutine and returns only to the latest return address that was pushed (\<open>safe_at\<close>), ends with an empty stack, and is not cut off by the bound
  of the interpreter when its own cost (\<open>cost_of\<close>) is below it; that a fault in a guarded read is its failure;
  that a snapshot that returns an answer or an error leaves the process as it found it, the signal actions included, and that the
  handler on bytes does what the handler on registers does. The step relations keep theirs
  (\<open>listener_inv\<close>, \<open>clean\<close>, \<open>conn_inv\<close>): one connection at a time, traces that end, resources that are
  released. Where the code does not do what it means to (a full buffer, a cyclic context, a loop that is too long, a run on the stack of a failed one, a connection that
  nobody accepts, a message that cannot be sent, calls at the same time, a foreign fault on darwin), a
  theorem states what it does.

  \<^bold>\<open>Bounds.\<close> The theorems on the object graph assume that the types are given by their code (\<open>coded_type\<close>): a
  tree (\<open>type_code\<close>) of the operations that enqueue and advance, with subroutines, loops and saved offsets, that stays
  inside the object (\<open>code_fit\<close>) and takes fewer than the 100000 steps of the interpreter (\<open>code_steps\<close>, which
  grows with the elements of a slice); and that the reachable objects are finitely many and fit into the buffer
  (\<open>heap_fits\<close>). A loop that takes longer is cut off and leaves its counter on the stack
  (\<open>long_loop_spoils_traversal\<close>). The programs of frames are given in the same way (\<open>coded_frame\<close>: variables on
  the stack and in registers, and the code of their types). For other programs (Go contexts, expressions, functions that
  are classified, recursion) the invariants
  and the termination hold, the theorems about the single operations, and the safety of typed byte code
  (\<open>Run_type_safe\<close>), which has no restriction on the operations; \<open>typed_snapshot\<close> asks that the programs of
  the types and frames are typed, cannot stop before the buffer is full, and cost at most 100000 steps, and \<open>typed_frames\<close>,
  on which the theorem about the heap of a snapshot rests, asks it of the frames alone.

  \<^bold>\<open>Not modelled.\<close> The generated protobuf and gRPC code other than the messages that are read and written
  here; the constants of the kernel definitions that nothing uses; the floating point registers that the handler on
  arm64 saves and restores around itself; the getters of the fingerprints; the data of an execution trace.
\<close>

end
